(* ===== verification/Prelude.thy ===== *)
theory Prelude
  imports Main "HOL-Library.Word"
begin

text \<open>
  Shared vocabulary of the development: the machine integer types of the Rust sources, byte
  strings, the big-endian and little-endian encodings of \<^verbatim>\<open>to_be_bytes\<close> and
  \<^verbatim>\<open>from_be_bytes\<close>, the slice operations (\<^verbatim>\<open>&b[i..j]\<close>,
  \<^verbatim>\<open>chunks\<close>, \<^verbatim>\<open>resize\<close>), and the generic lemmas about them that every
  component uses.

  Conventions.  A fixed-width integer is a \<open>w word\<close>; a \<^verbatim>\<open>usize\<close> that is
  the length or an index of a slice in memory is a \<open>nat\<close>.  A \<^verbatim>\<open>Result\<close> is a sum
  (\<open>Inl\<close> the error, \<open>Inr\<close> the value); a panic or a \<^verbatim>\<open>None\<close> is
  \<open>None\<close>.  The workspace is built with \<^verbatim>\<open>overflow-checks = true\<close>, so an
  arithmetic overflow is a panic and never a silent wrap.
\<close>

unbundle bit_operations_syntax

section \<open>Machine integers and byte strings\<close>

type_synonym u8 = "8 word"
type_synonym u16 = "16 word"
type_synonym u32 = "32 word"
type_synonym u64 = "64 word"
type_synonym bytes = "u8 list"

named_theorems be_simps \<open>big-endian encodings: lengths and inverses\<close>
named_theorems slice_simps \<open>taking slices of concatenations\<close>

lemma unat_u8_lt: "unat (b :: u8) < 256"
  using unsigned_less [of b] by simp

lemma unat_u16_lt: "unat (b :: u16) < 65536"
  using unsigned_less [of b] by simp

lemma unat_u32_lt: "unat (b :: u32) < 4294967296"
  using unsigned_less [of b] by simp

lemma unat_u64_lt: "unat (b :: u64) < 18446744073709551616"
  using unsigned_less [of b] by simp

lemma unat_of_nat_u8: "n < 256 \<Longrightarrow> unat (of_nat n :: u8) = n"
  by (simp add: unsigned_of_nat take_bit_nat_eq_self)

lemma unat_of_nat_u32: "n < 4294967296 \<Longrightarrow> unat (of_nat n :: u32) = n"
  by (simp add: unsigned_of_nat take_bit_nat_eq_self)

lemma unat_of_nat_u64: "n < 18446744073709551616 \<Longrightarrow> unat (of_nat n :: u64) = n"
  by (simp add: unsigned_of_nat take_bit_nat_eq_self)

lemma unat_of_nat_u8_mod: "unat (of_nat n :: u8) = n mod 256"
  by (simp add: unsigned_of_nat take_bit_eq_mod)

text \<open>Rust's \<^verbatim>\<open>checked_mul\<close> on \<^verbatim>\<open>u64\<close>: \<open>None\<close> on overflow.\<close>

definition checked_mul_u64 :: "nat \<Rightarrow> nat \<Rightarrow> nat option" where
  "checked_mul_u64 a b = (if a * b < 2 ^ 64 then Some (a * b) else None)"

section \<open>Big-endian numbers\<close>

text \<open>The value of a byte string read big-endian, of any length.\<close>

definition nat_of_be :: "bytes \<Rightarrow> nat" where
  "nat_of_be bs = foldl (\<lambda>acc b. acc * 256 + unat b) 0 bs"

text \<open>The \<open>k\<close> bytes of the big-endian encoding of a number modulo \<open>256 ^ k\<close>.\<close>

primrec be_bytes :: "nat \<Rightarrow> nat \<Rightarrow> bytes" where
  "be_bytes 0 v = []"
| "be_bytes (Suc k) v = be_bytes k (v div 256) @ [of_nat (v mod 256)]"

definition le_bytes :: "nat \<Rightarrow> nat \<Rightarrow> bytes" where
  "le_bytes k v = rev (be_bytes k v)"

definition nat_of_le :: "bytes \<Rightarrow> nat" where
  "nat_of_le bs = nat_of_be (rev bs)"

lemma nat_of_be_Nil [simp]: "nat_of_be [] = 0"
  by (simp add: nat_of_be_def)

lemma nat_of_be_snoc [simp]: "nat_of_be (bs @ [b]) = nat_of_be bs * 256 + unat b"
  by (simp add: nat_of_be_def)

lemma nat_of_be_append: "nat_of_be (xs @ ys) = nat_of_be xs * 256 ^ length ys + nat_of_be ys"
proof (induction ys rule: rev_induct)
  case Nil
  then show ?case by simp
next
  case (snoc y ys)
  have "nat_of_be (xs @ ys @ [y]) = nat_of_be (xs @ ys) * 256 + unat y"
    by (metis append_assoc nat_of_be_snoc)
  with snoc.IH show ?case by (simp add: algebra_simps)
qed

lemma nat_of_be_single [simp]: "nat_of_be [b] = unat b"
  using nat_of_be_snoc [of "[]" b] by simp

lemma nat_of_be_Cons: "nat_of_be (b # bs) = unat b * 256 ^ length bs + nat_of_be bs"
  using nat_of_be_append [of "[b]" bs] by simp

lemma nat_of_be_less: "nat_of_be bs < 256 ^ length bs"
proof (induction bs rule: rev_induct)
  case Nil
  then show ?case by simp
next
  case (snoc b bs)
  then have "nat_of_be bs * 256 + 256 \<le> 256 ^ length bs * 256"
    by (metis Suc_leI add.commute mult_Suc mult_le_mono1)
  with unat_u8_lt [of b] show ?case by simp
qed

lemma length_be_bytes [simp, be_simps]: "length (be_bytes k v) = k"
  by (induction k arbitrary: v) simp_all

lemma nat_of_be_be_bytes [be_simps]: "nat_of_be (be_bytes k v) = v mod 256 ^ k"
proof (induction k arbitrary: v)
  case 0
  then show ?case by simp
next
  case (Suc k)
  have "v mod 256 ^ Suc k = v mod (256 * 256 ^ k)" by simp
  also have "\<dots> = 256 * (v div 256 mod 256 ^ k) + v mod 256"
    by (rule mod_mult2_eq)
  finally show ?case
    by (simp add: Suc.IH unat_of_nat_u8)
qed

lemma be_bytes_nat_of_be [be_simps]: "be_bytes (length bs) (nat_of_be bs) = bs"
proof (induction bs rule: rev_induct)
  case Nil
  then show ?case by simp
next
  case (snoc b bs)
  have "(nat_of_be bs * 256 + unat b) div 256 = nat_of_be bs"
    using unat_u8_lt [of b] by simp
  moreover have "(nat_of_be bs * 256 + unat b) mod 256 = unat b"
    using unat_u8_lt [of b] by simp
  ultimately show ?case using snoc.IH by simp
qed

lemma be_bytes_eqI: "length bs = k \<Longrightarrow> be_bytes k (nat_of_be bs) = bs"
  using be_bytes_nat_of_be by blast

lemma nat_of_be_inj: "length xs = length ys \<Longrightarrow> nat_of_be xs = nat_of_be ys \<Longrightarrow> xs = ys"
  by (metis be_bytes_nat_of_be)

lemma nat_of_be_exact: "v < 256 ^ k \<Longrightarrow> nat_of_be (be_bytes k v) = v"
  by (simp add: nat_of_be_be_bytes)

lemma be_bytes_word:
  fixes w :: "'a :: len word"
  assumes "LENGTH('a) \<le> 8 * k"
  shows "of_nat (nat_of_be (be_bytes k (unat w))) = w"
proof -
  have "unat w < 2 ^ (8 * k)"
    using assms by (intro less_le_trans [OF unsigned_less] power_increasing) simp_all
  also have "(2 :: nat) ^ (8 * k) = 256 ^ k" by (simp add: power_mult)
  finally show ?thesis by (simp add: nat_of_be_exact)
qed

lemma length_le_bytes [simp, be_simps]: "length (le_bytes k v) = k"
  by (simp add: le_bytes_def)

lemma nat_of_le_le_bytes [be_simps]: "nat_of_le (le_bytes k v) = v mod 256 ^ k"
  by (simp add: le_bytes_def nat_of_le_def nat_of_be_be_bytes)

lemma le_bytes_nat_of_le: "length bs = k \<Longrightarrow> le_bytes k (nat_of_le bs) = bs"
  by (simp add: le_bytes_def nat_of_le_def be_bytes_eqI)

text \<open>\<^verbatim>\<open>uN::to_be_bytes\<close> and \<^verbatim>\<open>uN::from_be_bytes\<close>.\<close>

definition u16_to_be :: "u16 \<Rightarrow> bytes" where
  "u16_to_be x = be_bytes 2 (unat x)"

definition u16_from_be :: "bytes \<Rightarrow> u16" where
  "u16_from_be bs = of_nat (nat_of_be bs)"

definition u32_to_be :: "u32 \<Rightarrow> bytes" where
  "u32_to_be x = be_bytes 4 (unat x)"

definition u32_from_be :: "bytes \<Rightarrow> u32" where
  "u32_from_be bs = of_nat (nat_of_be bs)"

definition u64_to_be :: "u64 \<Rightarrow> bytes" where
  "u64_to_be x = be_bytes 8 (unat x)"

definition u64_from_be :: "bytes \<Rightarrow> u64" where
  "u64_from_be bs = of_nat (nat_of_be bs)"

lemma length_u16_to_be [simp, be_simps]: "length (u16_to_be x) = 2"
  by (simp add: u16_to_be_def)

lemma length_u32_to_be [simp, be_simps]: "length (u32_to_be x) = 4"
  by (simp add: u32_to_be_def)

lemma length_u64_to_be [simp, be_simps]: "length (u64_to_be x) = 8"
  by (simp add: u64_to_be_def)

lemma u16_from_to_be [simp, be_simps]: "u16_from_be (u16_to_be x) = x"
  using unat_u16_lt [of x] by (simp add: u16_from_be_def u16_to_be_def nat_of_be_be_bytes)

lemma u32_from_to_be [simp, be_simps]: "u32_from_be (u32_to_be x) = x"
  using unat_u32_lt [of x] by (simp add: u32_from_be_def u32_to_be_def nat_of_be_be_bytes)

lemma u64_from_to_be [simp, be_simps]: "u64_from_be (u64_to_be x) = x"
  using unat_u64_lt [of x] by (simp add: u64_from_be_def u64_to_be_def nat_of_be_be_bytes)

lemma u16_to_from_be [be_simps]: "length bs = 2 \<Longrightarrow> u16_to_be (u16_from_be bs) = bs"
  using nat_of_be_less [of bs]
  by (simp add: u16_to_be_def u16_from_be_def unsigned_of_nat take_bit_nat_eq_self be_bytes_eqI)

lemma u32_to_from_be [be_simps]: "length bs = 4 \<Longrightarrow> u32_to_be (u32_from_be bs) = bs"
  using nat_of_be_less [of bs]
  by (simp add: u32_to_be_def u32_from_be_def unsigned_of_nat take_bit_nat_eq_self be_bytes_eqI)

lemma u64_to_from_be [be_simps]: "length bs = 8 \<Longrightarrow> u64_to_be (u64_from_be bs) = bs"
  using nat_of_be_less [of bs]
  by (simp add: u64_to_be_def u64_from_be_def unsigned_of_nat take_bit_nat_eq_self be_bytes_eqI)

section \<open>Slices\<close>

text \<open>\<^verbatim>\<open>&xs[i..j]\<close>, for \<open>i \<le> j \<le> length xs\<close> (the sources check the length first).\<close>

definition slice :: "nat \<Rightarrow> nat \<Rightarrow> 'a list \<Rightarrow> 'a list" where
  "slice i j xs = take (j - i) (drop i xs)"

lemma length_slice [simp]: "i \<le> j \<Longrightarrow> j \<le> length xs \<Longrightarrow> length (slice i j xs) = j - i"
  by (simp add: slice_def)

lemma slice_append_left [slice_simps]: "j \<le> length xs \<Longrightarrow> slice i j (xs @ ys) = slice i j xs"
proof -
  assume j: "j \<le> length xs"
  show ?thesis
  proof (cases "i \<le> length xs")
    case True
    with j show ?thesis by (simp add: slice_def)
  next
    case False
    with j show ?thesis by (simp add: slice_def)
  qed
qed

lemma slice_append_right [slice_simps]:
  "length xs \<le> i \<Longrightarrow> slice i j (xs @ ys) = slice (i - length xs) (j - length xs) ys"
  by (simp add: slice_def)

lemma slice_take_drop: "i \<le> j \<Longrightarrow> slice i j xs @ drop j xs = drop i xs"
  by (simp add: slice_def) (metis append_take_drop_id drop_drop le_add_diff_inverse2)

lemma slice_join: "i \<le> j \<Longrightarrow> j \<le> k \<Longrightarrow> slice i j xs @ slice j k xs = slice i k xs"
proof -
  assume "i \<le> j" and "j \<le> k"
  then obtain a b where "j = i + a" and "k = i + a + b"
    by (metis le_Suc_ex)
  then show ?thesis
    by (simp add: slice_def take_add drop_drop add.commute)
qed

lemma slice_Cons [slice_simps]: "0 < i \<Longrightarrow> slice i j (x # xs) = slice (i - 1) (j - 1) xs"
  by (cases i) (simp_all add: slice_def)

lemma slice_alt: "slice i j xs = drop i (take j xs)"
  by (simp add: slice_def drop_take)

lemma slice_take: "j \<le> n \<Longrightarrow> slice i j (take n xs) = slice i j xs"
  by (simp add: slice_alt min_def)

lemma slice_zero [simp]: "slice 0 j xs = take j xs"
  by (simp add: slice_def)

lemma slice_pair: "Suc i < length xs \<Longrightarrow> [xs ! i, xs ! Suc i] = slice i (i + 2) xs"
  by (simp add: slice_def numeral_2_eq_2 take_Suc_conv_app_nth)

lemma slice_single: "i < length xs \<Longrightarrow> [xs ! i] = slice i (Suc i) xs"
  by (simp add: slice_def take_Suc_conv_app_nth)

text \<open>\<^verbatim>\<open>xs.chunks(k)\<close>: consecutive pieces of length \<open>k\<close>, the last one shorter.\<close>

fun chunks :: "nat \<Rightarrow> 'a list \<Rightarrow> 'a list list" where
  "chunks k xs = (if xs = [] \<or> k = 0 then [] else take k xs # chunks k (drop k xs))"

declare chunks.simps [simp del]

lemma chunks_Nil [simp]: "chunks k [] = []"
  by (simp add: chunks.simps)

lemma chunks_step: "xs \<noteq> [] \<Longrightarrow> 0 < k \<Longrightarrow> chunks k xs = take k xs # chunks k (drop k xs)"
  by (simp add: chunks.simps [of k xs])

lemma concat_chunks: "0 < k \<Longrightarrow> concat (chunks k xs) = xs"
proof (induction k xs rule: chunks.induct)
  case (1 k xs)
  then show ?case by (cases "xs = []") (simp_all add: chunks_step)
qed

lemma chunks_append:
  "length xs = k \<Longrightarrow> 0 < k \<Longrightarrow> chunks k (xs @ ys) = xs # chunks k ys"
  by (subst chunks_step) auto

lemma length_in_chunks: "c \<in> set (chunks k xs) \<Longrightarrow> 0 < length c \<and> length c \<le> k"
proof (induction k xs rule: chunks.induct)
  case (1 k xs)
  show ?case
  proof (cases "xs = [] \<or> k = 0")
    case True
    with "1.prems" show ?thesis by (auto simp: chunks.simps [of k xs])
  next
    case False
    with "1.prems" have "c = take k xs \<or> c \<in> set (chunks k (drop k xs))"
      by (simp add: chunks.simps [of k xs])
    with False "1.IH" show ?thesis by auto
  qed
qed

lemma chunks_concat:
  "0 < k \<Longrightarrow> \<forall>c \<in> set cs. length c = k \<Longrightarrow> chunks k (concat cs) = cs"
  by (induction cs) (simp_all add: chunks_append)

lemma chunks_exact:
  "0 < k \<Longrightarrow> length xs = k * m \<Longrightarrow>
    length (chunks k xs) = m \<and> (\<forall>c \<in> set (chunks k xs). length c = k)"
proof (induction m arbitrary: xs)
  case (Suc m)
  then have "xs \<noteq> []" by auto
  then have step: "chunks k xs = take k xs # chunks k (drop k xs)"
    using Suc.prems by (simp add: chunks_step)
  have "length (drop k xs) = k * m" using Suc.prems by simp
  from Suc.IH [OF Suc.prems(1) this] show ?case
    using Suc.prems by (simp add: step min_def)
qed simp

lemma chunks_nth:
  "0 < k \<Longrightarrow> g * k < length xs \<Longrightarrow> chunks k xs ! g = slice (g * k) (g * k + k) xs"
proof (induction g arbitrary: xs)
  case 0
  then show ?case by (simp add: chunks_step slice_def)
next
  case (Suc g)
  then have "xs \<noteq> []" by auto
  moreover have "chunks k (drop k xs) ! g = slice (g * k) (g * k + k) (drop k xs)"
    using Suc by simp
  ultimately show ?case
    using Suc.prems by (simp add: chunks_step slice_def add.commute)
qed

lemma length_chunks: "0 < k \<Longrightarrow> length (chunks k xs) = (length xs + (k - 1)) div k"
proof (induction k xs rule: chunks.induct)
  case (1 k xs)
  show ?case
  proof (cases "xs = []")
    case False
    with 1 have "length (chunks k xs) = Suc ((length xs - k + (k - 1)) div k)"
      by (simp add: chunks_step)
    also have "\<dots> = (length xs + (k - 1)) div k"
    proof (cases "length xs < k")
      case True
      from True False have "length xs + (k - 1) = k + (length xs - 1)"
        by (cases xs) simp_all
      moreover have "(k + (length xs - 1)) div k = Suc ((length xs - 1) div k)"
        and "(length xs - 1) div k = 0"
        using "1.prems" True by (simp_all only: div_add_self1) simp_all
      ultimately show ?thesis using "1.prems" True by simp
    next
      case False
      then have "length xs + (k - 1) = k + (length xs - k + (k - 1))" by simp
      with "1.prems" show ?thesis by (simp only: div_add_self1)
    qed
    finally show ?thesis .
  qed (use "1.prems" in simp)
qed

text \<open>\<^verbatim>\<open>Vec::resize(n, x)\<close>: truncates or pads at the end.\<close>

definition resize :: "nat \<Rightarrow> 'a \<Rightarrow> 'a list \<Rightarrow> 'a list" where
  "resize n x xs = take n xs @ replicate (n - length xs) x"

lemma length_resize [simp]: "length (resize n x xs) = n"
  by (simp add: resize_def)

lemma resize_extend: "length xs \<le> n \<Longrightarrow> resize n x xs = xs @ replicate (n - length xs) x"
  by (simp add: resize_def)

text \<open>\<^verbatim>\<open>usize::div_ceil\<close>.\<close>

definition div_ceil :: "nat \<Rightarrow> nat \<Rightarrow> nat" where
  "div_ceil a b = (if a mod b = 0 then a div b else a div b + 1)"

lemma div_ceil_eq: "0 < b \<Longrightarrow> div_ceil a b = (a + (b - 1)) div b"
proof -
  assume b: "0 < b"
  show ?thesis
  proof (cases "a mod b = 0")
    case True
    then obtain q where "a = b * q" by auto
    moreover have "(b * q + (b - 1)) div b = q"
      using b by (simp only: div_mult_self4 div_less diff_less zero_less_one)
    ultimately show ?thesis using b by (simp add: div_ceil_def)
  next
    case False
    define q r where "q = a div b" and "r = a mod b"
    have a: "a = b * q + r" by (simp add: q_def r_def)
    have r: "0 < r" "r < b" using False b by (simp_all add: r_def)
    have "a + (b - 1) = b * Suc q + (r - 1)" using r by (simp add: a)
    moreover have "r - 1 < b" using r by simp
    ultimately have "(a + (b - 1)) div b = Suc q" using b by (simp only: div_mult_self4 div_less)
    with False show ?thesis by (simp add: div_ceil_def q_def)
  qed
qed

section \<open>Results\<close>

text \<open>
  \<open>traverse f xs\<close> is \<^verbatim>\<open>xs.iter().map(f).collect::<Result<Vec<_>, _>>()\<close>: the first error, or
  all the values in order.
\<close>

fun traverse :: "('a \<Rightarrow> 'e + 'b) \<Rightarrow> 'a list \<Rightarrow> 'e + 'b list" where
  "traverse f [] = Inr []"
| "traverse f (x # xs) =
     (case f x of Inl e \<Rightarrow> Inl e
      | Inr y \<Rightarrow> (case traverse f xs of Inl e \<Rightarrow> Inl e | Inr ys \<Rightarrow> Inr (y # ys)))"

lemma traverse_Inr_map: "(\<And>x. x \<in> set xs \<Longrightarrow> f x = Inr (g x)) \<Longrightarrow> traverse f xs = Inr (map g xs)"
  by (induction xs) auto

lemma traverse_Inr_iff:
  "traverse f xs = Inr ys \<longleftrightarrow> list_all2 (\<lambda>x y. f x = Inr y) xs ys"
proof (induction xs arbitrary: ys)
  case Nil
  then show ?case by auto
next
  case (Cons x xs)
  show ?case
    by (cases "f x"; cases "traverse f xs") (auto simp: list_all2_Cons1 simp flip: Cons.IH)
qed

lemma traverse_length: "traverse f xs = Inr ys \<Longrightarrow> length ys = length xs"
  by (auto simp: traverse_Inr_iff dest: list_all2_lengthD)

lemma traverse_nth: "traverse f xs = Inr ys \<Longrightarrow> i < length xs \<Longrightarrow> f (xs ! i) = Inr (ys ! i)"
  by (auto simp: traverse_Inr_iff dest: list_all2_nthD)

lemma traverse_Inl_split:
  assumes "\<forall>u \<in> set us. \<exists>y. f u = Inr y" and "f x = Inl e"
  shows "traverse f (us @ x # vs) = Inl e"
  using assms by (induction us) (auto split: sum.splits)

lemma traverse_Inl_first:
  assumes "traverse f xs = Inl e"
  shows "\<exists>us x vs. xs = us @ x # vs \<and> (\<forall>u \<in> set us. \<exists>y. f u = Inr y) \<and> f x = Inl e"
  using assms
proof (induction xs)
  case Nil
  then show ?case by simp
next
  case (Cons a xs)
  show ?case
  proof (cases "f a")
    case (Inl e')
    with Cons.prems have "f a = Inl e" by simp
    then have "a # xs = [] @ a # xs \<and> (\<forall>u \<in> set []. \<exists>y. f u = Inr y) \<and> f a = Inl e" by simp
    then show ?thesis by blast
  next
    case (Inr y)
    with Cons.prems have "traverse f xs = Inl e" by (auto split: sum.splits)
    then obtain us x vs where "xs = us @ x # vs" "\<forall>u \<in> set us. \<exists>y. f u = Inr y" "f x = Inl e"
      using Cons.IH by blast
    with Inr have "a # xs = (a # us) @ x # vs \<and> (\<forall>u \<in> set (a # us). \<exists>y. f u = Inr y) \<and> f x = Inl e"
      by simp
    then show ?thesis by blast
  qed
qed

section \<open>Grids, row by row\<close>

lemma posicion_menor: "x < w \<Longrightarrow> y < h \<Longrightarrow> y * w + x < w * (h :: nat)"
proof -
  assume "x < w" "y < h"
  then have "y * w + x < (y + 1) * w" by simp
  also have "\<dots> \<le> h * w" using \<open>y < h\<close> by (intro mult_right_mono) simp_all
  finally show ?thesis by (simp add: mult.commute)
qed

lemma posicion_unica: "x < w \<Longrightarrow> x' < w \<Longrightarrow> y * w + x = y' * w + x' \<longleftrightarrow> x = x' \<and> y = (y' :: nat)"
proof
  assume "x < w" "x' < w" "y * w + x = y' * w + x'"
  then have "(y * w + x) div w = (y' * w + x') div w" "(y * w + x) mod w = (y' * w + x') mod w" by simp_all
  then show "x = x' \<and> y = y'" using \<open>x < w\<close> \<open>x' < w\<close> by simp
qed simp

end
