(* ===== verification/Roundtrip.thy ===== *)
theory Roundtrip
  imports Prelude
begin

text \<open>
  The contract every serialiser of the repository offers its callers: a writer \<open>enc\<close> and a
  reader \<open>dec\<close> that takes back what the writer wrote, on the values \<open>ok\<close> the writer
  accepts.  The lemmas proved once here (the writer is injective, the reader's value is
  determined, a value that was read is the one that was written) are
  used through the interpretations in the theories of the components: the Padm\'e frame, the
  containers, the shares, the hexadecimal and Base32 texts.
\<close>

locale roundtrip =
  fixes enc :: "'a \<Rightarrow> 'b" and dec :: "'b \<Rightarrow> 'e + 'a" and ok :: "'a \<Rightarrow> bool"
  assumes dec_enc: "ok a \<Longrightarrow> dec (enc a) = Inr a"
begin

lemma enc_inj: "ok a \<Longrightarrow> ok b \<Longrightarrow> enc a = enc b \<longleftrightarrow> a = b"
  by (metis dec_enc sum.inject(2))

lemma enc_inj_on: "inj_on enc {a. ok a}"
  by (auto simp: inj_on_def enc_inj)

lemma dec_not_error: "ok a \<Longrightarrow> dec (enc a) \<noteq> Inl e"
  by (simp add: dec_enc)

end

text \<open>
  A canonical format is one whose reader accepts nothing but what the writer writes: reading
  and writing are then inverse bijections between the accepted texts and the values.
\<close>

locale canonical = roundtrip +
  assumes enc_dec: "dec b = Inr a \<Longrightarrow> ok a \<and> enc a = b"
begin

lemma dec_iff: "dec b = Inr a \<longleftrightarrow> ok a \<and> b = enc a"
  using dec_enc enc_dec by blast

lemma dec_unique: "dec b = Inr a \<Longrightarrow> dec b' = Inr a \<Longrightarrow> b = b'"
  by (simp add: dec_iff)

lemma rejects_the_rest: "\<forall>a. ok a \<longrightarrow> b \<noteq> enc a \<Longrightarrow> \<exists>e. dec b = Inl e"
  by (metis dec_iff sum.exhaust)

end

end
