(* ===== verification/Padme.thy ===== *)
theory Padme
  imports Roundtrip
begin

text \<open>
  \<^verbatim>\<open>crates/padme-frame/src/lib.rs\<close> and its wrapper
  \<^verbatim>\<open>crates/quipu-nucleo/src/prelayers.rs\<close>: the Padm\'e length \<open>padded_len\<close>, the
  self-describing frame \<open>pad\<close>/\<open>unpad\<close>
  (\<^verbatim>\<open>[ length: u64 BE | data | zeros ]\<close>), and the translation of its errors.
  \<^verbatim>\<open>usize\<close> is 64 bits wide.  The additions of \<open>padded_len\<close> and \<open>pad\<close> are checked
  (the workspace builds with overflow checks), so an overflow is the panic \<open>None\<close>; no slice
  reaches it: Rust bounds a slice by \<^verbatim>\<open>isize::MAX\<close> bytes, the hypothesis \<open>length data < 2 ^ 63\<close> of the lemmas.
\<close>

section \<open>The Padm\'e length\<close>

text \<open>Number of significant bits, and \<^verbatim>\<open>usize::leading_zeros\<close> from it.\<close>

fun bit_length :: "nat \<Rightarrow> nat" where
  "bit_length n = (if n = 0 then 0 else Suc (bit_length (n div 2)))"

declare bit_length.simps [simp del]

definition leading_zeros :: "u64 \<Rightarrow> nat" where
  "leading_zeros l = 64 - bit_length (unat l)"

definition padded_len :: "u64 \<Rightarrow> u64 option" where
  "padded_len l =
     (if l < 2 then Some l
      else
        let e = 64 - 1 - leading_zeros l;
            s = 64 - leading_zeros (of_nat e);
            last_bits = e - s;
            low_mask = push_bit last_bits 1 - 1
        in if unat l + unat low_mask < 2 ^ 64 then Some ((l + low_mask) AND NOT low_mask)
           else None)"

section \<open>The frame\<close>

definition LEN_PREFIX :: nat where
  "LEN_PREFIX = 8"

datatype unpad_error =
    TooShort (got: nat) (need: nat)
  | InvalidLength (declared: u64) (available: nat)

definition pad :: "bytes \<Rightarrow> bytes option" where
  "pad data =
     (let content = LEN_PREFIX + length data
      in if content < 2 ^ 64 then
           (case padded_len (of_nat content) of
              None \<Rightarrow> None
            | Some target \<Rightarrow>
                let out = u64_to_be (of_nat (length data)) @ data
                in Some (resize (unat target) 0 out))
         else None)"

definition unpad :: "bytes \<Rightarrow> unpad_error + bytes" where
  "unpad padded =
     (if length padded < LEN_PREFIX then Inl (TooShort (length padded) LEN_PREFIX)
      else
        let cabecera = take LEN_PREFIX padded;
            cuerpo = drop LEN_PREFIX padded;
            declarado = u64_from_be cabecera;
            len = unat declarado
        in if len \<le> length cuerpo then Inr (take len cuerpo)
           else Inl (InvalidLength declarado (length cuerpo)))"

text \<open>\<^verbatim>\<open>quipu_nucleo::prelayers\<close> keeps its own error type and returns owned data.\<close>

datatype prelayer_error = PrelayerTooShort | PrelayerInvalidLength

fun prelayer_error_from :: "unpad_error \<Rightarrow> prelayer_error" where
  "prelayer_error_from (TooShort _ _) = PrelayerTooShort"
| "prelayer_error_from (InvalidLength _ _) = PrelayerInvalidLength"

definition prelayers_pad :: "bytes \<Rightarrow> bytes option" where
  "prelayers_pad data = pad data"

definition prelayers_unpad :: "bytes \<Rightarrow> prelayer_error + bytes" where
  "prelayers_unpad padded =
     (case unpad padded of Inl e \<Rightarrow> Inl (prelayer_error_from e) | Inr d \<Rightarrow> Inr d)"

section \<open>Bit lengths\<close>

lemma bit_length_0 [simp]: "bit_length 0 = 0"
  by (simp add: bit_length.simps)

lemma bit_length_pos: "0 < n \<Longrightarrow> bit_length n = Suc (bit_length (n div 2))"
  by (simp add: bit_length.simps [of n])

lemma less_exp_bit_length: "n < 2 ^ bit_length n"
proof (induction n rule: bit_length.induct)
  case (1 n)
  show ?case
  proof (cases "n = 0")
    case False
    with 1 have "n div 2 < 2 ^ bit_length (n div 2)" by simp
    with False show ?thesis by (simp add: bit_length_pos)
  qed simp
qed

lemma exp_bit_length_le: "0 < n \<Longrightarrow> 2 ^ (bit_length n - 1) \<le> n"
proof (induction n rule: bit_length.induct)
  case (1 n)
  show ?case
  proof (cases "n div 2 = 0")
    case True
    then have "n = 1" using "1.prems" by simp
    then show ?thesis by (simp add: bit_length_pos)
  next
    case False
    with 1 have "2 ^ (bit_length (n div 2) - 1) \<le> n div 2" by simp
    then have "2 * 2 ^ (bit_length (n div 2) - 1) \<le> n" by simp
    with False "1.prems" show ?thesis
      by (simp add: bit_length_pos [of n] bit_length_pos [of "n div 2"])
  qed
qed

lemma bit_length_eqI: "2 ^ k \<le> n \<Longrightarrow> n < 2 ^ Suc k \<Longrightarrow> bit_length n = Suc k"
proof -
  assume lo: "2 ^ k \<le> n" and hi: "n < 2 ^ Suc k"
  have "(0::nat) < 2 ^ k" by simp
  with lo have pos: "0 < n" by linarith
  have "(2::nat) ^ (bit_length n - 1) < 2 ^ Suc k"
    using exp_bit_length_le [OF pos] hi by linarith
  then have "bit_length n - 1 < Suc k" by (rule power_less_imp_less_exp [rotated]) simp
  moreover have "(2::nat) ^ k < 2 ^ bit_length n"
    using lo less_exp_bit_length [of n] by linarith
  then have "k < bit_length n" by simp
  ultimately show ?thesis by linarith
qed

lemma bit_length_le_iff: "bit_length n \<le> k \<longleftrightarrow> n < 2 ^ k"
proof
  assume "bit_length n \<le> k"
  then have "(2::nat) ^ bit_length n \<le> 2 ^ k" by simp
  with less_exp_bit_length [of n] show "n < 2 ^ k" by linarith
next
  assume n: "n < 2 ^ k"
  show "bit_length n \<le> k"
  proof (cases "n = 0")
    case False
    then have "(2::nat) ^ (bit_length n - 1) < 2 ^ k"
      using exp_bit_length_le [of n] n by linarith
    then have "bit_length n - 1 < k" by simp
    then show ?thesis by linarith
  qed simp
qed

lemma bit_length_u64: "bit_length (unat (l :: u64)) \<le> 64"
  by (simp add: bit_length_le_iff unat_u64_lt)

section \<open>The Padm\'e length in numbers\<close>

text \<open>The number of low bits that a length \<open>n\<close> loses, and the rounded length.\<close>

definition padme_bits :: "nat \<Rightarrow> nat" where
  "padme_bits n = (let e = bit_length n - 1 in e - bit_length e)"

definition padme_nat :: "nat \<Rightarrow> nat" where
  "padme_nat n = (if n < 2 then n
     else (n + (2 ^ padme_bits n - 1)) div 2 ^ padme_bits n * 2 ^ padme_bits n)"

lemma low_mask_eq: "push_bit k 1 - 1 = (mask k :: 'a :: len word)"
  by (simp add: mask_eq_exp_minus_1)

lemma and_not_mask: "x AND NOT (mask k) = push_bit k (drop_bit k (x :: 'a :: len word))"
  by (rule bit_word_eqI)
    (auto simp: bit_and_iff bit_not_iff bit_push_bit_iff bit_drop_bit_eq bit_mask_iff)

lemma unat_mask_u64: "k < 64 \<Longrightarrow> unat (mask k :: u64) = 2 ^ k - 1"
  by (simp only: mask_eq_take_bit_minus_one unsigned_take_bit_eq unsigned_minus_1_eq_mask
      take_bit_of_mask len_of_numeral_defs) (simp add: min_def mask_eq_exp_minus_1)

lemma unat_push_drop: "unat (push_bit k (drop_bit k x) :: u64) = unat x div 2 ^ k * 2 ^ k"
proof -
  have "unat x div 2 ^ k * 2 ^ k \<le> unat x" by (rule div_times_less_eq_dividend)
  from le_less_trans [OF this unat_u64_lt]
  have "unat x div 2 ^ k * 2 ^ k < 2 ^ 64" by simp
  then show ?thesis
    unfolding unsigned_push_bit_eq unsigned_drop_bit_eq
    using unat_u64_lt [of x]
    by (simp add: push_bit_eq_mult [where 'a = nat] drop_bit_eq_div [where 'a = nat]
      take_bit_nat_eq_self [of "unat x"] take_bit_nat_eq_self [of "unat x div 2 ^ k * 2 ^ k"])
qed

lemma leading_zeros_of_nat: "n < 2 ^ 64 \<Longrightarrow> 64 - leading_zeros (of_nat n) = bit_length n"
  using bit_length_le_iff [of n 64]
  by (simp add: leading_zeros_def unat_of_nat_u64)

lemma padme_bits_less: "bit_length n \<le> 64 \<Longrightarrow> padme_bits n < 64"
  by (auto simp: padme_bits_def Let_def)

lemma padded_len_eq:
  "padded_len l =
     (if l < 2 then Some l
      else if unat l + (2 ^ padme_bits (unat l) - 1) < 2 ^ 64
           then Some (of_nat (padme_nat (unat l))) else None)"
proof (cases "l < 2")
  case False
  let ?e = "64 - 1 - leading_zeros l" and ?k = "padme_bits (unat l)"
  have l64: "bit_length (unat l) \<le> 64" by (rule bit_length_u64)
  then have e: "?e = bit_length (unat l) - 1" by (simp add: leading_zeros_def)
  then have "?e < 2 ^ 64" using l64 by simp
  then have k: "?e - (64 - leading_zeros (of_nat ?e)) = ?k"
    by (simp only: leading_zeros_of_nat) (simp only: e padme_bits_def Let_def)
  have k64: "?k < 64" using l64 by (rule padme_bits_less)
  have n2: "\<not> unat l < 2" using False by (simp add: word_less_nat_alt)
  let ?m = "mask ?k :: u64"
  have m: "unat ?m = 2 ^ ?k - 1" using k64 by (rule unat_mask_u64)
  have "unat l + (2 ^ ?k - 1) < 2 ^ 64 \<Longrightarrow> (l + ?m) AND NOT ?m = of_nat (padme_nat (unat l))"
  proof -
    assume "unat l + (2 ^ ?k - 1) < 2 ^ 64"
    then have "unat (l + ?m) = unat l + (2 ^ ?k - 1)"
      using m by (subst unat_add_lem [THEN iffD1]) simp_all
    then have "unat ((l + ?m) AND NOT ?m) = padme_nat (unat l)"
      using n2 by (simp only: and_not_mask unat_push_drop padme_nat_def if_False)
    then show ?thesis by (metis of_nat_unat ucast_id)
  qed
  with False show ?thesis
    unfolding padded_len_def Let_def k low_mask_eq m by simp
qed (simp add: padded_len_def)

lemma padme_nat_dvd: "2 \<le> n \<Longrightarrow> 2 ^ padme_bits n dvd padme_nat n"
  by (simp add: padme_nat_def)

lemma round_up_bounds:
  fixes n d :: nat
  assumes "0 < d"
  shows "n \<le> (n + (d - 1)) div d * d" and "(n + (d - 1)) div d * d \<le> n + (d - 1)"
proof -
  let ?q = "(n + (d - 1)) div d" and ?r = "(n + (d - 1)) mod d"
  have "?q * d + ?r = n + (d - 1)" by (rule div_mult_mod_eq)
  moreover have "?r \<le> d - 1" using assms mod_less_divisor [of d "n + (d - 1)"] by linarith
  ultimately show "n \<le> ?q * d" and "?q * d \<le> n + (d - 1)" by linarith+
qed

lemma padme_nat_ge: "n \<le> padme_nat n"
  using round_up_bounds(1) [of "2 ^ padme_bits n" n] by (simp add: padme_nat_def)

lemma padme_nat_le: "padme_nat n \<le> n + (2 ^ padme_bits n - 1)"
proof (cases "n < 2")
  case False
  then show ?thesis using round_up_bounds(2) [of "2 ^ padme_bits n" n]
    by (simp only: padme_nat_def if_False) simp
qed (simp only: padme_nat_def if_True le_add1)

lemma padme_nat_multiple: "2 \<le> n \<Longrightarrow> 2 ^ padme_bits n dvd n \<Longrightarrow> padme_nat n = n"
proof -
  define d :: nat where "d = 2 ^ padme_bits n"
  have d: "0 < d" by (simp add: d_def)
  assume n: "2 \<le> n" and "2 ^ padme_bits n dvd n"
  then obtain q where q: "n = d * q" unfolding d_def by (elim dvdE)
  have le: "padme_nat n \<le> n + (d - 1)" unfolding d_def by (rule padme_nat_le)
  obtain r where r: "padme_nat n = d * r"
    using padme_nat_dvd [OF n] unfolding d_def by (elim dvdE)
  have "d * r < d * Suc q" using le d by (simp flip: r q)
  then have "r \<le> q" using d by (simp only: mult_less_cancel1 less_Suc_eq_le)
  then have "padme_nat n \<le> n" by (simp add: r) (simp add: q)
  with padme_nat_ge [of n] show ?thesis by simp
qed

lemma exponent_bounds: "0 < n \<Longrightarrow> 2 ^ (bit_length n - 1) \<le> n \<and> n < 2 * 2 ^ (bit_length n - 1)"
  using less_exp_bit_length [of n] exp_bit_length_le [of n]
  by (cases "bit_length n") (auto simp: bit_length_pos)

text \<open>Eight times the step stays below the length, except in the block of lengths 8 to 15.\<close>

lemma padme_step_small: "16 \<le> n \<Longrightarrow> 8 * 2 ^ padme_bits n \<le> n"
proof -
  assume n: "16 \<le> n"
  define e where "e = bit_length n - 1"
  have "\<not> bit_length n \<le> 4" using n by (simp add: bit_length_le_iff)
  then have e4: "4 \<le> e" by (simp add: e_def)
  then have "\<not> bit_length e \<le> 2" by (simp add: bit_length_le_iff)
  then have s3: "3 \<le> bit_length e" by simp
  have "bit_length e \<le> e" by (simp add: bit_length_le_iff)
  then have "(2::nat) ^ e = 2 ^ bit_length e * 2 ^ (e - bit_length e)"
    by (simp flip: power_add)
  moreover have "(2::nat) ^ 3 \<le> 2 ^ bit_length e" using s3 by (rule power_increasing) simp
  then have "8 * 2 ^ (e - bit_length e) \<le> (2::nat) ^ bit_length e * 2 ^ (e - bit_length e)"
    by simp
  moreover have "padme_bits n = e - bit_length e" by (simp only: padme_bits_def Let_def e_def)
  ultimately have "8 * 2 ^ padme_bits n \<le> (2::nat) ^ e" by simp
  also have "\<dots> \<le> n" unfolding e_def using n by (intro exp_bit_length_le) simp
  finally show ?thesis .
qed

lemma padme_small: "n < 16 \<Longrightarrow> padme_nat n = (if n \<in> {9, 11, 13, 15} then Suc n else n)"
proof -
  have "list_all (\<lambda>n. padme_nat n = (if n \<in> {9, 11, 13, 15} then Suc n else n)) [0..<16]"
    by code_simp
  then show "n < 16 \<Longrightarrow> ?thesis" by (simp add: list_all_iff)
qed

lemma padme_overhead: "0 < n \<Longrightarrow> 8 * (padme_nat n - n) < n"
proof (cases "n < 16")
  case False
  moreover have "0 < (2::nat) ^ padme_bits n" by simp
  ultimately show ?thesis using padme_nat_le [of n] padme_step_small [of n] by linarith
qed (auto simp: padme_small)

text \<open>Rounding twice is rounding once: a padded length is not padded again.\<close>

lemma padme_nat_idem: "padme_nat (padme_nat n) = padme_nat n"
proof (cases "n < 2")
  case False
  define e m where "e = bit_length n - 1" and "m = padme_nat n"
  have e: "2 ^ e \<le> n" "n < 2 * 2 ^ e"
    using exponent_bounds [of n] False by (simp_all add: e_def)
  have bits: "padme_bits n = e - bit_length e" by (simp only: padme_bits_def Let_def e_def)
  have nm: "n \<le> m" unfolding m_def by (rule padme_nat_ge)
  have dvd: "2 ^ padme_bits n dvd m" unfolding m_def using False by (intro padme_nat_dvd) simp
  have "m \<le> 2 * 2 ^ e"
  proof -
    have "padme_bits n \<le> Suc e" by (simp add: bits)
    then obtain q where q: "2 * 2 ^ e = 2 ^ padme_bits n * (q :: nat)"
      by (metis dvdE le_imp_power_dvd power_Suc)
    obtain r where r: "m = 2 ^ padme_bits n * r" using dvd by (elim dvdE)
    have "m \<le> n + (2 ^ padme_bits n - 1)" unfolding m_def by (rule padme_nat_le)
    moreover have "(0::nat) < 2 ^ padme_bits n" by simp
    ultimately have "m < 2 * 2 ^ e + 2 ^ padme_bits n" using e(2) by linarith
    then have "2 ^ padme_bits n * r < 2 ^ padme_bits n * Suc q" by (simp add: r q)
    then have "r \<le> q" by (simp only: mult_less_cancel1 less_Suc_eq_le)
    then show ?thesis by (simp add: r q)
  qed
  then consider "m < 2 * 2 ^ e" | "m = 2 * 2 ^ e" by linarith
  then have "2 ^ padme_bits m dvd m"
  proof cases
    case 1
    then have "bit_length m = Suc e" using e nm by (intro bit_length_eqI) simp_all
    then have "padme_bits m = padme_bits n" by (simp add: padme_bits_def e_def)
    with dvd show ?thesis by simp
  next
    case 2
    then have "bit_length m = Suc (Suc e)" by (intro bit_length_eqI) simp_all
    then have "padme_bits m \<le> Suc e" by (simp add: padme_bits_def Let_def)
    then show ?thesis unfolding 2 power_Suc [symmetric] by (rule le_imp_power_dvd)
  qed
  then show ?thesis using False nm unfolding m_def by (intro padme_nat_multiple) simp_all
qed (simp add: padme_nat_def)

section \<open>The frame goes and comes back\<close>

lemma padme_bits_le: "bit_length n \<le> 64 \<Longrightarrow> padme_bits n \<le> 57"
proof -
  assume n: "bit_length n \<le> 64"
  let ?e = "bit_length n - 1"
  show ?thesis
  proof (cases "?e \<le> 57")
    case False
    then have "\<not> bit_length ?e \<le> 5" by (simp add: bit_length_le_iff)
    with n show ?thesis by (simp add: padme_bits_def Let_def)
  qed (simp add: padme_bits_def Let_def)
qed

lemma padded_len_total:
  assumes "unat l \<le> 2 ^ 64 - 2 ^ 57"
  shows "\<exists>m. padded_len l = Some m \<and> unat m = padme_nat (unat l)"
proof -
  let ?k = "padme_bits (unat l)"
  have "(2::nat) ^ ?k \<le> 2 ^ 57"
    using padme_bits_le [OF bit_length_u64] by (rule power_increasing) simp
  moreover have "(0::nat) < 2 ^ ?k" by simp
  ultimately have ok: "unat l + (2 ^ ?k - 1) < 2 ^ 64"
    using assms by (simp; linarith)
  then have "padme_nat (unat l) < 18446744073709551616"
    using padme_nat_le [of "unat l"] by simp
  then have u: "unat (of_nat (padme_nat (unat l)) :: u64) = padme_nat (unat l)"
    by (rule unat_of_nat_u64)
  have "padded_len l = Some (of_nat (padme_nat (unat l)))"
  proof (cases "l < 2")
    case True
    then have "padme_nat (unat l) = unat l" by (simp add: padme_nat_def word_less_nat_alt)
    with True show ?thesis by (simp add: padded_len_eq)
  next
    case False
    with ok show ?thesis by (simp only: padded_len_eq if_True if_False)
  qed
  with u show ?thesis by blast
qed

lemma pad_eq:
  assumes "length data < 2 ^ 63"
  shows "pad data = Some (u64_to_be (of_nat (length data)) @ data
    @ replicate (padme_nat (8 + length data) - (8 + length data)) 0)"
proof -
  let ?n = "8 + length data"
  have u: "unat (of_nat ?n :: u64) = ?n"
    using assms by (intro unat_of_nat_u64) simp
  then have "unat (of_nat ?n :: u64) \<le> 2 ^ 64 - 2 ^ 57" using assms by simp
  from padded_len_total [OF this] obtain m
    where m: "padded_len (of_nat ?n) = Some m" "unat m = padme_nat ?n" unfolding u by blast
  moreover have "?n < 2 ^ 64" using assms by simp
  ultimately show ?thesis
    using padme_nat_ge [of ?n]
    by (simp add: pad_def LEN_PREFIX_def resize_extend Let_def)
qed

lemma unpad_frame:
  assumes "length data < 2 ^ 64"
  shows "unpad (u64_to_be (of_nat (length data)) @ data @ z) = Inr data"
  using assms by (simp add: unpad_def LEN_PREFIX_def unat_of_nat_u64 Let_def)

lemma unpad_Inr_iff:
  "unpad p = Inr data \<longleftrightarrow>
    (\<exists>z. p = u64_to_be (of_nat (length data)) @ data @ z) \<and> length data < 2 ^ 64"
proof
  assume *: "unpad p = Inr data"
  then have len: "8 \<le> length p"
    by (auto simp: unpad_def LEN_PREFIX_def Let_def split: if_splits)
  let ?n = "unat (u64_from_be (take 8 p))"
  have n: "?n \<le> length (drop 8 p)" and data: "data = take ?n (drop 8 p)"
    using * len by (auto simp: unpad_def LEN_PREFIX_def Let_def split: if_splits)
  then have ld: "length data = ?n" by (simp add: min_absorb2)
  then have "u64_to_be (of_nat (length data)) = take 8 p"
    using len by (simp add: u64_to_from_be)
  then have "p = u64_to_be (of_nat (length data)) @ data @ drop ?n (drop 8 p)"
    using data by (metis append_take_drop_id)
  moreover have "length data < 2 ^ 64" using ld unat_u64_lt [of "u64_from_be (take 8 p)"] by simp
  ultimately show "(\<exists>z. p = u64_to_be (of_nat (length data)) @ data @ z) \<and> length data < 2 ^ 64"
    by blast
qed (auto simp: unpad_frame)

lemma unpad_errors:
  "unpad p = Inl e \<longleftrightarrow>
    (if length p < 8 then e = TooShort (length p) 8
     else length p - 8 < unat (u64_from_be (take 8 p))
       \<and> e = InvalidLength (u64_from_be (take 8 p)) (length p - 8))"
  by (auto simp: unpad_def LEN_PREFIX_def Let_def)

interpretation padme: roundtrip "\<lambda>d. the (pad d)" unpad "\<lambda>d. length d < 2 ^ 63"
  by unfold_locales (simp add: pad_eq unpad_frame)

text \<open>The wrapper changes the error type and nothing else.\<close>

lemma prelayers_unpad_eq: "prelayers_unpad p = map_sum prelayer_error_from id (unpad p)"
  by (simp add: prelayers_unpad_def split: sum.splits)

interpretation prelayers: roundtrip "\<lambda>d. the (prelayers_pad d)" prelayers_unpad
    "\<lambda>d. length d < 2 ^ 63"
  by unfold_locales (simp add: prelayers_pad_def prelayers_unpad_eq padme.dec_enc)

section \<open>Properties\<close>

text \<open>
  What \<open>pad\<close> frames, \<open>unpad\<close> gives back, for every slice Rust can hold: padding never
  panics, the frame has the Padm\'e length of prefix plus data, and reading it returns the data.
\<close>
lemma padme_frame_roundtrip:
  assumes "length data < 2 ^ 63"
  shows "\<exists>p. prelayers_pad data = Some p \<and> prelayers_unpad p = Inr data \<and>
    length p = padme_nat (LEN_PREFIX + length data) \<and> LEN_PREFIX + length data \<le> length p"
proof -
  obtain p where p: "prelayers_pad data = Some p"
    using assms by (simp add: prelayers_pad_def pad_eq)
  then have "length p = padme_nat (8 + length data)"
    using assms padme_nat_ge [of "8 + length data"] by (auto simp: prelayers_pad_def pad_eq)
  then show ?thesis
    using p prelayers.dec_enc [of data] assms padme_nat_ge [of "8 + length data"]
    by (simp add: LEN_PREFIX_def)
qed

lemma padme_frame_roundtrip_example:
  "\<exists>p. prelayers_pad [7, 7, 7] = Some p \<and> prelayers_unpad p = Inr [7, 7, 7] \<and>
    length p = padme_nat (LEN_PREFIX + length [7 :: u8, 7, 7]) \<and>
    LEN_PREFIX + length [7 :: u8, 7, 7] \<le> length p"
  by (rule padme_frame_roundtrip) simp

text \<open>
  The reader of the frame, on any block: it returns data exactly when the block is the length
  prefix of the data, the data and anything after; otherwise the error says which check failed and
  with what numbers, and a declared length beyond the block never indexes past it.
\<close>
lemma unpad_exact:
  "unpad p = (if length p < LEN_PREFIX then Inl (TooShort (length p) LEN_PREFIX)
     else if length p - LEN_PREFIX < unat (u64_from_be (take LEN_PREFIX p))
     then Inl (InvalidLength (u64_from_be (take LEN_PREFIX p)) (length p - LEN_PREFIX))
     else Inr (slice LEN_PREFIX (LEN_PREFIX + unat (u64_from_be (take LEN_PREFIX p))) p))
   \<and> (unpad p = Inr data \<longleftrightarrow>
        (\<exists>z. p = u64_to_be (of_nat (length data)) @ data @ z) \<and> length data < 2 ^ 64)"
  by (intro conjI unpad_Inr_iff) (auto simp: unpad_def LEN_PREFIX_def Let_def slice_def)

text \<open>
  \<open>padded_len\<close> of any length up to \<open>2 ^ 63\<close> does not overflow, never shrinks, adds less
  than an eighth (the crate promises well below 13 percent), and is idempotent: a padded length
  is its own padded length.
\<close>
lemma padded_len_bounds:
  assumes "unat l \<le> 2 ^ 63"
  shows "\<exists>m. padded_len l = Some m \<and> l \<le> m \<and> padded_len m = Some m \<and>
    (l = 0 \<or> 8 * (unat m - unat l) < unat l)"
proof -
  obtain m where m: "padded_len l = Some m" "unat m = padme_nat (unat l)"
    using padded_len_total [of l] assms by auto
  have over: "0 < unat l \<Longrightarrow> 8 * (unat m - unat l) < unat l"
    unfolding m(2) by (rule padme_overhead)
  have ge: "unat l \<le> unat m" unfolding m(2) by (rule padme_nat_ge)
  have "unat m \<le> 2 ^ 64 - 2 ^ 57" using over ge assms by (cases "unat l = 0") (auto simp: m padme_nat_def)
  then obtain k where "padded_len m = Some k" "unat k = padme_nat (unat m)"
    using padded_len_total by blast
  then have "padded_len m = Some m" by (simp add: m(2) padme_nat_idem word_unat_eq_iff)
  then show ?thesis
    using m over ge by (auto simp: word_le_nat_alt unat_gt_0)
qed

lemma padded_len_bounds_example:
  "\<exists>m. padded_len 1000 = Some m \<and> 1000 \<le> m \<and> padded_len m = Some m \<and>
    (1000 = (0 :: u64) \<or> 8 * (unat m - unat (1000 :: u64)) < unat (1000 :: u64))"
  by (rule padded_len_bounds) simp

end
