(* ===== verification/Codec.thy ===== *)
theory Codec
  imports Roundtrip
begin

text \<open>
  \<^verbatim>\<open>crates/quipu-nucleo/src/codec.rs\<close>: bytes to symbol indices and back.

  \<open>encode_base_n\<close> reads the bytes, behind a 0x01 marker, as one large number and writes it in
  base \<open>n\<close>, taking \<open>k\<close> digits out of every division by \<open>n ^ k\<close> (\<open>paso_maximo\<close> chooses
  \<open>k\<close>); \<open>decode_base_n\<close> is its inverse.  \<open>encode_grupos\<close> and \<open>decode_grupos\<close> code three
  bytes in four digits, so that damage stays local.

  A \<^verbatim>\<open>BigUint\<close> is a natural number and its \<^verbatim>\<open>to_bytes_be\<close> the shortest big-endian
  string (\<open>[0]\<close> for zero).  Values of type \<^verbatim>\<open>u64\<close> are kept as naturals below \<open>2 ^ 64\<close>
  with the checked and saturating operations written out; digits are \<^verbatim>\<open>u32\<close> words.  A
  panic is \<open>None\<close>.
\<close>

section \<open>Positional numbers\<close>

text \<open>The shortest digit string of a number, most significant digit first, and its value.\<close>

fun radix :: "nat \<Rightarrow> nat \<Rightarrow> nat list" where
  "radix n v = (if v = 0 \<or> n < 2 then [] else radix n (v div n) @ [v mod n])"

declare radix.simps [simp del]

definition horner :: "nat \<Rightarrow> nat list \<Rightarrow> nat" where
  "horner n ds = foldl (\<lambda>acc d. acc * n + d) 0 ds"

section \<open>Base \<open>n\<close>: the operations\<close>

text \<open>
  The loop of \<open>paso_maximo\<close>: multiply by \<open>n\<close> while the product fits a \<^verbatim>\<open>u64\<close>.  It
  does not stop for \<open>n < 2\<close>, which \<open>encode_base_n\<close> excludes.
\<close>

partial_function (option) paso_loop :: "nat \<Rightarrow> nat \<Rightarrow> nat \<Rightarrow> (nat \<times> nat) option" where
  "paso_loop n paso k =
     (case checked_mul_u64 paso n of
        Some p \<Rightarrow> paso_loop n p (k + 1)
      | None \<Rightarrow> Some (paso, k))"

declare paso_loop.simps [code]

definition paso_maximo :: "nat \<Rightarrow> (nat \<times> nat) option" where
  "paso_maximo n = paso_loop n n 1"

text \<open>\<open>k\<close> complete digits of the remainder of one large division, zeros included.\<close>

primrec bloque :: "nat \<Rightarrow> nat \<Rightarrow> nat \<Rightarrow> u32 list \<Rightarrow> u32 list" where
  "bloque n 0 resto digits = digits"
| "bloque n (Suc k) resto digits =
     bloque n k (resto div n) (digits @ [of_nat (resto mod n)])"

text \<open>The most significant block, without leading zeros.\<close>

function bloque_alto :: "nat \<Rightarrow> nat \<Rightarrow> u32 list \<Rightarrow> u32 list" where
  "bloque_alto n resto digits =
     (if resto = 0 \<or> n < 2 then digits
      else bloque_alto n (resto div n) (digits @ [of_nat (resto mod n)]))"
  by pat_completeness auto
termination by (relation "measure (\<lambda>(n, resto, digits). resto)") auto

declare bloque_alto.simps [simp del]

text \<open>
  The loop of the large divisions: the value left and the digits pushed.  Both
  \<open>n < 2\<close> above and \<open>paso < 2\<close> here only make the functions total.
\<close>

function bloques :: "nat \<Rightarrow> nat \<Rightarrow> nat \<Rightarrow> nat \<Rightarrow> u32 list \<Rightarrow> nat \<times> u32 list" where
  "bloques n paso k val digits =
     (if paso < 2 then (val, digits)
      else if paso \<le> val
           then bloques n paso k (val div paso) (bloque n k (val mod paso) digits)
           else (val, digits))"
  by pat_completeness auto
termination by (relation "measure (\<lambda>(n, paso, k, val, digits). val)") auto

declare bloques.simps [simp del]

definition encode_base_n :: "bytes \<Rightarrow> u32 \<Rightarrow> u32 list option" where
  "encode_base_n data n =
     (if n < 2 then None
      else
        let buf = 1 # data
        in case paso_maximo (unat n) of
             None \<Rightarrow> None
           | Some (paso, k) \<Rightarrow>
               let (resto, digits) = bloques (unat n) paso k (nat_of_be buf) []
               in Some (rev (bloque_alto (unat n) resto digits)))"

definition to_bytes_be :: "nat \<Rightarrow> bytes" where
  "to_bytes_be v = (if v = 0 then [0] else map of_nat (radix 256 v))"

definition decode_base_n :: "u32 list \<Rightarrow> u32 \<Rightarrow> bytes" where
  "decode_base_n indices n =
     (let val = foldl (\<lambda>val d. val * unat n + unat d) 0 indices
      in drop 1 (to_bytes_be val))"

section \<open>Groups of three bytes: the operations\<close>

definition GRUPO_BYTES :: nat where
  "GRUPO_BYTES = 3"

definition GRUPO_DIGITOS :: nat where
  "GRUPO_DIGITOS = 4"

text \<open>The value of a chunk, the missing bytes of the last one read as zero.\<close>

definition valor_grupo :: "bytes \<Rightarrow> nat" where
  "valor_grupo trozo =
     foldl (\<lambda>v i. v * 256 + unat (if i < length trozo then trozo ! i else 0)) 0 [0..<GRUPO_BYTES]"

text \<open>The four digits, filled from the last one to the first.\<close>

primrec digitos_grupo :: "nat \<Rightarrow> nat \<Rightarrow> nat \<Rightarrow> u32 list" where
  "digitos_grupo base 0 v = []"
| "digitos_grupo base (Suc m) v = digitos_grupo base m (v div base) @ [of_nat (v mod base)]"

definition encode_grupos :: "bytes \<Rightarrow> u32 \<Rightarrow> u32 list option" where
  "encode_grupos data n =
     (let base = unat n
      in if base = 0 \<and> data \<noteq> [] then None
         else Some (concat (map (\<lambda>trozo. digitos_grupo base GRUPO_DIGITOS (valor_grupo trozo))
                     (chunks GRUPO_BYTES data))))"

definition saturating_mul_add :: "nat \<Rightarrow> nat \<Rightarrow> nat \<Rightarrow> nat" where
  "saturating_mul_add v base d = min (min (v * base) (2 ^ 64 - 1) + d) (2 ^ 64 - 1)"

definition leer_grupo :: "u32 \<Rightarrow> u32 list \<Rightarrow> nat" where
  "leer_grupo n ds = foldl (\<lambda>v d. saturating_mul_add v (unat n) (unat (min d (n - 1)))) 0 ds"

text \<open>
  The loop over the groups: \<open>g\<close> is the number of the group, \<open>out\<close> and \<open>corruptos\<close> the two
  accumulators.  \<open>n - 1\<close> underflows, a panic, for \<open>n = 0\<close>.
\<close>

fun decode_loop ::
  "u32 \<Rightarrow> nat \<Rightarrow> u32 option list list \<Rightarrow> bytes \<Rightarrow> nat list \<Rightarrow> (bytes \<times> nat list) option" where
  "decode_loop n g [] out corruptos = Some (out, corruptos)"
| "decode_loop n g (grupo # resto) out corruptos =
     (if length grupo < GRUPO_DIGITOS then Some (out, corruptos @ [g])
      else if None \<in> set grupo
           then decode_loop n (Suc g) resto (out @ replicate GRUPO_BYTES 0) (corruptos @ [g])
      else if n = 0 then None
      else
        let v = leer_grupo n (map the grupo)
        in if 0x00FFFFFF < v
           then decode_loop n (Suc g) resto (out @ replicate GRUPO_BYTES 0) (corruptos @ [g])
           else decode_loop n (Suc g) resto
                  (out @ [of_nat (v div 2 ^ 16), of_nat (v div 2 ^ 8), of_nat v]) corruptos)"

definition decode_grupos :: "u32 option list \<Rightarrow> u32 \<Rightarrow> (bytes \<times> nat list) option" where
  "decode_grupos indices n = decode_loop n 0 (chunks GRUPO_DIGITOS indices) [] []"

section \<open>Facts of positional numbers\<close>

lemma radix_0 [simp]: "radix n 0 = []"
  by (simp add: radix.simps)

lemma radix_pos: "0 < v \<Longrightarrow> 2 \<le> n \<Longrightarrow> radix n v = radix n (v div n) @ [v mod n]"
  by (simp add: radix.simps [of n v])

lemma horner_Nil [simp]: "horner n [] = 0"
  by (simp add: horner_def)

lemma horner_snoc [simp]: "horner n (ds @ [d]) = horner n ds * n + d"
  by (simp add: horner_def)

lemma horner_append: "horner n (xs @ ys) = horner n xs * n ^ length ys + horner n ys"
proof (induction ys rule: rev_induct)
  case (snoc y ys)
  have "horner n (xs @ ys @ [y]) = horner n (xs @ ys) * n + y"
    by (metis append_assoc horner_snoc)
  with snoc.IH show ?case by (simp add: algebra_simps)
qed simp

lemma horner_Cons: "horner n (d # ds) = d * n ^ length ds + horner n ds"
  using horner_append [of n "[d]" ds] horner_snoc [of n "[]" d] by simp

lemma horner_radix: "2 \<le> n \<Longrightarrow> horner n (radix n v) = v"
proof (induction n v rule: radix.induct)
  case (1 n v)
  then show ?case by (cases "v = 0") (simp_all add: radix_pos)
qed

lemma radix_digits: "d \<in> set (radix n v) \<Longrightarrow> d < n"
proof (induction n v rule: radix.induct)
  case (1 n v)
  then show ?case by (auto simp: radix.simps [of n v] split: if_splits)
qed

lemma hd_radix: "0 < v \<Longrightarrow> 2 \<le> n \<Longrightarrow> radix n v \<noteq> [] \<and> 0 < hd (radix n v)"
proof (induction n v rule: radix.induct)
  case (1 n v)
  show ?case
  proof (cases "v div n = 0")
    case True
    with "1.prems" have "radix n v = [v mod n]" and "v mod n = v"
      by (simp_all add: radix_pos div_eq_0_iff)
    with "1.prems" show ?thesis by simp
  next
    case False
    with 1 have "radix n (v div n) \<noteq> [] \<and> 0 < hd (radix n (v div n))" by simp
    with "1.prems" show ?thesis by (simp add: radix_pos)
  qed
qed

text \<open>A digit string without a leading zero is the one \<open>radix\<close> writes.\<close>

lemma radix_horner:
  "2 \<le> n \<Longrightarrow> \<forall>d \<in> set ds. d < n \<Longrightarrow> ds = [] \<or> 0 < hd ds \<Longrightarrow> radix n (horner n ds) = ds"
proof (induction ds rule: rev_induct)
  case (snoc d ds)
  have d: "d < n" using snoc.prems by simp
  show ?case
  proof (cases "ds = []")
    case True
    with snoc.prems d show ?thesis
      using horner_snoc [of n "[]" d] by (simp add: radix_pos)
  next
    case False
    with snoc have IH: "radix n (horner n ds) = ds" by simp
    with False have "0 < horner n ds" by (cases "horner n ds") auto
    with snoc.prems d IH show ?thesis by (simp add: radix_pos)
  qed
qed simp

lemma horner_less: "\<forall>d \<in> set ds. d < n \<Longrightarrow> horner n ds < n ^ length ds"
proof (induction ds rule: rev_induct)
  case (snoc d ds)
  then have "horner n ds + 1 \<le> n ^ length ds" and "d < n" by simp_all
  then have "(horner n ds + 1) * n \<le> n ^ length ds * n" by (intro mult_le_mono1)
  with \<open>d < n\<close> show ?case by (simp add: algebra_simps)
qed simp

lemma nat_of_be_horner: "nat_of_be bs = horner 256 (map unat bs)"
  by (induction bs rule: rev_induct) simp_all

section \<open>The block algorithm computes the digits of the number\<close>

lemma paso_loop_spec:
  "\<lbrakk>2 \<le> n; paso = n ^ k; paso < 2 ^ 64; 0 < k\<rbrakk> \<Longrightarrow>
    \<exists>K. paso_loop n paso k = Some (n ^ K, K) \<and> 0 < K \<and> n ^ K < 2 ^ 64 \<and> 2 ^ 64 \<le> n ^ Suc K"
proof (induction "2 ^ 64 - paso" arbitrary: paso k rule: less_induct)
  case less
  show ?case
  proof (cases "paso * n < 2 ^ 64")
    case True
    have "0 < paso" using less.prems by simp
    then have "paso * 1 < paso * n" using less.prems(1) by (intro mult_less_mono2) simp_all
    with True less.prems have "2 ^ 64 - paso * n < 2 ^ 64 - paso" by (intro diff_less_mono2) simp_all
    from less.hyps [OF this _ _ True, of "Suc k"] less.prems True show ?thesis
      by (subst paso_loop.simps) (simp add: checked_mul_u64_def mult.commute)
  next
    case False
    have "paso_loop n paso k = Some (n ^ k, k)"
      using False less.prems by (subst paso_loop.simps) (simp add: checked_mul_u64_def)
    moreover have "2 ^ 64 \<le> n ^ Suc k" using False less.prems by (simp add: mult.commute)
    ultimately show ?thesis using less.prems by blast
  qed
qed

lemma rev_bloque: "rev (bloque n k r ds) = digitos_grupo n k r @ rev ds"
  by (induction k arbitrary: r ds) simp_all

lemma rev_bloque_alto: "2 \<le> n \<Longrightarrow> rev (bloque_alto n r ds) = map of_nat (radix n r) @ rev ds"
proof (induction n r ds rule: bloque_alto.induct)
  case (1 n r ds)
  then show ?case
    by (cases "r = 0") (simp_all add: bloque_alto.simps [of n _ ds] radix_pos)
qed

lemma radix_block:
  "2 \<le> n \<Longrightarrow> n ^ k \<le> v \<Longrightarrow>
    map of_nat (radix n v) = map of_nat (radix n (v div n ^ k)) @ digitos_grupo n k (v mod n ^ k)"
proof (induction k arbitrary: v)
  case 0
  then show ?case by simp
next
  case (Suc k)
  have "n ^ k * n \<le> v" using Suc.prems by (simp add: mult.commute)
  then have "n ^ k \<le> v div n" using Suc.prems(1) by (simp add: less_eq_div_iff_mult_less_eq)
  from Suc.IH [OF Suc.prems(1) this]
  have "map of_nat (radix n (v div n)) =
      map of_nat (radix n (v div n ^ Suc k)) @ digitos_grupo n k (v div n mod n ^ k)"
    by (simp add: div_mult2_eq)
  moreover have "v mod n ^ Suc k = n * (v div n mod n ^ k) + v mod n"
    by (simp add: mod_mult2_eq)
  moreover have "0 < v" using Suc.prems by (auto intro: Nat.gr0I)
  ultimately show ?case
    using Suc.prems by (simp add: radix_pos)
qed

lemma bloques_radix:
  "\<lbrakk>2 \<le> n; 0 < k; paso = n ^ k; bloques n paso k v ds = (r, ds')\<rbrakk> \<Longrightarrow>
    rev (bloque_alto n r ds') = map of_nat (radix n v) @ rev ds"
proof (induction n paso k v ds rule: bloques.induct)
  case (1 n paso k v ds)
  have "n ^ 1 \<le> n ^ k" using "1.prems" by (intro power_increasing) simp_all
  then have paso: "\<not> paso < 2" using "1.prems" by simp
  show ?case
  proof (cases "paso \<le> v")
    case True
    with "1.prems" paso
    have "bloques n paso k (v div paso) (bloque n k (v mod paso) ds) = (r, ds')"
      by (simp add: bloques.simps [of n _ k v ds])
    from "1.IH" [OF paso True "1.prems"(1-3) this] show ?thesis
      using True "1.prems" by (simp add: rev_bloque radix_block [of n k v])
  next
    case False
    with paso "1.prems" show ?thesis
      by (simp add: bloques.simps [of n _ k v ds] rev_bloque_alto)
  qed
qed

lemma encode_base_n_eq:
  "encode_base_n data n =
    (if n < 2 then None else Some (map of_nat (radix (unat n) (nat_of_be (1 # data)))))"
proof (cases "n < 2")
  case False
  then have n: "2 \<le> unat n" by (simp add: word_less_nat_alt)
  have "unat n < 2 ^ 64" using unat_u32_lt [of n] by simp
  from paso_loop_spec [OF n _ this, of 1] obtain k
    where k: "paso_maximo (unat n) = Some (unat n ^ k, k)" "0 < k"
    by (auto simp: paso_maximo_def)
  obtain r ds where rd: "bloques (unat n) (unat n ^ k) k (nat_of_be (1 # data)) [] = (r, ds)"
    by fastforce
  from bloques_radix [OF n k(2) refl rd] False k show ?thesis
    by (simp add: encode_base_n_def rd)
qed (simp add: encode_base_n_def)

section \<open>Going back\<close>

lemma decode_horner: "decode_base_n ds n = drop 1 (to_bytes_be (horner (unat n) (map unat ds)))"
proof -
  have "foldl (\<lambda>v d. v * unat n + unat d) a ds = foldl (\<lambda>acc d. acc * unat n + d) a (map unat ds)"
    for a by (induction ds arbitrary: a) simp_all
  then show ?thesis by (simp add: decode_base_n_def horner_def)
qed

lemma to_bytes_be_nat_of_be: "0 < b \<Longrightarrow> to_bytes_be (nat_of_be (b # bs)) = b # bs"
proof -
  assume b: "0 < b"
  then have "0 < unat b" by (simp add: word_less_nat_alt)
  moreover have "\<forall>d \<in> set (map unat (b # bs)). d < 256" using unat_u8_lt by auto
  ultimately have "radix 256 (nat_of_be (b # bs)) = map unat (b # bs)"
    unfolding nat_of_be_horner by (intro radix_horner) simp_all
  moreover have "nat_of_be (b # bs) \<noteq> 0"
    using \<open>0 < unat b\<close> by (simp add: nat_of_be_Cons)
  ultimately show ?thesis by (simp add: to_bytes_be_def comp_def)
qed

lemma unat_digits:
  assumes "\<forall>d \<in> set ds. d < unat (n :: u32)"
  shows "map unat (map of_nat ds :: u32 list) = ds"
proof -
  have "unat (of_nat d :: u32) = d" if "d \<in> set ds" for d
    using assms that unat_u32_lt [of n] by (intro unat_of_nat_u32) fastforce
  then show ?thesis by (simp add: map_idI)
qed

lemma decode_encode_base_n: "encode_base_n data n = Some ds \<Longrightarrow> decode_base_n ds n = data"
proof -
  assume *: "encode_base_n data n = Some ds"
  then have n: "2 \<le> unat n" and ds: "ds = map of_nat (radix (unat n) (nat_of_be (1 # data)))"
    by (auto simp: encode_base_n_eq word_less_nat_alt split: if_splits)
  have "map unat ds = radix (unat n) (nat_of_be (1 # data))"
    unfolding ds by (rule unat_digits [of _ n]) (simp add: radix_digits)
  with n show ?thesis
    by (simp add: decode_horner horner_radix to_bytes_be_nat_of_be)
qed

lemma encode_base_n_digits: "encode_base_n data n = Some ds \<Longrightarrow> \<forall>d \<in> set ds. d < n"
proof -
  assume *: "encode_base_n data n = Some ds"
  have "(of_nat d :: u32) < n" if "d < unat n" for d
    using that unat_u32_lt [of n] by (simp add: word_less_nat_alt unat_of_nat_u32)
  with * radix_digits show ?thesis
    by (auto simp: encode_base_n_eq split: if_splits)
qed

section \<open>Groups: what one group of digits reads as\<close>

text \<open>
  The reference for \<open>decode_grupos\<close>: each group of four is read alone.  A group is corrupt when
  it has an unreadable digit or reads above 0x00FFFFFF; a corrupt group reads as three zeros.
\<close>

definition grupo_corrupto :: "u32 \<Rightarrow> u32 option list \<Rightarrow> bool" where
  "grupo_corrupto n grupo \<longleftrightarrow> None \<in> set grupo \<or> 0x00FFFFFF < leer_grupo n (map the grupo)"

definition grupo_bytes :: "u32 \<Rightarrow> u32 option list \<Rightarrow> bytes" where
  "grupo_bytes n grupo =
     (if grupo_corrupto n grupo then replicate GRUPO_BYTES 0
      else be_bytes 3 (leer_grupo n (map the grupo)))"

primrec corruptos_ref :: "u32 \<Rightarrow> nat \<Rightarrow> u32 option list list \<Rightarrow> nat list" where
  "corruptos_ref n g [] = []"
| "corruptos_ref n g (grupo # gs) =
     (if grupo_corrupto n grupo then [g] else []) @ corruptos_ref n (Suc g) gs"

lemma set_corruptos_ref:
  "set (corruptos_ref n g gs) = {i. g \<le> i \<and> i < g + length gs \<and> grupo_corrupto n (gs ! (i - g))}"
proof (induction gs arbitrary: g)
  case (Cons grupo gs)
  have "i < Suc g \<Longrightarrow> g \<le> i \<Longrightarrow> i = g" for i by simp
  then show ?case
    by (auto simp: Cons.IH nth_Cons' Suc_le_eq le_eq_less_or_eq)
qed simp

lemma length_grupo_bytes [simp]: "length (grupo_bytes n grupo) = 3"
  by (simp add: grupo_bytes_def GRUPO_BYTES_def)

lemma be_bytes_3: "v < 2 ^ 24 \<Longrightarrow> be_bytes 3 v = [of_nat (v div 2 ^ 16), of_nat (v div 2 ^ 8), of_nat v]"
proof -
  have mod8: "(of_nat (x mod 256) :: u8) = of_nat x" for x :: nat
    by (rule word_unat_eq_iff [THEN iffD2]) (simp add: unat_of_nat_u8_mod)
  show ?thesis by (simp add: numeral_3_eq_3 mod8 div_mult2_eq [symmetric])
qed

lemma decode_loop_groups:
  assumes "n \<noteq> 0" and "\<forall>grupo \<in> set gs. length grupo = GRUPO_DIGITOS"
  shows "decode_loop n g (gs @ rest) out cs =
    decode_loop n (g + length gs) rest (out @ concat (map (grupo_bytes n) gs))
      (cs @ corruptos_ref n g gs)"
  using assms(2)
proof (induction gs arbitrary: g out cs)
  case (Cons grupo gs)
  have "length grupo = GRUPO_DIGITOS" using Cons.prems by simp
  then show ?case
    using assms(1) Cons
    by (simp add: grupo_bytes_def grupo_corrupto_def Let_def be_bytes_3 del: be_bytes.simps)
qed simp

text \<open>Saturation changes nothing below the limit: a group reads as the number of its digits.\<close>

lemma leer_grupo_eq:
  assumes "n \<noteq> 0"
  shows "leer_grupo n ds = min (horner (unat n) (map (\<lambda>d. unat (min d (n - 1))) ds)) (2 ^ 64 - 1)"
proof (induction ds rule: rev_induct)
  case Nil
  then show ?case by (simp add: leer_grupo_def)
next
  case (snoc d ds)
  define M b where "M = (2 ^ 64 - 1 :: nat)" and "b = unat n"
  have b: "0 < b" using assms by (simp add: b_def unat_gt_0)
  have sat: "min (min (min V M * b) M + e) M = min (V * b + e) M" for V e
  proof (cases "V \<le> M")
    case True
    then show ?thesis by (simp add: min_def)
  next
    case False
    moreover have "M * 1 \<le> M * b" and "V * 1 \<le> V * b" using b by (intro mult_le_mono2; simp)+
    ultimately have "min V M = M" "M \<le> M * b" "M \<le> V * b" by linarith+
    then show ?thesis by (simp add: min_absorb2 trans_le_add1)
  qed
  have "leer_grupo n (ds @ [d]) = saturating_mul_add (leer_grupo n ds) b (unat (min d (n - 1)))"
    by (simp add: leer_grupo_def b_def)
  also have "\<dots> = min (horner b (map (\<lambda>d. unat (min d (n - 1))) (ds @ [d]))) M"
    unfolding snoc.IH saturating_mul_add_def M_def [symmetric] b_def [symmetric]
    by (simp add: sat)
  finally show ?case by (simp add: M_def b_def)
qed

lemma horner_digitos:
  "b < 2 ^ 32 \<Longrightarrow> 0 < b \<Longrightarrow> horner b (map unat (digitos_grupo b m v)) = v mod b ^ m"
proof (induction m arbitrary: v)
  case (Suc m)
  have "v mod b < 2 ^ 32" using Suc.prems by (meson less_trans mod_less_divisor)
  then have "unat (of_nat (v mod b) :: u32) = v mod b" by (intro unat_of_nat_u32) simp
  then show ?case
    using Suc mod_mult2_eq [of v b "b ^ m"] by simp
qed simp

lemma length_digitos_grupo [simp]: "length (digitos_grupo b m v) = m"
  by (induction m arbitrary: v) simp_all

lemma digitos_grupo_less: "d \<in> set (digitos_grupo (unat (n :: u32)) m v) \<Longrightarrow> n \<noteq> 0 \<Longrightarrow> d < n"
proof (induction m arbitrary: v)
  case (Suc m)
  have n: "0 < unat n" using Suc.prems by (simp add: unat_gt_0)
  then have "v mod unat n < unat n" by simp
  moreover from this have "v mod unat n < 2 ^ 32" using unat_u32_lt [of n] by simp
  ultimately have "(of_nat (v mod unat n) :: u32) < n"
    by (simp add: word_less_nat_alt unat_of_nat_u32)
  with Suc show ?case by auto
qed simp

lemma min_digito: "d < n \<Longrightarrow> min d (n - 1) = (d :: u32)"
proof -
  assume d: "d < n"
  then have "n \<noteq> 0" by auto
  with d have "d \<le> n - 1" by (simp add: word_le_nat_alt word_less_nat_alt unat_minus_one)
  then show ?thesis by (rule min_absorb1)
qed

lemma valor_grupo_nth:
  "valor_grupo trozo = nat_of_be (map (\<lambda>i. if i < length trozo then trozo ! i else 0) [0..<3])"
  by (simp add: valor_grupo_def GRUPO_BYTES_def nat_of_be_def foldl_map)

lemma valor_grupo_eq: "length trozo \<le> 3 \<Longrightarrow> valor_grupo trozo = nat_of_be (resize 3 0 trozo)"
  unfolding valor_grupo_nth
  by (rule arg_cong [where f = nat_of_be], rule nth_equalityI)
    (auto simp: resize_def nth_append)

lemma valor_grupo_less: "valor_grupo trozo < 2 ^ 24"
  using nat_of_be_less [of "map (\<lambda>i. if i < length trozo then trozo ! i else 0) [0..<3]"]
  by (simp add: valor_grupo_nth del: upt_rec_numeral)

text \<open>In a base of at least 64 a clean group reads as the bytes it was written from.\<close>

lemma grupo_clean:
  assumes n: "64 \<le> n" and t: "length trozo \<le> 3"
  shows "\<not> grupo_corrupto n (map Some (digitos_grupo (unat n) GRUPO_DIGITOS (valor_grupo trozo)))"
    and "grupo_bytes n (map Some (digitos_grupo (unat n) GRUPO_DIGITOS (valor_grupo trozo)))
          = resize 3 0 trozo"
proof -
  let ?v = "valor_grupo trozo" and ?ds = "digitos_grupo (unat n) GRUPO_DIGITOS (valor_grupo trozo)"
  have n0: "n \<noteq> 0" using n by auto
  have n64: "64 \<le> unat n" using n by (simp add: word_le_nat_alt)
  then have "(64::nat) ^ 4 \<le> unat n ^ 4" by (rule power_mono) simp
  then have v4: "?v < unat n ^ 4" using valor_grupo_less [of trozo] by simp
  have min: "map (\<lambda>d. unat (min d (n - 1))) ?ds = map unat ?ds"
    using digitos_grupo_less [OF _ n0] by (auto simp: min_digito)
  have "horner (unat n) (map unat ?ds) = ?v"
    using n64 v4 unat_u32_lt [of n] by (simp add: horner_digitos GRUPO_DIGITOS_def)
  then have "leer_grupo n ?ds = min ?v (2 ^ 64 - 1)"
    by (simp only: leer_grupo_eq [OF n0] min)
  then have leer: "leer_grupo n ?ds = ?v" using valor_grupo_less [of trozo] by simp
  then show ok: "\<not> grupo_corrupto n (map Some ?ds)"
    using valor_grupo_less [of trozo] by (auto simp: grupo_corrupto_def comp_def)
  show "grupo_bytes n (map Some ?ds) = resize 3 0 trozo"
    using ok by (simp add: grupo_bytes_def comp_def leer) (simp add: valor_grupo_eq t be_bytes_eqI)
qed

section \<open>Groups: the whole text\<close>

lemma encode_grupos_eq:
  "n \<noteq> 0 \<Longrightarrow> encode_grupos data n =
    Some (concat (map (\<lambda>t. digitos_grupo (unat n) GRUPO_DIGITOS (valor_grupo t)) (chunks 3 data)))"
  by (simp add: encode_grupos_def GRUPO_BYTES_def unat_eq_0)

lemma chunks_encode_grupos:
  assumes "n \<noteq> 0" and "encode_grupos data n = Some ds"
  shows "chunks 4 ds =
    map (\<lambda>t. digitos_grupo (unat n) GRUPO_DIGITOS (valor_grupo t)) (chunks 3 data)"
  using assms by (auto simp: encode_grupos_eq GRUPO_DIGITOS_def intro!: chunks_concat)

lemma length_encode_grupos:
  assumes "n \<noteq> 0" and "encode_grupos data n = Some ds"
  shows "length ds = 4 * div_ceil (length data) 3"
  using assms
  by (auto simp: encode_grupos_eq length_concat comp_def GRUPO_DIGITOS_def sum_list_triv
      length_chunks div_ceil_eq)

lemma concat_resize_chunks:
  "0 < k \<Longrightarrow> concat (map (resize k x) (chunks k xs)) = resize (k * div_ceil (length xs) k) x xs"
proof (induction k xs rule: chunks.induct)
  case (1 k xs)
  show ?case
  proof (cases "xs = []")
    case True
    then show ?thesis by (simp add: div_ceil_def resize_def)
  next
    case False
    show ?thesis
    proof (cases "length xs \<le> k")
      case True
      have "(length xs + (k - 1)) div k = 1"
        using True False "1.prems" by (intro div_nat_eqI) (cases xs; simp)+
      then show ?thesis
        using True False "1.prems" by (simp add: chunks_step div_ceil_eq)
    next
      case False
      then have "length xs + (k - 1) = k + (length xs - k + (k - 1))" by simp
      then have "(length xs + (k - 1)) div k = Suc ((length xs - k + (k - 1)) div k)"
        using "1.prems" by (simp only: div_add_self1)
      moreover have "resize k x (take k xs) = take k xs" using False by (simp add: resize_def)
      moreover have "concat (map (resize k x) (chunks k (drop k xs))) =
          resize (k * ((length xs - k + (k - 1)) div k)) x (drop k xs)"
        using 1 \<open>xs \<noteq> []\<close> by (simp add: div_ceil_eq)
      moreover have "take k xs @ resize m x (drop k xs) = resize (k + m) x xs" for m
        using False by (simp add: resize_def take_add)
      ultimately show ?thesis
        using "1.prems" \<open>xs \<noteq> []\<close> by (simp add: chunks_step div_ceil_eq)
    qed
  qed
qed

lemma decode_grupos_eq:
  assumes "n \<noteq> 0" and "length idx = 4 * m"
  shows "decode_grupos idx n =
    Some (concat (map (grupo_bytes n) (chunks 4 idx)), corruptos_ref n 0 (chunks 4 idx))"
  using decode_loop_groups [OF assms(1), of "chunks 4 idx" 0 "[]" "[]" "[]"]
    chunks_exact [of 4 idx m] assms(2)
  by (simp add: decode_grupos_def GRUPO_DIGITOS_def)

lemma nth_concat_blocks:
  "\<forall>c \<in> set cs. length c = k \<Longrightarrow> g < length cs \<Longrightarrow> slice (g * k) (g * k + k) (concat cs) = cs ! g"
proof (induction cs arbitrary: g)
  case (Cons c cs)
  then show ?case by (cases g) (auto simp: slice_def)
qed simp

text \<open>
  Damage stays in its group: the groups whose four digits arrived are read right and not marked,
  whatever happened to the others, and every group with an unreadable digit is marked.
\<close>

lemma decode_grupos_damage:
  assumes n: "64 \<le> n" and enc: "encode_grupos data n = Some ds" and len: "length idx = length ds"
  shows "\<exists>out cs. decode_grupos idx n = Some (out, cs) \<and>
    length out = 3 * div_ceil (length data) 3 \<and>
    (\<forall>g < div_ceil (length data) 3.
      (slice (4 * g) (4 * g + 4) idx = map Some (slice (4 * g) (4 * g + 4) ds) \<longrightarrow>
        g \<notin> set cs \<and> slice (3 * g) (3 * g + 3) out
          = slice (3 * g) (3 * g + 3) (resize (3 * div_ceil (length data) 3) 0 data)) \<and>
      (None \<in> set (slice (4 * g) (4 * g + 4) idx) \<longrightarrow> g \<in> set cs))"
proof -
  define m where "m = div_ceil (length data) 3"
  have n0: "n \<noteq> 0" using n by auto
  have ds: "length ds = 4 * m" using length_encode_grupos [OF n0 enc] by (simp add: m_def)
  then have idx: "length idx = 4 * m" using len by simp
  let ?out = "concat (map (grupo_bytes n) (chunks 4 idx))" and ?cs = "corruptos_ref n 0 (chunks 4 idx)"
  have ch: "length (chunks 4 idx) = m" using chunks_exact [of 4 idx m] idx by simp
  have ch3: "length (chunks 3 data) = m" by (simp add: m_def length_chunks div_ceil_eq)
  have padded: "resize (3 * m) 0 data = concat (map (resize 3 0) (chunks 3 data))"
    by (simp add: concat_resize_chunks m_def)
  have group: "slice (4 * g) (4 * g + 4) xs = chunks 4 xs ! g" if "g < m" "length xs = 4 * m"
    for g and xs :: "'x list"
    using that by (simp add: chunks_nth mult.commute)
  have out_g: "slice (3 * g) (3 * g + 3) ?out = grupo_bytes n (chunks 4 idx ! g)" if "g < m" for g
    using nth_concat_blocks [of "map (grupo_bytes n) (chunks 4 idx)" 3 g] that
    by (simp add: ch mult.commute)
  have pad_g: "slice (3 * g) (3 * g + 3) (resize (3 * m) 0 data) = resize 3 0 (chunks 3 data ! g)"
    if "g < m" for g
    unfolding padded using nth_concat_blocks [of "map (resize 3 0) (chunks 3 data)" 3 g] that
    by (simp add: ch3 mult.commute)
  have "g \<notin> set ?cs \<and> slice (3 * g) (3 * g + 3) ?out = slice (3 * g) (3 * g + 3) (resize (3 * m) 0 data)"
    if g: "g < m" and ok: "slice (4 * g) (4 * g + 4) idx = map Some (slice (4 * g) (4 * g + 4) ds)" for g
  proof -
    have "chunks 4 idx ! g =
        map Some (digitos_grupo (unat n) GRUPO_DIGITOS (valor_grupo (chunks 3 data ! g)))"
      using ok g by (simp add: group idx ds chunks_encode_grupos [OF n0 enc] ch3)
    moreover have "length (chunks 3 data ! g) \<le> 3"
      using g ch3 length_in_chunks nth_mem by metis
    ultimately show ?thesis
      using g grupo_clean [OF n] by (simp add: set_corruptos_ref out_g pad_g)
  qed
  moreover have "g \<in> set ?cs" if "g < m" and "None \<in> set (slice (4 * g) (4 * g + 4) idx)" for g
    using that by (simp add: group idx set_corruptos_ref ch grupo_corrupto_def)
  moreover have "length ?out = 3 * m" by (simp add: length_concat comp_def sum_list_triv ch)
  ultimately show ?thesis
    unfolding m_def [symmetric] using decode_grupos_eq [OF n0 idx] by blast
qed

section \<open>The reader does not look at the marker\<close>

lemma decode_leading_zero: "decode_base_n (0 # ds) n = decode_base_n ds n"
  by (simp add: decode_base_n_def)

text \<open>Any non-zero first byte is dropped as if it were the marker.\<close>

lemma decode_any_marker:
  assumes "0 < b" and "horner (unat n) (map unat ds) = nat_of_be (b # data)"
  shows "decode_base_n ds n = data"
  using assms by (simp add: decode_horner to_bytes_be_nat_of_be)

lemma encode_4096:
  assumes "length data = 3 * m"
  shows "encode_base_n data 4096 = Some (1 # digitos_grupo 4096 (2 * m) (nat_of_be data))"
proof -
  have pow: "(4096::nat) ^ (2 * m) = 256 ^ (3 * m)" by (simp add: power_mult)
  have less: "nat_of_be data < 4096 ^ (2 * m)" using nat_of_be_less [of data] assms by (simp add: pow)
  have val: "nat_of_be (1 # data) = 4096 ^ (2 * m) + nat_of_be data"
    using assms by (simp add: nat_of_be_Cons pow)
  have "map of_nat (radix 4096 (nat_of_be (1 # data))) =
      (map of_nat (radix 4096 (nat_of_be (1 # data) div 4096 ^ (2 * m))) :: u32 list)
      @ digitos_grupo 4096 (2 * m) (nat_of_be (1 # data) mod 4096 ^ (2 * m))"
    by (rule radix_block) (simp_all add: val)
  moreover have "nat_of_be (1 # data) div 4096 ^ (2 * m) = 1"
    and "nat_of_be (1 # data) mod 4096 ^ (2 * m) = nat_of_be data"
    using less unfolding val by (simp_all add: div_add1_eq)
  moreover have "radix 4096 1 = [1]" by (simp add: radix.simps)
  ultimately show ?thesis by (simp add: encode_base_n_eq)
qed

lemma decode_4096:
  assumes "length data = 3 * m" and "0 < x" and "x < 256"
  shows "decode_base_n (of_nat x # digitos_grupo 4096 (2 * m) (nat_of_be data)) 4096 = data"
proof (rule decode_any_marker [of "of_nat x"])
  show "0 < (of_nat x :: u8)"
    using assms by (simp add: word_less_nat_alt unat_of_nat_u8)
  have pow: "(4096::nat) ^ (2 * m) = 256 ^ (3 * m)" by (simp add: power_mult)
  have "nat_of_be data < 4096 ^ (2 * m)" using nat_of_be_less [of data] assms by (simp add: pow)
  then have "horner 4096 (map unat (digitos_grupo 4096 (2 * m) (nat_of_be data))) = nat_of_be data"
    by (simp add: horner_digitos)
  then show "horner (unat (4096 :: u32)) (map unat (of_nat x # digitos_grupo 4096 (2 * m) (nat_of_be data)))
      = nat_of_be (of_nat x # data)"
    using assms by (simp add: horner_Cons nat_of_be_Cons pow unat_of_nat_u32 unat_of_nat_u8)
qed

section \<open>Interpretation\<close>

interpretation base_n: roundtrip
    "\<lambda>d. the (encode_base_n d n)" "\<lambda>ds. Inr (decode_base_n ds n) :: unit + bytes" "\<lambda>_. 2 \<le> n"
  for n
  by unfold_locales (auto simp: encode_base_n_eq intro!: decode_encode_base_n)

section \<open>Properties\<close>

text \<open>
  In every base of at least two the block-wise encoder returns, without panicking, the digits
  of the number that the marker and the data spell: no leading zero, every digit below the base,
  and the decoder gives the data back, leading zeros and the empty input included.
\<close>
lemma base_n_roundtrip:
  assumes "2 \<le> n"
  shows "\<exists>ds. encode_base_n data n = Some ds \<and> decode_base_n ds n = data \<and>
    (\<forall>d \<in> set ds. d < n) \<and> ds \<noteq> [] \<and> hd ds \<noteq> 0 \<and>
    horner (unat n) (map unat ds) = nat_of_be (1 # data)"
proof -
  let ?v = "nat_of_be (1 # data)" and ?ds = "map of_nat (radix (unat n) (nat_of_be (1 # data))) :: u32 list"
  have n: "2 \<le> unat n" using assms by (simp add: word_le_nat_alt)
  have enc: "encode_base_n data n = Some ?ds" using assms by (simp add: encode_base_n_eq)
  have v: "0 < ?v" by (simp add: nat_of_be_Cons)
  have digits: "map unat ?ds = radix (unat n) ?v" by (rule unat_digits [of _ n]) (simp add: radix_digits)
  have ne: "radix (unat n) ?v \<noteq> []" "0 < hd (radix (unat n) ?v)" using hd_radix [OF v n] by simp_all
  have "unat (hd ?ds) = hd (radix (unat n) ?v)" using ne(1) by (metis digits hd_map list.map_disc_iff)
  then have "hd ?ds \<noteq> 0" using ne(2) by (metis less_irrefl unsigned_0)
  then show ?thesis
    using enc ne(1) digits base_n.dec_enc [of n data] assms encode_base_n_digits [OF enc]
    by (auto simp: horner_radix [OF n])
qed

lemma base_n_roundtrip_example:
  "\<exists>ds. encode_base_n [0, 0, 42] 94 = Some ds \<and> decode_base_n ds 94 = [0, 0, 42] \<and>
    (\<forall>d \<in> set ds. d < 94) \<and> ds \<noteq> [] \<and> hd ds \<noteq> 0 \<and>
    horner (unat (94 :: u32)) (map unat ds) = nat_of_be (1 # [0, 0, 42])"
  by (rule base_n_roundtrip) simp

text \<open>
  The group code keeps damage local.  For a base of at least 64 and any received text of the
  right length, every group whose four digits arrived is decoded to its own three bytes and not
  marked as corrupt, whatever happened to the other groups; a group with an unreadable digit is
  marked; and the output never changes its length.
\<close>
lemma grupos_damage_is_local:
  assumes "64 \<le> n" and "encode_grupos data n = Some ds" and "length idx = length ds"
  shows "\<exists>out cs. decode_grupos idx n = Some (out, cs) \<and>
    length out = GRUPO_BYTES * div_ceil (length data) GRUPO_BYTES \<and>
    (\<forall>g < div_ceil (length data) GRUPO_BYTES.
      (slice (4 * g) (4 * g + 4) idx = map Some (slice (4 * g) (4 * g + 4) ds) \<longrightarrow>
        g \<notin> set cs \<and> slice (3 * g) (3 * g + 3) out
          = slice (3 * g) (3 * g + 3) (resize (3 * div_ceil (length data) 3) 0 data)) \<and>
      (None \<in> set (slice (4 * g) (4 * g + 4) idx) \<longrightarrow> g \<in> set cs))"
  unfolding GRUPO_BYTES_def using assms by (rule decode_grupos_damage)

lemma grupos_damage_is_local_example:
  "\<exists>out cs. decode_grupos (None # map Some (tl (the (encode_grupos [1, 2, 3, 4] 94)))) 94 = Some (out, cs) \<and>
    length out = GRUPO_BYTES * div_ceil (length [1 :: u8, 2, 3, 4]) GRUPO_BYTES \<and>
    (\<forall>g < div_ceil (length [1 :: u8, 2, 3, 4]) GRUPO_BYTES.
      (slice (4 * g) (4 * g + 4) (None # map Some (tl (the (encode_grupos [1, 2, 3, 4] 94))))
          = map Some (slice (4 * g) (4 * g + 4) (the (encode_grupos [1, 2, 3, 4] 94))) \<longrightarrow>
        g \<notin> set cs \<and> slice (3 * g) (3 * g + 3) out
          = slice (3 * g) (3 * g + 3) (resize (3 * div_ceil (length [1 :: u8, 2, 3, 4]) 3) 0 [1, 2, 3, 4])) \<and>
      (None \<in> set (slice (4 * g) (4 * g + 4) (None # map Some (tl (the (encode_grupos [1, 2, 3, 4] 94)))))
        \<longrightarrow> g \<in> set cs))"
proof (rule grupos_damage_is_local)
  show "encode_grupos [1, 2, 3, 4] 94 = Some (the (encode_grupos [1, 2, 3, 4] 94))"
    by (simp add: encode_grupos_eq)
  show "length (None # map Some (tl (the (encode_grupos [1, 2, 3, 4] 94)))) =
      length (the (encode_grupos [1, 2, 3, 4] 94))"
    by (simp add: encode_grupos_eq chunks_step GRUPO_DIGITOS_def)
qed simp

text \<open>
  The decoder drops the first byte without comparing it with the marker, so the text form is
  malleable: in base 4096, for data of a length divisible by three, the leading digit 1 can be
  replaced by any digit from 1 to 255, and zeros can be put in front, and the same data come out.
\<close>
lemma marker_is_not_checked:
  assumes "length data = 3 * m" and "0 < x" and "x < 256"
  shows "\<exists>ds. encode_base_n data 4096 = Some (1 # ds) \<and>
    decode_base_n (of_nat x # ds) 4096 = data \<and> decode_base_n (0 # of_nat x # ds) 4096 = data"
  using encode_4096 [OF assms(1)] decode_4096 [OF assms] by (auto simp: decode_leading_zero)

lemma marker_is_not_checked_example:
  "\<exists>ds. encode_base_n [0xAA, 0xBB, 0xCC] 4096 = Some (1 # ds) \<and>
    decode_base_n (of_nat 2 # ds) 4096 = [0xAA, 0xBB, 0xCC] \<and>
    decode_base_n (0 # of_nat 2 # ds) 4096 = [0xAA, 0xBB, 0xCC]"
  by (rule marker_is_not_checked [of _ 1]) simp_all

end
