(* ===== verification/Container.thy ===== *)
theory Container
  imports Roundtrip
begin

text \<open>
  \<^verbatim>\<open>crates/quipu-nucleo/src/container.rs\<close>: the header of an encrypted container and the
  blob \<open>header | ciphertext\<close>.  The const generics \<open>SALT\<close> and \<open>NONCE\<close> are the first two
  arguments of every operation; an array \<^verbatim>\<open>[u8; SALT]\<close> is a byte string of that length,
  which \<open>header_wf\<close> states.  \<^verbatim>\<open>src/src/container.rs\<close> fixes the profile (16, 24) of
  \<^verbatim>\<open>quipu\<close>; \<^verbatim>\<open>quipu-cnsa\<close> fixes (16, 12).
\<close>

section \<open>The format\<close>

definition BYTES_FIJOS :: nat where
  "BYTES_FIJOS = 28"

definition INICIO_SALT :: nat where
  "INICIO_SALT = 16"

definition container_MAGIC :: bytes where
  "container_MAGIC = [0x51, 0x55, 0x49, 0x50]"

definition container_VERSION :: u8 where
  "container_VERSION = 1"

datatype container_error =
    ContainerTooShort
  | ContainerBadMagic
  | ContainerUnsupportedVersion u8
  | FlagsDesconocidos u8

record header =
  hdr_version :: u8
  hdr_flags :: u8
  hdr_codebook_id :: u16
  hdr_codebook_hash_prefix :: bytes
  hdr_salt :: bytes
  hdr_nonce :: bytes
  hdr_kdf_mem_kib :: u32
  hdr_kdf_iterations :: u32
  hdr_kdf_parallelism :: u32

definition header_wf :: "nat \<Rightarrow> nat \<Rightarrow> header \<Rightarrow> bool" where
  "header_wf SALT NONCE h \<longleftrightarrow>
     length (hdr_codebook_hash_prefix h) = 8 \<and> length (hdr_salt h) = SALT
     \<and> length (hdr_nonce h) = NONCE"

definition header_SIZE :: "nat \<Rightarrow> nat \<Rightarrow> nat" where
  "header_SIZE SALT NONCE = BYTES_FIJOS + SALT + NONCE"

definition header_to_bytes :: "header \<Rightarrow> bytes" where
  "header_to_bytes h =
     container_MAGIC @ [hdr_version h] @ [hdr_flags h]
     @ u16_to_be (hdr_codebook_id h)
     @ hdr_codebook_hash_prefix h
     @ hdr_salt h
     @ hdr_nonce h
     @ u32_to_be (hdr_kdf_mem_kib h)
     @ u32_to_be (hdr_kdf_iterations h)
     @ u32_to_be (hdr_kdf_parallelism h)"

definition container_serialize :: "header \<Rightarrow> bytes \<Rightarrow> bytes" where
  "container_serialize h ciphertext = header_to_bytes h @ ciphertext"

definition container_parse :: "nat \<Rightarrow> nat \<Rightarrow> bytes \<Rightarrow> container_error + header \<times> bytes" where
  "container_parse SALT NONCE blob =
     (let tamano = header_SIZE SALT NONCE
      in if length blob < tamano then Inl ContainerTooShort
         else
           let head = take tamano blob;
               rest = drop tamano blob
           in if slice 0 4 head \<noteq> container_MAGIC then Inl ContainerBadMagic
              else
                let version = head ! 4
                in if version \<noteq> container_VERSION then Inl (ContainerUnsupportedVersion version)
                   else if head ! 5 \<noteq> 0 then Inl (FlagsDesconocidos (head ! 5))
                   else
                     let fin_salt = INICIO_SALT + SALT;
                         fin_nonce = fin_salt + NONCE
                     in Inr (\<lparr>hdr_version = version,
                              hdr_flags = head ! 5,
                              hdr_codebook_id = u16_from_be [head ! 6, head ! 7],
                              hdr_codebook_hash_prefix = slice 8 INICIO_SALT head,
                              hdr_salt = slice INICIO_SALT fin_salt head,
                              hdr_nonce = slice fin_salt fin_nonce head,
                              hdr_kdf_mem_kib =
                                u32_from_be (slice fin_nonce (fin_nonce + 4) head),
                              hdr_kdf_iterations =
                                u32_from_be (slice (fin_nonce + 4) (fin_nonce + 8) head),
                              hdr_kdf_parallelism =
                                u32_from_be (slice (fin_nonce + 8) (fin_nonce + 12) head)\<rparr>,
                             rest))"

text \<open>The headers the writers of the library build: this version, no flags, arrays of the profile.\<close>

definition header_ok :: "nat \<Rightarrow> nat \<Rightarrow> header \<Rightarrow> bool" where
  "header_ok SALT NONCE h \<longleftrightarrow>
     header_wf SALT NONCE h \<and> hdr_version h = container_VERSION \<and> hdr_flags h = 0"

text \<open>\<^verbatim>\<open>src/src/container.rs\<close>: the profile of \<^verbatim>\<open>quipu\<close>.\<close>

definition SALT_LEN :: nat where
  "SALT_LEN = 16"

definition NONCE_LEN :: nat where
  "NONCE_LEN = 24"

definition quipu_serialize :: "header \<Rightarrow> bytes \<Rightarrow> bytes" where
  "quipu_serialize = container_serialize"

definition quipu_parse :: "bytes \<Rightarrow> container_error + header \<times> bytes" where
  "quipu_parse = container_parse SALT_LEN NONCE_LEN"

section \<open>Writing and reading\<close>

lemmas container_consts =
  BYTES_FIJOS_def INICIO_SALT_def container_MAGIC_def container_VERSION_def header_SIZE_def

lemma length_header_to_bytes [simp]:
  "header_wf SALT NONCE h \<Longrightarrow> length (header_to_bytes h) = header_SIZE SALT NONCE"
  by (simp add: header_to_bytes_def header_wf_def container_consts)

text \<open>Reading a blob splits it at the fields.\<close>

lemma container_parse_eq:
  "container_parse SALT NONCE blob =
    (if length blob < 28 + SALT + NONCE then Inl ContainerTooShort
     else if take 4 blob \<noteq> container_MAGIC then Inl ContainerBadMagic
     else if blob ! 4 \<noteq> container_VERSION then Inl (ContainerUnsupportedVersion (blob ! 4))
     else if blob ! 5 \<noteq> 0 then Inl (FlagsDesconocidos (blob ! 5))
     else Inr (\<lparr>hdr_version = blob ! 4, hdr_flags = blob ! 5,
                hdr_codebook_id = u16_from_be (slice 6 8 blob),
                hdr_codebook_hash_prefix = slice 8 16 blob,
                hdr_salt = slice 16 (16 + SALT) blob,
                hdr_nonce = slice (16 + SALT) (16 + SALT + NONCE) blob,
                hdr_kdf_mem_kib = u32_from_be (slice (16 + SALT + NONCE) (20 + SALT + NONCE) blob),
                hdr_kdf_iterations = u32_from_be (slice (20 + SALT + NONCE) (24 + SALT + NONCE) blob),
                hdr_kdf_parallelism = u32_from_be (slice (24 + SALT + NONCE) (28 + SALT + NONCE) blob)\<rparr>,
               drop (28 + SALT + NONCE) blob))"
proof (cases "length blob < 28 + SALT + NONCE")
  case False
  have id: "[blob ! 6, blob ! 7] = slice 6 8 blob"
    using False slice_pair [of 6 blob] by simp
  show ?thesis
    using False
    by (simp add: container_parse_def header_SIZE_def BYTES_FIJOS_def INICIO_SALT_def Let_def slice_take id)
      (simp add: ac_simps)
qed (simp add: container_parse_def header_SIZE_def BYTES_FIJOS_def)

lemma container_parse_serialize:
  "header_ok SALT NONCE h \<Longrightarrow> container_parse SALT NONCE (container_serialize h ct) = Inr (h, ct)"
proof -
  assume ok: "header_ok SALT NONCE h"
  then have wf: "header_wf SALT NONCE h"
    and len: "length (hdr_codebook_hash_prefix h) = 8" "length (hdr_salt h) = SALT"
      "length (hdr_nonce h) = NONCE" "hdr_version h = 1" "hdr_flags h = 0"
    by (simp_all add: header_ok_def header_wf_def container_VERSION_def)
  let ?b = "container_serialize h ct"
  have rest: "drop (28 + SALT + NONCE) ?b = ct" and size: "\<not> length ?b < 28 + SALT + NONCE"
    using length_header_to_bytes [OF wf]
    by (simp_all add: container_serialize_def header_SIZE_def BYTES_FIJOS_def)
  have magic: "take 4 ?b = container_MAGIC" "?b ! 4 = container_VERSION" "?b ! 5 = 0"
    by (simp_all add: container_serialize_def header_to_bytes_def container_MAGIC_def len
        container_VERSION_def)
  have fields: "slice 6 8 ?b = u16_to_be (hdr_codebook_id h)"
      "slice 8 16 ?b = hdr_codebook_hash_prefix h" "slice 16 (16 + SALT) ?b = hdr_salt h"
      "slice (16 + SALT) (16 + SALT + NONCE) ?b = hdr_nonce h"
      "slice (16 + SALT + NONCE) (20 + SALT + NONCE) ?b = u32_to_be (hdr_kdf_mem_kib h)"
      "slice (20 + SALT + NONCE) (24 + SALT + NONCE) ?b = u32_to_be (hdr_kdf_iterations h)"
      "slice (24 + SALT + NONCE) (28 + SALT + NONCE) ?b = u32_to_be (hdr_kdf_parallelism h)"
    by (simp_all add: container_serialize_def header_to_bytes_def container_MAGIC_def len slice_simps)
  show ?thesis
    using size by (simp add: container_parse_eq magic fields rest len container_VERSION_def)
qed

text \<open>The reader accepts nothing but what the writer writes.\<close>

lemma container_parse_Inr:
  assumes "container_parse SALT NONCE blob = Inr (h, ct)"
  shows "header_ok SALT NONCE h \<and> container_serialize h ct = blob"
proof -
  have size: "28 + SALT + NONCE \<le> length blob" and magic: "take 4 blob = container_MAGIC"
      and version: "blob ! 4 = container_VERSION" and flags: "blob ! 5 = 0"
    using assms by (auto simp: container_parse_eq split: if_splits)
  then have h: "h = \<lparr>hdr_version = container_VERSION, hdr_flags = 0,
                hdr_codebook_id = u16_from_be (slice 6 8 blob),
                hdr_codebook_hash_prefix = slice 8 16 blob,
                hdr_salt = slice 16 (16 + SALT) blob,
                hdr_nonce = slice (16 + SALT) (16 + SALT + NONCE) blob,
                hdr_kdf_mem_kib = u32_from_be (slice (16 + SALT + NONCE) (20 + SALT + NONCE) blob),
                hdr_kdf_iterations = u32_from_be (slice (20 + SALT + NONCE) (24 + SALT + NONCE) blob),
                hdr_kdf_parallelism = u32_from_be (slice (24 + SALT + NONCE) (28 + SALT + NONCE) blob)\<rparr>"
    and ct: "ct = drop (28 + SALT + NONCE) blob"
    using assms by (auto simp: container_parse_eq split: if_splits)
  have ok: "header_ok SALT NONCE h" using size by (simp add: h header_ok_def header_wf_def)
  have "[container_VERSION, 0] = slice 4 6 blob"
    using slice_pair [of 4 blob] size version flags by simp
  moreover have "take 4 blob @ slice 4 6 blob @ slice 6 (28 + SALT + NONCE) blob
      = take (28 + SALT + NONCE) blob"
    by (simp add: slice_join del: slice_zero flip: slice_zero [of _ blob])
  ultimately have "container_MAGIC @ container_VERSION # 0 # slice 6 (28 + SALT + NONCE) blob
      = take (28 + SALT + NONCE) blob"
    using magic by (metis append_Cons append_Nil)
  then have "header_to_bytes h = take (28 + SALT + NONCE) blob"
    using size
    by (simp add: h header_to_bytes_def u16_to_from_be u32_to_from_be slice_join)
  with ok show ?thesis by (simp add: container_serialize_def ct)
qed

interpretation container: canonical
    "\<lambda>(h, ct). container_serialize h ct" "container_parse SALT NONCE" "\<lambda>(h, ct). header_ok SALT NONCE h"
  for SALT NONCE
  by unfold_locales (auto simp: container_parse_serialize dest: container_parse_Inr)

section \<open>Properties\<close>

text \<open>
  C40. The container format is canonical for every profile: the parser accepts a blob exactly when
  it is the serialisation of a header of this version without flags and with the profile's salt
  and nonce, followed by the ciphertext it returns.  So two different blobs never parse alike, and
  the bytes authenticated are the bytes received.
\<close>
theorem container_canonical:
  "container_parse SALT NONCE blob = Inr (h, ct) \<longleftrightarrow>
    header_ok SALT NONCE h \<and> blob = container_serialize h ct"
  using container.dec_iff [of SALT NONCE blob "(h, ct)"] by simp

text \<open>
  The parser's errors, in the order of its checks: a short blob, a foreign magic, another
  version (reported), and a flags byte that is not zero (reported), even when everything else of
  the header is well formed.
\<close>
lemma container_errors:
  "container_parse SALT NONCE blob = Inl e \<longleftrightarrow>
    (if length blob < header_SIZE SALT NONCE then e = ContainerTooShort
     else if take 4 blob \<noteq> container_MAGIC then e = ContainerBadMagic
     else if blob ! 4 \<noteq> container_VERSION then e = ContainerUnsupportedVersion (blob ! 4)
     else blob ! 5 \<noteq> 0 \<and> e = FlagsDesconocidos (blob ! 5))"
  by (auto simp: container_parse_eq header_SIZE_def BYTES_FIJOS_def)

end
