(* ===== verification/Dictionary.thy ===== *)
theory Dictionary
  imports Roundtrip
begin

text \<open>
  \<^verbatim>\<open>crates/quipu-nucleo/src/dictionary.rs\<close>, \<^verbatim>\<open>src/src/dictionary.rs\<close> and
  \<^verbatim>\<open>src/src/dictionaries.rs\<close>: the codebook, a bijection between indices and symbols, its
  fingerprint, and the built-in alphabets.  A \<^verbatim>\<open>char\<close> is its code point, a \<^verbatim>\<open>u32\<close>
  that satisfies \<open>is_char\<close>; the \<^verbatim>\<open>HashMap\<close> is a map.  SHA-256 is the parameter of
  \<open>fingerprint\<close>.
\<close>

section \<open>The codebook\<close>

type_synonym char32 = u32

definition is_char :: "char32 \<Rightarrow> bool" where
  "is_char c \<longleftrightarrow> c < 0xD800 \<or> 0xDFFF < c \<and> c < 0x110000"

datatype dictionary_error =
    TooSmall
  | DuplicateSymbol char32
  | UnknownSymbol char32
  | IndexOutOfRange u32

record dictionary =
  dict_symbols :: "char32 list"
  dict_inverse :: "char32 \<rightharpoonup> u32"

text \<open>The loop of \<open>new\<close>: \<^verbatim>\<open>insert\<close> reports a symbol that was already there.\<close>

fun insertar_simbolos ::
  "nat \<Rightarrow> char32 list \<Rightarrow> (char32 \<rightharpoonup> u32) \<Rightarrow> dictionary_error + (char32 \<rightharpoonup> u32)" where
  "insertar_simbolos idx [] tabla = Inr tabla"
| "insertar_simbolos idx (simb # syms) tabla =
     (if tabla simb \<noteq> None then Inl (DuplicateSymbol simb)
      else insertar_simbolos (Suc idx) syms (tabla(simb \<mapsto> of_nat idx)))"

definition dictionary_new :: "char32 list \<Rightarrow> dictionary_error + dictionary" where
  "dictionary_new syms =
     (if length syms < 2 then Inl TooSmall
      else case insertar_simbolos 0 syms Map.empty of
             Inl e \<Rightarrow> Inl e
           | Inr tabla \<Rightarrow> Inr \<lparr>dict_symbols = syms, dict_inverse = tabla\<rparr>)"

definition dictionary_base :: "dictionary \<Rightarrow> u32" where
  "dictionary_base dict = of_nat (length (dict_symbols dict))"

definition index_to_symbol :: "dictionary \<Rightarrow> u32 \<Rightarrow> char32 option" where
  "index_to_symbol dict index =
     (if unat index < length (dict_symbols dict) then Some (dict_symbols dict ! unat index) else None)"

definition symbol_to_index :: "dictionary \<Rightarrow> char32 \<Rightarrow> u32 option" where
  "symbol_to_index dict symbol = dict_inverse dict symbol"

definition bytes_canonicos :: "dictionary \<Rightarrow> bytes" where
  "bytes_canonicos dict = concat (map u32_to_be (dict_symbols dict))"

definition dictionary_encode :: "dictionary \<Rightarrow> u32 list \<Rightarrow> dictionary_error + char32 list" where
  "dictionary_encode dict indices =
     traverse (\<lambda>index. case index_to_symbol dict index of
                         None \<Rightarrow> Inl (IndexOutOfRange index)
                       | Some simb \<Rightarrow> Inr simb) indices"

definition dictionary_decode :: "dictionary \<Rightarrow> char32 list \<Rightarrow> dictionary_error + u32 list" where
  "dictionary_decode dict texto =
     traverse (\<lambda>simb. case symbol_to_index dict simb of
                       None \<Rightarrow> Inl (UnknownSymbol simb)
                     | Some index \<Rightarrow> Inr index) texto"

definition fingerprint :: "(bytes \<Rightarrow> bytes) \<Rightarrow> dictionary \<Rightarrow> bytes" where
  "fingerprint sha256 dict = take 8 (sha256 (bytes_canonicos dict))"

section \<open>The built-in alphabets\<close>

definition ascii94 :: "dictionary_error + dictionary" where
  "ascii94 = dictionary_new (map of_nat [0x21..<0x7f])"

text \<open>
  \<^verbatim>\<open>(start..0x11_0000).filter_map(char::from_u32).take(count)\<close>, taken one by one as the lazy
  iterator does.
\<close>

function tomar_chars :: "nat \<Rightarrow> nat \<Rightarrow> char32 list" where
  "tomar_chars c count =
     (if count = 0 \<or> 0x110000 \<le> c then []
      else if is_char (of_nat c) then of_nat c # tomar_chars (Suc c) (count - 1)
      else tomar_chars (Suc c) count)"
  by pat_completeness auto
termination by (relation "measure (\<lambda>(c, count). 0x110000 - c)") auto

declare tomar_chars.simps [simp del]

definition from_range :: "u32 \<Rightarrow> u32 \<Rightarrow> dictionary_error + dictionary" where
  "from_range start count = dictionary_new (tomar_chars (unat start) (unat count))"

definition flagship :: "dictionary_error + dictionary" where
  "flagship = from_range 0x4E00 4096"

section \<open>Building a codebook\<close>

lemma insertar_simbolos_distinct:
  "distinct syms \<Longrightarrow> set syms \<inter> dom tabla = {} \<Longrightarrow>
    \<exists>tabla'. insertar_simbolos idx syms tabla = Inr tabla' \<and>
      (\<forall>j < length syms. tabla' (syms ! j) = Some (of_nat (idx + j))) \<and>
      (\<forall>s. s \<notin> set syms \<longrightarrow> tabla' s = tabla s)"
proof (induction syms arbitrary: idx tabla)
  case (Cons simb syms)
  have fresh: "tabla simb = None" using Cons.prems by auto
  have "distinct syms" and "set syms \<inter> dom (tabla(simb \<mapsto> of_nat idx)) = {}"
    using Cons.prems by auto
  from Cons.IH [OF this, of "Suc idx"] obtain tabla'
    where ok: "insertar_simbolos (Suc idx) syms (tabla(simb \<mapsto> of_nat idx)) = Inr tabla'"
      and in_syms: "\<And>j. j < length syms \<Longrightarrow> tabla' (syms ! j) = Some (of_nat (Suc idx + j))"
      and others: "\<And>s. s \<notin> set syms \<Longrightarrow> tabla' s = (tabla(simb \<mapsto> of_nat idx)) s"
    by blast
  have "tabla' ((simb # syms) ! j) = Some (of_nat (idx + j))" if "j < length (simb # syms)" for j
    using that Cons.prems in_syms others by (cases j) auto
  with ok fresh others show ?case by simp
qed simp

lemma insertar_simbolos_repeated:
  "\<not> (distinct syms \<and> set syms \<inter> dom tabla = {}) \<Longrightarrow>
    \<exists>us simb vs. syms = us @ simb # vs \<and> distinct us \<and> set us \<inter> dom tabla = {} \<and>
      simb \<in> set us \<union> dom tabla \<and> insertar_simbolos idx syms tabla = Inl (DuplicateSymbol simb)"
proof (induction syms arbitrary: idx tabla)
  case (Cons simb syms)
  show ?case
  proof (cases "simb \<in> dom tabla")
    case True
    then have "insertar_simbolos idx (simb # syms) tabla = Inl (DuplicateSymbol simb)" by auto
    with True show ?thesis by (intro exI [of _ "[]"]) auto
  next
    case False
    let ?tabla = "tabla(simb \<mapsto> of_nat idx)"
    have "\<not> (distinct syms \<and> set syms \<inter> dom ?tabla = {})" using Cons.prems False by auto
    from Cons.IH [OF this, of "Suc idx"] obtain us s vs
      where "syms = us @ s # vs" "distinct us" "set us \<inter> dom ?tabla = {}" "s \<in> set us \<union> dom ?tabla"
        "insertar_simbolos (Suc idx) syms ?tabla = Inl (DuplicateSymbol s)"
      by blast
    then have "simb # syms = (simb # us) @ s # vs" "distinct (simb # us)"
        "set (simb # us) \<inter> dom tabla = {}" "s \<in> set (simb # us) \<union> dom tabla"
        "insertar_simbolos idx (simb # syms) tabla = Inl (DuplicateSymbol s)"
      using False by auto
    then show ?thesis by blast
  qed
qed simp

text \<open>
  The invariant of a codebook: at least two symbols, no repetition, and the map is the inverse of
  the list.
\<close>

definition dictionary_wf :: "dictionary \<Rightarrow> bool" where
  "dictionary_wf d \<longleftrightarrow>
     2 \<le> length (dict_symbols d) \<and> length (dict_symbols d) < 2 ^ 32 \<and> distinct (dict_symbols d) \<and>
     (\<forall>s i. dict_inverse d s = Some i \<longleftrightarrow>
        unat i < length (dict_symbols d) \<and> dict_symbols d ! unat i = s)"

lemma chars_bounded: "\<forall>c \<in> set cs. is_char c \<Longrightarrow> distinct cs \<Longrightarrow> length cs \<le> 0x110000"
proof -
  assume ch: "\<forall>c \<in> set cs. is_char c" and dist: "distinct cs"
  have "unat ` set cs \<subseteq> {..<0x110000}"
    using ch by (auto simp: is_char_def word_less_nat_alt)
  then have "card (unat ` set cs) \<le> card {..<0x110000::nat}" by (intro card_mono) simp_all
  moreover have "card (unat ` set cs) = length cs"
    using dist by (simp add: card_image inj_on_def word_unat_eq_iff distinct_card)
  ultimately show ?thesis by simp
qed

lemma dictionary_new_wf:
  assumes "dictionary_new syms = Inr d" and "length syms < 2 ^ 32"
  shows "dictionary_wf d \<and> dict_symbols d = syms"
proof -
  obtain tabla where ins: "insertar_simbolos 0 syms Map.empty = Inr tabla"
      and d: "d = \<lparr>dict_symbols = syms, dict_inverse = tabla\<rparr>" and len: "2 \<le> length syms"
    using assms by (auto simp: dictionary_new_def split: if_splits sum.splits)
  have dist: "distinct syms"
  proof (rule ccontr)
    assume "\<not> distinct syms"
    then have "\<exists>us simb vs. insertar_simbolos 0 syms Map.empty = Inl (DuplicateSymbol simb)"
      using insertar_simbolos_repeated [of syms Map.empty 0] by auto
    with ins show False by simp
  qed
  from insertar_simbolos_distinct [OF this, of Map.empty 0] ins
  have in_syms: "\<And>j. j < length syms \<Longrightarrow> tabla (syms ! j) = Some (of_nat j)"
      and others: "\<And>s. s \<notin> set syms \<Longrightarrow> tabla s = None"
    by auto
  have small: "unat (of_nat j :: u32) = j" if "j < length syms" for j
    using that assms(2) by (intro unat_of_nat_u32) simp
  have "tabla s = Some i \<longleftrightarrow> unat i < length syms \<and> syms ! unat i = s" for s i
  proof
    assume "tabla s = Some i"
    moreover from this obtain j where "j < length syms" "s = syms ! j"
      using others by (metis in_set_conv_nth option.distinct(1))
    ultimately show "unat i < length syms \<and> syms ! unat i = s" using in_syms small by auto
  next
    assume "unat i < length syms \<and> syms ! unat i = s"
    with in_syms [of "unat i"] show "tabla s = Some i" by simp
  qed
  with d len dist assms(2) show ?thesis by (simp add: dictionary_wf_def)
qed

lemma dictionary_new_ok_iff:
  "(\<exists>d. dictionary_new syms = Inr d) \<longleftrightarrow> 2 \<le> length syms \<and> distinct syms"
proof (cases "distinct syms")
  case True
  from insertar_simbolos_distinct [OF this, of Map.empty 0] show ?thesis
    using True by (auto simp: dictionary_new_def)
next
  case False
  then have "\<exists>simb. insertar_simbolos 0 syms Map.empty = Inl (DuplicateSymbol simb)"
    using insertar_simbolos_repeated [of syms Map.empty 0] by auto
  with False show ?thesis by (auto simp: dictionary_new_def)
qed

lemma dictionary_new_error:
  "dictionary_new syms = Inl e \<Longrightarrow>
    length syms < 2 \<and> e = TooSmall \<or>
    (\<exists>us simb vs. syms = us @ simb # vs \<and> distinct us \<and> simb \<in> set us \<and> e = DuplicateSymbol simb)"
proof -
  assume e: "dictionary_new syms = Inl e"
  show ?thesis
  proof (cases "length syms < 2")
    case False
    with e have "\<not> distinct syms" using dictionary_new_ok_iff [of syms] by auto
    then obtain us simb vs where "syms = us @ simb # vs" "distinct us" "simb \<in> set us"
        "insertar_simbolos 0 syms Map.empty = Inl (DuplicateSymbol simb)"
      using insertar_simbolos_repeated [of syms Map.empty 0] by auto
    moreover from this(4) e False have "e = DuplicateSymbol simb"
      unfolding dictionary_new_def by simp
    ultimately show ?thesis by blast
  qed (use e in \<open>simp add: dictionary_new_def\<close>)
qed

section \<open>A codebook is a bijection\<close>

lemma base_wf: "dictionary_wf d \<Longrightarrow> unat (dictionary_base d) = length (dict_symbols d)"
  unfolding dictionary_base_def by (intro unat_of_nat_u32) (simp add: dictionary_wf_def)

lemma index_symbol_iff:
  "dictionary_wf d \<Longrightarrow> index_to_symbol d i = Some s \<longleftrightarrow> symbol_to_index d s = Some i"
  by (auto simp: dictionary_wf_def index_to_symbol_def symbol_to_index_def)

lemma index_in_base: "dictionary_wf d \<Longrightarrow> index_to_symbol d i \<noteq> None \<longleftrightarrow> i < dictionary_base d"
  by (simp add: index_to_symbol_def word_less_nat_alt base_wf)

lemma dictionary_encode_Inr_iff:
  "dictionary_encode d idx = Inr texto \<longleftrightarrow> list_all2 (\<lambda>i s. index_to_symbol d i = Some s) idx texto"
  by (simp add: dictionary_encode_def traverse_Inr_iff option.case_eq_if)
    (rule list.rel_cong; auto)

lemma dictionary_decode_Inr_iff:
  "dictionary_decode d texto = Inr idx \<longleftrightarrow> list_all2 (\<lambda>s i. symbol_to_index d s = Some i) texto idx"
  by (simp add: dictionary_decode_def traverse_Inr_iff option.case_eq_if)
    (rule list.rel_cong; auto)

lemma dictionary_encode_decode:
  "dictionary_wf d \<Longrightarrow> dictionary_encode d idx = Inr texto \<longleftrightarrow> dictionary_decode d texto = Inr idx"
  by (simp add: dictionary_encode_Inr_iff dictionary_decode_Inr_iff index_symbol_iff
      list_all2_conv_all_nth) auto

lemma dictionary_encode_total:
  "dictionary_wf d \<Longrightarrow> (\<exists>texto. dictionary_encode d idx = Inr texto) \<longleftrightarrow> (\<forall>i \<in> set idx. i < dictionary_base d)"
proof
  assume wf: "dictionary_wf d" and all: "\<forall>i \<in> set idx. i < dictionary_base d"
  have "list_all2 (\<lambda>i s. index_to_symbol d i = Some s) idx (map (\<lambda>i. the (index_to_symbol d i)) idx)"
    using wf all index_in_base [OF wf] by (auto simp: list_all2_conv_all_nth)
  then show "\<exists>texto. dictionary_encode d idx = Inr texto" by (auto simp: dictionary_encode_Inr_iff)
next
  assume wf: "dictionary_wf d" and "\<exists>texto. dictionary_encode d idx = Inr texto"
  then show "\<forall>i \<in> set idx. i < dictionary_base d"
    by (auto simp: dictionary_encode_Inr_iff list_all2_conv_all_nth in_set_conv_nth
        simp flip: index_in_base [OF wf])
qed

text \<open>The two errors name the first offender.\<close>

lemma dictionary_decode_error:
  "dictionary_decode d texto = Inl e \<Longrightarrow>
    \<exists>us s vs. texto = us @ s # vs \<and> symbol_to_index d s = None \<and> e = UnknownSymbol s \<and>
      (\<forall>u \<in> set us. symbol_to_index d u \<noteq> None)"
  unfolding dictionary_decode_def
  by (drule traverse_Inl_first) (force split: option.splits)

lemma codebook_canonical:
  assumes wf: "dictionary_wf d"
  shows "canonical (\<lambda>idx. projr (dictionary_encode d idx)) (dictionary_decode d)
    (\<lambda>idx. \<forall>i \<in> set idx. i < dictionary_base d)"
proof unfold_locales
  fix idx
  assume "\<forall>i \<in> set idx. i < dictionary_base d"
  then obtain texto where "dictionary_encode d idx = Inr texto"
    using dictionary_encode_total [OF wf] by blast
  moreover from this have "dictionary_decode d texto = Inr idx"
    using dictionary_encode_decode [OF wf] by blast
  ultimately show "dictionary_decode d (projr (dictionary_encode d idx)) = Inr idx" by simp
next
  fix texto idx
  assume "dictionary_decode d texto = Inr idx"
  then have "dictionary_encode d idx = Inr texto" by (simp add: dictionary_encode_decode [OF wf])
  moreover from this have "\<forall>i \<in> set idx. i < dictionary_base d"
    using dictionary_encode_total [OF wf] by blast
  ultimately show "(\<forall>i \<in> set idx. i < dictionary_base d) \<and> projr (dictionary_encode d idx) = texto"
    by simp
qed

section \<open>The built-in alphabets are codebooks\<close>

lemma tomar_chars_elem:
  "s \<in> set (tomar_chars c count) \<Longrightarrow> is_char s \<and> c \<le> unat s"
proof (induction c count rule: tomar_chars.induct)
  case (1 c count)
  show ?case
  proof (cases "count = 0 \<or> 0x110000 \<le> c")
    case True
    with "1.prems" show ?thesis by (simp add: tomar_chars.simps [of c count])
  next
    case False
    have c: "unat (of_nat c :: u32) = c" using False by (intro unat_of_nat_u32) simp
    show ?thesis
    proof (cases "is_char (of_nat c)")
      case True
      then have "s = of_nat c \<or> s \<in> set (tomar_chars (Suc c) (count - 1))"
        using False "1.prems" by (simp add: tomar_chars.simps [of c count])
      then show ?thesis using "1.IH"(1) [OF False True] True c by auto
    next
      case not_char: False
      then show ?thesis
        using False "1.prems" "1.IH"(2) [OF False not_char]
        by (simp add: tomar_chars.simps [of c count])
    qed
  qed
qed

lemma tomar_chars_distinct: "distinct (tomar_chars c count)"
proof (induction c count rule: tomar_chars.induct)
  case (1 c count)
  have "unat (of_nat c :: u32) = c" if "c < 0x110000"
    using that by (intro unat_of_nat_u32) simp
  then show ?case
    using 1 by (subst tomar_chars.simps) (auto dest!: tomar_chars_elem)
qed

lemma tomar_chars_block:
  "c + count \<le> 0xD800 \<or> 0xE000 \<le> c \<and> c + count \<le> 0x110000 \<Longrightarrow>
    tomar_chars c count = map of_nat [c..<c + count]"
proof (induction count arbitrary: c)
  case (Suc count)
  have "unat (of_nat c :: u32) = c" using Suc.prems by (intro unat_of_nat_u32) auto
  then have "is_char (of_nat c)" using Suc.prems by (auto simp: is_char_def word_less_nat_alt)
  moreover have "tomar_chars (Suc c) count = map of_nat [Suc c..<Suc c + count]"
    using Suc.prems by (intro Suc.IH) auto
  moreover have "\<not> 0x110000 \<le> c" using Suc.prems by auto
  ultimately show ?case
    by (subst tomar_chars.simps) (simp add: upt_conv_Cons del: upt_Suc)
qed (simp add: tomar_chars.simps)

lemma from_range_wf: "from_range start count = Inr d \<Longrightarrow> dictionary_wf d"
proof -
  assume d: "from_range start count = Inr d"
  have "length (tomar_chars (unat start) (unat count)) \<le> 0x110000"
    by (intro chars_bounded tomar_chars_distinct) (auto dest: tomar_chars_elem)
  with d show ?thesis by (intro dictionary_new_wf [THEN conjunct1]) (auto simp: from_range_def)
qed

text \<open>The two \<^verbatim>\<open>expect\<close>s of the built-in alphabets never fire.\<close>

lemma block_ok:
  assumes "lo + 2 \<le> hi" and "hi \<le> 0x110000"
  shows "\<exists>d. dictionary_new (map of_nat [lo..<hi]) = Inr d \<and> dictionary_wf d \<and>
    dict_symbols d = map of_nat [lo..<hi]"
proof -
  have "inj_on (of_nat :: nat \<Rightarrow> u32) {lo..<hi}"
    using assms by (intro inj_on_inverseI [of _ unat] unat_of_nat_u32) auto
  then have "distinct (map of_nat [lo..<hi] :: u32 list)" by (simp add: distinct_map)
  moreover have "2 \<le> length (map of_nat [lo..<hi] :: u32 list)" using assms by simp
  ultimately obtain d where "dictionary_new (map of_nat [lo..<hi]) = Inr d"
    using dictionary_new_ok_iff by blast
  moreover from dictionary_new_wf [OF this] assms
  have "dictionary_wf d \<and> dict_symbols d = map of_nat [lo..<hi]" by simp
  ultimately show ?thesis by blast
qed

lemma flagship_ok:
  "\<exists>d. flagship = Inr d \<and> dictionary_wf d \<and> dict_symbols d = map of_nat [0x4E00..<0x5E00]"
proof -
  have "tomar_chars 0x4E00 4096 = map of_nat [0x4E00..<0x4E00 + 4096]"
    by (rule tomar_chars_block) simp
  moreover have "(0x4E00 :: nat) + 4096 = 0x5E00" by simp
  moreover have "unat (0x4E00 :: u32) = 0x4E00" and "unat (4096 :: u32) = 4096" by simp_all
  ultimately have "flagship = dictionary_new (map of_nat [0x4E00..<0x5E00])"
    by (simp only: flagship_def from_range_def)
  moreover have "\<exists>d. dictionary_new (map of_nat [0x4E00..<0x5E00]) = Inr d \<and> dictionary_wf d \<and>
      dict_symbols d = map of_nat [0x4E00..<0x5E00]"
    by (rule block_ok) simp_all
  ultimately show ?thesis by (simp only:)
qed

lemma ascii94_ok:
  "\<exists>d. ascii94 = Inr d \<and> dictionary_wf d \<and> dict_symbols d = map of_nat [0x21..<0x7f]"
  unfolding ascii94_def by (rule block_ok) simp_all

lemma known_Inr: "\<exists>d. x = Inr d \<and> P d \<Longrightarrow> x = Inr d' \<Longrightarrow> P d'"
  by auto

lemma known_projr: "\<exists>d. x = Inr d \<and> P d \<Longrightarrow> P (projr x)"
  by auto

lemma flagship_symbols: "flagship = Inr d \<Longrightarrow> dict_symbols d = map of_nat [0x4E00..<0x5E00]"
  by (drule known_Inr [OF flagship_ok]) (rule conjunct2)

lemma ascii94_symbols: "ascii94 = Inr d \<Longrightarrow> dict_symbols d = map of_nat [0x21..<0x7f]"
  by (drule known_Inr [OF ascii94_ok]) (rule conjunct2)

lemma flagship_base: "flagship = Inr d \<Longrightarrow> dictionary_base d = 4096"
  by (simp only: dictionary_base_def flagship_symbols length_map length_upt) simp

lemma ascii94_base: "ascii94 = Inr d \<Longrightarrow> dictionary_base d = 94"
  by (simp only: dictionary_base_def ascii94_symbols length_map length_upt) simp

lemma flagship_wf: "dictionary_wf (projr flagship)"
  by (rule conjunct1 [OF known_projr [OF flagship_ok]])

lemma ascii94_wf: "dictionary_wf (projr ascii94)"
  by (rule conjunct1 [OF known_projr [OF ascii94_ok]])

interpretation flagship: canonical
    "\<lambda>idx. projr (dictionary_encode (projr flagship) idx)" "dictionary_decode (projr flagship)"
    "\<lambda>idx. \<forall>i \<in> set idx. i < dictionary_base (projr flagship)"
  by (rule codebook_canonical [OF flagship_wf])

interpretation ascii94: canonical
    "\<lambda>idx. projr (dictionary_encode (projr ascii94) idx)" "dictionary_decode (projr ascii94)"
    "\<lambda>idx. \<forall>i \<in> set idx. i < dictionary_base (projr ascii94)"
  by (rule codebook_canonical [OF ascii94_wf])

lemma first_repeat_unique:
  assumes "us @ c # vs = us' @ c' # vs'" "distinct us" "c \<in> set us" "distinct us'" "c' \<in> set us'"
  shows "c = c'"
proof -
  obtain zs where "us = us' @ zs \<and> zs @ c # vs = c' # vs' \<or> us @ zs = us' \<and> c # vs = zs @ c' # vs'"
    using assms(1) by (auto simp: append_eq_append_conv2)
  then show ?thesis using assms(2-5) by (cases zs) auto
qed

section \<open>Properties\<close>

text \<open>
  A codebook that \<open>new\<close> accepts is a bijection: encoding indices succeeds exactly when all
  are below the base, decoding a text succeeds exactly when it is the encoding of the indices it
  returns, and no two texts decode alike.
\<close>
lemma dictionary_bijection:
  assumes "dictionary_new syms = Inr d" and "length syms < 2 ^ 32"
  shows "(dictionary_encode d idx = Inr s \<longleftrightarrow> dictionary_decode d s = Inr idx) \<and>
    ((\<exists>s. dictionary_encode d idx = Inr s) \<longleftrightarrow> (\<forall>i \<in> set idx. i < dictionary_base d)) \<and>
    (dictionary_decode d s = Inr idx \<longrightarrow> dictionary_decode d s' = Inr idx \<longrightarrow> s = s') \<and>
    unat (dictionary_base d) = length syms"
proof -
  have wf: "dictionary_wf d" and syms: "dict_symbols d = syms"
    using dictionary_new_wf [OF assms] by simp_all
  show ?thesis
    using dictionary_encode_decode [OF wf] dictionary_encode_total [OF wf] base_wf [OF wf] syms
      canonical.dec_unique [OF codebook_canonical [OF wf]]
    by blast
qed

lemma dictionary_bijection_example:
  "\<exists>d. dictionary_new [65, 66, 67] = Inr d \<and> dictionary_decode d [67, 65] = Inr [2, 0] \<and>
    dictionary_encode d [2, 0] = Inr [67, 65]"
proof -
  obtain d where d: "dictionary_new [65, 66, 67] = Inr d"
    using dictionary_new_ok_iff [of "[65, 66, 67]"] by auto
  have "dict_symbols d = [65, 66, 67]"
    using dictionary_new_wf [OF d] by simp
  then have "dictionary_encode d [2, 0] = Inr [67, 65]"
    by (simp add: dictionary_encode_def index_to_symbol_def)
  with dictionary_bijection [OF d, of "[2, 0]" "[67, 65]"] d show ?thesis by auto
qed

text \<open>
  \<open>new\<close> refuses exactly the lists that are no alphabet: fewer than two symbols, or a symbol
  that repeats an earlier one, and then it names the first such symbol; the two built-in alphabets
  are accepted, so their \<^verbatim>\<open>expect\<close> never fires.
\<close>
lemma dictionary_new_errors:
  "(dictionary_new syms = Inl TooSmall \<longleftrightarrow> length syms < 2) \<and>
   (dictionary_new syms = Inl (DuplicateSymbol c) \<longleftrightarrow>
      2 \<le> length syms \<and> (\<exists>us vs. syms = us @ c # vs \<and> distinct us \<and> c \<in> set us)) \<and>
   (\<exists>d. flagship = Inr d \<and> dictionary_wf d \<and> dictionary_base d = 4096) \<and>
   (\<exists>d. ascii94 = Inr d \<and> dictionary_wf d \<and> dictionary_base d = 94)"
proof -
  have "dictionary_new syms = Inl (DuplicateSymbol c)"
    if "2 \<le> length syms" "syms = us @ c # vs" "distinct us" "c \<in> set us" for us vs
  proof -
    have "\<not> distinct syms" using that by auto
    then obtain e where e: "dictionary_new syms = Inl e"
      using dictionary_new_ok_iff by (cases "dictionary_new syms") auto
    from dictionary_new_error [OF this] that(1) obtain us' c' vs'
      where *: "syms = us' @ c' # vs'" "distinct us'" "c' \<in> set us'" "e = DuplicateSymbol c'"
      by auto
    have "c' = c" using first_repeat_unique [of us' c' vs' us c vs] * that by simp
    with e * show ?thesis by simp
  qed
  then have repeated: "dictionary_new syms = Inl (DuplicateSymbol c) \<longleftrightarrow>
      2 \<le> length syms \<and> (\<exists>us vs. syms = us @ c # vs \<and> distinct us \<and> c \<in> set us)"
    using dictionary_new_error [of syms "DuplicateSymbol c"]
    by (metis dictionary_error.distinct(1) dictionary_error.inject(1) dictionary_new_def not_le sum.inject(1))
  have small: "dictionary_new syms = Inl TooSmall \<longleftrightarrow> length syms < 2"
    using dictionary_new_error [of syms TooSmall] by (auto simp: dictionary_new_def)
  obtain d1 where d1: "flagship = Inr d1" "dictionary_wf d1" using flagship_ok by blast
  obtain d2 where d2: "ascii94 = Inr d2" "dictionary_wf d2" using ascii94_ok by blast
  show ?thesis
    using repeated small d1 d2 flagship_base [OF d1(1)] ascii94_base [OF d2(1)] by blast
qed

end
