(* ===== verification/Kdf.thy ===== *)
theory Kdf
  imports Dictionary
begin

text \<open>
  \<^verbatim>\<open>src/src/kdf.rs\<close> and \<^verbatim>\<open>src/src/cipher.rs\<close>: the Argon2id parameters and their
  bounds, the derivation of the master key, of the subkeys and of key streams, and the thin AEAD
  wrapper.  The primitives of other crates (NFKC, Argon2id, HKDF-SHA256, SHA-256,
  XChaCha20-Poly1305) are the fields of the record \<open>cripto\<close>, the first argument of every
  operation that uses them; \<open>None\<close> is the error on which the source panics
  (\<^verbatim>\<open>expect\<close>) or, for the decryption, the error it reports.  \<open>cripto_ok\<close> states what is
  documented of them.  Wiping buffers has no functional effect and is not modelled.
\<close>

section \<open>The primitives\<close>

record cripto =
  nfkc :: "char32 list \<Rightarrow> char32 list"
  argon2id :: "u32 \<Rightarrow> u32 \<Rightarrow> u32 \<Rightarrow> bytes \<Rightarrow> bytes \<Rightarrow> bytes option"
  hkdf_sha256 :: "bytes \<Rightarrow> bytes \<Rightarrow> nat \<Rightarrow> bytes option"
  xchacha_encrypt :: "bytes \<Rightarrow> bytes \<Rightarrow> bytes \<Rightarrow> bytes \<Rightarrow> bytes option"
  xchacha_decrypt :: "bytes \<Rightarrow> bytes \<Rightarrow> bytes \<Rightarrow> bytes \<Rightarrow> bytes option"
  sha256 :: "bytes \<Rightarrow> bytes"

text \<open>
  An AEAD with a tag of 16 bytes, deterministic in key, nonce and associated data: it encrypts
  every plaintext below its limit, and decryption accepts exactly the encryptions.
\<close>

definition aead_ok ::
  "nat \<Rightarrow> (bytes \<Rightarrow> bytes \<Rightarrow> bytes \<Rightarrow> bytes \<Rightarrow> bytes option) \<Rightarrow>
    (bytes \<Rightarrow> bytes \<Rightarrow> bytes \<Rightarrow> bytes \<Rightarrow> bytes option) \<Rightarrow> bool" where
  "aead_ok limit enc dec \<longleftrightarrow>
     (\<forall>k n p a. length p < limit \<longrightarrow> (\<exists>c. enc k n p a = Some c)) \<and>
     (\<forall>k n p a c. enc k n p a = Some c \<longrightarrow> length c = length p + 16) \<and>
     (\<forall>k n c a p. dec k n c a = Some p \<longleftrightarrow> enc k n p a = Some c)"

text \<open>The block counter of ChaCha20 has 32 bits: the limit is just below 256 GiB.\<close>

definition XCHACHA_LIMIT :: nat where
  "XCHACHA_LIMIT = 64 * (2 ^ 32 - 1)"

section \<open>Parameters\<close>

definition KEY_LEN :: nat where
  "KEY_LEN = 32"

definition KDF_SALT_LEN :: nat where
  "KDF_SALT_LEN = 16"

record kdf_params =
  mem_kib :: u32
  iterations :: u32
  parallelism :: u32

definition MAX_MEM_KIB :: u32 where
  "MAX_MEM_KIB = 262144"

definition MAX_ITERATIONS :: u32 where
  "MAX_ITERATIONS = 16"

definition MAX_PARALLELISM :: u32 where
  "MAX_PARALLELISM = 16"

definition LIGERO :: kdf_params where
  "LIGERO = \<lparr>mem_kib = 16 * 1024, iterations = 3, parallelism = 1\<rparr>"

definition EQUILIBRADO :: kdf_params where
  "EQUILIBRADO = \<lparr>mem_kib = 64 * 1024, iterations = 3, parallelism = 1\<rparr>"

definition FUERTE :: kdf_params where
  "FUERTE = \<lparr>mem_kib = MAX_MEM_KIB, iterations = 4, parallelism = 1\<rparr>"

definition kdf_params_default :: kdf_params where
  "kdf_params_default = EQUILIBRADO"

definition canonicos :: "kdf_params list" where
  "canonicos = [LIGERO, EQUILIBRADO, FUERTE]"

definition kdf_es_canonico :: "kdf_params \<Rightarrow> bool" where
  "kdf_es_canonico p \<longleftrightarrow> p \<in> set canonicos"

text \<open>\<open>8 * parallelism\<close> is only reached with \<open>parallelism \<le> 16\<close>, so it does not overflow.\<close>

definition is_sane :: "kdf_params \<Rightarrow> bool" where
  "is_sane p \<longleftrightarrow>
     1 \<le> parallelism p \<and> parallelism p \<le> MAX_PARALLELISM \<and>
     1 \<le> iterations p \<and> iterations p \<le> MAX_ITERATIONS \<and>
     8 * parallelism p \<le> mem_kib p \<and> mem_kib p \<le> MAX_MEM_KIB"

section \<open>Derivation\<close>

text \<open>\<^verbatim>\<open>String::into_bytes\<close>: the UTF-8 bytes of the characters.\<close>

definition utf8_char :: "char32 \<Rightarrow> bytes" where
  "utf8_char c =
     (let n = unat c
      in if n < 0x80 then [of_nat n]
         else if n < 0x800 then [of_nat (0xC0 + n div 2 ^ 6), of_nat (0x80 + n mod 2 ^ 6)]
         else if n < 0x10000 then
           [of_nat (0xE0 + n div 2 ^ 12), of_nat (0x80 + n div 2 ^ 6 mod 2 ^ 6),
            of_nat (0x80 + n mod 2 ^ 6)]
         else
           [of_nat (0xF0 + n div 2 ^ 18), of_nat (0x80 + n div 2 ^ 12 mod 2 ^ 6),
            of_nat (0x80 + n div 2 ^ 6 mod 2 ^ 6), of_nat (0x80 + n mod 2 ^ 6)])"

definition utf8 :: "char32 list \<Rightarrow> bytes" where
  "utf8 s = concat (map utf8_char s)"

definition normalizar :: "('c) cripto_scheme \<Rightarrow> char32 list \<Rightarrow> char32 list" where
  "normalizar C passphrase = nfkc C passphrase"

definition derive_master_key ::
  "'c cripto_scheme \<Rightarrow> char32 list \<Rightarrow> bytes \<Rightarrow> bytes \<Rightarrow> kdf_params \<Rightarrow> bytes option" where
  "derive_master_key C passphrase salt pepper params =
     (let normalized = normalizar C passphrase;
          secret = utf8 normalized @ pepper
      in argon2id C (mem_kib params) (iterations params) (parallelism params) secret salt)"

definition derive_subkey :: "'c cripto_scheme \<Rightarrow> bytes \<Rightarrow> bytes \<Rightarrow> bytes option" where
  "derive_subkey C master info = hkdf_sha256 C master info KEY_LEN"

definition derive_stream :: "'c cripto_scheme \<Rightarrow> bytes \<Rightarrow> bytes \<Rightarrow> nat \<Rightarrow> bytes option" where
  "derive_stream C master info len = hkdf_sha256 C master info len"

section \<open>The AEAD wrapper\<close>

datatype cipher_error = DecryptFailed

definition cipher_encrypt :: "'c cripto_scheme \<Rightarrow> bytes \<Rightarrow> bytes \<Rightarrow> bytes \<Rightarrow> bytes \<Rightarrow> bytes option" where
  "cipher_encrypt C key nonce plaintext aad = xchacha_encrypt C key nonce plaintext aad"

definition cipher_decrypt ::
  "'c cripto_scheme \<Rightarrow> bytes \<Rightarrow> bytes \<Rightarrow> bytes \<Rightarrow> bytes \<Rightarrow> cipher_error + bytes" where
  "cipher_decrypt C key nonce ciphertext aad =
     (case xchacha_decrypt C key nonce ciphertext aad of
        None \<Rightarrow> Inl DecryptFailed
      | Some p \<Rightarrow> Inr p)"

section \<open>What is documented of the primitives\<close>

text \<open>
  Argon2id (RFC 9106) accepts at least eight KiB per lane, one pass and one lane, a salt of at
  least eight bytes and a password below \<open>2 ^ 32\<close> bytes; HKDF-Expand (RFC 5869) gives up to
  \<open>255 * 32\<close> bytes; SHA-256 gives 32.
\<close>

definition argon2id_ok ::
  "(u32 \<Rightarrow> u32 \<Rightarrow> u32 \<Rightarrow> bytes \<Rightarrow> bytes \<Rightarrow> bytes option) \<Rightarrow> bool" where
  "argon2id_ok kdf \<longleftrightarrow>
     (\<forall>m t p secret salt.
        1 \<le> p \<and> p < 2 ^ 24 \<and> 1 \<le> t \<and> 8 * unat p \<le> unat m \<and>
        length secret < 2 ^ 32 \<and> 8 \<le> length salt \<and> length salt < 2 ^ 32 \<longrightarrow>
        (\<exists>k. kdf m t p secret salt = Some k)) \<and>
     (\<forall>m t p secret salt k. kdf m t p secret salt = Some k \<longrightarrow> length k = 32)"

definition hkdf_ok :: "(bytes \<Rightarrow> bytes \<Rightarrow> nat \<Rightarrow> bytes option) \<Rightarrow> bool" where
  "hkdf_ok hkdf \<longleftrightarrow>
     (\<forall>ikm info len. len \<le> 255 * 32 \<longrightarrow> (\<exists>k. hkdf ikm info len = Some k \<and> length k = len))"

definition cripto_ok :: "'c cripto_scheme \<Rightarrow> bool" where
  "cripto_ok C \<longleftrightarrow>
     argon2id_ok (argon2id C) \<and> hkdf_ok (hkdf_sha256 C) \<and>
     aead_ok XCHACHA_LIMIT (xchacha_encrypt C) (xchacha_decrypt C) \<and>
     (\<forall>m. length (sha256 C m) = 32)"

lemma cripto_ok_simps:
  assumes "cripto_ok C"
  shows "argon2id_ok (argon2id C)" and "hkdf_ok (hkdf_sha256 C)"
    and "aead_ok XCHACHA_LIMIT (xchacha_encrypt C) (xchacha_decrypt C)"
    and "length (sha256 C m) = 32"
  using assms by (simp_all add: cripto_ok_def)

lemma aead_okD:
  assumes "aead_ok limit enc dec"
  shows "length p < limit \<Longrightarrow> \<exists>c. enc k n p a = Some c"
    and "enc k n p a = Some c \<Longrightarrow> length c = length p + 16"
    and "dec k n c a = Some p \<longleftrightarrow> enc k n p a = Some c"
  using assms by (simp_all add: aead_ok_def)

text \<open>
  What the callers of an AEAD use, whichever it is: opening undoes sealing and accepts nothing else,
  so an opened message fixes the ciphertext and, with its key, nonce and data, the ciphertext fixes
  the message.
\<close>

locale aead =
  fixes ok :: bool and limit :: nat
    and enc dec :: "bytes \<Rightarrow> bytes \<Rightarrow> bytes \<Rightarrow> bytes \<Rightarrow> bytes option"
  assumes laws: "ok \<Longrightarrow> aead_ok limit enc dec"
begin

lemma opens_iff: "ok \<Longrightarrow> dec k n c a = Some p \<longleftrightarrow> enc k n p a = Some c"
  using aead_okD(3) [OF laws] by blast

lemma opens_sealed: "ok \<Longrightarrow> enc k n p a = Some c \<Longrightarrow> dec k n c a = Some p"
  by (simp add: opens_iff)

lemma seals: "ok \<Longrightarrow> length p < limit \<Longrightarrow> \<exists>c. enc k n p a = Some c \<and> length c = length p + 16"
  using aead_okD(1,2) [OF laws] by blast

lemma sealed_unique: "ok \<Longrightarrow> enc k n p a = Some c \<Longrightarrow> enc k n q a = Some c \<Longrightarrow> p = q"
  by (metis opens_iff option.inject)

end

interpretation xchacha: aead "cripto_ok C" XCHACHA_LIMIT "xchacha_encrypt C" "xchacha_decrypt C" for C
  by unfold_locales (rule cripto_ok_simps(3))

lemma cipher_decrypt_iff:
  "cripto_ok C \<Longrightarrow> cipher_decrypt C k n c a = Inr p \<longleftrightarrow> cipher_encrypt C k n p a = Some c"
  by (auto simp: cipher_decrypt_def cipher_encrypt_def xchacha.opens_iff [symmetric] split: option.splits)

lemma cipher_encrypt_total:
  "cripto_ok C \<Longrightarrow> length p < XCHACHA_LIMIT \<Longrightarrow>
    \<exists>c. cipher_encrypt C k n p a = Some c \<and> length c = length p + 16"
  unfolding cipher_encrypt_def by (rule xchacha.seals)

lemma derive_subkey_total: "cripto_ok C \<Longrightarrow> \<exists>k. derive_subkey C m info = Some k \<and> length k = KEY_LEN"
  by (simp add: derive_subkey_def cripto_ok_def hkdf_ok_def KEY_LEN_def)

lemma derive_stream_total:
  "cripto_ok C \<Longrightarrow> len \<le> 8160 \<Longrightarrow> \<exists>k. derive_stream C m info len = Some k \<and> length k = len"
  by (simp add: derive_stream_def cripto_ok_def hkdf_ok_def)

section \<open>Sane parameters derive\<close>

lemma is_sane_unat:
  "is_sane p \<longleftrightarrow>
    1 \<le> unat (parallelism p) \<and> unat (parallelism p) \<le> 16 \<and>
    1 \<le> unat (iterations p) \<and> unat (iterations p) \<le> 16 \<and>
    8 * unat (parallelism p) \<le> unat (mem_kib p) \<and> unat (mem_kib p) \<le> 262144"
proof (cases "unat (parallelism p) \<le> 16")
  case True
  then have "unat (8 * parallelism p) = 8 * unat (parallelism p)"
    by (simp add: unat_word_ariths)
  then show ?thesis
    by (simp add: is_sane_def word_le_nat_alt MAX_PARALLELISM_def MAX_ITERATIONS_def MAX_MEM_KIB_def)
next
  case False
  then show ?thesis by (simp add: is_sane_def word_le_nat_alt MAX_PARALLELISM_def)
qed

lemma canonicos_sane: "kdf_es_canonico p \<Longrightarrow> is_sane p"
  by (auto simp: kdf_es_canonico_def canonicos_def LIGERO_def EQUILIBRADO_def FUERTE_def
      is_sane_unat MAX_MEM_KIB_def)

lemma derive_master_key_total:
  assumes "cripto_ok C" and "is_sane params" and "length salt = KDF_SALT_LEN"
    and "length (utf8 (nfkc C pw)) + length pepper < 2 ^ 32"
  shows "\<exists>k. derive_master_key C pw salt pepper params = Some k \<and> length k = KEY_LEN"
proof -
  have "unat (parallelism params) < 2 ^ 24" using assms(2) by (simp add: is_sane_unat)
  then have "1 \<le> parallelism params" "parallelism params < 2 ^ 24" "1 \<le> iterations params"
      "8 * unat (parallelism params) \<le> unat (mem_kib params)"
    using assms(2) by (simp_all add: word_less_nat_alt word_le_nat_alt is_sane_unat)
  moreover have "length (utf8 (nfkc C pw) @ pepper) < 2 ^ 32" "8 \<le> length salt" "length salt < 2 ^ 32"
    using assms(3,4) by (simp_all add: KDF_SALT_LEN_def)
  ultimately have "\<exists>k. derive_master_key C pw salt pepper params = Some k"
    using cripto_ok_simps(1) [OF assms(1)]
    unfolding argon2id_ok_def derive_master_key_def normalizar_def Let_def by blast
  then show ?thesis
    using cripto_ok_simps(1) [OF assms(1)]
    unfolding argon2id_ok_def derive_master_key_def KEY_LEN_def Let_def by blast
qed

text \<open>
  The secret is the plain concatenation of passphrase and pepper: what moves from one to the
  other does not change the key.
\<close>

lemma pepper_boundary:
  "utf8 (nfkc C pw) @ pepper = utf8 (nfkc C pw') @ pepper' \<Longrightarrow>
    derive_master_key C pw salt pepper params = derive_master_key C pw' salt pepper' params"
  by (simp add: derive_master_key_def normalizar_def)

end
