(* ===== verification/Aleatorio.thy ===== *)
theory Aleatorio
  imports Prelude
begin

text \<open>
  \<^verbatim>\<open>src/src/aleatorio.rs\<close>: the one place that draws randomness.  The system source
  (\<^verbatim>\<open>getrandom::fill\<close>) is a parameter: a function from its state and the number of bytes
  wanted to the error's operating-system code or the bytes, and the new state.  \<open>llenar\<close> tries
  it at most three times, retries only the transient codes 23 and 24, and checks the health of
  what it got before handing it out.
\<close>

type_synonym 'r fuente = "'r \<Rightarrow> nat \<Rightarrow> (int option + bytes) \<times> 'r"

definition INTENTOS :: nat where
  "INTENTOS = 3"

definition REPETICION_QUE_DELATA :: nat where
  "REPETICION_QUE_DELATA = 8"

datatype fallo_de_salud =
    TodoCeros
  | Atascada u8 nat

record sin_entropia =
  se_bytes :: nat
  se_intentos :: nat
  se_codigo_os :: "int option"
  se_salud :: "fallo_de_salud option"

text \<open>The loop over \<^verbatim>\<open>windows(2)\<close>: the previous byte and the length of its run.\<close>

fun racha :: "u8 \<Rightarrow> nat \<Rightarrow> bytes \<Rightarrow> fallo_de_salud option" where
  "racha previo seguidos [] = None"
| "racha previo seguidos (b # bs) =
     (if previo = b then
        (if REPETICION_QUE_DELATA \<le> seguidos + 1 then Some (Atascada previo (seguidos + 1))
         else racha b (seguidos + 1) bs)
      else racha b 1 bs)"

definition salud_de :: "bytes \<Rightarrow> fallo_de_salud option" where
  "salud_de muestra =
     (if REPETICION_QUE_DELATA \<le> length muestra \<and> list_all (\<lambda>b. b = 0) muestra then Some TodoCeros
      else case muestra of [] \<Rightarrow> None | b # bs \<Rightarrow> racha b 1 bs)"

definition codigo_transitorio :: "int option \<Rightarrow> bool" where
  "codigo_transitorio codigo \<longleftrightarrow> codigo = Some 23 \<or> codigo = Some 24"

definition probablemente_transitorio :: "sin_entropia \<Rightarrow> bool" where
  "probablemente_transitorio e =
     (if se_salud e \<noteq> None then False else codigo_transitorio (se_codigo_os e))"

text \<open>The attempts from number \<open>intento\<close> on, with the last code seen.\<close>

function llenar_desde ::
  "'r fuente \<Rightarrow> nat \<Rightarrow> nat \<Rightarrow> int option \<Rightarrow> 'r \<Rightarrow> (sin_entropia + bytes) \<times> 'r" where
  "llenar_desde fuente n intento ultimo r =
     (if INTENTOS < intento then
        (Inl \<lparr>se_bytes = n, se_intentos = INTENTOS, se_codigo_os = ultimo, se_salud = None\<rparr>, r)
      else
        case fuente r n of
          (Inr muestra, r') \<Rightarrow>
            (case salud_de muestra of
               None \<Rightarrow> (Inr muestra, r')
             | Some fallo \<Rightarrow>
                 (Inl \<lparr>se_bytes = n, se_intentos = intento, se_codigo_os = None,
                       se_salud = Some fallo\<rparr>, r'))
        | (Inl codigo, r') \<Rightarrow>
            if codigo_transitorio codigo then llenar_desde fuente n (Suc intento) codigo r'
            else (Inl \<lparr>se_bytes = n, se_intentos = intento, se_codigo_os = codigo,
                       se_salud = None\<rparr>, r'))"
  by pat_completeness auto
termination by (relation "measure (\<lambda>(_, _, intento, _, _). Suc INTENTOS - intento)") auto

declare llenar_desde.simps [simp del]

definition llenar :: "'r fuente \<Rightarrow> nat \<Rightarrow> 'r \<Rightarrow> (sin_entropia + bytes) \<times> 'r" where
  "llenar fuente n r = llenar_desde fuente n 1 None r"

text \<open>\<^verbatim>\<open>.expect("RNG del sistema")\<close>: an error is a panic.\<close>

definition llenar_expect :: "'r fuente \<Rightarrow> nat \<Rightarrow> 'r \<Rightarrow> (bytes \<times> 'r) option" where
  "llenar_expect fuente n r =
     (case llenar fuente n r of (Inl _, _) \<Rightarrow> None | (Inr b, r') \<Rightarrow> Some (b, r'))"

text \<open>What the library assumes of the source: it fills the whole buffer.\<close>

definition fuente_ok :: "'r fuente \<Rightarrow> bool" where
  "fuente_ok fuente \<longleftrightarrow> (\<forall>r n b r'. fuente r n = (Inr b, r') \<longrightarrow> length b = n)"

section \<open>The health test\<close>

text \<open>A run of eight equal bytes somewhere.\<close>

definition racha_de_ocho :: "bytes \<Rightarrow> bool" where
  "racha_de_ocho xs \<longleftrightarrow> (\<exists>us b vs. xs = us @ replicate 8 b @ vs)"

lemma racha_de_ocho_Cons:
  "racha_de_ocho (x # xs) \<longleftrightarrow> take 7 xs = replicate 7 x \<or> racha_de_ocho xs"
proof
  assume "racha_de_ocho (x # xs)"
  then obtain us b vs where *: "x # xs = us @ replicate 8 b @ vs"
    by (auto simp: racha_de_ocho_def)
  show "take 7 xs = replicate 7 x \<or> racha_de_ocho xs"
  proof (cases us)
    case Nil
    then have "x # xs = b # replicate 7 b @ vs" using * by (simp add: numeral_eq_Suc)
    then show ?thesis by simp
  next
    case (Cons u us')
    then have "xs = us' @ replicate 8 b @ vs" using * by simp
    then show ?thesis unfolding racha_de_ocho_def by blast
  qed
next
  assume "take 7 xs = replicate 7 x \<or> racha_de_ocho xs"
  then show "racha_de_ocho (x # xs)"
  proof
    assume "take 7 xs = replicate 7 x"
    then have "xs = replicate 7 x @ drop 7 xs" by (metis append_take_drop_id)
    then have "x # xs = [] @ replicate 8 x @ drop 7 xs" by (simp add: numeral_eq_Suc)
    then show ?thesis unfolding racha_de_ocho_def by blast
  next
    assume "racha_de_ocho xs"
    then obtain us b vs where "xs = us @ replicate 8 b @ vs" by (auto simp: racha_de_ocho_def)
    then have "x # xs = (x # us) @ replicate 8 b @ vs" by simp
    then show ?thesis unfolding racha_de_ocho_def by blast
  qed
qed

lemma racha_spec:
  "1 \<le> k \<Longrightarrow> k < 8 \<Longrightarrow>
    (racha p k bs = None \<longleftrightarrow> \<not> racha_de_ocho (replicate k p @ bs))"
proof (induction p k bs rule: racha.induct)
  case (1 p k)
  have "\<not> racha_de_ocho (replicate k p)"
  proof
    assume "racha_de_ocho (replicate k p)"
    then obtain us b vs where "replicate k p = us @ replicate 8 b @ vs"
      by (auto simp: racha_de_ocho_def)
    then have "k = length (us @ replicate 8 b @ vs)" by (metis length_replicate)
    with 1 show False by simp
  qed
  then show ?case by simp
next
  case (2 p k b bs)
  show ?case
  proof (cases "p = b")
    case True
    have run: "replicate k b @ b # bs = replicate (Suc k) b @ bs"
      by (metis append.assoc append_Cons append_Nil replicate_Suc replicate_append_same)
    show ?thesis
    proof (cases "8 \<le> k + 1")
      case True
      with 2 have "Suc k = 8" by simp
      then have "replicate (Suc k) b @ bs = [] @ replicate 8 b @ bs" by simp
      then have "racha_de_ocho (replicate (Suc k) b @ bs)" unfolding racha_de_ocho_def by blast
      then show ?thesis
        using True \<open>p = b\<close> by (simp add: run REPETICION_QUE_DELATA_def del: replicate_Suc)
    next
      case False
      with 2 \<open>p = b\<close> show ?thesis
        by (simp add: run REPETICION_QUE_DELATA_def del: replicate_Suc)
    qed
  next
    case False
    have "racha_de_ocho (replicate k p @ b # bs) \<longleftrightarrow> racha_de_ocho (b # bs)"
      using 2(3,4)
    proof (induction k)
      case (Suc k)
      have "take 7 (replicate k p @ b # bs) \<noteq> replicate 7 p"
      proof
        assume eq: "take 7 (replicate k p @ b # bs) = replicate 7 p"
        have "take 7 (replicate k p @ b # bs) ! k = b" using Suc.prems by (simp add: nth_append)
        with eq False Suc.prems show False by simp
      qed
      then show ?case
        using Suc by (cases k) (simp_all add: racha_de_ocho_Cons del: take_append)
    qed simp
    with 2(3,4) 2(2) [OF False] False show ?thesis by simp
  qed
qed

lemma todo_ceros_racha:
  "8 \<le> length xs \<Longrightarrow> list_all (\<lambda>b. b = 0) xs \<Longrightarrow> racha_de_ocho xs"
proof -
  assume len: "8 \<le> length xs" and "list_all (\<lambda>b. b = 0) xs"
  then have "take 8 xs = replicate 8 0"
    by (intro nth_equalityI) (auto simp: list_all_length)
  then have "xs = [] @ replicate 8 0 @ drop 8 xs" by (metis append_Nil append_take_drop_id)
  then show ?thesis unfolding racha_de_ocho_def by blast
qed

lemma racha_not_zeros: "racha p k bs \<noteq> Some TodoCeros"
  by (induction p k bs rule: racha.induct) simp_all

lemma salud_de_spec: "salud_de muestra = None \<longleftrightarrow> \<not> racha_de_ocho muestra"
proof (cases muestra)
  case Nil
  then show ?thesis by (simp add: salud_de_def racha_de_ocho_def REPETICION_QUE_DELATA_def)
next
  case (Cons b bs)
  have "racha b 1 bs = None \<longleftrightarrow> \<not> racha_de_ocho muestra"
    using racha_spec [of 1 b bs] by (simp add: Cons)
  then show ?thesis
    using todo_ceros_racha [of muestra] by (auto simp: salud_de_def REPETICION_QUE_DELATA_def Cons)
qed

section \<open>Drawing bytes\<close>

lemma llenar_desde_Inr:
  "llenar_desde fuente n i u r = (Inr b, r') \<Longrightarrow>
    salud_de b = None \<and> (\<exists>s. fuente s n = (Inr b, r'))"
proof (induction fuente n i u r rule: llenar_desde.induct)
  case (1 fuente n i u r)
  note step = "1.prems" [unfolded llenar_desde.simps [of fuente n i u r]]
  show ?case
    using step "1.IH" by (auto split: if_splits prod.splits sum.splits option.splits)
qed

text \<open>Every error says what happened at the last attempt; a transient one used all three.\<close>

lemma llenar_desde_Inl:
  "\<lbrakk>llenar_desde fuente n i u r = (Inl e, r'); 1 \<le> i; i \<le> 4;
    i = 1 \<or> codigo_transitorio u \<and> (\<exists>s. fuente s n = (Inl u, r))\<rbrakk> \<Longrightarrow>
    se_bytes e = n \<and> i \<le> Suc (se_intentos e) \<and> se_intentos e \<le> 3 \<and> 1 \<le> se_intentos e \<and>
    (case se_salud e of
       Some f \<Rightarrow> (\<exists>s b. fuente s n = (Inr b, r') \<and> salud_de b = Some f) \<and> se_codigo_os e = None
     | None \<Rightarrow> (\<exists>s. fuente s n = (Inl (se_codigo_os e), r')) \<and>
         (codigo_transitorio (se_codigo_os e) \<longrightarrow> se_intentos e = 3))"
proof (induction fuente n i u r rule: llenar_desde.induct)
  case (1 fuente n i u r)
  note step = "1.prems"(1) [unfolded llenar_desde.simps [of fuente n i u r]]
  show ?case
  proof (cases "INTENTOS < i")
    case True
    with step "1.prems" show ?thesis by (auto simp: INTENTOS_def)
  next
    case False
    obtain x s where x: "fuente r n = (x, s)" by fastforce
    show ?thesis
    proof (cases x)
      case (Inl c)
      show ?thesis
      proof (cases "codigo_transitorio c")
        case True
        have "llenar_desde fuente n (Suc i) c s = (Inl e, r')"
          using step False x Inl True by simp
        moreover have "1 \<le> Suc i" and "Suc i \<le> 4" using False by (simp_all add: INTENTOS_def)
        moreover have "Suc i = 1 \<or> codigo_transitorio c \<and> (\<exists>t. fuente t n = (Inl c, s))"
          using True x Inl by blast
        ultimately show ?thesis
          using "1.IH" [OF False x [symmetric] Inl True] by (meson Suc_leD)
      next
        case not_t: False
        then show ?thesis using step False x Inl "1.prems" by (auto simp: INTENTOS_def)
      qed
    next
      case (Inr b)
      then have "\<exists>t. fuente t n = (Inr b, s)" using x by blast
      then show ?thesis
        using step False x Inr "1.prems"(2-3)
        by (simp add: INTENTOS_def split: option.splits) (use x Inr in \<open>clarsimp, blast\<close>)
    qed
  qed
qed

lemma llenar_Inl:
  "llenar fuente n r = (Inl e, r') \<Longrightarrow>
    se_bytes e = n \<and> 1 \<le> se_intentos e \<and> se_intentos e \<le> 3 \<and>
    (case se_salud e of
       Some f \<Rightarrow> (\<exists>s b. fuente s n = (Inr b, r') \<and> salud_de b = Some f) \<and> se_codigo_os e = None
     | None \<Rightarrow> (\<exists>s. fuente s n = (Inl (se_codigo_os e), r')) \<and>
         (codigo_transitorio (se_codigo_os e) \<longrightarrow> se_intentos e = 3))"
  unfolding llenar_def by (drule llenar_desde_Inl) simp_all

lemma llenar_Inr:
  "llenar fuente n r = (Inr b, r') \<Longrightarrow> \<not> racha_de_ocho b \<and> (\<exists>s. fuente s n = (Inr b, r'))"
  using llenar_desde_Inr by (fastforce simp: llenar_def salud_de_spec)

lemma llenar_length: "fuente_ok fuente \<Longrightarrow> llenar fuente n r = (Inr b, r') \<Longrightarrow> length b = n"
  by (drule llenar_Inr) (auto simp: fuente_ok_def)

lemma llenar_expect_length:
  "fuente_ok fuente \<Longrightarrow> llenar_expect fuente n r = Some (b, r') \<Longrightarrow> length b = n"
  by (auto simp: llenar_expect_def split: prod.splits sum.splits dest: llenar_length)

section \<open>Properties\<close>

text \<open>
  Bytes with a run of eight equal ones are never handed out, and every error says truly what
  happened last: a health failure carries the diagnosis of the sample just drawn and is not
  retried, a system error carries its code, and giving up on a transient code means that all three
  attempts were used.
\<close>
lemma llenar_never_hands_out_a_run:
  "(llenar fuente n r = (Inr b, r') \<longrightarrow>
      \<not> racha_de_ocho b \<and> (\<exists>s. fuente s n = (Inr b, r'))) \<and>
   (llenar fuente n r = (Inl e, r') \<longrightarrow>
      se_bytes e = n \<and> 1 \<le> se_intentos e \<and> se_intentos e \<le> INTENTOS \<and>
      (case se_salud e of
         Some f \<Rightarrow> (\<exists>s b. fuente s n = (Inr b, r') \<and> racha_de_ocho b \<and> salud_de b = Some f)
           \<and> \<not> probablemente_transitorio e
       | None \<Rightarrow> (\<exists>s. fuente s n = (Inl (se_codigo_os e), r')) \<and>
           (probablemente_transitorio e \<longrightarrow> se_intentos e = INTENTOS)))"
proof (intro conjI impI)
  assume "llenar fuente n r = (Inl e, r')"
  note err = llenar_Inl [OF this]
  have run: "salud_de b = Some f \<Longrightarrow> racha_de_ocho b" for b f
    using salud_de_spec [of b] by simp
  show "se_bytes e = n" "1 \<le> se_intentos e" "se_intentos e \<le> INTENTOS"
    using err by (simp_all add: INTENTOS_def)
  show "case se_salud e of
         Some f \<Rightarrow> (\<exists>s b. fuente s n = (Inr b, r') \<and> racha_de_ocho b \<and> salud_de b = Some f)
           \<and> \<not> probablemente_transitorio e
       | None \<Rightarrow> (\<exists>s. fuente s n = (Inl (se_codigo_os e), r')) \<and>
           (probablemente_transitorio e \<longrightarrow> se_intentos e = INTENTOS)"
    using err run by (cases "se_salud e") (fastforce simp: probablemente_transitorio_def INTENTOS_def)+
qed (auto dest: llenar_Inr)

text \<open>
  A source that hands out eight equal bytes: the draw fails at the first attempt.
\<close>
lemma llenar_never_hands_out_a_run_example:
  "llenar (\<lambda>(r :: unit) n. (Inr (replicate n 5), r)) 8 () =
     (Inl \<lparr>se_bytes = 8, se_intentos = 1, se_codigo_os = None, se_salud = Some (Atascada 5 8)\<rparr>, ()) \<and>
   racha_de_ocho (replicate 8 5)"
proof -
  let ?f = "\<lambda>(r :: unit) n. (Inr (replicate n 5) :: int option + bytes, r)"
  let ?e = "\<lparr>se_bytes = 8, se_intentos = 1, se_codigo_os = None, se_salud = Some (Atascada 5 8)\<rparr>"
  have "llenar ?f 8 () = (Inl ?e, ())" by code_simp
  with llenar_never_hands_out_a_run [of ?f 8 "()" _ "()" ?e] show ?thesis by auto
qed

text \<open>
  The health test is exact: it objects to a sample exactly when eight equal bytes stand in a
  row somewhere in it, so samples shorter than eight bytes always pass.
\<close>
lemma salud_de_exact:
  "(salud_de muestra = None \<longleftrightarrow> \<not> (\<exists>us b vs. muestra = us @ replicate 8 b @ vs)) \<and>
   (salud_de muestra = Some TodoCeros \<longleftrightarrow>
      8 \<le> length muestra \<and> muestra = replicate (length muestra) 0)"
proof
  show "salud_de muestra = None \<longleftrightarrow> \<not> (\<exists>us b vs. muestra = us @ replicate 8 b @ vs)"
    by (simp add: salud_de_spec racha_de_ocho_def)
  have "list_all (\<lambda>b. b = 0) muestra \<longleftrightarrow> muestra = replicate (length muestra) 0"
    by (induction muestra) auto
  then show "salud_de muestra = Some TodoCeros \<longleftrightarrow>
      8 \<le> length muestra \<and> muestra = replicate (length muestra) 0"
    by (auto simp: salud_de_def REPETICION_QUE_DELATA_def racha_not_zeros split: list.splits)
qed

end
