(* ===== verification/Selftest.thy ===== *)
theory Selftest
  imports Main
begin

text \<open>
  \<^verbatim>\<open>src/src/selftest.rs\<close>: the report of the self-tests, the process-wide cell that holds it
  (\<^verbatim>\<open>INFORME: OnceLock<Report>\<close>, an \<open>option\<close>) and the guard \<open>ensure\<close> that every
  entry point of the library calls first.  The report that \<^verbatim>\<open>run()\<close> produces is an
  argument here.
\<close>

record check =
  check_name :: string
  check_passed :: bool
  check_source :: string

record report =
  report_checks :: "check list"

definition report_ok :: "report \<Rightarrow> bool" where
  "report_ok r \<longleftrightarrow> list_all check_passed (report_checks r)"

definition failures :: "report \<Rightarrow> string list" where
  "failures r = map check_name (filter (\<lambda>c. \<not> check_passed c) (report_checks r))"

text \<open>\<^verbatim>\<open>INFORME.get_or_init(run)\<close>: the report that counts and the cell afterwards.\<close>

definition get_or_init :: "report option \<Rightarrow> report \<Rightarrow> report" where
  "get_or_init celda corrida = (case celda of Some r \<Rightarrow> r | None \<Rightarrow> corrida)"

definition try_ensure :: "report \<Rightarrow> report option \<Rightarrow> (report + unit) \<times> report option" where
  "try_ensure corrida celda =
     (let informe = get_or_init celda corrida
      in (if report_ok informe then Inr () else Inl informe, Some informe))"

text \<open>\<open>None\<close> is the panic of \<open>ensure\<close>.\<close>

definition ensure :: "report \<Rightarrow> report option \<Rightarrow> report option option" where
  "ensure corrida celda =
     (case try_ensure corrida celda of (Inr _, celda') \<Rightarrow> Some celda' | (Inl _, _) \<Rightarrow> None)"

definition ready :: "report option \<Rightarrow> bool" where
  "ready celda = (case celda of None \<Rightarrow> False | Some r \<Rightarrow> report_ok r)"

lemma report_ok_failures: "report_ok r \<longleftrightarrow> failures r = []"
  by (simp add: report_ok_def failures_def filter_empty_conv list_all_iff)

lemma ensure_ready: "ensure corrida celda = Some celda' \<Longrightarrow> ready celda'"
  by (auto simp: ensure_def try_ensure_def ready_def Let_def split: if_splits)

text \<open>Once passed, it passes for the rest of the process, whatever a new run would say.\<close>

lemma ensure_idempotent: "ready celda \<Longrightarrow> ensure corrida celda = Some celda"
  by (auto simp: ensure_def try_ensure_def ready_def get_or_init_def Let_def split: option.splits)

text \<open>And a failed report is never replaced by a better one.\<close>

lemma ensure_latched: "celda = Some r \<Longrightarrow> \<not> report_ok r \<Longrightarrow> ensure corrida celda = None"
  by (simp add: ensure_def try_ensure_def get_or_init_def Let_def)

lemma ensure_iff:
  "ensure corrida celda = Some celda' \<longleftrightarrow>
    report_ok (get_or_init celda corrida) \<and> celda' = Some (get_or_init celda corrida)"
  by (auto simp: ensure_def try_ensure_def Let_def)

end
