(* ===== verification/Antihacker.thy ===== *)
theory Antihacker
  imports Container
begin

text \<open>
  \<^verbatim>\<open>src/src/antihacker.rs\<close>: comparison in constant time and the detector of repeated
  nonces.  Of \<open>wipe\<close> the model has what it leaves in the buffer it is given; that the compiler keeps the
  writes, and the wiping of the stack by \<^verbatim>\<open>limpiar_pila\<close>, are below the level of the model.
\<close>

definition wipe :: "bytes \<Rightarrow> bytes" where
  "wipe buf = map (\<lambda>_. 0) buf"

definition ct_eq :: "bytes \<Rightarrow> bytes \<Rightarrow> bool" where
  "ct_eq a b = (if length a \<noteq> length b then False else list_all2 (=) a b)"

text \<open>The loop of \<open>nonces_repetidos\<close>: \<open>visto\<close> keeps the first index of every nonce.\<close>

fun nonces_loop ::
  "nat \<Rightarrow> bytes list \<Rightarrow> (bytes \<rightharpoonup> nat) \<Rightarrow> (nat \<times> nat) list \<Rightarrow> (nat \<times> nat) list" where
  "nonces_loop i [] visto pares = pares"
| "nonces_loop i (c # cs) visto pares =
     (case quipu_parse c of
        Inl _ \<Rightarrow> nonces_loop (Suc i) cs visto pares
      | Inr (cabecera, _) \<Rightarrow>
          (case visto (hdr_nonce cabecera) of
             Some primero \<Rightarrow> nonces_loop (Suc i) cs visto (pares @ [(primero, i)])
           | None \<Rightarrow> nonces_loop (Suc i) cs (visto(hdr_nonce cabecera \<mapsto> i)) pares))"

definition nonces_repetidos :: "bytes list \<Rightarrow> (nat \<times> nat) list" where
  "nonces_repetidos contenedores = nonces_loop 0 contenedores Map.empty []"

lemma ct_eq_iff: "ct_eq a b \<longleftrightarrow> a = b"
  by (auto simp: ct_eq_def list_all2_eq dest: list_all2_lengthD)

text \<open>The nonce of a blob, if it is a container at all.\<close>

definition nonce_de :: "bytes \<Rightarrow> bytes option" where
  "nonce_de c = (case quipu_parse c of Inl _ \<Rightarrow> None | Inr (h, _) \<Rightarrow> Some (hdr_nonce h))"

text \<open>\<open>j\<close> is the first container with the nonce of \<open>i\<close>, and comes before it.\<close>

definition primer_uso :: "bytes list \<Rightarrow> nat \<Rightarrow> nat \<Rightarrow> bool" where
  "primer_uso cs j i \<longleftrightarrow>
     j < i \<and> i < length cs \<and> nonce_de (cs ! i) \<noteq> None \<and> nonce_de (cs ! j) = nonce_de (cs ! i) \<and>
     (\<forall>k < j. nonce_de (cs ! k) \<noteq> nonce_de (cs ! i))"

lemma nonces_loop_step:
  "nonces_loop i (c # cs) visto pares =
    (case nonce_de c of
       None \<Rightarrow> nonces_loop (Suc i) cs visto pares
     | Some n \<Rightarrow>
         (case visto n of
            Some primero \<Rightarrow> nonces_loop (Suc i) cs visto (pares @ [(primero, i)])
          | None \<Rightarrow> nonces_loop (Suc i) cs (visto(n \<mapsto> i)) pares))"
  by (simp add: nonce_de_def split: sum.splits)

lemma nonces_loop_spec:
  assumes "\<And>n. visto n = (if \<exists>k < i. nonce_de (all ! k) = Some n
      then Some (LEAST k. nonce_de (all ! k) = Some n) else None)"
    and "i + length cs = length all" and "drop i all = cs"
    and "set pares = {(j, m). primer_uso all j m \<and> m < i}"
  shows "set (nonces_loop i cs visto pares) = {(j, m). primer_uso all j m}"
  using assms
proof (induction cs arbitrary: i visto pares)
  case Nil
  then show ?case by (auto simp: primer_uso_def)
next
  case (Cons c cs)
  have c: "c = all ! i" using Cons.prems(2,3) by (metis hd_drop_conv_nth less_add_same_cancel1 list.sel(1) length_greater_0_conv list.distinct(1))
  have i: "i < length all" using Cons.prems(2) by simp
  have rest: "drop (Suc i) all = cs" using Cons.prems(3) by (metis drop_Suc list.sel(3) tl_drop)
  have len: "Suc i + length cs = length all" using Cons.prems(2) by simp
  have seen: "(\<exists>k < Suc i. nonce_de (all ! k) = Some n) \<longleftrightarrow>
      (\<exists>k < i. nonce_de (all ! k) = Some n) \<or> nonce_de c = Some n" for n
    by (auto simp: c less_Suc_eq)
  have first: "(LEAST k. nonce_de (all ! k) = Some n) = j"
    if "nonce_de (all ! j) = Some n" "\<forall>k < j. nonce_de (all ! k) \<noteq> Some n" for n j
    using that by (intro Least_equality) (blast, meson not_less)
  show ?case
  proof (cases "nonce_de c")
    case None
    have "set (nonces_loop (Suc i) cs visto pares) = {(j, m). primer_uso all j m}"
    proof (rule Cons.IH [OF _ len rest])
      show "visto n = (if \<exists>k < Suc i. nonce_de (all ! k) = Some n
          then Some (LEAST k. nonce_de (all ! k) = Some n) else None)" for n
        by (simp add: seen None Cons.prems(1))
      show "set pares = {(j, m). primer_uso all j m \<and> m < Suc i}"
        using None by (auto simp: Cons.prems(4) primer_uso_def less_Suc_eq c)
    qed
    then show ?thesis by (simp only: nonces_loop_step None option.case)
  next
    case (Some n)
    show ?thesis
    proof (cases "\<exists>k < i. nonce_de (all ! k) = Some n")
      case True
      define j where "j = (LEAST k. nonce_de (all ! k) = Some n)"
      obtain k where k: "k < i" "nonce_de (all ! k) = Some n" using True by blast
      have j: "nonce_de (all ! j) = Some n" "j \<le> k"
        unfolding j_def by (rule LeastI [of "\<lambda>k. nonce_de (all ! k) = Some n", OF k(2)],
          rule Least_le [of "\<lambda>k. nonce_de (all ! k) = Some n", OF k(2)])
      have before: "\<forall>k < j. nonce_de (all ! k) \<noteq> Some n"
        unfolding j_def using not_less_Least by blast
      have uso: "primer_uso all j i"
        using j before k i Some by (simp add: primer_uso_def c)
      have only: "primer_uso all j' i \<Longrightarrow> j' = j" for j'
        using first [of j' n] Some by (auto simp: primer_uso_def c j_def)
      have "set (nonces_loop (Suc i) cs visto (pares @ [(j, i)])) = {(j, m). primer_uso all j m}"
      proof (rule Cons.IH [OF _ len rest])
        show "visto m = (if \<exists>k < Suc i. nonce_de (all ! k) = Some m
            then Some (LEAST k. nonce_de (all ! k) = Some m) else None)" for m
          using True Some by (auto simp: seen Cons.prems(1))
        show "set (pares @ [(j, i)]) = {(j, m). primer_uso all j m \<and> m < Suc i}"
          using uso by (auto simp: Cons.prems(4) less_Suc_eq dest: only)
      qed
      moreover have "visto n = Some j" using True by (simp add: Cons.prems(1) j_def)
      ultimately show ?thesis by (simp only: nonces_loop_step Some option.case)
    next
      case False
      have "set (nonces_loop (Suc i) cs (visto(n \<mapsto> i)) pares) = {(j, m). primer_uso all j m}"
      proof (rule Cons.IH [OF _ len rest])
        have "(LEAST k. nonce_de (all ! k) = Some n) = i"
          using False Some by (intro first) (auto simp: c)
        then show "(visto(n \<mapsto> i)) m = (if \<exists>k < Suc i. nonce_de (all ! k) = Some m
            then Some (LEAST k. nonce_de (all ! k) = Some m) else None)" for m
          using Some by (auto simp: seen Cons.prems(1))
        have "\<not> primer_uso all j i" for j
          using False Some by (auto simp: primer_uso_def c)
        then show "set pares = {(j, m). primer_uso all j m \<and> m < Suc i}"
          by (auto simp: Cons.prems(4) less_Suc_eq)
      qed
      moreover have "visto n = None" using False by (simp add: Cons.prems(1))
      ultimately show ?thesis by (simp only: nonces_loop_step Some option.case)
    qed
  qed
qed

lemma nonces_repetidos_spec: "set (nonces_repetidos cs) = {(j, i). primer_uso cs j i}"
  unfolding nonces_repetidos_def by (rule nonces_loop_spec) simp_all

section \<open>Properties\<close>

text \<open>
  The nonce audit is exact: a pair is reported exactly when both blobs parse as containers
  with the same nonce and the first component is the first container with that nonce; blobs that
  do not parse are ignored, and nothing is reported when all nonces differ.
\<close>
lemma nonces_repetidos_exact:
  "set (nonces_repetidos cs) =
    {(j, i). j < i \<and> i < length cs \<and>
      (\<exists>h ct h' ct'. quipu_parse (cs ! j) = Inr (h, ct) \<and> quipu_parse (cs ! i) = Inr (h', ct') \<and>
         hdr_nonce h = hdr_nonce h' \<and>
         (\<forall>k < j. \<forall>g c. quipu_parse (cs ! k) = Inr (g, c) \<longrightarrow> hdr_nonce g \<noteq> hdr_nonce h'))}"
proof -
  have some: "nonce_de c = Some n \<longleftrightarrow> (\<exists>h ct. quipu_parse c = Inr (h, ct) \<and> hdr_nonce h = n)" for c n
    by (auto simp: nonce_de_def split: sum.splits)
  have "primer_uso cs j i \<longleftrightarrow> j < i \<and> i < length cs \<and> (\<exists>n. nonce_de (cs ! j) = Some n \<and>
      nonce_de (cs ! i) = Some n \<and> (\<forall>k < j. nonce_de (cs ! k) \<noteq> Some n))" for j i
    by (auto simp: primer_uso_def)
  then show ?thesis
    unfolding nonces_repetidos_spec some by (fastforce simp: some)
qed

text \<open>A container, something that is none, and the container again.\<close>
lemma nonces_repetidos_exact_example:
  "(0, 2) \<in> set (nonces_repetidos
     [quipu_serialize \<lparr>hdr_version = 1, hdr_flags = 0, hdr_codebook_id = 0,
        hdr_codebook_hash_prefix = replicate 8 1, hdr_salt = replicate 16 2,
        hdr_nonce = replicate 24 3, hdr_kdf_mem_kib = 65536, hdr_kdf_iterations = 3,
        hdr_kdf_parallelism = 1\<rparr> [9],
      [1, 2],
      quipu_serialize \<lparr>hdr_version = 1, hdr_flags = 0, hdr_codebook_id = 0,
        hdr_codebook_hash_prefix = replicate 8 1, hdr_salt = replicate 16 7,
        hdr_nonce = replicate 24 3, hdr_kdf_mem_kib = 65536, hdr_kdf_iterations = 3,
        hdr_kdf_parallelism = 1\<rparr> [5]])"
proof -
  let ?h = "\<lambda>s. \<lparr>hdr_version = 1, hdr_flags = 0, hdr_codebook_id = 0,
        hdr_codebook_hash_prefix = replicate 8 1, hdr_salt = replicate 16 s,
        hdr_nonce = replicate 24 3, hdr_kdf_mem_kib = 65536, hdr_kdf_iterations = 3,
        hdr_kdf_parallelism = 1\<rparr>"
  have ok: "header_ok SALT_LEN NONCE_LEN (?h s)" for s
    by (simp add: header_ok_def header_wf_def SALT_LEN_def NONCE_LEN_def container_VERSION_def)
  have "quipu_parse (quipu_serialize (?h s) c) = Inr (?h s, c)" for s c
    using container_parse_serialize [OF ok] by (simp add: quipu_parse_def quipu_serialize_def)
  then show ?thesis unfolding nonces_repetidos_exact by simp
qed

end
