(* ===== verification/Api.thy ===== *)
theory Api
  imports Padme Codec Container Kdf Aleatorio Selftest "HOL-Library.Monad_Syntax"
begin

text \<open>
  \<^verbatim>\<open>src/src/api.rs\<close>, passphrase mode: \<open>encode\<close> runs data through padding, key
  derivation, AEAD, container, base-\<open>n\<close> codec and dictionary, \<open>decode\<close> runs back.  The
  outer \<open>option\<close> is the panic (an \<^verbatim>\<open>expect\<close> that fails, an assertion of a callee), the
  inner sum the \<^verbatim>\<open>Result\<close>.  Randomness is threaded as the state of the source.
  \<open>informe\<close> is the report in the process-wide self-test cell.
\<close>

section \<open>Types\<close>

text \<open>\<^verbatim>\<open>Result::expect\<close>.\<close>

definition expect :: "'e + 'a \<Rightarrow> 'a option" where
  "expect r = (case r of Inl _ \<Rightarrow> None | Inr a \<Rightarrow> Some a)"

lemma expect_simps [simp]: "expect (Inl e) = None" "expect (Inr a) = Some a"
  by (simp_all add: expect_def)

text \<open>\<^verbatim>\<open>b"quipu/v1/cipher"\<close>.\<close>

definition CIPHER_SUBKEY_INFO :: bytes where
  "CIPHER_SUBKEY_INFO =
     [0x71, 0x75, 0x69, 0x70, 0x75, 0x2f, 0x76, 0x31, 0x2f, 0x63, 0x69, 0x70, 0x68, 0x65, 0x72]"

record options =
  opt_pepper :: bytes
  opt_kdf_params :: kdf_params
  opt_codebook_id :: u16

definition options_default :: options where
  "options_default = \<lparr>opt_pepper = [], opt_kdf_params = kdf_params_default, opt_codebook_id = 0\<rparr>"

datatype decode_error =
    Symbol dictionary_error
  | Container container_error
  | CodebookMismatch
  | Decrypt
  | BadSignature

section \<open>The operations\<close>

text \<open>The header that \<open>encode_to_blob\<close> writes: the codebook identifier asked for is ignored.\<close>

definition blob_header :: "bytes \<Rightarrow> options \<Rightarrow> bytes \<Rightarrow> bytes \<Rightarrow> header" where
  "blob_header codebook_fingerprint opts salt nonce =
     \<lparr>hdr_version = container_VERSION,
      hdr_flags = 0,
      hdr_codebook_id = 0,
      hdr_codebook_hash_prefix = codebook_fingerprint,
      hdr_salt = salt,
      hdr_nonce = nonce,
      hdr_kdf_mem_kib = mem_kib (opt_kdf_params opts),
      hdr_kdf_iterations = iterations (opt_kdf_params opts),
      hdr_kdf_parallelism = parallelism (opt_kdf_params opts)\<rparr>"

definition encode_to_blob ::
  "'c cripto_scheme \<Rightarrow> 'r fuente \<Rightarrow> bytes \<Rightarrow> char32 list \<Rightarrow> bytes \<Rightarrow> options \<Rightarrow> 'r \<Rightarrow>
    (bytes \<times> 'r) option" where
  "encode_to_blob C fuente data passphrase codebook_fingerprint opts r =
     do {
       (salt, r) \<leftarrow> llenar_expect fuente SALT_LEN r;
       (nonce, r) \<leftarrow> llenar_expect fuente NONCE_LEN r;
       master \<leftarrow> derive_master_key C passphrase salt (opt_pepper opts) (opt_kdf_params opts);
       cipher_key \<leftarrow> derive_subkey C master CIPHER_SUBKEY_INFO;
       let header = blob_header codebook_fingerprint opts salt nonce;
       padded \<leftarrow> prelayers_pad data;
       let aad = header_to_bytes header;
       ciphertext \<leftarrow> cipher_encrypt C cipher_key nonce padded aad;
       Some (quipu_serialize header ciphertext, r)
     }"

definition header_params :: "header \<Rightarrow> kdf_params" where
  "header_params h =
     \<lparr>mem_kib = hdr_kdf_mem_kib h, iterations = hdr_kdf_iterations h,
      parallelism = hdr_kdf_parallelism h\<rparr>"

definition decode_from_blob ::
  "'c cripto_scheme \<Rightarrow> bytes \<Rightarrow> char32 list \<Rightarrow> bytes \<Rightarrow> bytes \<Rightarrow> (decode_error + bytes) option" where
  "decode_from_blob C blob passphrase expected_fingerprint pepper =
     (case quipu_parse blob of
        Inl e \<Rightarrow> Some (Inl (Container e))
      | Inr (header, ciphertext) \<Rightarrow>
          if hdr_codebook_hash_prefix header \<noteq> expected_fingerprint
          then Some (Inl CodebookMismatch)
          else
            let params = header_params header
            in if \<not> is_sane params then Some (Inl Decrypt)
               else do {
                 master \<leftarrow> derive_master_key C passphrase (hdr_salt header) pepper params;
                 cipher_key \<leftarrow> derive_subkey C master CIPHER_SUBKEY_INFO;
                 let aad = header_to_bytes header;
                 Some (case cipher_decrypt C cipher_key (hdr_nonce header) ciphertext aad of
                         Inl _ \<Rightarrow> Inl Decrypt
                       | Inr padded \<Rightarrow>
                           (case prelayers_unpad padded of Inl _ \<Rightarrow> Inl Decrypt | Inr d \<Rightarrow> Inr d))
               })"

text \<open>Bytes to symbols and back, the last and first step of every artefact in text form.\<close>

definition representar :: "dictionary \<Rightarrow> bytes \<Rightarrow> char32 list option" where
  "representar dict blob =
     do {
       indices \<leftarrow> encode_base_n blob (dictionary_base dict);
       expect (dictionary_encode dict indices)
     }"

definition leer_simbolos :: "dictionary \<Rightarrow> char32 list \<Rightarrow> decode_error + bytes" where
  "leer_simbolos dict symbols =
     (case dictionary_decode dict symbols of
        Inl e \<Rightarrow> Inl (Symbol e)
      | Inr indices \<Rightarrow> Inr (decode_base_n indices (dictionary_base dict)))"

definition encode ::
  "report \<Rightarrow> 'c cripto_scheme \<Rightarrow> 'r fuente \<Rightarrow> bytes \<Rightarrow> char32 list \<Rightarrow> dictionary \<Rightarrow> options \<Rightarrow> 'r \<Rightarrow>
    (char32 list \<times> 'r) option" where
  "encode informe C fuente data passphrase dict opts r =
     do {
       _ \<leftarrow> ensure informe None;
       (blob, r) \<leftarrow> encode_to_blob C fuente data passphrase (fingerprint (sha256 C) dict) opts r;
       symbols \<leftarrow> representar dict blob;
       Some (symbols, r)
     }"

definition decode ::
  "report \<Rightarrow> 'c cripto_scheme \<Rightarrow> char32 list \<Rightarrow> char32 list \<Rightarrow> dictionary \<Rightarrow> bytes \<Rightarrow>
    (decode_error + bytes) option" where
  "decode informe C symbols passphrase dict pepper =
     do {
       _ \<leftarrow> ensure informe None;
       case leer_simbolos dict symbols of
         Inl e \<Rightarrow> Some (Inl e)
       | Inr blob \<Rightarrow>
           decode_from_blob C blob passphrase (fingerprint (sha256 C) dict) pepper
     }"

section \<open>The text form of an artefact\<close>

lemma representar_total:
  "dictionary_wf d \<Longrightarrow> \<exists>s. representar d blob = Some s \<and> leer_simbolos d s = Inr blob"
proof -
  assume wf: "dictionary_wf d"
  have "\<not> dictionary_base d < 2"
    using wf by (simp add: word_less_nat_alt base_wf dictionary_wf_def)
  then obtain idx where idx: "encode_base_n blob (dictionary_base d) = Some idx"
    by (simp add: encode_base_n_eq)
  have "\<forall>i \<in> set idx. i < dictionary_base d" using encode_base_n_digits [OF idx] .
  then obtain s where s: "dictionary_encode d idx = Inr s"
    using dictionary_encode_total [OF wf] by blast
  then have "dictionary_decode d s = Inr idx" using dictionary_encode_decode [OF wf] by blast
  then have "leer_simbolos d s = Inr blob"
    using decode_encode_base_n [OF idx] by (simp add: leer_simbolos_def)
  moreover have "representar d blob = Some s" by (simp add: representar_def idx s)
  ultimately show ?thesis by blast
qed

interpretation simbolos: roundtrip "\<lambda>blob. the (representar d blob)" "leer_simbolos d"
    "\<lambda>_. dictionary_wf d" for d
proof unfold_locales
  fix blob
  assume "dictionary_wf d"
  from representar_total [OF this, of blob]
  show "leer_simbolos d (the (representar d blob)) = Inr blob" by auto
qed

lemma leer_representar: "dictionary_wf d \<Longrightarrow> representar d blob = Some s \<Longrightarrow> leer_simbolos d s = Inr blob"
  using simbolos.dec_enc [of d blob] by simp

section \<open>Blobs\<close>

lemma header_params_blob [simp]: "header_params (blob_header fp opts salt nonce) = opt_kdf_params opts"
  by (simp add: header_params_def blob_header_def)

lemma blob_header_ok:
  "length fp = 8 \<Longrightarrow> length salt = 16 \<Longrightarrow> length nonce = 24 \<Longrightarrow>
    header_ok SALT_LEN NONCE_LEN (blob_header fp opts salt nonce)"
  by (simp add: header_ok_def header_wf_def blob_header_def SALT_LEN_def NONCE_LEN_def)

text \<open>What a blob of \<open>encode_to_blob\<close> is made of.\<close>

lemma encode_to_blob_eq:
  assumes "encode_to_blob C fuente data pw fp opts r = Some (blob, r')" and "fuente_ok fuente"
  obtains salt nonce master key padded ct
  where "length salt = 16" "length nonce = 24"
    "derive_master_key C pw salt (opt_pepper opts) (opt_kdf_params opts) = Some master"
    "derive_subkey C master CIPHER_SUBKEY_INFO = Some key"
    "prelayers_pad data = Some padded"
    "cipher_encrypt C key nonce padded (header_to_bytes (blob_header fp opts salt nonce)) = Some ct"
    "blob = quipu_serialize (blob_header fp opts salt nonce) ct"
  using assms
  by (auto simp: encode_to_blob_def Let_def SALT_LEN_def NONCE_LEN_def split: bind_splits
      dest!: llenar_expect_length [OF assms(2)])

text \<open>Under the profile's limits the whole path is total and the way back is exact.\<close>

lemma decode_encode_blob:
  assumes C: "cripto_ok C" and f: "fuente_ok fuente" and fp: "length fp = 8"
    and data: "length data < 2 ^ 63" and sane: "is_sane (opt_kdf_params opts)"
    and enc: "encode_to_blob C fuente data pw fp opts r = Some (blob, r')"
  shows "decode_from_blob C blob pw fp (opt_pepper opts) = Some (Inr data)"
proof -
  obtain salt nonce master key padded ct
    where len: "length salt = 16" "length nonce = 24"
      and master: "derive_master_key C pw salt (opt_pepper opts) (opt_kdf_params opts) = Some master"
      and key: "derive_subkey C master CIPHER_SUBKEY_INFO = Some key"
      and padded: "prelayers_pad data = Some padded"
      and ct: "cipher_encrypt C key nonce padded
        (header_to_bytes (blob_header fp opts salt nonce)) = Some ct"
      and blob: "blob = quipu_serialize (blob_header fp opts salt nonce) ct"
    using encode_to_blob_eq [OF enc f] .
  have "quipu_parse blob = Inr (blob_header fp opts salt nonce, ct)"
    using blob_header_ok [OF fp len]
    by (simp add: blob quipu_parse_def quipu_serialize_def container_parse_serialize)
  moreover have "cipher_decrypt C key nonce ct (header_to_bytes (blob_header fp opts salt nonce)) = Inr padded"
    using ct by (simp add: cipher_decrypt_iff [OF C])
  moreover have "prelayers_unpad padded = Inr data"
    using prelayers.dec_enc [of data] data padded by simp
  moreover have "hdr_codebook_hash_prefix (blob_header fp opts salt nonce) = fp"
      "hdr_salt (blob_header fp opts salt nonce) = salt"
      "hdr_nonce (blob_header fp opts salt nonce) = nonce"
    by (simp_all add: blob_header_def)
  ultimately show ?thesis
    using master key sane by (simp add: decode_from_blob_def)
qed

lemma padded_small:
  assumes "prelayers_pad data = Some padded" and "length data < 2 ^ 37"
  shows "length padded < XCHACHA_LIMIT"
proof -
  have "length padded = padme_nat (8 + length data)"
    using assms padme_nat_ge [of "8 + length data"] by (auto simp: prelayers_pad_def pad_eq)
  moreover have "8 * (padme_nat (8 + length data) - (8 + length data)) < 8 + length data"
    by (rule padme_overhead) simp
  ultimately show ?thesis using assms(2) by (simp add: XCHACHA_LIMIT_def)
qed

lemma encode_to_blob_derives:
  assumes C: "cripto_ok C" and data: "length data < 2 ^ 37"
    and salt: "llenar_expect fuente 16 r = Some (salt, r1)"
    and nonce: "llenar_expect fuente 24 r1 = Some (nonce, r2)"
    and m: "derive_master_key C pw salt (opt_pepper opts) (opt_kdf_params opts) = Some master"
  shows "\<exists>blob. encode_to_blob C fuente data pw fp opts r = Some (blob, r2)"
proof -
  obtain key where k: "derive_subkey C master CIPHER_SUBKEY_INFO = Some key"
    using derive_subkey_total [OF C] by blast
  obtain padded where p: "prelayers_pad data = Some padded"
    using data by (simp add: prelayers_pad_def pad_eq)
  obtain ct where "cipher_encrypt C key nonce padded (header_to_bytes (blob_header fp opts salt nonce)) = Some ct"
    using cipher_encrypt_total [OF C padded_small [OF p data]] by blast
  then show ?thesis
    using salt nonce m k p by (simp add: encode_to_blob_def SALT_LEN_def NONCE_LEN_def Let_def)
qed

lemma encode_to_blob_total:
  assumes C: "cripto_ok C" and f: "fuente_ok fuente"
    and data: "length data < 2 ^ 37" and sane: "is_sane (opt_kdf_params opts)"
    and secret: "length (utf8 (nfkc C pw)) + length (opt_pepper opts) < 2 ^ 32"
    and salt: "llenar_expect fuente 16 r = Some (salt, r1)"
    and nonce: "llenar_expect fuente 24 r1 = Some (nonce, r2)"
  shows "\<exists>blob. encode_to_blob C fuente data pw fp opts r = Some (blob, r2)"
proof -
  have ls: "length salt = 16" using llenar_expect_length [OF f salt] .
  obtain master where "derive_master_key C pw salt (opt_pepper opts) (opt_kdf_params opts) = Some master"
    using derive_master_key_total [OF C sane _ secret, of salt] ls by (auto simp: KDF_SALT_LEN_def)
  from encode_to_blob_derives [OF C data salt nonce this] show ?thesis .
qed

text \<open>Accepting is being authentic: the ciphertext is the encryption of the frame that comes out.\<close>

lemma decode_from_blob_Inr:
  assumes C: "cripto_ok C" and dec: "decode_from_blob C blob pw fp pepper = Some (Inr data)"
  obtains h padded master key ct
  where "header_ok SALT_LEN NONCE_LEN h" "hdr_codebook_hash_prefix h = fp" "is_sane (header_params h)"
    "derive_master_key C pw (hdr_salt h) pepper (header_params h) = Some master"
    "derive_subkey C master CIPHER_SUBKEY_INFO = Some key"
    "cipher_encrypt C key (hdr_nonce h) padded (header_to_bytes h) = Some ct"
    "prelayers_unpad padded = Inr data" "blob = quipu_serialize h ct"
proof -
  obtain h ct where p: "quipu_parse blob = Inr (h, ct)"
    using dec by (auto simp: decode_from_blob_def split: sum.splits)
  have fp: "hdr_codebook_hash_prefix h = fp" and sane: "is_sane (header_params h)"
    using dec p by (auto simp: decode_from_blob_def Let_def split: if_splits)
  then obtain master key where m: "derive_master_key C pw (hdr_salt h) pepper (header_params h) = Some master"
    and k: "derive_subkey C master CIPHER_SUBKEY_INFO = Some key"
    using dec p by (auto simp: decode_from_blob_def Let_def split: bind_splits)
  then obtain padded where "cipher_decrypt C key (hdr_nonce h) ct (header_to_bytes h) = Inr padded"
      and u: "prelayers_unpad padded = Inr data"
    using dec p fp sane by (auto simp: decode_from_blob_def Let_def split: sum.splits)
  then have ct: "cipher_encrypt C key (hdr_nonce h) padded (header_to_bytes h) = Some ct"
    by (simp add: cipher_decrypt_iff [OF C])
  have "header_ok SALT_LEN NONCE_LEN h \<and> container_serialize h ct = blob"
    using p unfolding quipu_parse_def by (rule container_parse_Inr)
  then show ?thesis using that [OF _ fp sane m k ct u] by (simp add: quipu_serialize_def)
qed

text \<open>The checks that come before the expensive derivation do not use the primitives at all.\<close>

lemma decode_from_blob_rejects_early:
  assumes "quipu_parse blob = Inr (h, ct)"
    and "hdr_codebook_hash_prefix h \<noteq> fp \<or> \<not> is_sane (header_params h)"
  shows "decode_from_blob C blob pw fp pepper =
    Some (Inl (if hdr_codebook_hash_prefix h \<noteq> fp then CodebookMismatch else Decrypt))"
  using assms by (auto simp: decode_from_blob_def)

text \<open>Parameters out of bounds are written without complaint, and never read back.\<close>

lemma insane_params_unreadable:
  assumes f: "fuente_ok fuente" and fp: "length fp = 8" and "\<not> is_sane (opt_kdf_params opts)"
    and enc: "encode_to_blob C fuente data pw fp opts r = Some (blob, r')"
  shows "decode_from_blob C blob pw' fp pepper = Some (Inl Decrypt)"
proof -
  obtain salt nonce master key padded ct where len: "length salt = 16" "length nonce = 24"
      and blob: "blob = quipu_serialize (blob_header fp opts salt nonce) ct"
    using encode_to_blob_eq [OF enc f] .
  have "quipu_parse blob = Inr (blob_header fp opts salt nonce, ct)"
    using blob_header_ok [OF fp len]
    by (simp add: blob quipu_parse_def quipu_serialize_def container_parse_serialize)
  moreover have "hdr_codebook_hash_prefix (blob_header fp opts salt nonce) = fp"
    by (simp add: blob_header_def)
  ultimately show ?thesis
    using decode_from_blob_rejects_early [of blob "blob_header fp opts salt nonce" ct fp C pw' pepper]
      assms(3) by simp
qed

section \<open>Texts\<close>

lemma fingerprint_length: "cripto_ok C \<Longrightarrow> length (fingerprint (sha256 C) d) = 8"
  by (simp add: fingerprint_def cripto_ok_simps(4))

lemma encode_Some:
  assumes "encode informe C fuente data pw dict opts r = Some (s, r')" and "dictionary_wf dict"
  obtains blob where "report_ok informe"
    "encode_to_blob C fuente data pw (fingerprint (sha256 C) dict) opts r = Some (blob, r')"
    "leer_simbolos dict s = Inr blob"
proof -
  obtain blob where "report_ok informe" and
      "encode_to_blob C fuente data pw (fingerprint (sha256 C) dict) opts r = Some (blob, r')"
      and "representar dict blob = Some s"
    using assms(1) by (auto simp: encode_def ensure_iff get_or_init_def split: bind_splits)
  with leer_representar [OF assms(2)] that show ?thesis by blast
qed

lemma decode_eq:
  "report_ok informe \<Longrightarrow> leer_simbolos dict s = Inr blob \<Longrightarrow>
    decode informe C s pw dict pepper =
      decode_from_blob C blob pw (fingerprint (sha256 C) dict) pepper"
  by (simp add: decode_def ensure_def try_ensure_def get_or_init_def Let_def)

text \<open>What was written is read, if the parameters it was written with are sane; no passphrase helps otherwise.\<close>

lemma decode_encode:
  assumes "cripto_ok C" and "fuente_ok fuente" and "dictionary_wf dict" and "length data < 2 ^ 63"
    and "encode informe C fuente data pw dict opts r = Some (symbols, r')"
  shows "decode informe C symbols pw dict (opt_pepper opts) =
    Some (if is_sane (opt_kdf_params opts) then Inr data else Inl Decrypt)"
proof -
  obtain blob where ok: "report_ok informe"
      and blob: "encode_to_blob C fuente data pw (fingerprint (sha256 C) dict) opts r = Some (blob, r')"
      and l: "leer_simbolos dict symbols = Inr blob"
    using encode_Some [OF assms(5,3)] .
  show ?thesis
    unfolding decode_eq [OF ok l]
    using decode_encode_blob [OF assms(1,2) fingerprint_length [OF assms(1)] assms(4) _ blob]
      insane_params_unreadable [OF assms(2) fingerprint_length [OF assms(1)] _ blob]
    by simp
qed

text \<open>How long a blob is, and how it begins.\<close>

lemma cipher_encrypt_length:
  "cripto_ok C \<Longrightarrow> cipher_encrypt C k n p a = Some c \<Longrightarrow> length c = length p + 16"
  unfolding cipher_encrypt_def by (metis aead_okD(2) cripto_ok_simps(3))

lemma encode_to_blob_length:
  assumes blob: "encode_to_blob C fuente data pw fp opts r = Some (blob, r')" and C: "cripto_ok C" and f: "fuente_ok fuente"
    and fp: "length fp = 8" and l: "length data < 2 ^ 63"
  shows "length blob = 84 + padme_nat (8 + length data)" and "take 4 blob = container_MAGIC"
proof -
  obtain salt nonce master key padded ct where len: "length salt = 16" "length nonce = 24"
      and p: "prelayers_pad data = Some padded"
      and ct: "cipher_encrypt C key nonce padded (header_to_bytes (blob_header fp opts salt nonce)) = Some ct"
      and b: "blob = quipu_serialize (blob_header fp opts salt nonce) ct"
    by (rule encode_to_blob_eq [OF blob f])
  have "header_ok SALT_LEN NONCE_LEN (blob_header fp opts salt nonce)"
    using len fp by (intro blob_header_ok)
  then have wf: "header_wf SALT_LEN NONCE_LEN (blob_header fp opts salt nonce)" by (simp add: header_ok_def)
  have "length (header_to_bytes (blob_header fp opts salt nonce)) = 68"
    unfolding length_header_to_bytes [OF wf] by (simp add: header_SIZE_def BYTES_FIJOS_def SALT_LEN_def NONCE_LEN_def)
  moreover have "length padded = padme_nat (8 + length data)"
    using p l padme_nat_ge [of "8 + length data"] by (auto simp: prelayers_pad_def pad_eq)
  ultimately show "length blob = 84 + padme_nat (8 + length data)"
    using cipher_encrypt_length [OF C ct] by (simp add: b quipu_serialize_def container_serialize_def)
  show "take 4 blob = container_MAGIC"
    by (simp add: b quipu_serialize_def container_serialize_def header_to_bytes_def container_MAGIC_def)
qed

text \<open>The whole path returns when the parameters are sane and the two draws succeed.\<close>

lemma encode_returns:
  assumes "cripto_ok C" and "fuente_ok fuente" and "dictionary_wf dict" and "report_ok informe"
    and "is_sane (opt_kdf_params opts)" and "length data < 2 ^ 37"
    and "length (utf8 (nfkc C pw)) + length (opt_pepper opts) < 2 ^ 32"
    and "llenar_expect fuente SALT_LEN r = Some (salt, r1)"
    and "llenar_expect fuente NONCE_LEN r1 = Some (nonce, r2)"
  shows "\<exists>symbols. encode informe C fuente data pw dict opts r = Some (symbols, r2)"
proof -
  have "llenar_expect fuente 16 r = Some (salt, r1)" "llenar_expect fuente 24 r1 = Some (nonce, r2)"
    using assms(8,9) by (simp_all add: SALT_LEN_def NONCE_LEN_def)
  from encode_to_blob_total [OF assms(1,2,6,5,7) this] obtain blob
    where blob: "encode_to_blob C fuente data pw (fingerprint (sha256 C) dict) opts r = Some (blob, r2)"
    by blast
  obtain s where "representar dict blob = Some s" using representar_total [OF assms(3)] by blast
  then show ?thesis
    using blob assms(4) by (simp add: encode_def ensure_def try_ensure_def get_or_init_def Let_def)
qed

end
