(* ===== verification/Instances.thy ===== *)
theory Instances
  imports Kdf Aleatorio Selftest
begin

text \<open>
  Concrete primitives and a concrete source of randomness that satisfy the documented laws of the
  parameters of the model.  They show that the hypotheses of the properties can hold together and
  give the witnesses something to evaluate; they are not cryptography and model no code.
\<close>

section \<open>Primitives\<close>

text \<open>A checksum of several fields, each with its length.\<close>

definition demo_hash :: "bytes list \<Rightarrow> nat" where
  "demo_hash partes =
     foldl (\<lambda>acc f. foldl (\<lambda>a b. (a * 257 + unat b + 1) mod 2 ^ 61) (acc * 263 + length f) f) 7 partes"

definition demo_encrypt :: "bytes \<Rightarrow> bytes \<Rightarrow> bytes \<Rightarrow> bytes \<Rightarrow> bytes option" where
  "demo_encrypt k n p a =
     (if length p < XCHACHA_LIMIT then Some (p @ be_bytes 16 (demo_hash [k, n, p, a])) else None)"

definition demo_decrypt :: "bytes \<Rightarrow> bytes \<Rightarrow> bytes \<Rightarrow> bytes \<Rightarrow> bytes option" where
  "demo_decrypt k n c a =
     (let p = take (length c - 16) c
      in if 16 \<le> length c \<and> demo_encrypt k n p a = Some c then Some p else None)"

definition demo_argon2id :: "u32 \<Rightarrow> u32 \<Rightarrow> u32 \<Rightarrow> bytes \<Rightarrow> bytes \<Rightarrow> bytes option" where
  "demo_argon2id m t p secret salt =
     (if 1 \<le> p \<and> p < 2 ^ 24 \<and> 1 \<le> t \<and> 8 * unat p \<le> unat m \<and> length secret < 2 ^ 32
         \<and> 8 \<le> length salt \<and> length salt < 2 ^ 32
      then Some (be_bytes 32 (demo_hash [u32_to_be m, u32_to_be t, u32_to_be p, secret, salt]))
      else None)"

definition demo_hkdf :: "bytes \<Rightarrow> bytes \<Rightarrow> nat \<Rightarrow> bytes option" where
  "demo_hkdf ikm info len =
     (if len \<le> 8160 then Some (be_bytes len (demo_hash [ikm, info] ^ 3)) else None)"

definition demo_cripto :: cripto where
  "demo_cripto =
     \<lparr>nfkc = id, argon2id = demo_argon2id, hkdf_sha256 = demo_hkdf,
      xchacha_encrypt = demo_encrypt, xchacha_decrypt = demo_decrypt,
      sha256 = (\<lambda>m. be_bytes 32 (demo_hash [m]))\<rparr>"

lemma demo_aead_ok: "aead_ok XCHACHA_LIMIT demo_encrypt demo_decrypt"
proof -
  have "demo_decrypt k n c a = Some p \<longleftrightarrow> demo_encrypt k n p a = Some c" for k n c a p
  proof
    assume "demo_encrypt k n p a = Some c"
    moreover from this have "take (length c - 16) c = p" and "16 \<le> length c"
      by (auto simp: demo_encrypt_def split: if_splits)
    ultimately show "demo_decrypt k n c a = Some p" by (simp add: demo_decrypt_def)
  qed (auto simp: demo_decrypt_def Let_def split: if_splits)
  then show ?thesis by (auto simp: aead_ok_def demo_encrypt_def split: if_splits)
qed

lemma demo_cripto_ok: "cripto_ok demo_cripto"
  using demo_aead_ok
  by (auto simp: cripto_ok_def demo_cripto_def argon2id_ok_def demo_argon2id_def hkdf_ok_def
      demo_hkdf_def split: if_splits)

section \<open>Randomness\<close>

text \<open>A counter: the bytes that follow the last one given.\<close>

definition demo_fuente :: "nat fuente" where
  "demo_fuente s n = (Inr (map of_nat [s..<s + n]), s + n)"

lemma demo_fuente_ok: "fuente_ok demo_fuente"
  by (auto simp: fuente_ok_def demo_fuente_def)

lemma demo_no_run: "\<not> racha_de_ocho (map of_nat [s..<s + n])"
proof
  assume "racha_de_ocho (map of_nat [s..<s + n])"
  then obtain us b vs where *: "map (of_nat :: nat \<Rightarrow> u8) [s..<s + n] = us @ replicate 8 b @ vs"
    by (auto simp: racha_de_ocho_def)
  then have "length (map (of_nat :: nat \<Rightarrow> u8) [s..<s + n]) = length (us @ replicate 8 b @ vs)"
    by (rule arg_cong)
  then have n: "length us + 8 \<le> n" by simp
  have "(us @ replicate 8 b @ vs) ! (length us + i) = b" if "i < 2" for i
    using that by (simp add: nth_append)
  then have "(of_nat (s + (length us + i)) :: u8) = b" if "i < 2" for i
    using that n by (simp flip: *)
  from this [of 0] this [of 1] have "(of_nat (s + length us) :: u8) = of_nat (Suc (s + length us))"
    by simp
  then show False by simp
qed

lemma demo_fill: "llenar demo_fuente n s = (Inr (map of_nat [s..<s + n]), s + n)"
  by (simp add: llenar_def llenar_desde.simps [of demo_fuente] demo_fuente_def
      INTENTOS_def salud_de_spec [THEN iffD2, OF demo_no_run])

lemma demo_llenar: "llenar_expect demo_fuente n s = Some (map of_nat [s..<s + n], s + n)"
  by (simp add: llenar_expect_def demo_fill)

lemma demo_draws:
  "llenar_expect demo_fuente 16 0 = Some (map of_nat [0..<16], 16)"
  "llenar_expect demo_fuente 24 16 = Some (map of_nat [16..<40], 40)"
  using demo_llenar [of 16 0] demo_llenar [of 24 16] by (simp_all del: upt_rec_numeral)

text \<open>A self-test report without failures.\<close>

definition demo_informe :: report where
  "demo_informe = \<lparr>report_checks = []\<rparr>"

lemma demo_informe_ok: "report_ok demo_informe"
  by (simp add: report_ok_def demo_informe_def)

end
