(* ===== verification/GF256.thy ===== *)
theory GF256
  imports Prelude
begin

text \<open>
  The arithmetic of \<^verbatim>\<open>src/src/shamir.rs\<close> in GF(2^8): the constant-time product
  \<open>gf_mul\<close> (AES polynomial 0x11B) and the inverse \<open>gf_inv\<close> by the power 254.  The section ends
  with the bytes as an instance of the library's \<open>field\<close> class, and a reference of polynomial
  interpolation over any field that the secret sharing rests on.
\<close>

section \<open>The operations\<close>

text \<open>The loop of \<open>gf_mul\<close>: eight rounds over \<open>a\<close>, \<open>b\<close> and \<open>out\<close>.\<close>

primrec gf_mul_loop :: "nat \<Rightarrow> u8 \<Rightarrow> u8 \<Rightarrow> u8 \<Rightarrow> u8" where
  "gf_mul_loop 0 a b out = out"
| "gf_mul_loop (Suc k) a b out =
     (let out' = out XOR (a AND - (b AND 1));
          alto = drop_bit 7 a AND 1;
          a' = push_bit 1 a XOR (0x1b AND - alto);
          b' = drop_bit 1 b
      in gf_mul_loop k a' b' out')"

definition gf_mul :: "u8 \<Rightarrow> u8 \<Rightarrow> u8" where
  "gf_mul a b = gf_mul_loop 8 a b 0"

text \<open>The loop of \<open>gf_inv\<close>: square and multiply over the bits of the exponent.\<close>

function gf_inv_loop :: "nat \<Rightarrow> u8 \<Rightarrow> u8 \<Rightarrow> u8" where
  "gf_inv_loop ex resultado base =
     (if ex = 0 then resultado
      else
        let bt = (of_nat (ex mod 2) :: u8);
            candidato = gf_mul resultado base;
            mascara = - bt;
            resultado' = (candidato AND mascara) OR (resultado AND NOT mascara);
            base' = gf_mul base base
        in gf_inv_loop (ex div 2) resultado' base')"
  by pat_completeness auto
termination by (relation "measure (\<lambda>(ex, _, _). ex)") auto

declare gf_inv_loop.simps [simp del]

definition gf_inv :: "u8 \<Rightarrow> u8" where
  "gf_inv a = gf_inv_loop 254 1 a"

section \<open>The product is bilinear\<close>

definition xtime :: "u8 \<Rightarrow> u8" where
  "xtime a = push_bit 1 a XOR (if bit a 7 then 0x1b else 0)"

primrec gf_acc :: "nat \<Rightarrow> u8 \<Rightarrow> u8 \<Rightarrow> u8" where
  "gf_acc 0 a b = 0"
| "gf_acc (Suc k) a b = (if bit b 0 then a else 0) XOR gf_acc k (xtime a) (drop_bit 1 b)"

lemma and_one_mask: "- (b AND 1) = (if bit b 0 then - 1 else (0 :: 'a :: len word))"
  by (simp add: and_one_eq odd_iff_mod_2_eq_one bit_0)

lemma gf_mul_step:
  "gf_mul_loop (Suc k) a b out =
    gf_mul_loop k (xtime a) (drop_bit 1 b) (out XOR (if bit b 0 then a else 0))"
proof -
  have "bit (drop_bit 7 a) 0 = bit a 7" by (simp add: bit_drop_bit_eq)
  then have "push_bit 1 a XOR (0x1b AND - (drop_bit 7 a AND 1)) = xtime a"
    by (simp only: and_one_mask xtime_def) simp
  moreover have "a AND - (b AND 1) = (if bit b 0 then a else 0)"
    by (simp only: and_one_mask) simp
  ultimately show ?thesis by (simp only: gf_mul_loop.simps Let_def)
qed

lemma gf_mul_loop_acc: "gf_mul_loop k a b out = out XOR gf_acc k a b"
  by (induction k arbitrary: a b out) (simp_all only: gf_mul_step gf_acc.simps xor.assoc, simp_all)

lemma gf_mul_acc: "gf_mul a b = gf_acc 8 a b"
  by (simp add: gf_mul_def gf_mul_loop_acc)

lemma xtime_xor: "xtime (a XOR a') = xtime a XOR xtime a'"
  by (auto simp: xtime_def push_bit_xor bit_xor_iff xor.assoc xor.left_commute)

lemma xtime_0 [simp]: "xtime 0 = 0"
  by (simp add: xtime_def)

lemma gf_acc_xor_left: "gf_acc k (a XOR a') b = gf_acc k a b XOR gf_acc k a' b"
  by (induction k arbitrary: a a' b) (auto simp: xtime_xor ac_simps)

lemma gf_acc_xor_right: "gf_acc k a (b XOR b') = gf_acc k a b XOR gf_acc k a b'"
  by (induction k arbitrary: a b b') (auto simp: drop_bit_xor bit_xor_iff ac_simps)

lemma gf_acc_xtime: "gf_acc k (xtime a) b = xtime (gf_acc k a b)"
  by (induction k arbitrary: a b) (auto simp: xtime_xor)

lemma gf_mul_xor_left: "gf_mul (a XOR a') b = gf_mul a b XOR gf_mul a' b"
  by (simp add: gf_mul_acc gf_acc_xor_left)

lemma gf_mul_xor_right: "gf_mul a (b XOR b') = gf_mul a b XOR gf_mul a b'"
  by (simp add: gf_mul_acc gf_acc_xor_right)

lemma gf_mul_xtime: "gf_mul (xtime a) b = xtime (gf_mul a b)"
  by (simp add: gf_mul_acc gf_acc_xtime)

lemma gf_mul_xtime_pow: "gf_mul ((xtime ^^ i) a) b = (xtime ^^ i) (gf_mul a b)"
  by (induction i) (simp_all add: gf_mul_xtime)

text \<open>Additive functions are determined by the eight powers of two.\<close>

lemma additive_eqI:
  assumes F: "\<And>x y. F (x XOR y) = F x XOR F y" and G: "\<And>x y. G (x XOR y) = G x XOR G y"
    and basis: "\<And>i. i < 8 \<Longrightarrow> F ((xtime ^^ i) 1) = G ((xtime ^^ i) 1)"
  shows "F x = (G x :: u8)"
proof -
  have zero: "F 0 = 0" "G 0 = 0" using F [of 0 0] G [of 0 0] by simp_all
  have powers: "(xtime ^^ i) 1 = push_bit i 1" if "i < 8" for i
  proof -
    have "list_all (\<lambda>i. (xtime ^^ i) 1 = push_bit i 1) [0..<8]" by code_simp
    with that show ?thesis by (simp add: list_all_iff)
  qed
  have "F (take_bit n x) = G (take_bit n x)" if "n \<le> 8" for n
    using that
  proof (induction n)
    case 0
    then show ?case by (simp add: zero)
  next
    case (Suc n)
    have "take_bit (Suc n) x = take_bit n x XOR (if bit x n then push_bit n 1 else 0)"
      by (rule bit_word_eqI)
        (use Suc.prems in \<open>auto simp: bit_take_bit_iff bit_xor_iff bit_exp_iff less_Suc_eq\<close>)
    then show ?case
      using Suc basis [of n] powers [of n] by (simp add: F G zero)
  qed
  from this [of 8] show ?thesis by (simp add: take_bit_word_eq_self)
qed

lemma gf_mul_one_left: "gf_mul 1 b = b"
proof (rule additive_eqI)
  have "list_all (\<lambda>i. gf_mul 1 ((xtime ^^ i) 1) = (xtime ^^ i) 1) [0..<8]" by code_simp
  then show "i < 8 \<Longrightarrow> gf_mul 1 ((xtime ^^ i) 1) = (xtime ^^ i) 1" for i
    by (simp add: list_all_iff)
qed (simp_all add: gf_mul_xor_right)

lemma gf_mul_basis: "gf_mul ((xtime ^^ i) 1) b = (xtime ^^ i) b"
  by (simp add: gf_mul_xtime_pow gf_mul_one_left)

lemma gf_mul_commute: "gf_mul a b = gf_mul b a"
proof (rule additive_eqI [of "\<lambda>a. gf_mul a b" "\<lambda>a. gf_mul b a"])
  fix i
  show "gf_mul ((xtime ^^ i) 1) b = gf_mul b ((xtime ^^ i) 1)"
  proof (rule additive_eqI [of "gf_mul ((xtime ^^ i) 1)" "\<lambda>b. gf_mul b ((xtime ^^ i) 1)"])
    fix j
    have "(xtime ^^ i) ((xtime ^^ j) 1) = (xtime ^^ j) ((xtime ^^ i) 1)"
      by (metis add.commute comp_apply funpow_add)
    then show "gf_mul ((xtime ^^ i) 1) ((xtime ^^ j) 1) = gf_mul ((xtime ^^ j) 1) ((xtime ^^ i) 1)"
      by (simp only: gf_mul_basis)
  qed (simp_all add: gf_mul_xor_left gf_mul_xor_right)
qed (simp_all add: gf_mul_xor_left gf_mul_xor_right)

lemma gf_mul_assoc: "gf_mul (gf_mul a b) c = gf_mul a (gf_mul b c)"
proof (rule additive_eqI [of "\<lambda>a. gf_mul (gf_mul a b) c" "\<lambda>a. gf_mul a (gf_mul b c)"])
  show "gf_mul (gf_mul ((xtime ^^ i) 1) b) c = gf_mul ((xtime ^^ i) 1) (gf_mul b c)" for i
    by (simp only: gf_mul_basis gf_mul_xtime_pow gf_mul_one_left)
qed (simp_all add: gf_mul_xor_left gf_mul_xor_right)

section \<open>The inverse\<close>

text \<open>Powers for the product, and the exponentiation loop.\<close>

primrec gf_pow :: "u8 \<Rightarrow> nat \<Rightarrow> u8" where
  "gf_pow a 0 = 1"
| "gf_pow a (Suc n) = gf_mul a (gf_pow a n)"

lemma gf_pow_add: "gf_pow a (m + n) = gf_mul (gf_pow a m) (gf_pow a n)"
  by (induction m) (simp_all add: gf_mul_one_left gf_mul_assoc)

lemma gf_pow_square: "gf_pow (gf_mul a a) n = gf_pow a (2 * n)"
  by (induction n) (simp_all add: gf_mul_assoc)

lemma gf_pow_mult: "gf_pow a (m * n) = gf_pow (gf_pow a m) n"
  by (induction n) (simp_all add: gf_pow_add)

lemma mask_select: "(x AND - of_nat (n mod 2)) OR (y AND NOT (- of_nat (n mod 2)))
    = (if odd n then x else (y :: u8))"
  by (cases "odd n") (simp_all add: odd_iff_mod_2_eq_one even_iff_mod_2_eq_zero)

lemma gf_inv_loop_pow: "gf_inv_loop n r b = gf_mul r (gf_pow b n)"
proof (induction n r b rule: gf_inv_loop.induct)
  case (1 n r b)
  show ?case
  proof (cases "n = 0")
    case True
    then show ?thesis by (simp add: gf_inv_loop.simps gf_mul_commute [of r] gf_mul_one_left)
  next
    case False
    let ?r = "if odd n then gf_mul r b else r"
    have "gf_inv_loop n r b = gf_inv_loop (n div 2) ?r (gf_mul b b)"
      using False by (simp only: gf_inv_loop.simps [of n r b] if_False Let_def mask_select)
    also have "\<dots> = gf_mul ?r (gf_pow b (2 * (n div 2)))"
      using "1.IH" [OF False refl refl refl refl refl] by (simp add: mask_select gf_pow_square)
    also have "\<dots> = gf_mul r (gf_pow b n)"
    proof (cases "odd n")
      case True
      then have "gf_pow b n = gf_mul b (gf_pow b (2 * (n div 2)))"
        by (metis gf_pow.simps(2) odd_two_times_div_two_succ Suc_eq_plus1)
      with True show ?thesis by (simp add: gf_mul_assoc)
    qed simp
    finally show ?thesis .
  qed
qed

lemma gf_inv_pow: "gf_inv a = gf_pow a 254"
  by (simp add: gf_inv_def gf_inv_loop_pow gf_mul_one_left)

text \<open>
  The byte 3 has order 255: its power 255 is one, and its powers 255 / 3, 255 / 5 and 255 / 17 are
  not.  So its first 255 powers are all the bytes but zero.
\<close>

lemma gf_mul_values:
  "gf_mul 3 3 = 5" "gf_mul 5 5 = 17" "gf_mul 17 17 = 26" "gf_mul 26 26 = 95"
  "gf_mul 95 95 = 229" "gf_mul 229 229 = 76" "gf_mul 76 76 = 251"
  "gf_mul 3 5 = 15" "gf_mul 15 17 = 255" "gf_mul 255 26 = 53"
  "gf_mul 15 95 = 72" "gf_mul 72 229 = 12"
  "gf_mul 3 17 = 51" "gf_mul 51 95 = 115" "gf_mul 115 76 = 189"
  "gf_mul 53 95 = 170" "gf_mul 170 229 = 205" "gf_mul 205 76 = 160" "gf_mul 160 251 = 1"
  by code_simp+

lemma gf_pow_plus:
  "k = m + n \<Longrightarrow> gf_pow a m = x \<Longrightarrow> gf_pow a n = y \<Longrightarrow> gf_mul x y = z \<Longrightarrow> gf_pow a k = z"
  by (simp add: gf_pow_add)

lemma gf_pow_doubling:
  "gf_pow 3 1 = 3" "gf_pow 3 2 = 5" "gf_pow 3 4 = 17" "gf_pow 3 8 = 26" "gf_pow 3 16 = 95"
  "gf_pow 3 32 = 229" "gf_pow 3 64 = 76" "gf_pow 3 128 = 251"
proof -
  note v = gf_mul_values
  show 1: "gf_pow 3 1 = 3" using gf_mul_commute [of 3 1] by (simp add: gf_mul_one_left)
  show 2: "gf_pow 3 2 = 5" by (rule gf_pow_plus [OF _ 1 1 v(1)]) simp
  show 4: "gf_pow 3 4 = 17" by (rule gf_pow_plus [OF _ 2 2 v(2)]) simp
  show 8: "gf_pow 3 8 = 26" by (rule gf_pow_plus [OF _ 4 4 v(3)]) simp
  show 16: "gf_pow 3 16 = 95" by (rule gf_pow_plus [OF _ 8 8 v(4)]) simp
  show 32: "gf_pow 3 32 = 229" by (rule gf_pow_plus [OF _ 16 16 v(5)]) simp
  show 64: "gf_pow 3 64 = 76" by (rule gf_pow_plus [OF _ 32 32 v(6)]) simp
  show "gf_pow 3 128 = 251" by (rule gf_pow_plus [OF _ 64 64 v(7)]) simp
qed

lemma gf_pow_orders:
  "gf_pow 3 15 = 53" "gf_pow 3 51 = 12" "gf_pow 3 85 = 189" "gf_pow 3 255 = 1"
proof -
  note v = gf_mul_values and d = gf_pow_doubling
  have 3: "gf_pow 3 3 = 15" by (rule gf_pow_plus [OF _ d(1) d(2) v(8)]) simp
  have 7: "gf_pow 3 7 = 255" by (rule gf_pow_plus [OF _ 3 d(3) v(9)]) simp
  show 15: "gf_pow 3 15 = 53" by (rule gf_pow_plus [OF _ 7 d(4) v(10)]) simp
  have 19: "gf_pow 3 19 = 72" by (rule gf_pow_plus [OF _ 3 d(5) v(11)]) simp
  show 51: "gf_pow 3 51 = 12" by (rule gf_pow_plus [OF _ 19 d(6) v(12)]) simp
  have 5: "gf_pow 3 5 = 51" by (rule gf_pow_plus [OF _ d(1) d(3) v(13)]) simp
  have 21: "gf_pow 3 21 = 115" by (rule gf_pow_plus [OF _ 5 d(5) v(14)]) simp
  show 85: "gf_pow 3 85 = 189" by (rule gf_pow_plus [OF _ 21 d(7) v(15)]) simp
  have 31: "gf_pow 3 31 = 170" by (rule gf_pow_plus [OF _ 15 d(5) v(16)]) simp
  have 63: "gf_pow 3 63 = 205" by (rule gf_pow_plus [OF _ 31 d(6) v(17)]) simp
  have 127: "gf_pow 3 127 = 160" by (rule gf_pow_plus [OF _ 63 d(7) v(18)]) simp
  show "gf_pow 3 255 = 1" by (rule gf_pow_plus [OF _ 127 d(8) v(19)]) simp
qed

lemma gf_pow_one [simp]: "gf_pow 1 n = 1"
  by (induction n) (simp_all add: gf_mul_one_left)

lemma gf_pow_gcd: "gf_pow a m = 1 \<Longrightarrow> gf_pow a n = 1 \<Longrightarrow> gf_pow a (gcd m n) = 1"
proof (induction m n rule: gcd_nat_induct)
  case (step m n)
  have "gf_pow a m = gf_mul (gf_pow a (n * (m div n))) (gf_pow a (m mod n))"
    by (simp flip: gf_pow_add)
  also have "\<dots> = gf_pow a (m mod n)" using step.prems by (simp add: gf_pow_mult gf_mul_one_left)
  finally have "gf_pow a (m mod n) = 1" using step.prems by simp
  with step show ?case by (simp add: gcd.commute gcd_red_nat [of m n])
qed simp

lemma order_255: "0 < d \<Longrightarrow> d < 255 \<Longrightarrow> gf_pow 3 d \<noteq> 1"
proof
  assume d: "0 < d" "d < 255" and "gf_pow 3 d = 1"
  then have g: "gf_pow 3 (gcd d 255) = 1" by (intro gf_pow_gcd gf_pow_orders(4))
  have "gcd d 255 \<le> d" using d by (intro gcd_le1_nat) simp
  with d(2) have "gcd d 255 < 255" by (rule le_less_trans [rotated])
  moreover have "gcd d 255 dvd 255" by simp
  moreover have "list_all (\<lambda>g. g dvd 255 \<longrightarrow> g dvd 15 \<or> g dvd 51 \<or> g dvd 85) [0..<255::nat]"
    by code_simp
  ultimately have "gcd d 255 dvd 15 \<or> gcd d 255 dvd 51 \<or> gcd d 255 dvd 85"
    by (simp add: list_all_iff)
  moreover have "gf_pow 3 m = 1" if "gcd d 255 dvd m" for m
    using that g by (auto elim!: dvdE simp: gf_pow_mult)
  ultimately show False using gf_pow_orders by force
qed

lemma gf_mul_zero [simp]: "gf_mul 0 b = 0" "gf_mul b 0 = 0"
  using gf_mul_xor_left [of 0 0 b] gf_mul_commute [of b 0] by simp_all

lemma gf_pow_3_nonzero: "gf_pow 3 n \<noteq> 0"
proof
  assume "gf_pow 3 n = 0"
  then have "gf_pow 3 (n + 254 * n) = 0" by (simp only: gf_pow_add gf_mul_zero)
  moreover have "gf_pow 3 (255 * n) = 1" by (simp only: gf_pow_mult gf_pow_orders gf_pow_one)
  ultimately show False by simp
qed

lemma gf_pow_3_inj: "inj_on (gf_pow 3) {..<255}"
proof -
  have less: "gf_pow 3 i \<noteq> gf_pow 3 j" if "i < j" "j < 255" for i j
  proof
    assume eq: "gf_pow 3 i = gf_pow 3 j"
    have "gf_pow 3 (i + (255 - i)) = gf_pow 3 (j + (255 - i))"
      unfolding gf_pow_add eq ..
    then have "1 = gf_pow 3 ((j - i) + 255)" using that by (simp add: gf_pow_orders)
    also have "\<dots> = gf_pow 3 (j - i)"
      using gf_mul_commute [of _ 1] by (simp add: gf_pow_add gf_pow_orders gf_mul_one_left)
    finally show False using order_255 [of "j - i"] that by simp
  qed
  show ?thesis by (rule linorder_inj_onI) (use less in auto)
qed

lemma gf_pow_3_all: "a \<noteq> 0 \<Longrightarrow> \<exists>n. a = gf_pow 3 n"
proof -
  have "card (gf_pow 3 ` {..<255}) = 255" using gf_pow_3_inj by (simp add: card_image)
  moreover have "card (UNIV - {0 :: u8}) = 255" by (simp add: card_Diff_singleton card_word)
  moreover have "gf_pow 3 ` {..<255} \<subseteq> UNIV - {0}" using gf_pow_3_nonzero by auto
  ultimately have "gf_pow 3 ` {..<255} = UNIV - {0}" by (intro card_subset_eq) simp_all
  then show "a \<noteq> 0 \<Longrightarrow> ?thesis" by auto
qed

lemma gf_mul_inverse: "a \<noteq> 0 \<Longrightarrow> gf_mul (gf_inv a) a = 1"
proof -
  assume "a \<noteq> 0"
  then obtain n where a: "a = gf_pow 3 n" using gf_pow_3_all by blast
  have "gf_mul (gf_inv a) a = gf_pow a 255"
    using gf_pow_add [of a 254 1] gf_mul_commute [of a 1] by (simp add: gf_inv_pow gf_mul_one_left)
  also have "\<dots> = gf_pow 3 (255 * n)" by (simp only: a mult.commute [of 255] gf_pow_mult)
  also have "\<dots> = 1" by (simp only: gf_pow_mult gf_pow_orders gf_pow_one)
  finally show ?thesis .
qed

lemma gf_inv_0: "gf_inv 0 = 0"
  by (simp add: gf_inv_pow numeral_eq_Suc)

section \<open>The bytes as a field\<close>

typedef gf = "UNIV :: u8 set"
  morphisms byte_of gf
  by (rule exI [of _ 0]) simp

lemma byte_of_gf [simp]: "byte_of (gf b) = b"
  by (simp add: gf_inverse)

lemma gf_byte_of [simp]: "gf (byte_of x) = x"
  by (rule byte_of_inverse)

lemma gf_eq_iff: "x = y \<longleftrightarrow> byte_of x = byte_of y"
  by (simp add: byte_of_inject)

lemma gf_inj [simp]: "gf a = gf b \<longleftrightarrow> a = b"
  by (metis byte_of_gf)

instantiation gf :: field
begin

definition "0 = gf 0"
definition "1 = gf 1"
definition "x + y = gf (byte_of x XOR byte_of y)"
definition "x - y = gf (byte_of x XOR byte_of y)"
definition "- x = (x :: gf)"
definition "x * y = gf (gf_mul (byte_of x) (byte_of y))"
definition "inverse x = gf (gf_inv (byte_of x))"
definition "x div y = x * inverse (y :: gf)"

lemmas gf_field_defs =
  zero_gf_def one_gf_def plus_gf_def minus_gf_def uminus_gf_def times_gf_def inverse_gf_def
  divide_gf_def

instance
proof
  fix a b c :: gf
  show "a + b + c = a + (b + c)" by (simp add: gf_field_defs xor.assoc)
  show "a + b = b + a" by (simp add: gf_field_defs xor.commute)
  show "0 + a = a" by (simp add: gf_field_defs)
  show "- a + a = 0" by (simp add: gf_field_defs)
  show "a - b = a + - b" by (simp add: gf_field_defs)
  show "a * b * c = a * (b * c)" by (simp add: gf_field_defs gf_mul_assoc)
  show "a * b = b * a" by (simp add: gf_field_defs gf_mul_commute)
  show "1 * a = a" by (simp add: gf_field_defs gf_mul_one_left)
  show "(a + b) * c = a * c + b * c" by (simp add: gf_field_defs gf_mul_xor_left)
  show "(0 :: gf) \<noteq> 1" by (simp add: gf_field_defs)
  show "a \<noteq> 0 \<Longrightarrow> inverse a * a = 1" by (simp add: gf_field_defs gf_eq_iff gf_mul_inverse)
  show "a div b = a * inverse b" by (simp add: gf_field_defs)
  show "inverse (0 :: gf) = 0" by (simp add: gf_field_defs gf_inv_0)
qed

end

text \<open>The operations of the source in the field.\<close>

lemma gf_simps:
  "gf (a XOR b) = gf a + gf b" "gf (gf_mul a b) = gf a * gf b" "gf (gf_inv a) = inverse (gf a)"
  "gf 0 = 0" "gf 1 = 1"
  by (simp_all add: gf_field_defs)

lemma gf_minus: "x - y = (x + y :: gf)"
  by (simp add: gf_field_defs)

end
