(* ===== verification/Interpolation.thy ===== *)
theory Interpolation
  imports Main
begin

text \<open>
  Polynomials over any field as coefficient lists, least degree first, and interpolation at zero:
  a polynomial with \<open>k\<close> coefficients is determined by its values at \<open>k\<close> different points, and
  its value at zero is the sum of the values with the Lagrange coefficients.  This is the
  reference that the secret sharing is proved against.
\<close>

primrec poly_eval :: "'a :: field list \<Rightarrow> 'a \<Rightarrow> 'a" where
  "poly_eval [] x = 0"
| "poly_eval (c # cs) x = c + x * poly_eval cs x"

text \<open>The functions given by \<open>n\<close> coefficients.\<close>

definition poly_fun :: "nat \<Rightarrow> ('a :: field \<Rightarrow> 'a) \<Rightarrow> bool" where
  "poly_fun n F \<longleftrightarrow> (\<exists>cs. length cs = n \<and> F = poly_eval cs)"

lemma poly_funI: "length cs = n \<Longrightarrow> (\<And>x. F x = poly_eval cs x) \<Longrightarrow> poly_fun n F"
  by (auto simp: poly_fun_def)

lemma poly_funE:
  assumes "poly_fun n F" obtains cs where "length cs = n" "\<And>x. F x = poly_eval cs x"
  using assms by (auto simp: poly_fun_def)

lemma poly_eval_replicate_0 [simp]: "poly_eval (replicate n 0) x = 0"
  by (induction n) simp_all

lemma poly_fun_zero: "poly_fun n (\<lambda>_. 0)"
  by (rule poly_funI [of "replicate n 0"]) simp_all

lemma poly_eval_add:
  "length cs = length ds \<Longrightarrow>
    poly_eval (map2 (+) cs ds) x = poly_eval cs x + poly_eval ds x"
  by (induction cs ds rule: list_induct2) (simp_all add: algebra_simps)

lemma poly_fun_add: "poly_fun n F \<Longrightarrow> poly_fun n G \<Longrightarrow> poly_fun n (\<lambda>x. F x + G x)"
proof (elim poly_funE)
  fix cs ds
  assume "length cs = n" "length ds = n" "\<And>x. F x = poly_eval cs x" "\<And>x. G x = poly_eval ds x"
  then show ?thesis by (intro poly_funI [of "map2 (+) cs ds"]) (simp_all add: poly_eval_add)
qed

lemma poly_eval_scale: "poly_eval (map ((*) a) cs) x = a * poly_eval cs x"
  by (induction cs) (simp_all add: algebra_simps)

lemma poly_fun_scale: "poly_fun n F \<Longrightarrow> poly_fun n (\<lambda>x. a * F x)"
proof (elim poly_funE)
  fix cs
  assume "length cs = n" "\<And>x. F x = poly_eval cs x"
  then show ?thesis by (intro poly_funI [of "map ((*) a) cs"]) (simp_all add: poly_eval_scale)
qed

lemma poly_fun_shift: "poly_fun n F \<Longrightarrow> poly_fun (Suc n) (\<lambda>x. x * F x)"
proof (elim poly_funE)
  fix cs
  assume "length cs = n" "\<And>x. F x = poly_eval cs x"
  then show ?thesis by (intro poly_funI [of "0 # cs"]) auto
qed

lemma poly_eval_append_0: "poly_eval (cs @ [0]) x = poly_eval cs x"
  by (induction cs) simp_all

lemma poly_fun_Suc: "poly_fun n F \<Longrightarrow> poly_fun (Suc n) F"
  by (elim poly_funE) (rule poly_funI [of "_ @ [0]"]; simp add: poly_eval_append_0)

lemma poly_fun_linear: "poly_fun n F \<Longrightarrow> poly_fun (Suc n) (\<lambda>x. (x - a) * F x)"
  using poly_fun_add [OF poly_fun_shift [of n F] poly_fun_Suc [OF poly_fun_scale [of n F "- a"]]]
  by (simp add: algebra_simps)

lemma poly_fun_sum: "(\<And>i. i \<in> A \<Longrightarrow> poly_fun n (F i)) \<Longrightarrow> poly_fun n (\<lambda>x. \<Sum>i\<in>A. F i x)"
  by (induction A rule: infinite_finite_induct) (simp_all add: poly_fun_zero poly_fun_add)

lemma poly_fun_prod:
  "finite A \<Longrightarrow> poly_fun (Suc (card A)) (\<lambda>x. \<Prod>a\<in>A. x - a)"
proof (induction A rule: finite_induct)
  case empty
  show ?case unfolding poly_fun_def by (intro exI [of _ "[1]"]) (simp add: fun_eq_iff)
next
  case (insert a A)
  then show ?case using poly_fun_linear [OF insert.IH, of a] by simp
qed

section \<open>Roots\<close>

text \<open>Division by a linear factor.\<close>

lemma poly_eval_divide:
  "\<exists>qs. length qs = length cs \<and> (\<forall>x. poly_eval (c # cs) x = (x - r) * poly_eval qs x + poly_eval (c # cs) r)"
proof (induction cs arbitrary: c)
  case Nil
  show ?case by (intro exI [of _ "[]"]) simp
next
  case (Cons d ds)
  obtain qs where qs: "length qs = length ds"
      "\<forall>x. poly_eval (d # ds) x = (x - r) * poly_eval qs x + poly_eval (d # ds) r"
    using Cons.IH by blast
  let ?v = "poly_eval (d # ds) r"
  have "poly_eval (c # d # ds) x = (x - r) * poly_eval (?v # qs) x + poly_eval (c # d # ds) r" for x
  proof -
    have "poly_eval (d # ds) x = (x - r) * poly_eval qs x + ?v" using qs(2) by blast
    then have "c + x * poly_eval (d # ds) x = c + x * ((x - r) * poly_eval qs x + ?v)"
      by (rule arg_cong)
    also have "\<dots> = (x - r) * (?v + x * poly_eval qs x) + (c + r * ?v)"
      by (simp only: algebra_simps)
    finally show ?thesis
      unfolding poly_eval.simps(2) [of c "d # ds"] poly_eval.simps(2) [of ?v qs] .
  qed
  moreover have "length (?v # qs) = length (d # ds)" by (simp only: list.size qs(1))
  ultimately show ?case by blast
qed

lemma poly_fun_roots:
  "\<lbrakk>poly_fun n F; finite A; n \<le> card A; \<And>a. a \<in> A \<Longrightarrow> F a = 0\<rbrakk> \<Longrightarrow> F x = 0"
proof (induction n arbitrary: F A)
  case 0
  then show ?case by (auto simp: poly_fun_def)
next
  case (Suc n)
  obtain c cs where cs: "length cs = n" "F = poly_eval (c # cs)"
    using Suc.prems(1) by (auto simp: poly_fun_def length_Suc_conv)
  obtain a where a: "a \<in> A" using Suc.prems(2,3) by (metis card.empty ex_in_conv not_less_eq_eq le0)
  obtain qs where qs: "length qs = n" "\<And>x. F x = (x - a) * poly_eval qs x + F a"
    using poly_eval_divide [of cs c a] cs by blast
  have "poly_eval qs x = 0"
  proof (rule Suc.IH [of _ "A - {a}"])
    show "poly_fun n (poly_eval qs)" using qs(1) by (auto simp: poly_fun_def)
    show "n \<le> card (A - {a})" using Suc.prems(2,3) a by simp
    show "poly_eval qs b = 0" if "b \<in> A - {a}" for b
      using that qs(2) [of b] Suc.prems(4) [of b] Suc.prems(4) [OF a] by simp
  qed (use Suc.prems(2) in simp)
  then show ?case using qs(2) [of x] Suc.prems(4) [OF a] by simp
qed

text \<open>Two polynomials with \<open>n\<close> coefficients that agree at \<open>n\<close> points are the same function.\<close>

lemma poly_fun_unique:
  assumes "poly_fun n F" "poly_fun n G" "finite A" "n \<le> card A" "\<And>a. a \<in> A \<Longrightarrow> F a = G a"
  shows "F x = G x"
proof -
  have "poly_fun n (\<lambda>x. F x + - 1 * G x)" by (intro poly_fun_add poly_fun_scale assms(1,2))
  from poly_fun_roots [OF this assms(3,4), of x] assms(5) show ?thesis by simp
qed

text \<open>And then they have the same coefficients.\<close>

lemma poly_eval_zero_coeffs:
  "finite A \<Longrightarrow> length cs \<le> card A \<Longrightarrow> (\<And>a. a \<in> A \<Longrightarrow> poly_eval cs a = 0) \<Longrightarrow>
    cs = replicate (length cs) 0"
proof (induction cs arbitrary: A)
  case (Cons c cs)
  have "poly_fun (length (c # cs)) (poly_eval (c # cs))" by (rule poly_funI [OF refl refl])
  from poly_fun_roots [OF this Cons.prems] have all: "poly_eval (c # cs) x = 0" for x by blast
  from all [of 0] have c: "c = 0" by simp
  have "cs = replicate (length cs) 0"
  proof (rule Cons.IH [of "A - {0}"])
    show "length cs \<le> card (A - {0})"
      using Cons.prems(1,2) by (cases "0 \<in> A") auto
    show "poly_eval cs a = 0" if "a \<in> A - {0}" for a
      using that all [of a] c by simp
  qed (use Cons.prems(1) in simp)
  with c show ?case by simp
qed simp

lemma poly_eval_unique_coeffs:
  assumes "finite A" "length cs = length ds" "length cs \<le> card A"
    and "\<And>a. a \<in> A \<Longrightarrow> poly_eval cs a = poly_eval ds a"
  shows "cs = (ds :: 'a :: field list)"
proof -
  let ?es = "map2 (+) cs (map ((*) (- 1)) ds)"
  have "?es = replicate (length ?es) 0"
    using assms(1)
  proof (rule poly_eval_zero_coeffs)
    show "length ?es \<le> card A" using assms(2,3) by simp
    show "poly_eval ?es a = 0" if "a \<in> A" for a
      using assms(2,4) that by (subst poly_eval_add) (simp_all add: poly_eval_scale)
  qed
  then have "?es ! i = 0" if "i < length cs" for i
    using that assms(2) by (metis length_map length_zip min_less_iff_conj nth_replicate)
  with assms(2) show ?thesis by (intro nth_equalityI) simp_all
qed

section \<open>Lagrange\<close>

definition lagrange_basis :: "'a :: field set \<Rightarrow> 'a \<Rightarrow> 'a \<Rightarrow> 'a" where
  "lagrange_basis A a x = (\<Prod>b\<in>A - {a}. (x - b) / (a - b))"

lemma lagrange_basis_poly:
  assumes "finite A" "card A = n" "a \<in> A"
  shows "poly_fun n (lagrange_basis A a)"
proof -
  have "poly_fun (Suc (card (A - {a}))) (\<lambda>x. \<Prod>b\<in>A - {a}. x - b)"
    using assms(1) by (intro poly_fun_prod) simp
  moreover have "Suc (card (A - {a})) = n" using assms card_Suc_Diff1 by metis
  moreover have "lagrange_basis A a x = inverse (\<Prod>b\<in>A - {a}. a - b) * (\<Prod>b\<in>A - {a}. x - b)" for x
    unfolding lagrange_basis_def prod_dividef by (simp add: divide_inverse mult.commute)
  ultimately show ?thesis using poly_fun_scale by (metis (no_types, lifting) ext)
qed

lemma lagrange_basis_one: "lagrange_basis A a a = 1"
  unfolding lagrange_basis_def by (rule prod.neutral) auto

lemma lagrange_basis_zero: "finite A \<Longrightarrow> b \<in> A \<Longrightarrow> a \<noteq> b \<Longrightarrow> lagrange_basis A a b = 0"
  unfolding lagrange_basis_def by (intro prod_zero) auto

lemma lagrange_sum:
  assumes "finite A" "b \<in> A"
  shows "(\<Sum>a\<in>A. v a * lagrange_basis A a b) = v b"
proof -
  have "(\<Sum>a\<in>A. v a * lagrange_basis A a b)
      = v b * lagrange_basis A b b + (\<Sum>a\<in>A - {b}. v a * lagrange_basis A a b)"
    using assms by (rule sum.remove)
  also have "(\<Sum>a\<in>A - {b}. v a * lagrange_basis A a b) = 0"
    using assms by (intro sum.neutral) (auto simp: lagrange_basis_zero)
  finally show ?thesis by (simp add: lagrange_basis_one)
qed

lemma lagrange_interpolates:
  assumes "finite A" "card A = n"
  shows "poly_fun n (\<lambda>x. \<Sum>a\<in>A. v a * lagrange_basis A a x)"
  using assms by (intro poly_fun_sum poly_fun_scale lagrange_basis_poly)

text \<open>Interpolation at zero.\<close>

lemma lagrange_at_zero:
  assumes "poly_fun n F" "finite A" "card A = n"
  shows "F 0 = (\<Sum>a\<in>A. F a * lagrange_basis A a 0)"
  by (rule poly_fun_unique [OF assms(1) lagrange_interpolates [OF assms(2,3)] assms(2)])
    (simp_all add: assms lagrange_sum)

lemma interpolation_exists:
  assumes "finite A" "card A = n"
  shows "\<exists>cs. length cs = n \<and> (\<forall>a \<in> A. poly_eval cs a = v a)"
  using lagrange_interpolates [OF assms, of v] lagrange_sum [OF assms(1), of _ v]
  by (elim poly_funE) metis

end
