(* ===== verification/Shamir.thy ===== *)
theory Shamir
  imports Roundtrip GF256 Interpolation Antihacker Instances
begin

text \<open>
  \<^verbatim>\<open>src/src/shamir.rs\<close>: sharing a secret in \<open>n\<close> shares of which \<open>k\<close> suffice.  What is
  shared is the secret with an eight-byte tag appended, byte by byte, by a random polynomial over
  GF(2^8) whose value at zero is the byte.  Randomness comes from \<open>llenar\<close>; SHA-256 is the
  parameter \<open>sha256\<close>.  The outer \<open>option\<close> of \<open>combine\<close> is the panic of a subtraction below
  zero, which no share built by \<open>split\<close> or \<open>from_bytes\<close> reaches.
\<close>

section \<open>Shares and their format\<close>

text \<open>\<^verbatim>\<open>b"QSS2"\<close> and \<^verbatim>\<open>b"quipu/v1/shamir-tag"\<close>.\<close>

definition shamir_MAGIC :: bytes where
  "shamir_MAGIC = [0x51, 0x53, 0x53, 0x32]"

definition TAG_LEN :: nat where
  "TAG_LEN = 8"

definition TAG_INFO :: bytes where
  "TAG_INFO =
     [0x71, 0x75, 0x69, 0x70, 0x75, 0x2f, 0x76, 0x31, 0x2f, 0x73, 0x68, 0x61, 0x6d, 0x69, 0x72,
      0x2d, 0x74, 0x61, 0x67]"

definition shamir_HEADER_LEN :: nat where
  "shamir_HEADER_LEN = 4 + 1 + 1 + 4"

definition MIN_THRESHOLD :: u8 where
  "MIN_THRESHOLD = 2"

datatype shamir_error =
    BadParameters
  | EmptySecret
  | NotEnoughShares nat nat
  | Inconsistent
  | VerificationFailed
  | Malformed
  | ShamirSinEntropia sin_entropia

record share =
  sh_threshold :: u8
  sh_index :: u8
  sh_y :: bytes

definition share_to_bytes :: "share \<Rightarrow> bytes" where
  "share_to_bytes s =
     shamir_MAGIC @ [sh_threshold s] @ [sh_index s] @ u32_to_be (of_nat (length (sh_y s))) @ sh_y s"

definition share_from_bytes :: "bytes \<Rightarrow> shamir_error + share" where
  "share_from_bytes b =
     (if length b < shamir_HEADER_LEN \<or> slice 0 4 b \<noteq> shamir_MAGIC then Inl Malformed
      else
        let threshold = b ! 4;
            index = b ! 5
        in if threshold < MIN_THRESHOLD \<or> index = 0 then Inl Malformed
           else
             let len = unat (u32_from_be [b ! 6, b ! 7, b ! 8, b ! 9])
             in if len \<le> TAG_LEN \<or> length b \<noteq> shamir_HEADER_LEN + len then Inl Malformed
                else Inr \<lparr>sh_threshold = threshold, sh_index = index,
                          sh_y = drop shamir_HEADER_LEN b\<rparr>)"

section \<open>Splitting\<close>

definition etiqueta :: "(bytes \<Rightarrow> bytes) \<Rightarrow> bytes \<Rightarrow> bytes" where
  "etiqueta sha secret = take TAG_LEN (sha (TAG_INFO @ secret))"

text \<open>Horner's rule from the highest coefficient down, ending in the byte of the secret.\<close>

definition evaluar :: "bytes \<Rightarrow> u8 \<Rightarrow> u8 \<Rightarrow> u8" where
  "evaluar coeficientes byte x =
     (let acc = foldl (\<lambda>acc c. gf_mul acc x XOR c) 0 (rev coeficientes)
      in gf_mul acc x XOR byte)"

text \<open>The loop over the payload: fresh coefficients for every byte, one value per share.\<close>

fun split_loop ::
  "'r fuente \<Rightarrow> nat \<Rightarrow> bytes \<Rightarrow> share list \<Rightarrow> 'r \<Rightarrow> (shamir_error + share list) \<times> 'r" where
  "split_loop fuente m [] fuera r = (Inr fuera, r)"
| "split_loop fuente m (byte # payload) fuera r =
     (case llenar fuente m r of
        (Inl e, r') \<Rightarrow> (Inl (ShamirSinEntropia e), r')
      | (Inr coeficientes, r') \<Rightarrow>
          split_loop fuente m payload
            (map (\<lambda>s. s\<lparr>sh_y := sh_y s @ [evaluar coeficientes byte (sh_index s)]\<rparr>) fuera) r')"

definition split ::
  "(bytes \<Rightarrow> bytes) \<Rightarrow> 'r fuente \<Rightarrow> bytes \<Rightarrow> u8 \<Rightarrow> u8 \<Rightarrow> 'r \<Rightarrow> (shamir_error + share list) \<times> 'r" where
  "split sha fuente secret threshold shares r =
     (if secret = [] then (Inl EmptySecret, r)
      else if threshold < MIN_THRESHOLD \<or> shares < threshold then (Inl BadParameters, r)
      else
        let payload = secret @ etiqueta sha secret;
            fuera = map (\<lambda>i. \<lparr>sh_threshold = threshold, sh_index = of_nat i, sh_y = []\<rparr>)
                      [1..<unat shares + 1]
        in split_loop fuente (unat threshold - 1) payload fuera r)"

section \<open>Combining\<close>

text \<open>Some index occurs twice: each share against those after it.\<close>

fun indices_repetidos :: "share list \<Rightarrow> bool" where
  "indices_repetidos [] = False"
| "indices_repetidos (a # resto) = ((\<exists>b \<in> set resto. sh_index b = sh_index a) \<or> indices_repetidos resto)"

definition coeficiente_lagrange :: "share list \<Rightarrow> nat \<Rightarrow> u8" where
  "coeficiente_lagrange usadas i =
     (let num = foldl (\<lambda>num j. if i = j then num else gf_mul num (sh_index (usadas ! j)))
                  1 [0..<length usadas];
          den = foldl (\<lambda>den j. if i = j then den
                         else gf_mul den (sh_index (usadas ! i) XOR sh_index (usadas ! j)))
                  1 [0..<length usadas]
      in gf_mul num (gf_inv den))"

definition interpolar :: "share list \<Rightarrow> u8 list \<Rightarrow> nat \<Rightarrow> u8" where
  "interpolar usadas lambdas pos =
     foldl (\<lambda>acc i. acc XOR gf_mul (sh_y (usadas ! i) ! pos) (lambdas ! i)) 0 [0..<length usadas]"

definition combine :: "(bytes \<Rightarrow> bytes) \<Rightarrow> share list \<Rightarrow> (shamir_error + bytes) option" where
  "combine sha shares =
     (case shares of
        [] \<Rightarrow> Some (Inl (NotEnoughShares (unat MIN_THRESHOLD) 0))
      | primera # _ \<Rightarrow>
          let needed = unat (sh_threshold primera)
          in if length shares < needed then Some (Inl (NotEnoughShares needed (length shares)))
             else if \<exists>s \<in> set shares. sh_threshold s \<noteq> sh_threshold primera
                       \<or> length (sh_y s) \<noteq> length (sh_y primera) \<or> sh_index s = 0
             then Some (Inl Inconsistent)
             else if indices_repetidos shares then Some (Inl Inconsistent)
             else
               let usadas = take needed shares;
                   lambdas = map (coeficiente_lagrange usadas) [0..<needed];
                   recuperado = map (interpolar usadas lambdas) [0..<length (sh_y primera)]
               in if length recuperado < TAG_LEN then None
                  else
                    let corte = length recuperado - TAG_LEN;
                        secreto = take corte recuperado
                    in if \<not> ct_eq (etiqueta sha secreto) (drop corte recuperado)
                       then Some (Inl VerificationFailed)
                       else Some (Inr secreto))"

section \<open>The format is canonical\<close>

definition share_ok :: "share \<Rightarrow> bool" where
  "share_ok s \<longleftrightarrow>
     MIN_THRESHOLD \<le> sh_threshold s \<and> sh_index s \<noteq> 0 \<and> TAG_LEN < length (sh_y s) \<and>
     length (sh_y s) < 2 ^ 32"

lemma share_from_to_bytes: "share_ok s \<Longrightarrow> share_from_bytes (share_to_bytes s) = Inr s"
proof -
  assume ok: "share_ok s"
  let ?l = "u32_to_be (of_nat (length (sh_y s)))"
  have l: "[?l ! 0, ?l ! 1, ?l ! 2, ?l ! 3] = ?l"
    by (intro nth_equalityI) (auto simp: nth_Cons' less_Suc_eq numeral_eq_Suc)
  have u: "unat (of_nat (length (sh_y s)) :: u32) = length (sh_y s)"
    using ok by (intro unat_of_nat_u32) (simp add: share_ok_def)
  show ?thesis
    using ok l u
    by (simp add: share_from_bytes_def share_to_bytes_def shamir_HEADER_LEN_def shamir_MAGIC_def
        share_ok_def not_less [symmetric] Let_def nth_append)
qed

lemma share_from_bytes_Inr:
  "share_from_bytes b = Inr s \<Longrightarrow> share_ok s \<and> share_to_bytes s = b"
proof -
  assume *: "share_from_bytes b = Inr s"
  then have len: "10 \<le> length b" and magic: "take 4 b = shamir_MAGIC"
    by (auto simp: share_from_bytes_def shamir_HEADER_LEN_def Let_def split: if_splits)
  have four: "[b ! 6, b ! 7, b ! 8, b ! 9] = slice 6 10 b"
  proof -
    have "[b ! 6, b ! 7] @ [b ! 8, b ! 9] = slice 6 10 b"
      using slice_pair [of 6 b] slice_pair [of 8 b] slice_join [of 6 8 10 b] len
      by (simp del: append.simps)
    then show ?thesis by simp
  qed
  let ?n = "unat (u32_from_be (slice 6 10 b))"
  have s: "s = \<lparr>sh_threshold = b ! 4, sh_index = b ! 5, sh_y = drop 10 b\<rparr>"
    and ok: "\<not> b ! 4 < MIN_THRESHOLD" "b ! 5 \<noteq> 0" "TAG_LEN < ?n" "length b = 10 + ?n"
    using * by (auto simp: share_from_bytes_def shamir_HEADER_LEN_def four Let_def split: if_splits)
  have "u32_to_be (of_nat (length b - 10)) = slice 6 10 b"
    using ok len by (simp add: u32_to_from_be)
  moreover have "[b ! 4, b ! 5] = slice 4 6 b" using slice_pair [of 4 b] len by simp
  moreover have "take 4 b @ slice 4 6 b @ slice 6 10 b @ drop 10 b = b"
    by (simp add: slice_take_drop)
  ultimately have "share_to_bytes s = b"
    unfolding share_to_bytes_def s using magic by (metis append_Cons append_Nil length_drop
        share.select_convs)
  moreover have "share_ok s"
    using ok unat_u32_lt [of "u32_from_be (slice 6 10 b)"] by (simp add: s share_ok_def)
  ultimately show ?thesis by simp
qed

interpretation shares: canonical share_to_bytes share_from_bytes share_ok
  by unfold_locales (auto simp: share_from_to_bytes dest: share_from_bytes_Inr)

section \<open>Splitting gives the values of a polynomial\<close>

lemma gf_evaluar: "gf (evaluar cs b x) = poly_eval (gf b # map gf cs) (gf x)"
proof -
  have "gf (foldl (\<lambda>acc c. gf_mul acc x XOR c) 0 (rev cs)) = poly_eval (map gf cs) (gf x)"
    by (induction cs) (simp_all add: gf_simps algebra_simps)
  then show ?thesis by (simp add: evaluar_def gf_simps algebra_simps)
qed

text \<open>The columns that \<open>split_loop\<close> appends, one coefficient list per byte of the payload.\<close>

lemma split_loop_Inr:
  assumes "split_loop fuente m payload fuera r = (Inr out, r')" and "fuente_ok fuente"
  shows "\<exists>css. length css = length payload \<and> (\<forall>cs \<in> set css. length cs = m) \<and>
    out = map (\<lambda>s. s\<lparr>sh_y := sh_y s @ map2 (\<lambda>cs b. evaluar cs b (sh_index s)) css payload\<rparr>) fuera"
  using assms(1)
proof (induction payload arbitrary: fuera r)
  case Nil
  then show ?case by simp
next
  case (Cons b payload)
  obtain cs r1 where ll: "llenar fuente m r = (Inr cs, r1)"
    using Cons.prems by (auto split: prod.splits sum.splits)
  let ?fuera = "map (\<lambda>s. s\<lparr>sh_y := sh_y s @ [evaluar cs b (sh_index s)]\<rparr>) fuera"
  have "split_loop fuente m payload ?fuera r1 = (Inr out, r')" using Cons.prems ll by simp
  from Cons.IH [OF this] obtain css where css: "length css = length payload"
      "\<forall>cs \<in> set css. length cs = m"
      "out = map (\<lambda>s. s\<lparr>sh_y := sh_y s @ map2 (\<lambda>cs b. evaluar cs b (sh_index s)) css payload\<rparr>) ?fuera"
    by blast
  moreover have "length cs = m" using llenar_length [OF assms(2) ll] .
  ultimately show ?case by (intro exI [of _ "cs # css"]) simp
qed

lemma split_Inr:
  assumes "split sha fuente secret k n r = (Inr shares, r')" and "fuente_ok fuente"
  obtains css where
    "secret \<noteq> []" "MIN_THRESHOLD \<le> k" "k \<le> n"
    "length css = length (secret @ etiqueta sha secret)"
    "\<forall>cs \<in> set css. length cs = unat k - 1"
    "shares = map (\<lambda>i. \<lparr>sh_threshold = k, sh_index = of_nat i,
       sh_y = map2 (\<lambda>cs b. evaluar cs b (of_nat i)) css (secret @ etiqueta sha secret)\<rparr>)
       [1..<unat n + 1]"
proof -
  have params: "secret \<noteq> []" "MIN_THRESHOLD \<le> k" "k \<le> n"
    using assms(1) by (auto simp: split_def split: if_splits)
  have "split_loop fuente (unat k - 1) (secret @ etiqueta sha secret)
      (map (\<lambda>i. \<lparr>sh_threshold = k, sh_index = of_nat i, sh_y = []\<rparr>) [1..<unat n + 1]) r = (Inr shares, r')"
    using assms(1) params by (simp add: split_def Let_def not_less [symmetric])
  from split_loop_Inr [OF this assms(2)] that [OF params] show ?thesis
    by (auto simp: comp_def)
qed

section \<open>Combining interpolates at zero\<close>

lemma gf_foldl_prod:
  "distinct js \<Longrightarrow>
    gf (foldl (\<lambda>acc j. if i = j then acc else gf_mul acc (f j)) a js) =
      gf a * (\<Prod>j\<in>set js - {i}. gf (f j))"
proof (induction js arbitrary: a)
  case (Cons j js)
  show ?case
  proof (cases "i = j")
    case True
    with Cons have "set (j # js) - {i} = set js - {i}" by auto
    with Cons True show ?thesis by simp
  next
    case False
    then have "set (j # js) - {i} = insert j (set js - {i})" by auto
    with Cons False show ?thesis by (simp add: gf_simps)
  qed
qed simp

lemma gf_foldl_sum:
  "distinct js \<Longrightarrow> gf (foldl (\<lambda>acc j. acc XOR f j) a js) = gf a + (\<Sum>j\<in>set js. gf (f j))"
  by (induction js arbitrary: a) (simp_all add: gf_simps)

lemma indices_repetidos_iff: "indices_repetidos ss \<longleftrightarrow> \<not> distinct (map sh_index ss)"
  by (induction ss) (simp_all add: image_iff, metis)

text \<open>The coefficients are those of Lagrange for the points of the shares.\<close>

lemma coeficiente_lagrange_eq:
  assumes dist: "distinct (map sh_index us)" and i: "i < length us"
  defines "A \<equiv> (\<lambda>j. gf (sh_index (us ! j))) ` {..<length us}"
  shows "gf (coeficiente_lagrange us i) = lagrange_basis A (gf (sh_index (us ! i))) 0"
proof -
  let ?x = "\<lambda>j. gf (sh_index (us ! j))"
  have inj: "inj_on ?x {..<length us}"
    using dist by (auto simp: inj_on_def distinct_conv_nth)
  have minus: "A - {?x i} = ?x ` ({..<length us} - {i})"
    unfolding A_def using i by (intro inj_on_image_set_diff [OF inj, of _ "{i}", simplified, symmetric]) auto
  have "gf (coeficiente_lagrange us i) =
      (\<Prod>j\<in>{..<length us} - {i}. ?x j) * inverse (\<Prod>j\<in>{..<length us} - {i}. ?x i + ?x j)"
    by (simp add: coeficiente_lagrange_def gf_simps gf_foldl_prod lessThan_atLeast0 [symmetric]
        atLeast0LessThan)
  also have "\<dots> = (\<Prod>j\<in>{..<length us} - {i}. (0 - ?x j) / (?x i - ?x j))"
    unfolding prod_dividef by (simp add: divide_inverse gf_minus)
  also have "\<dots> = (\<Prod>b\<in>A - {?x i}. (0 - b) / (?x i - b))"
    unfolding minus using inj by (subst prod.reindex) (auto simp: inj_on_def)
  finally show ?thesis by (simp add: lagrange_basis_def)
qed

lemma interpolar_eq:
  assumes dist: "distinct (map sh_index us)" and k: "length us = k"
    and F: "poly_fun k F" and vals: "\<And>i. i < k \<Longrightarrow> gf (sh_y (us ! i) ! pos) = F (gf (sh_index (us ! i)))"
  shows "gf (interpolar us (map (coeficiente_lagrange us) [0..<k]) pos) = F 0"
proof -
  let ?x = "\<lambda>j. gf (sh_index (us ! j))"
  let ?A = "?x ` {..<length us}"
  have inj: "inj_on ?x {..<length us}"
    using dist by (auto simp: inj_on_def distinct_conv_nth)
  have "gf (interpolar us (map (coeficiente_lagrange us) [0..<k]) pos) =
      (\<Sum>i<k. F (?x i) * lagrange_basis ?A (?x i) 0)"
    using coeficiente_lagrange_eq [OF dist] vals k
    by (simp add: interpolar_def gf_foldl_sum gf_simps atLeast0LessThan)
  also have "\<dots> = (\<Sum>a\<in>?A. F a * lagrange_basis ?A a 0)"
    using inj k by (simp add: sum.reindex comp_def)
  also have "\<dots> = F 0"
    using F inj k by (intro lagrange_at_zero [symmetric]) (simp_all add: card_image)
  finally show ?thesis .
qed

section \<open>Any \<open>k\<close> shares give the secret\<close>

lemma combine_shares:
  assumes k: "2 \<le> unat k" and len: "length css = length payload" "\<forall>cs \<in> set css. length cs = unat k - 1"
    and tag: "payload = secret @ etiqueta sha secret" "length (etiqueta sha secret) = TAG_LEN"
    and us: "unat k \<le> length us" "distinct (map sh_index us)" "\<forall>s \<in> set us. sh_index s \<noteq> 0 \<and>
      sh_threshold s = k \<and> sh_y s = map2 (\<lambda>cs b. evaluar cs b (sh_index s)) css payload"
  shows "combine sha us = Some (Inr secret)"
proof -
  let ?k = "unat k"
  obtain p rest where p: "us = p # rest" using us(1) k by (cases us) auto
  let ?us = "take ?k us"
  have kus: "length ?us = ?k" using us(1) by simp
  have dist: "distinct (map sh_index ?us)" using us(2) by (simp add: take_map [symmetric])
  have y: "sh_y s ! pos = evaluar (css ! pos) (payload ! pos) (sh_index s)"
    if "s \<in> set us" "pos < length payload" for s pos
    using us(3) that len(1) by simp
  have "gf (interpolar ?us (map (coeficiente_lagrange ?us) [0..<?k]) pos) = gf (payload ! pos)"
    if pos: "pos < length payload" for pos
  proof -
    let ?F = "poly_eval (gf (payload ! pos) # map gf (css ! pos))"
    have "css ! pos \<in> set css" using pos len(1) by simp
    then have "length (css ! pos) = ?k - 1" using len(2) by blast
    then have "poly_fun ?k ?F" using k by (intro poly_funI [OF _ refl]) simp
    moreover have "gf (sh_y (?us ! i) ! pos) = ?F (gf (sh_index (?us ! i)))" if "i < ?k" for i
    proof -
      have "?us ! i \<in> set us" using that kus by (metis in_set_takeD nth_mem)
      from y [OF this pos] show ?thesis by (simp only: gf_evaluar)
    qed
    ultimately have "gf (interpolar ?us (map (coeficiente_lagrange ?us) [0..<?k]) pos) = ?F 0"
      by (rule interpolar_eq [OF dist kus])
    then show ?thesis by simp
  qed
  then have rec: "map (interpolar ?us (map (coeficiente_lagrange ?us) [0..<?k])) [0..<length payload]
      = payload"
    by (intro nth_equalityI) simp_all
  have "length (sh_y p) = length payload" using us(3) p len(1) by simp
  moreover have "sh_threshold p = k" using us(3) p by simp
  moreover have "\<not> (\<exists>s \<in> set us. sh_threshold s \<noteq> k \<or> length (sh_y s) \<noteq> length payload \<or> sh_index s = 0)"
    using us(3) len(1) by simp
  moreover have "\<not> indices_repetidos us" using us(2) by (simp add: indices_repetidos_iff)
  ultimately show ?thesis
    using us(1) p rec tag
    by (simp add: combine_def Let_def ct_eq_iff)
qed

lemma etiqueta_length: "(\<And>m. length (sha m) = 32) \<Longrightarrow> length (etiqueta sha secret) = TAG_LEN"
  by (simp add: etiqueta_def TAG_LEN_def)

lemma combine_split:
  assumes sha: "\<And>m. length (sha m) = 32" and f: "fuente_ok fuente"
    and split: "split sha fuente secret k n r = (Inr shares, r')"
    and us: "set us \<subseteq> set shares" "distinct (map sh_index us)" "unat k \<le> length us"
  shows "combine sha us = Some (Inr secret)"
proof -
  obtain css where k: "MIN_THRESHOLD \<le> k"
      and css: "length css = length (secret @ etiqueta sha secret)"
      "\<forall>cs \<in> set css. length cs = unat k - 1"
      and shares: "shares = map (\<lambda>i. \<lparr>sh_threshold = k, sh_index = of_nat i,
       sh_y = map2 (\<lambda>cs b. evaluar cs b (of_nat i)) css (secret @ etiqueta sha secret)\<rparr>)
       [1..<unat n + 1]"
    by (rule split_Inr [OF split f])
  have "(of_nat i :: u8) \<noteq> 0" if "i \<in> set [1..<unat n + 1]" for i
    using that unat_u8_lt [of n] unat_of_nat_u8 [of i] by force
  then show ?thesis
    using us k by (intro combine_shares [OF _ css refl etiqueta_length [OF sha]])
      (auto simp: shares MIN_THRESHOLD_def word_le_nat_alt)
qed

section \<open>Fewer shares tell nothing\<close>

text \<open>
  For any \<open>k - 1\<close> share values and any candidate byte there is exactly one choice of coefficients
  that produces them: with uniform coefficients the values say nothing about the byte.
\<close>

lemma shares_hide:
  assumes xs: "distinct xs" "0 \<notin> set xs" "length xs = m" and ys: "length ys = m"
  shows "\<exists>!cs. length cs = m \<and> map (evaluar cs b) xs = ys"
proof -
  let ?A = "insert 0 (gf ` set xs)"
  have card: "card (gf ` set xs) = m"
    using xs by (subst card_image) (auto simp: inj_on_def distinct_card)
  have zero: "0 \<notin> gf ` set xs" using xs(2) gf_simps(4) by (metis gf_inj image_iff)
  then have cardA: "card ?A = Suc m" using card by simp
  define v where "v a = (if a = 0 then gf b else gf (ys ! (THE i. i < m \<and> gf (xs ! i) = a)))" for a
  have v: "v (gf (xs ! i)) = gf (ys ! i)" if "i < m" for i
  proof -
    have "(THE j. j < m \<and> gf (xs ! j) = gf (xs ! i)) = i"
      using that xs by (intro the_equality) (auto simp: nth_eq_iff_index_eq)
    moreover have "gf (xs ! i) \<noteq> 0" using zero that xs(3) by (metis imageI nth_mem)
    ultimately show ?thesis by (simp add: v_def)
  qed
  obtain ds where ds: "length ds = Suc m" "\<forall>a \<in> ?A. poly_eval ds a = v a"
    using interpolation_exists [of ?A "Suc m" v] cardA by auto
  then obtain d es where des: "ds = d # es" "length es = m" by (auto simp: length_Suc_conv)
  have "d = gf b" using ds(2) des by (simp add: v_def)
  then have ev: "gf (evaluar (map byte_of es) b (xs ! i)) = gf (ys ! i)" if "i < m" for i
  proof -
    have "gf (xs ! i) \<in> ?A" using that xs(3) by simp
    then have "poly_eval ds (gf (xs ! i)) = v (gf (xs ! i))" using ds(2) by blast
    moreover have "map gf (map byte_of es) = es" by (simp add: comp_def)
    ultimately show ?thesis
      using v [OF that] des \<open>d = gf b\<close> by (simp only: gf_evaluar)
  qed
  show ?thesis
  proof (rule ex1I [of _ "map byte_of es"])
    show "length (map byte_of es) = m \<and> map (evaluar (map byte_of es) b) xs = ys"
      using ev des xs(3) ys by (auto intro!: nth_equalityI)
  next
    fix cs
    assume cs: "length cs = m \<and> map (evaluar cs b) xs = ys"
    have "gf b # map gf cs = gf b # es"
    proof (rule poly_eval_unique_coeffs [of ?A])
      show "length (gf b # map gf cs) \<le> card ?A" using cs by (simp add: cardA)
      show "poly_eval (gf b # map gf cs) a = poly_eval (gf b # es) a" if "a \<in> ?A" for a
      proof (cases "a = 0")
        case False
        with that obtain i where i: "i < m" "a = gf (xs ! i)" using xs(3) by (auto simp: in_set_conv_nth)
        have "evaluar cs b (xs ! i) = ys ! i" using cs i xs(3) by (metis nth_map)
        then have "poly_eval (gf b # map gf cs) a = gf (ys ! i)"
          unfolding i(2) by (simp add: gf_evaluar [symmetric] del: poly_eval.simps)
        moreover have "poly_eval ds a = v a" using ds(2) that by blast
        then have "poly_eval (gf b # es) a = gf (ys ! i)"
          using des \<open>d = gf b\<close> v [OF i(1)] by (simp only: i(2))
        ultimately show ?thesis by simp
      qed simp
    qed (use cs des in simp_all)
    then have "map byte_of (map gf cs) = map byte_of es" by simp
    then show "cs = map byte_of es" by (simp add: comp_def)
  qed
qed

text \<open>
  So, for the values seen at some points, the coefficients of one byte and those of another one correspond
  one to one.
\<close>

definition coeficientes :: "nat \<Rightarrow> bytes set" where
  "coeficientes m = {cs. length cs = m}"

lemma finite_coeficientes: "finite (coeficientes m)"
  using finite_lists_length_eq [of "UNIV :: u8 set" m] by (simp add: coeficientes_def)

lemma coeficientes_corresponden:
  assumes xs: "distinct xs" "0 \<notin> set xs" "length xs = m"
  shows "\<exists>f. bij_betw f (coeficientes m) (coeficientes m) \<and>
    (\<forall>cs \<in> coeficientes m. map (evaluar (f cs) b') xs = map (evaluar cs b) xs)"
proof -
  have bij: "bij_betw (\<lambda>cs. map (evaluar cs b) xs) (coeficientes m) (coeficientes m)" for b
    unfolding bij_betw_def
  proof
    show inj: "inj_on (\<lambda>cs. map (evaluar cs b) xs) (coeficientes m)"
    proof (rule inj_onI)
      fix cs ds assume c: "cs \<in> coeficientes m" "ds \<in> coeficientes m"
        and e: "map (evaluar cs b) xs = map (evaluar ds b) xs"
      have "\<exists>!as. length as = m \<and> map (evaluar as b) xs = map (evaluar ds b) xs"
        by (rule shares_hide [OF xs]) (simp add: xs(3))
      with c e show "cs = ds" by (auto simp: coeficientes_def)
    qed
    show "(\<lambda>cs. map (evaluar cs b) xs) ` coeficientes m = coeficientes m"
      by (rule endo_inj_surj [OF finite_coeficientes _ inj]) (auto simp: coeficientes_def xs(3))
  qed
  let ?f = "inv_into (coeficientes m) (\<lambda>cs. map (evaluar cs b') xs) \<circ> (\<lambda>cs. map (evaluar cs b) xs)"
  have "bij_betw ?f (coeficientes m) (coeficientes m)"
    by (rule bij_betw_trans [OF bij bij_betw_inv_into [OF bij]])
  moreover have "map (evaluar (?f cs) b') xs = map (evaluar cs b) xs" if "cs \<in> coeficientes m" for cs
    using bij_betw_inv_into_right [OF bij [of b'], of "map (evaluar cs b) xs"] that
      bij_betwE [OF bij [of b]] by simp
  ultimately show ?thesis by blast
qed

text \<open>The draws of a whole split: one list of \<open>m\<close> coefficients for each of \<open>l\<close> bytes.\<close>

definition tiradas :: "nat \<Rightarrow> nat \<Rightarrow> bytes list set" where
  "tiradas m l = {css. set css \<subseteq> coeficientes m \<and> length css = l}"

lemma tiradas_corresponden:
  assumes xs: "distinct xs" "0 \<notin> set xs" "length xs = m" and l: "length bs = l" "length bs' = l"
  shows "\<exists>f. bij_betw f (tiradas m l) (tiradas m l) \<and>
    (\<forall>css \<in> tiradas m l. \<forall>i < l. \<forall>x \<in> set xs. evaluar (f css ! i) (bs' ! i) x = evaluar (css ! i) (bs ! i) x)"
proof -
  have "\<forall>b b'. \<exists>f. bij_betw f (coeficientes m) (coeficientes m) \<and>
      (\<forall>cs \<in> coeficientes m. map (evaluar (f cs) b') xs = map (evaluar cs b) xs)"
    using coeficientes_corresponden [OF xs] by blast
  then obtain g where g: "\<And>b b'. bij_betw (g b b') (coeficientes m) (coeficientes m)"
      "\<And>b b' cs. cs \<in> coeficientes m \<Longrightarrow> map (evaluar (g b b' cs) b') xs = map (evaluar cs b) xs"
    by metis
  let ?f = "\<lambda>css. map (\<lambda>i. g (bs ! i) (bs' ! i) (css ! i)) [0..<l]"
  have el: "css ! i \<in> coeficientes m" if "css \<in> tiradas m l" "i < l" for css i
    using that by (auto simp: tiradas_def)
  have "inj_on ?f (tiradas m l)"
  proof (rule inj_onI)
    fix css dss assume c: "css \<in> tiradas m l" "dss \<in> tiradas m l" and e: "?f css = ?f dss"
    show "css = dss"
    proof (rule nth_equalityI)
      show "length css = length dss" using c by (simp add: tiradas_def)
      fix i assume "i < length css"
      then have i: "i < l" using c by (simp add: tiradas_def)
      then have "g (bs ! i) (bs' ! i) (css ! i) = g (bs ! i) (bs' ! i) (dss ! i)"
        using arg_cong [OF e, of "\<lambda>zs. zs ! i"] by simp
      then show "css ! i = dss ! i"
        using bij_betw_imp_inj_on [OF g(1)] el [OF c(1) i] el [OF c(2) i] by (metis inj_onD)
    qed
  qed
  moreover have "?f ` tiradas m l \<subseteq> tiradas m l"
    using el bij_betwE [OF g(1)] by (auto simp: tiradas_def)
  moreover have "finite (tiradas m l)"
    unfolding tiradas_def by (rule finite_lists_length_eq [OF finite_coeficientes])
  ultimately have "bij_betw ?f (tiradas m l) (tiradas m l)" by (simp add: bij_betw_def endo_inj_surj)
  moreover have "evaluar (?f css ! i) (bs' ! i) x = evaluar (css ! i) (bs ! i) x"
    if "css \<in> tiradas m l" "i < l" "x \<in> set xs" for css i x
    using g(2) [OF el [OF that(1,2)], of "bs ! i" "bs' ! i"] that(2,3) by simp
  ultimately show ?thesis by blast
qed

text \<open>A source that answers with given draws, and what \<open>split\<close> makes of them.\<close>

definition cinta :: "bytes list fuente" where
  "cinta css n =
     (case css of
        [] \<Rightarrow> (Inl None, [])
      | cs # resto \<Rightarrow> if length cs = n then (Inr cs, resto) else (Inl None, css))"

lemma llenar_cinta:
  "length cs = n \<Longrightarrow> llenar cinta n (cs # css) = (if salud_de cs = None then (Inr cs, css)
    else (Inl \<lparr>se_bytes = n, se_intentos = 1, se_codigo_os = None, se_salud = salud_de cs\<rparr>, css))"
  by (auto simp: llenar_def llenar_desde.simps INTENTOS_def cinta_def split: option.split)

lemma salud_corta: "length cs < 8 \<Longrightarrow> salud_de cs = None"
  by (auto simp: salud_de_spec racha_de_ocho_def)

lemma split_loop_cinta:
  assumes "css \<in> tiradas m (length payload)"
  shows "split_loop cinta m payload fuera css = (Inr out, q) \<Longrightarrow>
      q = [] \<and> out = map (\<lambda>s. s\<lparr>sh_y := sh_y s @ map2 (\<lambda>cs b. evaluar cs b (sh_index s)) css payload\<rparr>) fuera"
    and "m < 8 \<Longrightarrow> \<exists>out. split_loop cinta m payload fuera css = (Inr out, [])"
  using assms
proof (induction payload arbitrary: css fuera)
  case Nil
  { case 1 then show ?case by (simp add: tiradas_def) }
  { case 2 then show ?case by (simp add: tiradas_def) }
next
  case (Cons b payload)
  have split_css: "\<exists>cs resto. css = cs # resto \<and> length cs = m \<and> resto \<in> tiradas m (length payload)"
    if "css \<in> tiradas m (length (b # payload))" for css
    using that by (cases css) (auto simp: tiradas_def coeficientes_def)
  { case 1
    obtain cs resto where c: "css = cs # resto" "length cs = m" "resto \<in> tiradas m (length payload)"
      using split_css [OF 1(2)] by blast
    from Cons.IH(1) [OF _ c(3)] 1(1) show ?case
      unfolding c(1) by (fastforce simp: llenar_cinta [OF c(2)] split: if_splits) }
  { case 2
    obtain cs resto where c: "css = cs # resto" "length cs = m" "resto \<in> tiradas m (length payload)"
      using split_css [OF 2(2)] by blast
    from Cons.IH(2) [OF 2(1) c(3)] show ?case
      unfolding c(1) by (simp add: llenar_cinta [OF c(2)] salud_corta c(2) 2(1)) }
qed

lemma split_cinta:
  assumes p: "secret \<noteq> []" "MIN_THRESHOLD \<le> k" "k \<le> n"
    and css: "css \<in> tiradas (unat k - 1) (length (secret @ etiqueta sha secret))"
  shows "split sha cinta secret k n css = (Inr shares, q) \<Longrightarrow>
      q = [] \<and> shares = map (\<lambda>i. \<lparr>sh_threshold = k, sh_index = of_nat i,
       sh_y = map2 (\<lambda>cs b. evaluar cs b (of_nat i)) css (secret @ etiqueta sha secret)\<rparr>) [1..<unat n + 1]"
    and "unat k \<le> 8 \<Longrightarrow> \<exists>shares. split sha cinta secret k n css = (Inr shares, [])"
proof -
  have s: "split sha cinta secret k n css = split_loop cinta (unat k - 1) (secret @ etiqueta sha secret)
      (map (\<lambda>i. \<lparr>sh_threshold = k, sh_index = of_nat i, sh_y = []\<rparr>) [1..<unat n + 1]) css"
    using p by (simp add: split_def Let_def not_less [symmetric])
  show "q = [] \<and> shares = map (\<lambda>i. \<lparr>sh_threshold = k, sh_index = of_nat i,
       sh_y = map2 (\<lambda>cs b. evaluar cs b (of_nat i)) css (secret @ etiqueta sha secret)\<rparr>) [1..<unat n + 1]"
    if "split sha cinta secret k n css = (Inr shares, q)"
    using split_loop_cinta(1) [OF css that [unfolded s]] by (simp add: comp_def del: upt_Suc)
  show "\<exists>shares. split sha cinta secret k n css = (Inr shares, [])" if "unat k \<le> 8"
    unfolding s by (rule split_loop_cinta(2) [OF css]) (use that p(2) in \<open>simp add: MIN_THRESHOLD_def word_le_nat_alt\<close>)
qed

text \<open>Fewer positions than the threshold are part of a list of as many as the threshold less one.\<close>

lemma completar:
  assumes "distinct xs" "set xs \<subseteq> {..<n}" "length xs \<le> m" "m < n"
  shows "\<exists>zs. distinct zs \<and> set zs \<subseteq> {..<n} \<and> length zs = m \<and> set xs \<subseteq> set zs"
proof -
  have c: "card (set xs) \<le> m" "card {..<n} \<ge> m" using assms by (simp_all add: distinct_card)
  from exists_subset_between [OF c assms(2) finite_lessThan]
  obtain B where B: "set xs \<subseteq> B" "B \<subseteq> {..<n}" "card B = m" by blast
  then have "finite B" by (auto intro: finite_subset)
  then obtain zs where "set zs = B" "distinct zs" using finite_distinct_list by blast
  with B show ?thesis by (intro exI [of _ zs]) (simp add: distinct_card [symmetric])
qed

lemma split_hides:
  assumes sha: "\<And>m. length (sha m) = 32"
    and p: "secret \<noteq> []" "2 \<le> k" "k \<le> n" and same: "length secret' = length secret"
    and xs: "distinct xs" "set xs \<subseteq> {..<unat n}" "length xs < unat k"
  defines "T \<equiv> tiradas (unat k - 1) (length secret + TAG_LEN)"
  shows "\<exists>f. bij_betw f T T \<and>
    (\<forall>css \<in> T. \<forall>ss ss' q q'. split sha cinta secret k n css = (Inr ss, q) \<longrightarrow>
      split sha cinta secret' k n (f css) = (Inr ss', q') \<longrightarrow> map ((!) ss) xs = map ((!) ss') xs)"
proof -
  let ?P = "secret @ etiqueta sha secret" and ?P' = "secret' @ etiqueta sha secret'"
  have P: "length ?P = length secret + TAG_LEN" "length ?P' = length secret + TAG_LEN"
    using same by (simp_all add: etiqueta_length [OF sha])
  have k: "MIN_THRESHOLD \<le> k" "unat k \<le> unat n" using p(2,3) by (simp_all add: MIN_THRESHOLD_def word_le_nat_alt)
  then have "unat k - 1 < unat n" using p(2) by (simp add: word_le_nat_alt)
  then obtain zs where zs: "distinct zs" "set zs \<subseteq> {..<unat n}" "length zs = unat k - 1" "set xs \<subseteq> set zs"
    using completar [OF xs(1,2), of "unat k - 1"] xs(3) by fastforce
  let ?zs = "map (\<lambda>z. of_nat (Suc z)) zs :: u8 list"
  have u: "unat (of_nat (Suc z) :: u8) = Suc z" if "z \<in> set zs" for z
    using that zs(2) unat_u8_lt [of n] by (intro unat_of_nat_u8) fastforce
  have "distinct ?zs" using zs(1) u by (auto simp: distinct_map intro!: inj_onI) (metis nat.inject)
  moreover have "0 \<notin> set ?zs"
  proof
    assume "0 \<in> set ?zs"
    then obtain z where "z \<in> set zs" "(of_nat (Suc z) :: u8) = 0" by (auto simp: image_iff)
    with u [of z] show False by simp
  qed
  ultimately obtain f where f: "bij_betw f T T"
      "\<forall>css \<in> T. \<forall>i < length ?P. \<forall>x \<in> set ?zs. evaluar (f css ! i) (?P' ! i) x = evaluar (css ! i) (?P ! i) x"
    unfolding T_def using tiradas_corresponden [of ?zs "unat k - 1" ?P "length secret + TAG_LEN" ?P'] P zs(3)
    by auto
  have "map ((!) ss) xs = map ((!) ss') xs"
    if c: "css \<in> T" and s: "split sha cinta secret k n css = (Inr ss, q)"
      "split sha cinta secret' k n (f css) = (Inr ss', q')" for css ss ss' q q'
  proof (rule map_cong [OF refl])
    fix x assume x: "x \<in> set xs"
    then have x': "x < unat n" "x \<in> set zs" using xs(2) zs(4) by auto
    have fc: "f css \<in> T" using bij_betwE [OF f(1)] c by blast
    have ne: "secret' \<noteq> []" using same p(1) by auto
    have len: "length css = length ?P" "length (f css) = length ?P'"
      using c fc P by (simp_all add: T_def tiradas_def)
    have "map2 (\<lambda>cs b. evaluar cs b (of_nat (Suc x))) css ?P =
        map2 (\<lambda>cs b. evaluar cs b (of_nat (Suc x))) (f css) ?P'"
    proof (rule nth_equalityI)
      fix i assume "i < length (map2 (\<lambda>cs b. evaluar cs b (of_nat (Suc x))) css ?P)"
      then show "map2 (\<lambda>cs b. evaluar cs b (of_nat (Suc x))) css ?P ! i =
          map2 (\<lambda>cs b. evaluar cs b (of_nat (Suc x))) (f css) ?P' ! i"
        using f(2) c x'(2) len P by (simp del: of_nat_Suc)
    qed (use len P in simp)
    then show "ss ! x = ss' ! x"
      using split_cinta(1) [OF p(1) k(1) p(3) _ s(1)] split_cinta(1) [OF ne k(1) p(3) _ s(2)] c fc P x'(1)
      by (simp add: T_def del: of_nat_Suc upt_Suc)
  qed
  with f(1) show ?thesis by blast
qed

text \<open>
  From nine shares on, the health test of the source shows: it never delivers eight equal coefficients, so
  the values that such a polynomial has at eight points exclude its byte, and no other.
\<close>

lemma health_test_excludes_a_byte:
  assumes "distinct xs" "0 \<notin> set xs" "length xs = 8"
    and "length cs = 8" "map (evaluar cs b) xs = map (evaluar (replicate 8 c) b) xs"
  shows "salud_de cs \<noteq> None"
proof -
  have "\<exists>!cs. length cs = 8 \<and> map (evaluar cs b) xs = map (evaluar (replicate 8 c) b) xs"
    by (rule shares_hide [OF assms(1,2,3)]) (simp add: assms(3))
  then have "cs = replicate 8 c" using assms(4,5) by (auto simp del: replicate.simps)
  moreover have "racha_de_ocho ([] @ replicate 8 c @ [])" unfolding racha_de_ocho_def by blast
  ultimately show ?thesis by (simp add: salud_de_spec del: replicate.simps)
qed

section \<open>No panic\<close>

lemma combine_total:
  assumes "\<forall>s \<in> set us. TAG_LEN \<le> length (sh_y s)"
  shows "\<exists>x. combine sha us = Some x"
proof (cases us)
  case (Cons p ps)
  then have "\<not> length (sh_y p) < TAG_LEN" using assms by simp
  then show ?thesis unfolding combine_def Let_def Cons list.case length_map length_upt minus_nat.diff_0
    by (simp only: if_False) (simp only: option.inject ex_simps split: if_split, blast)
qed (simp add: combine_def)

text \<open>What \<open>split\<close> hands out is well-formed and has the indices from one on.\<close>

lemma split_shares:
  assumes sha: "\<And>m. length (sha m) = 32" and f: "fuente_ok fuente"
    and split: "split sha fuente secret k n r = (Inr shares, r')"
  shows "distinct (map sh_index shares)"
    and "length secret + TAG_LEN < 2 ^ 32 \<Longrightarrow> s \<in> set shares \<Longrightarrow> share_ok s"
proof -
  obtain css where k: "secret \<noteq> []" "MIN_THRESHOLD \<le> k"
      and css: "length css = length (secret @ etiqueta sha secret)"
      and shares: "shares = map (\<lambda>i. \<lparr>sh_threshold = k, sh_index = of_nat i,
       sh_y = map2 (\<lambda>cs b. evaluar cs b (of_nat i)) css (secret @ etiqueta sha secret)\<rparr>)
       [1..<unat n + 1]"
    by (rule split_Inr [OF split f])
  have i: "unat (of_nat i :: u8) = i" if "i \<in> set [1..<unat n + 1]" for i
    using that unat_u8_lt [of n] by (intro unat_of_nat_u8) auto
  have "inj_on (of_nat :: nat \<Rightarrow> u8) (set [1..<unat n + 1])" by (rule inj_on_inverseI [where g = unat]) (rule i)
  then show "distinct (map sh_index shares)" by (simp add: shares comp_def distinct_map del: upt_Suc)
  have "(of_nat i :: u8) \<noteq> 0" if "i \<in> set [1..<unat n + 1]" for i using i [OF that] that by force
  moreover have "0 < length secret" using k(1) by simp
  moreover have "length (etiqueta sha secret) = TAG_LEN" by (rule etiqueta_length [OF sha])
  ultimately show "share_ok s" if "length secret + TAG_LEN < 2 ^ 32" "s \<in> set shares"
    using that k(2) css by (auto simp: share_ok_def shares simp del: upt_Suc)
qed

lemma demo_split_loop: "\<exists>out r'. split_loop demo_fuente m payload fuera r = (Inr out, r')"
proof (induction payload arbitrary: fuera r)
  case (Cons b payload)
  show ?case unfolding split_loop.simps demo_fill prod.case sum.case by (rule Cons.IH)
qed simp

section \<open>Properties\<close>

text \<open>
  C38. Whatever coefficients were drawn, any \<open>k\<close> or more different shares of a split, in any
  order, combine to the secret; and a share survives its serialisation.
\<close>
theorem shamir_any_k_shares:
  assumes "\<And>m. length (sha m) = 32" and "fuente_ok fuente"
    and "split sha fuente secret k n r = (Inr shares, r')"
    and "set us \<subseteq> set shares" and "distinct (map sh_index us)" and "unat k \<le> length us"
    and "length secret + TAG_LEN < 2 ^ 32"
  shows "combine sha us = Some (Inr secret) \<and> (\<forall>s \<in> set us. share_from_bytes (share_to_bytes s) = Inr s)"
  using combine_split [OF assms(1-6)] split_shares(2) [OF assms(1-3,7)] assms(4) share_from_to_bytes by blast

text \<open>Two of three shares, the last one first.\<close>
theorem shamir_any_k_shares_witness:
  "\<exists>shares r'. split (\<lambda>_. replicate 32 7) demo_fuente [1, 2, 3] 2 3 0 = (Inr shares, r') \<and>
    combine (\<lambda>_. replicate 32 7) [shares ! 2, shares ! 0] = Some (Inr [1, 2, 3])"
proof -
  let ?sha = "\<lambda>_ :: bytes. replicate 32 (7 :: u8)"
  have "\<exists>shares r'. split ?sha demo_fuente [1, 2, 3] 2 3 0 = (Inr shares, r')"
    unfolding split_def Let_def by (simp add: MIN_THRESHOLD_def demo_split_loop del: split_loop.simps)
  then obtain shares r' where s: "split ?sha demo_fuente [1, 2, 3] 2 3 0 = (Inr shares, r')"
    by blast
  obtain css where sh: "shares = map (\<lambda>i. \<lparr>sh_threshold = 2, sh_index = of_nat i,
       sh_y = map2 (\<lambda>cs b. evaluar cs b (of_nat i)) css ([1, 2, 3] @ etiqueta ?sha [1, 2, 3])\<rparr>)
       [1..<unat (3 :: u8) + 1]"
    by (rule split_Inr [OF s demo_fuente_ok]) blast
  then have "[shares ! 2, shares ! 0] = [shares ! 2, shares ! 0]" "length shares = 3"
      "sh_index (shares ! 2) = 3" "sh_index (shares ! 0) = 1"
    by simp_all
  then have "combine ?sha [shares ! 2, shares ! 0] = Some (Inr [1, 2, 3])"
    using shamir_any_k_shares [OF _ demo_fuente_ok s, of "[shares ! 2, shares ! 0]"] by (simp add: TAG_LEN_def)
  with s show ?thesis by blast
qed

text \<open>
  C39. Perfect secrecy of a split.  Take any two secrets of one length and any shares that are fewer than
  the threshold.  The draws of coefficients correspond one to one in such a way that a split of the first
  secret under one draw and a split of the second one under the corresponding draw hand out the same bytes
  in those shares, tag included: with uniform draws they say nothing about which secret it is.  With a
  threshold of at most eight every draw is accepted and used up; beyond, the health test of the source
  refuses those with eight equal bytes in a row, and a refused draw gives no shares.
\<close>
theorem shamir_fewer_shares_tell_nothing:
  assumes "\<And>m. length (sha m) = 32" and "secret \<noteq> []" and "2 \<le> k" and "k \<le> n"
    and "length secret' = length secret"
    and "distinct xs" and "set xs \<subseteq> {..<unat n}" and "length xs < unat k"
  defines "T \<equiv> tiradas (unat k - 1) (length secret + TAG_LEN)"
  shows "(\<exists>f. bij_betw f T T \<and>
    (\<forall>css \<in> T. \<forall>ss ss' q q'. split sha cinta secret k n css = (Inr ss, q) \<longrightarrow>
      split sha cinta secret' k n (f css) = (Inr ss', q') \<longrightarrow> map ((!) ss) xs = map ((!) ss') xs)) \<and>
    (unat k \<le> 8 \<longrightarrow> (\<forall>css \<in> T. \<exists>ss ss'. split sha cinta secret k n css = (Inr ss, []) \<and>
      split sha cinta secret' k n css = (Inr ss', [])))"
proof (intro conjI impI ballI)
  fix css assume k: "unat k \<le> 8" and c: "css \<in> T"
  have "secret' \<noteq> []" "MIN_THRESHOLD \<le> k" using assms(2,3,5) by (auto simp: MIN_THRESHOLD_def)
  then show "\<exists>ss ss'. split sha cinta secret k n css = (Inr ss, []) \<and> split sha cinta secret' k n css = (Inr ss', [])"
    using split_cinta(2) [OF assms(2) _ assms(4) _ k, of css sha] split_cinta(2) [OF _ _ assms(4) _ k, of secret' css sha]
      c by (simp add: T_def etiqueta_length [OF assms(1)] assms(5))
qed (unfold T_def, rule split_hides [OF assms(1-8)])

text \<open>Two of three shares are needed; the second share alone, for the secrets 5 and 6.\<close>

theorem shamir_fewer_shares_tell_nothing_witness:
  "\<exists>css ss ss'. split (\<lambda>_. replicate 32 7) cinta [5] 2 3 (replicate 9 [1]) = (Inr ss, []) \<and>
    split (\<lambda>_. replicate 32 7) cinta [6] 2 3 css = (Inr ss', []) \<and> ss ! 1 = ss' ! 1"
proof -
  let ?sha = "\<lambda>_ :: bytes. replicate 32 (7 :: u8)"
  let ?T = "tiradas (unat (2 :: u8) - 1) (length [5 :: u8] + TAG_LEN)"
  have t: "replicate 9 [1] \<in> ?T" by (auto simp: tiradas_def coeficientes_def TAG_LEN_def)
  have len: "\<And>m. length (?sha m) = 32" "[5 :: u8] \<noteq> []" "(2 :: u8) \<le> 2" "(2 :: u8) \<le> 3" "length [6 :: u8] = length [5 :: u8]"
    "distinct [1 :: nat]" "set [1 :: nat] \<subseteq> {..<unat (3 :: u8)}" "length [1 :: nat] < unat (2 :: u8)"
    by (simp_all add: word_le_nat_alt)
  note hecho = shamir_fewer_shares_tell_nothing [of ?sha "[5]" 2 3 "[6]" "[1]", OF len]
  from hecho obtain f where f: "bij_betw f ?T ?T"
      "\<forall>css \<in> ?T. \<forall>ss ss' q q'. split ?sha cinta [5] 2 3 css = (Inr ss, q) \<longrightarrow>
        split ?sha cinta [6] 2 3 (f css) = (Inr ss', q') \<longrightarrow> map ((!) ss) [1] = map ((!) ss') [1]"
    by blast
  have g: "\<forall>css \<in> ?T. \<exists>ss ss'. split ?sha cinta [5] 2 3 css = (Inr ss, []) \<and> split ?sha cinta [6] 2 3 css = (Inr ss', [])"
    using hecho by simp
  obtain ss where ss: "split ?sha cinta [5] 2 3 (replicate 9 [1]) = (Inr ss, [])" using g t by blast
  have ft: "f (replicate 9 [1]) \<in> ?T" using bij_betwE [OF f(1)] t by blast
  obtain ss' where ss': "split ?sha cinta [6] 2 3 (f (replicate 9 [1])) = (Inr ss', [])" using g ft by blast
  have "map ((!) ss) [1] = map ((!) ss') [1]" using f(2) t ss ss' by blast
  with ss ss' show ?thesis by auto
qed

text \<open>
  The reader of shares takes untrusted bytes: it accepts exactly the serialisations of shares
  with a threshold of at least two, an index other than zero and more than a tag of payload, and
  it answers everything else with one error; and no list of shares that it accepted makes
  \<open>combine\<close> panic.
\<close>
lemma share_reader_is_exact:
  "(share_from_bytes b = Inr s \<longleftrightarrow> share_ok s \<and> b = share_to_bytes s) \<and>
   (share_from_bytes b = Inl e \<longleftrightarrow> e = Malformed \<and> b \<notin> share_to_bytes ` {s. share_ok s}) \<and>
   (\<exists>x. combine sha (map (\<lambda>b. projr (share_from_bytes b))
      (filter (\<lambda>b. \<not> isl (share_from_bytes b)) bs)) = Some x)"
proof (intro conjI)
  show 1: "share_from_bytes b = Inr s \<longleftrightarrow> share_ok s \<and> b = share_to_bytes s" for s
    by (rule shares.dec_iff)
  have "share_from_bytes b = Inl e \<Longrightarrow> e = Malformed"
    by (auto simp: share_from_bytes_def Let_def split: if_splits)
  moreover have "share_from_bytes b = Inl Malformed \<or> (\<exists>s. share_from_bytes b = Inr s)"
    by (auto simp: share_from_bytes_def Let_def)
  ultimately show "share_from_bytes b = Inl e \<longleftrightarrow> e = Malformed \<and> b \<notin> share_to_bytes ` {s. share_ok s}"
    using 1 by (metis (no_types, lifting) Inl_Inr_False image_iff mem_Collect_eq)
  show "\<exists>x. combine sha (map (\<lambda>b. projr (share_from_bytes b))
      (filter (\<lambda>b. \<not> isl (share_from_bytes b)) bs)) = Some x"
  proof (rule combine_total, intro ballI)
    fix s
    assume "s \<in> set (map (\<lambda>b. projr (share_from_bytes b)) (filter (\<lambda>b. \<not> isl (share_from_bytes b)) bs))"
    then obtain c where "\<not> isl (share_from_bytes c)" "s = projr (share_from_bytes c)" by auto
    then have "share_from_bytes c = Inr s" by (metis sum.collapse(2))
    then have "share_ok s" using share_from_bytes_Inr by blast
    then show "TAG_LEN \<le> length (sh_y s)" by (simp add: share_ok_def)
  qed
qed

end
