(* ===== verification/Stream.thy ===== *)
theory Stream
  imports Api Instances Roundtrip
begin

text \<open>
  \<^verbatim>\<open>src/src/stream.rs\<close>: encryption of a stream by chunks (container QST1).  The nonce of a
  chunk is \<open>prefix | counter | final\<close>, the header is the associated data of every chunk.

  A \<^verbatim>\<open>Read\<close> is the list of what its calls will do (\<open>suceso\<close>: hand out some bytes, be
  interrupted, fail); at the end of the list it is at end of file.  A \<^verbatim>\<open>Write\<close> is its
  \<open>write_all\<close>, a parameter.  The outer \<open>option\<close> is a panic.
\<close>

section \<open>Types and constants\<close>

definition stream_MAGIC :: bytes where
  "stream_MAGIC = [0x51, 0x53, 0x54, 0x31]"

definition stream_VERSION :: u8 where
  "stream_VERSION = 1"

definition NONCE_PREFIX_LEN :: nat where
  "NONCE_PREFIX_LEN = 19"

definition stream_TAG_LEN :: nat where
  "stream_TAG_LEN = 16"

definition stream_HEADER_LEN :: nat where
  "stream_HEADER_LEN = 4 + 1 + 1 + (4 * 3) + SALT_LEN + NONCE_PREFIX_LEN + 4"

text \<open>\<^verbatim>\<open>b"quipu/stream/v1"\<close>.\<close>

definition STREAM_INFO_PREFIX :: bytes where
  "STREAM_INFO_PREFIX =
     [0x71, 0x75, 0x69, 0x70, 0x75, 0x2f, 0x73, 0x74, 0x72, 0x65, 0x61, 0x6d, 0x2f, 0x76, 0x31]"

definition DEFAULT_CHUNK_SIZE :: nat where
  "DEFAULT_CHUNK_SIZE = 262144"

definition MIN_CHUNK_SIZE :: nat where
  "MIN_CHUNK_SIZE = 4096"

definition MAX_CHUNK_SIZE :: nat where
  "MAX_CHUNK_SIZE = 16 * 1024 * 1024"

record stream_options =
  so_pepper :: bytes
  so_kdf_params :: kdf_params
  so_chunk_size :: nat

definition stream_options_default :: stream_options where
  "stream_options_default =
     \<lparr>so_pepper = [],
      so_kdf_params = \<lparr>mem_kib = 65536, iterations = 3, parallelism = 1\<rparr>,
      so_chunk_size = DEFAULT_CHUNK_SIZE\<rparr>"

text \<open>An I/O error other than \<^verbatim>\<open>Interrupted\<close>, by its code.\<close>

type_synonym io_error = int

datatype stream_error =
    StreamIo io_error
  | StreamHeader
  | StreamUnsupportedVersion u8
  | BadChunkSize
  | InsaneKdf
  | StreamDecrypt
  | Truncated

record stream_header =
  sth_kdf_params :: kdf_params
  sth_salt :: bytes
  sth_nonce_prefix :: bytes
  sth_chunk_size :: u32

section \<open>Header, nonce and key\<close>

definition stream_header_to_bytes :: "stream_header \<Rightarrow> bytes" where
  "stream_header_to_bytes h =
     stream_MAGIC @ [stream_VERSION] @ [0]
     @ u32_to_be (mem_kib (sth_kdf_params h))
     @ u32_to_be (iterations (sth_kdf_params h))
     @ u32_to_be (parallelism (sth_kdf_params h))
     @ sth_salt h
     @ sth_nonce_prefix h
     @ u32_to_be (sth_chunk_size h)"

definition stream_header_from_bytes :: "bytes \<Rightarrow> stream_error + stream_header" where
  "stream_header_from_bytes b =
     (if length b < stream_HEADER_LEN then Inl StreamHeader
      else if slice 0 4 b \<noteq> stream_MAGIC then Inl StreamHeader
      else if b ! 4 \<noteq> stream_VERSION then Inl (StreamUnsupportedVersion (b ! 4))
      else
        let rd = (\<lambda>off. u32_from_be (slice off (off + 4) b));
            params = \<lparr>mem_kib = rd 6, iterations = rd 10, parallelism = rd 14\<rparr>
        in if \<not> is_sane params then Inl InsaneKdf
           else
             let chunk_size = rd 53
             in if unat chunk_size < MIN_CHUNK_SIZE \<or> MAX_CHUNK_SIZE < unat chunk_size
                then Inl BadChunkSize
                else Inr \<lparr>sth_kdf_params = params,
                          sth_salt = slice 18 (18 + SALT_LEN) b,
                          sth_nonce_prefix = slice 34 (34 + NONCE_PREFIX_LEN) b,
                          sth_chunk_size = chunk_size\<rparr>)"

definition chunk_nonce :: "bytes \<Rightarrow> u32 \<Rightarrow> bool \<Rightarrow> bytes" where
  "chunk_nonce prefix counter final_flag =
     prefix @ u32_to_be counter @ [if final_flag then 1 else 0]"

definition derive_stream_key ::
  "'c cripto_scheme \<Rightarrow> char32 list \<Rightarrow> bytes \<Rightarrow> kdf_params \<Rightarrow> bytes \<Rightarrow> bytes \<Rightarrow> bytes option" where
  "derive_stream_key C passphrase pepper params salt prefix =
     do {
       master \<leftarrow> derive_master_key C passphrase salt pepper params;
       derive_subkey C master (STREAM_INFO_PREFIX @ prefix)
     }"

section \<open>Reading and writing\<close>

datatype suceso =
    Datos bytes
  | Interrumpido
  | Fallo io_error

text \<open>
  \<open>read_chunk\<close> with room for \<open>m\<close> more bytes and \<open>acc\<close> read so far.  A call that hands out no
  byte is the end of file for it, whatever comes later.
\<close>

fun read_chunk_loop :: "suceso list \<Rightarrow> nat \<Rightarrow> bytes \<Rightarrow> (io_error + bytes) \<times> suceso list" where
  "read_chunk_loop [] m acc = (Inr acc, [])"
| "read_chunk_loop (Datos bs # l) m acc =
     (if m = 0 then (Inr acc, Datos bs # l)
      else if bs = [] then (Inr acc, l)
      else if length bs \<le> m then read_chunk_loop l (m - length bs) (acc @ bs)
      else (Inr (acc @ take m bs), Datos (drop m bs) # l))"
| "read_chunk_loop (Interrumpido # l) m acc =
     (if m = 0 then (Inr acc, Interrumpido # l) else read_chunk_loop l m acc)"
| "read_chunk_loop (Fallo e # l) m acc =
     (if m = 0 then (Inr acc, Fallo e # l) else (Inl e, l))"

definition read_chunk :: "suceso list \<Rightarrow> nat \<Rightarrow> (io_error + bytes) \<times> suceso list" where
  "read_chunk lector m = read_chunk_loop lector m []"

definition read_exact_or_header_err ::
  "suceso list \<Rightarrow> nat \<Rightarrow> (stream_error + bytes) \<times> suceso list" where
  "read_exact_or_header_err lector m =
     (case read_chunk lector m of
        (Inl e, l) \<Rightarrow> (Inl (StreamIo e), l)
      | (Inr b, l) \<Rightarrow> (if length b \<noteq> m then Inl StreamHeader else Inr b, l))"

type_synonym 'w escritor = "'w \<Rightarrow> bytes \<Rightarrow> (io_error + unit) \<times> 'w"

text \<open>\<^verbatim>\<open>Vec<u8>\<close> as a \<^verbatim>\<open>Write\<close>.\<close>

definition vec_writer :: "bytes escritor" where
  "vec_writer w bs = (Inr (), w @ bs)"

section \<open>Encrypting\<close>

text \<open>
  The last chunk of \<open>encrypt_stream\<close>, and its loop: \<open>cur\<close> is the chunk in hand.
\<close>

definition cifrar_final ::
  "'c cripto_scheme \<Rightarrow> 'w escritor \<Rightarrow> bytes \<Rightarrow> bytes \<Rightarrow> bytes \<Rightarrow> u32 \<Rightarrow> bytes \<Rightarrow> 'w \<Rightarrow>
    ((stream_error + unit) \<times> 'w) option" where
  "cifrar_final C escribir key prefix aad counter cur w =
     (case cipher_encrypt C key (chunk_nonce prefix counter True) cur aad of
        None \<Rightarrow> None
      | Some ct \<Rightarrow>
          (case escribir w ct of
             (Inl e, w') \<Rightarrow> Some (Inl (StreamIo e), w')
           | (Inr _, w') \<Rightarrow> Some (Inr (), w')))"

function cifrar_loop ::
  "'c cripto_scheme \<Rightarrow> 'w escritor \<Rightarrow> bytes \<Rightarrow> bytes \<Rightarrow> bytes \<Rightarrow> nat \<Rightarrow> u32 \<Rightarrow> bytes \<Rightarrow> suceso list \<Rightarrow>
    'w \<Rightarrow> ((stream_error + unit) \<times> 'w) option" where
  "cifrar_loop C escribir key prefix aad chunk counter cur lector w =
     (if length cur < chunk then cifrar_final C escribir key prefix aad counter cur w
      else
        case read_chunk lector chunk of
          (Inl e, l) \<Rightarrow> Some (Inl (StreamIo e), w)
        | (Inr nxt, l) \<Rightarrow>
            if nxt = [] then cifrar_final C escribir key prefix aad counter cur w
            else
              case cipher_encrypt C key (chunk_nonce prefix counter False) cur aad of
                None \<Rightarrow> None
              | Some ct \<Rightarrow>
                  (case escribir w ct of
                     (Inl e, w') \<Rightarrow> Some (Inl (StreamIo e), w')
                   | (Inr _, w') \<Rightarrow>
                       if unat counter + 1 < 2 ^ 32
                       then cifrar_loop C escribir key prefix aad chunk (counter + 1) nxt l w'
                       else Some (Inl Truncated, w')))"
  by pat_completeness auto
termination
  by (relation "measure (\<lambda>(C, escribir, key, prefix, aad, chunk, counter, cur, lector, w).
        2 ^ 32 - unat counter)")
    (auto simp: unat_word_ariths)

declare cifrar_loop.simps [simp del]

definition encrypt_stream ::
  "report \<Rightarrow> 'c cripto_scheme \<Rightarrow> 'r fuente \<Rightarrow> 'w escritor \<Rightarrow> suceso list \<Rightarrow> char32 list \<Rightarrow>
    stream_options \<Rightarrow> 'r \<Rightarrow> 'w \<Rightarrow> ((stream_error + unit) \<times> 'w) option" where
  "encrypt_stream informe C fuente escribir lector passphrase opts r w =
     do {
       _ \<leftarrow> ensure informe None;
       if \<not> is_sane (so_kdf_params opts) then Some (Inl InsaneKdf, w)
       else if so_chunk_size opts < MIN_CHUNK_SIZE \<or> MAX_CHUNK_SIZE < so_chunk_size opts
       then Some (Inl BadChunkSize, w)
       else do {
         (salt, r) \<leftarrow> llenar_expect fuente SALT_LEN r;
         (prefix, r) \<leftarrow> llenar_expect fuente NONCE_PREFIX_LEN r;
         let header = \<lparr>sth_kdf_params = so_kdf_params opts, sth_salt = salt,
                       sth_nonce_prefix = prefix, sth_chunk_size = of_nat (so_chunk_size opts)\<rparr>;
         let header_bytes = stream_header_to_bytes header;
         case escribir w header_bytes of
           (Inl e, w') \<Rightarrow> Some (Inl (StreamIo e), w')
         | (Inr _, w') \<Rightarrow> do {
             key \<leftarrow> derive_stream_key C passphrase (so_pepper opts) (so_kdf_params opts) salt prefix;
             case read_chunk lector (so_chunk_size opts) of
               (Inl e, l) \<Rightarrow> Some (Inl (StreamIo e), w')
             | (Inr cur, l) \<Rightarrow>
                 cifrar_loop C escribir key prefix header_bytes (so_chunk_size opts) 0 cur l w'
           }
       }
     }"

section \<open>Decrypting\<close>

definition abrir_final ::
  "'c cripto_scheme \<Rightarrow> 'w escritor \<Rightarrow> bytes \<Rightarrow> bytes \<Rightarrow> bytes \<Rightarrow> u32 \<Rightarrow> bytes \<Rightarrow> 'w \<Rightarrow>
    (stream_error + unit) \<times> 'w" where
  "abrir_final C escribir key prefix aad counter cur w =
     (case cipher_decrypt C key (chunk_nonce prefix counter True) cur aad of
        Inl _ \<Rightarrow> (Inl StreamDecrypt, w)
      | Inr pt \<Rightarrow>
          (case escribir w pt of
             (Inl e, w') \<Rightarrow> (Inl (StreamIo e), w')
           | (Inr _, w') \<Rightarrow> (Inr (), w')))"

function abrir_loop ::
  "'c cripto_scheme \<Rightarrow> 'w escritor \<Rightarrow> bytes \<Rightarrow> bytes \<Rightarrow> bytes \<Rightarrow> nat \<Rightarrow> u32 \<Rightarrow> bytes \<Rightarrow> suceso list \<Rightarrow>
    'w \<Rightarrow> (stream_error + unit) \<times> 'w" where
  "abrir_loop C escribir key prefix aad block counter cur lector w =
     (if length cur < block then abrir_final C escribir key prefix aad counter cur w
      else
        case read_chunk lector block of
          (Inl e, l) \<Rightarrow> (Inl (StreamIo e), w)
        | (Inr nxt, l) \<Rightarrow>
            if nxt = [] then abrir_final C escribir key prefix aad counter cur w
            else if length nxt < stream_TAG_LEN then (Inl Truncated, w)
            else
              case cipher_decrypt C key (chunk_nonce prefix counter False) cur aad of
                Inl _ \<Rightarrow> (Inl StreamDecrypt, w)
              | Inr pt \<Rightarrow>
                  (case escribir w pt of
                     (Inl e, w') \<Rightarrow> (Inl (StreamIo e), w')
                   | (Inr _, w') \<Rightarrow>
                       if unat counter + 1 < 2 ^ 32
                       then abrir_loop C escribir key prefix aad block (counter + 1) nxt l w'
                       else (Inl Truncated, w')))"
  by pat_completeness auto
termination
  by (relation "measure (\<lambda>(C, escribir, key, prefix, aad, block, counter, cur, lector, w).
        2 ^ 32 - unat counter)")
    (auto simp: unat_word_ariths)

declare abrir_loop.simps [simp del]

definition decrypt_stream ::
  "report \<Rightarrow> 'c cripto_scheme \<Rightarrow> 'w escritor \<Rightarrow> suceso list \<Rightarrow> char32 list \<Rightarrow> bytes \<Rightarrow> 'w \<Rightarrow>
    ((stream_error + unit) \<times> 'w) option" where
  "decrypt_stream informe C escribir lector passphrase pepper w =
     do {
       _ \<leftarrow> ensure informe None;
       case read_exact_or_header_err lector stream_HEADER_LEN of
         (Inl e, l) \<Rightarrow> Some (Inl e, w)
       | (Inr header_bytes, l) \<Rightarrow>
           (case stream_header_from_bytes header_bytes of
              Inl e \<Rightarrow> Some (Inl e, w)
            | Inr header \<Rightarrow> do {
                key \<leftarrow> derive_stream_key C passphrase pepper (sth_kdf_params header)
                         (sth_salt header) (sth_nonce_prefix header);
                let block = unat (sth_chunk_size header) + stream_TAG_LEN;
                case read_chunk l block of
                  (Inl e, l') \<Rightarrow> Some (Inl (StreamIo e), w)
                | (Inr cur, l') \<Rightarrow>
                    if length cur < stream_TAG_LEN then Some (Inl Truncated, w)
                    else Some (abrir_loop C escribir key (sth_nonce_prefix header) header_bytes
                                 block 0 cur l' w)
              })
     }"

section \<open>In memory\<close>

text \<open>A slice as a \<^verbatim>\<open>Read\<close> hands out what is asked for; the writer is a vector.\<close>

definition slice_reader :: "bytes \<Rightarrow> suceso list" where
  "slice_reader data = [Datos data]"

definition encrypt_stream_bytes ::
  "report \<Rightarrow> 'c cripto_scheme \<Rightarrow> 'r fuente \<Rightarrow> bytes \<Rightarrow> char32 list \<Rightarrow> stream_options \<Rightarrow> 'r \<Rightarrow>
    bytes option" where
  "encrypt_stream_bytes informe C fuente data passphrase opts r =
     (case encrypt_stream informe C fuente vec_writer (slice_reader data) passphrase opts r [] of
        Some (Inr _, out) \<Rightarrow> Some out
      | _ \<Rightarrow> None)"

definition decrypt_stream_bytes ::
  "report \<Rightarrow> 'c cripto_scheme \<Rightarrow> bytes \<Rightarrow> char32 list \<Rightarrow> bytes \<Rightarrow> (stream_error + bytes) option" where
  "decrypt_stream_bytes informe C blob passphrase pepper =
     (case decrypt_stream informe C vec_writer (slice_reader blob) passphrase pepper [] of
        None \<Rightarrow> None
      | Some (Inl e, _) \<Rightarrow> Some (Inl e)
      | Some (Inr _, out) \<Rightarrow> Some (Inr out))"

section \<open>Readers deliver their content\<close>

fun contenido :: "suceso list \<Rightarrow> bytes" where
  "contenido [] = []"
| "contenido (Datos bs # l) = bs @ contenido l"
| "contenido (Interrumpido # l) = contenido l"
| "contenido (Fallo e # l) = contenido l"

text \<open>No failure, and no empty read before the end.\<close>

fun sano :: "suceso list \<Rightarrow> bool" where
  "sano [] = True"
| "sano (Datos bs # l) = (sano l \<and> (bs = [] \<longrightarrow> contenido l = []))"
| "sano (Interrumpido # l) = sano l"
| "sano (Fallo e # l) = False"

lemma read_chunk_loop_sano:
  "sano l \<Longrightarrow> \<exists>l'. read_chunk_loop l m acc = (Inr (acc @ take m (contenido l)), l') \<and>
    sano l' \<and> contenido l' = drop m (contenido l)"
proof (induction l m acc rule: read_chunk_loop.induct)
  case (2 bs l m acc)
  consider "m = 0" | "m \<noteq> 0" "bs = []" | "m \<noteq> 0" "bs \<noteq> []" "length bs \<le> m"
    | "m \<noteq> 0" "\<not> length bs \<le> m" by (metis bot_nat_0.extremum list.size(3))
  then show ?case
  proof cases
    case 3
    with 2 show ?thesis by simp
  qed (use 2 in auto)
qed (auto split: if_splits)

lemma read_chunk_sano:
  assumes "sano l"
  obtains l' where "read_chunk l m = (Inr (take m (contenido l)), l')" "sano l'"
    "contenido l' = drop m (contenido l)"
  using read_chunk_loop_sano [OF assms, of m "[]"] by (auto simp: read_chunk_def)

lemma slice_reader_sano: "sano (slice_reader data)" "contenido (slice_reader data) = data"
  by (simp_all add: slice_reader_def)

section \<open>What a stream is\<close>

text \<open>
  The ciphertext of a list of chunks, numbered from \<open>counter\<close>, the last one under the final flag.
\<close>

fun sellados ::
  "'c cripto_scheme \<Rightarrow> bytes \<Rightarrow> bytes \<Rightarrow> bytes \<Rightarrow> u32 \<Rightarrow> bytes list \<Rightarrow> bytes option" where
  "sellados C key prefix aad counter [] = Some []"
| "sellados C key prefix aad counter [p] =
     cipher_encrypt C key (prefix @ u32_to_be counter @ [1]) p aad"
| "sellados C key prefix aad counter (p # q # ps) =
     do {
       c \<leftarrow> cipher_encrypt C key (prefix @ u32_to_be counter @ [0]) p aad;
       cs \<leftarrow> sellados C key prefix aad (counter + 1) (q # ps);
       Some (c @ cs)
     }"

lemma sellados_simps [simp]:
  "sellados C key prefix aad counter [] = Some []"
  "sellados C key prefix aad counter [p] =
     cipher_encrypt C key (chunk_nonce prefix counter True) p aad"
  "sellados C key prefix aad counter (p # q # ps) =
     do {
       c \<leftarrow> cipher_encrypt C key (chunk_nonce prefix counter False) p aad;
       cs \<leftarrow> sellados C key prefix aad (counter + 1) (q # ps);
       Some (c @ cs)
     }"
  by (simp_all add: chunk_nonce_def)

declare sellados.simps [simp del]

text \<open>The chunks of some data: full ones and a last one, which is empty only for empty data.\<close>

definition trozos :: "nat \<Rightarrow> bytes \<Rightarrow> bytes list" where
  "trozos chunk data = (if data = [] then [[]] else chunks chunk data)"

text \<open>Full chunks and then one that is not longer.\<close>

fun bien_troceado :: "nat \<Rightarrow> bytes list \<Rightarrow> bool" where
  "bien_troceado chunk [] = False"
| "bien_troceado chunk [p] = (length p \<le> chunk)"
| "bien_troceado chunk (p # q # ps) = (length p = chunk \<and> bien_troceado chunk (q # ps))"

lemma trozos_small: "length data \<le> chunk \<Longrightarrow> 0 < chunk \<Longrightarrow> trozos chunk data = [data]"
  by (simp add: trozos_def chunks_step)

lemma trozos_step: "length p = chunk \<Longrightarrow> 0 < chunk \<Longrightarrow> rest \<noteq> [] \<Longrightarrow>
    trozos chunk (p @ rest) = p # trozos chunk rest"
  by (simp add: trozos_def chunks_append)

lemma trozos_ne: "0 < chunk \<Longrightarrow> trozos chunk data \<noteq> []"
  by (simp add: trozos_def chunks_step)

lemma concat_trozos: "0 < chunk \<Longrightarrow> concat (trozos chunk data) = data"
  by (simp add: trozos_def concat_chunks)

lemma trozos_bien: "0 < chunk \<Longrightarrow> bien_troceado chunk (trozos chunk data)"
proof (induction "length data" arbitrary: data rule: less_induct)
  case less
  show ?case
  proof (cases "length data \<le> chunk")
    case True
    with less.prems show ?thesis by (simp add: trozos_small)
  next
    case False
    let ?rest = "drop chunk data"
    have "trozos chunk (take chunk data @ ?rest) = take chunk data # trozos chunk ?rest"
      using False less.prems by (intro trozos_step) simp_all
    moreover have "bien_troceado chunk (trozos chunk ?rest)"
      using False less.prems by (intro less.hyps) simp_all
    ultimately show ?thesis
      using False trozos_ne [OF less.prems, of ?rest]
      by (cases "trozos chunk ?rest") simp_all
  qed
qed

section \<open>Encrypting writes the sealed chunks\<close>

lemma sellados_total:
  "cripto_ok C \<Longrightarrow> \<forall>p \<in> set ps. length p < XCHACHA_LIMIT \<Longrightarrow>
    \<exists>out. sellados C key prefix aad counter ps = Some out"
proof (induction C key prefix aad counter ps rule: sellados.induct)
  case (2 C key prefix aad counter p)
  then show ?case using cipher_encrypt_total by fastforce
next
  case (3 C key prefix aad counter p q ps)
  obtain c where c: "cipher_encrypt C key (chunk_nonce prefix counter False) p aad = Some c"
    using cipher_encrypt_total 3 by fastforce
  obtain cs where "sellados C key prefix aad (counter + 1) (q # ps) = Some cs"
    using 3 c by (fastforce simp: chunk_nonce_def)
  with c show ?case by simp
qed simp

lemma unat_Suc_u32: "unat c + 1 < 2 ^ 32 \<Longrightarrow> unat (c + 1 :: u32) = unat c + 1"
  by (simp add: unat_word_ariths)

lemma cifrar_loop_sellados:
  assumes "sellados C key prefix aad counter (trozos chunk (cur @ contenido lector)) = Some out"
    and "sano lector" and "0 < chunk" and "length cur \<le> chunk"
    and "length cur < chunk \<Longrightarrow> contenido lector = []"
    and "unat counter + length (trozos chunk (cur @ contenido lector)) \<le> 2 ^ 32"
  shows "cifrar_loop C vec_writer key prefix aad chunk counter cur lector w = Some (Inr (), w @ out)"
  using assms
proof (induction "length (cur @ contenido lector)" arbitrary: counter cur lector w out rule: less_induct)
  case less
  show ?case
  proof (cases "contenido lector = []")
    case True
    then have sel: "cipher_encrypt C key (chunk_nonce prefix counter True) cur aad = Some out"
      using less.prems by (simp add: trozos_small)
    obtain l where "read_chunk lector chunk = (Inr [], l)"
      using read_chunk_sano [OF less.prems(2), of chunk] True by auto
    with sel show ?thesis
      by (subst cifrar_loop.simps) (simp add: cifrar_final_def vec_writer_def)
  next
    case False
    then have full: "length cur = chunk" using less.prems(4,5) by fastforce
    let ?rest = "contenido lector"
    obtain l where l: "read_chunk lector chunk = (Inr (take chunk ?rest), l)" "sano l"
        "contenido l = drop chunk ?rest"
      using read_chunk_sano [OF less.prems(2)] by blast
    have ne: "take chunk ?rest \<noteq> []" using False less.prems(3) by simp
    have junta: "take chunk ?rest @ contenido l = ?rest" by (simp add: l)
    have step: "trozos chunk (cur @ ?rest) = cur # trozos chunk ?rest"
      using full less.prems(3) False by (rule trozos_step)
    obtain q qs where q: "trozos chunk ?rest = q # qs"
      using trozos_ne [OF less.prems(3)] by (meson neq_Nil_conv)
    obtain c cs where c: "cipher_encrypt C key (chunk_nonce prefix counter False) cur aad = Some c"
        and cs: "sellados C key prefix aad (counter + 1) (trozos chunk ?rest) = Some cs"
        and out: "out = c @ cs"
      using less.prems(1) by (auto simp: step q split: bind_splits)
    have room: "unat counter + 1 < 2 ^ 32" using less.prems(6) by (simp add: step q)
    have "cifrar_loop C vec_writer key prefix aad chunk (counter + 1) (take chunk ?rest) l (w @ c)
        = Some (Inr (), (w @ c) @ cs)"
    proof (rule less.hyps)
      show "length (take chunk ?rest @ contenido l) < length (cur @ ?rest)"
        using full less.prems(3) by (simp add: junta)
      show "sellados C key prefix aad (counter + 1) (trozos chunk (take chunk ?rest @ contenido l)) = Some cs"
        using cs by (simp add: junta)
      show "unat (counter + 1) + length (trozos chunk (take chunk ?rest @ contenido l)) \<le> 2 ^ 32"
        using less.prems(6) unat_Suc_u32 [OF room] by (simp add: junta step)
    qed (use l less.prems(3) in auto)
    then show ?thesis
      using full l(1) ne c room out
      by (subst cifrar_loop.simps) (simp add: vec_writer_def)
  qed
qed

section \<open>Decrypting reads the sealed chunks, and nothing else\<close>

lemma sellados_Cons:
  "ps \<noteq> [] \<Longrightarrow> sellados C key prefix aad counter (p # ps) = Some out \<longleftrightarrow>
    (\<exists>c cs. cipher_encrypt C key (chunk_nonce prefix counter False) p aad = Some c \<and>
      sellados C key prefix aad (counter + 1) ps = Some cs \<and> out = c @ cs)"
  by (cases ps) (auto split: bind_splits)

lemma sellados_length:
  assumes "cripto_ok C" and "sellados C key prefix aad counter (p # ps) = Some out"
  shows "16 \<le> length out"
proof (cases "ps = []")
  case False
  with assms show ?thesis by (auto simp: sellados_Cons dest: cipher_encrypt_length)
qed (use assms cipher_encrypt_length in fastforce)

lemma bien_troceado_Cons:
  "ps \<noteq> [] \<Longrightarrow> bien_troceado chunk (p # ps) \<longleftrightarrow> length p = chunk \<and> bien_troceado chunk ps"
  by (cases ps) auto

lemma abrir_loop_sellados:
  assumes C: "cripto_ok C"
  shows "sellados C key prefix aad counter ps = Some out \<Longrightarrow> bien_troceado chunk ps \<Longrightarrow>
    unat counter + length ps \<le> 2 ^ 32 \<Longrightarrow> sano lector \<Longrightarrow> cur = take (chunk + 16) out \<Longrightarrow>
    contenido lector = drop (chunk + 16) out \<Longrightarrow>
    abrir_loop C vec_writer key prefix aad (chunk + 16) counter cur lector w = (Inr (), w @ concat ps)"
proof (induction ps arbitrary: counter out cur lector w)
  case (Cons p ps)
  show ?case
  proof (cases "ps = []")
    case True
    then have enc: "cipher_encrypt C key (chunk_nonce prefix counter True) p aad = Some out"
      using Cons.prems(1) by simp
    then have "length out \<le> chunk + 16"
      using cipher_encrypt_length [OF C enc] Cons.prems(2) True by simp
    then have cur: "cur = out" and fin: "contenido lector = []" using Cons.prems by simp_all
    obtain l where "read_chunk lector (chunk + 16) = (Inr [], l)"
      using read_chunk_sano [OF Cons.prems(4), of "chunk + 16"] fin by auto
    moreover have "cipher_decrypt C key (chunk_nonce prefix counter True) out aad = Inr p"
      using enc by (simp add: cipher_decrypt_iff [OF C])
    ultimately show ?thesis using True cur
      by (subst abrir_loop.simps) (simp add: abrir_final_def vec_writer_def)
  next
    case False
    obtain c cs where enc: "cipher_encrypt C key (chunk_nonce prefix counter False) p aad = Some c"
        and cs: "sellados C key prefix aad (counter + 1) ps = Some cs" and out: "out = c @ cs"
      using Cons.prems(1) False by (auto simp: sellados_Cons)
    have "length c = chunk + 16"
      using cipher_encrypt_length [OF C enc] Cons.prems(2) False by (simp add: bien_troceado_Cons)
    then have cur: "cur = c" and rest: "contenido lector = cs" and full: "length c = chunk + 16"
      using Cons.prems out by simp_all
    have cs16: "16 \<le> length cs"
      using sellados_length [OF C] cs False by (cases ps) auto
    obtain l where l: "read_chunk lector (chunk + 16) = (Inr (take (chunk + 16) cs), l)" "sano l"
        "contenido l = drop (chunk + 16) cs"
      using read_chunk_sano [OF Cons.prems(4)] rest by metis
    have room: "unat counter + 1 < 2 ^ 32" using Cons.prems(3) False by (cases ps) auto
    have "abrir_loop C vec_writer key prefix aad (chunk + 16) (counter + 1) (take (chunk + 16) cs) l (w @ p)
        = (Inr (), (w @ p) @ concat ps)"
      using Cons.prems(2,3) False l(2,3) unat_Suc_u32 [OF room]
      by (intro Cons.IH [OF cs]) (simp_all add: bien_troceado_Cons)
    moreover have "cipher_decrypt C key (chunk_nonce prefix counter False) c aad = Inr p"
      using enc by (simp add: cipher_decrypt_iff [OF C])
    ultimately show ?thesis using l(1) full cur room cs16
      by (subst abrir_loop.simps) (auto simp: vec_writer_def stream_TAG_LEN_def)
  qed
qed simp

text \<open>
  Whatever the outcome \<open>res\<close> of reading \<open>blob\<close>, what reached the writer are the plaintexts \<open>ps\<close> of
  its first chunks, each sealed under the key at its own position; on success they are all of
  it, the last one sealed as the last one.
\<close>

definition escrito ::
  "'c cripto_scheme \<Rightarrow> bytes \<Rightarrow> bytes \<Rightarrow> bytes \<Rightarrow> nat \<Rightarrow> u32 \<Rightarrow> bytes \<Rightarrow> stream_error + unit \<Rightarrow> bytes \<Rightarrow>
    bool" where
  "escrito C key prefix aad chunk counter blob res out \<longleftrightarrow>
     (\<exists>ps. out = concat ps \<and>
       (case res of
          Inr _ \<Rightarrow> bien_troceado chunk ps \<and> sellados C key prefix aad counter ps = Some blob \<and>
            unat counter + length ps \<le> 2 ^ 32
        | Inl e \<Rightarrow> (\<exists>cs rest. blob = concat cs @ rest \<and> length cs = length ps \<and>
            (\<forall>i < length ps. length (ps ! i) = chunk \<and>
              cipher_encrypt C key (prefix @ u32_to_be (counter + of_nat i) @ [0]) (ps ! i) aad
                = Some (cs ! i)))))"

lemmas escrito_iff = escrito_def [folded chunk_nonce_def [of _ _ False, simplified]]

lemma escrito_nada: "escrito C key prefix aad chunk counter blob (Inl e) []"
  unfolding escrito_iff by (intro exI [of _ "[]"]) simp

lemma escrito_uno:
  assumes "cipher_encrypt C key (chunk_nonce prefix counter False) p aad = Some c" and "length p = chunk"
  shows "escrito C key prefix aad chunk counter (c @ rest) (Inl e) p"
  unfolding escrito_iff using assms
  by (intro exI [of _ "[p]"]) (auto intro!: exI [of _ "[c]"])

lemma escrito_final:
  assumes "cripto_ok C" and "cipher_encrypt C key (chunk_nonce prefix counter True) p aad = Some blob"
    and "length blob \<le> chunk + 16"
  shows "escrito C key prefix aad chunk counter blob (Inr ()) p"
proof -
  have "unat counter + 1 \<le> 2 ^ 32" using unat_u32_lt [of counter] by simp
  then show ?thesis
    unfolding escrito_iff using assms cipher_encrypt_length [OF assms(1,2)]
    by (intro exI [of _ "[p]"]) simp
qed

lemma escrito_Cons:
  assumes c: "cipher_encrypt C key (chunk_nonce prefix counter False) p aad = Some c"
    and p: "length p = chunk" and room: "unat counter + 1 < 2 ^ 32"
    and rest: "escrito C key prefix aad chunk (counter + 1) blob res out"
  shows "escrito C key prefix aad chunk counter (c @ blob) res (p @ out)"
proof (cases res)
  case (Inl e)
  then obtain ps cs r where *: "out = concat ps" "blob = concat cs @ r" "length cs = length ps"
      "\<forall>i < length ps. length (ps ! i) = chunk \<and>
        cipher_encrypt C key (chunk_nonce prefix (counter + 1 + of_nat i) False) (ps ! i) aad = Some (cs ! i)"
    using rest by (auto simp: escrito_iff)
  have "length ((p # ps) ! i) = chunk \<and>
      cipher_encrypt C key (chunk_nonce prefix (counter + of_nat i) False) ((p # ps) ! i) aad
        = Some ((c # cs) ! i)" if "i < length (p # ps)" for i
    using that * c p by (cases i) (auto simp: ac_simps)
  with * Inl show ?thesis unfolding escrito_iff
    by (intro exI [of _ "p # ps"]) (auto intro!: exI [of _ "c # cs"])
next
  case (Inr u)
  then obtain ps where *: "out = concat ps" "bien_troceado chunk ps"
      "sellados C key prefix aad (counter + 1) ps = Some blob" "unat (counter + 1) + length ps \<le> 2 ^ 32"
    using rest by (auto simp: escrito_iff)
  then have "ps \<noteq> []" by auto
  with * Inr c p show ?thesis
    unfolding escrito_iff using unat_Suc_u32 [OF room]
    by (intro exI [of _ "p # ps"]) (auto simp: sellados_Cons bien_troceado_Cons)
qed

lemma abrir_loop_authentic:
  assumes C: "cripto_ok C"
  shows "sano lector \<Longrightarrow> cur = take (chunk + 16) blob \<Longrightarrow> contenido lector = drop (chunk + 16) blob \<Longrightarrow>
    abrir_loop C vec_writer key prefix aad (chunk + 16) counter cur lector w = (res, w') \<Longrightarrow>
    \<exists>out. w' = w @ out \<and> escrito C key prefix aad chunk counter blob res out"
proof (induction "length blob" arbitrary: counter blob cur lector w res w' rule: less_induct)
  case less
  let ?E = "\<lambda>r. \<exists>out. snd r = w @ out \<and> escrito C key prefix aad chunk counter blob (fst r) out"
  have nada: "?E (Inl e, w)" for e
    using escrito_nada by fastforce
  have fin: "?E (abrir_final C vec_writer key prefix aad counter cur w)" if "contenido lector = []"
  proof (cases "cipher_decrypt C key (chunk_nonce prefix counter True) cur aad")
    case (Inl e)
    then show ?thesis using nada by (simp add: abrir_final_def)
  next
    case (Inr p)
    have cur: "cur = blob" "length blob \<le> chunk + 16"
      using that less.prems by simp_all
    with Inr have "cipher_encrypt C key (chunk_nonce prefix counter True) p aad = Some blob"
      by (simp add: cipher_decrypt_iff [OF C])
    from escrito_final [OF C this cur(2)] Inr show ?thesis
      by (simp add: abrir_final_def vec_writer_def)
  qed
  let ?nxt = "take (chunk + 16) (contenido lector)"
  obtain l where l: "read_chunk lector (chunk + 16) = (Inr ?nxt, l)" "sano l"
      "contenido l = drop (chunk + 16) (contenido lector)"
    using read_chunk_sano [OF less.prems(1)] by blast
  have blob: "blob = cur @ contenido lector" using less.prems(2,3) by simp
  have "?E (abrir_loop C vec_writer key prefix aad (chunk + 16) counter cur lector w)"
  proof (cases "length cur < chunk + 16 \<or> contenido lector = []")
    case True
    then have "contenido lector = []" using less.prems(2,3) by fastforce
    with fin l(1) show ?thesis by (subst (1 2) abrir_loop.simps) simp
  next
    case big: False
    show ?thesis
    proof (cases "length ?nxt < 16 \<or> (\<exists>e. cipher_decrypt C key (chunk_nonce prefix counter False) cur aad = Inl e)")
      case True
      then show ?thesis using big l(1) nada
        by (subst (1 2) abrir_loop.simps) (auto simp: stream_TAG_LEN_def)
    next
      case False
      then obtain p where dec: "cipher_decrypt C key (chunk_nonce prefix counter False) cur aad = Inr p"
        by (meson sumE)
      then have enc: "cipher_encrypt C key (chunk_nonce prefix counter False) p aad = Some cur"
        by (simp add: cipher_decrypt_iff [OF C])
      have "length cur = chunk + 16"
        using big arg_cong [OF less.prems(2), of length]
        by (simp add: min_def split: if_splits)
      then have lp: "length p = chunk"
        using cipher_encrypt_length [OF C enc] by simp
      show ?thesis
      proof (cases "unat counter + 1 < 2 ^ 32")
        case room: True
        obtain res' w'' where rec:
          "abrir_loop C vec_writer key prefix aad (chunk + 16) (counter + 1) ?nxt l (w @ p) = (res', w'')"
          by fastforce
        moreover have "length (contenido lector) < length blob" using big blob by auto
        ultimately obtain out where "w'' = (w @ p) @ out"
            "escrito C key prefix aad chunk (counter + 1) (contenido lector) res' out"
          using less.hyps [OF _ l(2) refl l(3)] by blast
        moreover have "abrir_loop C vec_writer key prefix aad (chunk + 16) counter cur lector w = (res', w'')"
          using rec big l(1) False dec room
          by (subst abrir_loop.simps) (simp add: stream_TAG_LEN_def vec_writer_def)
        ultimately show ?thesis
          using escrito_Cons [OF enc lp room] blob by fastforce
      next
        case noroom: False
        then have "abrir_loop C vec_writer key prefix aad (chunk + 16) counter cur lector w
            = (Inl Truncated, w @ p)"
          using big l(1) False dec
          by (subst abrir_loop.simps) (simp add: stream_TAG_LEN_def vec_writer_def)
        then show ?thesis
          using escrito_uno [OF enc lp] blob by fastforce
      qed
    qed
  qed
  with less.prems(4) show ?case by simp
qed

section \<open>The header\<close>

lemma stream_HEADER_LEN_eq: "stream_HEADER_LEN = 57"
  by (simp add: stream_HEADER_LEN_def SALT_LEN_def NONCE_PREFIX_LEN_def)

definition stream_header_ok :: "stream_header \<Rightarrow> bool" where
  "stream_header_ok h \<longleftrightarrow>
     is_sane (sth_kdf_params h) \<and> length (sth_salt h) = SALT_LEN \<and>
     length (sth_nonce_prefix h) = NONCE_PREFIX_LEN \<and>
     MIN_CHUNK_SIZE \<le> unat (sth_chunk_size h) \<and> unat (sth_chunk_size h) \<le> MAX_CHUNK_SIZE"

text \<open>The reader with its constants in figures.\<close>

lemma stream_header_from_bytes_eq:
  "stream_header_from_bytes b =
     (let h = \<lparr>sth_kdf_params = \<lparr>mem_kib = u32_from_be (slice 6 10 b),
                iterations = u32_from_be (slice 10 14 b), parallelism = u32_from_be (slice 14 18 b)\<rparr>,
               sth_salt = slice 18 34 b, sth_nonce_prefix = slice 34 53 b,
               sth_chunk_size = u32_from_be (slice 53 57 b)\<rparr>
      in if length b < 57 \<or> take 4 b \<noteq> stream_MAGIC then Inl StreamHeader
         else if b ! 4 \<noteq> stream_VERSION then Inl (StreamUnsupportedVersion (b ! 4))
         else if \<not> is_sane (sth_kdf_params h) then Inl InsaneKdf
         else if unat (sth_chunk_size h) < MIN_CHUNK_SIZE \<or> MAX_CHUNK_SIZE < unat (sth_chunk_size h)
         then Inl BadChunkSize
         else Inr h)"
  by (simp add: stream_header_from_bytes_def stream_HEADER_LEN_eq SALT_LEN_def NONCE_PREFIX_LEN_def Let_def)

lemma length_stream_header: "stream_header_ok h \<Longrightarrow> length (stream_header_to_bytes h) = 57"
  by (simp add: stream_header_to_bytes_def stream_header_ok_def stream_MAGIC_def SALT_LEN_def
      NONCE_PREFIX_LEN_def)

lemma stream_header_read:
  assumes "stream_header_ok h"
  shows "stream_header_from_bytes (stream_header_to_bytes h) = Inr h"
proof -
  have len: "length (sth_salt h) = 16" "length (sth_nonce_prefix h) = 19"
    using assms by (simp_all add: stream_header_ok_def SALT_LEN_def NONCE_PREFIX_LEN_def)
  have "stream_header_to_bytes h ! 4 = stream_VERSION"
    by (simp add: stream_header_to_bytes_def stream_MAGIC_def nth_append)
  moreover have "take 4 (stream_header_to_bytes h) = stream_MAGIC"
    by (simp add: stream_header_to_bytes_def stream_MAGIC_def)
  moreover have
    "slice 6 10 (stream_header_to_bytes h) = u32_to_be (mem_kib (sth_kdf_params h))"
    "slice 10 14 (stream_header_to_bytes h) = u32_to_be (iterations (sth_kdf_params h))"
    "slice 14 18 (stream_header_to_bytes h) = u32_to_be (parallelism (sth_kdf_params h))"
    "slice 18 34 (stream_header_to_bytes h) = sth_salt h"
    "slice 34 53 (stream_header_to_bytes h) = sth_nonce_prefix h"
    "slice 53 57 (stream_header_to_bytes h) = u32_to_be (sth_chunk_size h)"
    by (simp_all add: stream_header_to_bytes_def stream_MAGIC_def slice_simps len)
  ultimately show ?thesis
    using assms length_stream_header [OF assms]
    by (cases h; cases "sth_kdf_params h")
      (simp add: stream_header_from_bytes_eq Let_def stream_header_ok_def)
qed

text \<open>The reader takes every header of the right length but for its flags, which it does not look at.\<close>

lemma stream_header_from_bytes_Inr:
  assumes r: "stream_header_from_bytes b = Inr h" and len: "length b = 57"
  shows "stream_header_ok h \<and> b = (stream_header_to_bytes h)[5 := b ! 5]"
proof -
  have magic: "take 4 b = stream_MAGIC" and v: "b ! 4 = stream_VERSION"
    using r by (auto simp: stream_header_from_bytes_eq Let_def split: if_splits)
  have h: "h = \<lparr>sth_kdf_params = \<lparr>mem_kib = u32_from_be (slice 6 10 b),
        iterations = u32_from_be (slice 10 14 b), parallelism = u32_from_be (slice 14 18 b)\<rparr>,
      sth_salt = slice 18 34 b, sth_nonce_prefix = slice 34 53 b,
      sth_chunk_size = u32_from_be (slice 53 57 b)\<rparr>"
    using r by (auto simp: stream_header_from_bytes_eq Let_def split: if_splits)
  have "stream_header_ok h"
    using r len h by (auto simp: stream_header_from_bytes_eq Let_def stream_header_ok_def SALT_LEN_def
        NONCE_PREFIX_LEN_def split: if_splits)
  moreover have "b = take 4 b @ [b ! 4] @ [b ! 5] @ slice 6 10 b @ slice 10 14 b @ slice 14 18 b
      @ slice 18 34 b @ slice 34 53 b @ slice 53 57 b"
  proof -
    have "take 4 b @ [b ! 4] @ [b ! 5] @ slice 6 10 b @ slice 10 14 b @ slice 14 18 b
      @ slice 18 34 b @ slice 34 53 b @ slice 53 57 b = slice 0 57 b"
      using len by (simp add: slice_single slice_join flip: slice_zero)
    with len show ?thesis by simp
  qed
  ultimately show ?thesis
    using len magic v
    by (simp add: h stream_header_to_bytes_def stream_MAGIC_def u32_to_from_be list_update_append)
qed

text \<open>So the header format is a round trip; it is not canonical, for the flags.\<close>

interpretation sth: roundtrip stream_header_to_bytes stream_header_from_bytes stream_header_ok
  by unfold_locales (rule stream_header_read)

lemma stream_header_sizes:
  assumes "stream_header_ok h"
  shows "4096 \<le> unat (sth_chunk_size h)" "unat (sth_chunk_size h) \<le> 16777216"
  using assms by (simp_all add: stream_header_ok_def MIN_CHUNK_SIZE_def MAX_CHUNK_SIZE_def)

lemma derive_stream_key_total:
  assumes "cripto_ok C" and "is_sane params" and "length salt = SALT_LEN"
    and "length (utf8 (nfkc C pw)) + length pepper < 2 ^ 32"
  shows "\<exists>key. derive_stream_key C pw pepper params salt prefix = Some key"
proof -
  obtain master where "derive_master_key C pw salt pepper params = Some master"
    using derive_master_key_total [OF assms(1,2) _ assms(4), of salt] assms(3)
    by (auto simp: SALT_LEN_def KDF_SALT_LEN_def)
  moreover obtain key where "derive_subkey C master (STREAM_INFO_PREFIX @ prefix) = Some key"
    using derive_subkey_total [OF assms(1)] by blast
  ultimately show ?thesis by (simp add: derive_stream_key_def)
qed

section \<open>The whole stream\<close>

text \<open>The chunks of data below 16 TiB fit the counter, and each of them the cipher.\<close>

lemma trozos_fit:
  assumes "length data \<le> 2 ^ 44" and "4096 \<le> chunk"
  shows "length (trozos chunk data) \<le> 2 ^ 32"
proof (cases "data = []")
  case False
  have "length data + (chunk - 1) < Suc (2 ^ 32) * chunk"
    using assms by (simp add: algebra_simps)
  then have "(length data + (chunk - 1)) div chunk < Suc (2 ^ 32)"
    using assms(2) by (simp only: div_less_iff_less_mult)
  then show ?thesis using False assms(2) by (simp add: trozos_def length_chunks)
qed (simp add: trozos_def)

lemma trozos_small_enough:
  assumes "0 < chunk" and "chunk \<le> 16777216" and "p \<in> set (trozos chunk data)"
  shows "length p < XCHACHA_LIMIT"
proof -
  have "length p \<le> chunk" using assms length_in_chunks by (fastforce simp: trozos_def split: if_splits)
  with assms(2) show ?thesis by (simp add: XCHACHA_LIMIT_def)
qed

lemma encrypt_stream_run:
  assumes C: "cripto_ok C" and f: "fuente_ok fuente" and "report_ok informe" and l: "sano lector"
    and len: "length (contenido lector) \<le> 2 ^ 44"
    and sane: "is_sane (so_kdf_params opts)"
    and chunk: "MIN_CHUNK_SIZE \<le> so_chunk_size opts" "so_chunk_size opts \<le> MAX_CHUNK_SIZE"
    and secret: "length (utf8 (nfkc C pw)) + length (so_pepper opts) < 2 ^ 32"
    and draws: "llenar_expect fuente SALT_LEN r = Some (salt, r1)"
      "llenar_expect fuente NONCE_PREFIX_LEN r1 = Some (prefix, r2)"
  obtains h key out where "stream_header_ok h" "sth_kdf_params h = so_kdf_params opts"
    "sth_salt h = salt" "sth_nonce_prefix h = prefix" "unat (sth_chunk_size h) = so_chunk_size opts"
    "derive_stream_key C pw (so_pepper opts) (so_kdf_params opts) salt prefix = Some key"
    "sellados C key prefix (stream_header_to_bytes h) 0 (trozos (so_chunk_size opts) (contenido lector))
       = Some out"
    "encrypt_stream informe C fuente vec_writer lector pw opts r w
       = Some (Inr (), w @ stream_header_to_bytes h @ out)"
proof -
  let ?n = "so_chunk_size opts"
  let ?h = "\<lparr>sth_kdf_params = so_kdf_params opts, sth_salt = salt,
    sth_nonce_prefix = prefix, sth_chunk_size = of_nat ?n\<rparr>"
  have n: "4096 \<le> ?n" "?n \<le> 16777216"
    using chunk by (simp_all add: MIN_CHUNK_SIZE_def MAX_CHUNK_SIZE_def)
  then have u: "unat (of_nat ?n :: u32) = ?n" by (simp add: unat_of_nat_u32)
  have ls: "length salt = SALT_LEN" "length prefix = NONCE_PREFIX_LEN"
    using llenar_expect_length [OF f] draws by blast+
  have ok: "stream_header_ok ?h" using sane chunk u ls by (simp add: stream_header_ok_def)
  obtain key where key: "derive_stream_key C pw (so_pepper opts) (so_kdf_params opts) salt prefix = Some key"
    using derive_stream_key_total [OF C sane ls(1) secret] by blast
  have "\<forall>p \<in> set (trozos ?n (contenido lector)). length p < XCHACHA_LIMIT"
    using n by (intro ballI trozos_small_enough [of ?n]) auto
  then obtain out where out: "sellados C key prefix (stream_header_to_bytes ?h) 0
      (trozos ?n (contenido lector)) = Some out"
    using sellados_total [OF C] by blast
  obtain l' where l': "read_chunk lector ?n = (Inr (take ?n (contenido lector)), l')" "sano l'"
      "contenido l' = drop ?n (contenido lector)"
    using read_chunk_sano [OF l] by blast
  have fit: "length (trozos ?n (contenido lector)) \<le> 2 ^ 32" using trozos_fit [OF len n(1)] .
  have "cifrar_loop C vec_writer key prefix (stream_header_to_bytes ?h) ?n 0
      (take ?n (contenido lector)) l' (w @ stream_header_to_bytes ?h)
      = Some (Inr (), (w @ stream_header_to_bytes ?h) @ out)"
  proof (rule cifrar_loop_sellados)
    show "contenido l' = []" if "length (take ?n (contenido lector)) < ?n"
      using that l'(3) by simp
  qed (use out fit l' n in simp_all)
  then have "encrypt_stream informe C fuente vec_writer lector pw opts r w
      = Some (Inr (), w @ stream_header_to_bytes ?h @ out)"
    using assms(3) sane chunk draws key l'(1)
    by (simp add: encrypt_stream_def ensure_def try_ensure_def get_or_init_def vec_writer_def Let_def)
  with ok u key out that [of ?h key out] show ?thesis by simp
qed

text \<open>Reading back what is a header and a sealed body.\<close>

lemma decrypt_stream_header:
  assumes ok: "stream_header_ok h" and l: "sano lector" and "report_ok informe"
    and blob: "contenido lector = hb @ body" "length hb = 57" "stream_header_from_bytes hb = Inr h"
    and key: "derive_stream_key C pw pepper (sth_kdf_params h) (sth_salt h) (sth_nonce_prefix h) = Some key"
  obtains l' where "sano l'" "contenido l' = drop (unat (sth_chunk_size h) + 16) body"
    "decrypt_stream informe C vec_writer lector pw pepper w =
       (if length body < 16 then Some (Inl Truncated, w)
        else Some (abrir_loop C vec_writer key (sth_nonce_prefix h) hb (unat (sth_chunk_size h) + 16) 0
          (take (unat (sth_chunk_size h) + 16) body) l' w))"
proof -
  obtain l1 where l1: "read_chunk lector 57 = (Inr hb, l1)" "sano l1" "contenido l1 = body"
    using read_chunk_sano [OF l, of 57] blob by auto
  obtain l2 where l2: "read_chunk l1 (unat (sth_chunk_size h) + 16)
      = (Inr (take (unat (sth_chunk_size h) + 16) body), l2)" "sano l2"
      "contenido l2 = drop (unat (sth_chunk_size h) + 16) body"
    using read_chunk_sano [OF l1(2)] l1(3) by blast
  have "decrypt_stream informe C vec_writer lector pw pepper w =
       (if length body < 16 then Some (Inl Truncated, w)
        else Some (abrir_loop C vec_writer key (sth_nonce_prefix h) hb (unat (sth_chunk_size h) + 16) 0
          (take (unat (sth_chunk_size h) + 16) body) l2 w))"
    using assms(3) blob(2,3) key l1(1) l2(1)
    by (simp add: decrypt_stream_def read_exact_or_header_err_def stream_HEADER_LEN_eq stream_TAG_LEN_def
        ensure_def try_ensure_def get_or_init_def min_less_iff_disj Let_def)
  with that l2 show ?thesis by blast
qed

lemma decrypt_stream_err:
  assumes "sano lector" and "decrypt_stream informe C vec_writer lector pw pepper [] = Some (res, out)"
  shows "out = [] \<and> (\<exists>e. res = Inl e) \<or>
    (\<exists>hb body h key. contenido lector = hb @ body \<and> length hb = 57 \<and>
      stream_header_from_bytes hb = Inr h \<and> report_ok informe \<and>
      derive_stream_key C pw pepper (sth_kdf_params h) (sth_salt h) (sth_nonce_prefix h) = Some key)"
proof -
  obtain l1 where l1: "read_chunk lector 57 = (Inr (take 57 (contenido lector)), l1)"
    using read_chunk_sano [OF assms(1)] by blast
  have informe: "report_ok informe"
    using assms(2) by (auto simp: decrypt_stream_def ensure_iff get_or_init_def split: bind_splits)
  let ?hb = "take 57 (contenido lector)"
  show ?thesis
  proof (cases "length ?hb = 57 \<and> (\<exists>h. stream_header_from_bytes ?hb = Inr h)")
    case True
    then obtain h where h: "length ?hb = 57" "stream_header_from_bytes ?hb = Inr h" by blast
    moreover have "\<exists>key. derive_stream_key C pw pepper (sth_kdf_params h) (sth_salt h)
        (sth_nonce_prefix h) = Some key"
      using assms(2) h l1
      by (auto simp: decrypt_stream_def read_exact_or_header_err_def stream_HEADER_LEN_eq split: bind_splits)
    ultimately show ?thesis using informe by (metis append_take_drop_id)
  next
    case False
    then show ?thesis
      using assms(2) l1
      by (auto simp: decrypt_stream_def read_exact_or_header_err_def stream_HEADER_LEN_eq
          split: bind_splits if_splits sum.splits)
  qed
qed

lemma stream_lossless:
  assumes "cripto_ok C" and "fuente_ok fuente" and "report_ok informe" and "sano lector"
    and "length (contenido lector) \<le> 2 ^ 44" and "is_sane (so_kdf_params opts)"
    and "MIN_CHUNK_SIZE \<le> so_chunk_size opts" and "so_chunk_size opts \<le> MAX_CHUNK_SIZE"
    and "length (utf8 (nfkc C pw)) + length (so_pepper opts) < 2 ^ 32"
    and "llenar_expect fuente SALT_LEN r = Some (salt, r1)"
    and "llenar_expect fuente NONCE_PREFIX_LEN r1 = Some (prefix, r2)"
  shows "\<exists>out. encrypt_stream informe C fuente vec_writer lector pw opts r [] = Some (Inr (), out) \<and>
    (\<forall>lector'. sano lector' \<and> contenido lector' = out \<longrightarrow>
      decrypt_stream informe C vec_writer lector' pw (so_pepper opts) [] = Some (Inr (), contenido lector))"
proof -
  obtain h key out where h: "stream_header_ok h" "sth_kdf_params h = so_kdf_params opts"
      "sth_salt h = salt" "sth_nonce_prefix h = prefix" "unat (sth_chunk_size h) = so_chunk_size opts"
    and key: "derive_stream_key C pw (so_pepper opts) (so_kdf_params opts) salt prefix = Some key"
    and out: "sellados C key prefix (stream_header_to_bytes h) 0
      (trozos (so_chunk_size opts) (contenido lector)) = Some out"
    and enc: "encrypt_stream informe C fuente vec_writer lector pw opts r []
       = Some (Inr (), [] @ stream_header_to_bytes h @ out)"
    using encrypt_stream_run [OF assms] .
  let ?n = "so_chunk_size opts"
  have n: "0 < ?n" "4096 \<le> ?n" using assms(7) by (simp_all add: MIN_CHUNK_SIZE_def)
  have "decrypt_stream informe C vec_writer lector' pw (so_pepper opts) [] = Some (Inr (), contenido lector)"
    if l: "sano lector'" "contenido lector' = stream_header_to_bytes h @ out" for lector'
  proof -
    obtain l' where l': "sano l'" "contenido l' = drop (?n + 16) out"
        "decrypt_stream informe C vec_writer lector' pw (so_pepper opts) [] =
         (if length out < 16 then Some (Inl Truncated, [])
          else Some (abrir_loop C vec_writer key prefix (stream_header_to_bytes h) (?n + 16) 0
            (take (?n + 16) out) l' []))"
      using decrypt_stream_header [OF h(1) l(1) assms(3) l(2) length_stream_header [OF h(1)]
          stream_header_read [OF h(1)], of C pw "so_pepper opts" key "[]",
          unfolded h(2-5), OF key] .
    obtain p ps where "trozos ?n (contenido lector) = p # ps"
      using trozos_ne [OF n(1)] by (meson neq_Nil_conv)
    with out have "\<not> length out < 16"
      using sellados_length [OF assms(1), of key prefix "stream_header_to_bytes h" 0 p ps out] by simp
    moreover have "abrir_loop C vec_writer key prefix (stream_header_to_bytes h) (?n + 16) 0
        (take (?n + 16) out) l' [] = (Inr (), [] @ concat (trozos ?n (contenido lector)))"
      using trozos_fit [OF assms(5) n(2)]
      by (intro abrir_loop_sellados [OF assms(1) out trozos_bien [OF n(1)] _ l'(1) refl l'(2)]) simp
    ultimately show ?thesis using l'(3) by (simp add: concat_trozos [OF n(1)])
  qed
  with enc show ?thesis by auto
qed

text \<open>The conveniences in memory are the stream of a slice into a vector.\<close>

lemma stream_bytes_lossless:
  assumes "cripto_ok C" and "fuente_ok fuente" and "report_ok informe" and "length data \<le> 2 ^ 44"
    and "is_sane (so_kdf_params opts)" and "MIN_CHUNK_SIZE \<le> so_chunk_size opts"
    and "so_chunk_size opts \<le> MAX_CHUNK_SIZE"
    and "length (utf8 (nfkc C pw)) + length (so_pepper opts) < 2 ^ 32"
    and "llenar_expect fuente SALT_LEN r = Some (salt, r1)"
    and "llenar_expect fuente NONCE_PREFIX_LEN r1 = Some (prefix, r2)"
  shows "\<exists>blob. encrypt_stream_bytes informe C fuente data pw opts r = Some blob \<and>
    decrypt_stream_bytes informe C blob pw (so_pepper opts) = Some (Inr data)"
proof -
  obtain blob where
    "encrypt_stream informe C fuente vec_writer (slice_reader data) pw opts r [] = Some (Inr (), blob)"
    "decrypt_stream informe C vec_writer (slice_reader blob) pw (so_pepper opts) [] = Some (Inr (), data)"
    using stream_lossless [OF assms(1-3) slice_reader_sano(1) _ assms(5-10), of data] assms(4)
    by (auto simp: slice_reader_sano)
  then show ?thesis by (simp add: encrypt_stream_bytes_def decrypt_stream_bytes_def)
qed

text \<open>A reader that delivers two bytes, is interrupted, and delivers one more.\<close>

definition demo_lector :: "suceso list" where
  "demo_lector = [Datos [1, 2], Interrumpido, Datos [3]]"

lemma demo_stream:
  "sano demo_lector" "length (contenido demo_lector) \<le> 2 ^ 44"
  "is_sane (so_kdf_params stream_options_default)"
  "MIN_CHUNK_SIZE \<le> so_chunk_size stream_options_default"
  "so_chunk_size stream_options_default \<le> MAX_CHUNK_SIZE"
  "length (utf8 (nfkc demo_cripto [97])) + length (so_pepper stream_options_default) < 2 ^ 32"
  by (simp_all add: demo_lector_def stream_options_default_def is_sane_unat MIN_CHUNK_SIZE_def
      MAX_CHUNK_SIZE_def DEFAULT_CHUNK_SIZE_def demo_cripto_def utf8_def utf8_char_def)

lemma demo_stream_draws:
  "llenar_expect demo_fuente SALT_LEN 0 = Some (map of_nat [0..<16], 16)"
  "llenar_expect demo_fuente NONCE_PREFIX_LEN 16 = Some (map of_nat [16..<35], 35)"
  using demo_llenar [of 16 0] demo_llenar [of 19 16]
  by (simp_all add: SALT_LEN_def NONCE_PREFIX_LEN_def del: upt_rec_numeral)

section \<open>Properties\<close>

text \<open>
  C5. Streams of any length up to 16 TiB are lossless, whatever sizes the two readers deliver and
  however often they are interrupted: encryption succeeds and what it writes decrypts, from any
  reader of the same bytes, to exactly what was read.
\<close>
theorem stream_roundtrip:
  assumes "cripto_ok C" and "fuente_ok fuente" and "report_ok informe" and "sano lector"
    and "length (contenido lector) \<le> 2 ^ 44" and "is_sane (so_kdf_params opts)"
    and "MIN_CHUNK_SIZE \<le> so_chunk_size opts" and "so_chunk_size opts \<le> MAX_CHUNK_SIZE"
    and "length (utf8 (nfkc C pw)) + length (so_pepper opts) < 2 ^ 32"
    and "llenar_expect fuente SALT_LEN r = Some (salt, r1)"
    and "llenar_expect fuente NONCE_PREFIX_LEN r1 = Some (prefix, r2)"
  shows "\<exists>out. encrypt_stream informe C fuente vec_writer lector pw opts r [] = Some (Inr (), out) \<and>
    (\<forall>lector'. sano lector' \<and> contenido lector' = out \<longrightarrow>
      decrypt_stream informe C vec_writer lector' pw (so_pepper opts) [] = Some (Inr (), contenido lector))"
  using stream_lossless [OF assms] .

theorem stream_roundtrip_witness:
  "\<exists>out. encrypt_stream demo_informe demo_cripto demo_fuente vec_writer demo_lector [97]
      stream_options_default 0 [] = Some (Inr (), out) \<and>
    (\<forall>lector'. sano lector' \<and> contenido lector' = out \<longrightarrow>
      decrypt_stream demo_informe demo_cripto vec_writer lector' [97]
        (so_pepper stream_options_default) [] = Some (Inr (), contenido demo_lector))"
  by (rule stream_roundtrip [OF demo_cripto_ok demo_fuente_ok demo_informe_ok demo_stream demo_stream_draws])

text \<open>
  C6. \<open>decrypt_stream\<close> releases nothing that is not authentic, also when it fails half way: either
  nothing was written and it fails, or the input is a header and a body, and what was written are
  the plaintexts of the first chunks of that body, each sealed under the key of the header at its
  own position and, when the stream is accepted, all of them, the last under the final flag.
\<close>
theorem stream_writes_only_authentic:
  assumes "cripto_ok C" and "sano lector"
    and "decrypt_stream informe C vec_writer lector pw pepper [] = Some (res, out)"
  shows "out = [] \<and> (\<exists>e. res = Inl e) \<or>
    (\<exists>hb body h key. contenido lector = hb @ body \<and> stream_header_from_bytes hb = Inr h \<and>
      derive_stream_key C pw pepper (sth_kdf_params h) (sth_salt h) (sth_nonce_prefix h) = Some key \<and>
      escrito C key (sth_nonce_prefix h) hb (unat (sth_chunk_size h)) 0 body res out)"
proof (cases "out = [] \<and> (\<exists>e. res = Inl e)")
  case False
  with decrypt_stream_err [OF assms(2,3)] obtain hb body h key
    where b: "contenido lector = hb @ body" "length hb = 57" "stream_header_from_bytes hb = Inr h"
      and i: "report_ok informe"
      and k: "derive_stream_key C pw pepper (sth_kdf_params h) (sth_salt h) (sth_nonce_prefix h) = Some key"
    by blast
  have ok: "stream_header_ok h" using stream_header_from_bytes_Inr [OF b(3,2)] by blast
  obtain l' where l': "sano l'" "contenido l' = drop (unat (sth_chunk_size h) + 16) body"
      "decrypt_stream informe C vec_writer lector pw pepper [] =
       (if length body < 16 then Some (Inl Truncated, [])
        else Some (abrir_loop C vec_writer key (sth_nonce_prefix h) hb (unat (sth_chunk_size h) + 16) 0
          (take (unat (sth_chunk_size h) + 16) body) l' []))"
    using decrypt_stream_header [OF ok assms(2) i b k] .
  have "abrir_loop C vec_writer key (sth_nonce_prefix h) hb (unat (sth_chunk_size h) + 16) 0
      (take (unat (sth_chunk_size h) + 16) body) l' [] = (res, out)"
    using l'(3) assms(3) False by (simp split: if_splits)
  from abrir_loop_authentic [OF assms(1) l'(1) refl l'(2) this]
  have "escrito C key (sth_nonce_prefix h) hb (unat (sth_chunk_size h)) 0 body res out"
    by simp
  with b k show ?thesis by blast
qed simp

theorem stream_writes_only_authentic_witness:
  "\<exists>blob. decrypt_stream demo_informe demo_cripto vec_writer (slice_reader blob) [97]
      (so_pepper stream_options_default) [] = Some (Inr (), [1, 2, 3]) \<and>
    (\<exists>hb body h key. blob = hb @ body \<and> stream_header_from_bytes hb = Inr h \<and>
      escrito demo_cripto key (sth_nonce_prefix h) hb (unat (sth_chunk_size h)) 0 body (Inr ()) [1, 2, 3])"
proof -
  obtain blob where blob: "decrypt_stream demo_informe demo_cripto vec_writer (slice_reader blob) [97]
      (so_pepper stream_options_default) [] = Some (Inr (), [1, 2, 3])"
    using stream_lossless [OF demo_cripto_ok demo_fuente_ok demo_informe_ok demo_stream demo_stream_draws]
      slice_reader_sano by (fastforce simp: demo_lector_def)
  from stream_writes_only_authentic [OF demo_cripto_ok slice_reader_sano(1) this] show ?thesis
    using blob slice_reader_sano(2) by fastforce
qed

end
