(* ===== verification/Netlimit.thy ===== *)
theory Netlimit
  imports Prelude "HOL-Library.AList"
begin

text \<open>
  \<^verbatim>\<open>src/src/netlimit.rs\<close>: the per-address limiter of the online OPRF server.  The hash
  map is an association list with distinct keys; an instant is a number of nanoseconds, and
  \<^verbatim>\<open>duration_since\<close> of a later instant is zero, as subtraction of naturals is.
\<close>

record 'ip rate_limiter =
  hits :: "('ip \<times> (u32 \<times> nat)) list"
  max_per_window :: u32
  window :: nat
  max_tracked :: nat

definition rate_limiter_new :: "u32 \<Rightarrow> nat \<Rightarrow> nat \<Rightarrow> 'ip rate_limiter" where
  "rate_limiter_new maximo ventana tope =
     \<lparr>hits = [], max_per_window = maximo, window = ventana, max_tracked = max tope 1\<rparr>"

text \<open>The purge of expired entries, when the map is full.\<close>

definition purgar :: "nat \<Rightarrow> 'ip rate_limiter \<Rightarrow> 'ip rate_limiter" where
  "purgar now L =
     (if max_tracked L \<le> length (hits L)
      then L\<lparr>hits := filter (\<lambda>(_, _, seen). now - seen \<le> window L) (hits L)\<rparr> else L)"

definition allow_at :: "'ip \<Rightarrow> nat \<Rightarrow> 'ip rate_limiter \<Rightarrow> bool \<times> 'ip rate_limiter" where
  "allow_at ip now L =
     (let L = purgar now L
      in if max_tracked L \<le> length (hits L) \<and> map_of (hits L) ip = None then (False, L)
         else
           let entry = (case map_of (hits L) ip of None \<Rightarrow> (0, now) | Some e \<Rightarrow> e);
               entry = (if window L < now - snd entry then (0, now) else entry)
           in if max_per_window L \<le> fst entry
              then (False, L\<lparr>hits := AList.update ip entry (hits L)\<rparr>)
              else (True, L\<lparr>hits := AList.update ip (fst entry + 1, snd entry) (hits L)\<rparr>))"

definition tracked :: "'ip rate_limiter \<Rightarrow> nat" where
  "tracked L = length (hits L)"

text \<open>A run: the requests with their instants, and the answers.\<close>

fun atender :: "('ip \<times> nat) list \<Rightarrow> 'ip rate_limiter \<Rightarrow> bool list \<times> 'ip rate_limiter" where
  "atender [] L = ([], L)"
| "atender ((ip, now) # ps) L =
     (let (b, L1) = allow_at ip now L; (bs, L2) = atender ps L1 in (b # bs, L2))"

text \<open>How many requests of \<open>ip\<close> were granted.\<close>

definition concedidas :: "'ip \<Rightarrow> ('ip \<times> nat) list \<Rightarrow> bool list \<Rightarrow> nat" where
  "concedidas ip ps bs = length (filter (\<lambda>(p, b). fst p = ip \<and> b) (zip ps bs))"

section \<open>Bounded memory\<close>

lemma length_update: "length (AList.update k v al) = (if k \<in> fst ` set al then length al else Suc (length al))"
  by (induction al) auto

definition limitador_ok :: "'ip rate_limiter \<Rightarrow> bool" where
  "limitador_ok L \<longleftrightarrow> distinct (map fst (hits L)) \<and> length (hits L) \<le> max_tracked L \<and> 0 < max_tracked L"

lemma limitador_new_ok: "limitador_ok (rate_limiter_new m w t)"
  by (simp add: limitador_ok_def rate_limiter_new_def)

lemma distinct_map_filter_fst: "distinct (map fst al) \<Longrightarrow> distinct (map fst (filter P al))"
  by (induction al) (auto simp: image_iff)

lemma purgar_ok: "limitador_ok L \<Longrightarrow> limitador_ok (purgar now L)"
  by (auto simp: limitador_ok_def purgar_def distinct_map_filter_fst
      intro: order_trans [OF length_filter_le])

lemma purgar_same [simp]:
  "max_per_window (purgar now L) = max_per_window L" "window (purgar now L) = window L"
  "max_tracked (purgar now L) = max_tracked L"
  by (simp_all add: purgar_def)

lemma allow_at_same:
  "allow_at ip now L = (b, L') \<Longrightarrow>
    max_per_window L' = max_per_window L \<and> window L' = window L \<and> max_tracked L' = max_tracked L"
  by (auto simp: allow_at_def Let_def split: if_splits)

lemma limitador_ok_update:
  assumes "limitador_ok L" and "\<not> (max_tracked L \<le> length (hits L) \<and> map_of (hits L) ip = None)"
  shows "limitador_ok (L\<lparr>hits := AList.update ip e (hits L)\<rparr>)"
  using assms by (auto simp: limitador_ok_def length_update distinct_update map_of_eq_None_iff)

lemma allow_at_ok:
  assumes "limitador_ok L" and "allow_at ip now L = (b, L')"
  shows "limitador_ok L'"
proof (cases "max_tracked (purgar now L) \<le> length (hits (purgar now L)) \<and>
    map_of (hits (purgar now L)) ip = None")
  case True
  then show ?thesis using assms(2) purgar_ok [OF assms(1), of now] by (auto simp: allow_at_def Let_def)
next
  case False
  let ?P = "purgar now L"
  let ?e = "case map_of (hits ?P) ip of None \<Rightarrow> (0, now) | Some e \<Rightarrow> e"
  let ?f = "if window L < now - snd ?e then (0, now) else ?e"
  have "L' = ?P\<lparr>hits := AList.update ip
      (if max_per_window L \<le> fst ?f then ?f else (fst ?f + 1, snd ?f)) (hits ?P)\<rparr>"
    using assms(2) False by (simp add: allow_at_def Let_def split: if_splits)
  then show ?thesis
    using limitador_ok_update [OF purgar_ok [OF assms(1)] False] by (simp only:)
qed

lemma atender_ok:
  "limitador_ok L \<Longrightarrow> atender ps L = (bs, L') \<Longrightarrow>
    limitador_ok L' \<and> length bs = length ps \<and> max_tracked L' = max_tracked L"
proof (induction ps arbitrary: L bs)
  case (Cons p ps)
  obtain ip now where p: "p = (ip, now)" by fastforce
  obtain b L1 where 1: "allow_at ip now L = (b, L1)" by fastforce
  then show ?case
    using Cons allow_at_ok [OF Cons.prems(1) 1] allow_at_same [OF 1]
    by (fastforce simp: p split: prod.splits)
qed simp

section \<open>What one request does to the entries\<close>

text \<open>The entry of another address is kept, or was expired.\<close>

lemma purgar_entry:
  assumes "limitador_ok L"
  shows "map_of (hits (purgar now L)) ip =
    (case map_of (hits L) ip of
       None \<Rightarrow> None
     | Some (c, s) \<Rightarrow> (if max_tracked L \<le> length (hits L) \<and> window L < now - s then None else Some (c, s)))"
proof -
  have "map_of (filter (\<lambda>(_, _, seen). now - seen \<le> window L) al) ip =
      (case map_of al ip of None \<Rightarrow> None
       | Some (c, s) \<Rightarrow> (if window L < now - s then None else Some (c, s)))"
    if "distinct (map fst al)" for al :: "('a \<times> u32 \<times> nat) list"
    using that
    by (induction al) (auto split: option.splits simp: map_of_eq_None_iff image_iff dest: map_of_SomeD)
  then show ?thesis
    using assms by (auto simp: limitador_ok_def purgar_def split: option.splits)
qed

lemma allow_at_other:
  assumes "limitador_ok L" and "allow_at ip now L = (b, L')" and "ip' \<noteq> ip"
  shows "map_of (hits L') ip' = None \<and> map_of (hits L) ip' = None \<or>
    (\<exists>c s. map_of (hits L) ip' = Some (c, s) \<and>
      (map_of (hits L') ip' = Some (c, s) \<or> map_of (hits L') ip' = None \<and> window L < now - s))"
  using assms(2,3) purgar_entry [OF assms(1), of now ip']
  by (auto simp: allow_at_def Let_def update_conv' split: if_splits option.splits)

lemma allow_at_own:
  assumes "limitador_ok L" and "allow_at ip now L = (b, L')"
  shows "case map_of (hits L) ip of
      Some (c, s) \<Rightarrow>
        if window L < now - s
        then map_of (hits L') ip = None \<and> \<not> b \<or>
          map_of (hits L') ip = Some (if b then 1 else 0, now) \<and> b = (0 < max_per_window L)
        else if c < max_per_window L then b \<and> map_of (hits L') ip = Some (c + 1, s)
        else \<not> b \<and> map_of (hits L') ip = Some (c, s)
    | None \<Rightarrow> map_of (hits L') ip = None \<and> \<not> b \<or>
        map_of (hits L') ip = Some (if b then 1 else 0, now) \<and> b = (0 < max_per_window L)"
  using assms(2) purgar_entry [OF assms(1), of now ip]
  by (auto simp: allow_at_def Let_def update_conv' word_neq_0_conv [symmetric] not_le word_le_0_iff
      split: if_splits option.splits)

section \<open>How much one address can get\<close>

lemma concedidas_Cons:
  "concedidas ip ((ip', now) # ps) (b # bs) = (if ip' = ip \<and> b then 1 else 0) + concedidas ip ps bs"
  by (simp add: concedidas_def)

lemma concedidas_Nil [simp]: "concedidas ip [] bs = 0"
  by (simp add: concedidas_def)

text \<open>While a window that began at \<open>s\<close> lasts, what is left of the quota is granted, no more.\<close>

lemma dentro_de_la_ventana:
  "limitador_ok L \<Longrightarrow> atender ps L = (bs, L') \<Longrightarrow> map_of (hits L) ip = Some (c, s) \<Longrightarrow>
    \<forall>p \<in> set ps. snd p \<le> s + window L \<Longrightarrow>
    concedidas ip ps bs \<le> unat (max_per_window L) - unat c"
proof (induction ps arbitrary: L bs c)
  case (Cons p ps)
  obtain ip' now where p: "p = (ip', now)" by fastforce
  obtain b L1 where 1: "allow_at ip' now L = (b, L1)" by fastforce
  obtain bs' where 2: "atender ps L1 = (bs', L')" "bs = b # bs'"
    using Cons.prems(2) 1 by (auto simp: p split: prod.splits)
  have ok: "limitador_ok L1" and same: "window L1 = window L" "max_per_window L1 = max_per_window L"
    using allow_at_ok [OF Cons.prems(1) 1] allow_at_same [OF 1] by simp_all
  have live: "\<not> window L < now - s" using Cons.prems(4) by (auto simp: p)
  note IH = Cons.IH [OF ok 2(1)]
  show ?case
  proof (cases "ip' = ip")
    case False
    then have "map_of (hits L1) ip = Some (c, s)"
      using allow_at_other [OF Cons.prems(1) 1, of ip] Cons.prems(3) live by auto
    with IH Cons.prems(4) False show ?thesis by (simp add: p 2 same concedidas_Cons)
  next
    case True
    note own = allow_at_own [OF Cons.prems(1) 1, unfolded True Cons.prems(3)]
    show ?thesis
    proof (cases "c < max_per_window L")
      case lt: True
      then have "map_of (hits L1) ip = Some (c + 1, s)" and b
        using own live by simp_all
      moreover have "unat c < unat (max_per_window L)" using lt by (simp add: word_less_nat_alt)
      moreover from this have "unat (c + 1) = unat c + 1"
        using unat_u32_lt [of "max_per_window L"] by (simp add: unat_word_ariths)
      ultimately show ?thesis
        using IH [of "c + 1"] Cons.prems(4) True by (simp add: p 2 same concedidas_Cons)
    next
      case False
      then have "map_of (hits L1) ip = Some (c, s)" and "\<not> b"
        using own live by simp_all
      with IH Cons.prems(4) show ?thesis by (simp add: p 2 same concedidas_Cons)
    qed
  qed
qed simp

text \<open>No entry counts more than the quota, and one of nothing is of an empty quota.\<close>

definition cuota_ok :: "u32 \<Rightarrow> u32 \<Rightarrow> bool" where
  "cuota_ok m c \<longleftrightarrow> c \<le> m \<and> (c = 0 \<longrightarrow> m = 0)"

definition cuotas_ok :: "'ip rate_limiter \<Rightarrow> bool" where
  "cuotas_ok L \<longleftrightarrow>
     (\<forall>ip c s. map_of (hits L) ip = Some (c, s) \<longrightarrow> cuota_ok (max_per_window L) c)"

lemma cuota_ok_inc: "c < m \<Longrightarrow> cuota_ok m (c + 1)"
proof -
  assume c: "c < m"
  then have "unat (c + 1) = unat c + 1"
    using unat_u32_lt [of m] by (simp add: word_less_nat_alt unat_word_ariths)
  then show ?thesis using c by (auto simp: cuota_ok_def word_less_nat_alt word_le_nat_alt)
qed

lemma cuota_ok_one: "0 < m \<Longrightarrow> cuota_ok m 1"
  by (simp add: cuota_ok_def word_less_nat_alt word_le_nat_alt)

lemma allow_at_cuotas:
  assumes "limitador_ok L" and "cuotas_ok L" and 1: "allow_at ip now L = (b, L')"
  shows "cuotas_ok L'"
  unfolding cuotas_ok_def
proof (intro allI impI)
  fix ip' c s assume e: "map_of (hits L') ip' = Some (c, s)"
  let ?m = "max_per_window L"
  have old: "cuota_ok ?m c" if "map_of (hits L) ip' = Some (c, s)" for c s
    using assms(2) that unfolding cuotas_ok_def by blast
  have "cuota_ok ?m c"
  proof (cases "ip' = ip")
    case False
    then show ?thesis using allow_at_other [OF assms(1) 1, of ip'] e old by auto
  next
    case True
    note own = allow_at_own [OF assms(1) 1]
    have new: "cuota_ok ?m (if b then 1 else 0)" if "b = (0 < ?m)"
      using that cuota_ok_one by (auto simp: cuota_ok_def word_neq_0_conv [symmetric])
    show ?thesis
    proof (cases "map_of (hits L) ip")
      case None
      with own e True show ?thesis using new by auto
    next
      case (Some x)
      obtain c' s' where x: "x = (c', s')" by fastforce
      show ?thesis
        using own e True new old [of c' s'] cuota_ok_inc [of c' ?m]
        by (auto simp: Some x split: if_splits)
    qed
  qed
  then show "cuota_ok (max_per_window L') c"
    using allow_at_same [OF 1] by simp
qed

lemma atender_cuotas:
  "limitador_ok L \<Longrightarrow> cuotas_ok L \<Longrightarrow> atender ps L = (bs, L') \<Longrightarrow>
    cuotas_ok L' \<and> max_per_window L' = max_per_window L \<and> window L' = window L"
proof (induction ps arbitrary: L bs)
  case (Cons p ps)
  obtain ip now where p: "p = (ip, now)" by fastforce
  obtain b L1 where 1: "allow_at ip now L = (b, L1)" by fastforce
  obtain bs' where 2: "atender ps L1 = (bs', L')"
    using Cons.prems(3) 1 by (auto simp: p split: prod.splits)
  show ?case
    using Cons.IH [OF allow_at_ok [OF Cons.prems(1) 1] allow_at_cuotas [OF Cons.prems(1,2) 1] 2]
      allow_at_same [OF 1] by simp
qed simp

text \<open>
  Over any stretch no longer than a window, two windows can overlap it: the one that was open and
  the one opened inside it.
\<close>

lemma a_lo_mas_dos_ventanas:
  "limitador_ok L \<Longrightarrow> cuotas_ok L \<Longrightarrow> atender ps L = (bs, L') \<Longrightarrow>
    sorted (map snd ps) \<Longrightarrow> \<forall>p \<in> set ps. a \<le> snd p \<and> snd p \<le> a + window L \<Longrightarrow>
    concedidas ip ps bs \<le>
      (case map_of (hits L) ip of None \<Rightarrow> unat (max_per_window L)
       | Some (c, s) \<Rightarrow> 2 * unat (max_per_window L) - unat c)"
proof (induction ps arbitrary: L bs)
  case (Cons p ps)
  obtain ip' now where p: "p = (ip', now)" by fastforce
  obtain b L1 where 1: "allow_at ip' now L = (b, L1)" by fastforce
  obtain bs' where 2: "atender ps L1 = (bs', L')" "bs = b # bs'"
    using Cons.prems(3) 1 by (auto simp: p split: prod.splits)
  have ok: "limitador_ok L1" and same: "window L1 = window L" "max_per_window L1 = max_per_window L"
    using allow_at_ok [OF Cons.prems(1) 1] allow_at_same [OF 1] by simp_all
  let ?m = "unat (max_per_window L)"
  have IH: "concedidas ip ps bs' \<le> (case map_of (hits L1) ip of None \<Rightarrow> ?m
       | Some (c, s) \<Rightarrow> 2 * ?m - unat c)"
    using Cons.IH [OF ok allow_at_cuotas [OF Cons.prems(1,2) 1] 2(1)] Cons.prems(4,5) by (simp add: p same cong: option.case_cong)
  have fresh: "concedidas ip ps bs' \<le> ?m - unat c" if "map_of (hits L1) ip = Some (c, now)" for c
  proof -
    have "\<forall>q \<in> set ps. snd q \<le> now + window L1"
      using Cons.prems(5) by (fastforce simp: p same)
    from dentro_de_la_ventana [OF ok 2(1) that this] show ?thesis by (simp add: same)
  qed
  have quota: "unat c \<le> ?m" if "map_of (hits L) ip = Some (c, s)" for c s
    using Cons.prems(2) that unfolding cuotas_ok_def cuota_ok_def word_le_nat_alt by blast
  show ?case
  proof (cases "ip' = ip")
    case False
    then show ?thesis
      using allow_at_other [OF Cons.prems(1) 1, of ip] IH quota
      by (fastforce simp: p 2 concedidas_Cons split: option.splits)
  next
    case True
    note own = allow_at_own [OF Cons.prems(1) 1, unfolded True]
    have new: "(if b then 1 else 0) + concedidas ip ps bs' \<le> ?m"
      if "map_of (hits L1) ip = None \<and> \<not> b \<or>
        map_of (hits L1) ip = Some (if b then 1 else 0, now) \<and> b = (0 < max_per_window L)"
      using that
    proof (elim disjE conjE)
      assume "map_of (hits L1) ip = Some (if b then 1 else 0, now)" "b = (0 < max_per_window L)"
      moreover from this have "b \<longrightarrow> 0 < ?m" by (simp add: word_less_nat_alt)
      ultimately show ?thesis using fresh by (cases b) fastforce+
    qed (use IH in simp)
    show ?thesis
    proof (cases "map_of (hits L) ip")
      case None
      then show ?thesis using new own by (simp add: p 2 True concedidas_Cons)
    next
      case (Some e)
      obtain c s where e: "e = (c, s)" by fastforce
      show ?thesis
      proof (cases "window L < now - s")
        case True
        then show ?thesis
          using new own quota [of c s] by (simp add: p 2 \<open>ip' = ip\<close> concedidas_Cons Some e)
      next
        case live: False
        show ?thesis
        proof (cases "c < max_per_window L")
          case lt: True
          then have "map_of (hits L1) ip = Some (c + 1, s)" and b
            using own live by (simp_all add: Some e)
          moreover have "unat c < ?m" using lt by (simp add: word_less_nat_alt)
          moreover from this have "unat (c + 1) = unat c + 1"
            using unat_u32_lt [of "max_per_window L"] by (simp add: unat_word_ariths)
          ultimately show ?thesis using IH by (simp add: p 2 concedidas_Cons Some e \<open>ip' = ip\<close>)
        next
          case False
          then have "map_of (hits L1) ip = Some (c, s)" and "\<not> b"
            using own live by (simp_all add: Some e)
          then show ?thesis using IH by (simp add: p 2 concedidas_Cons Some e)
        qed
      qed
    qed
  qed
qed simp

text \<open>What is left when the stretch starts, in terms of the quota alone.\<close>

lemma quota_twice:
  assumes "limitador_ok L" and "cuotas_ok L" and "atender ps L = (bs, L')" and "sorted (map snd ps)"
    and "\<forall>p \<in> set ps. a \<le> snd p \<and> snd p \<le> a + window L"
  shows "concedidas ip ps bs \<le> 2 * unat (max_per_window L) - 1"
proof (cases "map_of (hits L) ip")
  case None
  then show ?thesis using a_lo_mas_dos_ventanas [OF assms, of ip] by simp
next
  case (Some e)
  obtain c s where e: "e = (c, s)" by fastforce
  have "c \<noteq> 0 \<or> max_per_window L = 0"
    using assms(2) Some unfolding e cuotas_ok_def cuota_ok_def by blast
  then have "unat c \<noteq> 0 \<or> unat (max_per_window L) = 0" by (simp add: unat_eq_0)
  then show ?thesis using a_lo_mas_dos_ventanas [OF assms, of ip] by (auto simp: Some e)
qed

text \<open>
  The bound is reached: with two requests per 60, three are granted within one unit of time.  The
  window is not a sliding one.
\<close>

lemma ventana_no_deslizante:
  "\<exists>L bs L'. atender [(0 :: nat, 0)] (rate_limiter_new 2 60 10) = ([True], L) \<and>
    atender [(0, 60), (0, 61), (0, 61)] L = (bs, L') \<and>
    concedidas (0 :: nat) [(0, 60), (0, 61), (0, 61)] bs = 3"
  by (simp add: rate_limiter_new_def allow_at_def purgar_def Let_def concedidas_def word_le_nat_alt)

section \<open>Properties\<close>

text \<open>
  C13. The limiter's memory is bounded and its windows are fixed ones: from its creation on, whatever
  addresses and instants come, it never tracks more addresses than its cap (at least one).  While the window
  of an address lasts, the address is granted no more than what is left of its quota, and one that is not
  tracked no more than its quota within a window's time; so in any stretch of the run no longer than a
  window, which may overlap two of them, it is granted less than twice its quota.
\<close>
theorem netlimit_bounded:
  assumes "atender antes (rate_limiter_new maximo ventana tope) = (bs0, L)"
    and "atender ps L = (bs, L')" and "sorted (map snd ps)"
    and "\<forall>p \<in> set ps. a \<le> snd p \<and> snd p \<le> a + ventana"
  shows "tracked L' \<le> max tope 1 \<and> concedidas ip ps bs \<le> 2 * unat maximo - 1 \<and>
    (map_of (hits L) ip = None \<longrightarrow> concedidas ip ps bs \<le> unat maximo) \<and>
    (\<forall>c s. map_of (hits L) ip = Some (c, s) \<longrightarrow> (\<forall>p \<in> set ps. snd p \<le> s + ventana) \<longrightarrow>
      concedidas ip ps bs \<le> unat maximo - unat c)"
proof -
  have new: "cuotas_ok (rate_limiter_new maximo ventana tope)"
    by (simp add: cuotas_ok_def rate_limiter_new_def)
  note ok = atender_ok [OF limitador_new_ok assms(1)]
  note q = atender_cuotas [OF limitador_new_ok new assms(1)]
  have m: "max_per_window L = maximo" "window L = ventana" using q by (simp_all add: rate_limiter_new_def)
  have okL: "limitador_ok L" and qL: "cuotas_ok L" using ok q by simp_all
  have within: "\<forall>p \<in> set ps. a \<le> snd p \<and> snd p \<le> a + window L" using assms(4) by (simp add: m)
  have "concedidas ip ps bs \<le> unat maximo - unat c" if "map_of (hits L) ip = Some (c, s)" "\<forall>p \<in> set ps. snd p \<le> s + ventana" for c s
    using dentro_de_la_ventana [OF okL assms(2) that(1)] that(2) unfolding m by simp
  moreover have "concedidas ip ps bs \<le> unat maximo" if "map_of (hits L) ip = None"
    using a_lo_mas_dos_ventanas [OF okL qL assms(2,3) within, of ip] that by (simp add: m)
  moreover have "tracked L' \<le> max tope 1"
    using atender_ok [OF _ assms(2)] ok
    by (auto simp: tracked_def limitador_ok_def rate_limiter_new_def)
  ultimately show ?thesis using quota_twice [OF okL qL assms(2,3) within, of ip] unfolding m by blast
qed

theorem netlimit_bounded_witness:
  "\<exists>L bs L'. atender [(0 :: nat, 0)] (rate_limiter_new 2 60 10) = ([True], L) \<and>
    atender [(0, 60), (0, 61), (0, 61)] L = (bs, L') \<and>
    tracked L' \<le> 10 \<and> concedidas (0 :: nat) [(0, 60), (0, 61), (0, 61)] bs \<le> 3"
proof -
  obtain L bs L' where 1: "atender [(0 :: nat, 0)] (rate_limiter_new 2 60 10) = ([True], L)"
      "atender [(0, 60), (0, 61), (0, 61)] L = (bs, L')"
    using ventana_no_deslizante by blast
  then have "tracked L' \<le> 10 \<and> concedidas (0 :: nat) [(0, 60), (0, 61), (0, 61)] bs \<le> 3"
    using netlimit_bounded [OF 1, of 60 0] by simp
  with 1 show ?thesis by blast
qed

end
