(* ===== verification/Hexutil.thy ===== *)
theory Hexutil
  imports Roundtrip "HOL-Library.Monad_Syntax"
begin

text \<open>
  \<^verbatim>\<open>crates/quipu-oprf-server/src/hexutil.rs\<close>: hexadecimal texts.  A Rust string is the list of
  its UTF-8 bytes here; \<open>ascii\<close> writes a literal.
\<close>

definition ascii :: "string \<Rightarrow> bytes" where
  "ascii s = map of_char s"

text \<open>\<^verbatim>\<open>format!("{n}")\<close> of a number without sign.\<close>

fun decimal :: "nat \<Rightarrow> bytes" where
  "decimal n = (if n < 10 then [48 + of_nat n] else decimal (n div 10) @ [48 + of_nat (n mod 10)])"

declare decimal.simps [simp del]

text \<open>\<^verbatim>\<open>char::from_digit(d, 16).unwrap()\<close>, for the digits below 16 that are passed to it.\<close>

definition from_digit :: "u8 \<Rightarrow> u8" where
  "from_digit d = (if d < 10 then 48 + d else 87 + d)"

definition to_hex :: "bytes \<Rightarrow> bytes" where
  "to_hex bs = concat (map (\<lambda>b. [from_digit (drop_bit 4 b), from_digit (b AND 0x0f)]) bs)"

definition hexval :: "u8 \<Rightarrow> u8 option" where
  "hexval c =
     (if 48 \<le> c \<and> c \<le> 57 then Some (c - 48)
      else if 97 \<le> c \<and> c \<le> 102 then Some (c - 97 + 10)
      else if 65 \<le> c \<and> c \<le> 70 then Some (c - 65 + 10)
      else None)"

text \<open>The loop over the pairs of digits, the same one in both readers.\<close>

fun hex_pares :: "bytes \<Rightarrow> bytes option" where
  "hex_pares (a # b # resto) =
     do {
       x \<leftarrow> hexval a;
       y \<leftarrow> hexval b;
       bs \<leftarrow> hex_pares resto;
       Some ((push_bit 4 x OR y) # bs)
     }"
| "hex_pares _ = Some []"

definition from_hex_32 :: "bytes \<Rightarrow> bytes option" where
  "from_hex_32 s = (if length s \<noteq> 64 then None else hex_pares s)"

definition from_hex :: "bytes \<Rightarrow> bytes option" where
  "from_hex s = (if odd (length s) then None else hex_pares s)"

section \<open>Digits\<close>

lemma hexval_from_digit:
  assumes "d < 16"
  shows "hexval (from_digit d) = Some d"
proof (cases "d < 10")
  case True
  then have "unat d < 10" by (simp add: word_less_nat_alt)
  then have "unat (48 + d) = 48 + unat d" by (simp add: unat_word_ariths)
  with True \<open>unat d < 10\<close> show ?thesis
    by (simp add: from_digit_def hexval_def word_le_nat_alt)
next
  case False
  then have "10 \<le> unat d" "unat d < 16" using assms by (simp_all add: word_less_nat_alt)
  then have "unat (87 + d) = 87 + unat d" by (simp add: unat_word_ariths)
  with False \<open>10 \<le> unat d\<close> \<open>unat d < 16\<close> show ?thesis
    by (simp add: from_digit_def hexval_def word_le_nat_alt)
qed

lemma nibbles_less: "drop_bit 4 (b :: u8) < 16" "(b AND 0x0f :: u8) < 16"
proof -
  have "unat (drop_bit 4 b) = unat b div 2 ^ 4"
    by (rule trans [OF unat_drop_bit_eq drop_bit_eq_div])
  also have "\<dots> < 16"
    using unat_u8_lt [of b] by (intro less_mult_imp_div_less) simp
  finally have "unat (drop_bit 4 b) < 16" .
  then show "drop_bit 4 b < 16" by (simp add: word_less_nat_alt)
  have "(b AND 0x0f :: u8) = take_bit 4 b" by (simp add: take_bit_eq_mask mask_numeral)
  then have "unat (b AND 0x0f :: u8) < 2 ^ 4" by (simp only: unsigned_take_bit_eq take_bit_nat_less_exp)
  then show "(b AND 0x0f :: u8) < 16" by (simp add: word_less_nat_alt)
qed

lemma join_nibbles: "push_bit 4 (drop_bit 4 b) OR (b AND 0x0f) = (b :: u8)"
proof -
  have "(b AND 0x0f :: u8) = take_bit 4 b" by (simp add: take_bit_eq_mask mask_numeral)
  then show ?thesis by (intro bit_word_eqI) (auto simp: bit_simps)
qed

lemma length_to_hex [simp]: "length (to_hex bs) = 2 * length bs"
  by (induction bs) (simp_all add: to_hex_def)

lemma hex_pares_to_hex: "hex_pares (to_hex bs) = Some bs"
proof (induction bs)
  case (Cons b bs)
  have "to_hex (b # bs) = from_digit (drop_bit 4 b) # from_digit (b AND 0x0f) # to_hex bs"
    by (simp add: to_hex_def)
  then show ?case
    using Cons by (simp add: hexval_from_digit nibbles_less join_nibbles)
qed (simp add: to_hex_def)

lemma from_hex_to_hex: "from_hex (to_hex bs) = Some bs"
  by (simp add: from_hex_def hex_pares_to_hex)

lemma from_hex_32_to_hex: "length bs = 32 \<Longrightarrow> from_hex_32 (to_hex bs) = Some bs"
  by (simp add: from_hex_32_def hex_pares_to_hex)

lemma hex_pares_length: "hex_pares s = Some bs \<Longrightarrow> length bs = length s div 2"
  by (induction s arbitrary: bs rule: hex_pares.induct) (auto split: bind_splits)

lemma from_hex_32_length: "from_hex_32 s = Some bs \<Longrightarrow> length bs = 32 \<and> length s = 64"
  by (auto simp: from_hex_32_def dest: hex_pares_length split: if_splits)

lemma hexval_Some_iff: "(\<exists>d. hexval c = Some d) \<longleftrightarrow>
    48 \<le> c \<and> c \<le> 57 \<or> 97 \<le> c \<and> c \<le> 102 \<or> 65 \<le> c \<and> c \<le> 70"
  by (simp add: hexval_def)

lemma hexval_from_digit_Some: "d < 16 \<Longrightarrow> \<exists>v. hexval (from_digit d) = Some v"
  using hexval_from_digit by blast

lemma to_hex_digits: "c \<in> set (to_hex bs) \<Longrightarrow> \<exists>v. hexval c = Some v"
  using nibbles_less by (auto simp: to_hex_def hexval_from_digit)

interpretation hexadecimal: roundtrip to_hex
    "\<lambda>s. case from_hex s of None \<Rightarrow> Inl () | Some b \<Rightarrow> Inr b" "\<lambda>_. True"
  by unfold_locales (simp add: from_hex_to_hex)

end
