(* ===== verification/Keys.thy ===== *)
theory Keys
  imports Hexutil Aleatorio
begin

text \<open>
  \<^verbatim>\<open>crates/quipu-oprf-server/src/keys.rs\<close>: API keys \<^verbatim>\<open>quipu_live_<64 hex>\<close>.  The store
  keeps the prefix (the first twelve hexadecimal digits) and the SHA-256 of the whole secret.
\<close>

definition KEY_TAG :: bytes where
  "KEY_TAG = ascii ''quipu_live_''"

definition HEX_LEN :: nat where
  "HEX_LEN = 64"

definition PREFIX_HEX_LEN :: nat where
  "PREFIX_HEX_LEN = 12"

record generated_key =
  gk_secret :: bytes
  gk_prefix :: bytes
  gk_hash :: bytes

text \<open>\<^verbatim>\<open>getrandom::fill(..).expect(..)\<close>, without the health test.\<close>

definition fill_expect :: "'r fuente \<Rightarrow> nat \<Rightarrow> 'r \<Rightarrow> (bytes \<times> 'r) option" where
  "fill_expect fuente n r = (case fuente r n of (Inl _, _) \<Rightarrow> None | (Inr b, r') \<Rightarrow> Some (b, r'))"

definition random_id :: "'r fuente \<Rightarrow> 'r \<Rightarrow> (bytes \<times> 'r) option" where
  "random_id fuente r =
     (case fill_expect fuente 16 r of None \<Rightarrow> None | Some (raw, r') \<Rightarrow> Some (to_hex raw, r'))"

definition generate :: "(bytes \<Rightarrow> bytes) \<Rightarrow> 'r fuente \<Rightarrow> 'r \<Rightarrow> (generated_key \<times> 'r) option" where
  "generate sha fuente r =
     (case fill_expect fuente 32 r of
        None \<Rightarrow> None
      | Some (raw, r') \<Rightarrow>
          let hex = to_hex raw;
              secret = KEY_TAG @ hex
          in Some (\<lparr>gk_secret = secret, gk_prefix = KEY_TAG @ take PREFIX_HEX_LEN hex,
                    gk_hash = sha secret\<rparr>, r'))"

definition is_ascii_hexdigit :: "u8 \<Rightarrow> bool" where
  "is_ascii_hexdigit c \<longleftrightarrow>
     48 \<le> c \<and> c \<le> 57 \<or> 97 \<le> c \<and> c \<le> 102 \<or> 65 \<le> c \<and> c \<le> 70"

definition strip_prefix :: "bytes \<Rightarrow> bytes \<Rightarrow> bytes option" where
  "strip_prefix p s = (if take (length p) s = p then Some (drop (length p) s) else None)"

text \<open>The prefix and the hash of a key that is presented.\<close>

definition parse :: "(bytes \<Rightarrow> bytes) \<Rightarrow> bytes \<Rightarrow> (bytes \<times> bytes) option" where
  "parse sha presented =
     (case strip_prefix KEY_TAG presented of
        None \<Rightarrow> None
      | Some rest \<Rightarrow>
          if length rest \<noteq> HEX_LEN \<or> \<not> list_all is_ascii_hexdigit rest then None
          else Some (KEY_TAG @ take PREFIX_HEX_LEN rest, sha presented))"

section \<open>Lemmas\<close>

lemma strip_prefix_append [simp]: "strip_prefix p (p @ s) = Some s"
  by (simp add: strip_prefix_def)

lemma strip_prefix_Some: "strip_prefix p s = Some rest \<longleftrightarrow> s = p @ rest"
  by (auto simp: strip_prefix_def) (metis append_take_drop_id)

lemma parse_Some_iff:
  "parse sha s = Some (prefix, hash) \<longleftrightarrow>
    (\<exists>hex. s = KEY_TAG @ hex \<and> length hex = HEX_LEN \<and> list_all is_ascii_hexdigit hex \<and>
      prefix = KEY_TAG @ take PREFIX_HEX_LEN hex \<and> hash = sha s)"
  by (auto simp: parse_def strip_prefix_Some split: option.splits)

text \<open>A key just generated parses to what the store was given.\<close>

lemma parse_generate:
  assumes "fuente_ok fuente" and "generate sha fuente r = Some (k, r')"
  shows "parse sha (gk_secret k) = Some (gk_prefix k, gk_hash k)"
proof -
  obtain raw where raw: "fuente r 32 = (Inr raw, r')"
      and k: "k = \<lparr>gk_secret = KEY_TAG @ to_hex raw, gk_prefix = KEY_TAG @ take PREFIX_HEX_LEN (to_hex raw),
        gk_hash = sha (KEY_TAG @ to_hex raw)\<rparr>"
    using assms(2) by (auto simp: generate_def fill_expect_def Let_def split: option.splits sum.splits prod.splits)
  have "length raw = 32" using assms(1) raw unfolding fuente_ok_def by blast
  moreover have "list_all is_ascii_hexdigit (to_hex raw)"
    using to_hex_digits [of _ raw] hexval_Some_iff
    by (fastforce simp: list_all_iff is_ascii_hexdigit_def)
  ultimately show ?thesis by (simp add: k parse_Some_iff HEX_LEN_def)
qed

text \<open>Two presented keys with the same prefix and hash are the same, unless the hash collides.\<close>

lemma parse_hash: "parse sha s = Some (p, h) \<Longrightarrow> h = sha s"
  by (auto simp: parse_Some_iff)

end
