(* ===== verification/Plans.thy ===== *)
theory Plans
  imports Hexutil Complex_Main
begin

text \<open>
  \<^verbatim>\<open>crates/quipu-oprf-server/src/plans.rs\<close> and \<^verbatim>\<open>ratelimit.rs\<close>: what each plan grants, and the token
  bucket that enforces its burst.  An \<^verbatim>\<open>f64\<close> is the rational it stands for; the rounding of the
  floating-point operations is a parameter \<open>rd\<close> (\<open>f64_ok\<close> states what IEEE 754 says of it), and no
  value here is infinite or not a number.
\<close>

section \<open>Plans\<close>

type_synonym f64 = rat

record plan =
  plan_name :: bytes
  plan_quota_monthly :: u64
  plan_rate_capacity :: f64
  plan_rate_refill_per_sec :: f64

definition PLANS :: "plan list" where
  "PLANS =
     [\<lparr>plan_name = ascii ''starter'', plan_quota_monthly = 250000,
       plan_rate_capacity = 60, plan_rate_refill_per_sec = 30\<rparr>,
      \<lparr>plan_name = ascii ''pro'', plan_quota_monthly = 1500000,
       plan_rate_capacity = 200, plan_rate_refill_per_sec = 100\<rparr>]"

definition FALLBACK :: plan where
  "FALLBACK =
     \<lparr>plan_name = ascii ''desconocido'', plan_quota_monthly = 10000,
      plan_rate_capacity = 20, plan_rate_refill_per_sec = 10\<rparr>"

definition plan_for :: "bytes \<Rightarrow> plan option" where
  "plan_for nombre = find (\<lambda>p. plan_name p = nombre) PLANS"

definition limits_for :: "bytes \<Rightarrow> plan" where
  "limits_for nombre = (case plan_for nombre of Some p \<Rightarrow> p | None \<Rightarrow> FALLBACK)"

definition quota_for :: "bytes \<Rightarrow> u64 option" where
  "quota_for nombre = map_option plan_quota_monthly (plan_for nombre)"

lemma quota_for_iff:
  "quota_for nombre = Some q \<longleftrightarrow>
    nombre = ascii ''starter'' \<and> q = 250000 \<or> nombre = ascii ''pro'' \<and> q = 1500000"
  by (auto simp: quota_for_def plan_for_def PLANS_def ascii_def)

text \<open>What is served is never zero, whatever the plan is called; what is sold is what is served.\<close>

lemma limits_for_cases:
  "limits_for nombre \<in> {FALLBACK} \<union> set PLANS"
  by (auto simp: limits_for_def plan_for_def split: option.splits dest!: find_Some_iff [THEN iffD1])

lemma limits_for_positive:
  "0 < plan_quota_monthly (limits_for nombre) \<and> 1 \<le> plan_rate_capacity (limits_for nombre) \<and>
    0 < plan_rate_refill_per_sec (limits_for nombre)"
  using limits_for_cases [of nombre]
  by (auto simp: FALLBACK_def PLANS_def word_less_nat_alt)

lemma quota_for_limits: "quota_for nombre = Some q \<Longrightarrow> plan_quota_monthly (limits_for nombre) = q"
  by (auto simp: quota_for_def limits_for_def)

section \<open>The token bucket\<close>

type_synonym buckets = "bytes \<Rightarrow> (f64 \<times> nat) option"

text \<open>\<^verbatim>\<open>Duration::as_secs_f64\<close> of a number of nanoseconds.\<close>

definition as_secs_f64 :: "(rat \<Rightarrow> f64) \<Rightarrow> nat \<Rightarrow> f64" where
  "as_secs_f64 rd ns = rd (rd (of_nat (ns div 10 ^ 9)) + rd (of_nat (ns mod 10 ^ 9) / 10 ^ 9))"

definition allow :: "(rat \<Rightarrow> f64) \<Rightarrow> bytes \<Rightarrow> f64 \<Rightarrow> f64 \<Rightarrow> nat \<Rightarrow> buckets \<Rightarrow> bool \<times> buckets" where
  "allow rd key capacity refill_per_sec now B =
     (let (tokens, last) = (case B key of None \<Rightarrow> (capacity, now) | Some e \<Rightarrow> e);
          elapsed = as_secs_f64 rd (now - last);
          tokens = min (rd (tokens + rd (elapsed * refill_per_sec))) capacity
      in if 1 \<le> tokens then (True, B(key \<mapsto> (rd (tokens - 1), now)))
         else (False, B(key \<mapsto> (tokens, now))))"

text \<open>
  What IEEE 754 says of rounding: monotone, the identity on what is representable (zero is), and
  exact for the difference of a representable number of at least one (and at most \<open>2 ^ 53\<close>) and one.
\<close>

definition f64_ok :: "(rat \<Rightarrow> f64) \<Rightarrow> bool" where
  "f64_ok rd \<longleftrightarrow>
     (\<forall>x y. x \<le> y \<longrightarrow> rd x \<le> rd y) \<and> (\<forall>x. rd (rd x) = rd x) \<and> rd 0 = 0 \<and>
     (\<forall>t. rd t = t \<longrightarrow> 1 \<le> t \<longrightarrow> t \<le> 2 ^ 53 \<longrightarrow> rd (t - 1) = t - 1)"

lemma f64_okD:
  assumes "f64_ok rd"
  shows "x \<le> y \<Longrightarrow> rd x \<le> rd y" "rd (rd x) = rd x" "rd 0 = 0"
    "rd t = t \<Longrightarrow> 1 \<le> t \<Longrightarrow> t \<le> 2 ^ 53 \<Longrightarrow> rd (t - 1) = t - 1"
  using assms by (simp_all add: f64_ok_def)

lemma f64_ok_id: "f64_ok (\<lambda>x. x)"
  by (simp add: f64_ok_def)

text \<open>The tokens of every bucket are representable and not negative.\<close>

definition buckets_ok :: "(rat \<Rightarrow> f64) \<Rightarrow> buckets \<Rightarrow> bool" where
  "buckets_ok rd B \<longleftrightarrow> (\<forall>k t l. B k = Some (t, l) \<longrightarrow> 0 \<le> t \<and> rd t = t)"

lemma as_secs_f64_nonneg: "f64_ok rd \<Longrightarrow> 0 \<le> as_secs_f64 rd ns"
proof -
  assume rd: "f64_ok rd"
  have pos: "0 \<le> x \<Longrightarrow> 0 \<le> rd x" for x
    using f64_okD(1) [OF rd, of 0 x] f64_okD(3) [OF rd] by simp
  show ?thesis unfolding as_secs_f64_def by (intro pos add_nonneg_nonneg) simp_all
qed

lemma as_secs_f64_0: "f64_ok rd \<Longrightarrow> as_secs_f64 rd 0 = 0"
  by (simp add: as_secs_f64_def f64_okD)

text \<open>The tokens a request finds.\<close>

definition tokens_de :: "(rat \<Rightarrow> f64) \<Rightarrow> bytes \<Rightarrow> f64 \<Rightarrow> f64 \<Rightarrow> nat \<Rightarrow> buckets \<Rightarrow> f64" where
  "tokens_de rd key capacity refill now B =
     (case B key of None \<Rightarrow> min (rd (capacity + rd (as_secs_f64 rd 0 * refill))) capacity
      | Some (t, l) \<Rightarrow> min (rd (t + rd (as_secs_f64 rd (now - l) * refill))) capacity)"

lemma allow_eq:
  "allow rd key capacity refill now B =
    (let t = tokens_de rd key capacity refill now B
     in (1 \<le> t, B(key \<mapsto> (if 1 \<le> t then rd (t - 1) else t, now))))"
  by (auto simp: allow_def tokens_de_def Let_def split: option.splits)

lemma tokens_de_ok:
  assumes rd: "f64_ok rd" and B: "buckets_ok rd B" and "rd capacity = capacity" "0 \<le> capacity" "0 \<le> refill"
  shows "0 \<le> tokens_de rd key capacity refill now B"
    "rd (tokens_de rd key capacity refill now B) = tokens_de rd key capacity refill now B"
    "tokens_de rd key capacity refill now B \<le> capacity"
proof -
  have pos: "0 \<le> x \<Longrightarrow> 0 \<le> rd x" for x
    using f64_okD(1) [OF rd, of 0 x] f64_okD(3) [OF rd] by simp
  show "0 \<le> tokens_de rd key capacity refill now B"
    using B assms(4,5) as_secs_f64_nonneg [OF rd] unfolding tokens_de_def buckets_ok_def
    by (auto split: option.splits intro!: pos add_nonneg_nonneg mult_nonneg_nonneg)
  show "rd (tokens_de rd key capacity refill now B) = tokens_de rd key capacity refill now B"
    using f64_okD(2) [OF rd] assms(3) unfolding tokens_de_def min_def
    by (auto split: option.splits)
  show "tokens_de rd key capacity refill now B \<le> capacity"
    by (auto simp: tokens_de_def split: option.splits)
qed

lemma allow_ok:
  assumes "f64_ok rd" and "buckets_ok rd B" and "rd capacity = capacity" "0 \<le> capacity" "0 \<le> refill"
    and "allow rd key capacity refill now B = (b, B')"
  shows "buckets_ok rd B'"
proof -
  note t = tokens_de_ok [OF assms(1-5), of key now]
  have "0 \<le> rd (t - 1)" if "1 \<le> t" for t
    using f64_okD(1) [OF assms(1), of 0 "t - 1"] f64_okD(3) [OF assms(1)] that by simp
  then have "0 \<le> x \<and> rd x = x" if "b = (1 \<le> tokens_de rd key capacity refill now B)"
      "x = (if b then rd (tokens_de rd key capacity refill now B - 1)
            else tokens_de rd key capacity refill now B)" for x
    using that t f64_okD(2) [OF assms(1)] by simp
  moreover have "B' = B(key \<mapsto> (if b then rd (tokens_de rd key capacity refill now B - 1)
            else tokens_de rd key capacity refill now B, now))"
      "b = (1 \<le> tokens_de rd key capacity refill now B)"
    using assms(6) by (auto simp: allow_eq Let_def)
  moreover have "0 \<le> s \<and> rd s = s" if "B k = Some (s, l)" for k s l
    using assms(2) that unfolding buckets_ok_def by blast
  ultimately show ?thesis unfolding buckets_ok_def by (simp split: if_splits; blast)
qed

text \<open>A burst: requests of one key at one instant, under one plan.\<close>

fun rafaga :: "(rat \<Rightarrow> f64) \<Rightarrow> bytes \<Rightarrow> f64 \<Rightarrow> f64 \<Rightarrow> nat \<Rightarrow> nat \<Rightarrow> buckets \<Rightarrow> nat" where
  "rafaga rd key capacity refill now 0 B = 0"
| "rafaga rd key capacity refill now (Suc n) B =
     (let (b, B') = allow rd key capacity refill now B
      in (if b then 1 else 0) + rafaga rd key capacity refill now n B')"

lemma rafaga_tokens:
  assumes rd: "f64_ok rd" and c: "rd capacity = capacity" "0 \<le> capacity" "capacity \<le> 2 ^ 53" "0 \<le> refill"
  shows "buckets_ok rd B \<Longrightarrow> of_nat (rafaga rd key capacity refill now n B)
    \<le> tokens_de rd key capacity refill now B"
proof (induction n arbitrary: B)
  case 0
  then show ?case using tokens_de_ok(1) [OF rd 0 c(1,2,4)] by simp
next
  case (Suc n)
  let ?t = "tokens_de rd key capacity refill now B"
  note t = tokens_de_ok [OF rd Suc.prems c(1,2,4), of key now]
  obtain b B' where a: "allow rd key capacity refill now B = (b, B')" by fastforce
  have same: "tokens_de rd key capacity refill now (B(key \<mapsto> (x, now))) = min x capacity"
    if "rd x = x" for x
    using that by (simp add: tokens_de_def as_secs_f64_0 [OF rd] f64_okD(3) [OF rd])
  have IH: "of_nat (rafaga rd key capacity refill now n B') \<le> tokens_de rd key capacity refill now B'"
    using Suc.IH [OF allow_ok [OF rd Suc.prems c(1,2,4) a]] .
  show ?case
  proof (cases "1 \<le> ?t")
    case True
    then have "rd (?t - 1) = ?t - 1" using f64_okD(4) [OF rd] t c by simp
    with True a t same [of "?t - 1"] have "b" "tokens_de rd key capacity refill now B' = ?t - 1"
      by (auto simp: allow_eq Let_def min_def)
    with IH a show ?thesis by simp
  next
    case False
    with a t same [of ?t] have "\<not> b" "tokens_de rd key capacity refill now B' = ?t"
      by (auto simp: allow_eq Let_def min_def)
    with IH a show ?thesis by simp
  qed
qed

text \<open>A burst is bounded by the plan's capacity, whatever the bucket held.\<close>

lemma rafaga_bounded:
  assumes "f64_ok rd" and "buckets_ok rd B" and "rd capacity = capacity" and "0 \<le> capacity"
    and "capacity \<le> 2 ^ 53" and "0 \<le> refill"
  shows "of_nat (rafaga rd key capacity refill now n B) \<le> capacity"
  using rafaga_tokens [OF assms(1,3-6,2), of key now n] tokens_de_ok(3) [OF assms(1-4,6), of key now]
  by linarith

end
