(* ===== verification/Store.thy ===== *)
theory Store
  imports Keys Instances
begin

text \<open>
  \<^verbatim>\<open>crates/quipu-oprf-server/src/store.rs\<close>: customers, API keys and usage.  The three tables of
  the schema are lists of rows and, for \<^verbatim>\<open>usage\<close> with its composite primary key, a map; each
  operation runs the effect of its SQL statements, constraints included (primary keys, the unique
  prefix, the foreign keys, which the bundled SQLite enforces).  \<open>bd_fallos\<close> says which of the
  statements to come will fail for a reason of the database's own, without effect.  The clock's
  readings are arguments.
\<close>

section \<open>Texts\<close>

text \<open>\<^verbatim>\<open>{:0w}\<close>: padded with zeros to width \<open>w\<close>, the sign included.\<close>

definition ceros :: "nat \<Rightarrow> int \<Rightarrow> bytes" where
  "ceros w n =
     (let rellenar = (\<lambda>k s. replicate (k - length s) 48 @ s)
      in if n < 0 then 45 # rellenar (w - 1) (decimal (nat (- n))) else rellenar w (decimal (nat n)))"

section \<open>The billing period\<close>

text \<open>\<^verbatim>\<open>i64\<close> division, which truncates; the divisors here are positive.\<close>

definition div_trunc :: "int \<Rightarrow> int \<Rightarrow> int" where
  "div_trunc a b = (if 0 \<le> a then a div b else - ((- a) div b))"

definition civil_from_days :: "int \<Rightarrow> int \<times> int \<times> int" where
  "civil_from_days z =
     (let z = z + 719468;
          era = div_trunc (if 0 \<le> z then z else z - 146096) 146097;
          doe = z - era * 146097;
          yoe = div_trunc (doe - div_trunc doe 1460 + div_trunc doe 36524 - div_trunc doe 146096) 365;
          y = yoe + era * 400;
          doy = doe - (365 * yoe + div_trunc yoe 4 - div_trunc yoe 100);
          mp = div_trunc (5 * doy + 2) 153;
          d = doy - div_trunc (153 * mp + 2) 5 + 1;
          m = (if mp < 10 then mp + 3 else mp - 9)
      in (y + (if m \<le> 2 then 1 else 0), m, d))"

definition period_of :: "int \<Rightarrow> bytes" where
  "period_of unix_secs =
     (case civil_from_days (unix_secs div 86400) of (y, m, _) \<Rightarrow> ceros 4 y @ [45] @ ceros 2 m)"

section \<open>The database\<close>

record fila_customer =
  cu_id :: bytes
  cu_email :: bytes
  cu_plan :: bytes
  cu_created_at :: int

record fila_api_key =
  ak_id :: bytes
  ak_customer_id :: bytes
  ak_prefix :: bytes
  ak_key_hash :: bytes
  ak_active :: int
  ak_quota_monthly :: u64
  ak_expires_at :: "int option"
  ak_created_at :: int
  ak_last_used_at :: "int option"
  ak_revoked_at :: "int option"

record bd =
  bd_customer :: "fila_customer list"
  bd_api_key :: "fila_api_key list"
  bd_usage :: "bytes \<times> bytes \<Rightarrow> nat option"
  bd_fallos :: "bool list"

definition bd_init :: bd where
  "bd_init = \<lparr>bd_customer = [], bd_api_key = [], bd_usage = (\<lambda>_. None), bd_fallos = []\<rparr>"

datatype sql_error = Restriccion | FalloBD

text \<open>One statement, unless the database fails.\<close>

definition sentencia :: "(bd \<Rightarrow> (sql_error + 'a) \<times> bd) \<Rightarrow> bd \<Rightarrow> (sql_error + 'a) \<times> bd" where
  "sentencia s db =
     (case bd_fallos db of
        [] \<Rightarrow> s db
      | True # fs \<Rightarrow> (Inl FalloBD, db\<lparr>bd_fallos := fs\<rparr>)
      | False # fs \<Rightarrow> s (db\<lparr>bd_fallos := fs\<rparr>))"

definition insertar_customer :: "fila_customer \<Rightarrow> bd \<Rightarrow> (sql_error + unit) \<times> bd" where
  "insertar_customer f db =
     (if \<exists>c \<in> set (bd_customer db). cu_id c = cu_id f then (Inl Restriccion, db)
      else (Inr (), db\<lparr>bd_customer := bd_customer db @ [f]\<rparr>))"

definition insertar_api_key :: "fila_api_key \<Rightarrow> bd \<Rightarrow> (sql_error + unit) \<times> bd" where
  "insertar_api_key f db =
     (if (\<exists>k \<in> set (bd_api_key db). ak_id k = ak_id f \<or> ak_prefix k = ak_prefix f)
         \<or> (\<forall>c \<in> set (bd_customer db). cu_id c \<noteq> ak_customer_id f)
      then (Inl Restriccion, db)
      else (Inr (), db\<lparr>bd_api_key := bd_api_key db @ [f]\<rparr>))"

text \<open>An \<^verbatim>\<open>UPDATE\<close> of the keys that satisfy \<open>P\<close>: how many there were.\<close>

definition actualizar_api_key ::
  "(fila_api_key \<Rightarrow> bool) \<Rightarrow> (fila_api_key \<Rightarrow> fila_api_key) \<Rightarrow> bd \<Rightarrow> (sql_error + nat) \<times> bd" where
  "actualizar_api_key P u db =
     (Inr (length (filter P (bd_api_key db))),
      db\<lparr>bd_api_key := map (\<lambda>k. if P k then u k else k) (bd_api_key db)\<rparr>)"

text \<open>The upsert of \<open>record_usage\<close>.\<close>

definition sumar_usage :: "bytes \<Rightarrow> bytes \<Rightarrow> bd \<Rightarrow> (sql_error + unit) \<times> bd" where
  "sumar_usage key_id period db =
     (if \<forall>k \<in> set (bd_api_key db). ak_id k \<noteq> key_id then (Inl Restriccion, db)
      else (Inr (), db\<lparr>bd_usage := (bd_usage db)((key_id, period) \<mapsto>
              (case bd_usage db (key_id, period) of None \<Rightarrow> 1 | Some n \<Rightarrow> n + 1))\<rparr>))"

text \<open>The join of \<open>verify\<close>: the first key with the prefix whose customer exists.\<close>

definition buscar_api_key :: "bytes \<Rightarrow> bd \<Rightarrow> (sql_error + (fila_api_key \<times> bytes) option) \<times> bd" where
  "buscar_api_key prefix db =
     (Inr (case [(k, cu_plan c). k \<leftarrow> bd_api_key db, c \<leftarrow> bd_customer db,
                  cu_id c = ak_customer_id k, ak_prefix k = prefix] of
             [] \<Rightarrow> None
           | f # _ \<Rightarrow> Some f), db)"

section \<open>Operations\<close>

datatype auth_result =
    Valid (v_key_id: bytes) (v_customer_id: bytes) (v_quota: u64) (v_used: nat) (v_plan: bytes)
  | Unknown
  | Inactive
  | Expired
  | QuotaExceeded

definition create_customer ::
  "'r fuente \<Rightarrow> bytes \<Rightarrow> bytes \<Rightarrow> int \<Rightarrow> 'r \<Rightarrow> bd \<Rightarrow> ((sql_error + bytes) \<times> 'r \<times> bd) option" where
  "create_customer fuente email plan ahora r db =
     (case random_id fuente r of
        None \<Rightarrow> None
      | Some (ident, r') \<Rightarrow>
          (case sentencia (insertar_customer \<lparr>cu_id = ident, cu_email = email, cu_plan = plan,
                  cu_created_at = ahora\<rparr>) db of
             (Inl e, db') \<Rightarrow> Some (Inl e, r', db')
           | (Inr _, db') \<Rightarrow> Some (Inr ident, r', db')))"

definition issue_key ::
  "(bytes \<Rightarrow> bytes) \<Rightarrow> 'r fuente \<Rightarrow> bytes \<Rightarrow> u64 \<Rightarrow> int option \<Rightarrow> int \<Rightarrow> 'r \<Rightarrow> bd \<Rightarrow>
    ((sql_error + generated_key) \<times> 'r \<times> bd) option" where
  "issue_key sha fuente customer_id quota_monthly expires_at ahora r db =
     (case generate sha fuente r of
        None \<Rightarrow> None
      | Some (key, r1) \<Rightarrow>
          (case random_id fuente r1 of
             None \<Rightarrow> None
           | Some (ident, r2) \<Rightarrow>
               (case sentencia (insertar_api_key
                       \<lparr>ak_id = ident, ak_customer_id = customer_id, ak_prefix = gk_prefix key,
                        ak_key_hash = gk_hash key, ak_active = 1, ak_quota_monthly = quota_monthly,
                        ak_expires_at = expires_at, ak_created_at = ahora, ak_last_used_at = None,
                        ak_revoked_at = None\<rparr>) db of
                  (Inl e, db') \<Rightarrow> Some (Inl e, r2, db')
                | (Inr _, db') \<Rightarrow> Some (Inr key, r2, db'))))"

definition usage_count :: "bytes \<Rightarrow> bytes \<Rightarrow> bd \<Rightarrow> (sql_error + nat) \<times> bd" where
  "usage_count key_id period =
     sentencia (\<lambda>db. (Inr (case bd_usage db (key_id, period) of None \<Rightarrow> 0 | Some n \<Rightarrow> n), db))"

text \<open>\<open>ahora\<close> is the reading for the expiry, \<open>ahora'\<close> the one for the period.\<close>

definition verify ::
  "(bytes \<Rightarrow> bytes) \<Rightarrow> bytes \<Rightarrow> int \<Rightarrow> int \<Rightarrow> bd \<Rightarrow> (sql_error + auth_result) \<times> bd" where
  "verify sha presented ahora ahora' db =
     (case parse sha presented of
        None \<Rightarrow> (Inr Unknown, db)
      | Some (prefix, hash) \<Rightarrow>
          (case sentencia (buscar_api_key prefix) db of
             (Inl e, db') \<Rightarrow> (Inl e, db')
           | (Inr None, db') \<Rightarrow> (Inr Unknown, db')
           | (Inr (Some (k, plan)), db') \<Rightarrow>
               if length (ak_key_hash k) \<noteq> length hash \<or> ak_key_hash k \<noteq> hash then (Inr Unknown, db')
               else if ak_revoked_at k \<noteq> None \<or> ak_active k = 0 then (Inr Inactive, db')
               else if (case ak_expires_at k of None \<Rightarrow> False | Some exp \<Rightarrow> exp \<le> ahora)
               then (Inr Expired, db')
               else
                 (case usage_count (ak_id k) (period_of ahora') db' of
                    (Inl e, db'') \<Rightarrow> (Inl e, db'')
                  | (Inr used, db'') \<Rightarrow>
                      if unat (ak_quota_monthly k) \<le> used then (Inr QuotaExceeded, db'')
                      else (Inr (Valid (ak_id k) (ak_customer_id k) (ak_quota_monthly k) used plan), db''))))"

text \<open>Two statements: the second runs only if the first succeeded.\<close>

definition record_usage :: "bytes \<Rightarrow> int \<Rightarrow> int \<Rightarrow> bd \<Rightarrow> (sql_error + unit) \<times> bd" where
  "record_usage key_id ahora ahora' db =
     (case sentencia (sumar_usage key_id (period_of ahora)) db of
        (Inl e, db') \<Rightarrow> (Inl e, db')
      | (Inr _, db') \<Rightarrow>
          (case sentencia (actualizar_api_key (\<lambda>k. ak_id k = key_id)
                  (\<lambda>k. k\<lparr>ak_last_used_at := Some ahora'\<rparr>)) db' of
             (Inl e, db'') \<Rightarrow> (Inl e, db'')
           | (Inr _, db'') \<Rightarrow> (Inr (), db'')))"

definition set_active :: "bytes \<Rightarrow> bool \<Rightarrow> bd \<Rightarrow> (sql_error + nat) \<times> bd" where
  "set_active prefix active =
     (if active
      then sentencia (actualizar_api_key (\<lambda>k. ak_prefix k = prefix \<and> ak_revoked_at k = None)
             (\<lambda>k. k\<lparr>ak_active := 1\<rparr>))
      else sentencia (actualizar_api_key (\<lambda>k. ak_prefix k = prefix) (\<lambda>k. k\<lparr>ak_active := 0\<rparr>)))"

definition revoke :: "bytes \<Rightarrow> int \<Rightarrow> bd \<Rightarrow> (sql_error + nat) \<times> bd" where
  "revoke prefix ahora =
     sentencia (actualizar_api_key (\<lambda>k. ak_prefix k = prefix)
       (\<lambda>k. k\<lparr>ak_active := 0, ak_revoked_at := Some ahora\<rparr>))"

section \<open>The tables stay consistent\<close>

definition bd_ok :: "bd \<Rightarrow> bool" where
  "bd_ok db \<longleftrightarrow>
     distinct (map cu_id (bd_customer db)) \<and>
     distinct (map ak_id (bd_api_key db)) \<and> distinct (map ak_prefix (bd_api_key db)) \<and>
     (\<forall>k \<in> set (bd_api_key db). \<exists>c \<in> set (bd_customer db). cu_id c = ak_customer_id k) \<and>
     (\<forall>i p. bd_usage db (i, p) \<noteq> None \<longrightarrow> (\<exists>k \<in> set (bd_api_key db). ak_id k = i))"

text \<open>What a row keeps for ever, and that a revocation stays.\<close>

definition sigue :: "fila_api_key \<Rightarrow> fila_api_key \<Rightarrow> bool" where
  "sigue k k' \<longleftrightarrow>
     ak_id k' = ak_id k \<and> ak_customer_id k' = ak_customer_id k \<and> ak_prefix k' = ak_prefix k \<and>
     ak_key_hash k' = ak_key_hash k \<and> ak_quota_monthly k' = ak_quota_monthly k \<and>
     ak_expires_at k' = ak_expires_at k \<and> ak_created_at k' = ak_created_at k \<and>
     (ak_revoked_at k \<noteq> None \<longrightarrow> ak_revoked_at k' \<noteq> None)"

text \<open>
  One database after another: customers and keys are only added, the keys there were go on, and
  what was counted is not uncounted.
\<close>

definition llaves_siguen :: "fila_api_key list \<Rightarrow> fila_api_key list \<Rightarrow> bool" where
  "llaves_siguen ks ks' \<longleftrightarrow> (\<forall>k \<in> set ks. \<exists>k' \<in> set ks'. sigue k k')"

definition bd_sigue :: "bd \<Rightarrow> bd \<Rightarrow> bool" where
  "bd_sigue db db' \<longleftrightarrow>
     set (bd_customer db) \<subseteq> set (bd_customer db') \<and>
     llaves_siguen (bd_api_key db) (bd_api_key db') \<and>
     (\<forall>x n. bd_usage db x = Some n \<longrightarrow> (\<exists>n' \<ge> n. bd_usage db' x = Some n'))"

lemma sigue_refl [simp]: "sigue k k"
  by (simp add: sigue_def)

lemma sigue_trans: "sigue a b \<Longrightarrow> sigue b c \<Longrightarrow> sigue a c"
  by (auto simp: sigue_def)

lemma llaves_siguen_subset: "set ks \<subseteq> set ks' \<Longrightarrow> llaves_siguen ks ks'"
  unfolding llaves_siguen_def using sigue_refl by blast

lemma llaves_siguen_refl [simp]: "llaves_siguen ks ks" "llaves_siguen ks (ks @ ks')"
  by (simp_all add: llaves_siguen_subset)

lemma llaves_siguen_map: "(\<And>k. sigue k (f k)) \<Longrightarrow> llaves_siguen ks (map f ks)"
  by (auto simp: llaves_siguen_def)

lemma llaves_siguen_trans: "llaves_siguen a b \<Longrightarrow> llaves_siguen b c \<Longrightarrow> llaves_siguen a c"
  unfolding llaves_siguen_def using sigue_trans by blast

lemma bd_sigue_refl [simp]: "bd_sigue db db"
  by (auto simp: bd_sigue_def llaves_siguen_subset)

lemma bd_sigue_trans: "bd_sigue a b \<Longrightarrow> bd_sigue b c \<Longrightarrow> bd_sigue a c"
  unfolding bd_sigue_def by (meson llaves_siguen_trans order_trans)

lemma bd_sigue_fallos [simp]: "bd_sigue db (db'\<lparr>bd_fallos := fs\<rparr>) = bd_sigue db db'"
  "bd_sigue (db\<lparr>bd_fallos := fs\<rparr>) db' = bd_sigue db db'"
  by (simp_all add: bd_sigue_def)

lemma bd_ok_fallos [simp]: "bd_ok (db\<lparr>bd_fallos := fs\<rparr>) = bd_ok db"
  by (simp add: bd_ok_def)

text \<open>A statement that is good with the database is good with it failing.\<close>

definition buena :: "(bd \<Rightarrow> 'a \<times> bd) \<Rightarrow> bool" where
  "buena s \<longleftrightarrow> (\<forall>db. bd_ok db \<longrightarrow> bd_ok (snd (s db)) \<and> bd_sigue db (snd (s db)))"

lemma buenaD: "buena s \<Longrightarrow> bd_ok db \<Longrightarrow> s db = (res, db') \<Longrightarrow> bd_ok db' \<and> bd_sigue db db'"
  unfolding buena_def by (metis snd_conv)

lemma buena_sentencia: "buena s \<Longrightarrow> buena (sentencia s)"
  unfolding buena_def sentencia_def by (auto split: list.split bool.split) (metis bd_ok_fallos bd_sigue_fallos(2))+

lemma buena_insertar_customer: "buena (insertar_customer f)"
  by (auto simp: buena_def insertar_customer_def bd_ok_def bd_sigue_def)

lemma buena_insertar_api_key: "buena (insertar_api_key f)"
  by (auto simp: buena_def insertar_api_key_def bd_ok_def bd_sigue_def)

lemma bd_ok_map:
  assumes f: "\<And>k. sigue k (f k)" and ok: "bd_ok db"
  shows "bd_ok (db\<lparr>bd_api_key := map f (bd_api_key db)\<rparr>)"
proof -
  have "ak_id (f k) = ak_id k" "ak_prefix (f k) = ak_prefix k" "ak_customer_id (f k) = ak_customer_id k" for k
    using f [of k] by (simp_all add: sigue_def)
  then show ?thesis using ok by (simp add: bd_ok_def o_def)
qed

lemma buena_actualizar:
  assumes "\<And>k. sigue k (u k)"
  shows "buena (actualizar_api_key P u)"
proof -
  have "sigue k (if P k then u k else k)" for k using assms [of k] by simp
  then show ?thesis
    by (simp add: buena_def actualizar_api_key_def bd_sigue_def bd_ok_map llaves_siguen_map)
qed

lemma buena_sumar_usage: "buena (sumar_usage i p)"
  by (auto simp: buena_def sumar_usage_def bd_ok_def bd_sigue_def split: option.splits) metis

lemma buena_buscar: "buena (buscar_api_key p)"
  by (simp add: buena_def buscar_api_key_def)

lemmas buenas = buena_insertar_customer buena_insertar_api_key buena_sumar_usage buena_buscar

section \<open>The operations as steps\<close>

text \<open>What can happen to the database of a running server, whatever fails and whatever the clock says.\<close>

inductive paso :: "(bytes \<Rightarrow> bytes) \<Rightarrow> 'r fuente \<Rightarrow> bd \<Rightarrow> bd \<Rightarrow> bool" for sha fuente where
  crear: "create_customer fuente email plan t r db = Some (res, r', db') \<Longrightarrow> paso sha fuente db db'"
| emitir: "issue_key sha fuente c q e t r db = Some (res, r', db') \<Longrightarrow> paso sha fuente db db'"
| verificar: "verify sha s t t' db = (res, db') \<Longrightarrow> paso sha fuente db db'"
| registrar: "record_usage i t t' db = (res, db') \<Longrightarrow> paso sha fuente db db'"
| activar: "set_active p b db = (res, db') \<Longrightarrow> paso sha fuente db db'"
| revocar: "revoke p t db = (res, db') \<Longrightarrow> paso sha fuente db db'"
| entorno: "paso sha fuente db (db\<lparr>bd_fallos := fs\<rparr>)"

lemma create_customer_buena:
  "bd_ok db \<Longrightarrow> create_customer fuente email plan t r db = Some (res, r', db') \<Longrightarrow>
    bd_ok db' \<and> bd_sigue db db'"
  by (auto simp: create_customer_def split: option.splits prod.splits sum.splits
      dest: buenaD [OF buena_sentencia [OF buena_insertar_customer]])

lemma issue_key_buena:
  "bd_ok db \<Longrightarrow> issue_key sha fuente c q e t r db = Some (res, r', db') \<Longrightarrow>
    bd_ok db' \<and> bd_sigue db db'"
  by (auto simp: issue_key_def split: option.splits prod.splits sum.splits
      dest: buenaD [OF buena_sentencia [OF buena_insertar_api_key]])

lemma buena_usage_count: "buena (usage_count i p)"
  unfolding usage_count_def by (rule buena_sentencia) (simp add: buena_def)

lemma verify_buena:
  assumes "bd_ok db" and "verify sha s t t' db = (res, db')"
  shows "bd_ok db' \<and> bd_sigue db db'"
proof (cases "parse sha s")
  case None
  then show ?thesis using assms by (simp add: verify_def)
next
  case (Some ph)
  obtain p h where ph: "ph = (p, h)" by fastforce
  obtain r1 db1 where 1: "sentencia (buscar_api_key p) db = (r1, db1)" by fastforce
  have ok1: "bd_ok db1 \<and> bd_sigue db db1" using buenaD [OF buena_sentencia [OF buena_buscar] assms(1) 1] .
  show ?thesis
  proof (cases "db' = db1")
    case False
    then obtain k plan where r1: "r1 = Inr (Some (k, plan))"
      using assms(2) 1 by (auto simp: verify_def Some ph split: sum.splits option.splits)
    obtain r2 db2 where 2: "usage_count (ak_id k) (period_of t') db1 = (r2, db2)" by fastforce
    have "db' = db2"
      using assms(2) 1 2 False by (auto simp: verify_def Some ph r1 split: if_splits sum.splits)
    then show ?thesis
      using buenaD [OF buena_usage_count _ 2] ok1 by (blast intro: bd_sigue_trans)
  qed (use ok1 in simp)
qed

lemma record_usage_buena:
  assumes "bd_ok db" and "record_usage i t t' db = (res, db')"
  shows "bd_ok db' \<and> bd_sigue db db'"
proof -
  obtain r1 db1 where 1: "sentencia (sumar_usage i (period_of t)) db = (r1, db1)" by fastforce
  have ok1: "bd_ok db1 \<and> bd_sigue db db1" using buenaD [OF buena_sentencia [OF buena_sumar_usage] assms(1) 1] .
  let ?u = "actualizar_api_key (\<lambda>k. ak_id k = i) (\<lambda>k. k\<lparr>ak_last_used_at := Some t'\<rparr>)"
  obtain r2 db2 where 2: "sentencia ?u db1 = (r2, db2)" by fastforce
  have "buena ?u" by (rule buena_actualizar) (simp add: sigue_def)
  then have "bd_ok db2 \<and> bd_sigue db1 db2" using buenaD [OF buena_sentencia _ 2] ok1 by blast
  moreover have "db' = db1 \<or> db' = db2"
    using assms(2) 1 2 by (auto simp: record_usage_def split: sum.splits)
  ultimately show ?thesis using ok1 by (blast intro: bd_sigue_trans)
qed

lemma set_active_buena:
  assumes "bd_ok db" and "set_active p b db = (res, db')"
  shows "bd_ok db' \<and> bd_sigue db db'"
proof -
  have "buena (set_active p b)"
    unfolding set_active_def
    by (cases b) (auto intro!: buena_sentencia buena_actualizar simp: sigue_def)
  from buenaD [OF this assms] show ?thesis .
qed

lemma revoke_buena:
  assumes "bd_ok db" and "revoke p t db = (res, db')"
  shows "bd_ok db' \<and> bd_sigue db db'"
proof -
  have "buena (revoke p t)"
    unfolding revoke_def by (auto intro!: buena_sentencia buena_actualizar simp: sigue_def)
  from buenaD [OF this assms] show ?thesis .
qed

lemma paso_ok: "paso sha fuente db db' \<Longrightarrow> bd_ok db \<Longrightarrow> bd_ok db' \<and> bd_sigue db db'"
proof (induction rule: paso.induct)
  case (crear email plan t r db res r' db') then show ?case by (rule create_customer_buena [rotated])
next
  case (emitir c q e t r db res r' db') then show ?case by (rule issue_key_buena [rotated])
next
  case (verificar s t t' db res db') then show ?case by (rule verify_buena [rotated])
next
  case (registrar i t t' db res db') then show ?case by (rule record_usage_buena [rotated])
next
  case (activar p b db res db') then show ?case by (rule set_active_buena [rotated])
next
  case (revocar p t db res db') then show ?case by (rule revoke_buena [rotated])
qed simp

lemma pasos_ok: "(paso sha fuente)\<^sup>*\<^sup>* db db' \<Longrightarrow> bd_ok db \<Longrightarrow> bd_ok db' \<and> bd_sigue db db'"
  by (induction rule: rtranclp_induct) (auto dest: paso_ok intro: bd_sigue_trans)

lemma bd_init_ok: "bd_ok bd_init"
  by (simp add: bd_ok_def bd_init_def)

section \<open>What a valid key is\<close>

lemma sentencia_Inr:
  assumes "sentencia s db = (Inr x, db')"
  obtains fs where "s (db\<lparr>bd_fallos := fs\<rparr>) = (Inr x, db')" "fs = bd_fallos db \<or> bd_fallos db = False # fs"
proof (cases "bd_fallos db")
  case Nil
  have "db\<lparr>bd_fallos := []\<rparr> = db" using Nil by (cases db) simp
  with that [of "[]"] assms Nil show ?thesis by (simp add: sentencia_def)
next
  case (Cons f fs)
  with that [of fs] assms show ?thesis by (cases f) (simp_all add: sentencia_def)
qed

lemma buscar_Some:
  assumes "sentencia (buscar_api_key p) db = (Inr (Some (k, plan)), db')"
  shows "k \<in> set (bd_api_key db) \<and> ak_prefix k = p \<and>
    (\<exists>c \<in> set (bd_customer db). cu_id c = ak_customer_id k \<and> plan = cu_plan c) \<and>
    bd_usage db' = bd_usage db \<and> bd_api_key db' = bd_api_key db"
  using assms
proof (rule sentencia_Inr)
  fix fs assume s: "buscar_api_key p (db\<lparr>bd_fallos := fs\<rparr>) = (Inr (Some (k, plan)), db')"
  then obtain l where
    l: "[(k, cu_plan c). k \<leftarrow> bd_api_key db, c \<leftarrow> bd_customer db, cu_id c = ak_customer_id k, ak_prefix k = p]
      = (k, plan) # l"
    by (auto simp: buscar_api_key_def split: list.splits)
  have "(k, plan) \<in> set [(k, cu_plan c). k \<leftarrow> bd_api_key db, c \<leftarrow> bd_customer db,
      cu_id c = ak_customer_id k, ak_prefix k = p]"
    unfolding l by simp
  then show ?thesis using s by (auto simp: buscar_api_key_def split: if_splits)
qed

lemma usage_count_Inr:
  "usage_count i p db = (Inr n, db') \<Longrightarrow> n = (case bd_usage db (i, p) of None \<Rightarrow> 0 | Some n \<Rightarrow> n)"
  unfolding usage_count_def by (erule sentencia_Inr) simp

lemma verify_Valid:
  assumes "verify sha s t t' db = (Inr (Valid i c q u plan), db')"
  obtains k cu where "k \<in> set (bd_api_key db)" "parse sha s = Some (ak_prefix k, ak_key_hash k)"
    "cu \<in> set (bd_customer db)" "cu_id cu = ak_customer_id k" "plan = cu_plan cu"
    "i = ak_id k" "c = ak_customer_id k" "q = ak_quota_monthly k"
    "ak_revoked_at k = None" "ak_active k \<noteq> 0" "\<forall>e. ak_expires_at k = Some e \<longrightarrow> t < e"
    "u = (case bd_usage db (ak_id k, period_of t') of None \<Rightarrow> 0 | Some n \<Rightarrow> n)" "u < unat q"
proof -
  obtain p h where ph: "parse sha s = Some (p, h)"
    using assms by (auto simp: verify_def split: option.splits)
  obtain r1 db1 where 1: "sentencia (buscar_api_key p) db = (r1, db1)" by fastforce
  obtain k pl where r1: "r1 = Inr (Some (k, pl))"
    using assms 1 by (auto simp: verify_def ph split: sum.splits option.splits)
  note b = buscar_Some [OF 1 [unfolded r1]]
  have g: "ak_key_hash k = h" "ak_revoked_at k = None" "ak_active k \<noteq> 0"
      "\<not> (case ak_expires_at k of None \<Rightarrow> False | Some exp \<Rightarrow> exp \<le> t)"
    using assms 1 by (auto simp: verify_def ph r1 split: if_splits)
  obtain r2 db2 where 2: "usage_count (ak_id k) (period_of t') db1 = (r2, db2)" by fastforce
  have v: "r2 = Inr u" "u < unat (ak_quota_monthly k)" "i = ak_id k" "c = ak_customer_id k"
      "q = ak_quota_monthly k" "plan = pl"
    using assms 1 2 g by (auto simp: verify_def ph r1 split: sum.splits if_splits)
  note n = usage_count_Inr [OF 2 [unfolded v(1)]]
  obtain cu where "cu \<in> set (bd_customer db)" "cu_id cu = ak_customer_id k" "pl = cu_plan cu"
    using b by blast
  then show ?thesis
    using b g v n ph by (intro that [of k cu]) (auto split: option.splits)
qed

lemma bd_ok_same_id:
  "bd_ok db \<Longrightarrow> k \<in> set (bd_api_key db) \<Longrightarrow> k' \<in> set (bd_api_key db) \<Longrightarrow> ak_id k = ak_id k' \<Longrightarrow> k = k'"
  by (auto simp: bd_ok_def distinct_map inj_on_def)

lemma bd_ok_same_prefix:
  "bd_ok db \<Longrightarrow> k \<in> set (bd_api_key db) \<Longrightarrow> k' \<in> set (bd_api_key db) \<Longrightarrow> ak_prefix k = ak_prefix k' \<Longrightarrow> k = k'"
  by (auto simp: bd_ok_def distinct_map inj_on_def)

lemma set_active_revocada:
  assumes "bd_ok db" and "k \<in> set (bd_api_key db)" and "ak_revoked_at k \<noteq> None"
    and "set_active (ak_prefix k) True db = (Inr n, db')"
  shows "n = 0"
proof -
  have "filter (\<lambda>x. ak_prefix x = ak_prefix k \<and> ak_revoked_at x = None) (bd_api_key db) = []"
    using bd_ok_same_prefix [OF assms(1,2)] assms(3) by (fastforce simp: filter_empty_conv)
  moreover have "sentencia (actualizar_api_key (\<lambda>x. ak_prefix x = ak_prefix k \<and> ak_revoked_at x = None)
      (\<lambda>k. k\<lparr>ak_active := 1\<rparr>)) db = (Inr n, db')"
    using assms(4) by (simp add: set_active_def)
  ultimately show ?thesis by (elim sentencia_Inr) (simp add: actualizar_api_key_def)
qed

section \<open>The life of a key\<close>

datatype estado = Activa | Suspendida | Revocada

definition estado_de :: "fila_api_key \<Rightarrow> estado" where
  "estado_de k = (if ak_revoked_at k \<noteq> None then Revocada else if ak_active k = 0 then Suspendida else Activa)"

text \<open>The abstraction of a database: the state of the key of each prefix.\<close>

definition estados :: "bd \<Rightarrow> bytes \<Rightarrow> estado option" where
  "estados db = map_of (map (\<lambda>k. (ak_prefix k, estado_de k)) (bd_api_key db))"

text \<open>The abstract operations: a suspension is undone, a revocation is not.\<close>

fun conmutar :: "bool \<Rightarrow> estado \<Rightarrow> estado" where
  "conmutar b Revocada = Revocada"
| "conmutar True e = Activa"
| "conmutar False e = Suspendida"

lemma estados_update:
  assumes "\<And>k. ak_prefix (u k) = ak_prefix k" and "\<And>k. P k \<Longrightarrow> ak_prefix k = p"
    and "\<And>k. ak_prefix k = p \<Longrightarrow> estado_de (if P k then u k else k) = f (estado_de k)"
  shows "estados (db\<lparr>bd_api_key := map (\<lambda>k. if P k then u k else k) (bd_api_key db)\<rparr>) =
    (estados db)(p := map_option f (estados db p))"
proof
  fix q
  have "map_of (map (\<lambda>k. (ak_prefix k, estado_de k)) (map (\<lambda>k. if P k then u k else k) ks)) q =
      (if q = p then map_option f (map_of (map (\<lambda>k. (ak_prefix k, estado_de k)) ks) q)
       else map_of (map (\<lambda>k. (ak_prefix k, estado_de k)) ks) q)" for ks
  proof (induction ks)
    case (Cons k ks)
    have "ak_prefix (if P k then u k else k) = ak_prefix k" using assms(1) by simp
    moreover have "estado_de (if P k then u k else k) =
        (if ak_prefix k = p then f (estado_de k) else estado_de k)"
      using assms(2,3) by auto
    ultimately show ?case using Cons by (auto simp del: if_image_distrib)
  qed simp
  then show "estados (db\<lparr>bd_api_key := map (\<lambda>k. if P k then u k else k) (bd_api_key db)\<rparr>) q =
    ((estados db)(p := map_option f (estados db p))) q"
    by (simp add: estados_def)
qed

lemma estados_fallos [simp]: "estados (db\<lparr>bd_fallos := fs\<rparr>) = estados db"
  by (simp add: estados_def)

text \<open>An \<^verbatim>\<open>UPDATE\<close> changes the states as said, or the database refuses it and changes none.\<close>

lemma estados_actualizar:
  assumes "\<And>k. ak_prefix (u k) = ak_prefix k" and "\<And>k. P k \<Longrightarrow> ak_prefix k = p"
    and "\<And>k. ak_prefix k = p \<Longrightarrow> estado_de (if P k then u k else k) = f (estado_de k)"
    and "sentencia (actualizar_api_key P u) db = (res, db')"
  shows "estados db' = (if isl res then estados db else (estados db)(p := map_option f (estados db p)))"
proof -
  have "estados (snd (actualizar_api_key P u d)) = (estados d)(p := map_option f (estados d p))" for d
    using estados_update [OF assms(1-3)] by (simp add: actualizar_api_key_def)
  moreover have "\<not> isl (fst (actualizar_api_key P u d))" for d
    by (simp add: actualizar_api_key_def)
  ultimately show ?thesis
    using assms(4) by (auto simp: sentencia_def split: list.splits bool.splits) (metis estados_fallos fst_conv snd_conv)+
qed

lemma estados_set_active:
  assumes "set_active p b db = (res, db')"
  shows "estados db' = (if isl res then estados db
    else (estados db)(p := map_option (conmutar b) (estados db p)))"
proof (cases b)
  case True
  have "sentencia (actualizar_api_key (\<lambda>k. ak_prefix k = p \<and> ak_revoked_at k = None)
      (\<lambda>k. k\<lparr>ak_active := 1\<rparr>)) db = (res, db')"
    using assms True by (simp add: set_active_def)
  then show ?thesis
    by (rule estados_actualizar [rotated 3]) (auto simp: estado_de_def True)
next
  case False
  have "sentencia (actualizar_api_key (\<lambda>k. ak_prefix k = p) (\<lambda>k. k\<lparr>ak_active := 0\<rparr>)) db = (res, db')"
    using assms False by (simp add: set_active_def)
  then show ?thesis
    by (rule estados_actualizar [rotated 3]) (auto simp: estado_de_def False)
qed

lemma estados_revoke:
  assumes "revoke p t db = (res, db')"
  shows "estados db' = (if isl res then estados db
    else (estados db)(p := map_option (\<lambda>_. Revocada) (estados db p)))"
proof -
  have "sentencia (actualizar_api_key (\<lambda>k. ak_prefix k = p)
      (\<lambda>k. k\<lparr>ak_active := 0, ak_revoked_at := Some t\<rparr>)) db = (res, db')"
    using assms by (simp add: revoke_def)
  then show ?thesis
    by (rule estados_actualizar [rotated 3]) (auto simp: estado_de_def)
qed

lemma estados_de:
  assumes "bd_ok db" and "k \<in> set (bd_api_key db)"
  shows "estados db (ak_prefix k) = Some (estado_de k)"
proof -
  have "distinct (map fst (map (\<lambda>k. (ak_prefix k, estado_de k)) (bd_api_key db)))"
    using assms(1) by (simp add: bd_ok_def o_def)
  then show ?thesis
    unfolding estados_def by (rule map_of_is_SomeI) (use assms(2) in auto)
qed

section \<open>A key just issued is valid\<close>

lemma buscar_ok:
  assumes ok: "bd_ok db" and k: "k \<in> set (bd_api_key db)" and cu: "cu \<in> set (bd_customer db)"
    and fk: "cu_id cu = ak_customer_id k"
  shows "buscar_api_key (ak_prefix k) db = (Inr (Some (k, cu_plan cu)), db)"
proof -
  let ?L = "[(x, cu_plan c). x \<leftarrow> bd_api_key db, c \<leftarrow> bd_customer db,
    cu_id c = ak_customer_id x, ak_prefix x = ak_prefix k]"
  have "cu' = cu" if "cu' \<in> set (bd_customer db)" "cu_id cu' = ak_customer_id k" for cu'
    using ok cu fk that by (auto simp: bd_ok_def distinct_map inj_on_def)
  then have "\<forall>x \<in> set ?L. x = (k, cu_plan cu)"
    using bd_ok_same_prefix [OF ok k] by fastforce
  moreover have "(k, cu_plan cu) \<in> set ?L" using k cu fk by auto
  ultimately have "\<exists>l. ?L = (k, cu_plan cu) # l"
    by (cases ?L) (simp_all del: set_concat set_map)
  then show ?thesis by (auto simp: buscar_api_key_def)
qed

lemma issue_key_Inr:
  assumes "issue_key sha fuente c q e t r db = Some (Inr key, r', db')"
  obtains ident rk where "generate sha fuente r = Some (key, rk)"
    "ident \<notin> ak_id ` set (bd_api_key db)" "c \<in> cu_id ` set (bd_customer db)"
    "bd_customer db' = bd_customer db" "bd_usage db' = bd_usage db"
    "bd_api_key db' = bd_api_key db @ [\<lparr>ak_id = ident, ak_customer_id = c, ak_prefix = gk_prefix key,
        ak_key_hash = gk_hash key, ak_active = 1, ak_quota_monthly = q, ak_expires_at = e,
        ak_created_at = t, ak_last_used_at = None, ak_revoked_at = None\<rparr>]"
proof -
  obtain rk ident where g: "generate sha fuente r = Some (key, rk)"
      and s: "sentencia (insertar_api_key \<lparr>ak_id = ident, ak_customer_id = c, ak_prefix = gk_prefix key,
        ak_key_hash = gk_hash key, ak_active = 1, ak_quota_monthly = q, ak_expires_at = e,
        ak_created_at = t, ak_last_used_at = None, ak_revoked_at = None\<rparr>) db = (Inr (), db')"
    using assms by (auto simp: issue_key_def split: option.splits prod.splits sum.splits)
  from s show ?thesis
  proof (rule sentencia_Inr)
    fix fs assume "insertar_api_key \<lparr>ak_id = ident, ak_customer_id = c, ak_prefix = gk_prefix key,
        ak_key_hash = gk_hash key, ak_active = 1, ak_quota_monthly = q, ak_expires_at = e,
        ak_created_at = t, ak_last_used_at = None, ak_revoked_at = None\<rparr> (db\<lparr>bd_fallos := fs\<rparr>)
      = (Inr (), db')"
    then show ?thesis
      by (intro that [OF g, of ident]) (auto simp: insertar_api_key_def split: if_splits)
  qed
qed

lemma verify_issued:
  assumes ok: "bd_ok db" and f: "fuente_ok fuente"
    and i: "issue_key sha fuente c q e t0 r db = Some (Inr key, r', db')"
    and "bd_fallos db' = []" and "0 < q" and "\<forall>x. e = Some x \<longrightarrow> t < x"
  shows "\<exists>ident cu. cu \<in> set (bd_customer db) \<and> cu_id cu = c \<and> ident \<notin> ak_id ` set (bd_api_key db) \<and>
    verify sha (gk_secret key) t t' db' = (Inr (Valid ident c q 0 (cu_plan cu)), db')"
  using i
proof (rule issue_key_Inr)
  fix ident rk
  assume g: "generate sha fuente r = Some (key, rk)" and new: "ident \<notin> ak_id ` set (bd_api_key db)"
    and c: "c \<in> cu_id ` set (bd_customer db)" and db': "bd_customer db' = bd_customer db"
    "bd_usage db' = bd_usage db"
    "bd_api_key db' = bd_api_key db @ [\<lparr>ak_id = ident, ak_customer_id = c, ak_prefix = gk_prefix key,
        ak_key_hash = gk_hash key, ak_active = 1, ak_quota_monthly = q, ak_expires_at = e,
        ak_created_at = t0, ak_last_used_at = None, ak_revoked_at = None\<rparr>]"
  let ?k = "\<lparr>ak_id = ident, ak_customer_id = c, ak_prefix = gk_prefix key,
        ak_key_hash = gk_hash key, ak_active = 1, ak_quota_monthly = q, ak_expires_at = e,
        ak_created_at = t0, ak_last_used_at = None, ak_revoked_at = None\<rparr>"
  have ok': "bd_ok db'" using issue_key_buena [OF ok i] by simp
  obtain cu where cu: "cu \<in> set (bd_customer db)" "cu_id cu = c" using c by blast
  have "buscar_api_key (ak_prefix ?k) db' = (Inr (Some (?k, cu_plan cu)), db')"
    using cu by (intro buscar_ok [OF ok']) (simp_all add: db')
  then have b: "sentencia (buscar_api_key (gk_prefix key)) db' = (Inr (Some (?k, cu_plan cu)), db')"
    using assms(4) by (simp add: sentencia_def)
  have "bd_usage db' (ident, period_of t') = None"
    using ok new db'(2) unfolding bd_ok_def by fastforce
  then have u: "usage_count ident (period_of t') db' = (Inr 0, db')"
    using assms(4) by (simp add: usage_count_def sentencia_def)
  have "verify sha (gk_secret key) t t' db' = (Inr (Valid ident c q 0 (cu_plan cu)), db')"
    using parse_generate [OF f g] b u assms(5,6)
    by (auto simp: verify_def unat_gt_0 word_neq_0_conv [symmetric] split: option.splits)
  with cu new show ?thesis by blast
qed

section \<open>Properties\<close>

text \<open>
  C11. Revocation is final.  Whatever the server does afterwards, whatever statements fail and
  whatever the clock says, no presented text is ever authorised under a revoked key again, and
  activating it touches no row.
\<close>
theorem revoked_is_final:
  assumes "bd_ok db" and "k \<in> set (bd_api_key db)" and "ak_revoked_at k \<noteq> None"
    and "(paso sha fuente)\<^sup>*\<^sup>* db db'"
  shows "(\<forall>s t t' c q u plan db''. verify sha s t t' db' \<noteq> (Inr (Valid (ak_id k) c q u plan), db'')) \<and>
    (\<forall>n db''. set_active (ak_prefix k) True db' = (Inr n, db'') \<longrightarrow> n = 0)"
proof -
  have ok: "bd_ok db'" and s: "bd_sigue db db'" using pasos_ok [OF assms(4,1)] by simp_all
  then obtain k' where k': "k' \<in> set (bd_api_key db')" "sigue k k'"
    using assms(2) by (auto simp: bd_sigue_def llaves_siguen_def)
  then have r: "ak_revoked_at k' \<noteq> None" "ak_id k' = ak_id k" "ak_prefix k' = ak_prefix k"
    using assms(3) by (simp_all add: sigue_def)
  have "verify sha s t t' db' \<noteq> (Inr (Valid (ak_id k) c q u plan), db'')" for s t t' c q u plan db''
  proof
    assume "verify sha s t t' db' = (Inr (Valid (ak_id k) c q u plan), db'')"
    then obtain k2 where "k2 \<in> set (bd_api_key db')" "ak_id k = ak_id k2" "ak_revoked_at k2 = None"
      by (rule verify_Valid)
    with bd_ok_same_id [OF ok k'(1)] r show False by metis
  qed
  moreover have "n = 0" if "set_active (ak_prefix k) True db' = (Inr n, db'')" for n db''
    using set_active_revocada [OF ok k'(1) r(1)] that r(3) by simp
  ultimately show ?thesis by blast
qed

text \<open>A database with a revoked key, reactivated by hand and then through the server.\<close>

definition demo_llave :: fila_api_key where
  "demo_llave = \<lparr>ak_id = [7], ak_customer_id = [1], ak_prefix = KEY_TAG, ak_key_hash = [9],
     ak_active = 1, ak_quota_monthly = 5, ak_expires_at = None, ak_created_at = 0,
     ak_last_used_at = None, ak_revoked_at = Some 3\<rparr>"

definition demo_bd :: bd where
  "demo_bd = bd_init\<lparr>bd_customer := [\<lparr>cu_id = [1], cu_email = [], cu_plan = [], cu_created_at = 0\<rparr>],
     bd_api_key := [demo_llave]\<rparr>"

lemma demo_bd_ok: "bd_ok demo_bd" "demo_llave \<in> set (bd_api_key demo_bd)" "ak_revoked_at demo_llave \<noteq> None"
  by (simp_all add: bd_ok_def demo_bd_def bd_init_def demo_llave_def)

theorem revoked_is_final_witness:
  "\<exists>db'. set_active KEY_TAG True demo_bd = (Inr 0, db') \<and>
    (\<forall>s t t' c q u plan db''. verify (sha256 demo_cripto) s t t' db' \<noteq> (Inr (Valid [7] c q u plan), db''))"
proof -
  obtain res db' where sa: "set_active KEY_TAG True demo_bd = (res, db')" by fastforce
  then have res: "res = Inr 0"
    by (auto simp: set_active_def sentencia_def demo_bd_def bd_init_def demo_llave_def actualizar_api_key_def)
  have "(paso (sha256 demo_cripto) demo_fuente)\<^sup>*\<^sup>* demo_bd db'"
    using paso.activar [OF sa] by blast
  from revoked_is_final [OF demo_bd_ok this] sa res show ?thesis
    by (auto simp: demo_llave_def)
qed

text \<open>
  C12. The life of a key, as a refinement.  Each key is active, suspended or revoked; activating,
  deactivating and revoking by prefix do to the database what the abstract operation does to the
  state of that prefix and to no other (or nothing, when the database fails), and only the keys
  that are active in the abstract state are ever authorised.
\<close>
theorem store_refines_lifecycle:
  assumes "bd_ok db"
  shows "(\<forall>b res db'. set_active p b db = (res, db') \<longrightarrow> estados db' =
      (if isl res then estados db else (estados db)(p := map_option (conmutar b) (estados db p)))) \<and>
    (\<forall>t res db'. revoke p t db = (res, db') \<longrightarrow> estados db' =
      (if isl res then estados db else (estados db)(p := map_option (\<lambda>_. Revocada) (estados db p)))) \<and>
    (\<forall>t t' i c q u plan db'. verify sha s t t' db = (Inr (Valid i c q u plan), db') \<longrightarrow>
      (\<exists>p' h. parse sha s = Some (p', h) \<and> estados db p' = Some Activa))"
proof -
  have "\<exists>p' h. parse sha s = Some (p', h) \<and> estados db p' = Some Activa"
    if "verify sha s t t' db = (Inr (Valid i c q u plan), db')" for t t' i c q u plan db'
    using that
  proof (rule verify_Valid)
    fix k assume "k \<in> set (bd_api_key db)" "parse sha s = Some (ak_prefix k, ak_key_hash k)"
      "ak_revoked_at k = None" "ak_active k \<noteq> 0"
    with estados_de [OF assms] show ?thesis by (auto simp: estado_de_def)
  qed
  then show ?thesis using estados_set_active estados_revoke by blast
qed

theorem store_refines_lifecycle_witness:
  "\<exists>db'. snd (set_active KEY_TAG True demo_bd) = db' \<and> estados db' KEY_TAG = Some Revocada"
proof -
  obtain res db' where sa: "set_active KEY_TAG True demo_bd = (res, db')" by fastforce
  have "estados demo_bd KEY_TAG = Some Revocada"
    by (simp add: estados_def demo_bd_def bd_init_def demo_llave_def estado_de_def)
  with store_refines_lifecycle [OF demo_bd_ok(1), of KEY_TAG "sha256 demo_cripto" "[]"] sa
  show ?thesis by (auto split: if_splits)
qed

text \<open>
  A key just issued is valid: in a consistent database, the secret handed out is authorised
  under a new identifier, for its customer, with the quota it was issued with and nothing used,
  and the database is not changed by asking.
\<close>
lemma issued_key_is_valid:
  assumes "bd_ok db" and "fuente_ok fuente"
    and "issue_key sha fuente c q e t0 r db = Some (Inr key, r', db')"
    and "bd_fallos db' = []" and "0 < q" and "\<forall>x. e = Some x \<longrightarrow> t < x"
  shows "\<exists>ident cu. cu \<in> set (bd_customer db) \<and> cu_id cu = c \<and> ident \<notin> ak_id ` set (bd_api_key db) \<and>
    verify sha (gk_secret key) t t' db' = (Inr (Valid ident c q 0 (cu_plan cu)), db')"
  using assms by (rule verify_issued)

lemma issued_key_is_valid_example:
  "\<exists>key r' db' ident plan. issue_key (sha256 demo_cripto) demo_fuente [1] 5 None 0 0 demo_bd = Some (Inr key, r', db') \<and>
    verify (sha256 demo_cripto) (gk_secret key) 3 3 db' = (Inr (Valid ident [1] 5 0 plan), db')"
proof -
  let ?sha = "sha256 demo_cripto"
  obtain key where g: "generate ?sha demo_fuente 0 = Some (key, 32)"
      and p: "gk_prefix key = KEY_TAG @ take 12 (to_hex (map of_nat [0..<32]))"
    by (simp add: generate_def fill_expect_def demo_fuente_def PREFIX_HEX_LEN_def Let_def
        del: upt_rec_numeral)
  have "length (gk_prefix key) = length KEY_TAG + 12" by (simp add: p)
  then have new: "gk_prefix key \<noteq> KEY_TAG" by auto
  let ?i = "to_hex (map of_nat [32..<48])"
  have i: "random_id demo_fuente 32 = Some (?i, 48)"
    by (simp add: random_id_def fill_expect_def demo_fuente_def del: upt_rec_numeral)
  have "length ?i = 32" by (simp del: upt_rec_numeral)
  moreover have "length [7 :: u8] = 1" by simp
  ultimately have ne: "[7] \<noteq> ?i" by (metis numeral_eq_one_iff semiring_norm(85))
  obtain db' where 1: "issue_key ?sha demo_fuente [1] 5 None 0 0 demo_bd = Some (Inr key, 48, db')"
      and "bd_fallos db' = []"
    using ne new by (simp add: issue_key_def g i sentencia_def insertar_api_key_def demo_bd_def bd_init_def
        demo_llave_def del: upt_rec_numeral)
  from issued_key_is_valid [OF demo_bd_ok(1) demo_fuente_ok this, of 3 3] 1 show ?thesis
    by auto
qed

end
