(* ===== verification/Voprf.thy ===== *)
theory Voprf
  imports Keys GF256 Instances "HOL-Library.Monad_Syntax"
begin

text \<open>
  \<^verbatim>\<open>crates/quipu-voprf/src/rfc9497.rs\<close>: the verifiable oblivious PRF of RFC 9497 over
  ristretto255 with SHA-512.  Scalars are a field and points an abelian group, as type variables;
  what the code takes from \<^verbatim>\<open>curve25519_dalek\<close> and \<^verbatim>\<open>sha2\<close> beyond their arithmetic is
  the record \<open>ristretto\<close>, and \<open>ristretto_ok\<close> says what is documented of it.  The outer \<open>option\<close> is a
  panic, an inner one the \<^verbatim>\<open>Option\<close> of the code.
\<close>

record ('s, 'p) ristretto =
  smul :: "'s \<Rightarrow> 'p \<Rightarrow> 'p"
  basepoint :: 'p
  compress :: "'p \<Rightarrow> bytes"
  decompress :: "bytes \<Rightarrow> 'p option"
  scalar_bytes :: "'s \<Rightarrow> bytes"
  scalar_canonical :: "bytes \<Rightarrow> 's option"
  scalar_wide :: "bytes \<Rightarrow> 's"
  from_uniform :: "bytes \<Rightarrow> 'p"
  sha512 :: "bytes \<Rightarrow> bytes"

section \<open>Hashing to scalars and points\<close>

definition CONTEXT_STRING :: bytes where
  "CONTEXT_STRING = ascii ''OPRFV1-'' @ [1] @ ascii ''-ristretto255-SHA512''"

definition PROOF_LEN :: nat where
  "PROOF_LEN = 64"

definition OUTPUT_LEN :: nat where
  "OUTPUT_LEN = 64"

text \<open>\<^verbatim>\<open>n as u16\<close>: only the low sixteen bits.\<close>

definition i2osp2 :: "nat \<Rightarrow> bytes" where
  "i2osp2 n = u16_to_be (of_nat n)"

definition expand_message_xmd_64 :: "('s, 'p) ristretto \<Rightarrow> bytes \<Rightarrow> bytes \<Rightarrow> bytes option" where
  "expand_message_xmd_64 G msg dst =
     (if 255 < length dst then None
      else
        let dst_prime = dst @ [of_nat (length dst)];
            b_0 = sha512 G (replicate 128 0 @ msg @ i2osp2 64 @ [0] @ dst_prime)
        in Some (sha512 G (b_0 @ [1] @ dst_prime)))"

definition dst_with :: "bytes \<Rightarrow> bytes" where
  "dst_with prefix = prefix @ CONTEXT_STRING"

definition hash_to_group :: "('s, 'p) ristretto \<Rightarrow> bytes \<Rightarrow> 'p option" where
  "hash_to_group G msg =
     map_option (from_uniform G) (expand_message_xmd_64 G msg (dst_with (ascii ''HashToGroup-'')))"

definition hash_to_scalar_dst :: "('s, 'p) ristretto \<Rightarrow> bytes \<Rightarrow> bytes \<Rightarrow> 's option" where
  "hash_to_scalar_dst G msg dst = map_option (scalar_wide G) (expand_message_xmd_64 G msg dst)"

definition hash_to_scalar :: "('s, 'p) ristretto \<Rightarrow> bytes \<Rightarrow> 's option" where
  "hash_to_scalar G msg = hash_to_scalar_dst G msg (dst_with (ascii ''HashToScalar-''))"

definition random_scalar :: "('s, 'p) ristretto \<Rightarrow> 'r fuente \<Rightarrow> 'r \<Rightarrow> ('s \<times> 'r) option" where
  "random_scalar G fuente r =
     (case fill_expect fuente 64 r of None \<Rightarrow> None | Some (b, r') \<Rightarrow> Some (scalar_wide G b, r'))"

section \<open>Keys\<close>

text \<open>The loop of \<open>derive_key_pair\<close> from \<open>counter\<close> on; 256 counters at most.\<close>

function derive_loop :: "('s :: field, 'p) ristretto \<Rightarrow> bytes \<Rightarrow> bytes \<Rightarrow> nat \<Rightarrow> 's option option" where
  "derive_loop G dst derive_input counter =
     (if 255 < counter then Some None
      else
        case hash_to_scalar_dst G (derive_input @ [of_nat counter]) dst of
          None \<Rightarrow> None
        | Some sk \<Rightarrow> if sk \<noteq> 0 then Some (Some sk) else derive_loop G dst derive_input (Suc counter))"
  by pat_completeness auto
termination by (relation "measure (\<lambda>(_, _, _, counter). 256 - counter)") auto

declare derive_loop.simps [simp del]

definition derive_key_pair :: "('s :: field, 'p) ristretto \<Rightarrow> bytes \<Rightarrow> bytes \<Rightarrow> 's option option" where
  "derive_key_pair G seed info =
     derive_loop G (dst_with (ascii ''DeriveKeyPair'')) (seed @ i2osp2 (length info) @ info) 0"

record 's voprf_server =
  key :: 's

definition server_from_seed ::
  "('s :: field, 'p) ristretto \<Rightarrow> bytes \<Rightarrow> bytes \<Rightarrow> 's voprf_server option option" where
  "server_from_seed G seed info =
     map_option (map_option (\<lambda>k. \<lparr>key = k\<rparr>)) (derive_key_pair G seed info)"

definition server_from_scalar :: "'s \<Rightarrow> 's voprf_server" where
  "server_from_scalar k = \<lparr>key = k\<rparr>"

definition server_new ::
  "('s :: field, 'p) ristretto \<Rightarrow> 'r fuente \<Rightarrow> 'r \<Rightarrow> ('s voprf_server \<times> 'r) option" where
  "server_new G fuente r =
     (case fill_expect fuente 32 r of
        None \<Rightarrow> None
      | Some (seed, r') \<Rightarrow>
          (case server_from_seed G seed (ascii ''quipu-voprf-ephemeral'') of
             Some (Some s) \<Rightarrow> Some (s, r')
           | _ \<Rightarrow> None))"

definition public_key :: "('s, 'p) ristretto \<Rightarrow> 's voprf_server \<Rightarrow> bytes" where
  "public_key G S = compress G (smul G (key S) (basepoint G))"

section \<open>The proof of equal logarithms\<close>

definition composites_seed :: "('s, 'p) ristretto \<Rightarrow> 'p \<Rightarrow> bytes" where
  "composites_seed G pk =
     (let seed_dst = dst_with (ascii ''Seed-'')
      in sha512 G (i2osp2 32 @ compress G pk @ i2osp2 (length seed_dst) @ seed_dst))"

definition composite_scalar :: "('s, 'p) ristretto \<Rightarrow> bytes \<Rightarrow> nat \<Rightarrow> 'p \<Rightarrow> 'p \<Rightarrow> 's option" where
  "composite_scalar G seed i ci di =
     hash_to_scalar G
       (i2osp2 64 @ seed @ i2osp2 i @ i2osp2 32 @ compress G ci @ i2osp2 32 @ compress G di
        @ ascii ''Composite'')"

text \<open>The loops over \<^verbatim>\<open>c.iter().zip(d.iter()).enumerate()\<close>.\<close>

fun composites_m_loop ::
  "('s, 'p :: ab_group_add) ristretto \<Rightarrow> bytes \<Rightarrow> nat \<Rightarrow> ('p \<times> 'p) list \<Rightarrow> 'p \<Rightarrow> 'p option" where
  "composites_m_loop G seed i [] m = Some m"
| "composites_m_loop G seed i ((ci, di) # cds) m =
     do {
       s \<leftarrow> composite_scalar G seed i ci di;
       composites_m_loop G seed (i + 1) cds (m + smul G s ci)
     }"

definition compute_composites_m ::
  "('s, 'p :: ab_group_add) ristretto \<Rightarrow> 'p \<Rightarrow> 'p list \<Rightarrow> 'p list \<Rightarrow> 'p option" where
  "compute_composites_m G pk c d = composites_m_loop G (composites_seed G pk) 0 (zip c d) 0"

fun composites_loop ::
  "('s, 'p :: ab_group_add) ristretto \<Rightarrow> bytes \<Rightarrow> nat \<Rightarrow> ('p \<times> 'p) list \<Rightarrow> 'p \<Rightarrow> 'p \<Rightarrow> ('p \<times> 'p) option" where
  "composites_loop G seed i [] m z = Some (m, z)"
| "composites_loop G seed i ((ci, di) # cds) m z =
     do {
       s \<leftarrow> composite_scalar G seed i ci di;
       composites_loop G seed (i + 1) cds (m + smul G s ci) (z + smul G s di)
     }"

definition compute_composites ::
  "('s, 'p :: ab_group_add) ristretto \<Rightarrow> 'p \<Rightarrow> 'p list \<Rightarrow> 'p list \<Rightarrow> ('p \<times> 'p) option" where
  "compute_composites G pk c d = composites_loop G (composites_seed G pk) 0 (zip c d) 0 0"

definition challenge :: "('s, 'p) ristretto \<Rightarrow> 'p \<Rightarrow> 'p \<Rightarrow> 'p \<Rightarrow> 'p \<Rightarrow> 'p \<Rightarrow> 's option" where
  "challenge G pk m z t2 t3 =
     hash_to_scalar G
       (concat (map (\<lambda>p. i2osp2 32 @ compress G p) [pk, m, z, t2, t3]) @ ascii ''Challenge'')"

definition generate_proof ::
  "('s :: field, 'p :: ab_group_add) ristretto \<Rightarrow> 's voprf_server \<Rightarrow> 'p \<Rightarrow> 'p \<Rightarrow> 's \<Rightarrow> bytes option" where
  "generate_proof G S c_elem d_elem r =
     (let pk = smul G (key S) (basepoint G)
      in do {
        m \<leftarrow> compute_composites_m G pk [c_elem] [d_elem];
        let z = smul G (key S) m;
        let t2 = smul G r (basepoint G);
        let t3 = smul G r m;
        c \<leftarrow> challenge G pk m z t2 t3;
        let s = r - c * key S;
        Some (scalar_bytes G c @ scalar_bytes G s)
      })"

definition verify_proof ::
  "('s :: field, 'p :: ab_group_add) ristretto \<Rightarrow> 'p \<Rightarrow> 'p \<Rightarrow> 'p \<Rightarrow> bytes \<Rightarrow> bool option" where
  "verify_proof G pk c_elem d_elem proof_bytes =
     (case (scalar_canonical G (take 32 proof_bytes), scalar_canonical G (drop 32 proof_bytes)) of
        (Some c, Some s) \<Rightarrow> do {
          (m, z) \<leftarrow> compute_composites G pk [c_elem] [d_elem];
          let t2 = smul G s (basepoint G) + smul G c pk;
          let t3 = smul G s m + smul G c z;
          expected \<leftarrow> challenge G pk m z t2 t3;
          Some (expected = c)
        }
      | _ \<Rightarrow> Some False)"

section \<open>The protocol\<close>

record ('s, 'p) blind_state =
  st_blind :: 's
  st_blinded :: 'p

definition blind_state_to_bytes :: "('s, 'p) ristretto \<Rightarrow> ('s, 'p) blind_state \<Rightarrow> bytes" where
  "blind_state_to_bytes G st = scalar_bytes G (st_blind st) @ compress G (st_blinded st)"

definition blind_state_from_bytes :: "('s, 'p) ristretto \<Rightarrow> bytes \<Rightarrow> ('s, 'p) blind_state option" where
  "blind_state_from_bytes G b =
     do {
       blind \<leftarrow> scalar_canonical G (take 32 b);
       blinded \<leftarrow> decompress G (drop 32 b);
       Some \<lparr>st_blind = blind, st_blinded = blinded\<rparr>
     }"

definition blind_with ::
  "('s, 'p :: ab_group_add) ristretto \<Rightarrow> bytes \<Rightarrow> 's \<Rightarrow> (('s, 'p) blind_state \<times> bytes) option option" where
  "blind_with G input r =
     do {
       p \<leftarrow> hash_to_group G input;
       if p = 0 then Some None
       else
         let blinded = smul G r p
         in Some (Some (\<lparr>st_blind = r, st_blinded = blinded\<rparr>, compress G blinded))
     }"

text \<open>\<open>blind\<close> draws its scalar only after the identity was excluded.\<close>

definition blind ::
  "('s, 'p :: ab_group_add) ristretto \<Rightarrow> 'r fuente \<Rightarrow> bytes \<Rightarrow> 'r \<Rightarrow>
    ((('s, 'p) blind_state \<times> bytes) option \<times> 'r) option" where
  "blind G fuente input r =
     do {
       p \<leftarrow> hash_to_group G input;
       if p = 0 then Some (None, r)
       else do {
         (s, r') \<leftarrow> random_scalar G fuente r;
         let blinded = smul G s p;
         Some (Some (\<lparr>st_blind = s, st_blinded = blinded\<rparr>, compress G blinded), r')
       }
     }"

definition blind_evaluate_with_randomness ::
  "('s :: field, 'p :: ab_group_add) ristretto \<Rightarrow> 's voprf_server \<Rightarrow> bytes \<Rightarrow> 's \<Rightarrow>
    (bytes \<times> bytes) option option" where
  "blind_evaluate_with_randomness G S blinded r =
     (case decompress G blinded of
        None \<Rightarrow> Some None
      | Some b \<Rightarrow>
          if b = 0 then Some None
          else
            let z = smul G (key S) b
            in map_option (\<lambda>pf. Some (compress G z, pf)) (generate_proof G S b z r))"

definition blind_evaluate ::
  "('s :: field, 'p :: ab_group_add) ristretto \<Rightarrow> 'r fuente \<Rightarrow> 's voprf_server \<Rightarrow> bytes \<Rightarrow> 'r \<Rightarrow>
    ((bytes \<times> bytes) option \<times> 'r) option" where
  "blind_evaluate G fuente S blinded r =
     (case decompress G blinded of
        None \<Rightarrow> Some (None, r)
      | Some b \<Rightarrow>
          if b = 0 then Some (None, r)
          else
            let z = smul G (key S) b
            in do {
              (s, r') \<leftarrow> random_scalar G fuente r;
              pf \<leftarrow> generate_proof G S b z s;
              Some (Some (compress G z, pf), r')
            })"

definition salida :: "('s, 'p) ristretto \<Rightarrow> bytes \<Rightarrow> 'p \<Rightarrow> bytes" where
  "salida G input n =
     sha512 G (i2osp2 (length input) @ input @ i2osp2 32 @ compress G n @ ascii ''Finalize'')"

definition finalize ::
  "('s :: field, 'p :: ab_group_add) ristretto \<Rightarrow> bytes \<Rightarrow> ('s, 'p) blind_state \<Rightarrow> bytes \<Rightarrow> bytes \<Rightarrow>
    bytes \<Rightarrow> bytes option option" where
  "finalize G input state evaluated proof_bytes server_pub =
     (case decompress G server_pub of
        None \<Rightarrow> Some None
      | Some pk \<Rightarrow>
          (case decompress G evaluated of
             None \<Rightarrow> Some None
           | Some z \<Rightarrow>
               if z = 0 \<or> pk = 0 then Some None
               else do {
                 ok \<leftarrow> verify_proof G pk (st_blinded state) z proof_bytes;
                 if \<not> ok then Some None
                 else Some (Some (salida G input (smul G (inverse (st_blind state)) z)))
               }))"

section \<open>What is documented of the group\<close>

definition ristretto_ok :: "('s :: field, 'p :: ab_group_add) ristretto \<Rightarrow> bool" where
  "ristretto_ok G \<longleftrightarrow>
     (\<forall>a b P. smul G (a + b) P = smul G a P + smul G b P) \<and>
     (\<forall>a P Q. smul G a (P + Q) = smul G a P + smul G a Q) \<and>
     (\<forall>a b P. smul G (a * b) P = smul G a (smul G b P)) \<and>
     (\<forall>P. smul G 1 P = P) \<and> basepoint G \<noteq> 0 \<and>
     (\<forall>P. length (compress G P) = 32 \<and> decompress G (compress G P) = Some P) \<and>
     (\<forall>s. length (scalar_bytes G s) = 32 \<and> scalar_canonical G (scalar_bytes G s) = Some s) \<and>
     (\<forall>m. length (sha512 G m) = 64)"

lemma ristretto_okD:
  assumes "ristretto_ok G"
  shows "smul G (a + b) P = smul G a P + smul G b P"
    and "smul G a (P + Q) = smul G a P + smul G a Q"
    and "smul G a (smul G b P) = smul G (a * b) P"
    and "smul G 1 P = P" and "basepoint G \<noteq> 0"
    and "length (compress G P) = 32" and "decompress G (compress G P) = Some P"
    and "length (scalar_bytes G s) = 32" and "scalar_canonical G (scalar_bytes G s) = Some s"
    and "length (sha512 G m) = 64"
  using assms by (simp_all add: ristretto_ok_def)

lemmas smul_laws = ristretto_okD(1-4)
lemmas encoding_laws = ristretto_okD(6-10)

lemma smul_zero:
  assumes "ristretto_ok G"
  shows "smul G 0 P = 0" "smul G a 0 = 0"
  using ristretto_okD(1) [OF assms, of 0 0 P] ristretto_okD(2) [OF assms, of a 0 0] by simp_all

lemma smul_diff: "ristretto_ok G \<Longrightarrow> smul G (a - b) P = smul G a P - smul G b P"
  using ristretto_okD(1) [of G "a - b" b P] by (simp add: eq_diff_eq)

lemma smul_inverse: "ristretto_ok G \<Longrightarrow> a \<noteq> 0 \<Longrightarrow> smul G (inverse a) (smul G a P) = P"
  by (simp add: ristretto_okD(3,4))

lemma smul_eq_0_iff: "ristretto_ok G \<Longrightarrow> smul G a P = 0 \<longleftrightarrow> a = 0 \<or> P = 0"
  by (metis smul_inverse smul_zero)

lemma smul_cancel: "ristretto_ok G \<Longrightarrow> a \<noteq> 0 \<Longrightarrow> smul G a P = smul G a Q \<Longrightarrow> P = Q"
  by (metis smul_inverse)

text \<open>The blinding goes away.\<close>

lemma unblind:
  assumes "ristretto_ok G" and "a \<noteq> 0"
  shows "smul G (inverse a) (smul G k (smul G a P)) = smul G k P"
proof -
  have "inverse a * (k * a) = k" using assms(2) by (simp add: mult.left_commute [of "inverse a" k])
  then show ?thesis by (simp only: ristretto_okD(3) [OF assms(1)])
qed

section \<open>The hashes do not panic\<close>

text \<open>The constant domain separators are short enough.\<close>

lemma expand_ok: "length dst \<le> 255 \<Longrightarrow> \<exists>u. expand_message_xmd_64 G msg dst = Some u"
  by (simp add: expand_message_xmd_64_def Let_def)

lemma hash_to_scalar_ok: "\<exists>s. hash_to_scalar G msg = Some s"
  using expand_ok [of "dst_with (ascii ''HashToScalar-'')"]
  by (fastforce simp: hash_to_scalar_def hash_to_scalar_dst_def dst_with_def CONTEXT_STRING_def ascii_def)

lemma hash_to_group_ok: "\<exists>p. hash_to_group G msg = Some p"
  using expand_ok [of "dst_with (ascii ''HashToGroup-'')"]
  by (fastforce simp: hash_to_group_def dst_with_def CONTEXT_STRING_def ascii_def)

lemma composite_scalar_ok: "\<exists>s. composite_scalar G seed i c d = Some s"
  by (simp add: composite_scalar_def hash_to_scalar_ok)

lemma challenge_ok: "\<exists>c. challenge G pk m z t2 t3 = Some c"
  by (simp add: challenge_def hash_to_scalar_ok)

lemma derive_key_pair_ok: "\<exists>k. derive_key_pair G seed info = Some k"
proof -
  have "\<exists>s. hash_to_scalar_dst G m (dst_with (ascii ''DeriveKeyPair'')) = Some s" for m
    using expand_ok [of "dst_with (ascii ''DeriveKeyPair'')"]
    by (fastforce simp: hash_to_scalar_dst_def dst_with_def CONTEXT_STRING_def ascii_def)
  then have "\<exists>k. derive_loop G (dst_with (ascii ''DeriveKeyPair'')) m n = Some k" for m n
  proof (induction "256 - n" arbitrary: n)
    case 0
    then show ?case by (simp add: derive_loop.simps [of G _ _ n])
  next
    case (Suc x)
    obtain sk where "hash_to_scalar_dst G (m @ [of_nat n]) (dst_with (ascii ''DeriveKeyPair'')) = Some sk"
      using Suc.prems by blast
    moreover have "x = 256 - Suc n" using Suc.hyps(2) by simp
    ultimately show ?case
      using Suc.hyps(1) [of "Suc n"] Suc.prems by (subst derive_loop.simps) simp
  qed
  then show ?thesis by (simp add: derive_key_pair_def)
qed

lemma derive_key_pair_ne_0: "derive_key_pair G seed info = Some (Some k) \<Longrightarrow> k \<noteq> 0"
proof -
  have "derive_loop G dst m n = Some (Some k) \<Longrightarrow> k \<noteq> 0" for dst m n
  proof (induction G dst m n rule: derive_loop.induct)
    case (1 G dst m n)
    then show ?case
      by (subst (asm) (2) derive_loop.simps) (auto split: if_splits option.splits)
  qed
  then show "derive_key_pair G seed info = Some (Some k) \<Longrightarrow> k \<noteq> 0"
    by (simp add: derive_key_pair_def)
qed

section \<open>Completeness\<close>

text \<open>With one pair, both sides compute with the one composite scalar.\<close>

lemma composites_one:
  assumes "composite_scalar G (composites_seed G pk) 0 c d = Some s"
  shows "compute_composites_m G pk [c] [d] = Some (smul G s c)"
    "compute_composites G pk [c] [d] = Some (smul G s c, smul G s d)"
  using assms by (simp_all add: compute_composites_m_def compute_composites_def)

text \<open>The server's proof is accepted, whatever its randomness.\<close>

lemma proof_accepted:
  assumes G: "ristretto_ok G"
  shows "\<exists>pf. generate_proof G S b (smul G (key S) b) r = Some pf \<and> length pf = 64 \<and>
    verify_proof G (smul G (key S) (basepoint G)) b (smul G (key S) b) pf = Some True"
proof -
  let ?pk = "smul G (key S) (basepoint G)"
  obtain s where s: "composite_scalar G (composites_seed G ?pk) 0 b (smul G (key S) b) = Some s"
    by (metis composite_scalar_ok)
  let ?m = "smul G s b"
  have z: "smul G s (smul G (key S) b) = smul G (key S) ?m"
    by (simp add: ristretto_okD(3) [OF G] ac_simps)
  obtain c where c: "challenge G ?pk ?m (smul G (key S) ?m) (smul G r (basepoint G)) (smul G r ?m) = Some c"
    by (metis challenge_ok)
  have t: "smul G (r - c * key S) P + smul G c (smul G (key S) P) = smul G r P" for P
    by (simp add: smul_diff [OF G] ristretto_okD(3) [OF G])
  show ?thesis
    using c by (simp add: generate_proof_def verify_proof_def composites_one [OF s] z t Let_def
        encoding_laws [OF G])
qed

lemma finalize_evaluated:
  assumes G: "ristretto_ok G" and "P \<noteq> 0" and "a \<noteq> 0" and "key S \<noteq> 0"
    and st: "st_blind st = a" "st_blinded st = smul G a P"
    and ev: "blind_evaluate_with_randomness G S (compress G (smul G a P)) r = Some (Some (ev, pf))"
  shows "finalize G input st ev pf (public_key G S) = Some (Some (salida G input (smul G (key S) P)))"
proof -
  let ?b = "smul G a P"
  have b: "?b \<noteq> 0" using assms(2,3) by (simp add: smul_eq_0_iff [OF G])
  obtain pf' where "generate_proof G S ?b (smul G (key S) ?b) r = Some pf'"
      and v: "verify_proof G (smul G (key S) (basepoint G)) ?b (smul G (key S) ?b) pf' = Some True"
    using proof_accepted [OF G] by blast
  then have e: "ev = compress G (smul G (key S) ?b)" "pf = pf'"
    using ev b by (simp_all add: blind_evaluate_with_randomness_def Let_def encoding_laws [OF G])
  show ?thesis
    using assms(2-4) v b ristretto_okD(5) [OF G]
    by (simp add: finalize_def public_key_def e st smul_eq_0_iff [OF G] unblind [OF G] encoding_laws [OF G])
qed

lemma blind_evaluate_Some:
  assumes "blind_evaluate G fuente S b r = Some (Some (ev, pf), r')"
  obtains s where "random_scalar G fuente r = Some (s, r')"
    "blind_evaluate_with_randomness G S b s = Some (Some (ev, pf))"
  using assms
  by (auto simp: blind_evaluate_def blind_evaluate_with_randomness_def Let_def
      split: option.splits if_splits bind_splits)

lemma blind_evaluate_lengths:
  assumes G: "ristretto_ok G" and "blind_evaluate G fuente K blinded r = Some (Some (ev, pf), r')"
  shows "length ev = 32 \<and> length pf = 64"
  using assms(2)
  by (auto simp: blind_evaluate_def generate_proof_def Let_def encoding_laws [OF G]
      split: option.splits if_splits bind_splits)

section \<open>Soundness\<close>

text \<open>
  When the evaluation is not by the key of the public key, the commitments of a proof admit one
  challenge only.
\<close>

lemma one_challenge:
  assumes G: "ristretto_ok G" and D: "D \<noteq> smul G k C" and d: "d \<noteq> 0"
    and 1: "t2 = smul G s (basepoint G) + smul G c (smul G k (basepoint G))"
      "t3 = smul G s (smul G d C) + smul G c (smul G d D)"
    and 2: "t2 = smul G s' (basepoint G) + smul G c' (smul G k (basepoint G))"
      "t3 = smul G s' (smul G d C) + smul G c' (smul G d D)"
  shows "c' = c"
proof (rule ccontr)
  assume ne: "c' \<noteq> c"
  have "smul G (s + c * k) (basepoint G) = smul G (s' + c' * k) (basepoint G)"
    using 1(1) 2(1) by (simp add: ristretto_okD(1,3) [OF G])
  then have "smul G (s + c * k - (s' + c' * k)) (basepoint G) = 0"
    by (simp add: smul_diff [OF G])
  then have "s - s' = (c' - c) * k"
    using ristretto_okD(5) [OF G] by (simp add: smul_eq_0_iff [OF G] algebra_simps)
  moreover have "smul G (s - s') (smul G d C) = smul G (c' - c) (smul G d D)"
    using 1(2) 2(2) by (simp add: smul_diff [OF G] algebra_simps)
  ultimately have "smul G (c' - c) (smul G d (smul G k C)) = smul G (c' - c) (smul G d D)"
    by (simp add: ristretto_okD(3) [OF G] ac_simps)
  then show False using smul_cancel [OF G] d D ne by (metis eq_iff_diff_eq_0)
qed

lemma verify_proof_True:
  assumes "verify_proof G pk C D pf = Some True"
    and d: "composite_scalar G (composites_seed G pk) 0 C D = Some d"
  obtains c s where "scalar_canonical G (take 32 pf) = Some c" "scalar_canonical G (drop 32 pf) = Some s"
    "challenge G pk (smul G d C) (smul G d D) (smul G s (basepoint G) + smul G c pk)
      (smul G s (smul G d C) + smul G c (smul G d D)) = Some c"
  using assms(1)
  by (auto simp: verify_proof_def composites_one [OF d] Let_def split: option.splits bind_splits)

text \<open>The client's state survives its transport.\<close>

lemma blind_state_read:
  "ristretto_ok G \<Longrightarrow> blind_state_from_bytes G (blind_state_to_bytes G st) = Some st"
  by (simp add: blind_state_from_bytes_def blind_state_to_bytes_def encoding_laws)

section \<open>A small group\<close>

text \<open>
  A group of 256 elements, with hashes that are constant, to evaluate the properties at.
\<close>

definition demo_grupo :: "(gf, gf) ristretto" where
  "demo_grupo =
     \<lparr>smul = (*), basepoint = 1,
      compress = (\<lambda>p. byte_of p # replicate 31 0), decompress = (\<lambda>b. Some (gf (hd b))),
      scalar_bytes = (\<lambda>s. byte_of s # replicate 31 0), scalar_canonical = (\<lambda>b. Some (gf (hd b))),
      scalar_wide = (\<lambda>b. gf (hd b)), from_uniform = (\<lambda>b. gf (hd b)),
      sha512 = (\<lambda>m. replicate 64 1)\<rparr>"

lemma demo_grupo_ok: "ristretto_ok demo_grupo"
  by (simp add: ristretto_ok_def demo_grupo_def distrib_left distrib_right mult.assoc)

lemma demo_hashes:
  "hash_to_scalar demo_grupo m = Some 1" "hash_to_group demo_grupo m = Some 1"
  by (simp_all add: hash_to_scalar_def hash_to_scalar_dst_def hash_to_group_def expand_message_xmd_64_def
      demo_grupo_def dst_with_def CONTEXT_STRING_def ascii_def gf_simps numeral_eq_Suc)

text \<open>A source whose bytes are all five.\<close>

definition demo_cincos :: "nat fuente" where
  "demo_cincos s n = (Inr (replicate n 5), s)"

section \<open>Properties\<close>

text \<open>
  C9. The oblivious evaluation is the function of the key and the input alone: for any blinding
  scalar the client drew (zero apart) and any randomness of the server's proof, the client accepts
  the honest answer and gets the hash of its input with \<open>k\<close> times the point of the input.
\<close>
theorem voprf_evaluates_the_prf:
  assumes "ristretto_ok G" and "key S \<noteq> 0"
    and "blind G fuente input r = Some (Some (st, blinded), r1)" and "st_blind st \<noteq> 0"
    and "blind_evaluate G fuente' S blinded r' = Some (Some (ev, pf), r2)"
  shows "\<exists>P. hash_to_group G input = Some P \<and>
    finalize G input st ev pf (public_key G S) = Some (Some (salida G input (smul G (key S) P)))"
proof -
  obtain P where P: "hash_to_group G input = Some P" by (metis hash_to_group_ok)
  have st: "P \<noteq> 0" "st_blinded st = smul G (st_blind st) P" "blinded = compress G (smul G (st_blind st) P)"
    using assms(3) by (auto simp: blind_def P Let_def split: if_splits bind_splits)
  obtain s where "blind_evaluate_with_randomness G S blinded s = Some (Some (ev, pf))"
    using assms(5) by (rule blind_evaluate_Some)
  from finalize_evaluated [OF assms(1) st(1) assms(4,2) refl st(2) this [unfolded st(3)]] P
  show ?thesis by blast
qed

theorem voprf_evaluates_the_prf_witness:
  "\<exists>st blinded ev pf. blind demo_grupo demo_cincos [112] 0 = Some (Some (st, blinded), 0) \<and>
    blind_evaluate demo_grupo demo_cincos \<lparr>key = gf 3\<rparr> blinded 0 = Some (Some (ev, pf), 0) \<and>
    finalize demo_grupo [112] st ev pf (public_key demo_grupo \<lparr>key = gf 3\<rparr>)
      = Some (Some (salida demo_grupo [112] (gf 3)))"
proof -
  have r: "random_scalar demo_grupo demo_cincos 0 = Some (gf 5, 0)"
    by (simp add: random_scalar_def fill_expect_def demo_cincos_def demo_grupo_def)
  have ne: "gf 5 \<noteq> 0" "gf 3 \<noteq> 0" by (simp_all add: gf_field_defs)
  let ?st = "\<lparr>st_blind = gf 5, st_blinded = smul demo_grupo (gf 5) 1\<rparr>"
  have b: "blind demo_grupo demo_cincos [112] 0
      = Some (Some (?st, compress demo_grupo (smul demo_grupo (gf 5) 1)), 0)"
    by (simp add: blind_def demo_hashes r Let_def)
  let ?b = "smul demo_grupo (gf 5) 1"
  obtain pf where pf: "generate_proof demo_grupo \<lparr>key = gf 3\<rparr> ?b (smul demo_grupo (gf 3) ?b) (gf 5) = Some pf"
    using proof_accepted [OF demo_grupo_ok, of "\<lparr>key = gf 3\<rparr>" ?b "gf 5"] by auto
  have "?b \<noteq> 0" using ne by (simp add: demo_grupo_def)
  then have e: "blind_evaluate demo_grupo demo_cincos \<lparr>key = gf 3\<rparr> (compress demo_grupo ?b) 0
      = Some (Some (compress demo_grupo (smul demo_grupo (gf 3) ?b), pf), 0)"
    using r pf by (simp add: blind_evaluate_def Let_def ristretto_okD(7) [OF demo_grupo_ok])
  have "smul demo_grupo (gf 3) 1 = gf 3" by (simp add: demo_grupo_def)
  then show ?thesis
    using voprf_evaluates_the_prf [OF demo_grupo_ok _ b _ e] b e ne by (auto simp: demo_hashes)
qed

text \<open>
  C10. A server that did not use its key is accepted only by guessing.  If the client accepts a
  proof for an evaluation that is not \<open>k\<close> times the blinded element, then the challenge hash of
  the transcript hit the one scalar that the commitments of the proof leave open: for every other
  challenge no answer exists.
\<close>
theorem voprf_lie_needs_the_challenge:
  assumes "ristretto_ok G" and "verify_proof G (smul G k (basepoint G)) C D pf = Some True"
    and "D \<noteq> smul G k C"
    and "composite_scalar G (composites_seed G (smul G k (basepoint G))) 0 C D = Some d" and "d \<noteq> 0"
  shows "\<exists>t2 t3 c. challenge G (smul G k (basepoint G)) (smul G d C) (smul G d D) t2 t3 = Some c \<and>
    {c'. \<exists>s'. t2 = smul G s' (basepoint G) + smul G c' (smul G k (basepoint G)) \<and>
      t3 = smul G s' (smul G d C) + smul G c' (smul G d D)} = {c}"
  using assms(2,4)
proof (rule verify_proof_True)
  fix c s
  let ?t2 = "smul G s (basepoint G) + smul G c (smul G k (basepoint G))"
  let ?t3 = "smul G s (smul G d C) + smul G c (smul G d D)"
  assume "challenge G (smul G k (basepoint G)) (smul G d C) (smul G d D) ?t2 ?t3 = Some c"
  moreover have "{c'. \<exists>s'. ?t2 = smul G s' (basepoint G) + smul G c' (smul G k (basepoint G)) \<and>
      ?t3 = smul G s' (smul G d C) + smul G c' (smul G d D)} = {c}"
    using one_challenge [OF assms(1,3,5) refl refl] by blast
  ultimately show ?thesis by blast
qed

text \<open>With a constant hash every evaluation is accepted: the lie is \<open>3\<close> for the key \<open>1\<close>.\<close>

theorem voprf_lie_needs_the_challenge_witness:
  "verify_proof demo_grupo (smul demo_grupo 1 (basepoint demo_grupo)) 1 (gf 3) (replicate 64 1) = Some True \<and>
   (\<exists>t2 t3 c. {c'. \<exists>s'. t2 = smul demo_grupo s' (basepoint demo_grupo)
        + smul demo_grupo c' (smul demo_grupo 1 (basepoint demo_grupo)) \<and>
      t3 = smul demo_grupo s' (smul demo_grupo 1 1) + smul demo_grupo c' (smul demo_grupo 1 (gf 3))} = {c})"
proof -
  have d: "composite_scalar demo_grupo seed 0 C D = Some 1" for seed C D
    by (simp add: composite_scalar_def demo_hashes)
  have c: "challenge demo_grupo pk m z t2 t3 = Some 1" for pk m z t2 t3
    by (simp add: challenge_def demo_hashes)
  have "scalar_canonical demo_grupo (take 32 (replicate 64 1)) = Some 1"
      "scalar_canonical demo_grupo (drop 32 (replicate 64 1)) = Some 1"
    by (simp_all add: demo_grupo_def gf_simps numeral_eq_Suc)
  then have v: "verify_proof demo_grupo (smul demo_grupo 1 (basepoint demo_grupo)) 1 (gf 3) (replicate 64 1)
      = Some True"
    by (simp add: verify_proof_def composites_one [OF d] c Let_def)
  have "gf 3 \<noteq> smul demo_grupo 1 1" by (simp add: demo_grupo_def one_gf_def del: mult_1_left) (simp add: one_gf_def [symmetric], simp add: one_gf_def)
  note lie = voprf_lie_needs_the_challenge [OF demo_grupo_ok v this d one_neq_zero]
  show ?thesis using v lie by (elim exE conjE) (intro conjI exI, assumption+)
qed

end
