(* ===== verification/Http.thy ===== *)
theory Http
  imports Store Plans "HOL-Library.Monad_Syntax"
begin

text \<open>
  \<^verbatim>\<open>crates/quipu-oprf-server/src/http.rs\<close>: routing, the metered evaluation and the
  administration of keys.  The server is single threaded: a request is a function of the server's
  state (database, token buckets, randomness).  The VOPRF evaluation, the header comparison of
  \<^verbatim>\<open>tiny_http\<close> and the hash are parameters (\<open>entorno\<close>); the readings of the clock during a request
  are its \<open>reloj\<close>.  \<open>None\<close> is a panic (an \<^verbatim>\<open>expect\<close> on the system's randomness).
\<close>

section \<open>Requests, responses, state\<close>

datatype http_method = Get | Head | Post | OtroMetodo

record peticion =
  pt_method :: http_method
  pt_url :: bytes
  pt_headers :: "(bytes \<times> bytes) list"
  pt_body :: "bytes option"  \<comment> \<open>None: it cannot be read as a string\<close>

record respuesta =
  rs_status :: nat
  rs_body :: bytes
  rs_json :: bool

record reloj =
  rj_instante :: nat
  rj_expiry :: int
  rj_cuota :: int
  rj_registro :: int
  rj_uso :: int
  rj_alta :: int
  rj_emision :: int

record 'r entorno =
  en_equiv :: "bytes \<Rightarrow> bytes \<Rightarrow> bool"
  en_sha :: "bytes \<Rightarrow> bytes"
  en_fuente :: "'r fuente"
  en_rd :: "rat \<Rightarrow> f64"
  en_evaluar :: "bytes \<Rightarrow> 'r \<Rightarrow> ((bytes \<times> bytes) option \<times> 'r) option"
  en_public_key_hex :: bytes
  en_admin_token :: "bytes option"

record 'r servidor =
  sv_bd :: bd
  sv_cubos :: buckets
  sv_rng :: 'r

definition text_resp :: "nat \<Rightarrow> bytes \<Rightarrow> respuesta" where
  "text_resp status msg = \<lparr>rs_status = status, rs_body = msg, rs_json = False\<rparr>"

definition json_resp :: "nat \<Rightarrow> bytes \<Rightarrow> respuesta" where
  "json_resp status body = \<lparr>rs_status = status, rs_body = body, rs_json = True\<rparr>"

section \<open>Strings\<close>

text \<open>The UTF-8 of every character with the property White_Space, which \<^verbatim>\<open>str::trim\<close> removes.\<close>

definition blancos :: "bytes list" where
  "blancos =
     [[9], [10], [11], [12], [13], [32], [0xC2, 0x85], [0xC2, 0xA0], [0xE1, 0x9A, 0x80]]
     @ map (\<lambda>i. [0xE2, 0x80, 0x80 + of_nat i]) [0..<11]
     @ [[0xE2, 0x80, 0xA8], [0xE2, 0x80, 0xA9], [0xE2, 0x80, 0xAF], [0xE2, 0x81, 0x9F], [0xE3, 0x80, 0x80]]"

text \<open>At most as many removals as bytes.\<close>

primrec trim_start_n :: "nat \<Rightarrow> bytes \<Rightarrow> bytes" where
  "trim_start_n 0 s = s"
| "trim_start_n (Suc n) s =
     (case find (\<lambda>w. take (length w) s = w) blancos of
        None \<Rightarrow> s
      | Some w \<Rightarrow> trim_start_n n (drop (length w) s))"

primrec trim_end_n :: "nat \<Rightarrow> bytes \<Rightarrow> bytes" where
  "trim_end_n 0 s = s"
| "trim_end_n (Suc n) s =
     (case find (\<lambda>w. length w \<le> length s \<and> drop (length s - length w) s = w) blancos of
        None \<Rightarrow> s
      | Some w \<Rightarrow> trim_end_n n (take (length s - length w) s))"

definition trim :: "bytes \<Rightarrow> bytes" where
  "trim s = (let t = trim_start_n (length s) s in trim_end_n (length t) t)"

text \<open>\<^verbatim>\<open>trim_start_matches\<close> of a string: as often as it is there.\<close>

primrec trim_start_matches_n :: "nat \<Rightarrow> bytes \<Rightarrow> bytes \<Rightarrow> bytes" where
  "trim_start_matches_n 0 p s = s"
| "trim_start_matches_n (Suc n) p s =
     (case strip_prefix p s of None \<Rightarrow> s | Some r \<Rightarrow> trim_start_matches_n n p r)"

text \<open>\<^verbatim>\<open>splitn(2, c)\<close>: before the first \<open>c\<close>, and after it when there is one.\<close>

definition splitn2 :: "u8 \<Rightarrow> bytes \<Rightarrow> bytes \<times> bytes option" where
  "splitn2 c s =
     (takeWhile (\<lambda>b. b \<noteq> c) s,
      case dropWhile (\<lambda>b. b \<noteq> c) s of [] \<Rightarrow> None | _ # r \<Rightarrow> Some r)"

lemma splitn2_shorter: "splitn2 c s = (a, Some r) \<Longrightarrow> length r < length s"
proof -
  assume "splitn2 c s = (a, Some r)"
  then have "\<exists>x. dropWhile (\<lambda>b. b \<noteq> c) s = x # r"
    by (auto simp: splitn2_def split: list.splits)
  then show ?thesis
    using length_dropWhile_le [of "\<lambda>b. b \<noteq> c" s] by auto
qed

text \<open>\<^verbatim>\<open>split(c)\<close>.\<close>

function split_en :: "u8 \<Rightarrow> bytes \<Rightarrow> bytes list" where
  "split_en c s = (case splitn2 c s of (a, None) \<Rightarrow> [a] | (a, Some r) \<Rightarrow> a # split_en c r)"
  by pat_completeness auto
termination by (relation "measure (length \<circ> snd)") (auto dest: splitn2_shorter sym)

declare split_en.simps [simp del]

definition form_get :: "bytes \<Rightarrow> bytes \<Rightarrow> bytes option" where
  "form_get body clave =
     (case find (\<lambda>par. fst (splitn2 61 par) = clave) (split_en 38 body) of
        None \<Rightarrow> None
      | Some par \<Rightarrow> Some (case snd (splitn2 61 par) of None \<Rightarrow> [] | Some v \<Rightarrow> v))"

definition header_value :: "(bytes \<Rightarrow> bytes \<Rightarrow> bool) \<Rightarrow> peticion \<Rightarrow> bytes \<Rightarrow> bytes option" where
  "header_value igual req nombre =
     map_option snd (find (\<lambda>h. igual (fst h) nombre) (pt_headers req))"

section \<open>Handlers\<close>

definition admin_ok :: "bytes option \<Rightarrow> bytes option \<Rightarrow> bool" where
  "admin_ok token presented =
     (case (token, presented) of (Some expected, Some got) \<Rightarrow> expected = got | _ \<Rightarrow> False)"

text \<open>The rates of the catalogue are whole numbers, which \<^verbatim>\<open>{}\<close> prints without a point.\<close>

definition comillas :: "bytes \<Rightarrow> bytes" where
  "comillas s = [34] @ s @ [34]"

definition campo :: "string \<Rightarrow> bytes \<Rightarrow> bytes" where
  "campo nombre valor = comillas (ascii nombre) @ ascii '':'' @ valor"

fun separar :: "bytes \<Rightarrow> bytes list \<Rightarrow> bytes" where
  "separar sep [] = []"
| "separar sep [x] = x"
| "separar sep (x # y # ys) = x @ sep @ separar sep (y # ys)"

definition objeto :: "bytes list \<Rightarrow> bytes" where
  "objeto campos = ascii ''{'' @ separar (ascii '','') campos @ ascii ''}''"

definition plans_json :: bytes where
  "plans_json =
     objeto [campo ''plans''
       (ascii ''['' @ separar (ascii '','')
          (map (\<lambda>p. objeto
             [campo ''name'' (comillas (plan_name p)),
              campo ''quota_monthly'' (decimal (unat (plan_quota_monthly p))),
              campo ''rate_capacity'' (decimal (nat \<lfloor>plan_rate_capacity p\<rfloor>)),
              campo ''rate_refill_per_sec'' (decimal (nat \<lfloor>plan_rate_refill_per_sec p\<rfloor>))]) PLANS)
        @ ascii '']'')]"

definition respuesta_evaluacion :: "bytes \<Rightarrow> bytes \<Rightarrow> bytes" where
  "respuesta_evaluacion eval pf =
     objeto [campo ''evaluation'' (comillas (to_hex eval)), campo ''proof'' (comillas (to_hex pf))]"

text \<open>The part of \<open>evaluate\<close> after the key was found valid.\<close>

definition evaluar_autorizada ::
  "'r entorno \<Rightarrow> reloj \<Rightarrow> bytes \<Rightarrow> bytes \<Rightarrow> bytes \<Rightarrow> 'r servidor \<Rightarrow> (respuesta \<times> 'r servidor) option" where
  "evaluar_autorizada E rj key_id plan blinded S =
     (let limits = limits_for plan;
          (concedida, cubos) = allow (en_rd E) key_id (plan_rate_capacity limits)
             (plan_rate_refill_per_sec limits) (rj_instante rj) (sv_cubos S);
          S = S\<lparr>sv_cubos := cubos\<rparr>
      in if \<not> concedida then Some (text_resp 429 (ascii ''rate limit de r'' @ [0xC3, 0xA1] @ ascii ''faga''), S)
         else
           case en_evaluar E blinded (sv_rng S) of
             None \<Rightarrow> None
           | Some (None, r) \<Rightarrow> Some (text_resp 400 (ascii ''punto cegado inv'' @ [0xC3, 0xA1] @ ascii ''lido''), S\<lparr>sv_rng := r\<rparr>)
           | Some (Some (eval, pf), r) \<Rightarrow>
               let (_, db) = record_usage key_id (rj_registro rj) (rj_uso rj) (sv_bd S)
               in Some (json_resp 200 (respuesta_evaluacion eval pf), S\<lparr>sv_bd := db, sv_rng := r\<rparr>))"

definition evaluate ::
  "'r entorno \<Rightarrow> reloj \<Rightarrow> peticion \<Rightarrow> 'r servidor \<Rightarrow> (respuesta \<times> 'r servidor) option" where
  "evaluate E rj req S =
     (case Option.bind (header_value (en_equiv E) req (ascii ''Authorization''))
             (strip_prefix (ascii ''Bearer '')) of
        None \<Rightarrow> Some (text_resp 401 (ascii ''falta Authorization: Bearer <api_key>''), S)
      | Some bearer \<Rightarrow>
          (case pt_body req of
             None \<Rightarrow> Some (text_resp 400 (ascii ''cuerpo ilegible''), S)
           | Some body \<Rightarrow>
               (case from_hex_32 (trim body) of
                  None \<Rightarrow> Some (text_resp 400 (ascii ''el cuerpo debe ser el punto cegado en 64 hex''), S)
                | Some blinded \<Rightarrow>
                    (case verify (en_sha E) bearer (rj_expiry rj) (rj_cuota rj) (sv_bd S) of
                       (res, db) \<Rightarrow>
                         let S = S\<lparr>sv_bd := db\<rparr>
                         in case res of
                              Inr (Valid key_id _ _ _ plan) \<Rightarrow> evaluar_autorizada E rj key_id plan blinded S
                            | Inr Unknown \<Rightarrow> Some (text_resp 401 (ascii ''api key inv'' @ [0xC3, 0xA1] @ ascii ''lida''), S)
                            | Inr Inactive \<Rightarrow> Some (text_resp 403 (ascii ''api key inactiva''), S)
                            | Inr Expired \<Rightarrow> Some (text_resp 403 (ascii ''api key expirada''), S)
                            | Inr QuotaExceeded \<Rightarrow> Some (text_resp 429 (ascii ''cuota mensual agotada''), S)
                            | Inl _ \<Rightarrow> Some (text_resp 500 (ascii ''error de almac'' @ [0xC3, 0xA9] @ ascii ''n''), S)))))"

text \<open>A field that must be there and not be empty.\<close>

definition obligatorio :: "bytes \<Rightarrow> bytes \<Rightarrow> bytes option" where
  "obligatorio body clave = (case form_get body clave of Some v \<Rightarrow> (if v = [] then None else Some v) | None \<Rightarrow> None)"

definition admin_issue ::
  "'r entorno \<Rightarrow> reloj \<Rightarrow> peticion \<Rightarrow> 'r servidor \<Rightarrow> (respuesta \<times> 'r servidor) option" where
  "admin_issue E rj req S =
     (if \<not> admin_ok (en_admin_token E) (header_value (en_equiv E) req (ascii ''X-Admin-Token''))
      then Some (text_resp 401 (ascii ''no autorizado''), S)
      else
        case pt_body req of
          None \<Rightarrow> Some (text_resp 400 (ascii ''cuerpo ilegible''), S)
        | Some body \<Rightarrow>
            (case obligatorio body (ascii ''email'') of
               None \<Rightarrow> Some (text_resp 400 (ascii ''falta email''), S)
             | Some email \<Rightarrow>
                 (case obligatorio body (ascii ''plan'') of
                    None \<Rightarrow> Some (text_resp 400 (ascii ''falta plan''), S)
                  | Some plan \<Rightarrow>
                      (case quota_for plan of
                         None \<Rightarrow> Some (text_resp 400 (ascii ''plan desconocido''), S)
                       | Some quota \<Rightarrow>
                           (case create_customer (en_fuente E) email plan (rj_alta rj) (sv_rng S) (sv_bd S) of
                              None \<Rightarrow> None
                            | Some (Inl _, r, db) \<Rightarrow>
                                Some (text_resp 500 (ascii ''error creando cliente''),
                                  S\<lparr>sv_rng := r, sv_bd := db\<rparr>)
                            | Some (Inr customer, r, db) \<Rightarrow>
                                (case issue_key (en_sha E) (en_fuente E) customer quota None (rj_emision rj) r db of
                                   None \<Rightarrow> None
                                 | Some (Inl _, r', db') \<Rightarrow>
                                     Some (text_resp 500 (ascii ''error emitiendo key''),
                                       S\<lparr>sv_rng := r', sv_bd := db'\<rparr>)
                                 | Some (Inr k, r', db') \<Rightarrow>
                                     Some (json_resp 200 (objeto
                                         [campo ''customer'' (comillas customer),
                                          campo ''prefix'' (comillas (gk_prefix k)),
                                          campo ''api_key'' (comillas (gk_secret k))]),
                                       S\<lparr>sv_rng := r', sv_bd := db'\<rparr>)))))))"

text \<open>The answer to what the statement of an action returned.\<close>

definition responder ::
  "bytes \<Rightarrow> 'r servidor \<Rightarrow> (sql_error + nat) \<times> bd \<Rightarrow> respuesta \<times> 'r servidor" where
  "responder action S res =
     (case fst res of
        Inr n \<Rightarrow>
          if n = 0 \<and> action = ascii ''activate''
          then text_resp 409 (ascii ''esta key est'' @ [0xC3, 0xA1] @ ascii '' revocada y no se reactiva: emite una nueva'')
          else json_resp 200 (objeto [campo ''updated'' (decimal n)])
      | Inl _ \<Rightarrow> text_resp 500 (ascii ''error de almac'' @ [0xC3, 0xA9] @ ascii ''n''),
      S\<lparr>sv_bd := snd res\<rparr>)"

definition admin_action ::
  "'r entorno \<Rightarrow> reloj \<Rightarrow> peticion \<Rightarrow> bytes \<Rightarrow> 'r servidor \<Rightarrow> respuesta \<times> 'r servidor" where
  "admin_action E rj req path S =
     (if \<not> admin_ok (en_admin_token E) (header_value (en_equiv E) req (ascii ''X-Admin-Token''))
      then (text_resp 401 (ascii ''no autorizado''), S)
      else
        let rest = trim_start_matches_n (length path) (ascii ''/admin/keys/'') path;
            prefix = fst (splitn2 47 rest);
            action = (case snd (splitn2 47 rest) of None \<Rightarrow> [] | Some a \<Rightarrow> a)
        in if action = ascii ''activate'' then responder action S (set_active prefix True (sv_bd S))
           else if action = ascii ''deactivate'' then responder action S (set_active prefix False (sv_bd S))
           else if action = ascii ''revoke'' then responder action S (revoke prefix (rj_alta rj) (sv_bd S))
           else (text_resp 404 (ascii ''acci'' @ [0xC3, 0xB3] @ ascii ''n desconocida''), S))"

definition starts_with :: "bytes \<Rightarrow> bytes \<Rightarrow> bool" where
  "starts_with p s \<longleftrightarrow> take (length p) s = p"

definition route ::
  "'r entorno \<Rightarrow> reloj \<Rightarrow> peticion \<Rightarrow> 'r servidor \<Rightarrow> (respuesta \<times> 'r servidor) option" where
  "route E rj req S =
     (let path = fst (splitn2 63 (pt_url req));
          ruta = (if pt_method req = Head then Get else pt_method req)
      in if ruta = Get \<and> path = ascii ''/healthz'' then Some (text_resp 200 (ascii ''ok''), S)
         else if ruta = Get \<and> path = ascii ''/v1/public-key''
         then Some (json_resp 200 (objeto [campo ''public_key'' (comillas (en_public_key_hex E))]), S)
         else if ruta = Get \<and> path = ascii ''/v1/plans'' then Some (json_resp 200 plans_json, S)
         else if ruta = Post \<and> path = ascii ''/v1/oprf/evaluate'' then evaluate E rj req S
         else if ruta = Post \<and> path = ascii ''/admin/keys'' then admin_issue E rj req S
         else if ruta = Post \<and> starts_with (ascii ''/admin/keys/'') path
         then Some (admin_action E rj req path S)
         else Some (text_resp 404 (ascii ''not found''), S))"

text \<open>The loop of \<open>serve\<close>: the requests in the order they come, one at a time.\<close>

fun serve ::
  "'r entorno \<Rightarrow> (reloj \<times> peticion) list \<Rightarrow> 'r servidor \<Rightarrow> (respuesta list \<times> 'r servidor) option" where
  "serve E [] S = Some ([], S)"
| "serve E ((rj, req) # ps) S =
     (case route E rj req S of
        None \<Rightarrow> None
      | Some (resp, S') \<Rightarrow>
          (case serve E ps S' of None \<Rightarrow> None | Some (resps, S'') \<Rightarrow> Some (resp # resps, S'')))"

section \<open>What a request does to the database\<close>

definition usado :: "bd \<Rightarrow> bytes \<Rightarrow> bytes \<Rightarrow> nat" where
  "usado db i p = (case bd_usage db (i, p) of None \<Rightarrow> 0 | Some n \<Rightarrow> n)"

text \<open>Without failures, statements are their effect.\<close>

lemma sentencia_sin_fallos: "bd_fallos db = [] \<Longrightarrow> sentencia s db = s db"
  by (simp add: sentencia_def)

lemma usado_igual: "bd_usage db' = bd_usage db \<Longrightarrow> usado db' i p = usado db i p"
  by (simp add: usado_def)

text \<open>How many statements are still to fail, and the operations that leave the usage alone.\<close>

definition fallos :: "bd \<Rightarrow> nat" where
  "fallos db = length (filter id (bd_fallos db))"

definition no_mide :: "(bd \<Rightarrow> 'a \<times> bd) \<Rightarrow> bool" where
  "no_mide s \<longleftrightarrow> (\<forall>db. bd_usage (snd (s db)) = bd_usage db \<and> fallos (snd (s db)) \<le> fallos db)"

lemma no_mideD: "no_mide s \<Longrightarrow> s db = (res, db') \<Longrightarrow> bd_usage db' = bd_usage db \<and> fallos db' \<le> fallos db"
  unfolding no_mide_def by (metis snd_conv)

lemma no_mide_sentencia:
  "(\<And>db. bd_usage (snd (s db)) = bd_usage db \<and> bd_fallos (snd (s db)) = bd_fallos db) \<Longrightarrow> no_mide (sentencia s)"
  by (auto simp: no_mide_def sentencia_def fallos_def split: list.split bool.split)

lemma no_miden:
  "no_mide (sentencia (insertar_customer fc))" "no_mide (sentencia (insertar_api_key fk))"
  "no_mide (sentencia (actualizar_api_key P f))" "no_mide (sentencia (buscar_api_key p))" "no_mide (usage_count i p)"
  unfolding usage_count_def
  by (auto intro!: no_mide_sentencia
      simp: insertar_customer_def insertar_api_key_def actualizar_api_key_def buscar_api_key_def)

lemma verify_no_mide: "no_mide (verify sha s t t')"
  unfolding no_mide_def
proof
  fix db
  show "bd_usage (snd (verify sha s t t' db)) = bd_usage db \<and> fallos (snd (verify sha s t t' db)) \<le> fallos db"
  proof (cases "parse sha s")
    case (Some ph)
    obtain p h where ph: "ph = (p, h)" by fastforce
    obtain r1 db1 where 1: "sentencia (buscar_api_key p) db = (r1, db1)" by fastforce
    note t1 = no_mideD [OF no_miden(4) 1]
    have t2: "bd_usage (snd (usage_count i q db1)) = bd_usage db \<and> fallos (snd (usage_count i q db1)) \<le> fallos db" for i q
      using no_miden(5) [of i q] t1 unfolding no_mide_def by (metis le_trans)
    show ?thesis
      using t1 t2 by (auto simp: verify_def Some ph 1 split: sum.split option.split prod.split) (metis snd_conv)+
  qed (simp add: verify_def)
qed

lemma set_active_no_mide: "no_mide (set_active p b)"
  by (cases b) (simp_all add: set_active_def [abs_def] no_miden)

lemma revoke_no_mide: "no_mide (revoke p t)"
  by (simp add: revoke_def [abs_def] no_miden)

lemma create_customer_no_mide:
  "create_customer fuente e p t r db = Some (res, r', db') \<Longrightarrow> bd_usage db' = bd_usage db \<and> fallos db' \<le> fallos db"
  by (auto simp: create_customer_def split: option.splits prod.splits sum.splits dest: no_mideD [OF no_miden(1)])

lemma issue_key_no_mide:
  "issue_key sha fuente c q e t r db = Some (res, r', db') \<Longrightarrow> bd_usage db' = bd_usage db \<and> fallos db' \<le> fallos db"
  by (auto simp: issue_key_def split: option.splits prod.splits sum.splits dest: no_mideD [OF no_miden(2)])

text \<open>Recording the use of a key that is there adds one, unless the statement fails.\<close>

lemma record_usage_mide:
  assumes r: "record_usage i t t' db = (res, db')" and k: "k \<in> set (bd_api_key db)" "ak_id k = i"
  shows "fallos db' \<le> fallos db \<and>
    (usado db' j p = usado db j p + (if j = i \<and> p = period_of t then 1 else 0) \<or>
     fallos db' < fallos db \<and> usado db' j p = usado db j p)"
proof -
  obtain r1 db1 where 1: "sentencia (sumar_usage i (period_of t)) db = (r1, db1)" by fastforce
  have s: "fallos db1 \<le> fallos db \<and> (usado db1 j p = usado db j p + (if j = i \<and> p = period_of t then 1 else 0) \<or>
      fallos db1 < fallos db \<and> bd_usage db1 = bd_usage db)"
    using 1 k by (auto simp: sentencia_def sumar_usage_def fallos_def usado_def split: list.splits bool.splits option.splits if_splits)
  have "bd_usage db' = bd_usage db1 \<and> fallos db' \<le> fallos db1"
    using r 1 by (auto simp: record_usage_def split: sum.splits prod.splits dest: no_mideD [OF no_miden(3)])
  with s show ?thesis by (auto simp: usado_def)
qed

lemma create_customer_sin_fallos:
  "bd_fallos db = [] \<Longrightarrow> create_customer fuente e p t r db = Some (res, r', db') \<Longrightarrow>
    bd_fallos db' = [] \<and> bd_usage db' = bd_usage db"
  by (auto simp: create_customer_def sentencia_sin_fallos insertar_customer_def
      split: option.splits if_splits)

lemma issue_key_sin_fallos:
  "bd_fallos db = [] \<Longrightarrow> issue_key sha fuente c q e t r db = Some (res, r', db') \<Longrightarrow>
    bd_fallos db' = [] \<and> bd_usage db' = bd_usage db"
  by (auto simp: issue_key_def sentencia_sin_fallos insertar_api_key_def
      split: option.splits if_splits)

definition bearer_de :: "'r entorno \<Rightarrow> peticion \<Rightarrow> bytes option" where
  "bearer_de E req =
     Option.bind (header_value (en_equiv E) req (ascii ''Authorization'')) (strip_prefix (ascii ''Bearer ''))"

text \<open>An evaluation is answered, and metered, only under a valid key.\<close>

lemma evaluar_autorizada_cases:
  assumes "evaluar_autorizada E rj i plan blinded S = Some (resp, S')"
  shows "rs_status resp \<noteq> 200 \<and> sv_bd S' = sv_bd S \<or>
    rs_status resp = 200 \<and> sv_bd S' = snd (record_usage i (rj_registro rj) (rj_uso rj) (sv_bd S)) \<and>
    (\<exists>eval pf. en_evaluar E blinded (sv_rng S) = Some (Some (eval, pf), sv_rng S') \<and>
      resp = json_resp 200 (respuesta_evaluacion eval pf))"
  using assms
  by (auto simp: evaluar_autorizada_def Let_def text_resp_def json_resp_def
      split: prod.splits if_splits option.splits)

lemma evaluate_cases:
  assumes "evaluate E rj req S = Some (resp, S')"
  obtains (no) "rs_status resp \<noteq> 200" "sv_bd S' = sv_bd S \<or>
      (\<exists>b res. verify (en_sha E) b (rj_expiry rj) (rj_cuota rj) (sv_bd S) = (res, sv_bd S'))"
  | (si) b i c q u plan db body blinded eval pf where "rs_status resp = 200" "bearer_de E req = Some b"
    "pt_body req = Some body" "from_hex_32 (trim body) = Some blinded"
    "verify (en_sha E) b (rj_expiry rj) (rj_cuota rj) (sv_bd S) = (Inr (Valid i c q u plan), db)"
    "sv_bd S' = snd (record_usage i (rj_registro rj) (rj_uso rj) db)"
    "en_evaluar E blinded (sv_rng S) = Some (Some (eval, pf), sv_rng S')"
    "resp = json_resp 200 (respuesta_evaluacion eval pf)"
proof (cases "bearer_de E req")
  case None
  with assms that(1) show ?thesis by (auto simp: evaluate_def bearer_de_def text_resp_def)
next
  case (Some b)
  note b = Some [unfolded bearer_de_def]
  show ?thesis
  proof (cases "\<exists>body blinded. pt_body req = Some body \<and> from_hex_32 (trim body) = Some blinded")
    case False
    with assms that(1) b show ?thesis
      by (auto simp: evaluate_def text_resp_def split: option.splits)
  next
    case True
    then obtain body blinded where body: "pt_body req = Some body" "from_hex_32 (trim body) = Some blinded"
      by blast
    obtain res db where v: "verify (en_sha E) b (rj_expiry rj) (rj_cuota rj) (sv_bd S) = (res, db)"
      by fastforce
    show ?thesis
    proof (cases "\<exists>i c q u plan. res = Inr (Valid i c q u plan)")
      case False
      then have "rs_status resp \<noteq> 200 \<and> sv_bd S' = db"
        using assms b body v
        by (auto simp: evaluate_def text_resp_def Let_def split: sum.splits auth_result.splits)
      with that(1) v show ?thesis by blast
    next
      case True
      then obtain i c q u plan where res: "res = Inr (Valid i c q u plan)" by blast
      have "evaluar_autorizada E rj i plan blinded (S\<lparr>sv_bd := db\<rparr>) = Some (resp, S')"
        using assms b body v by (simp add: evaluate_def res Let_def)
      from evaluar_autorizada_cases [OF this] show ?thesis
        using that(1) that(2) [OF _ Some body v [unfolded res]] v by auto
    qed
  qed
qed

text \<open>The routes other than the evaluation do not meter.\<close>

lemma admin_issue_bd:
  assumes "admin_issue E rj req S = Some (resp, S')" and "bd_ok (sv_bd S)"
  shows "bd_ok (sv_bd S') \<and> bd_sigue (sv_bd S) (sv_bd S') \<and>
    bd_usage (sv_bd S') = bd_usage (sv_bd S) \<and> fallos (sv_bd S') \<le> fallos (sv_bd S)"
proof -
  let ?C = "\<lambda>email plan. create_customer (en_fuente E) email plan (rj_alta rj) (sv_rng S) (sv_bd S)"
  let ?I = "\<lambda>c q r db. issue_key (en_sha E) (en_fuente E) c q None (rj_emision rj) r db"
  have "sv_bd S' = sv_bd S \<or> (\<exists>email plan res r db. ?C email plan = Some (res, r, db) \<and>
      (sv_bd S' = db \<or> (\<exists>c q res' r'. ?I c q r db = Some (res', r', sv_bd S'))))"
    using assms(1)
    by (auto simp: admin_issue_def split: if_splits option.splits sum.splits prod.splits) blast+
  then show ?thesis
  proof (elim disjE exE conjE)
    fix email plan res r db
    assume C: "?C email plan = Some (res, r, db)"
    note c = create_customer_buena [OF assms(2) C] create_customer_no_mide [OF C]
    show ?thesis if "sv_bd S' = db" using c that by simp
    fix cu q res' r' assume I: "?I cu q r db = Some (res', r', sv_bd S')"
    show ?thesis using c issue_key_buena [OF _ I] issue_key_no_mide [OF I] bd_sigue_trans le_trans by metis
  qed (use assms(2) in simp)
qed

lemma admin_action_bd:
  assumes "admin_action E rj req path S = (resp, S')" and "bd_ok (sv_bd S)"
  shows "bd_ok (sv_bd S') \<and> bd_sigue (sv_bd S) (sv_bd S') \<and>
    bd_usage (sv_bd S') = bd_usage (sv_bd S) \<and> fallos (sv_bd S') \<le> fallos (sv_bd S)"
proof -
  have "sv_bd S' = sv_bd S \<or> (\<exists>p b. sv_bd S' = snd (set_active p b (sv_bd S))) \<or>
      (\<exists>p t. sv_bd S' = snd (revoke p t (sv_bd S)))"
    using assms(1) by (auto simp: admin_action_def responder_def Let_def split: if_split_asm) blast+
  then show ?thesis
  proof (elim disjE exE)
    fix p b assume s: "sv_bd S' = snd (set_active p b (sv_bd S))"
    then obtain res where sa: "set_active p b (sv_bd S) = (res, sv_bd S')" by (metis prod.collapse)
    show ?thesis using set_active_buena [OF assms(2) sa] no_mideD [OF set_active_no_mide sa] by blast
  next
    fix p t assume s: "sv_bd S' = snd (revoke p t (sv_bd S))"
    then obtain res where re: "revoke p t (sv_bd S) = (res, sv_bd S')" by (metis prod.collapse)
    show ?thesis using revoke_buena [OF assms(2) re] no_mideD [OF revoke_no_mide re] by blast
  qed (use assms(2) in simp)
qed

text \<open>An evaluation that was granted to the bearer \<open>b\<close>.\<close>

definition evaluacion_concedida :: "'r entorno \<Rightarrow> bytes \<Rightarrow> peticion \<Rightarrow> respuesta \<Rightarrow> bool" where
  "evaluacion_concedida E b req resp \<longleftrightarrow>
     pt_method req = Post \<and> fst (splitn2 63 (pt_url req)) = ascii ''/v1/oprf/evaluate'' \<and>
     bearer_de E req = Some b \<and> rs_status resp = 200"

lemma rutas_distintas:
  "ascii ''/v1/oprf/evaluate'' \<noteq> ascii ''/healthz''" "ascii ''/v1/oprf/evaluate'' \<noteq> ascii ''/v1/public-key''"
  "ascii ''/v1/oprf/evaluate'' \<noteq> ascii ''/v1/plans''"
  by (simp_all add: ascii_def)

lemma route_cases:
  assumes "route E rj req S = Some (resp, S')"
  obtains (nada) "S' = S" "\<And>b. \<not> evaluacion_concedida E b req resp"
  | (evaluar) "pt_method req = Post" "fst (splitn2 63 (pt_url req)) = ascii ''/v1/oprf/evaluate''"
      "evaluate E rj req S = Some (resp, S')"
  | (alta) "admin_issue E rj req S = Some (resp, S')" "\<And>b. \<not> evaluacion_concedida E b req resp"
  | (accion) path where "admin_action E rj req path S = (resp, S')"
      "\<And>b. \<not> evaluacion_concedida E b req resp"
proof (cases "pt_method req = Post \<and> fst (splitn2 63 (pt_url req)) = ascii ''/v1/oprf/evaluate''")
  case True
  then have "evaluate E rj req S = Some (resp, S')"
    using assms by (simp add: route_def Let_def rutas_distintas)
  with True evaluar show ?thesis by blast
next
  case False
  then have no: "\<not> evaluacion_concedida E b req resp" for b by (auto simp: evaluacion_concedida_def)
  have "S' = S \<or> admin_issue E rj req S = Some (resp, S') \<or>
      (\<exists>path. admin_action E rj req path S = (resp, S'))"
    using assms False by (auto simp: route_def Let_def split: if_splits)
  with nada alta accion no show ?thesis by blast
qed

text \<open>
  One request: the keys there are go on, the usage of a key grows by at most one, only within its
  quota, and by one if the evaluation was granted under it; but for a statement that failed, and for a
  request that straddles the change of month, whose quota is read in one month and whose use is written in
  the next.
\<close>

definition a_caballo :: "reloj \<Rightarrow> bool" where
  "a_caballo rj \<longleftrightarrow> period_of (rj_registro rj) \<noteq> period_of (rj_cuota rj)"

lemma route_step:
  assumes r: "route E rj req S = Some (resp, S')" and ok: "bd_ok (sv_bd S)"
    and k: "k \<in> set (bd_api_key (sv_bd S))" and b: "parse (en_sha E) b = Some (ak_prefix k, ak_key_hash k)"
  shows "bd_ok (sv_bd S') \<and> bd_sigue (sv_bd S) (sv_bd S') \<and> fallos (sv_bd S') \<le> fallos (sv_bd S) \<and>
    usado (sv_bd S) (ak_id k) p + of_bool (evaluacion_concedida E b req resp \<and> period_of (rj_cuota rj) = p)
      \<le> usado (sv_bd S') (ak_id k) p + (fallos (sv_bd S) - fallos (sv_bd S')) + of_bool (a_caballo rj) \<and>
    usado (sv_bd S') (ak_id k) p \<le> max (usado (sv_bd S) (ak_id k) p) (unat (ak_quota_monthly k)) + of_bool (a_caballo rj)"
  using r
proof (cases rule: route_cases)
  case nada
  then show ?thesis using ok by simp
next
  case alta
  then show ?thesis using admin_issue_bd [OF alta(1) ok] usado_igual [of "sv_bd S'" "sv_bd S" "ak_id k" p] by auto
next
  case (accion path)
  then show ?thesis using admin_action_bd [OF accion(1) ok] usado_igual [of "sv_bd S'" "sv_bd S" "ak_id k" p] by auto
next
  case evaluar
  from evaluar(3) show ?thesis
  proof (cases rule: evaluate_cases)
    case no
    have "bd_ok (sv_bd S') \<and> bd_sigue (sv_bd S) (sv_bd S') \<and> bd_usage (sv_bd S') = bd_usage (sv_bd S) \<and>
        fallos (sv_bd S') \<le> fallos (sv_bd S)"
      using no(2) ok verify_buena [OF ok] no_mideD [OF verify_no_mide] by (metis bd_sigue_refl order_refl)
    with no(1) usado_igual [of "sv_bd S'" "sv_bd S" "ak_id k" p] show ?thesis by (auto simp: evaluacion_concedida_def)
  next
    case (si b' i c q u plan db body blinded ev pf)
    note v = no_mideD [OF verify_no_mide si(5)] verify_buena [OF ok si(5)]
    from si(5) show ?thesis
    proof (rule verify_Valid)
      fix k' assume k': "k' \<in> set (bd_api_key (sv_bd S))" "i = ak_id k'" "q = ak_quota_monthly k'"
          "u < unat q" "parse (en_sha E) b' = Some (ak_prefix k', ak_key_hash k')"
          "u = (case bd_usage (sv_bd S) (ak_id k', period_of (rj_cuota rj)) of None \<Rightarrow> 0 | Some n \<Rightarrow> n)"
      obtain res where rec: "record_usage i (rj_registro rj) (rj_uso rj) db = (res, sv_bd S')"
        using si(6) by (metis prod.collapse)
      obtain k2 where k2: "k2 \<in> set (bd_api_key db)" "ak_id k2 = i"
        using v(2) k'(1,2) by (auto simp: bd_sigue_def llaves_siguen_def sigue_def)
      note n = record_usage_mide [OF rec k2, of "ak_id k" p]
      have same: "i = ak_id k" if "b' = b"
        using bd_ok_same_prefix [OF ok k k'(1)] b k'(2,5) that by simp
      have same': "k' = k" if "ak_id k = i"
        using bd_ok_same_id [OF ok k'(1) k] k'(2) that by simp
      have q: "usado (sv_bd S) (ak_id k) (period_of (rj_cuota rj)) < unat (ak_quota_monthly k)" if "ak_id k = i"
        using same' [OF that] k'(3,4,6) by (simp add: usado_def)
      have u: "usado db (ak_id k) p = usado (sv_bd S) (ak_id k) p" using v(1) by (simp add: usado_def)
      have g: "evaluacion_concedida E b req resp \<longleftrightarrow> b' = b"
        using evaluar(1,2) si(1,2) by (auto simp: evaluacion_concedida_def)
      have "usado (sv_bd S) (ak_id k) p + of_bool (evaluacion_concedida E b req resp \<and> period_of (rj_cuota rj) = p)
          \<le> usado (sv_bd S') (ak_id k) p + (fallos (sv_bd S) - fallos (sv_bd S')) + of_bool (a_caballo rj)"
        using n u v(1) same g by (auto simp: a_caballo_def split: if_splits)
      moreover have "usado (sv_bd S') (ak_id k) p \<le>
          max (usado (sv_bd S) (ak_id k) p) (unat (ak_quota_monthly k)) + of_bool (a_caballo rj)"
        using n u q by (cases "ak_id k = i"; cases "p = period_of (rj_cuota rj)") (auto simp: a_caballo_def)
      moreover have "bd_ok (sv_bd S') \<and> bd_sigue (sv_bd S) (sv_bd S')"
        using record_usage_buena [OF _ rec] v(2) bd_sigue_trans by blast
      ultimately show ?thesis using n v(1) by auto
    qed
  qed
qed


section \<open>A run of the server\<close>

text \<open>How many evaluations of a run were granted to \<open>b\<close> in a period.\<close>

definition evaluaciones ::
  "'r entorno \<Rightarrow> bytes \<Rightarrow> bytes \<Rightarrow> (reloj \<times> peticion) list \<Rightarrow> respuesta list \<Rightarrow> nat" where
  "evaluaciones E b p ps resps =
     length (filter (\<lambda>((rj, req), resp). evaluacion_concedida E b req resp \<and> period_of (rj_cuota rj) = p)
       (zip ps resps))"

lemma evaluaciones_simps:
  "evaluaciones E b p [] [] = 0"
  "evaluaciones E b p ((rj, req) # ps) (resp # resps) =
     (if evaluacion_concedida E b req resp \<and> period_of (rj_cuota rj) = p then 1 else 0) +
     evaluaciones E b p ps resps"
  by (simp_all add: evaluaciones_def)

text \<open>How many requests of a run straddle the change of month.\<close>

definition cruces :: "(reloj \<times> peticion) list \<Rightarrow> nat" where
  "cruces ps = length (filter (\<lambda>(rj, req). a_caballo rj) ps)"

lemma serve_metered:
  assumes "serve E ps S = Some (resps, S')" and "bd_ok (sv_bd S)"
    and "k \<in> set (bd_api_key (sv_bd S))" and "parse (en_sha E) b = Some (ak_prefix k, ak_key_hash k)"
  shows "fallos (sv_bd S') \<le> fallos (sv_bd S) \<and>
    usado (sv_bd S) (ak_id k) p + evaluaciones E b p ps resps \<le>
      usado (sv_bd S') (ak_id k) p + (fallos (sv_bd S) - fallos (sv_bd S')) + cruces ps \<and>
    usado (sv_bd S') (ak_id k) p \<le> max (usado (sv_bd S) (ak_id k) p) (unat (ak_quota_monthly k)) + cruces ps"
  using assms
proof (induction ps arbitrary: S resps k)
  case Nil
  then show ?case by (simp add: evaluaciones_simps)
next
  case (Cons pt ps)
  obtain rj req where pt: "pt = (rj, req)" by fastforce
  obtain resp S1 where r: "route E rj req S = Some (resp, S1)"
    using Cons.prems(1) by (auto simp: pt split: option.splits)
  then obtain resps' where rest: "serve E ps S1 = Some (resps', S')" "resps = resp # resps'"
    using Cons.prems(1) by (auto simp: pt split: option.splits)
  note st = route_step [OF r Cons.prems(2,3,4), of p]
  then obtain k' where k': "k' \<in> set (bd_api_key (sv_bd S1))" "sigue k k'"
    using Cons.prems(3) by (auto simp: bd_sigue_def llaves_siguen_def)
  have same: "ak_id k' = ak_id k" "ak_prefix k' = ak_prefix k" "ak_key_hash k' = ak_key_hash k"
      "ak_quota_monthly k' = ak_quota_monthly k"
    using k'(2) by (simp_all add: sigue_def)
  have "bd_ok (sv_bd S1)" using st by blast
  from Cons.IH [OF rest(1) this k'(1), unfolded same, OF Cons.prems(4)]
  have IH: "fallos (sv_bd S') \<le> fallos (sv_bd S1) \<and>
      usado (sv_bd S1) (ak_id k) p + evaluaciones E b p ps resps' \<le>
        usado (sv_bd S') (ak_id k) p + (fallos (sv_bd S1) - fallos (sv_bd S')) + cruces ps \<and>
      usado (sv_bd S') (ak_id k) p \<le> max (usado (sv_bd S1) (ak_id k) p) (unat (ak_quota_monthly k)) + cruces ps" .
  have c: "cruces (pt # ps) = of_bool (a_caballo rj) + cruces ps" by (simp add: cruces_def pt)
  have e: "evaluaciones E b p (pt # ps) resps =
      of_bool (evaluacion_concedida E b req resp \<and> period_of (rj_cuota rj) = p) + evaluaciones E b p ps resps'"
    by (simp add: pt rest(2) evaluaciones_simps)
  show ?case unfolding c e using st IH by (intro conjI; linarith)
qed

text \<open>What a hexadecimal body is trimmed to.\<close>

lemma trim_hex:
  assumes "list_all is_ascii_hexdigit s"
  shows "trim s = s"
proof -
  have w: "w \<noteq> [] \<and> \<not> is_ascii_hexdigit (hd w)" if "w \<in> set blancos" for w
    using that by (auto simp: blancos_def is_ascii_hexdigit_def word_le_nat_alt upt_rec)
  have no: "xs \<notin> set blancos" if "set xs \<subseteq> set s" for xs
  proof
    assume x: "xs \<in> set blancos"
    with w [OF x] that have "hd xs \<in> set s" by (cases xs) auto
    with assms w [OF x] show False by (simp add: list_all_iff)
  qed
  have 1: "find (\<lambda>w. take (length w) s = w) blancos = None"
    unfolding find_None_iff using no set_take_subset by metis
  have 2: "find (\<lambda>w. length w \<le> length s \<and> drop (length s - length w) s = w) blancos = None"
    unfolding find_None_iff using no set_drop_subset by metis
  from 1 have "trim_start_n n s = s" for n by (cases n) simp_all
  moreover from 2 have "trim_end_n n s = s" for n by (cases n) simp_all
  ultimately show ?thesis by (simp add: trim_def)
qed

lemma trim_to_hex [simp]: "trim (to_hex bs) = to_hex bs"
proof (rule trim_hex)
  show "list_all is_ascii_hexdigit (to_hex bs)"
    using to_hex_digits [of _ bs] hexval_Some_iff by (fastforce simp: list_all_iff is_ascii_hexdigit_def)
qed


text \<open>What the administration keeps: the tables without the time of the last use.\<close>

definition tablas :: "bd \<Rightarrow> fila_customer list \<times> fila_api_key list" where
  "tablas db = (bd_customer db, map (ak_last_used_at_update (\<lambda>_. None)) (bd_api_key db))"

lemma tablas_sentencia:
  assumes "\<And>db. tablas (snd (s db)) = tablas db"
  shows "tablas (snd (sentencia s db)) = tablas db"
  using assms by (auto simp: sentencia_def tablas_def split: list.split bool.split)

lemma tablas_buscar: "tablas (snd (sentencia (buscar_api_key p) db)) = tablas db"
  by (rule tablas_sentencia) (simp add: buscar_api_key_def)

lemma tablas_usage_count: "tablas (snd (usage_count i p db)) = tablas db"
  unfolding usage_count_def by (rule tablas_sentencia) simp

lemma tablas_verify: "tablas (snd (verify sha s t t' db)) = tablas db"
proof (cases "parse sha s")
  case (Some ph)
  obtain p h where ph: "ph = (p, h)" by fastforce
  obtain r1 db1 where 1: "sentencia (buscar_api_key p) db = (r1, db1)" by fastforce
  have t1: "tablas db1 = tablas db" using tablas_buscar [of p db] 1 by simp
  have t2: "tablas (snd (usage_count i q db1)) = tablas db" for i q
    using tablas_usage_count t1 by metis
  show ?thesis
    using t1 t2 by (auto simp: verify_def Some ph 1 split: sum.split option.split prod.split) (metis snd_conv)+
qed (simp add: verify_def)

lemma tablas_record_usage: "tablas (snd (record_usage i t t' db)) = tablas db"
proof -
  obtain r1 db1 where 1: "sentencia (sumar_usage i (period_of t)) db = (r1, db1)" by fastforce
  have "tablas (snd (sentencia (sumar_usage i (period_of t)) db)) = tablas db"
    by (rule tablas_sentencia) (simp add: sumar_usage_def tablas_def)
  then have t1: "tablas db1 = tablas db" by (simp add: 1)
  have "tablas (snd (sentencia (actualizar_api_key (\<lambda>k. ak_id k = i) (\<lambda>k. k\<lparr>ak_last_used_at := Some t'\<rparr>)) db1)) = tablas db1"
    by (rule tablas_sentencia) (auto simp: actualizar_api_key_def tablas_def)
  with t1 show ?thesis by (auto simp: record_usage_def 1 split: sum.split prod.split)
qed

lemma tablas_evaluate:
  assumes "evaluate E rj req S = Some (resp, S')"
  shows "tablas (sv_bd S') = tablas (sv_bd S)"
  using assms
proof (cases rule: evaluate_cases)
  case no
  then show ?thesis using tablas_verify by (metis snd_conv)
next
  case (si b i c q u plan db body blinded eval pf)
  then show ?thesis using tablas_verify tablas_record_usage by (metis snd_conv)
qed

section \<open>Theorems\<close>

text \<open>
  C7. Metering.  Over any run of requests, whatever the database and the clock do, the evaluations granted
  to the bearer of a key in a month are counted, all but at most as many as statements failed in the run and
  requests straddled the change of month; and the count does not go past the key's monthly quota (or what it
  was, if it was past it already) by more than the requests that straddled it.
\<close>
theorem quota_bounds_evaluations:
  assumes "serve E ps S = Some (resps, S')" and "bd_ok (sv_bd S)"
    and "k \<in> set (bd_api_key (sv_bd S))" and "parse (en_sha E) b = Some (ak_prefix k, ak_key_hash k)"
  shows "fallos (sv_bd S') \<le> fallos (sv_bd S) \<and>
    usado (sv_bd S) (ak_id k) p + evaluaciones E b p ps resps \<le>
      usado (sv_bd S') (ak_id k) p + (fallos (sv_bd S) - fallos (sv_bd S')) + cruces ps \<and>
    usado (sv_bd S') (ak_id k) p \<le> max (usado (sv_bd S) (ak_id k) p) (unat (ak_quota_monthly k)) + cruces ps"
  by (rule serve_metered [OF assms])

definition demo_activa :: fila_api_key where
  "demo_activa = demo_llave\<lparr>ak_prefix := KEY_TAG @ replicate 12 48, ak_revoked_at := None\<rparr>"

definition demo_entorno :: "nat entorno" where
  "demo_entorno = \<lparr>en_equiv = (=), en_sha = (\<lambda>_. [9]), en_fuente = demo_fuente, en_rd = (\<lambda>x. x),
     en_evaluar = (\<lambda>blinded r. Some (Some (blinded, []), r + 1)), en_public_key_hex = [],
     en_admin_token = Some [1]\<rparr>"

definition demo_servidor :: "nat servidor" where
  "demo_servidor = \<lparr>sv_bd = demo_bd\<lparr>bd_api_key := [demo_activa]\<rparr>, sv_cubos = (\<lambda>_. None), sv_rng = 0\<rparr>"

definition demo_bearer :: bytes where
  "demo_bearer = KEY_TAG @ replicate 64 48"

definition demo_evaluar :: peticion where
  "demo_evaluar = \<lparr>pt_method = Post, pt_url = ascii ''/v1/oprf/evaluate'',
     pt_headers = [(ascii ''Authorization'', ascii ''Bearer '' @ demo_bearer)],
     pt_body = Some (to_hex (replicate 32 0))\<rparr>"

definition demo_reloj :: reloj where
  "demo_reloj = \<lparr>rj_instante = 0, rj_expiry = 0, rj_cuota = 0, rj_registro = 0, rj_uso = 0,
     rj_alta = 0, rj_emision = 0\<rparr>"

lemma demo_servidor_ok:
  "bd_ok (sv_bd demo_servidor)" "bd_fallos (sv_bd demo_servidor) = []"
  "demo_activa \<in> set (bd_api_key (sv_bd demo_servidor))"
  "parse (en_sha demo_entorno) demo_bearer = Some (ak_prefix demo_activa, ak_key_hash demo_activa)"
  by (simp_all add: bd_ok_def demo_servidor_def demo_bd_def bd_init_def demo_activa_def demo_llave_def
      demo_entorno_def demo_bearer_def parse_def HEX_LEN_def PREFIX_HEX_LEN_def is_ascii_hexdigit_def
      list_all_iff)

lemma demo_ruta: "fst (splitn2 63 (pt_url demo_evaluar)) = ascii ''/v1/oprf/evaluate''"
  by (simp add: demo_evaluar_def splitn2_def ascii_def)

lemma demo_bearer_de: "bearer_de demo_entorno demo_evaluar = Some demo_bearer"
  by (simp add: bearer_de_def demo_entorno_def demo_evaluar_def header_value_def)


lemma demo_verify:
  "verify (en_sha demo_entorno) demo_bearer t t' (sv_bd demo_servidor) =
    (Inr (Valid [7] [1] 5 0 []), sv_bd demo_servidor)"
  using demo_servidor_ok(4)
  by (simp add: verify_def demo_servidor_def demo_bd_def bd_init_def demo_activa_def demo_llave_def
      sentencia_def buscar_api_key_def usage_count_def)

text \<open>The evaluation of any blinded element by any evaluator that answers it.\<close>

lemma demo_route_con:
  assumes "f blinded 0 = Some (Some (ev, pf), r')" and "length blinded = 32"
  shows "\<exists>S'. route (demo_entorno\<lparr>en_evaluar := f\<rparr>) demo_reloj (demo_evaluar\<lparr>pt_body := Some (to_hex blinded)\<rparr>)
    demo_servidor = Some (json_resp 200 (respuesta_evaluacion ev pf), S')"
proof -
  let ?E = "demo_entorno\<lparr>en_evaluar := f\<rparr>" and ?req = "demo_evaluar\<lparr>pt_body := Some (to_hex blinded)\<rparr>"
  obtain db where r: "record_usage [7] 0 0 (sv_bd demo_servidor) = (Inr (), db)"
    by (simp add: record_usage_def demo_servidor_def demo_bd_def bd_init_def demo_activa_def demo_llave_def
        sentencia_def sumar_usage_def actualizar_api_key_def)
  have "1 \<le> plan_rate_capacity (limits_for [])" using limits_for_positive by blast
  then obtain cubos where a: "allow (en_rd demo_entorno) [7] (plan_rate_capacity (limits_for []))
      (plan_rate_refill_per_sec (limits_for [])) 0 (sv_cubos demo_servidor) = (True, cubos)"
    by (simp add: allow_def demo_entorno_def demo_servidor_def as_secs_f64_def)
  have bearer: "bearer_de ?E ?req = Some demo_bearer"
    using demo_bearer_de by (simp add: bearer_de_def header_value_def)
  have "route ?E demo_reloj ?req demo_servidor = evaluate ?E demo_reloj ?req demo_servidor"
    using demo_ruta unfolding route_def Let_def by (simp add: demo_evaluar_def rutas_distintas)
  also have "\<dots> = evaluar_autorizada ?E demo_reloj [7] [] blinded demo_servidor"
    using demo_verify [of 0 0] unfolding evaluate_def bearer_de_def [symmetric] bearer
    by (simp add: from_hex_32_to_hex assms(2) demo_reloj_def)
  also have "\<dots> = Some (json_resp 200 (respuesta_evaluacion ev pf),
      demo_servidor\<lparr>sv_cubos := cubos, sv_bd := db, sv_rng := r'\<rparr>)"
    using a r assms(1)
    by (simp add: evaluar_autorizada_def Let_def demo_reloj_def) (simp add: demo_servidor_def)
  finally show ?thesis by blast
qed

lemma demo_route:
  "\<exists>S'. route demo_entorno demo_reloj demo_evaluar demo_servidor =
    Some (json_resp 200 (respuesta_evaluacion (replicate 32 0) []), S')"
proof -
  have "demo_entorno\<lparr>en_evaluar := \<lambda>blinded r. Some (Some (blinded, []), r + 1)\<rparr> = demo_entorno"
    "demo_evaluar\<lparr>pt_body := Some (to_hex (replicate 32 0))\<rparr> = demo_evaluar"
    by (simp_all add: demo_entorno_def demo_evaluar_def)
  with demo_route_con [of "\<lambda>blinded r. Some (Some (blinded, []), r + 1)" "replicate 32 0"] show ?thesis by simp
qed

theorem quota_bounds_evaluations_witness:
  "\<exists>resps S'. serve demo_entorno [(demo_reloj, demo_evaluar)] demo_servidor = Some (resps, S') \<and>
    evaluaciones demo_entorno demo_bearer (period_of 0) [(demo_reloj, demo_evaluar)] resps = 1 \<and>
    1 \<le> usado (sv_bd S') [7] (period_of 0) \<and> usado (sv_bd S') [7] (period_of 0) \<le> 5"
proof -
  obtain S' where r: "route demo_entorno demo_reloj demo_evaluar demo_servidor =
      Some (json_resp 200 (respuesta_evaluacion (replicate 32 0) []), S')"
    using demo_route by blast
  let ?rs = "[json_resp 200 (respuesta_evaluacion (replicate 32 0) [])]"
  from r have s: "serve demo_entorno [(demo_reloj, demo_evaluar)] demo_servidor = Some (?rs, S')" by simp
  have one: "evaluaciones demo_entorno demo_bearer (period_of 0) [(demo_reloj, demo_evaluar)] ?rs = 1"
    unfolding evaluaciones_simps evaluacion_concedida_def demo_ruta demo_bearer_de
    by (simp add: demo_reloj_def json_resp_def) (simp add: demo_evaluar_def)
  have "usado (sv_bd demo_servidor) [7] p = 0" "ak_id demo_activa = [7]" "unat (ak_quota_monthly demo_activa) = 5" for p
    by (simp_all add: usado_def demo_servidor_def demo_bd_def bd_init_def demo_activa_def demo_llave_def)
  moreover have "fallos (sv_bd demo_servidor) = 0" by (simp add: fallos_def demo_servidor_ok(2))
  moreover have "cruces [(demo_reloj, demo_evaluar)] = 0" by (simp add: cruces_def a_caballo_def demo_reloj_def)
  ultimately show ?thesis
    using quota_bounds_evaluations [OF s demo_servidor_ok(1,3,4), of "period_of 0"] s one by simp
qed

text \<open>
  C8. What an evaluation needs.  Whenever the evaluation route answers 200, the request carried a bearer
  that parses to the prefix and hash of a key of the database that is active, not revoked, not expired
  and below its quota for the month, the body was 32 bytes in hexadecimal, and the answer is the
  evaluation of that body and its proof.
\<close>
theorem evaluation_is_authorised:
  assumes "route E rj req S = Some (resp, S')" and "pt_method req = Post"
    and "fst (splitn2 63 (pt_url req)) = ascii ''/v1/oprf/evaluate''" and "rs_status resp = 200"
  shows "\<exists>b k body blinded eval pf. bearer_de E req = Some b \<and> k \<in> set (bd_api_key (sv_bd S)) \<and>
    parse (en_sha E) b = Some (ak_prefix k, ak_key_hash k) \<and>
    ak_revoked_at k = None \<and> ak_active k \<noteq> 0 \<and> (\<forall>e. ak_expires_at k = Some e \<longrightarrow> rj_expiry rj < e) \<and>
    usado (sv_bd S) (ak_id k) (period_of (rj_cuota rj)) < unat (ak_quota_monthly k) \<and>
    pt_body req = Some body \<and> from_hex_32 (trim body) = Some blinded \<and>
    en_evaluar E blinded (sv_rng S) = Some (Some (eval, pf), sv_rng S') \<and>
    resp = json_resp 200 (respuesta_evaluacion eval pf)"
proof -
  have "evaluate E rj req S = Some (resp, S')"
    using assms(1-3) by (simp add: route_def Let_def rutas_distintas)
  then show ?thesis
  proof (cases rule: evaluate_cases)
    case (si b i c q u plan db body blinded eval pf)
    from si(5) show ?thesis
    proof (rule verify_Valid)
      fix k assume "k \<in> set (bd_api_key (sv_bd S))" "parse (en_sha E) b = Some (ak_prefix k, ak_key_hash k)"
        "ak_revoked_at k = None" "ak_active k \<noteq> 0" "\<forall>e. ak_expires_at k = Some e \<longrightarrow> rj_expiry rj < e"
        "u = (case bd_usage (sv_bd S) (ak_id k, period_of (rj_cuota rj)) of None \<Rightarrow> 0 | Some n \<Rightarrow> n)"
        "u < unat q" "q = ak_quota_monthly k"
      then show ?thesis
        using si(2,3,4,7,8) unfolding usado_def by (intro exI conjI) auto
    qed
  qed (use assms(4) in simp)
qed

theorem evaluation_is_authorised_witness:
  "\<exists>k \<in> set (bd_api_key (sv_bd demo_servidor)). ak_revoked_at k = None \<and> ak_active k \<noteq> 0 \<and>
    usado (sv_bd demo_servidor) (ak_id k) (period_of 0) < unat (ak_quota_monthly k)"
proof -
  obtain S' where r: "route demo_entorno demo_reloj demo_evaluar demo_servidor =
      Some (json_resp 200 (respuesta_evaluacion (replicate 32 0) []), S')"
    using demo_route by blast
  have "pt_method demo_evaluar = Post" "rs_status (json_resp 200 (respuesta_evaluacion (replicate 32 0) [])) = 200"
    by (simp_all add: demo_evaluar_def json_resp_def)
  from evaluation_is_authorised [OF r this(1) demo_ruta this(2)] show ?thesis by (auto simp: demo_reloj_def)
qed

text \<open>
  The administration needs its token.  A request that does not present the configured token (or
  any request, when none is configured) leaves the customers and the keys as they are, up to the
  time of last use; and if it asks for an administrative action, it is answered 401 and changes
  nothing at all.
\<close>
lemma admin_needs_the_token:
  assumes "route E rj req S = Some (resp, S')"
    and "\<not> admin_ok (en_admin_token E) (header_value (en_equiv E) req (ascii ''X-Admin-Token''))"
  shows "tablas (sv_bd S') = tablas (sv_bd S) \<and>
    (pt_method req = Post \<and> starts_with (ascii ''/admin/keys/'') (fst (splitn2 63 (pt_url req))) \<longrightarrow>
      resp = text_resp 401 (ascii ''no autorizado'') \<and> S' = S)"
proof
  have "admin_issue E rj req S = Some (text_resp 401 (ascii ''no autorizado''), S)"
      and a: "admin_action E rj req path S = (text_resp 401 (ascii ''no autorizado''), S)" for path
    using assms(2) by (simp_all add: admin_issue_def admin_action_def)
  with assms(1) show "tablas (sv_bd S') = tablas (sv_bd S)"
    by (cases rule: route_cases) (auto dest: tablas_evaluate)
  have d: "\<not> starts_with (ascii ''/admin/keys/'') (ascii r)" if "r \<in> {''/healthz'', ''/v1/public-key'',
      ''/v1/plans'', ''/v1/oprf/evaluate'', ''/admin/keys''}" for r
    using that by (auto simp: starts_with_def ascii_def)
  show "pt_method req = Post \<and> starts_with (ascii ''/admin/keys/'') (fst (splitn2 63 (pt_url req))) \<longrightarrow>
      resp = text_resp 401 (ascii ''no autorizado'') \<and> S' = S"
    using assms(1) a d by (auto simp: route_def Let_def split: if_splits)
qed

lemma admin_needs_the_token_example:
  "route demo_entorno demo_reloj (demo_evaluar\<lparr>pt_url := ascii ''/admin/keys/x/activate''\<rparr>) demo_servidor =
    Some (text_resp 401 (ascii ''no autorizado''), demo_servidor)"
proof -
  let ?req = "demo_evaluar\<lparr>pt_url := ascii ''/admin/keys/x/activate''\<rparr>"
  have path: "fst (splitn2 63 (pt_url ?req)) = ascii ''/admin/keys/x/activate''"
    by (simp add: splitn2_def ascii_def)
  have p: "starts_with (ascii ''/admin/keys/'') (fst (splitn2 63 (pt_url ?req)))" "pt_method ?req = Post"
    unfolding path by (simp_all add: starts_with_def ascii_def) (simp add: demo_evaluar_def)
  have no: "\<not> admin_ok (en_admin_token demo_entorno)
      (header_value (en_equiv demo_entorno) ?req (ascii ''X-Admin-Token''))"
    by (simp add: admin_ok_def header_value_def demo_entorno_def demo_evaluar_def ascii_def)
  have "route demo_entorno demo_reloj ?req demo_servidor \<noteq> None"
    unfolding route_def Let_def path p(2) by (simp add: starts_with_def ascii_def)
  then obtain x where r: "route demo_entorno demo_reloj ?req demo_servidor = Some x" by blast
  with admin_needs_the_token [OF _ no, of demo_reloj demo_servidor "fst x" "snd x"] p show ?thesis by (cases x) simp
qed

text \<open>
  The metering is best effort: when the database fails on the statement that counts, the evaluation
  is answered all the same and the count stays.
\<close>

lemma unmetered_evaluation:
  assumes "allow (en_rd E) i (plan_rate_capacity (limits_for plan)) (plan_rate_refill_per_sec (limits_for plan))
      (rj_instante rj) (sv_cubos S) = (True, cubos)"
    and "en_evaluar E blinded (sv_rng S) = Some (Some (eval, pf), r')"
    and "bd_fallos (sv_bd S) = True # fs"
  shows "\<exists>S'. evaluar_autorizada E rj i plan blinded S =
      Some (json_resp 200 (respuesta_evaluacion eval pf), S') \<and> bd_usage (sv_bd S') = bd_usage (sv_bd S)"
  using assms by (simp add: evaluar_autorizada_def record_usage_def sentencia_def)

text \<open>The reason given for a key that cannot be activated is also given when there is no such key.\<close>

lemma activate_unknown_says_revoked:
  assumes "bd_api_key (sv_bd S) = []" and "bd_fallos (sv_bd S) = []"
  shows "rs_status (fst (responder (ascii ''activate'') S (set_active prefix True (sv_bd S)))) = 409"
  using assms
  by (simp add: responder_def set_active_def sentencia_def actualizar_api_key_def text_resp_def)

end
