(* ===== verification/Negacion.thy ===== *)
theory Negacion
  imports Api Antihacker Instances
begin

text \<open>
  \<^verbatim>\<open>src/src/negacion.rs\<close>: the deniable container.  One file of a size that its creator chooses holds
  a salt, a region for the decoy and a region that is either a hidden volume or what the random
  source gave.  As in Api, \<open>None\<close> is a panic and randomness is threaded; a profile is its name and
  its Argon2id parameters, and the error of the random source is kept as a value instead of its text.
\<close>

section \<open>Types and constants\<close>

definition NEG_TAG :: nat where
  "NEG_TAG = 16"

text \<open>\<^verbatim>\<open>b"quipu/negacion/v1/senuelo"\<close>, \<^verbatim>\<open>b"quipu/negacion/v1/oculto"\<close> and \<^verbatim>\<open>b"/nonce"\<close>.\<close>

definition INFO_SENUELO :: bytes where
  "INFO_SENUELO = map (of_nat \<circ> of_char) ''quipu/negacion/v1/senuelo''"

definition INFO_OCULTO :: bytes where
  "INFO_OCULTO = map (of_nat \<circ> of_char) ''quipu/negacion/v1/oculto''"

definition INFO_NONCE :: bytes where
  "INFO_NONCE = map (of_nat \<circ> of_char) ''/nonce''"

definition TAMANO_MINIMO :: nat where
  "TAMANO_MINIMO = 1024"

text \<open>\<^verbatim>\<open>usize::is_power_of_two\<close> and \<^verbatim>\<open>usize::next_power_of_two\<close>, which panics when it overflows.\<close>

definition is_power_of_two :: "nat \<Rightarrow> bool" where
  "is_power_of_two n \<longleftrightarrow> 0 < n \<and> n = 2 ^ (bit_length n - 1)"

definition next_power_of_two :: "nat \<Rightarrow> nat option" where
  "next_power_of_two n =
     (let p = (if n \<le> 1 then 1 else 2 ^ bit_length (n - 1)) in if p < 2 ^ 64 then Some p else None)"

definition tamano_canonico :: "nat \<Rightarrow> nat option" where
  "tamano_canonico minimo =
     (let m = (if minimo < TAMANO_MINIMO then TAMANO_MINIMO else minimo)
      in if is_power_of_two m then Some m else next_power_of_two m)"

definition tamano_es_canonico :: "nat \<Rightarrow> bool" where
  "tamano_es_canonico tamano \<longleftrightarrow> TAMANO_MINIMO \<le> tamano \<and> is_power_of_two tamano"

datatype volumen = Senuelo | Oculto

datatype negacion_error =
    TamanoInsuficiente nat nat
  | NoCabe volumen nat nat
  | SenueloVacio
  | MismaContrasena
  | ContenedorCorto
  | NoAbre
  | NegSinEntropia sin_entropia

record perfil =
  pf_nombre :: string
  pf_params :: kdf_params

definition PERFIL_V1 :: perfil where
  "PERFIL_V1 = \<lparr>pf_nombre = ''v1'',
     pf_params = \<lparr>mem_kib = 262144, iterations = 4, parallelism = 1\<rparr>\<rparr>"

definition conocidos :: "perfil list" where
  "conocidos = [PERFIL_V1]"

record apertura =
  ap_volumen :: volumen
  ap_datos :: bytes

section \<open>The regions\<close>

definition tramos :: "nat \<Rightarrow> (nat \<times> nat) \<times> (nat \<times> nat)" where
  "tramos largo =
     (let cuerpo = largo - KDF_SALT_LEN;
          d = cuerpo div 2;
          ini = KDF_SALT_LEN
      in ((ini, ini + d), (ini + d, largo)))"

definition claves_de_region :: "'c cripto_scheme \<Rightarrow> bytes \<Rightarrow> bytes \<Rightarrow> (bytes \<times> bytes) option" where
  "claves_de_region C maestra info =
     do {
       clave \<leftarrow> derive_subkey C maestra info;
       nonce \<leftarrow> derive_stream C maestra (info @ INFO_NONCE) NONCE_LEN;
       Some (clave, nonce)
     }"

definition dato_autenticado :: "bytes \<Rightarrow> nat \<Rightarrow> bytes" where
  "dato_autenticado salt tamano_total = salt @ u64_to_be (of_nat tamano_total)"

definition claro_de_region ::
  "'r fuente \<Rightarrow> bytes \<Rightarrow> nat \<Rightarrow> volumen \<Rightarrow> 'r \<Rightarrow> ((negacion_error + bytes) \<times> 'r) option" where
  "claro_de_region fuente datos largo_claro v r =
     do {
       claro \<leftarrow> prelayers_pad datos;
       if largo_claro < length claro then Some (Inl (NoCabe v largo_claro (length claro)), r)
       else
         Some (case llenar fuente (largo_claro - length claro) r of
                 (Inl e, r') \<Rightarrow> (Inl (NegSinEntropia e), r')
               | (Inr azar, r') \<Rightarrow> (Inr (claro @ azar), r'))
     }"

text \<open>\<^verbatim>\<open>fuera[i..j].copy_from_slice(xs)\<close>, which panics unless the lengths are equal.\<close>

definition copiar_en :: "nat \<times> nat \<Rightarrow> bytes \<Rightarrow> bytes \<Rightarrow> bytes option" where
  "copiar_en tramo xs fuera =
     (case tramo of (i, j) \<Rightarrow>
        if i \<le> j \<and> j \<le> length fuera \<and> length xs = j - i then Some (take i fuera @ xs @ drop j fuera)
        else None)"

text \<open>What \<open>crear\<close> does for each of the two volumes: derive, prepare the plaintext, seal.\<close>

definition sellar_region ::
  "'c cripto_scheme \<Rightarrow> 'r fuente \<Rightarrow> char32 list \<Rightarrow> bytes \<Rightarrow> perfil \<Rightarrow> bytes \<Rightarrow> bytes \<Rightarrow> nat \<Rightarrow> volumen \<Rightarrow> bytes \<Rightarrow>
    'r \<Rightarrow> ((negacion_error + bytes) \<times> 'r) option" where
  "sellar_region C fuente pw salt p info datos largo_claro v aad r =
     do {
       maestra \<leftarrow> derive_master_key C pw salt [] (pf_params p);
       (clave, nonce) \<leftarrow> claves_de_region C maestra info;
       (claro, r) \<leftarrow> claro_de_region fuente datos largo_claro v r;
       case claro of
         Inl e \<Rightarrow> Some (Inl e, r)
       | Inr claro \<Rightarrow> do {
           cifrado \<leftarrow> cipher_encrypt C clave nonce claro aad;
           Some (Inr cifrado, r)
         }
     }"

text \<open>\<^verbatim>\<open>format!("{b:02x}")\<close> of the discarded password.\<close>

definition hexa :: "bytes \<Rightarrow> char32 list" where
  "hexa bs =
     concat (map (\<lambda>b. map (\<lambda>d. of_nat (if d < 10 then 48 + d else 87 + d)) [unat b div 16, unat b mod 16]) bs)"

section \<open>Creating\<close>

text \<open>After the checks: the container \<open>fuera\<close> begins as randomness.\<close>

definition crear_sobre ::
  "'c cripto_scheme \<Rightarrow> 'r fuente \<Rightarrow> nat \<Rightarrow> bytes \<Rightarrow> char32 list \<Rightarrow> (bytes \<times> char32 list) option \<Rightarrow> perfil \<Rightarrow> bytes \<Rightarrow>
    'r \<Rightarrow> ((negacion_error + bytes) \<times> 'r) option" where
  "crear_sobre C fuente tamano_total senuelo clave_senuelo oculto p fuera r =
     (let salt = take KDF_SALT_LEN fuera;
          aad = dato_autenticado salt tamano_total;
          (r_senuelo, r_oculto) = tramos tamano_total
      in do {
        (cifrado, r) \<leftarrow> sellar_region C fuente clave_senuelo salt p INFO_SENUELO senuelo
          (snd r_senuelo - fst r_senuelo - NEG_TAG) Senuelo aad r;
        case cifrado of
          Inl e \<Rightarrow> Some (Inl e, r)
        | Inr cifrado \<Rightarrow> do {
            fuera \<leftarrow> copiar_en r_senuelo cifrado fuera;
            (case llenar fuente 32 r of
               (Inl e, r) \<Rightarrow> Some (Inl (NegSinEntropia e), r)
             | (Inr relleno, r) \<Rightarrow>
                 let (datos, clave_oculta, hay_oculto) =
                       (case oculto of Some (d, c) \<Rightarrow> (d, c, True) | None \<Rightarrow> ([], hexa relleno, False))
                 in do {
                   (cifrado, r) \<leftarrow> sellar_region C fuente clave_oculta salt p INFO_OCULTO datos
                     (snd r_oculto - fst r_oculto - NEG_TAG) Oculto aad r;
                   case cifrado of
                     Inl e \<Rightarrow> Some (Inl e, r)
                   | Inr cifrado \<Rightarrow>
                       if hay_oculto then do {
                         fuera \<leftarrow> copiar_en r_oculto cifrado fuera;
                         Some (Inr fuera, r)
                       }
                       else Some (Inr fuera, r)
                 })
          }
      })"

definition crear ::
  "'c cripto_scheme \<Rightarrow> 'r fuente \<Rightarrow> nat \<Rightarrow> bytes \<Rightarrow> char32 list \<Rightarrow> (bytes \<times> char32 list) option \<Rightarrow> perfil \<Rightarrow>
    'r \<Rightarrow> ((negacion_error + bytes) \<times> 'r) option" where
  "crear C fuente tamano_total senuelo clave_senuelo oculto p r =
     (if senuelo = [] then Some (Inl SenueloVacio, r)
      else if tamano_total < TAMANO_MINIMO
      then Some (Inl (TamanoInsuficiente tamano_total TAMANO_MINIMO), r)
      else if (case oculto of
                 None \<Rightarrow> False
               | Some (_, clave_oculta) \<Rightarrow>
                   ct_eq (utf8 (normalizar C clave_senuelo)) (utf8 (normalizar C clave_oculta)))
      then Some (Inl MismaContrasena, r)
      else
        case llenar fuente tamano_total r of
          (Inl e, r) \<Rightarrow> Some (Inl (NegSinEntropia e), r)
        | (Inr fuera, r) \<Rightarrow> crear_sobre C fuente tamano_total senuelo clave_senuelo oculto p fuera r)"

section \<open>Opening\<close>

text \<open>What a region gives under the keys: the plaintext with its padding, if it opens.\<close>

definition abrir_region :: "'c cripto_scheme \<Rightarrow> bytes \<Rightarrow> bytes \<Rightarrow> bytes \<Rightarrow> bytes \<Rightarrow> bytes option option" where
  "abrir_region C maestra info region aad =
     do {
       (clave, nonce) \<leftarrow> claves_de_region C maestra info;
       Some (case cipher_decrypt C clave nonce region aad of Inl _ \<Rightarrow> None | Inr claro \<Rightarrow> Some claro)
     }"

text \<open>The loop over the two answers: the first whose frame is good.\<close>

fun primera_apertura :: "(volumen \<times> bytes option) list \<Rightarrow> apertura option" where
  "primera_apertura [] = None"
| "primera_apertura ((v, claro) # xs) =
     (case claro of
        None \<Rightarrow> primera_apertura xs
      | Some c \<Rightarrow>
          (case prelayers_unpad c of
             Inl _ \<Rightarrow> primera_apertura xs
           | Inr datos \<Rightarrow> Some \<lparr>ap_volumen = v, ap_datos = datos\<rparr>))"

definition intentar ::
  "'c cripto_scheme \<Rightarrow> bytes \<Rightarrow> char32 list \<Rightarrow> perfil \<Rightarrow> apertura option option" where
  "intentar C contenedor contrasena p =
     (if length contenedor < KDF_SALT_LEN then None
      else
        let salt = take KDF_SALT_LEN contenedor;
            ((i, j), (k, l)) = tramos (length contenedor);
            aad = dato_autenticado salt (length contenedor)
        in do {
          maestra \<leftarrow> derive_master_key C contrasena salt [] (pf_params p);
          abre_senuelo \<leftarrow> abrir_region C maestra INFO_SENUELO (slice i j contenedor) aad;
          abre_oculto \<leftarrow> abrir_region C maestra INFO_OCULTO (slice k l contenedor) aad;
          Some (primera_apertura [(Oculto, abre_oculto), (Senuelo, abre_senuelo)])
        })"

text \<open>All profiles are tried; the first opening stays.\<close>

fun abrir_con_perfiles ::
  "'c cripto_scheme \<Rightarrow> bytes \<Rightarrow> char32 list \<Rightarrow> perfil list \<Rightarrow> apertura option \<Rightarrow> apertura option option" where
  "abrir_con_perfiles C contenedor contrasena [] abierto = Some abierto"
| "abrir_con_perfiles C contenedor contrasena (p # ps) abierto =
     do {
       r \<leftarrow> intentar C contenedor contrasena p;
       abrir_con_perfiles C contenedor contrasena ps (if abierto = None then r else abierto)
     }"

definition abrir ::
  "'c cripto_scheme \<Rightarrow> bytes \<Rightarrow> char32 list \<Rightarrow> perfil option \<Rightarrow> (negacion_error + apertura) option" where
  "abrir C contenedor contrasena p =
     (if length contenedor < TAMANO_MINIMO then Some (Inl ContenedorCorto)
      else do {
        r \<leftarrow> (case p of
                Some p \<Rightarrow> intentar C contenedor contrasena p
              | None \<Rightarrow> abrir_con_perfiles C contenedor contrasena conocidos None);
        Some (case r of None \<Rightarrow> Inl NoAbre | Some a \<Rightarrow> Inr a)
      })"

section \<open>Canonical sizes\<close>

lemma bit_length_exp: "bit_length (2 ^ k) = Suc k"
  by (rule bit_length_eqI) simp_all

lemma is_power_of_two_iff: "is_power_of_two n \<longleftrightarrow> (\<exists>k. n = 2 ^ k)"
  by (auto simp: is_power_of_two_def bit_length_exp)

lemma next_power_of_two_least:
  assumes "next_power_of_two n = Some t" and "0 < n"
  shows "(\<exists>k. t = 2 ^ k) \<and> n \<le> t \<and> (\<forall>k. n \<le> 2 ^ k \<longrightarrow> t \<le> 2 ^ k)"
proof (cases "n \<le> 1")
  case True
  then have "t = 2 ^ 0" using assms(1) by (simp add: next_power_of_two_def split: if_splits)
  with True assms(2) show ?thesis by (metis le_antisym less_one not_less one_le_numeral one_le_power power_0)
next
  case False
  then have t: "t = 2 ^ bit_length (n - 1)"
    using assms(1) by (simp add: next_power_of_two_def Let_def split: if_splits)
  have "n - 1 < t" using less_exp_bit_length [of "n - 1"] t by simp
  moreover have "bit_length (n - 1) \<le> k" if "n \<le> 2 ^ k" for k
    using that False by (simp add: bit_length_le_iff)
  ultimately show ?thesis using t assms(2) by (auto intro: power_increasing)
qed

lemma next_power_of_two_total: "n \<le> 2 ^ 63 \<Longrightarrow> \<exists>t. next_power_of_two n = Some t"
proof -
  assume n: "n \<le> 2 ^ 63"
  have "bit_length (n - 1) \<le> 63" if "\<not> n \<le> 1" using n that by (simp add: bit_length_le_iff)
  then have "\<not> n \<le> 1 \<Longrightarrow> (2 :: nat) ^ bit_length (n - 1) \<le> 2 ^ 63" by (intro power_increasing) simp_all
  then show ?thesis by (auto simp: next_power_of_two_def Let_def)
qed

lemma next_power_of_two_overflow: "2 ^ 63 < n \<Longrightarrow> next_power_of_two n = None"
proof -
  assume n: "2 ^ 63 < n"
  have "\<not> bit_length (n - 1) \<le> 63" using n by (simp add: bit_length_le_iff)
  then have "(2 :: nat) ^ 64 \<le> 2 ^ bit_length (n - 1)" by (intro power_increasing) simp_all
  then show ?thesis using n by (simp add: next_power_of_two_def Let_def)
qed

section \<open>What a container is\<close>

lemma tramos_eq: "tramos n = ((16, 16 + (n - 16) div 2), (16 + (n - 16) div 2, n))"
  by (simp add: tramos_def KDF_SALT_LEN_def Let_def)

lemma claves_total: "cripto_ok C \<Longrightarrow> \<exists>k n. claves_de_region C m info = Some (k, n)"
  using derive_subkey_total [of C m info] derive_stream_total [of C NONCE_LEN m "info @ INFO_NONCE"]
  by (auto simp: claves_de_region_def NONCE_LEN_def)

lemma unpad_pad_append:
  "length d < 2 ^ 63 \<Longrightarrow> prelayers_pad d = Some p \<Longrightarrow> prelayers_unpad (p @ z) = Inr d"
  by (auto simp: prelayers_pad_def pad_eq prelayers_unpad_def unpad_frame)

text \<open>The plaintext under which a volume was sealed, by its passphrase.\<close>

definition sellada :: "'c cripto_scheme \<Rightarrow> char32 list \<Rightarrow> bytes \<Rightarrow> perfil \<Rightarrow> bytes \<Rightarrow> bytes \<Rightarrow> bytes \<Rightarrow> bytes \<Rightarrow> bool" where
  "sellada C pw salt p info aad claro region \<longleftrightarrow>
     (\<exists>m k n. derive_master_key C pw salt [] (pf_params p) = Some m \<and>
       claves_de_region C m info = Some (k, n) \<and> cipher_encrypt C k n claro aad = Some region)"

lemma claro_de_region_Inr:
  assumes "fuente_ok fuente" and "claro_de_region fuente datos largo v r = Some (Inr claro, r')"
  shows "\<exists>padded z. prelayers_pad datos = Some padded \<and> claro = padded @ z \<and> length claro = largo"
proof -
  obtain padded where p: "prelayers_pad datos = Some padded" "length padded \<le> largo"
    using assms(2) by (auto simp: claro_de_region_def split: bind_splits if_splits)
  obtain z where "llenar fuente (largo - length padded) r = (Inr z, r')" "claro = padded @ z"
    using assms(2) p by (auto simp: claro_de_region_def split: prod.splits sum.splits)
  moreover from this have "length z = largo - length padded" using llenar_length [OF assms(1)] by blast
  ultimately show ?thesis using p by simp
qed

lemma sellar_region_Inr:
  assumes "cripto_ok C" and "fuente_ok fuente"
    and "sellar_region C fuente pw salt p info datos largo v aad r = Some (Inr cif, r')"
  obtains padded z where "prelayers_pad datos = Some padded" "length (padded @ z) = largo"
    "sellada C pw salt p info aad (padded @ z) cif" "length cif = largo + 16"
proof -
  obtain m k n claro r1 where m: "derive_master_key C pw salt [] (pf_params p) = Some m"
      "claves_de_region C m info = Some (k, n)"
      and cl: "claro_de_region fuente datos largo v r = Some (Inr claro, r1)"
      and ct: "cipher_encrypt C k n claro aad = Some cif"
    using assms(3) by (auto simp: sellar_region_def split: bind_splits sum.splits)
  moreover have "length cif = length claro + 16"
    using aead_okD(2) [OF cripto_ok_simps(3) [OF assms(1)]] ct by (simp add: cipher_encrypt_def)
  ultimately show ?thesis
    using that claro_de_region_Inr [OF assms(2) cl] unfolding sellada_def by blast
qed

text \<open>A container: salt, decoy, and the hidden volume or what the source gave.\<close>

lemma copiar_en_final:
  "length x = i \<Longrightarrow> length (x @ y) = j \<Longrightarrow> copiar_en (i, j) zs (x @ y) =
    (if length zs = j - i then Some (x @ zs) else None)"
  by (simp add: copiar_en_def)

lemmas crear_sobre_simps = crear_sobre_def tramos_eq dato_autenticado_def KDF_SALT_LEN_def NEG_TAG_def Let_def

lemma crear_Inr:
  assumes C: "cripto_ok C" and f: "fuente_ok fuente"
    and c: "crear C fuente n s ks oculto p r = Some (Inr cont, r')"
  obtains fuera r1 r2 padded z cs co where "1024 \<le> n" "s \<noteq> []" "llenar fuente n r = (Inr fuera, r1)" "length fuera = n"
    "cont = take 16 fuera @ cs @ co" "length cs = (n - 16) div 2" "length co = n - 16 - (n - 16) div 2"
    "prelayers_pad s = Some padded"
    "sellada C ks (take 16 fuera) p INFO_SENUELO (take 16 fuera @ u64_to_be (of_nat n)) (padded @ z) cs"
    "sellar_region C fuente ks (take 16 fuera) p INFO_SENUELO s ((n - 16) div 2 - 16) Senuelo
      (take 16 fuera @ u64_to_be (of_nat n)) r1 = Some (Inr cs, r2)"
    "oculto = None \<Longrightarrow> co = drop (16 + (n - 16) div 2) fuera"
    "\<And>o' ko. oculto = Some (o', ko) \<Longrightarrow> nfkc C ks \<noteq> nfkc C ko \<and> (\<exists>padded z. prelayers_pad o' = Some padded \<and>
      sellada C ko (take 16 fuera) p INFO_OCULTO (take 16 fuera @ u64_to_be (of_nat n)) (padded @ z) co)"
proof -
  let ?d = "(n - 16) div 2"
  have n: "1024 \<le> n" and s: "s \<noteq> []"
    using c by (auto simp: crear_def TAMANO_MINIMO_def split: if_splits)
  have d: "16 + ?d \<le> n" "16 \<le> ?d" using n by simp_all
  have pw: "nfkc C ks \<noteq> nfkc C ko" if "oculto = Some (o', ko)" for o' ko
    using c that s n by (auto simp: crear_def TAMANO_MINIMO_def ct_eq_iff normalizar_def split: if_splits)
  obtain fuera r1 where fu: "llenar fuente n r = (Inr fuera, r1)"
      and cs: "crear_sobre C fuente n s ks oculto p fuera r1 = Some (Inr cont, r')"
    using c by (auto simp: crear_def split: if_splits prod.splits sum.splits)
  have lf: "length fuera = n" using llenar_length [OF f fu] .
  let ?salt = "take 16 fuera"
  let ?aad = "?salt @ u64_to_be (of_nat n)"
  obtain cif r2 where c1: "sellar_region C fuente ks ?salt p INFO_SENUELO s (?d - 16) Senuelo ?aad r1 = Some (Inr cif, r2)"
    using cs by (auto simp: crear_sobre_simps split: bind_splits sum.splits)
  obtain padded z where sel: "prelayers_pad s = Some padded" "sellada C ks ?salt p INFO_SENUELO ?aad (padded @ z) cif"
      "length cif = ?d - 16 + 16"
    using sellar_region_Inr [OF C f c1] by blast
  let ?fuera = "take 16 fuera @ cif @ drop (16 + ?d) fuera"
  have copia: "copiar_en (16, 16 + ?d) cif fuera = Some ?fuera"
    using sel(3) d lf by (simp add: copiar_en_def)
  obtain relleno r3 where re: "llenar fuente 32 r2 = (Inr relleno, r3)"
    using cs c1 copia by (auto simp: crear_sobre_simps split: prod.splits sum.splits)
  let ?S = "\<lambda>pw datos. sellar_region C fuente pw ?salt p INFO_OCULTO datos (n - (16 + ?d) - 16) Oculto ?aad r3"
  show ?thesis
  proof (cases oculto)
    case None
    have "cont = ?fuera"
      using cs c1 copia re None by (auto simp: crear_sobre_simps split: bind_splits sum.splits)
    with sel d lf fu n s c1 None that [of fuera r1 cif "drop (16 + ?d) fuera" padded z r2] show ?thesis by simp
  next
    case (Some ok)
    obtain o' ko where ok: "oculto = Some (o', ko)" using Some by (cases ok) simp
    obtain co r4 where c2: "?S ko o' = Some (Inr co, r4)"
        and fin: "copiar_en (16 + ?d, n) co ?fuera = Some cont"
      using cs c1 copia re ok by (auto simp: crear_sobre_simps split: bind_splits sum.splits)
    obtain padded' z' where sel2: "prelayers_pad o' = Some padded'"
        "sellada C ko ?salt p INFO_OCULTO ?aad (padded' @ z') co" "length co = n - (16 + ?d) - 16 + 16"
      using sellar_region_Inr [OF C f c2] by blast
    have "length (?salt @ cif) = 16 + ?d" "length ((?salt @ cif) @ drop (16 + ?d) fuera) = n"
      using sel(3) d lf by simp_all
    from copiar_en_final [OF this, of co] fin have "cont = ?salt @ cif @ co"
      by (simp split: if_splits)
    moreover have "length co = n - 16 - ?d" using sel2(3) d n by simp
    moreover have "\<exists>padded z. prelayers_pad x = Some padded \<and> sellada C y ?salt p INFO_OCULTO ?aad (padded @ z) co"
      if "oculto = Some (x, y)" for x y
      using that sel2(1,2) ok by blast
    moreover have "length cif = ?d" using sel(3) d by simp
    ultimately show ?thesis
      using that [OF n s fu lf _ _ _ sel(1,2) c1] pw ok by blast
  qed
qed

section \<open>What opens\<close>

lemma abrir_region_total: "cripto_ok C \<Longrightarrow> \<exists>a. abrir_region C m info region aad = Some a"
  using claves_total [of C m info] by (auto simp: abrir_region_def)

lemma abrir_region_sellada:
  assumes "cripto_ok C" and "sellada C pw salt p info aad claro region"
    and "derive_master_key C pw salt [] (pf_params p) = Some m"
  shows "abrir_region C m info region aad = Some (Some claro)"
  using assms(2,3) by (auto simp: sellada_def abrir_region_def cipher_decrypt_iff [OF assms(1), THEN iffD2])

lemma sellada_abrir_region:
  assumes "cripto_ok C" and "derive_master_key C pw salt [] (pf_params p) = Some m"
    and "abrir_region C m info region aad = Some (Some claro)"
  shows "sellada C pw salt p info aad claro region"
  using assms(2,3) cipher_decrypt_iff [OF assms(1)]
  by (auto simp: sellada_def abrir_region_def split: bind_splits sum.splits)

lemma intentar_partes:
  assumes "length salt = 16" and "length cs = (n - 16) div 2" and "length co = n - 16 - (n - 16) div 2"
    and "16 \<le> n" and "derive_master_key C pw salt [] (pf_params p) = Some m"
  shows "intentar C (salt @ cs @ co) pw p =
    do {
      a \<leftarrow> abrir_region C m INFO_SENUELO cs (salt @ u64_to_be (of_nat n));
      b \<leftarrow> abrir_region C m INFO_OCULTO co (salt @ u64_to_be (of_nat n));
      Some (primera_apertura [(Oculto, b), (Senuelo, a)])
    }"
proof -
  let ?d = "(n - 16) div 2"
  have len: "length (salt @ cs @ co) = n" using assms(1-4) by simp
  have "slice 16 (16 + ?d) (salt @ cs @ co) = cs" "slice (16 + ?d) n (salt @ cs @ co) = co"
    using assms(1-4) by (simp_all add: slice_def)
  then show ?thesis
    unfolding intentar_def len tramos_eq using assms(1,4,5)
    by (simp add: KDF_SALT_LEN_def dato_autenticado_def Let_def)
qed

text \<open>A volume of a container opens as what it was sealed as: a frame under the passphrase.\<close>

definition region_autentica ::
  "'c cripto_scheme \<Rightarrow> bytes \<Rightarrow> char32 list \<Rightarrow> perfil \<Rightarrow> volumen \<Rightarrow> bytes \<Rightarrow> bool" where
  "region_autentica C cont pw p v datos \<longleftrightarrow>
     (let n = length cont; d = (n - 16) div 2; salt = take 16 cont
      in \<exists>claro. prelayers_unpad claro = Inr datos \<and>
        sellada C pw salt p (case v of Senuelo \<Rightarrow> INFO_SENUELO | Oculto \<Rightarrow> INFO_OCULTO)
          (salt @ u64_to_be (of_nat n)) claro
          (case v of Senuelo \<Rightarrow> slice 16 (16 + d) cont | Oculto \<Rightarrow> drop (16 + d) cont))"

lemma primera_apertura_Some:
  "primera_apertura [(v, a), (w, b)] = Some ap \<Longrightarrow>
    (\<exists>c. (ap_volumen ap = v \<and> a = Some c \<or> ap_volumen ap = w \<and> b = Some c) \<and> prelayers_unpad c = Inr (ap_datos ap))"
  by (auto split: option.splits sum.splits)

lemma intentar_Some:
  assumes C: "cripto_ok C" and n: "16 \<le> length cont" and i: "intentar C cont pw p = Some (Some ap)"
  shows "region_autentica C cont pw p (ap_volumen ap) (ap_datos ap)"
proof -
  let ?n = "length cont"
  let ?d = "(?n - 16) div 2"
  let ?salt = "take 16 cont"
  let ?cs = "slice 16 (16 + ?d) cont"
  let ?co = "drop (16 + ?d) cont"
  let ?aad = "?salt @ u64_to_be (of_nat ?n)"
  have parts: "?salt @ ?cs @ ?co = cont"
    by (metis append_take_drop_id le_add1 slice_take_drop)
  have lens: "length ?salt = 16" "length ?cs = ?d" "length ?co = ?n - 16 - ?d" using n by simp_all
  obtain m where m: "derive_master_key C pw ?salt [] (pf_params p) = Some m"
    using i n by (auto simp: intentar_def tramos_eq KDF_SALT_LEN_def Let_def split: bind_splits)
  obtain a b where ab: "abrir_region C m INFO_SENUELO ?cs ?aad = Some a"
      "abrir_region C m INFO_OCULTO ?co ?aad = Some b" "primera_apertura [(Oculto, b), (Senuelo, a)] = Some ap"
    using intentar_partes [OF lens n m] i unfolding parts by (auto split: bind_splits)
  note s = sellada_abrir_region [OF C m]
  from primera_apertura_Some [OF ab(3)] obtain c where
      c: "ap_volumen ap = Oculto \<and> b = Some c \<or> ap_volumen ap = Senuelo \<and> a = Some c"
      and u: "prelayers_unpad c = Inr (ap_datos ap)" by blast
  from c show ?thesis
  proof
    assume "ap_volumen ap = Oculto \<and> b = Some c"
    then show ?thesis using s [of INFO_OCULTO ?co ?aad c] ab(2) u by (auto simp: region_autentica_def Let_def)
  next
    assume "ap_volumen ap = Senuelo \<and> a = Some c"
    then show ?thesis using s [of INFO_SENUELO ?cs ?aad c] ab(1) u by (auto simp: region_autentica_def Let_def)
  qed
qed

text \<open>Each passphrase opens its own volume.\<close>

lemma intentar_oculto:
  assumes C: "cripto_ok C" and "length salt = 16" "length cs = (n - 16) div 2" "length co = n - 16 - (n - 16) div 2"
    "16 \<le> n" and "sellada C pw salt p INFO_OCULTO (salt @ u64_to_be (of_nat n)) (padded @ z) co"
    and "prelayers_pad d = Some padded" "length d < 2 ^ 63"
  shows "intentar C (salt @ cs @ co) pw p = Some (Some \<lparr>ap_volumen = Oculto, ap_datos = d\<rparr>)"
proof -
  let ?aad = "salt @ u64_to_be (of_nat n)"
  obtain m where m: "derive_master_key C pw salt [] (pf_params p) = Some m"
    using assms(6) by (auto simp: sellada_def)
  obtain a where "abrir_region C m INFO_SENUELO cs ?aad = Some a" using abrir_region_total [OF C] by blast
  moreover have "abrir_region C m INFO_OCULTO co ?aad = Some (Some (padded @ z))"
    by (rule abrir_region_sellada [OF C assms(6) m])
  ultimately show ?thesis
    using unpad_pad_append [OF assms(8,7)] by (simp add: intentar_partes [OF assms(2-5) m])
qed

lemma intentar_senuelo:
  assumes C: "cripto_ok C" and "length salt = 16" "length cs = (n - 16) div 2" "length co = n - 16 - (n - 16) div 2"
    "16 \<le> n" and "sellada C pw salt p INFO_SENUELO (salt @ u64_to_be (of_nat n)) (padded @ z) cs"
    and "prelayers_pad d = Some padded" "length d < 2 ^ 63"
  shows "\<exists>ap. intentar C (salt @ cs @ co) pw p = Some (Some ap) \<and>
    (ap = \<lparr>ap_volumen = Senuelo, ap_datos = d\<rparr> \<or> ap_volumen ap = Oculto)"
proof -
  let ?aad = "salt @ u64_to_be (of_nat n)"
  obtain m where m: "derive_master_key C pw salt [] (pf_params p) = Some m"
    using assms(6) by (auto simp: sellada_def)
  obtain b where "abrir_region C m INFO_OCULTO co ?aad = Some b" using abrir_region_total [OF C] by blast
  moreover have "abrir_region C m INFO_SENUELO cs ?aad = Some (Some (padded @ z))"
    by (rule abrir_region_sellada [OF C assms(6) m])
  ultimately show ?thesis
    using unpad_pad_append [OF assms(8,7)]
    by (auto simp: intentar_partes [OF assms(2-5) m] split: option.split sum.split)
qed

section \<open>Creating succeeds\<close>

lemma sellar_region_total:
  assumes C: "cripto_ok C" and f: "fuente_ok fuente" and sane: "is_sane (pf_params p)"
    and salt: "length salt = 16" and pw: "length (utf8 (nfkc C pw)) < 2 ^ 32"
    and fits: "prelayers_pad datos = Some padded" "length padded \<le> largo" "largo < XCHACHA_LIMIT"
    and fill: "\<And>n r. \<exists>b r'. llenar fuente n r = (Inr b, r')"
  shows "\<exists>cif r'. sellar_region C fuente pw salt p info datos largo v aad r = Some (Inr cif, r') \<and>
    length cif = largo + 16"
proof -
  obtain m where m: "derive_master_key C pw salt [] (pf_params p) = Some m"
    using derive_master_key_total [OF C sane, of salt pw "[]"] salt pw by (auto simp: KDF_SALT_LEN_def)
  obtain k nn where kn: "claves_de_region C m info = Some (k, nn)" using claves_total [OF C] by blast
  obtain z r' where z: "llenar fuente (largo - length padded) r = (Inr z, r')" using fill by blast
  have len: "length (padded @ z) = largo" using llenar_length [OF f z] fits(2) by simp
  then obtain cif where "cipher_encrypt C k nn (padded @ z) aad = Some cif" "length cif = largo + 16"
    using cipher_encrypt_total [OF C, of "padded @ z" k nn aad] fits(3) by force
  with m kn z fits(1,2) show ?thesis by (simp add: sellar_region_def claro_de_region_def)
qed

lemma pad_length: "length d < 2 ^ 63 \<Longrightarrow> \<exists>p. prelayers_pad d = Some p \<and> length p = padme_nat (8 + length d)"
  using padme_nat_ge [of "8 + length d"] by (simp add: prelayers_pad_def pad_eq)

text \<open>When the decoy, the hidden volume and the passphrases fit, there is a container.\<close>

lemma crear_total:
  assumes C: "cripto_ok C" and f: "fuente_ok fuente" and sane: "is_sane (pf_params p)"
    and n: "1024 \<le> n" "n < 2 ^ 37" and s: "s \<noteq> []" "padme_nat (8 + length s) + 16 \<le> (n - 16) div 2"
    and pws: "length (utf8 (nfkc C ks)) < 2 ^ 32"
    and desc: "\<And>b. length b = 32 \<Longrightarrow> length (utf8 (nfkc C (hexa b))) < 2 ^ 32"
    and oc: "\<And>o' ko. oculto = Some (o', ko) \<Longrightarrow> utf8 (nfkc C ks) \<noteq> utf8 (nfkc C ko) \<and>
      length (utf8 (nfkc C ko)) < 2 ^ 32 \<and> padme_nat (8 + length o') + 16 \<le> (n - 16) div 2"
    and fill: "\<And>n r. \<exists>b r'. llenar fuente n r = (Inr b, r')"
  shows "\<exists>cont r'. crear C fuente n s ks oculto p r = Some (Inr cont, r')"
proof -
  let ?d = "(n - 16) div 2"
  have fits: "\<exists>padded. prelayers_pad d = Some padded \<and> length padded \<le> ?d - 16"
      if "padme_nat (8 + length d) + 16 \<le> ?d" for d
  proof -
    have "length d < n" using that padme_nat_ge [of "8 + length d"] n(1) by linarith
    then have "length d < 2 ^ 63" using n(2) by simp
    then show ?thesis using pad_length that by fastforce
  qed
  have lim: "?d - 16 < XCHACHA_LIMIT" "n - (16 + ?d) - 16 < XCHACHA_LIMIT"
    using n(2) by (simp_all add: XCHACHA_LIMIT_def)
  have d: "16 + ?d \<le> n" "16 \<le> ?d" "?d \<le> n - (16 + ?d)" using n(1) by simp_all
  obtain fuera r1 where fu: "llenar fuente n r = (Inr fuera, r1)" using fill by blast
  have lf: "length fuera = n" using llenar_length [OF f fu] .
  then have salt: "length (take 16 fuera) = 16" using n(1) by simp
  let ?salt = "take 16 fuera"
  let ?aad = "?salt @ u64_to_be (of_nat n)"
  note total = sellar_region_total [OF C f sane salt]
  obtain ps where ps: "prelayers_pad s = Some ps" "length ps \<le> ?d - 16" using fits s(2) by blast
  obtain cif r2 where c1: "sellar_region C fuente ks ?salt p INFO_SENUELO s (?d - 16) Senuelo ?aad r1 = Some (Inr cif, r2)"
      and lc: "length cif = ?d - 16 + 16"
    using total [OF pws ps lim(1) fill] by blast
  let ?fuera = "take 16 fuera @ cif @ drop (16 + ?d) fuera"
  have copia: "copiar_en (16, 16 + ?d) cif fuera = Some ?fuera"
    using lc d lf by (simp add: copiar_en_def)
  have lf': "length ?fuera = n" using lc d lf by simp
  obtain relleno r3 where re: "llenar fuente 32 r2 = (Inr relleno, r3)" using fill by blast
  have "padme_nat (8 + length ([] :: bytes)) + 16 \<le> ?d" using n(1) padme_small [of 8] by simp
  then have fit2: "\<exists>padded. prelayers_pad o' = Some padded \<and> length padded \<le> n - (16 + ?d) - 16"
      if "oculto = None \<and> o' = [] \<or> (\<exists>ko. oculto = Some (o', ko))" for o'
  proof -
    have "padme_nat (8 + length o') + 16 \<le> ?d"
      using that oc \<open>padme_nat (8 + length ([] :: bytes)) + 16 \<le> ?d\<close> by blast
    then obtain padded where "prelayers_pad o' = Some padded" "length padded \<le> ?d - 16" using fits by blast
    moreover have "?d - 16 \<le> n - (16 + ?d) - 16" using d(3) by (rule diff_le_mono)
    ultimately show ?thesis using le_trans by blast
  qed
  have c2: "\<exists>co r4. sellar_region C fuente pw ?salt p INFO_OCULTO o' (n - (16 + ?d) - 16) Oculto ?aad r3 = Some (Inr co, r4)
        \<and> length co = n - (16 + ?d)"
      if h: "oculto = None \<and> o' = [] \<or> (\<exists>ko. oculto = Some (o', ko))"
        and l: "length (utf8 (nfkc C pw)) < 2 ^ 32" for o' pw
  proof -
    obtain po where po: "prelayers_pad o' = Some po" "length po \<le> n - (16 + ?d) - 16" using fit2 [OF h] by blast
    have "16 \<le> n - (16 + ?d)" using d(2,3) by (rule le_trans)
    then have "n - (16 + ?d) - 16 + 16 = n - (16 + ?d)" by simp
    with total [OF l po lim(2) fill, of INFO_OCULTO Oculto ?aad r3] show ?thesis by metis
  qed
  have "\<exists>cont r'. crear_sobre C fuente n s ks oculto p fuera r1 = Some (Inr cont, r')"
  proof (cases oculto)
    case None
    obtain co r4 where "sellar_region C fuente (hexa relleno) ?salt p INFO_OCULTO [] (n - (16 + ?d) - 16) Oculto ?aad r3
        = Some (Inr co, r4)" using c2 [of "[]" "hexa relleno"] desc [OF llenar_length [OF f re]] None by blast
    then show ?thesis using c1 copia re None by (simp add: crear_sobre_simps)
  next
    case (Some ok)
    obtain o' ko where ok: "oculto = Some (o', ko)" using Some by (cases ok) simp
    obtain co r4 where "sellar_region C fuente ko ?salt p INFO_OCULTO o' (n - (16 + ?d) - 16) Oculto ?aad r3
        = Some (Inr co, r4)" and lco: "length co = n - (16 + ?d)" using c2 [of o' ko] oc [OF ok] ok by blast
    moreover have "copiar_en (16 + ?d, n) co ?fuera \<noteq> None"
      using copiar_en_final [of "take 16 fuera @ cif" "16 + ?d" "drop (16 + ?d) fuera" n co] lf' lco salt lc d(2)
      by simp
    ultimately show ?thesis using c1 copia re ok by (auto simp: crear_sobre_simps)
  qed
  moreover have "\<not> (case oculto of None \<Rightarrow> False | Some (_, ko) \<Rightarrow>
      ct_eq (utf8 (normalizar C ks)) (utf8 (normalizar C ko)))"
    using oc by (auto simp: ct_eq_iff normalizar_def split: option.splits)
  ultimately show ?thesis using fu n(1) s(1) by (simp add: crear_def TAMANO_MINIMO_def)
qed

section \<open>A container\<close>

lemma length_utf8: "length (utf8 s) \<le> 4 * length s"
proof (induction s)
  case (Cons c s)
  have "length (utf8_char c) \<le> 4" by (simp add: utf8_char_def Let_def)
  with Cons show ?case by (simp add: utf8_def)
qed (simp add: utf8_def)

lemma length_hexa: "length (hexa bs) = 2 * length bs"
  by (induction bs) (simp_all add: hexa_def)

lemma demo_crear:
  assumes "oculto = None \<or> oculto = Some ([2, 3], [98])"
  shows "\<exists>cont r'. crear demo_cripto demo_fuente 1024 [1] [97] oculto PERFIL_V1 0 = Some (Inr cont, r')"
proof (rule crear_total [OF demo_cripto_ok demo_fuente_ok])
  show "is_sane (pf_params PERFIL_V1)" by (simp add: PERFIL_V1_def is_sane_unat)
  show "length (utf8 (nfkc demo_cripto (hexa b))) < 2 ^ 32" if "length b = 32" for b
    using length_utf8 [of "hexa b"] that by (simp add: demo_cripto_def length_hexa)
  show "utf8 (nfkc demo_cripto [97]) \<noteq> utf8 (nfkc demo_cripto ko) \<and>
      length (utf8 (nfkc demo_cripto ko)) < 2 ^ 32 \<and> padme_nat (8 + length o') + 16 \<le> (1024 - 16) div 2"
    if "oculto = Some (o', ko)" for o' ko
    using that assms padme_small [of 10] by (auto simp: demo_cripto_def utf8_def utf8_char_def)
  show "\<exists>b r'. llenar demo_fuente n r = (Inr b, r')" for n r using demo_fill by blast
qed (use padme_small [of 9] in \<open>simp_all add: demo_cripto_def utf8_def utf8_char_def\<close>)

section \<open>Properties\<close>

text \<open>
  C14. The deniable container keeps its promise to both passphrases.  What \<open>crear\<close> returns has the
  declared size; with a hidden volume, the two passphrases differ (after normalisation) and that of the
  hidden volume opens the hidden data; the passphrase of the decoy opens the decoy, with one exception: if
  the hidden region happens to authenticate under it too, \<open>abrir\<close> prefers that one (the AEAD does not commit
  to its key, so no law excludes it); and whatever any passphrase opens was sealed under it, with the salt
  and the size of this container.
\<close>
theorem negacion_opens:
  assumes "cripto_ok C" and "fuente_ok fuente"
    and "crear C fuente n s ks oculto p r = Some (Inr cont, r')" and "length s < 2 ^ 63"
  shows "length cont = n \<and>
    (\<forall>o' ko. oculto = Some (o', ko) \<longrightarrow> nfkc C ks \<noteq> nfkc C ko) \<and>
    (\<forall>o' ko. oculto = Some (o', ko) \<and> length o' < 2 ^ 63 \<longrightarrow>
      abrir C cont ko (Some p) = Some (Inr \<lparr>ap_volumen = Oculto, ap_datos = o'\<rparr>)) \<and>
    (\<exists>ap. abrir C cont ks (Some p) = Some (Inr ap) \<and>
      (ap = \<lparr>ap_volumen = Senuelo, ap_datos = s\<rparr> \<or>
       ap_volumen ap = Oculto \<and> region_autentica C cont ks p Oculto (ap_datos ap))) \<and>
    (\<forall>pw q ap. abrir C cont pw (Some q) = Some (Inr ap) \<longrightarrow>
      region_autentica C cont pw q (ap_volumen ap) (ap_datos ap))"
proof -
  obtain fuera r1 padded z cs co where n: "1024 \<le> n" and lf: "length fuera = n"
      and cont: "cont = take 16 fuera @ cs @ co" "length cs = (n - 16) div 2" "length co = n - 16 - (n - 16) div 2"
      and se: "prelayers_pad s = Some padded"
        "sellada C ks (take 16 fuera) p INFO_SENUELO (take 16 fuera @ u64_to_be (of_nat n)) (padded @ z) cs"
      and oc: "\<And>o' ko. oculto = Some (o', ko) \<Longrightarrow> \<exists>padded z. prelayers_pad o' = Some padded \<and>
        sellada C ko (take 16 fuera) p INFO_OCULTO (take 16 fuera @ u64_to_be (of_nat n)) (padded @ z) co"
      and dif: "\<And>o' ko. oculto = Some (o', ko) \<Longrightarrow> nfkc C ks \<noteq> nfkc C ko"
    using crear_Inr [OF assms(1-3)] by metis
  have len: "length cont = n" using n lf cont by simp
  have salt: "length (take 16 fuera) = 16" and n16: "16 \<le> n" using n lf by simp_all
  have abrir: "abrir C cont pw (Some q) = map_option (case_option (Inl NoAbre) Inr) (intentar C cont pw q)" for pw q
    using n len by (cases "intentar C cont pw q") (auto simp: abrir_def TAMANO_MINIMO_def split: option.split)
  have aut: "region_autentica C cont pw q (ap_volumen ap) (ap_datos ap)"
      if "abrir C cont pw (Some q) = Some (Inr ap)" for pw q ap
    using that intentar_Some [OF assms(1)] n16 len unfolding abrir by (auto split: option.splits)
  have "abrir C cont ko (Some p) = Some (Inr \<lparr>ap_volumen = Oculto, ap_datos = o'\<rparr>)"
      if "oculto = Some (o', ko)" "length o' < 2 ^ 63" for o' ko
    using oc [OF that(1)] intentar_oculto [OF assms(1) salt cont(2,3) n16 _ _ that(2)]
    unfolding abrir unfolding cont(1) by fastforce
  moreover have "\<exists>ap. abrir C cont ks (Some p) = Some (Inr ap) \<and>
      (ap = \<lparr>ap_volumen = Senuelo, ap_datos = s\<rparr> \<or> ap_volumen ap = Oculto)"
    using intentar_senuelo [OF assms(1) salt cont(2,3) n16 se(2,1) assms(4)]
    unfolding abrir unfolding cont(1) by fastforce
  ultimately show ?thesis using len aut dif by metis
qed

theorem negacion_opens_witness:
  "\<exists>cont r'. crear demo_cripto demo_fuente 1024 [1] [97] (Some ([2, 3], [98])) PERFIL_V1 0 = Some (Inr cont, r') \<and>
    length cont = 1024 \<and>
    abrir demo_cripto cont [98] (Some PERFIL_V1) = Some (Inr \<lparr>ap_volumen = Oculto, ap_datos = [2, 3]\<rparr>)"
proof -
  obtain cont r' where c: "crear demo_cripto demo_fuente 1024 [1] [97] (Some ([2, 3], [98])) PERFIL_V1 0
      = Some (Inr cont, r')"
    using demo_crear by blast
  from negacion_opens [OF demo_cripto_ok demo_fuente_ok this] c show ?thesis by simp
qed

text \<open>
  C15. Deniability.  Two containers made from the same randomness, one with a hidden volume and one
  without, have the same size and agree on everything but the hidden region.  There the one without holds
  exactly what the random source gave, and the one with it holds the ciphertext of the padded hidden data
  under the keys of its passphrase, with the salt and the size of the container as associated data: no byte
  is spent on saying which it is, and none is in clear.
\<close>
theorem negacion_hides:
  assumes "cripto_ok C" and "fuente_ok fuente"
    and "crear C fuente n s ks None p r = Some (Inr cont0, r0)"
    and "crear C fuente n s ks (Some (o', ko)) p r = Some (Inr cont1, r1)"
  shows "length cont0 = length cont1 \<and>
    take (16 + (n - 16) div 2) cont0 = take (16 + (n - 16) div 2) cont1 \<and>
    (\<exists>fuera rf. llenar fuente n r = (Inr fuera, rf) \<and> take 16 cont0 = take 16 fuera \<and>
      drop (16 + (n - 16) div 2) cont0 = drop (16 + (n - 16) div 2) fuera) \<and>
    (\<exists>m key nonce padded z. derive_master_key C ko (take 16 cont1) [] (pf_params p) = Some m \<and>
      claves_de_region C m INFO_OCULTO = Some (key, nonce) \<and> prelayers_pad o' = Some padded \<and>
      cipher_encrypt C key nonce (padded @ z) (take 16 cont1 @ u64_to_be (of_nat n)) =
        Some (drop (16 + (n - 16) div 2) cont1))"
proof -
  let ?d = "(n - 16) div 2"
  obtain fuera rf r2 cs co where a: "1024 \<le> n" "llenar fuente n r = (Inr fuera, rf)" "length fuera = n"
      "cont0 = take 16 fuera @ cs @ co" "length cs = ?d" "length co = n - 16 - ?d"
      "sellar_region C fuente ks (take 16 fuera) p INFO_SENUELO s (?d - 16) Senuelo
        (take 16 fuera @ u64_to_be (of_nat n)) rf = Some (Inr cs, r2)"
      "co = drop (16 + ?d) fuera"
    using crear_Inr [OF assms(1-3)] by metis
  obtain fuera' rf' r2' cs' co' where b: "llenar fuente n r = (Inr fuera', rf')"
      "cont1 = take 16 fuera' @ cs' @ co'" "length cs' = ?d" "length co' = n - 16 - ?d"
      "sellar_region C fuente ks (take 16 fuera') p INFO_SENUELO s (?d - 16) Senuelo
        (take 16 fuera' @ u64_to_be (of_nat n)) rf' = Some (Inr cs', r2')"
      and sel: "\<exists>padded z. prelayers_pad o' = Some padded \<and>
        sellada C ko (take 16 fuera') p INFO_OCULTO (take 16 fuera' @ u64_to_be (of_nat n)) (padded @ z) co'"
    using crear_Inr [OF assms(1,2,4)] by metis
  have f: "fuera' = fuera" "rf' = rf" using a(2) b(1) by simp_all
  with a(7) b(5) have "cs' = cs" by simp
  then have "length cont0 = length cont1 \<and> take (16 + ?d) cont0 = take (16 + ?d) cont1 \<and>
      take 16 cont0 = take 16 fuera \<and> drop (16 + ?d) cont0 = drop (16 + ?d) fuera"
    using a b f(1) by simp
  moreover have "take 16 cont1 = take 16 fuera'" "drop (16 + ?d) cont1 = co'"
    using a(1,3) b(2,3) f(1) by simp_all
  moreover have "\<exists>m key nonce padded z. derive_master_key C ko (take 16 fuera') [] (pf_params p) = Some m \<and>
      claves_de_region C m INFO_OCULTO = Some (key, nonce) \<and> prelayers_pad o' = Some padded \<and>
      cipher_encrypt C key nonce (padded @ z) (take 16 fuera' @ u64_to_be (of_nat n)) = Some co'"
    using sel unfolding sellada_def by blast
  ultimately show ?thesis using a(2) by metis
qed

theorem negacion_hides_witness:
  "\<exists>cont0 cont1 r0 r1. crear demo_cripto demo_fuente 1024 [1] [97] None PERFIL_V1 0 = Some (Inr cont0, r0) \<and>
    crear demo_cripto demo_fuente 1024 [1] [97] (Some ([2, 3], [98])) PERFIL_V1 0 = Some (Inr cont1, r1) \<and>
    take 520 cont0 = take 520 cont1"
proof -
  obtain cont0 r0 where c0: "crear demo_cripto demo_fuente 1024 [1] [97] None PERFIL_V1 0 = Some (Inr cont0, r0)"
    using demo_crear by blast
  obtain cont1 r1 where c1: "crear demo_cripto demo_fuente 1024 [1] [97] (Some ([2, 3], [98])) PERFIL_V1 0
      = Some (Inr cont1, r1)"
    using demo_crear by blast
  from negacion_hides [OF demo_cripto_ok demo_fuente_ok c0 c1] c0 c1 show ?thesis by simp
qed

text \<open>
  Canonical sizes.  Up to \<open>2 ^ 63\<close>, \<open>tamano_canonico\<close> is the least power of two that is at
  least the minimum size and what was asked for (it can only panic beyond it); its results are canonical
  and are left alone, so the sizes seen are powers of two and nothing else.
\<close>
lemma tamano_canonico_least:
  "(case tamano_canonico m of
      Some t \<Rightarrow> (\<exists>k. t = 2 ^ k) \<and> m \<le> t \<and> 1024 \<le> t \<and>
        (\<forall>k. m \<le> 2 ^ k \<and> (1024 :: nat) \<le> 2 ^ k \<longrightarrow> t \<le> 2 ^ k) \<and>
        tamano_es_canonico t \<and> tamano_canonico t = Some t
    | None \<Rightarrow> 2 ^ 63 < m)"
proof -
  let ?m = "max m 1024"
  have eq: "tamano_canonico x = (if is_power_of_two (max x 1024) then Some (max x 1024)
      else next_power_of_two (max x 1024))" for x
    by (simp add: tamano_canonico_def TAMANO_MINIMO_def max_def)
  have t: "(\<exists>k. t = 2 ^ k) \<and> ?m \<le> t \<and> (\<forall>k. ?m \<le> 2 ^ k \<longrightarrow> t \<le> 2 ^ k)"
    if "tamano_canonico m = Some t" for t
  proof (cases "is_power_of_two ?m")
    case True
    then have "t = ?m" using that by (simp add: eq)
    moreover have "\<exists>k. ?m = 2 ^ k" using True is_power_of_two_iff by blast
    ultimately show ?thesis by blast
  next
    case False
    then show ?thesis using that next_power_of_two_least [of ?m t] by (simp add: eq)
  qed
  have "2 ^ 63 < m" if "tamano_canonico m = None"
  proof (rule ccontr)
    assume "\<not> 2 ^ 63 < m"
    then have "?m \<le> 2 ^ 63" by simp
    then show False using next_power_of_two_total [of ?m] that by (auto simp: eq split: if_splits)
  qed
  moreover have "tamano_es_canonico t \<and> tamano_canonico t = Some t" if "tamano_canonico m = Some t" for t
    using t [OF that] is_power_of_two_iff [of t]
    by (auto simp: tamano_es_canonico_def TAMANO_MINIMO_def eq max_absorb1)
  ultimately show ?thesis using t by (auto split: option.split)
qed

lemma tamano_canonico_least_example:
  "tamano_canonico 1500 = Some 2048 \<and> (\<nexists>k. (1500 :: nat) \<le> 2 ^ k \<and> (1024 :: nat) \<le> 2 ^ k \<and> 2 ^ k < (2048 :: nat))"
proof -
  have "bit_length 1499 = 11" "bit_length 1500 = 11"
    using bit_length_eqI [of 10 1499] bit_length_eqI [of 10 1500] by simp_all
  then have c: "tamano_canonico 1500 = Some 2048"
    by (simp add: tamano_canonico_def TAMANO_MINIMO_def is_power_of_two_def next_power_of_two_def)
  have "\<forall>k. (1500 :: nat) \<le> 2 ^ k \<and> (1024 :: nat) \<le> 2 ^ k \<longrightarrow> (2048 :: nat) \<le> 2 ^ k"
    using tamano_canonico_least [of 1500] unfolding c option.case by blast
  then show ?thesis using c by (meson not_less)
qed

end
