(* ===== verification/Honey.thy ===== *)
theory Honey
  imports Api Instances
begin

text \<open>
  \<^verbatim>\<open>src/src/honey.rs\<close>: encryption of low-entropy secrets, without a tag, so that every passphrase
  decrypts to some plausible secret.  A secret is a sequence of tokens below the size of the
  alphabet; the cipher adds the digits of a key stream modulo that size.  \<open>None\<close> is a panic.
\<close>

section \<open>Types and constants\<close>

text \<open>\<^verbatim>\<open>b"quipu-honey-v1/pad"\<close> and \<^verbatim>\<open>b"QHNY"\<close>.\<close>

definition HONEY_INFO :: bytes where
  "HONEY_INFO = map (of_nat \<circ> of_char) ''quipu-honey-v1/pad''"

definition STREAM_BYTES_PER_TOKEN :: nat where
  "STREAM_BYTES_PER_TOKEN = 8"

definition honey_MAGIC :: bytes where
  "honey_MAGIC = [0x51, 0x48, 0x4e, 0x59]"

definition honey_VERSION :: u8 where
  "honey_VERSION = 1"

definition honey_HEADER_LEN :: nat where
  "honey_HEADER_LEN = 4 + 1 + KDF_SALT_LEN + 4 + 4 + 4 + 2 + 4"

definition MAX_TOKENS :: nat where
  "MAX_TOKENS = 1000"

datatype honey_error =
    TokenOutOfRange
  | BadAlphabet
  | HoneyBadLength
  | HoneyTruncated
  | HoneyBadMagic
  | HoneyUnsupportedVersion u8
  | HoneyInsaneKdf

record alphabet =
  al_size :: u16

definition alphabet_new :: "u16 \<Rightarrow> honey_error + alphabet" where
  "alphabet_new tam = (if tam < 2 then Inl BadAlphabet else Inr \<lparr>al_size = tam\<rparr>)"

definition alphabet_digits :: alphabet where
  "alphabet_digits = \<lparr>al_size = 10\<rparr>"

record honey_options =
  ho_pepper :: bytes
  ho_kdf_params :: kdf_params

definition honey_options_default :: honey_options where
  "honey_options_default = \<lparr>ho_pepper = [], ho_kdf_params = kdf_params_default\<rparr>"

section \<open>Operations\<close>

text \<open>The length of the buffer is a multiple of eight, so its exact chunks are its chunks.\<close>

definition keystream_digits ::
  "'c cripto_scheme \<Rightarrow> char32 list \<Rightarrow> bytes \<Rightarrow> bytes \<Rightarrow> kdf_params \<Rightarrow> u16 \<Rightarrow> nat \<Rightarrow> u16 list option" where
  "keystream_digits C passphrase salt pepper params tam len =
     do {
       master \<leftarrow> derive_master_key C passphrase salt pepper params;
       buf \<leftarrow> derive_stream C master HONEY_INFO (len * STREAM_BYTES_PER_TOKEN);
       let a = (ucast tam :: u64);
       Some (map (\<lambda>chunk. ucast (u64_from_be chunk mod a)) (chunks STREAM_BYTES_PER_TOKEN buf))
     }"

definition honey_cifrar :: "u16 \<Rightarrow> u16 \<Rightarrow> u16 \<Rightarrow> u16" where
  "honey_cifrar a t k = ucast ((ucast t + ucast k) mod ucast a :: u32)"

definition honey_descifrar :: "u16 \<Rightarrow> u16 \<Rightarrow> u16 \<Rightarrow> u16" where
  "honey_descifrar a c k = ucast ((ucast c + ucast a - ucast k) mod ucast a :: u32)"

definition honey_encrypt ::
  "'c cripto_scheme \<Rightarrow> 'r fuente \<Rightarrow> u16 list \<Rightarrow> alphabet \<Rightarrow> char32 list \<Rightarrow> honey_options \<Rightarrow> 'r \<Rightarrow>
    ((honey_error + bytes) \<times> 'r) option" where
  "honey_encrypt C fuente tokens alphabet passphrase opts r =
     (if tokens = [] \<or> MAX_TOKENS < length tokens then Some (Inl HoneyBadLength, r)
      else if \<exists>t \<in> set tokens. al_size alphabet \<le> t then Some (Inl TokenOutOfRange, r)
      else do {
        (salt, r) \<leftarrow> llenar_expect fuente KDF_SALT_LEN r;
        let a = al_size alphabet;
        ks \<leftarrow> keystream_digits C passphrase salt (ho_pepper opts) (ho_kdf_params opts) a (length tokens);
        Some (Inr (honey_MAGIC @ [honey_VERSION] @ salt
          @ u32_to_be (mem_kib (ho_kdf_params opts)) @ u32_to_be (iterations (ho_kdf_params opts))
          @ u32_to_be (parallelism (ho_kdf_params opts)) @ u16_to_be a @ u32_to_be (of_nat (length tokens))
          @ concat (map2 (\<lambda>t k. u16_to_be (honey_cifrar a t k)) tokens ks)), r)
      })"

text \<open>\<open>c + a - k\<close> does not wrap: the digit \<open>k\<close> is below \<open>a\<close>.\<close>

definition honey_decrypt ::
  "'c cripto_scheme \<Rightarrow> bytes \<Rightarrow> char32 list \<Rightarrow> bytes \<Rightarrow> (honey_error + u16 list) option" where
  "honey_decrypt C blob passphrase pepper =
     (if length blob < honey_HEADER_LEN then Some (Inl HoneyTruncated)
      else if take 4 blob \<noteq> honey_MAGIC then Some (Inl HoneyBadMagic)
      else
        let version = blob ! 4
        in if version \<noteq> honey_VERSION then Some (Inl (HoneyUnsupportedVersion version))
           else
             let salt = slice 5 21 blob;
                 params = \<lparr>mem_kib = u32_from_be (slice 21 25 blob), iterations = u32_from_be (slice 25 29 blob),
                           parallelism = u32_from_be (slice 29 33 blob)\<rparr>;
                 tam = u16_from_be (slice 33 35 blob);
                 len = unat (u32_from_be (slice 35 39 blob));
                 p = 39
             in if tam < 2 then Some (Inl BadAlphabet)
                else if len = 0 \<or> MAX_TOKENS < len then Some (Inl HoneyBadLength)
                else if \<not> is_sane params then Some (Inl HoneyInsaneKdf)
                else if length blob < honey_HEADER_LEN + len * 2 then Some (Inl HoneyTruncated)
                else do {
                  ks \<leftarrow> keystream_digits C passphrase salt pepper params tam len;
                  Some (Inr (map (\<lambda>i. honey_descifrar tam (u16_from_be (slice (p + i * 2) (p + i * 2 + 2) blob)) (ks ! i))
                    [0..<len]))
                })"

text \<open>\<^verbatim>\<open>char::to_digit(10)\<close>.\<close>

definition to_digit10 :: "char32 \<Rightarrow> u16 option" where
  "to_digit10 c = (if 48 \<le> c \<and> c \<le> 57 then Some (ucast (c - 48)) else None)"

definition pin_to_tokens :: "char32 list \<Rightarrow> honey_error + u16 list" where
  "pin_to_tokens pin =
     (if pin = [] \<or> MAX_TOKENS < length (utf8 pin) then Inl HoneyBadLength
      else traverse (\<lambda>c. case to_digit10 c of None \<Rightarrow> Inl TokenOutOfRange | Some d \<Rightarrow> Inr d) pin)"

definition encrypt_pin ::
  "'c cripto_scheme \<Rightarrow> 'r fuente \<Rightarrow> char32 list \<Rightarrow> char32 list \<Rightarrow> honey_options \<Rightarrow> 'r \<Rightarrow>
    ((honey_error + bytes) \<times> 'r) option" where
  "encrypt_pin C fuente pin passphrase opts r =
     (case pin_to_tokens pin of
        Inl e \<Rightarrow> Some (Inl e, r)
      | Inr tokens \<Rightarrow> honey_encrypt C fuente tokens alphabet_digits passphrase opts r)"

text \<open>\<^verbatim>\<open>b'0' + t as u8\<close>, which panics when the sum does not fit in a byte.\<close>

definition pin_char :: "u16 \<Rightarrow> char32 option" where
  "pin_char t = (let b = (ucast t :: u8) in if 48 + unat b < 256 then Some (ucast (48 + b)) else None)"

definition decrypt_pin ::
  "'c cripto_scheme \<Rightarrow> bytes \<Rightarrow> char32 list \<Rightarrow> bytes \<Rightarrow> (honey_error + char32 list) option" where
  "decrypt_pin C blob passphrase pepper =
     do {
       res \<leftarrow> honey_decrypt C blob passphrase pepper;
       case res of
         Inl e \<Rightarrow> Some (Inl e)
       | Inr tokens \<Rightarrow> map_option Inr (those (map pin_char tokens))
     }"

section \<open>The cipher of a token\<close>

lemmas unat_u16_less = unat_u16_lt

lemma unat_ucast_32 [simp]: "unat (ucast (x :: u16) :: u32) = unat x"
proof -
  have "unat x < 2 ^ 32" using unat_u16_lt [of x] by simp
  then show ?thesis by (simp add: unsigned_ucast_eq take_bit_nat_eq_self)
qed

lemma ucast_16_nat: "unat (x :: u32) < 65536 \<Longrightarrow> unat (ucast x :: u16) = unat x"
  by (simp add: unsigned_ucast_eq take_bit_nat_eq_self)

lemma mod_sub: "r < a \<Longrightarrow> x < a \<Longrightarrow> (r + a - x) mod a = (if x \<le> r then r - x else r + a - x)" for a :: nat
  by (simp add: le_mod_geq)

lemma honey_cifrar_nat:
  assumes "0 < a"
  shows "unat (honey_cifrar a t k) = (unat t + unat k) mod unat a"
proof -
  have a: "0 < unat a" using assms by (simp add: word_less_nat_alt)
  have "unat ((ucast t + ucast k) mod ucast a :: u32) = (unat t + unat k) mod unat a"
    using unat_u16_less [of t] unat_u16_less [of k] by (simp add: unat_mod unat_word_ariths)
  moreover have "(unat t + unat k) mod unat a < 65536"
    using a unat_u16_less [of a] by (meson mod_less_divisor less_trans)
  ultimately show ?thesis by (simp add: honey_cifrar_def ucast_16_nat)
qed

lemma honey_descifrar_nat:
  assumes "k < a"
  shows "unat (honey_descifrar a c k) = (unat c + unat a - unat k) mod unat a"
proof -
  have k: "unat k < unat a" using assms by (simp add: word_less_nat_alt)
  have "unat (ucast c + ucast a - ucast k :: u32) = unat c + unat a - unat k"
  proof -
    have "unat (ucast c + ucast a :: u32) = unat c + unat a"
      using unat_u16_less [of c] unat_u16_less [of a] by (simp add: unat_word_ariths)
    then show ?thesis using k by (simp add: unat_sub word_le_nat_alt)
  qed
  then have "unat ((ucast c + ucast a - ucast k) mod ucast a :: u32) = (unat c + unat a - unat k) mod unat a"
    by (simp add: unat_mod)
  moreover have "(unat c + unat a - unat k) mod unat a < 65536"
    using k unat_u16_less [of a] by (meson mod_less_divisor less_trans le_less_trans zero_le)
  ultimately show ?thesis by (simp add: honey_descifrar_def ucast_16_nat)
qed

lemma honey_descifrar_less: "k < a \<Longrightarrow> honey_descifrar a c k < a"
  by (simp add: word_less_nat_alt honey_descifrar_nat)

lemma honey_descifrar_cifrar:
  assumes "t < a" and "k < a"
  shows "honey_descifrar a (honey_cifrar a t k) k = t"
proof -
  have a: "0 < a" "unat t < unat a" "unat k < unat a" using assms by (auto simp: word_less_nat_alt)
  have "((unat t + unat k) mod unat a + unat a - unat k) mod unat a = unat t"
  proof (cases "unat t + unat k < unat a")
    case False
    then have "(unat t + unat k) mod unat a = unat t + unat k - unat a"
      using a by (simp add: le_mod_geq)
    with False a show ?thesis by simp
  qed (use a in simp)
  then show ?thesis
    using assms a(1) by (intro word_unat_eq_iff [THEN iffD2]) (simp add: honey_descifrar_nat honey_cifrar_nat)
qed

text \<open>For every ciphertext digit and every token there is exactly one key digit that gives it.\<close>

lemma honey_descifrar_bij:
  assumes "t < a"
  shows "\<exists>!k. k < a \<and> honey_descifrar a c k = t"
proof -
  have a: "0 < unat a" "unat t < unat a" using assms by (auto simp: word_less_nat_alt)
  let ?r = "unat c mod unat a"
  have r: "?r < unat a" using a by simp
  let ?n = "(?r + unat a - unat t) mod unat a"
  have n: "?n < unat a" using a by simp
  have val: "unat (honey_descifrar a c k) = (?r + unat a - unat k) mod unat a" if "k < a" for k
  proof -
    have k: "unat k < unat a" using that by (simp add: word_less_nat_alt)
    have "(unat c + unat a - unat k) mod unat a = (unat c + (unat a - unat k)) mod unat a" using k by simp
    also have "\<dots> = (?r + (unat a - unat k)) mod unat a" by (simp add: mod_add_left_eq)
    also have "\<dots> = (?r + unat a - unat k) mod unat a" using k by simp
    finally show ?thesis using honey_descifrar_nat [OF that] by simp
  qed
  have key: "(?r + unat a - x) mod unat a = unat t \<longleftrightarrow> x = ?n" if "x < unat a" for x
    unfolding mod_sub [OF r that] mod_sub [OF r a(2)] using that r a by auto
  have u: "unat (of_nat ?n :: u16) = ?n"
    using n unat_u16_less [of a] by (simp add: unat_of_nat)
  show ?thesis
  proof (rule ex1I [of _ "of_nat ?n"])
    show "of_nat ?n < a \<and> honey_descifrar a c (of_nat ?n) = t"
      using n key [OF n] val u by (auto simp: word_less_nat_alt word_unat_eq_iff)
    show "k = of_nat ?n" if "k < a \<and> honey_descifrar a c k = t" for k
      using that key [of "unat k"] val u by (auto simp: word_less_nat_alt word_unat_eq_iff)
  qed
qed

section \<open>The key stream\<close>

lemma keystream_digits_ok:
  assumes C: "cripto_ok C" and len: "len \<le> MAX_TOKENS" and a: "0 < a"
    and ks: "keystream_digits C pw salt pepper params a len = Some ks"
  shows "length ks = len" "\<forall>k \<in> set ks. k < a"
proof -
  obtain m buf where b: "derive_stream C m HONEY_INFO (len * 8) = Some buf"
      and k: "ks = map (\<lambda>chunk. ucast (u64_from_be chunk mod ucast a)) (chunks 8 buf)"
    using ks by (auto simp: keystream_digits_def STREAM_BYTES_PER_TOKEN_def split: bind_splits)
  have "length buf = len * 8"
    using derive_stream_total [OF C, of "len * 8" m HONEY_INFO] len b by (auto simp: MAX_TOKENS_def)
  then show "length ks = len" using chunks_exact [of 8 buf len] by (simp add: k mult.commute)
  have "(ucast (v mod ucast a) :: u16) < a" for v :: u64
  proof -
    have ua: "unat (ucast a :: u64) = unat a"
      using unat_u16_less [of a] by (simp add: unsigned_ucast_eq take_bit_nat_eq_self)
    have "unat (v mod ucast a) < unat a"
      using a by (simp add: unat_mod ua word_less_nat_alt)
    moreover from this have "unat (ucast (v mod ucast a) :: u16) = unat (v mod ucast a)"
      using unat_u16_less [of a] by (simp add: unsigned_ucast_eq take_bit_nat_eq_self)
    ultimately show ?thesis by (simp add: word_less_nat_alt)
  qed
  then show "\<forall>k \<in> set ks. k < a" by (auto simp: k)
qed

lemma keystream_digits_total:
  assumes "cripto_ok C" and "len \<le> MAX_TOKENS" and "is_sane params" and "length salt = 16"
    and "length (utf8 (nfkc C pw)) + length pepper < 2 ^ 32"
  shows "\<exists>ks. keystream_digits C pw salt pepper params a len = Some ks"
proof -
  obtain m where "derive_master_key C pw salt pepper params = Some m"
    using derive_master_key_total [OF assms(1,3) _ assms(5), of salt] assms(4) by (auto simp: KDF_SALT_LEN_def)
  moreover obtain buf where "derive_stream C m HONEY_INFO (len * 8) = Some buf"
    using derive_stream_total [OF assms(1), of "len * 8" m HONEY_INFO] assms(2) by (auto simp: MAX_TOKENS_def)
  ultimately show ?thesis by (simp add: keystream_digits_def STREAM_BYTES_PER_TOKEN_def)
qed

section \<open>Containers\<close>

definition honey_cabecera :: "bytes \<Rightarrow> kdf_params \<Rightarrow> u16 \<Rightarrow> nat \<Rightarrow> bytes" where
  "honey_cabecera salt params a n =
     honey_MAGIC @ [honey_VERSION] @ salt @ u32_to_be (mem_kib params) @ u32_to_be (iterations params)
       @ u32_to_be (parallelism params) @ u16_to_be a @ u32_to_be (of_nat n)"

lemma slice_concat:
  assumes "0 < w" and "\<forall>x \<in> set xs. length x = w" and "i < length xs"
  shows "slice (i * w) (i * w + w) (concat xs) = xs ! i"
proof -
  have "length (concat xs) = length xs * w"
    using assms(2) by (induction xs) simp_all
  then have "i * w < length (concat xs)" using assms(1,3) by simp
  from chunks_nth [OF assms(1) this] show ?thesis using chunks_concat [OF assms(1,2)] by simp
qed

lemma cabecera_slices:
  assumes "length salt = 16" and h: "h = honey_cabecera salt params a n"
  shows "length h = 39" "take 4 h = honey_MAGIC" "h ! 4 = honey_VERSION" "slice 5 21 h = salt"
    "slice 21 25 h = u32_to_be (mem_kib params)" "slice 25 29 h = u32_to_be (iterations params)"
    "slice 29 33 h = u32_to_be (parallelism params)" "slice 33 35 h = u16_to_be a"
    "slice 35 39 h = u32_to_be (of_nat n)"
  using assms by (simp_all add: honey_cabecera_def honey_MAGIC_def slice_simps nth_append)

lemma honey_decrypt_blob:
  assumes "length salt = 16" and "2 \<le> a" and "cs \<noteq> []" and "length cs \<le> MAX_TOKENS" and "is_sane params"
  shows "honey_decrypt C (honey_cabecera salt params a (length cs) @ concat (map u16_to_be cs)) pw pepper =
    do {
      ks \<leftarrow> keystream_digits C pw salt pepper params a (length cs);
      Some (Inr (map (\<lambda>i. honey_descifrar a (cs ! i) (ks ! i)) [0..<length cs]))
    }"
proof -
  let ?h = "honey_cabecera salt params a (length cs)"
  let ?body = "concat (map u16_to_be cs)"
  note h = cabecera_slices [OF assms(1) refl, of params a "length cs"]
  have n: "unat (of_nat (length cs) :: u32) = length cs"
    using assms(4) by (simp add: MAX_TOKENS_def unat_of_nat_u32)
  have lb: "length ?body = length cs * 2" by (induction cs) simp_all
  have sl: "slice i j (?h @ ?body) = slice i j ?h" if "j \<le> 39" for i j
    using that h(1) by (simp add: slice_append_left)
  have body: "slice (39 + i * 2) (39 + i * 2 + 2) (?h @ ?body) = u16_to_be (cs ! i)" if "i < length cs" for i
    using slice_concat [of 2 "map u16_to_be cs" i] that h(1) by (simp add: slice_append_right)
  have heads: "take 4 (?h @ ?body) = honey_MAGIC" "(?h @ ?body) ! 4 = honey_VERSION"
      "length (?h @ ?body) = 39 + length cs * 2"
    using h(1-3) lb by (simp_all add: nth_append)
  have rec: "\<lparr>mem_kib = mem_kib params, iterations = iterations params, parallelism = parallelism params\<rparr> = params"
    by (cases params) simp
  have body41: "slice (39 + i * 2) (41 + i * 2) (?h @ ?body) = u16_to_be (cs ! i)" if "i < length cs" for i
    using body [OF that] by simp
  have digits: "map (\<lambda>i. honey_descifrar a (u16_from_be (slice (39 + i * 2) (41 + i * 2) (?h @ ?body))) (ks ! i))
      [0..<length cs] = map (\<lambda>i. honey_descifrar a (cs ! i) (ks ! i)) [0..<length cs]" for ks
    by (rule map_cong [OF refl]) (simp only: set_upt atLeastLessThan_iff body41 u16_from_to_be)
  have "\<not> a < 2" using assms(2) by simp
  then show ?thesis
    using assms(3,4,5)
    by (simp add: honey_decrypt_def heads(1,2) lb sl h n rec honey_HEADER_LEN_def KDF_SALT_LEN_def Let_def digits)
qed

lemma honey_decrypt_insane:
  assumes "length salt = 16" and "2 \<le> a" and "cs \<noteq> []" and "length cs \<le> MAX_TOKENS" and "\<not> is_sane params"
  shows "honey_decrypt C (honey_cabecera salt params a (length cs) @ concat (map u16_to_be cs)) pw pepper =
    Some (Inl HoneyInsaneKdf)"
proof -
  let ?h = "honey_cabecera salt params a (length cs)"
  let ?body = "concat (map u16_to_be cs)"
  note h = cabecera_slices [OF assms(1) refl, of params a "length cs"]
  have n: "unat (of_nat (length cs) :: u32) = length cs"
    using assms(4) by (simp add: MAX_TOKENS_def unat_of_nat_u32)
  have sl: "slice i j (?h @ ?body) = slice i j ?h" if "j \<le> 39" for i j
    using that h(1) by (simp add: slice_append_left)
  have heads: "take 4 (?h @ ?body) = honey_MAGIC" "(?h @ ?body) ! 4 = honey_VERSION"
    using h(1-3) by (simp_all add: nth_append)
  have rec: "\<lparr>mem_kib = mem_kib params, iterations = iterations params, parallelism = parallelism params\<rparr> = params"
    by (cases params) simp
  have "\<not> a < 2" using assms(2) by simp
  then show ?thesis
    using assms(3,4,5)
    by (simp add: honey_decrypt_def heads sl h n rec honey_HEADER_LEN_def KDF_SALT_LEN_def Let_def)
qed

lemma honey_encrypt_Inr:
  assumes C: "cripto_ok C" and f: "fuente_ok fuente" and a: "2 \<le> al_size al"
    and e: "honey_encrypt C fuente tokens al pw opts r = Some (Inr blob, r')"
  obtains salt ks cs where "length salt = 16" "tokens \<noteq> []" "length tokens \<le> MAX_TOKENS"
    "\<forall>t \<in> set tokens. t < al_size al"
    "keystream_digits C pw salt (ho_pepper opts) (ho_kdf_params opts) (al_size al) (length tokens) = Some ks"
    "length ks = length tokens" "\<forall>k \<in> set ks. k < al_size al"
    "cs = map2 (honey_cifrar (al_size al)) tokens ks" "length cs = length tokens"
    "blob = honey_cabecera salt (ho_kdf_params opts) (al_size al) (length cs) @ concat (map u16_to_be cs)"
proof -
  let ?a = "al_size al"
  have t: "tokens \<noteq> []" "length tokens \<le> MAX_TOKENS" "\<forall>t \<in> set tokens. t < ?a"
    using e by (auto simp: honey_encrypt_def not_le split: if_splits)
  then have cond: "\<not> (tokens = [] \<or> MAX_TOKENS < length tokens)" "\<not> (\<exists>t \<in> set tokens. ?a \<le> t)" by auto
  obtain salt r1 ks where s: "llenar_expect fuente KDF_SALT_LEN r = Some (salt, r1)"
      and ks: "keystream_digits C pw salt (ho_pepper opts) (ho_kdf_params opts) ?a (length tokens) = Some ks"
      and blob: "blob = honey_MAGIC @ [honey_VERSION] @ salt
          @ u32_to_be (mem_kib (ho_kdf_params opts)) @ u32_to_be (iterations (ho_kdf_params opts))
          @ u32_to_be (parallelism (ho_kdf_params opts)) @ u16_to_be ?a @ u32_to_be (of_nat (length tokens))
          @ concat (map2 (\<lambda>t k. u16_to_be (honey_cifrar ?a t k)) tokens ks)"
    using e unfolding honey_encrypt_def if_not_P [OF cond(1)] if_not_P [OF cond(2)]
    by (auto simp: Let_def split: bind_splits)
  have "0 < ?a" using a by (simp add: word_le_nat_alt word_less_nat_alt)
  note k = keystream_digits_ok [OF C t(2) this ks]
  have "length salt = 16" using llenar_expect_length [OF f s] by (simp add: KDF_SALT_LEN_def)
  moreover have "concat (map2 (\<lambda>t k. u16_to_be (honey_cifrar ?a t k)) tokens ks) =
      concat (map u16_to_be (map2 (honey_cifrar ?a) tokens ks))"
    by (simp add: case_prod_unfold comp_def)
  ultimately show ?thesis
    using that [OF _ t ks k refl] blob k(1) by (simp add: honey_cabecera_def)
qed

text \<open>What any passphrase decrypts to.\<close>

lemma honey_decrypt_any:
  assumes "cripto_ok C" and "2 \<le> a" and "length salt = 16" and "is_sane params"
    and "cs \<noteq> []" and "length cs \<le> MAX_TOKENS"
    and "keystream_digits C pw salt pepper params a (length cs) = Some ks"
  shows "honey_decrypt C (honey_cabecera salt params a (length cs) @ concat (map u16_to_be cs)) pw pepper =
      Some (Inr (map2 (honey_descifrar a) cs ks))"
    "\<forall>t \<in> set (map2 (honey_descifrar a) cs ks). t < a" "length (map2 (honey_descifrar a) cs ks) = length cs"
proof -
  have "0 < a" using assms(2) by (simp add: word_le_nat_alt word_less_nat_alt)
  note k = keystream_digits_ok [OF assms(1,6) this assms(7)]
  have "map (\<lambda>i. honey_descifrar a (cs ! i) (ks ! i)) [0..<length cs] = map2 (honey_descifrar a) cs ks"
    using k(1) by (intro nth_equalityI) simp_all
  then show "honey_decrypt C (honey_cabecera salt params a (length cs) @ concat (map u16_to_be cs)) pw pepper =
      Some (Inr (map2 (honey_descifrar a) cs ks))"
    unfolding honey_decrypt_blob [OF assms(3,2,5,6,4)] assms(7) by simp
  show "\<forall>t \<in> set (map2 (honey_descifrar a) cs ks). t < a"
    using k(2) honey_descifrar_less by (fastforce dest: set_zip_rightD)
  show "length (map2 (honey_descifrar a) cs ks) = length cs" using k(1) by simp
qed

lemma honey_lossless:
  assumes "cripto_ok C" and "fuente_ok fuente" and a: "2 \<le> al_size al" and sane: "is_sane (ho_kdf_params opts)"
    and "honey_encrypt C fuente tokens al pw opts r = Some (Inr blob, r')"
  shows "honey_decrypt C blob pw (ho_pepper opts) = Some (Inr tokens)"
proof -
  let ?a = "al_size al"
  obtain salt ks cs where s: "length salt = 16" and t: "tokens \<noteq> []" "length tokens \<le> MAX_TOKENS"
      "\<forall>t \<in> set tokens. t < ?a"
      and ks: "keystream_digits C pw salt (ho_pepper opts) (ho_kdf_params opts) ?a (length tokens) = Some ks"
        "length ks = length tokens" "\<forall>k \<in> set ks. k < ?a"
      and cs: "cs = map2 (honey_cifrar ?a) tokens ks" "length cs = length tokens"
      and blob: "blob = honey_cabecera salt (ho_kdf_params opts) ?a (length cs) @ concat (map u16_to_be cs)"
    using honey_encrypt_Inr [OF assms(1-3,5)] .
  have ne: "cs \<noteq> []" "length cs \<le> MAX_TOKENS" using t cs(2) by auto
  have "map2 (honey_descifrar ?a) cs ks = tokens"
  proof (rule nth_equalityI)
    show "length (map2 (honey_descifrar ?a) cs ks) = length tokens" using cs(2) ks(2) by simp
    show "map2 (honey_descifrar ?a) cs ks ! i = tokens ! i"
      if "i < length (map2 (honey_descifrar ?a) cs ks)" for i
    proof -
      have "i < length tokens" using that cs(2) ks(2) by simp
      then show ?thesis
        using honey_descifrar_cifrar [of "tokens ! i" ?a "ks ! i"] t(3) ks(2,3) cs by simp
    qed
  qed
  with honey_decrypt_any(1) [OF assms(1) a s sane ne, of pw "ho_pepper opts" ks] ks(1) cs(2) show ?thesis
    by (simp add: blob)
qed

text \<open>For a fixed ciphertext, key streams and secrets correspond one to one.\<close>

lemma honey_bij:
  assumes "\<forall>t \<in> set ts. t < a" and "length ts = length cs"
  shows "\<exists>!ks. length ks = length cs \<and> (\<forall>k \<in> set ks. k < a) \<and> map2 (honey_descifrar a) cs ks = ts"
  using assms
proof (induction cs arbitrary: ts)
  case (Cons c cs)
  then obtain t us where ts: "ts = t # us" "t < a" "\<forall>t \<in> set us. t < a" "length us = length cs"
    by (cases ts) auto
  obtain k where k: "k < a" "honey_descifrar a c k = t"
      and k1: "\<And>k'. k' < a \<Longrightarrow> honey_descifrar a c k' = t \<Longrightarrow> k' = k"
    using honey_descifrar_bij [OF ts(2), of c] by blast
  obtain ks where ks: "length ks = length cs" "\<forall>k \<in> set ks. k < a" "map2 (honey_descifrar a) cs ks = us"
      and ks1: "\<And>ks'. length ks' = length cs \<and> (\<forall>k \<in> set ks'. k < a) \<and> map2 (honey_descifrar a) cs ks' = us
        \<Longrightarrow> ks' = ks"
    using Cons.IH [OF ts(3,4)] by (auto elim: ex1E)
  show ?case
  proof (rule ex1I [of _ "k # ks"])
    show "length (k # ks) = length (c # cs) \<and> (\<forall>x \<in> set (k # ks). x < a) \<and>
        map2 (honey_descifrar a) (c # cs) (k # ks) = ts"
      using k ks ts(1) by simp
    fix ks' assume h: "length ks' = length (c # cs) \<and> (\<forall>x \<in> set ks'. x < a) \<and>
        map2 (honey_descifrar a) (c # cs) ks' = ts"
    then obtain k' l where l: "ks' = k' # l" by (cases ks') auto
    from h have "k' < a" "honey_descifrar a c k' = t" "length l = length cs \<and> (\<forall>x \<in> set l. x < a) \<and>
        map2 (honey_descifrar a) cs l = us"
      by (simp_all add: l ts(1))
    then show "ks' = k # ks" using k1 ks1 l by blast
  qed
qed (auto intro: ex1I [of _ "[]"])

section \<open>PINs\<close>

lemma to_digit10_nat: "to_digit10 c = Some d \<Longrightarrow> unat d < 10 \<and> unat c = 48 + unat d"
proof -
  assume d: "to_digit10 c = Some d"
  then have c: "48 \<le> unat c" "unat c \<le> 57" and d: "d = ucast (c - 48)"
    by (auto simp: to_digit10_def word_le_nat_alt split: if_splits)
  have "unat (c - 48) = unat c - 48" using c by (simp add: unat_sub word_le_nat_alt)
  then have "unat d = unat c - 48" using c by (simp add: d ucast_16_nat)
  then show ?thesis using c by simp
qed

lemma pin_char_to_digit: "to_digit10 c = Some d \<Longrightarrow> pin_char d = Some c"
proof -
  assume "to_digit10 c = Some d"
  note n = to_digit10_nat [OF this]
  have b: "unat (ucast d :: u8) = unat d"
    using n by (simp add: unsigned_ucast_eq take_bit_nat_eq_self)
  then have "unat (48 + ucast d :: u8) = unat c" using n by (simp add: unat_word_ariths)
  then have "unat (ucast (48 + ucast d :: u8) :: char32) = unat c"
    using n by (simp add: unsigned_ucast_eq take_bit_nat_eq_self)
  then have "ucast (48 + ucast d :: u8) = c" by (simp add: word_unat_eq_iff)
  with b n show ?thesis by (simp add: pin_char_def)
qed

lemma pin_tokens:
  assumes "pin_to_tokens pin = Inr tokens"
  shows "those (map pin_char tokens) = Some pin" "\<forall>t \<in> set tokens. t < 10"
proof -
  have all: "list_all2 (\<lambda>c d. to_digit10 c = Some d) pin tokens"
    using assms by (auto simp: pin_to_tokens_def traverse_Inr_iff split: if_splits option.splits
        elim: list_all2_mono)
  then show "those (map pin_char tokens) = Some pin"
    by (induction pin tokens rule: list_all2_induct) (simp_all add: pin_char_to_digit)
  from all show "\<forall>t \<in> set tokens. t < 10"
    by (induction pin tokens rule: list_all2_induct) (auto simp: word_less_nat_alt dest: to_digit10_nat)
qed

lemma pin_char_None_iff: "pin_char t = None \<longleftrightarrow> 208 \<le> unat t mod 256"
  by (auto simp: pin_char_def Let_def unsigned_ucast_eq take_bit_eq_mod)

lemma those_None: "x \<in> set xs \<Longrightarrow> f x = None \<Longrightarrow> those (map f xs) = None"
  by (induction xs) (auto split: option.split)

section \<open>Properties\<close>

lemma default_honey_sane: "is_sane (ho_kdf_params honey_options_default)"
  by (simp add: honey_options_default_def kdf_params_default_def EQUILIBRADO_def is_sane_unat)

lemma demo_honey:
  assumes "tokens \<noteq> []" and "length tokens \<le> MAX_TOKENS" and "\<forall>t \<in> set tokens. t < al_size al"
  shows "\<exists>blob r'. honey_encrypt demo_cripto demo_fuente tokens al [97] honey_options_default 0 = Some (Inr blob, r')"
proof -
  have c: "\<not> (tokens = [] \<or> MAX_TOKENS < length tokens)" "\<not> (\<exists>t \<in> set tokens. al_size al \<le> t)"
    using assms by (auto simp: not_le not_less)
  obtain salt r1 where s: "llenar_expect demo_fuente KDF_SALT_LEN 0 = Some (salt, r1)"
    using demo_llenar by blast
  then have "length salt = 16" using llenar_expect_length [OF demo_fuente_ok] by (auto simp: KDF_SALT_LEN_def)
  then obtain ks where "keystream_digits demo_cripto [97] salt (ho_pepper honey_options_default)
      (ho_kdf_params honey_options_default) (al_size al) (length tokens) = Some ks"
    using keystream_digits_total [OF demo_cripto_ok assms(2) default_honey_sane, of salt "[97]"
        "ho_pepper honey_options_default" "al_size al"]
    by (auto simp: honey_options_default_def demo_cripto_def utf8_def utf8_char_def)
  with s show ?thesis unfolding honey_encrypt_def if_not_P [OF c(1)] if_not_P [OF c(2)]
    by (simp add: Let_def)
qed

text \<open>
  Honey encryption gives back what it was given: with the passphrase and pepper it was encrypted
  under, a sequence of tokens decrypts to itself, and a PIN to itself as text.
\<close>
lemma honey_roundtrip:
  assumes "cripto_ok C" and "fuente_ok fuente" and "is_sane (ho_kdf_params opts)"
  shows "(2 \<le> al_size al \<and> honey_encrypt C fuente tokens al pw opts r = Some (Inr blob, r') \<longrightarrow>
      honey_decrypt C blob pw (ho_pepper opts) = Some (Inr tokens)) \<and>
    (encrypt_pin C fuente pin pw opts r = Some (Inr blob, r') \<longrightarrow>
      decrypt_pin C blob pw (ho_pepper opts) = Some (Inr pin))"
proof (intro conjI impI)
  assume "encrypt_pin C fuente pin pw opts r = Some (Inr blob, r')"
  then obtain tokens where t: "pin_to_tokens pin = Inr tokens"
      and e: "honey_encrypt C fuente tokens alphabet_digits pw opts r = Some (Inr blob, r')"
    by (auto simp: encrypt_pin_def split: sum.splits)
  have "honey_decrypt C blob pw (ho_pepper opts) = Some (Inr tokens)"
    by (rule honey_lossless [OF assms(1,2) _ assms(3) e]) (simp add: alphabet_digits_def word_le_nat_alt)
  with pin_tokens(1) [OF t] show "decrypt_pin C blob pw (ho_pepper opts) = Some (Inr pin)"
    by (simp add: decrypt_pin_def)
qed (use honey_lossless [OF assms(1,2) _ assms(3)] in blast)

lemma honey_roundtrip_example:
  "\<exists>blob r'. encrypt_pin demo_cripto demo_fuente [49, 50] [97] honey_options_default 0 = Some (Inr blob, r') \<and>
    decrypt_pin demo_cripto blob [97] (ho_pepper honey_options_default) = Some (Inr [49, 50])"
proof -
  have t: "pin_to_tokens [49, 50] = Inr [1, 2]"
    by (simp add: pin_to_tokens_def to_digit10_def MAX_TOKENS_def utf8_def utf8_char_def)
  obtain blob r' where "honey_encrypt demo_cripto demo_fuente [1, 2] alphabet_digits [97] honey_options_default 0
      = Some (Inr blob, r')"
    using demo_honey [of "[1, 2]" alphabet_digits] by (auto simp: MAX_TOKENS_def alphabet_digits_def)
  then have e: "encrypt_pin demo_cripto demo_fuente [49, 50] [97] honey_options_default 0 = Some (Inr blob, r')"
    by (simp add: encrypt_pin_def t)
  from honey_roundtrip [OF demo_cripto_ok demo_fuente_ok default_honey_sane] e show ?thesis by blast
qed

text \<open>
  C16. There is no sign of the right passphrase.  A ciphertext made with sane KDF parameters decrypts,
  whatever passphrase and pepper are tried (below the 4 GiB that Argon2 takes), by the key stream derived from them, to a sequence of the same
  length over the same alphabet and never to an error; one made with others, which \<open>honey_encrypt\<close> does not
  refuse, gives one and the same error to every passphrase.  And every sequence over the alphabet comes out
  under exactly one key stream, so a uniform key stream makes every plausible secret equally likely.
\<close>
theorem honey_no_oracle:
  assumes "cripto_ok C" and "fuente_ok fuente" and "2 \<le> al_size al"
    and "honey_encrypt C fuente tokens al pw opts r = Some (Inr blob, r')"
  shows "\<exists>salt cs. length cs = length tokens \<and>
    blob = honey_cabecera salt (ho_kdf_params opts) (al_size al) (length cs) @ concat (map u16_to_be cs) \<and>
    (\<not> is_sane (ho_kdf_params opts) \<longrightarrow>
      (\<forall>pw' pepper'. honey_decrypt C blob pw' pepper' = Some (Inl HoneyInsaneKdf))) \<and>
    (is_sane (ho_kdf_params opts) \<longrightarrow>
      (\<forall>pw' pepper'. length (utf8 (nfkc C pw')) + length pepper' < 2 ^ 32 \<longrightarrow>
        (\<exists>ks. keystream_digits C pw' salt pepper' (ho_kdf_params opts) (al_size al) (length tokens) = Some ks \<and>
          length ks = length tokens \<and> (\<forall>k \<in> set ks. k < al_size al) \<and>
          honey_decrypt C blob pw' pepper' = Some (Inr (map2 (honey_descifrar (al_size al)) cs ks)) \<and>
          (\<forall>t \<in> set (map2 (honey_descifrar (al_size al)) cs ks). t < al_size al)))) \<and>
    (\<forall>ts. length ts = length tokens \<and> (\<forall>t \<in> set ts. t < al_size al) \<longrightarrow>
      (\<exists>!ks. length ks = length tokens \<and> (\<forall>k \<in> set ks. k < al_size al) \<and>
        map2 (honey_descifrar (al_size al)) cs ks = ts))"
proof -
  let ?a = "al_size al"
  obtain salt cs where s: "length salt = 16" and t: "tokens \<noteq> []" "length tokens \<le> MAX_TOKENS"
      and cs: "length cs = length tokens"
      and blob: "blob = honey_cabecera salt (ho_kdf_params opts) ?a (length cs) @ concat (map u16_to_be cs)"
    using honey_encrypt_Inr [OF assms] by metis
  have ne: "cs \<noteq> []" "length cs \<le> MAX_TOKENS" using t cs by auto
  have "0 < ?a" using assms(3) by (simp add: word_le_nat_alt word_less_nat_alt)
  note kd = keystream_digits_ok [OF assms(1) ne(2) this]
  have "\<exists>ks. keystream_digits C pw' salt pepper' (ho_kdf_params opts) ?a (length tokens) = Some ks \<and>
      length ks = length tokens \<and> (\<forall>k \<in> set ks. k < ?a) \<and>
      honey_decrypt C blob pw' pepper' = Some (Inr (map2 (honey_descifrar ?a) cs ks)) \<and>
      (\<forall>t \<in> set (map2 (honey_descifrar ?a) cs ks). t < ?a)"
    if sane: "is_sane (ho_kdf_params opts)" and l: "length (utf8 (nfkc C pw')) + length pepper' < 2 ^ 32" for pw' pepper'
  proof -
    obtain ks where ks: "keystream_digits C pw' salt pepper' (ho_kdf_params opts) ?a (length cs) = Some ks"
      using keystream_digits_total [OF assms(1) ne(2) sane s l] by blast
    show ?thesis
      using honey_decrypt_any [OF assms(1,3) s sane ne ks] kd [OF ks] cs ks unfolding blob by metis
  qed
  moreover have "\<exists>!ks. length ks = length tokens \<and> (\<forall>k \<in> set ks. k < ?a) \<and> map2 (honey_descifrar ?a) cs ks = ts"
    if "length ts = length tokens \<and> (\<forall>t \<in> set ts. t < ?a)" for ts
    using honey_bij [of ts ?a cs] that cs by simp
  moreover have "honey_decrypt C blob pw' pepper' = Some (Inl HoneyInsaneKdf)"
    if "\<not> is_sane (ho_kdf_params opts)" for pw' pepper'
    unfolding blob by (rule honey_decrypt_insane [OF s assms(3) ne that])
  ultimately show ?thesis using cs blob by blast
qed

theorem honey_no_oracle_witness:
  "\<exists>blob r' ts. honey_encrypt demo_cripto demo_fuente [7] alphabet_digits [97] honey_options_default 0 = Some (Inr blob, r') \<and>
    honey_decrypt demo_cripto blob [98] [] = Some (Inr ts) \<and> length ts = 1 \<and> (\<forall>t \<in> set ts. t < 10)"
proof -
  obtain blob r' where e: "honey_encrypt demo_cripto demo_fuente [7] alphabet_digits [97] honey_options_default 0
      = Some (Inr blob, r')"
    using demo_honey [of "[7]" alphabet_digits] by (auto simp: MAX_TOKENS_def alphabet_digits_def)
  have a: "2 \<le> al_size alphabet_digits" "al_size alphabet_digits = 10"
    by (simp_all add: alphabet_digits_def word_le_nat_alt)
  have l: "length (utf8 (nfkc demo_cripto [98])) + length ([] :: bytes) < 2 ^ 32"
    by (simp add: demo_cripto_def utf8_def utf8_char_def)
  from honey_no_oracle [OF demo_cripto_ok demo_fuente_ok a(1) e] default_honey_sane l
  obtain cs ks where cs: "length cs = length [7 :: u16]" and ks: "length ks = length [7 :: u16]"
      "honey_decrypt demo_cripto blob [98] [] = Some (Inr (map2 (honey_descifrar (al_size alphabet_digits)) cs ks))"
      "\<forall>t \<in> set (map2 (honey_descifrar (al_size alphabet_digits)) cs ks). t < al_size alphabet_digits"
    by blast
  have "length (map2 (honey_descifrar (al_size alphabet_digits)) cs ks) = 1" using cs ks(1) by simp
  with e ks(2,3) show ?thesis unfolding a(2) by blast
qed

text \<open>
  \<open>decrypt_pin\<close> does not check that the container is one of digits.  Given one of another
  alphabet with a token whose low byte is 208 or more, it does not return a PIN or an error: it
  panics on the addition that makes the character.
\<close>
lemma decrypt_pin_panics:
  assumes "cripto_ok C" and "fuente_ok fuente" and "2 \<le> al_size al" and "is_sane (ho_kdf_params opts)"
    and "honey_encrypt C fuente tokens al pw opts r = Some (Inr blob, r')"
    and "t \<in> set tokens" and "208 \<le> unat t mod 256"
  shows "decrypt_pin C blob pw (ho_pepper opts) = None"
  using honey_lossless [OF assms(1-5)] those_None [of t tokens pin_char] assms(6,7)
  by (simp add: decrypt_pin_def pin_char_None_iff)

lemma decrypt_pin_panics_example:
  "\<exists>blob r'. honey_encrypt demo_cripto demo_fuente [208] \<lparr>al_size = 256\<rparr> [97] honey_options_default 0 = Some (Inr blob, r') \<and>
    decrypt_pin demo_cripto blob [97] (ho_pepper honey_options_default) = None"
proof -
  obtain blob r' where e: "honey_encrypt demo_cripto demo_fuente [208] \<lparr>al_size = 256\<rparr> [97] honey_options_default 0
      = Some (Inr blob, r')"
    using demo_honey [of "[208]" "\<lparr>al_size = 256\<rparr>"] by (auto simp: MAX_TOKENS_def)
  have a: "2 \<le> al_size \<lparr>al_size = 256\<rparr>" by (simp add: word_le_nat_alt)
  have "decrypt_pin demo_cripto blob [97] (ho_pepper honey_options_default) = None"
    by (rule decrypt_pin_panics [OF demo_cripto_ok demo_fuente_ok a default_honey_sane e, of 208]) simp_all
  with e show ?thesis by blast
qed

end
