(* ===== verification/Papel.thy ===== *)
theory Papel
  imports Prelude "HOL-Library.Monad_Syntax"
begin

text \<open>
  \<^verbatim>\<open>crates/quipu-nucleo/src/ecc.rs\<close> and \<^verbatim>\<open>papel.rs\<close>: Reed-Solomon protection for a noisy channel,
  and the cutting of the protected stream into interleaved symbols for paper.  The codec of the
  crate \<^verbatim>\<open>reed-solomon\<close> is the parameter \<open>reed_solomon\<close>; the outer option of its decoder is its
  panic, the inner one its error.  Lengths are \<^verbatim>\<open>usize\<close> of 64 bits.
\<close>

section \<open>Reed-Solomon blocks\<close>

record reed_solomon =
  rs_encode :: "nat \<Rightarrow> bytes \<Rightarrow> bytes"
  rs_correct :: "nat \<Rightarrow> bytes \<Rightarrow> bytes option option"

definition ecc_HEADER :: nat where
  "ecc_HEADER = 5"

definition HEADER_PARITY :: nat where
  "HEADER_PARITY = 10"

definition HEADER_BLOCK :: nat where
  "HEADER_BLOCK = ecc_HEADER + HEADER_PARITY"

definition tamano_cabecera :: nat where
  "tamano_cabecera = HEADER_BLOCK"

definition PARIDAD_MAXIMA :: u8 where
  "PARIDAD_MAXIMA = 128"

text \<open>\<^verbatim>\<open>u8::clamp(2, PARIDAD_MAXIMA)\<close>, \<^verbatim>\<open>u32::to_le_bytes\<close> and \<^verbatim>\<open>u32::from_le_bytes\<close>.\<close>

definition clamp :: "u8 \<Rightarrow> u8" where
  "clamp parity = (if parity < 2 then 2 else if PARIDAD_MAXIMA < parity then PARIDAD_MAXIMA else parity)"

definition u32_to_le :: "u32 \<Rightarrow> bytes" where
  "u32_to_le x = le_bytes 4 (unat x)"

definition u32_from_le :: "bytes \<Rightarrow> u32" where
  "u32_from_le bs = of_nat (nat_of_le bs)"

definition protect :: "reed_solomon \<Rightarrow> bytes \<Rightarrow> u8 \<Rightarrow> bytes" where
  "protect R data parity =
     (let parity = clamp parity;
          chunk = 255 - unat parity;
          cabecera = parity # u32_to_le (of_nat (length data))
      in rs_encode R HEADER_PARITY cabecera @ concat (map (rs_encode R (unat parity)) (chunks chunk data)))"

text \<open>
  The loop of \<open>recover\<close>; the parity was checked before it, so the last branch is never reached.
\<close>

function recover_loop ::
  "reed_solomon \<Rightarrow> u8 \<Rightarrow> bytes \<Rightarrow> nat \<Rightarrow> bytes \<Rightarrow> bytes option option" where
  "recover_loop R parity body remaining salida =
     (if parity \<le> PARIDAD_MAXIMA then
        (if remaining = 0 then Some (Some salida)
         else
           let chunk = 255 - unat parity;
               data_in_block = min remaining chunk;
               block_len = data_in_block + unat parity
           in if length body < block_len then Some None
              else
                case rs_correct R (unat parity) (take block_len body) of
                  None \<Rightarrow> None
                | Some None \<Rightarrow> Some None
                | Some (Some corrected) \<Rightarrow>
                    if length corrected < data_in_block then None
                    else recover_loop R parity (drop block_len body) (remaining - data_in_block)
                           (salida @ take data_in_block corrected))
      else None)"
  by pat_completeness auto
termination
proof (relation "measure (\<lambda>(_, _, _, remaining, _). remaining)")
  fix parity :: u8 and remaining chunk x xa :: nat
  assume "parity \<le> PARIDAD_MAXIMA" "remaining \<noteq> 0" and c: "chunk = 255 - unat parity" "x = min remaining chunk"
  then have "unat parity \<le> 128" by (simp add: word_le_nat_alt PARIDAD_MAXIMA_def)
  then show "((R, parity, drop xa body, remaining - x, salida @ take x ya), R, parity, body, remaining, salida)
      \<in> measure (\<lambda>(_, _, _, remaining, _). remaining)" for R body salida ya
    using c \<open>remaining \<noteq> 0\<close> by simp
qed simp

declare recover_loop.simps [simp del]

definition recover :: "reed_solomon \<Rightarrow> bytes \<Rightarrow> bytes option option" where
  "recover R protected =
     (if length protected < HEADER_BLOCK then Some None
      else
        case rs_correct R HEADER_PARITY (take HEADER_BLOCK protected) of
          None \<Rightarrow> None
        | Some None \<Rightarrow> Some None
        | Some (Some cabecera) \<Rightarrow>
            if length cabecera < ecc_HEADER then None
            else
              let parity = cabecera ! 0
              in if \<not> (2 \<le> parity \<and> parity \<le> PARIDAD_MAXIMA) then Some None
                 else
                   let data_len = unat (u32_from_le (slice 1 ecc_HEADER cabecera))
                   in if length protected < data_len then Some None
                      else recover_loop R parity (drop HEADER_BLOCK protected) data_len [])"

section \<open>Symbols\<close>

definition papel_VERSION :: u8 where
  "papel_VERSION = 1"

definition CABECERA :: nat where
  "CABECERA = 1 + 2 + 2 + 4"

definition BLOQUE_RS :: nat where
  "BLOQUE_RS = 255"

datatype papel_error =
    CapacidadInsuficiente nat nat
  | DemasiadosSimbolos nat
  | ParidadExcesiva u8 u8
  | SinTrozos
  | VersionDesconocida u8
  | TrozosIncoherentes
  | NoSeRecupera
  | SimboloImposible string

definition CABECERA_ECC :: nat where
  "CABECERA_ECC = 15"

definition CABECERA_ECC_CORRIGE :: nat where
  "CABECERA_ECC_CORRIGE = 5"

definition simbolos_perdidos_tolerados :: "nat \<Rightarrow> u8 \<Rightarrow> nat" where
  "simbolos_perdidos_tolerados total_simbolos paridad =
     (if total_simbolos = 0 then 0
      else
        let por_datos =
              (let presupuesto = unat paridad div 2;
                   perdidos_por_bloque = div_ceil BLOQUE_RS total_simbolos
               in presupuesto div max perdidos_por_bloque 1);
            por_cabecera =
              (if CABECERA_ECC \<le> total_simbolos then CABECERA_ECC_CORRIGE
               else CABECERA_ECC_CORRIGE div div_ceil CABECERA_ECC total_simbolos)
        in min por_datos por_cabecera)"

text \<open>The loop that pushes byte \<open>i\<close> of the stream on symbol \<open>i mod total\<close>.\<close>

fun intercalar :: "nat \<Rightarrow> nat \<Rightarrow> bytes \<Rightarrow> bytes list \<Rightarrow> bytes list" where
  "intercalar T i [] trozos = trozos"
| "intercalar T i (b # bs) trozos =
     intercalar T (Suc i) bs (trozos[i mod T := trozos ! (i mod T) @ [b]])"

definition cabecera_trozo :: "nat \<Rightarrow> nat \<Rightarrow> u32 \<Rightarrow> bytes" where
  "cabecera_trozo j T largo =
     [papel_VERSION] @ u16_to_be (of_nat j) @ u16_to_be (of_nat T) @ u32_to_be largo"

definition empaquetar :: "reed_solomon \<Rightarrow> bytes \<Rightarrow> nat \<Rightarrow> u8 \<Rightarrow> papel_error + bytes list" where
  "empaquetar R datos capacidad paridad =
     (if capacidad \<le> CABECERA then Inl (CapacidadInsuficiente capacidad (CABECERA + 1))
      else if PARIDAD_MAXIMA < paridad then Inl (ParidadExcesiva paridad PARIDAD_MAXIMA)
      else
        let util = capacidad - CABECERA;
            protegido = protect R datos paridad;
            T = max (div_ceil (length protegido) util) 1
        in if 65535 < T then Inl (DemasiadosSimbolos T)
           else
             let largo = (of_nat (length protegido) :: u32)
             in Inr (intercalar T 0 protegido (map (\<lambda>j. cabecera_trozo j T largo) [0..<T])))"

record cabecera =
  cab_indice :: nat
  cab_total :: nat
  cab_largo :: nat

definition leer_cabecera :: "bytes \<Rightarrow> papel_error + cabecera" where
  "leer_cabecera t =
     (if length t < CABECERA then Inl TrozosIncoherentes
      else if t ! 0 \<noteq> papel_VERSION then Inl (VersionDesconocida (t ! 0))
      else Inr \<lparr>cab_indice = unat (u16_from_be [t ! 1, t ! 2]),
                cab_total = unat (u16_from_be [t ! 3, t ! 4]),
                cab_largo = unat (u32_from_be [t ! 5, t ! 6, t ! 7, t ! 8])\<rparr>)"

definition saturar :: "nat \<Rightarrow> nat" where
  "saturar n = min n (2 ^ 64 - 1)"

text \<open>The bytes of one symbol, from its \<open>k\<close>-th on, into their places; a place past the end stops it.\<close>

fun colocar :: "nat \<Rightarrow> nat \<Rightarrow> nat \<Rightarrow> bytes \<Rightarrow> bytes \<Rightarrow> bytes" where
  "colocar T indice k [] flujo = flujo"
| "colocar T indice k (b # bs) flujo =
     (if 2 ^ 64 \<le> k * T \<or> 2 ^ 64 \<le> indice + k * T then flujo
      else
        let pos = indice + k * T
        in if length flujo \<le> pos then flujo else colocar T indice (Suc k) bs (flujo[pos := b]))"

fun unir :: "cabecera \<Rightarrow> bytes list \<Rightarrow> bytes \<Rightarrow> bool list \<Rightarrow> papel_error + bytes" where
  "unir c0 [] flujo vistos = Inr flujo"
| "unir c0 (t # ts) flujo vistos =
     (case leer_cabecera t of
        Inl e \<Rightarrow> Inl e
      | Inr c \<Rightarrow>
          if cab_total c \<noteq> cab_total c0 \<or> cab_largo c \<noteq> cab_largo c0 \<or> cab_total c0 \<le> cab_indice c
          then Inl TrozosIncoherentes
          else if vistos ! cab_indice c then Inl TrozosIncoherentes
          else unir c0 ts (colocar (cab_total c0) (cab_indice c) 0 (drop CABECERA t) flujo)
                 (vistos[cab_indice c := True]))"

definition reensamblar :: "reed_solomon \<Rightarrow> bytes list \<Rightarrow> (papel_error + bytes) option" where
  "reensamblar R trozos =
     (case trozos of
        [] \<Rightarrow> Some (Inl SinTrozos)
      | primero # _ \<Rightarrow>
          (case leer_cabecera primero of
             Inl e \<Rightarrow> Some (Inl e)
           | Inr c0 \<Rightarrow>
               if cab_total c0 = 0 \<or> cab_largo c0 = 0 then Some (Inl TrozosIncoherentes)
               else
                 let mayor_carga = Max (set (map (\<lambda>t. length t - CABECERA) trozos));
                     techo = saturar (cab_total c0 * saturar (mayor_carga + 1))
                 in if techo < cab_largo c0 then Some (Inl TrozosIncoherentes)
                    else
                      case unir c0 trozos (replicate (cab_largo c0) 0) (replicate (cab_total c0) False) of
                        Inl e \<Rightarrow> Some (Inl e)
                      | Inr flujo \<Rightarrow>
                          (case recover R flujo of
                             None \<Rightarrow> None
                           | Some None \<Rightarrow> Some (Inl NoSeRecupera)
                           | Some (Some d) \<Rightarrow> Some (Inr d))))"

section \<open>What is documented of the codec\<close>

definition hdist :: "'a list \<Rightarrow> 'a list \<Rightarrow> nat" where
  "hdist xs ys = length (filter (\<lambda>(x, y). x \<noteq> y) (zip xs ys))"

text \<open>
  A systematic Reed-Solomon code on blocks of at most 255 bytes: the parity follows the data, and
  half as many errors as there are parity bytes are corrected, wherever they are.
\<close>

definition rs_ok :: "reed_solomon \<Rightarrow> bool" where
  "rs_ok R \<longleftrightarrow>
     (\<forall>p d. 2 \<le> p \<and> p \<le> 128 \<and> length d + p \<le> 255 \<longrightarrow> (\<exists>e. length e = p \<and> rs_encode R p d = d @ e)) \<and>
     (\<forall>p d r. 2 \<le> p \<and> p \<le> 128 \<and> length d + p \<le> 255 \<and> length r = length d + p \<and>
        hdist r (rs_encode R p d) \<le> p div 2 \<longrightarrow> rs_correct R p r = Some (Some d))"

text \<open>In the range that the module accepts, the decoder gives an error or as many bytes as the data.\<close>

definition rs_sano :: "reed_solomon \<Rightarrow> bool" where
  "rs_sano R \<longleftrightarrow>
     (\<forall>p r. 2 \<le> p \<and> p \<le> 128 \<and> p \<le> length r \<and> length r \<le> 255 \<longrightarrow>
        (\<exists>x. rs_correct R p r = Some x \<and> (\<forall>d. x = Some d \<longrightarrow> length d = length r - p)))"

section \<open>Counting\<close>

lemma hdist_card: "length xs = length ys \<Longrightarrow> hdist xs ys = card {i. i < length xs \<and> xs ! i \<noteq> ys ! i}"
  unfolding hdist_def length_filter_conv_card
  by (rule arg_cong [of _ _ card]) auto

lemma hdist_same [simp]: "hdist xs xs = 0"
  by (simp add: hdist_card)

lemma hdist_sym: "length xs = length ys \<Longrightarrow> hdist xs ys = hdist ys xs"
  by (simp add: hdist_card) (metis)

lemma hdist_triangle:
  assumes "length xs = length ys" and "length ys = length zs"
  shows "hdist xs zs \<le> hdist xs ys + hdist ys zs"
proof -
  have "{i. i < length xs \<and> xs ! i \<noteq> zs ! i} \<subseteq>
      {i. i < length xs \<and> xs ! i \<noteq> ys ! i} \<union> {i. i < length ys \<and> ys ! i \<noteq> zs ! i}"
    using assms by auto
  then have "card {i. i < length xs \<and> xs ! i \<noteq> zs ! i} \<le>
      card ({i. i < length xs \<and> xs ! i \<noteq> ys ! i} \<union> {i. i < length ys \<and> ys ! i \<noteq> zs ! i})"
    by (intro card_mono) simp_all
  also have "\<dots> \<le> card {i. i < length xs \<and> xs ! i \<noteq> ys ! i} + card {i. i < length ys \<and> ys ! i \<noteq> zs ! i}"
    by (rule card_Un_le)
  finally show ?thesis using assms by (simp add: hdist_card)
qed

text \<open>In a window, every residue occurs at most once per period begun.\<close>

lemma card_residue:
  assumes "0 < T"
  shows "card {i. a \<le> i \<and> i < a + L \<and> i mod T = j} \<le> div_ceil L T"
proof -
  let ?S = "{i. a \<le> i \<and> i < a + L \<and> i mod T = j}"
  have "inj_on (\<lambda>i. (i - a) div T) ?S"
  proof (rule inj_onI)
    fix x y assume x: "x \<in> ?S" and y: "y \<in> ?S" and eq: "(x - a) div T = (y - a) div T"
    have "x \<le> y" if "x \<in> ?S" "y \<in> ?S" "(x - a) div T = (y - a) div T" for x y
    proof (rule ccontr)
      assume "\<not> x \<le> y"
      then obtain d where d: "x = y + d" "0 < d" by (metis less_imp_add_positive not_le)
      have "T dvd d" using that d by (metis (mono_tags, lifting) add_diff_cancel_left' mem_Collect_eq mod_eq_dvd_iff_nat le_add1)
      then have "T \<le> d" using d(2) by (rule dvd_imp_le)
      then have "(y - a) div T + 1 \<le> (x - a) div T"
        using that d assms by (metis (no_types, lifting) Nat.add_diff_assoc2 add.commute div_add_self1 div_le_mono
            le_add_diff_inverse2 less_numeral_extra(3) mem_Collect_eq nat_add_left_cancel_le)
      with that(3) show False by simp
    qed
    with x y eq show "x = y" by (metis (no_types, lifting) le_antisym)
  qed
  moreover have "(\<lambda>i. (i - a) div T) ` ?S \<subseteq> {..<div_ceil L T}"
  proof
    fix q assume "q \<in> (\<lambda>i. (i - a) div T) ` ?S"
    then obtain i where i: "q = (i - a) div T" "i - a < L" by auto
    have "L \<le> div_ceil L T * T"
    proof -
      have "L = L div T * T + L mod T" by simp
      moreover have "L mod T < T" using assms by simp
      ultimately have "L < L div T * T + T" by linarith
      then have "L \<le> (L div T + 1) * T" by (simp only: add_mult_distrib mult_1 less_imp_le)
      moreover have "L \<le> L div T * T" if "L mod T = 0" using that \<open>L = L div T * T + L mod T\<close> by (metis add_0_right le_refl)
      ultimately show ?thesis unfolding div_ceil_def by simp
    qed
    with i(2) have "i - a < div_ceil L T * T" by (rule less_le_trans)
    then have "(i - a) div T < div_ceil L T" by (rule less_mult_imp_div_less)
    then show "q \<in> {..<div_ceil L T}" by (simp only: i(1) lessThan_iff)
  qed
  ultimately have "card ?S \<le> card {..<div_ceil L T}" by (rule card_inj_on_le) simp
  then show ?thesis by simp
qed

lemma card_residues:
  assumes "0 < T" and "finite J"
  shows "card {i. a \<le> i \<and> i < a + L \<and> i mod T \<in> J} \<le> card J * div_ceil L T"
proof -
  have "{i. a \<le> i \<and> i < a + L \<and> i mod T \<in> J} = (\<Union>j\<in>J. {i. a \<le> i \<and> i < a + L \<and> i mod T = j})"
    by auto
  then have "card {i. a \<le> i \<and> i < a + L \<and> i mod T \<in> J} \<le>
      (\<Sum>j\<in>J. card {i. a \<le> i \<and> i < a + L \<and> i mod T = j})"
    using card_UN_le [OF assms(2)] by simp
  also have "\<dots> \<le> (\<Sum>j\<in>J. div_ceil L T)"
    by (intro sum_mono card_residue assms)
  finally show ?thesis by simp
qed

lemma div_ceil_mono: "0 < T \<Longrightarrow> a \<le> b \<Longrightarrow> div_ceil a T \<le> div_ceil b T"
  by (simp add: div_ceil_eq div_le_mono)

section \<open>Interleaving\<close>

text \<open>How many of the first \<open>n\<close> positions go to symbol \<open>j\<close>.\<close>

definition carga :: "nat \<Rightarrow> nat \<Rightarrow> nat \<Rightarrow> nat" where
  "carga T n j = n div T + (if j < n mod T then 1 else 0)"

lemma posiciones:
  assumes "j < T"
  shows "filter (\<lambda>p. p mod T = j) [0..<n] = map (\<lambda>k. j + k * T) [0..<carga T n j]"
proof (induction n)
  case 0
  show ?case by (simp add: carga_def)
next
  case (Suc n)
  show ?case
  proof (cases "n mod T = j")
    case True
    have "n = j + n div T * T" using True by (metis add.commute div_mult_mod_eq)
    moreover have "carga T n j = n div T" using True by (simp add: carga_def)
    moreover have "carga T (Suc n) j = Suc (n div T)"
      using True assms by (auto simp: carga_def mod_Suc div_Suc)
    ultimately show ?thesis using Suc True by simp
  next
    case False
    then have "carga T (Suc n) j = carga T n j"
      using assms by (auto simp: carga_def mod_Suc div_Suc)
    then show ?thesis using Suc False by simp
  qed
qed

lemma carga_ge: "n div T \<le> carga T n j"
  by (simp add: carga_def)

lemma carga_pos: "j < T \<Longrightarrow> k < carga T n j \<Longrightarrow> j + k * T < n"
proof -
  assume j: "j < T" and "k < carga T n j"
  then have "j + k * T \<in> set (map (\<lambda>k. j + k * T) [0..<carga T n j])" by auto
  then show ?thesis unfolding posiciones [OF j, symmetric] by simp
qed

lemma carga_place: "p < n \<Longrightarrow> 0 < T \<Longrightarrow> p div T < carga T n (p mod T)"
proof -
  assume p: "p < n" and T: "0 < T"
  have "p \<in> set (filter (\<lambda>q. q mod T = p mod T) [0..<n])" using p by simp
  then have "p \<in> set (map (\<lambda>k. p mod T + k * T) [0..<carga T n (p mod T)])"
    using posiciones [of "p mod T" T n] T by simp
  then obtain k where k: "k < carga T n (p mod T)" "p = p mod T + k * T" by auto
  have "p div T = k" using k(2) T by (metis add.commute div_mult_self3 div_less mod_less_divisor add.right_neutral less_numeral_extra(3))
  with k show ?thesis by simp
qed

lemma length_intercalar [simp]: "length (intercalar T i bs trozos) = length trozos"
  by (induction T i bs trozos rule: intercalar.induct) simp_all

lemma intercalar_filter:
  assumes "j < T" and "length trozos = T"
  shows "intercalar T i bs trozos ! j =
    trozos ! j @ map (\<lambda>p. bs ! (p - i)) (filter (\<lambda>p. p mod T = j) [i..<i + length bs])"
  using assms
proof (induction T i bs trozos rule: intercalar.induct)
  case (2 T i b bs trozos)
  have up: "[i..<i + length (b # bs)] = i # [Suc i..<Suc i + length bs]"
    using upt_conv_Cons [of i "i + length (b # bs)"] by simp
  have tail: "map (\<lambda>p. (b # bs) ! (p - i)) (filter (\<lambda>p. p mod T = j) [Suc i..<Suc i + length bs]) =
      map (\<lambda>p. bs ! (p - Suc i)) (filter (\<lambda>p. p mod T = j) [Suc i..<Suc i + length bs])"
    by (rule map_cong [OF refl]) (auto simp: nth_Cons')
  have IH: "intercalar T (Suc i) bs (trozos[i mod T := trozos ! (i mod T) @ [b]]) ! j =
      trozos[i mod T := trozos ! (i mod T) @ [b]] ! j @
      map (\<lambda>p. bs ! (p - Suc i)) (filter (\<lambda>p. p mod T = j) [Suc i..<Suc i + length bs])"
    using 2 by simp
  have mod: "i mod T < length trozos" using 2 by simp
  show ?case
  proof (cases "i mod T = j")
    case True
    with mod have "trozos[i mod T := trozos ! (i mod T) @ [b]] ! j = trozos ! j @ [b]" by simp
    with True tail IH show ?thesis unfolding up by simp
  next
    case False
    then show ?thesis using tail IH unfolding up by simp
  qed
qed simp

text \<open>What symbol \<open>j\<close> carries.\<close>

lemma intercalar_nth:
  assumes "j < T"
  shows "intercalar T 0 bs (map h [0..<T]) ! j = h j @ map (\<lambda>k. bs ! (j + k * T)) [0..<carga T (length bs) j]"
  using intercalar_filter [OF assms, of "map h [0..<T]" 0 bs] assms
  by (simp add: posiciones [OF assms] comp_def)

section \<open>Placing\<close>

lemma length_colocar [simp]: "length (colocar T j k bs flujo) = length flujo"
  by (induction T j k bs flujo rule: colocar.induct) (simp_all add: Let_def)

lemma colocar_nth:
  assumes "0 < T" and "j < T" and "length flujo < 2 ^ 64" and "\<forall>i < length bs. j + (k + i) * T < length flujo"
    and "p < length flujo"
  shows "colocar T j k bs flujo ! p =
    (if p mod T = j \<and> k \<le> p div T \<and> p div T < k + length bs then bs ! (p div T - k) else flujo ! p)"
  using assms
proof (induction T j k bs flujo rule: colocar.induct)
  case (1 T j k flujo)
  then show ?case by auto
next
  case (2 T j k b bs flujo)
  have pos: "j + k * T < length flujo" using "2.prems"(4) by (auto dest: spec [of _ 0])
  then have small: "j + k * T < 2 ^ 64" "k * T < 2 ^ 64" using "2.prems"(3) by simp_all
  have rest: "\<forall>i < length bs. j + (Suc k + i) * T < length flujo"
    using "2.prems"(4) by (metis Suc_less_eq add_Suc_shift length_Cons)
  have IH: "colocar T j (Suc k) bs (flujo[j + k * T := b]) ! p =
      (if p mod T = j \<and> Suc k \<le> p div T \<and> p div T < Suc k + length bs then bs ! (p div T - Suc k)
       else flujo[j + k * T := b] ! p)"
    using "2.IH" [of "j + k * T"] "2.prems" small pos rest by simp
  have eq: "p = j + k * T \<longleftrightarrow> p mod T = j \<and> p div T = k"
    using "2.prems"(2) by (metis add.commute div_mult_mod_eq mod_mult_self3 mod_less div_mult_self3 div_less
        add.right_neutral less_nat_zero_code)
  have step: "colocar T j k (b # bs) flujo = colocar T j (Suc k) bs (flujo[j + k * T := b])"
    using small pos by (simp add: Let_def not_le)
  show ?case
  proof (cases "p = j + k * T")
    case True
    then show ?thesis using eq pos by (simp only: step IH) simp
  next
    case False
    then have "\<not> (p mod T = j \<and> p div T = k)" using eq by blast
    then show ?thesis using False by (simp only: step IH) (auto simp: nth_Cons' Suc_le_eq Suc_diff_Suc)
  qed
qed

section \<open>Reading symbols back\<close>

lemma cabecera_trozo_length: "length (cabecera_trozo j T largo) = CABECERA"
  by (simp add: cabecera_trozo_def CABECERA_def)

lemma list_2: "length xs = 2 \<Longrightarrow> \<exists>a b. xs = [a, b]"
  by (auto simp: numeral_2_eq_2 length_Suc_conv)

lemma list_4: "length xs = 4 \<Longrightarrow> \<exists>a b c d. xs = [a, b, c, d]"
  by (auto simp: eval_nat_numeral length_Suc_conv)

lemma leer_cabecera_trozo:
  assumes "j < 65536" and "T < 65536" and "n < 2 ^ 32"
  shows "leer_cabecera (cabecera_trozo j T (of_nat n) @ bs) = Inr \<lparr>cab_indice = j, cab_total = T, cab_largo = n\<rparr>"
proof -
  let ?t = "cabecera_trozo j T (of_nat n) @ bs"
  obtain a b where ab: "u16_to_be (of_nat j) = [a, b]"
    using list_2 [OF length_u16_to_be] by blast
  obtain c d where cd: "u16_to_be (of_nat T) = [c, d]"
    using list_2 [OF length_u16_to_be] by blast
  obtain e f g h where efgh: "u32_to_be (of_nat n) = [e, f, g, h]"
    using list_4 [OF length_u32_to_be] by blast
  have t: "?t = [papel_VERSION, a, b, c, d, e, f, g, h] @ bs"
    by (simp add: cabecera_trozo_def ab cd efgh)
  have "u16_from_be [a, b] = of_nat j" "u16_from_be [c, d] = of_nat T" "u32_from_be [e, f, g, h] = of_nat n"
    by (simp_all flip: ab cd efgh)
  moreover have "unat (of_nat j :: u16) = j" "unat (of_nat T :: u16) = T" "unat (of_nat n :: u32) = n"
    using assms by (simp_all add: unsigned_of_nat take_bit_nat_eq_self)
  ultimately show ?thesis unfolding t by (simp add: leer_cabecera_def CABECERA_def)
qed

text \<open>All the symbols with indices \<open>js\<close>: the places of the others keep what they had.\<close>

lemma unir_trozos:
  assumes T: "0 < T" "T < 65536" and n: "n = length xs" "n < 2 ^ 32"
    and tr: "\<And>j. j < T \<Longrightarrow> trozos ! j = cabecera_trozo j T (of_nat n) @ map (\<lambda>k. xs ! (j + k * T)) [0..<carga T n j]"
    and c0: "cab_total c0 = T" "cab_largo c0 = n"
  shows "\<lbrakk>distinct js; \<forall>j \<in> set js. j < T; length vistos = T; \<forall>j \<in> set js. \<not> vistos ! j; length flujo = n\<rbrakk> \<Longrightarrow>
    unir c0 (map ((!) trozos) js) flujo vistos =
      Inr (map (\<lambda>p. if p mod T \<in> set js then xs ! p else flujo ! p) [0..<n])"
proof (induction js arbitrary: flujo vistos)
  case Nil
  then show ?case using map_nth [of flujo] by simp
next
  case (Cons j js)
  have j: "j < T" "j < 65536" using Cons.prems T by auto
  let ?bs = "map (\<lambda>k. xs ! (j + k * T)) [0..<carga T n j]"
  let ?f = "colocar T j 0 ?bs flujo"
  have cab: "leer_cabecera (trozos ! j) = Inr \<lparr>cab_indice = j, cab_total = T, cab_largo = n\<rparr>"
    using leer_cabecera_trozo [OF j(2) T(2) n(2)] tr [OF j(1)] by simp
  have body: "drop CABECERA (trozos ! j) = ?bs"
    using cabecera_trozo_length [of j T "of_nat n"] tr [OF j(1)] by simp
  have place: "?f ! p = (if p mod T = j then xs ! p else flujo ! p)" if "p < n" for p
  proof -
    have all: "\<forall>i < length ?bs. j + (0 + i) * T < length flujo"
      using carga_pos [OF j(1), of _ n] Cons.prems(5) by simp
    have len: "length flujo < 2 ^ 64" "p < length flujo" using Cons.prems(5) n(2) that by simp_all
    have "?f ! p = (if p mod T = j \<and> 0 \<le> p div T \<and> p div T < 0 + length ?bs then ?bs ! (p div T - 0) else flujo ! p)"
      by (rule colocar_nth [OF T(1) j(1) len(1) all len(2)])
    moreover have "?bs ! (p div T) = xs ! p" if "p mod T = j" "p div T < carga T n j"
    proof -
      have "j + p div T * T = p" using that(1) by (metis add.commute div_mult_mod_eq)
      then show ?thesis using that(2) by simp
    qed
    moreover have "p mod T = j \<Longrightarrow> p div T < carga T n j" using carga_place [OF that T(1)] by blast
    ultimately show ?thesis by auto
  qed
  have "unir c0 (map ((!) trozos) js) ?f (vistos[j := True]) =
      Inr (map (\<lambda>p. if p mod T \<in> set js then xs ! p else ?f ! p) [0..<n])"
    using Cons.prems by (intro Cons.IH) (auto simp: nth_list_update)
  also have "map (\<lambda>p. if p mod T \<in> set js then xs ! p else ?f ! p) [0..<n] =
      map (\<lambda>p. if p mod T \<in> set (j # js) then xs ! p else flujo ! p) [0..<n]"
    using place by (intro map_cong) auto
  finally show ?case
    using Cons.prems(4) cab c0 j(1) body by simp
qed

section \<open>Correcting\<close>

text \<open>At most \<open>e\<close> errors in every window of \<open>w\<close> bytes.\<close>

definition ventanas :: "nat \<Rightarrow> nat \<Rightarrow> bytes \<Rightarrow> bytes \<Rightarrow> bool" where
  "ventanas w e xs ys \<longleftrightarrow>
     (\<forall>a L. L \<le> w \<longrightarrow> a + L \<le> length xs \<longrightarrow> hdist (take L (drop a xs)) (take L (drop a ys)) \<le> e)"

lemma ventanas_drop: "ventanas w e xs ys \<Longrightarrow> n \<le> length xs \<Longrightarrow> ventanas w e (drop n xs) (drop n ys)"
  unfolding ventanas_def
proof (intro allI impI)
  fix a L
  assume v: "\<forall>a L. L \<le> w \<longrightarrow> a + L \<le> length xs \<longrightarrow> hdist (take L (drop a xs)) (take L (drop a ys)) \<le> e"
    and n: "n \<le> length xs" and L: "L \<le> w" "a + L \<le> length (drop n xs)"
  have "(n + a) + L \<le> length xs" using n L by simp
  with v L(1) have "hdist (take L (drop (n + a) xs)) (take L (drop (n + a) ys)) \<le> e" by blast
  then show "hdist (take L (drop a (drop n xs))) (take L (drop a (drop n ys))) \<le> e"
    by (simp add: add.commute)
qed

lemma rs_okD:
  assumes "rs_ok R" and "2 \<le> p" and "p \<le> 128" and "length d + p \<le> 255"
  shows "length (rs_encode R p d) = length d + p" "take (length d) (rs_encode R p d) = d"
    "length r = length d + p \<Longrightarrow> hdist r (rs_encode R p d) \<le> p div 2 \<Longrightarrow> rs_correct R p r = Some (Some d)"
proof -
  obtain e where "length e = p" "rs_encode R p d = d @ e" using assms unfolding rs_ok_def by blast
  then show "length (rs_encode R p d) = length d + p" "take (length d) (rs_encode R p d) = d" by simp_all
  show "rs_correct R p r = Some (Some d)" if "length r = length d + p" "hdist r (rs_encode R p d) \<le> p div 2"
    using assms that unfolding rs_ok_def by blast
qed

lemma recover_loop_ok:
  assumes R: "rs_ok R" and p: "p = unat parity" "2 \<le> p" "p \<le> 128"
  shows "enc = concat (map (rs_encode R p) (chunks (255 - p) data)) \<Longrightarrow> length rb = length enc \<Longrightarrow>
    ventanas 255 (p div 2) rb enc \<Longrightarrow> recover_loop R parity rb (length data) out = Some (Some (out @ data))"
proof (induction "length data" arbitrary: data enc rb out rule: less_induct)
  case less
  have ok: "parity \<le> PARIDAD_MAXIMA" using p by (simp add: word_le_nat_alt PARIDAD_MAXIMA_def)
  show ?case
  proof (cases "data = []")
    case True
    then show ?thesis using ok by (simp add: recover_loop.simps)
  next
    case False
    let ?c = "255 - p"
    let ?d = "take ?c data"
    let ?bl = "length ?d + p"
    let ?enc = "concat (map (rs_encode R p) (chunks ?c (drop ?c data)))"
    have c: "0 < ?c" "length ?d + p \<le> 255" using p by simp_all
    note d = rs_okD [OF R p(2,3) c(2)]
    have enc: "enc = rs_encode R p ?d @ ?enc"
      using less.prems(1) chunks_step [OF False c(1)] by simp
    have len: "?bl \<le> length rb" using less.prems(2) d(1) enc by simp
    have "hdist (take ?bl (drop 0 rb)) (take ?bl (drop 0 enc)) \<le> p div 2"
      using less.prems(3) len c(2) unfolding ventanas_def by (metis add_0)
    moreover have "take ?bl enc = rs_encode R p ?d" using enc d(1) by simp
    ultimately have corr: "rs_correct R p (take ?bl rb) = Some (Some ?d)"
      using len by (intro d(3)) simp_all
    have IH: "recover_loop R parity (drop ?bl rb) (length (drop ?c data)) (out @ ?d) = Some (Some ((out @ ?d) @ drop ?c data))"
    proof (rule less.hyps)
      show "length (drop ?c data) < length data"
        unfolding length_drop by (rule diff_less [OF c(1)]) (use False in simp)
      show "length (drop ?bl rb) = length ?enc" using less.prems(2) d(1) enc by simp
      have "drop ?bl enc = ?enc" using enc d(1) by simp
      then show "ventanas 255 (p div 2) (drop ?bl rb) ?enc" using ventanas_drop [OF less.prems(3) len] by simp
    qed simp
    have m: "min (length data) ?c = length ?d" "length data - length ?d = length (drop ?c data)" by simp_all
    have "recover_loop R parity rb (length data) out =
        recover_loop R parity (drop ?bl rb) (length data - length ?d) (out @ take (length ?d) ?d)"
      using ok False len [THEN leD] corr
      by (subst recover_loop.simps) (simp only: Let_def p(1) [symmetric] m if_True if_False length_0_conv
          option.case simp_thms less_irrefl le_refl take_all)
    then show ?thesis using IH by (simp only: m(2) take_all le_refl append_assoc append_take_drop_id)
  qed
qed

lemma clamp_range: "2 \<le> unat (clamp p) \<and> unat (clamp p) \<le> 128 \<and> (unat p \<le> 128 \<longrightarrow> unat p \<le> unat (clamp p))"
  by (auto simp: clamp_def PARIDAD_MAXIMA_def word_less_nat_alt word_le_nat_alt)

lemma length_u32_to_le [simp]: "length (u32_to_le x) = 4"
  by (simp add: u32_to_le_def)

lemma u32_from_to_le: "u32_from_le (u32_to_le x) = x"
  using unat_u32_lt [of x] by (simp add: u32_from_le_def u32_to_le_def nat_of_le_le_bytes)

lemma length_protect:
  assumes R: "rs_ok R"
  shows "15 + length data \<le> length (protect R data parity)"
proof -
  let ?p = "unat (clamp parity)"
  have p: "2 \<le> ?p" "?p \<le> 128" using clamp_range by auto
  have c: "0 < 255 - ?p" using p by simp
  have enc: "length x \<le> length (rs_encode R ?p x)" if "x \<in> set (chunks (255 - ?p) data)" for x
  proof -
    have "length x + ?p \<le> 255" using length_in_chunks [OF that] p by linarith
    then show ?thesis using rs_okD(1) [OF R p] by simp
  qed
  have "length data = length (concat (chunks (255 - ?p) data))" using c by (simp add: concat_chunks)
  also have "\<dots> \<le> length (concat (map (rs_encode R ?p) (chunks (255 - ?p) data)))"
    using enc by (induction "chunks (255 - ?p) data" arbitrary: data) (auto simp: length_concat intro!: sum_list_mono)
  finally show ?thesis
    using rs_okD(1) [OF R, of 10 "clamp parity # u32_to_le (of_nat (length data))"]
    by (simp add: protect_def Let_def HEADER_PARITY_def)
qed

text \<open>Damage within the header's and the blocks' capacity is undone.\<close>

lemma recover_protect:
  assumes R: "rs_ok R" and len: "length data < 2 ^ 32" and rb: "length rb = length (protect R data parity)"
    and h: "hdist (take 15 rb) (take 15 (protect R data parity)) \<le> 5"
    and v: "ventanas 255 (unat (clamp parity) div 2) rb (protect R data parity)"
  shows "recover R rb = Some (Some data)"
proof -
  let ?p = "unat (clamp parity)"
  let ?cab = "clamp parity # u32_to_le (of_nat (length data))"
  let ?enc = "concat (map (rs_encode R ?p) (chunks (255 - ?p) data))"
  have p: "2 \<le> ?p" "?p \<le> 128" using clamp_range by auto
  have hb: "(2 :: nat) \<le> 10" "(10 :: nat) \<le> 128" "length ?cab + 10 \<le> 255" by simp_all
  note d = rs_okD [OF R hb]
  have prot: "protect R data parity = rs_encode R 10 ?cab @ ?enc"
    by (simp add: protect_def Let_def HEADER_PARITY_def)
  have l15: "length (rs_encode R 10 ?cab) = 15" using d(1) by simp
  have big: "15 + length data \<le> length rb" using length_protect [OF R] rb by simp
  have "rs_correct R 10 (take 15 rb) = Some (Some ?cab)"
    using h big l15 by (intro d(3)) (simp_all add: prot)
  moreover have "recover_loop R (clamp parity) (drop 15 rb) (length data) [] = Some (Some data)"
  proof -
    have "15 \<le> length rb" using big by simp
    from ventanas_drop [OF v this] have "ventanas 255 (?p div 2) (drop 15 rb) ?enc" using l15 by (simp add: prot)
    moreover have "length (drop 15 rb) = length ?enc" using rb l15 by (simp add: prot)
    ultimately show ?thesis using recover_loop_ok [OF R refl p refl, of "drop 15 rb" data "[]"] by simp
  qed
  moreover have "2 \<le> clamp parity \<and> clamp parity \<le> PARIDAD_MAXIMA"
    using p by (simp add: word_le_nat_alt PARIDAD_MAXIMA_def)
  moreover have "unat (u32_from_le (slice 1 5 ?cab)) = length data"
    using len by (simp add: slice_Cons u32_from_to_le unat_of_nat_u32)
  ultimately show ?thesis
    using big by (simp add: recover_def HEADER_BLOCK_def ecc_HEADER_def HEADER_PARITY_def Let_def)
qed

section \<open>Losses\<close>

lemma tolerados_less:
  assumes "0 < T"
  shows "simbolos_perdidos_tolerados T paridad < T"
proof (cases "15 \<le> T")
  case True
  then show ?thesis by (simp add: simbolos_perdidos_tolerados_def CABECERA_ECC_def CABECERA_ECC_CORRIGE_def Let_def)
next
  case False
  have "5 div div_ceil 15 T < T"
  proof -
    consider "6 \<le> T" | "T = 1 \<or> T = 2 \<or> T = 3 \<or> T = 4 \<or> T = 5" using assms by linarith
    then show ?thesis
    proof cases
      case 1
      then show ?thesis using div_le_dividend [of 5 "div_ceil 15 T"] by linarith
    qed (auto simp: div_ceil_def)
  qed
  then show ?thesis
    using False assms
    by (simp add: simbolos_perdidos_tolerados_def CABECERA_ECC_def CABECERA_ECC_CORRIGE_def Let_def min_less_iff_disj)
qed

lemma tolerados_bounds:
  assumes "0 < T" and "s \<le> simbolos_perdidos_tolerados T paridad"
  shows "s * div_ceil 255 T \<le> unat paridad div 2" "s * div_ceil 15 T \<le> 5"
proof -
  let ?q = "div_ceil 255 T"
  have q: "1 \<le> ?q" using assms(1) by (simp add: div_ceil_eq div_greater_zero_iff Suc_le_eq)
  have "s \<le> unat paridad div 2 div ?q"
    using assms q by (simp add: simbolos_perdidos_tolerados_def Let_def BLOQUE_RS_def max_absorb1)
  then have "s * ?q \<le> unat paridad div 2 div ?q * ?q" by (rule mult_le_mono1)
  also have "\<dots> \<le> unat paridad div 2" by (rule div_times_less_eq_dividend)
  finally show "s * ?q \<le> unat paridad div 2" .
  show "s * div_ceil 15 T \<le> 5"
  proof (cases "15 \<le> T")
    case True
    then have "div_ceil 15 T = 1"
      by (cases "T = 15") (simp_all add: div_ceil_def)
    moreover have "s \<le> 5" using assms True
      by (simp add: simbolos_perdidos_tolerados_def Let_def CABECERA_ECC_def CABECERA_ECC_CORRIGE_def)
    ultimately show ?thesis by simp
  next
    case False
    then have "s \<le> 5 div div_ceil 15 T"
      using assms by (simp add: simbolos_perdidos_tolerados_def Let_def CABECERA_ECC_def CABECERA_ECC_CORRIGE_def)
    then have "s * div_ceil 15 T \<le> 5 div div_ceil 15 T * div_ceil 15 T" by (rule mult_le_mono1)
    also have "\<dots> \<le> 5" by (rule div_times_less_eq_dividend)
    finally show ?thesis .
  qed
qed

text \<open>The symbols of a package.\<close>

lemma empaquetar_Inr:
  assumes R: "rs_ok R" and e: "empaquetar R data cap par = Inr trozos" and n: "length (protect R data par) < 2 ^ 32"
  obtains T where "0 < T" "T < 65536" "length trozos = T" "unat par \<le> 128"
    "\<And>j. j < T \<Longrightarrow> trozos ! j = cabecera_trozo j T (of_nat (length (protect R data par))) @
      map (\<lambda>k. protect R data par ! (j + k * T)) [0..<carga T (length (protect R data par)) j]"
proof -
  let ?n = "length (protect R data par)"
  let ?T = "max (div_ceil ?n (cap - CABECERA)) 1"
  have "\<not> cap \<le> CABECERA" "\<not> PARIDAD_MAXIMA < par" "\<not> 65535 < ?T"
      and t: "trozos = intercalar ?T 0 (protect R data par) (map (\<lambda>j. cabecera_trozo j ?T (of_nat ?n)) [0..<?T])"
    using e by (auto simp: empaquetar_def Let_def split: if_splits)
  then show ?thesis
    using that [of ?T] intercalar_nth
    by (simp add: word_less_nat_alt PARIDAD_MAXIMA_def not_less)
qed

text \<open>The load of the fullest symbol bounds the length of the stream.\<close>

lemma techo_ok:
  assumes "0 < T" and "n < 2 ^ 32" and "finite S" and "m \<in> S" and "n div T \<le> m"
  shows "n \<le> saturar (T * saturar (Max S + 1))"
proof -
  have "n = n div T * T + n mod T" by simp
  moreover have "n mod T < T" using assms(1) by simp
  ultimately have "n < n div T * T + T" by linarith
  then have "n < T * (n div T + 1)" by (metis add_mult_distrib2 mult.commute mult.right_neutral)
  also have "\<dots> \<le> T * (Max S + 1)" using Max_ge [OF assms(3,4)] assms(5) by simp
  finally have "n \<le> T * (Max S + 1)" by simp
  moreover have "n \<le> T * (2 ^ 64 - 1)"
  proof -
    have "n \<le> 2 ^ 64 - 1" using assms(2) by simp
    also have "\<dots> \<le> T * (2 ^ 64 - 1)" using assms(1) by simp
    finally show ?thesis .
  qed
  ultimately have "n \<le> T * saturar (Max S + 1)" by (auto simp: saturar_def min_def)
  moreover have "n \<le> 2 ^ 64 - 1" using assms(2) by simp
  ultimately show ?thesis by (simp only: saturar_def min.bounded_iff)
qed

text \<open>What is left of the stream, and how far it is from the one that was cut.\<close>

lemma supervivientes:
  assumes T: "0 < T" and js: "set js \<subseteq> {..<T}" and L: "L \<le> w"
    and flujo: "flujo = map (\<lambda>p. if p mod T \<in> set js then xs ! p else 0) [0..<length xs]"
    and a: "a + L \<le> length xs"
  shows "hdist (take L (drop a flujo)) (take L (drop a xs)) \<le> (T - card (set js)) * div_ceil w T"
proof -
  let ?J = "{..<T} - set js"
  let ?u = "take L (drop a flujo)"
  let ?v = "take L (drop a xs)"
  have len: "length ?u = L" "length ?v = L" using a flujo by simp_all
  have "{i. i < length ?u \<and> ?u ! i \<noteq> ?v ! i} \<subseteq> (\<lambda>i. i - a) ` {i. a \<le> i \<and> i < a + L \<and> i mod T \<in> ?J}"
  proof
    fix i assume "i \<in> {i. i < length ?u \<and> ?u ! i \<noteq> ?v ! i}"
    then have l: "i < L" and ne: "?u ! i \<noteq> ?v ! i" unfolding mem_Collect_eq len(1) by (rule conjunct1, rule conjunct2)
    have lf: "a \<le> length flujo" "a \<le> length xs" using a flujo by simp_all
    have "?u ! i = flujo ! (a + i)" "?v ! i = xs ! (a + i)"
      using l lf by (simp_all only: nth_take nth_drop)
    with l ne have i: "i < L" "flujo ! (a + i) \<noteq> xs ! (a + i)" by (simp_all only: simp_thms)
    then have "(a + i) mod T \<notin> set js" using a flujo by (auto split: if_splits)
    then have "a + i \<in> {i. a \<le> i \<and> i < a + L \<and> i mod T \<in> ?J}" using i(1) T by simp
    then show "i \<in> (\<lambda>i. i - a) ` {i. a \<le> i \<and> i < a + L \<and> i mod T \<in> ?J}"
      by (metis (no_types, lifting) add_diff_cancel_left' image_eqI)
  qed
  then have "hdist ?u ?v \<le> card ((\<lambda>i. i - a) ` {i. a \<le> i \<and> i < a + L \<and> i mod T \<in> ?J})"
    using len by (simp only: hdist_card) (rule card_mono, simp_all)
  also have "\<dots> \<le> card {i. a \<le> i \<and> i < a + L \<and> i mod T \<in> ?J}" by (rule card_image_le) simp
  also have "\<dots> \<le> card ?J * div_ceil L T" by (rule card_residues [OF T]) simp
  also have "card ?J = T - card (set js)" using js by (simp add: card_Diff_subset)
  also have "(T - card (set js)) * div_ceil L T \<le> (T - card (set js)) * div_ceil w T"
    using div_ceil_mono [OF T L] by (rule mult_le_mono2)
  finally show ?thesis .
qed

lemma reensamblar_pasos:
  assumes "leer_cabecera (hd trozos) = Inr c0" and "trozos \<noteq> []" and "0 < cab_total c0" and "0 < cab_largo c0"
    and "cab_largo c0 \<le> saturar (cab_total c0 * saturar (Max (set (map (\<lambda>t. length t - CABECERA) trozos)) + 1))"
    and "unir c0 trozos (replicate (cab_largo c0) 0) (replicate (cab_total c0) False) = Inr flujo"
    and "recover R flujo = Some (Some d)"
  shows "reensamblar R trozos = Some (Inr d)"
proof (cases trozos)
  case (Cons t ts)
  then have "leer_cabecera t = Inr c0" using assms(1) by simp
  then show ?thesis
    using assms(3,4,6,7) assms(5) [THEN leD] unfolding reensamblar_def Cons list.case Let_def
    by (simp only: sum.case option.case if_False neq0_conv [symmetric] simp_thms)
qed (use assms(2) in simp)

lemma reensamblar_supervivientes:
  assumes R: "rs_ok R" and e: "empaquetar R datos cap par = Inr trozos"
    and small: "length datos < 2 ^ 32" "length (protect R datos par) < 2 ^ 32"
    and js: "distinct js" "set js \<subseteq> {..<length trozos}"
    and lost: "length trozos - length js \<le> simbolos_perdidos_tolerados (length trozos) par"
  shows "reensamblar R (map ((!) trozos) js) = Some (Inr datos)"
proof -
  let ?xs = "protect R datos par"
  let ?n = "length ?xs"
  obtain T where T: "0 < T" "T < 65536" "length trozos = T" "unat par \<le> 128"
    and tr: "\<And>j. j < T \<Longrightarrow> trozos ! j = cabecera_trozo j T (of_nat ?n) @
      map (\<lambda>k. ?xs ! (j + k * T)) [0..<carga T ?n j]"
    using empaquetar_Inr [OF R e small(2)] by metis
  let ?c0 = "\<lparr>cab_indice = hd js, cab_total = T, cab_largo = ?n\<rparr>"
  let ?flujo = "map (\<lambda>p. if p mod T \<in> set js then ?xs ! p else 0) [0..<?n]"
  have n15: "15 \<le> ?n" using length_protect [OF R, of datos par] by simp
  have less: "T - length js < T" using lost tolerados_less [OF T(1), of par] T(3) by simp
  then obtain j rest where cons: "js = j # rest" by (cases js) simp_all
  have lt: "i < T" if "i \<in> set js" for i using js(2) that T(3) by auto
  have j: "j < T" "j < 65536" using lt [of j] T(2) cons by simp_all
  have primero: "leer_cabecera (trozos ! j) = Inr ?c0"
    using leer_cabecera_trozo [OF j(2) T(2) small(2)] tr [OF j(1)] cons by simp
  have techo: "?n \<le> saturar (T * saturar (Max (set (map (\<lambda>t. length t - CABECERA) (map ((!) trozos) js))) + 1))"
  proof (rule techo_ok [OF T(1) small(2)])
    show "length (trozos ! j) - CABECERA \<in> set (map (\<lambda>t. length t - CABECERA) (map ((!) trozos) js))"
      using cons by simp
    show "?n div T \<le> length (trozos ! j) - CABECERA"
      using tr [OF j(1)] carga_ge [of ?n T j] by (simp add: cabecera_trozo_length)
  qed simp
  have unir: "unir ?c0 (map ((!) trozos) js) (replicate ?n 0) (replicate T False) = Inr ?flujo"
  proof -
    have "unir ?c0 (map ((!) trozos) js) (replicate ?n 0) (replicate T False) =
        Inr (map (\<lambda>p. if p mod T \<in> set js then ?xs ! p else replicate ?n 0 ! p) [0..<?n])"
      by (rule unir_trozos [OF T(1,2) refl small(2) tr]) (use js(1) lt in auto)
    also have "map (\<lambda>p. if p mod T \<in> set js then ?xs ! p else replicate ?n 0 ! p) [0..<?n] = ?flujo"
      by (rule map_cong) simp_all
    finally show ?thesis .
  qed
  let ?s = "T - card (set js)"
  have s: "?s \<le> simbolos_perdidos_tolerados T par" using lost T(3) distinct_card [OF js(1)] by simp
  have sub: "set js \<subseteq> {..<T}" using js(2) T(3) by simp
  have "recover R ?flujo = Some (Some datos)"
  proof (rule recover_protect [OF R small(1)])
    show "length ?flujo = ?n" by simp
    have "hdist (take 15 (drop 0 ?flujo)) (take 15 (drop 0 ?xs)) \<le> ?s * div_ceil 15 T"
      by (rule supervivientes [OF T(1) sub le_refl refl]) (use n15 in simp)
    then show "hdist (take 15 ?flujo) (take 15 ?xs) \<le> 5"
      using tolerados_bounds(2) [OF T(1) s] by (simp only: drop_0)
    show "ventanas 255 (unat (clamp par) div 2) ?flujo ?xs"
      unfolding ventanas_def
    proof (intro allI impI)
      fix a L :: nat
      assume L: "L \<le> 255" and a: "a + L \<le> length ?flujo"
      have "hdist (take L (drop a ?flujo)) (take L (drop a ?xs)) \<le> ?s * div_ceil 255 T"
        by (rule supervivientes [OF T(1) sub L refl]) (use a in simp)
      also have "\<dots> \<le> unat par div 2" by (rule tolerados_bounds(1) [OF T(1) s])
      also have "\<dots> \<le> unat (clamp par) div 2" using clamp_range [of par] T(4) by (simp add: div_le_mono)
      finally show "hdist (take L (drop a ?flujo)) (take L (drop a ?xs)) \<le> unat (clamp par) div 2" .
    qed
  qed
  moreover have "leer_cabecera (hd (map ((!) trozos) js)) = Inr ?c0" using primero cons by simp
  moreover have "cab_total ?c0 = T" "cab_largo ?c0 = ?n" by simp_all
  ultimately show ?thesis
    using techo unir T(1) n15 cons by (intro reensamblar_pasos [of _ ?c0 ?flujo]) (simp_all only: , simp_all)
qed

section \<open>Hostile input\<close>

lemma rs_sanoD:
  assumes "rs_sano R" and "2 \<le> p" and "p \<le> 128" and "length r = n + p" and "n + p \<le> 255"
  obtains "rs_correct R p r = Some None" | d where "rs_correct R p r = Some (Some d)" "length d = n"
proof -
  have "p \<le> length r" "length r \<le> 255" using assms by simp_all
  with assms(1-3) obtain x where x: "rs_correct R p r = Some x" "\<forall>d. x = Some d \<longrightarrow> length d = length r - p"
    unfolding rs_sano_def by blast
  show ?thesis
  proof (cases x)
    case None
    then show ?thesis using x that(1) by simp
  next
    case (Some d)
    then show ?thesis using x that(2) assms(4) by simp
  qed
qed

lemma recover_loop_sano:
  assumes "rs_sano R" and "2 \<le> parity" and "parity \<le> PARIDAD_MAXIMA"
  shows "recover_loop R parity body remaining out \<noteq> None"
  using assms
proof (induction R parity body remaining out rule: recover_loop.induct)
  case (1 R parity body remaining salida)
  let ?d = "min remaining (255 - unat parity)"
  have p: "2 \<le> unat parity" "unat parity \<le> 128"
    using "1.prems"(2,3) by (simp_all add: word_le_nat_alt PARIDAD_MAXIMA_def)
  have d: "?d + unat parity \<le> 255" using p by simp
  show ?case
  proof (cases "remaining = 0 \<or> length body < ?d + unat parity")
    case True
    then show ?thesis using "1.prems"(3) by (subst recover_loop.simps) (auto simp: Let_def)
  next
    case False
    then have "length (take (?d + unat parity) body) = ?d + unat parity" by simp
    from rs_sanoD [OF "1.prems"(1) p this d] show ?thesis
    proof cases
      case 1
      then show ?thesis using False "1.prems"(3) by (subst recover_loop.simps) (simp add: Let_def)
    next
      case (2 corrected)
      have "recover_loop R parity (drop (?d + unat parity) body) (remaining - ?d) (salida @ take ?d corrected) \<noteq> None"
        using "1.IH" [OF "1.prems"(3) _ refl refl refl _ 2(1) refl _ "1.prems"] False 2(2) by simp
      then show ?thesis using False 2 "1.prems"(3) by (subst recover_loop.simps) (simp add: Let_def)
    qed
  qed
qed

lemma recover_sano:
  assumes R: "rs_sano R"
  shows "recover R xs \<noteq> None"
proof (cases "length xs < 15")
  case True
  then show ?thesis by (simp add: recover_def HEADER_BLOCK_def ecc_HEADER_def HEADER_PARITY_def)
next
  case False
  have l: "length (take 15 xs) = 5 + 10" using False by simp
  have "(2::nat) \<le> 10" "(10::nat) \<le> 128" "(5::nat) + 10 \<le> 255" by simp_all
  from rs_sanoD [OF R this(1,2) l this(3)] show ?thesis
    by cases (use recover_loop_sano [OF R] False in
      \<open>auto simp: recover_def HEADER_BLOCK_def ecc_HEADER_def HEADER_PARITY_def Let_def\<close>)
qed

text \<open>
  C17. Any symbols of a package, in any order and as many as \<^verbatim>\<open>simbolos_perdidos_tolerados\<close> fewer
  than were printed, give back the data: the interleaving spreads the lost symbols over the
  Reed-Solomon blocks and over the header so that none exceeds its correcting capacity.
\<close>
theorem papel_tolerates_losses:
  assumes "rs_ok R" and "empaquetar R datos cap par = Inr trozos"
    and "length datos < 2 ^ 32" and "length (protect R datos par) < 2 ^ 32"
    and "distinct js" and "set js \<subseteq> {..<length trozos}"
    and "length trozos - length js \<le> simbolos_perdidos_tolerados (length trozos) par"
  shows "reensamblar R (map ((!) trozos) js) = Some (Inr datos)"
  using assms by (rule reensamblar_supervivientes)

text \<open>
  The reassembly of arbitrary symbols and the recovery of an arbitrary stream never panic: a
  hostile sheet of paper gives an error or data.
\<close>
lemma papel_never_panics:
  assumes "rs_sano R"
  shows "(\<exists>r. reensamblar R trozos = Some r) \<and> (\<exists>r. recover R xs = Some r)"
proof -
  have rec: "\<exists>r. recover R ys = Some r" for ys using recover_sano [OF assms, of ys] by auto
  moreover have "\<exists>r. reensamblar R trozos = Some r"
  proof (cases trozos)
    case (Cons t ts)
    obtain r where "recover R ys = Some (r ys)" for ys using rec by metis
    then show ?thesis using Cons
      by (auto simp: reensamblar_def Let_def split: sum.splits option.splits)
  qed (simp add: reensamblar_def)
  ultimately show ?thesis by blast
qed

end
