(* ===== verification/Reed.thy ===== *)
theory Reed
  imports Papel GF256 Interpolation
begin

text \<open>
  A concrete systematic Reed-Solomon code: the message gives the values of a polynomial at the first
  points of the field and the parity its values at the next ones; the decoder looks for the message
  within the correcting distance.  It meets what \<open>Papel\<close> asks of the codec, and the properties of
  packages are applied to it.
\<close>

definition punto :: "nat \<Rightarrow> gf" where
  "punto i = gf (of_nat i)"

definition rs_valor :: "bytes \<Rightarrow> gf \<Rightarrow> gf" where
  "rs_valor d x =
     (\<Sum>a \<in> set (map punto [0..<length d]). gf (d ! unat (byte_of a)) * lagrange_basis (set (map punto [0..<length d])) a x)"

definition rs_cifrar :: "nat \<Rightarrow> bytes \<Rightarrow> bytes" where
  "rs_cifrar p d = d @ map (\<lambda>i. byte_of (rs_valor d (punto (length d + i)))) [0..<p]"

definition todos_bytes :: bytes where
  "todos_bytes = map of_nat [0..<256]"

definition rs_corregir :: "nat \<Rightarrow> bytes \<Rightarrow> bytes option option" where
  "rs_corregir p r = Some (find (\<lambda>d. hdist r (rs_cifrar p d) \<le> p div 2)
     (List.n_lists (length r - p) todos_bytes))"

definition reed :: reed_solomon where
  "reed = \<lparr>rs_encode = rs_cifrar, rs_correct = rs_corregir\<rparr>"

lemma all_bytes [simp]: "set todos_bytes = UNIV"
proof -
  have "b \<in> of_nat ` {0..<256}" for b :: u8
  proof
    show "b = of_nat (unat b)" by simp
    show "unat b \<in> {0..<256}" using unsigned_less [of b] by simp
  qed
  then show ?thesis unfolding todos_bytes_def by (auto simp del: upt_rec_numeral)
qed

lemma punto_inj: "inj_on punto {..<256}"
  by (rule inj_onI) (auto simp: punto_def dest!: arg_cong [of _ _ unat] simp: unsigned_of_nat take_bit_nat_eq_self)

lemma unat_punto: "i < 256 \<Longrightarrow> unat (byte_of (punto i)) = i"
  by (simp add: punto_def unsigned_of_nat take_bit_nat_eq_self)

lemma card_puntos: "n \<le> 256 \<Longrightarrow> card (set (map punto [0..<n])) = n"
  using card_image [OF inj_on_subset [OF punto_inj, of "{0..<n}"]] by (simp add: lessThan_atLeast0 subset_iff)

text \<open>Every codeword lists the values of a polynomial with as many coefficients as the message has bytes.\<close>

lemma rs_valor_poly: "length d \<le> 256 \<Longrightarrow> poly_fun (length d) (rs_valor d)"
  unfolding rs_valor_def by (rule lagrange_interpolates) (simp_all only: card_puntos finite_set)

lemma rs_valor_at: "i < length d \<Longrightarrow> length d \<le> 256 \<Longrightarrow> rs_valor d (punto i) = gf (d ! i)"
  unfolding rs_valor_def
  by (subst lagrange_sum) (auto simp: unat_punto)

lemma rs_cifrar_nth:
  assumes "length d + p \<le> 255" and "i < length d + p"
  shows "rs_cifrar p d ! i = byte_of (rs_valor d (punto i))"
proof (cases "i < length d")
  case True
  then show ?thesis using rs_valor_at [OF True] assms by (simp add: rs_cifrar_def nth_append)
next
  case False
  then have "i - length d < p" "length d + (i - length d) = i" using assms by simp_all
  then show ?thesis using False by (simp add: rs_cifrar_def nth_append del: upt_rec_numeral)
qed

lemma length_rs_cifrar [simp]: "length (rs_cifrar p d) = length d + p"
  by (simp add: rs_cifrar_def)

text \<open>Two codewords at distance at most \<open>p\<close> are one.\<close>

lemma rs_cifrar_distancia:
  assumes len: "length d = length d'" "length d + p \<le> 255"
    and h: "hdist (rs_cifrar p d) (rs_cifrar p d') \<le> p"
  shows "d = d'"
proof -
  let ?n = "length d + p"
  let ?c = "rs_cifrar p d" and ?c' = "rs_cifrar p d'"
  let ?D = "{i. i < length ?c \<and> ?c ! i \<noteq> ?c' ! i}"
  let ?I = "{..<?n} - ?D"
  have "card ?D \<le> p" using h len(1) by (simp only: hdist_card length_rs_cifrar)
  moreover have "?D \<subseteq> {..<?n}" by auto
  ultimately have I: "length d \<le> card ?I" by (simp add: card_Diff_subset)
  have "?I \<subseteq> {..<256}" using len(2) by auto
  then have "card (punto ` ?I) = card ?I" by (rule card_image [OF inj_on_subset [OF punto_inj]])
  then have cd: "length d \<le> card (punto ` ?I)" using I by simp
  have agree: "rs_valor d x = rs_valor d' x" if x: "x \<in> punto ` ?I" for x
  proof -
    obtain i where i: "x = punto i" "i < ?n" "?c ! i = ?c' ! i" using x len by auto
    then have "byte_of (rs_valor d x) = byte_of (rs_valor d' x)"
      using rs_cifrar_nth [of d p i] rs_cifrar_nth [of d' p i] len by simp
    then show ?thesis by (simp only: gf_eq_iff)
  qed
  have pol: "poly_fun (length d) (rs_valor d)" "poly_fun (length d) (rs_valor d')"
    using rs_valor_poly [of d] rs_valor_poly [of d'] len by simp_all
  have fin: "finite (punto ` ?I)" by simp
  have eq: "rs_valor d x = rs_valor d' x" for x
    by (rule poly_fun_unique [OF pol fin cd agree])
  have "gf (d ! i) = gf (d' ! i)" if "i < length d" for i
  proof -
    have "rs_valor d (punto i) = gf (d ! i)" "rs_valor d' (punto i) = gf (d' ! i)"
      by (rule rs_valor_at; use that len in simp)+
    then show ?thesis using eq [of "punto i"] by (simp only:)
  qed
  then show ?thesis using len(1) by (intro nth_equalityI) simp_all
qed

lemma reed_ok: "rs_ok reed"
  unfolding rs_ok_def
proof (intro conjI allI impI)
  fix p and d :: bytes assume "2 \<le> p \<and> p \<le> 128 \<and> length d + p \<le> 255"
  then show "\<exists>e. length e = p \<and> rs_encode reed p d = d @ e"
    by (simp add: reed_def rs_cifrar_def)
next
  fix p and d r :: bytes
  assume a: "2 \<le> p \<and> p \<le> 128 \<and> length d + p \<le> 255 \<and> length r = length d + p \<and>
    hdist r (rs_encode reed p d) \<le> p div 2"
  let ?l = "List.n_lists (length r - p) todos_bytes"
  let ?P = "\<lambda>d. hdist r (rs_cifrar p d) \<le> p div 2"
  have "d \<in> set ?l" using a by (simp add: set_n_lists)
  moreover have "?P d" using a by (simp add: reed_def)
  ultimately have "find ?P ?l \<noteq> None" unfolding find_None_iff by blast
  then obtain d' where d': "find ?P ?l = Some d'" by blast
  then have P': "?P d'" "d' \<in> set ?l" by (auto simp: find_Some_iff)
  then have len: "length d' = length d" using a by (simp add: set_n_lists)
  have "hdist (rs_cifrar p d) (rs_cifrar p d') \<le> hdist (rs_cifrar p d) r + hdist r (rs_cifrar p d')"
    using a len by (intro hdist_triangle) simp_all
  also have "\<dots> \<le> p div 2 + p div 2"
    using \<open>?P d\<close> P'(1) a len by (intro add_mono) (simp_all add: hdist_sym)
  also have "\<dots> \<le> p" by simp
  finally have "d = d'" using len a by (intro rs_cifrar_distancia [of d d' p]) simp_all
  then show "rs_correct reed p r = Some (Some d)" using d' by (simp add: reed_def rs_corregir_def)
qed

lemma reed_sano: "rs_sano reed"
  unfolding rs_sano_def
proof (intro allI impI)
  fix p and r :: bytes
  have "length d = length r - p" if f: "find P (List.n_lists (length r - p) xs) = Some d" for P xs and d :: bytes
  proof -
    obtain i where "i < length (List.n_lists (length r - p) xs)" "d = List.n_lists (length r - p) xs ! i"
      using f unfolding find_Some_iff by blast
    then have "d \<in> set (List.n_lists (length r - p) xs)" by (simp only: nth_mem)
    then show ?thesis by (simp add: set_n_lists)
  qed
  then show "\<exists>x. rs_correct reed p r = Some x \<and> (\<forall>d. x = Some d \<longrightarrow> length d = length r - p)"
    unfolding reed_def rs_corregir_def reed_solomon.simps by blast
qed


text \<open>The package of three bytes in fifteen symbols, three of which are lost.\<close>

theorem papel_tolerates_losses_witness:
  "\<exists>trozos. empaquetar reed [1, 2, 3] 19 128 = Inr trozos \<and> length trozos = 15 \<and>
     reensamblar reed (map ((!) trozos) [3..<15]) = Some (Inr [1, 2, 3])"
proof -
  have c: "clamp 128 = 128" by (simp add: clamp_def PARIDAD_MAXIMA_def)
  have p: "length (protect reed [1, 2, 3] 128) = 146"
    by (simp add: protect_def c Let_def reed_def HEADER_PARITY_def chunks_step)
  obtain trozos where e: "empaquetar reed [1, 2, 3] 19 128 = Inr trozos" "length trozos = 15"
    by (simp add: empaquetar_def CABECERA_def PARIDAD_MAXIMA_def p Let_def div_ceil_def)
  have "reensamblar reed (map ((!) trozos) [3..<15]) = Some (Inr [1, 2, 3])"
  proof (rule papel_tolerates_losses [OF reed_ok e(1)])
    show "length trozos - length [3..<15] \<le> simbolos_perdidos_tolerados (length trozos) 128"
      by (simp add: e(2) simbolos_perdidos_tolerados_def Let_def BLOQUE_RS_def CABECERA_ECC_def
          CABECERA_ECC_CORRIGE_def div_ceil_def)
  qed (use p e(2) in auto)
  with e show ?thesis by blast
qed

lemma papel_never_panics_example:
  "(\<exists>r. reensamblar reed [[1, 0, 0], []] = Some r) \<and> (\<exists>r. recover reed [9, 9] = Some r)"
  using papel_never_panics [OF reed_sano, of "[[1, 0, 0], []]" "[9, 9]"] .

end
