(* ===== verification/Custodia.thy ===== *)
theory Custodia
  imports Shamir Voprf
begin

text \<open>
  \<^verbatim>\<open>crates/quipu-oprf-server/src/custodia.rs\<close>: the seed of the VOPRF service in the custody of
  \<open>k\<close> of \<open>n\<close> shares, and the restoration that is checked against the public key the service
  published.  It composes \<open>Shamir\<close> and \<open>Voprf\<close>.  The outer option is a panic.
\<close>

definition DERIVE_INFO :: bytes where
  "DERIVE_INFO = ascii ''quipu-oprf-server-v1''"

definition SEED_LEN :: nat where
  "SEED_LEN = 32"

datatype custodia_error =
    SeedLongitudInvalida nat nat
  | Parametros
  | Reconstruccion shamir_error
  | ClavePublicaDistinta
  | Derivacion

definition clave_publica_de ::
  "('s :: field, 'p) ristretto \<Rightarrow> bytes \<Rightarrow> (custodia_error + bytes) option" where
  "clave_publica_de G seed =
     (if length seed \<noteq> SEED_LEN then Some (Inl (SeedLongitudInvalida SEED_LEN (length seed)))
      else
        case server_from_seed G seed DERIVE_INFO of
          None \<Rightarrow> None
        | Some None \<Rightarrow> Some (Inl Derivacion)
        | Some (Some s) \<Rightarrow> Some (Inr (public_key G s)))"

definition repartir ::
  "(bytes \<Rightarrow> bytes) \<Rightarrow> 'r fuente \<Rightarrow> bytes \<Rightarrow> u8 \<Rightarrow> u8 \<Rightarrow> 'r \<Rightarrow> (custodia_error + share list) \<times> 'r" where
  "repartir sha fuente seed umbral partes r =
     (if length seed \<noteq> SEED_LEN then (Inl (SeedLongitudInvalida SEED_LEN (length seed)), r)
      else
        case split sha fuente seed umbral partes r of
          (Inl e, r') \<Rightarrow> (Inl (if e = BadParameters then Parametros else Reconstruccion e), r')
        | (Inr shares, r') \<Rightarrow> (Inr shares, r'))"

definition reconstruir :: "(bytes \<Rightarrow> bytes) \<Rightarrow> share list \<Rightarrow> (custodia_error + bytes) option" where
  "reconstruir sha partes =
     (case combine sha partes of
        None \<Rightarrow> None
      | Some (Inl e) \<Rightarrow> Some (Inl (Reconstruccion e))
      | Some (Inr seed) \<Rightarrow> Some (Inr seed))"

definition verificar_restauracion ::
  "('s :: field, 'p) ristretto \<Rightarrow> (bytes \<Rightarrow> bytes) \<Rightarrow> share list \<Rightarrow> bytes \<Rightarrow>
    (custodia_error + bytes) option" where
  "verificar_restauracion G sha partes esperada =
     (case reconstruir sha partes of
        None \<Rightarrow> None
      | Some (Inl e) \<Rightarrow> Some (Inl e)
      | Some (Inr seed) \<Rightarrow>
          (case clave_publica_de G seed of
             None \<Rightarrow> None
           | Some (Inl e) \<Rightarrow> Some (Inl e)
           | Some (Inr obtenida) \<Rightarrow>
               if obtenida \<noteq> esperada then Some (Inl ClavePublicaDistinta) else Some (Inr seed)))"

section \<open>Lemmas\<close>

lemma repartir_Inr:
  "repartir sha fuente seed k n r = (Inr shares, r') \<longleftrightarrow>
     length seed = 32 \<and> split sha fuente seed k n r = (Inr shares, r')"
  by (auto simp: repartir_def SEED_LEN_def split: prod.splits sum.splits)

lemma clave_publica_Inr:
  "clave_publica_de G seed = Some (Inr pk) \<longleftrightarrow>
     length seed = 32 \<and> (\<exists>S. server_from_seed G seed DERIVE_INFO = Some (Some S) \<and> pk = public_key G S)"
  by (auto simp: clave_publica_de_def SEED_LEN_def split: option.splits)

lemma verificar_Inr:
  "verificar_restauracion G sha us pk = Some (Inr seed) \<longleftrightarrow>
     combine sha us = Some (Inr seed) \<and> clave_publica_de G seed = Some (Inr pk)"
  by (auto simp: verificar_restauracion_def reconstruir_def split: option.splits sum.splits)

text \<open>A public key fixes its secret key.\<close>

lemma public_key_inj:
  assumes G: "ristretto_ok G" and "public_key G S = public_key G S'"
  shows "S = S'"
proof -
  have "decompress G (compress G (smul G (key S) (basepoint G))) =
      decompress G (compress G (smul G (key S') (basepoint G)))"
    using assms(2) by (simp only: public_key_def)
  then have "smul G (key S) (basepoint G) = smul G (key S') (basepoint G)"
    by (simp only: encoding_laws [OF G] option.inject)
  then have "smul G (key S - key S') (basepoint G) = 0" by (simp add: smul_diff [OF G])
  then have "key S = key S'" using ristretto_okD(5) [OF G] by (simp add: smul_eq_0_iff [OF G])
  then show ?thesis by simp
qed

section \<open>Properties\<close>

text \<open>
  Any \<open>k\<close> or more different shares of a deposited seed pass the verified restoration against
  the public key the seed derives, and give the seed back.
\<close>
lemma custodia_restores:
  assumes "\<And>m. length (sha m) = 32" and "fuente_ok fuente"
    and "repartir sha fuente seed k n r = (Inr shares, r')"
    and "clave_publica_de G seed = Some (Inr pk)"
    and "set us \<subseteq> set shares" and "distinct (map sh_index us)" and "unat k \<le> length us"
  shows "verificar_restauracion G sha us pk = Some (Inr seed)"
proof -
  from assms(3) have s: "split sha fuente seed k n r = (Inr shares, r')" by (simp add: repartir_Inr)
  have "combine sha us = Some (Inr seed)" by (rule combine_split [OF assms(1,2) s assms(5-7)])
  with assms(4) show ?thesis by (simp add: verificar_Inr)
qed

text \<open>
  A restoration that is accepted is the same service: whatever shares were put together, if the
  result passes the check against the public key of a server, the seed derives that server's
  secret key, so every evaluation and every proof is the one it gave before.
\<close>
lemma restored_is_the_same_service:
  assumes "ristretto_ok G" and "verificar_restauracion G sha us (public_key G S) = Some (Inr seed)"
  shows "server_from_seed G seed DERIVE_INFO = Some (Some S)"
proof -
  from assms(2) obtain S' where "server_from_seed G seed DERIVE_INFO = Some (Some S')"
      "public_key G S = public_key G S'"
    unfolding verificar_Inr clave_publica_Inr by blast
  with public_key_inj [OF assms(1)] show ?thesis by blast
qed

section \<open>A deposited seed\<close>

lemma demo_server: "server_from_seed demo_grupo seed DERIVE_INFO = Some (Some \<lparr>key = 1\<rparr>)"
proof -
  have "hash_to_scalar_dst demo_grupo m (dst_with (ascii ''DeriveKeyPair'')) = Some 1" for m
    by (simp add: hash_to_scalar_dst_def expand_message_xmd_64_def demo_grupo_def dst_with_def CONTEXT_STRING_def
        ascii_def gf_simps numeral_eq_Suc)
  then have "derive_key_pair demo_grupo seed DERIVE_INFO = Some (Some 1)"
    by (simp add: derive_key_pair_def derive_loop.simps)
  then show ?thesis by (simp add: server_from_seed_def)
qed

lemma demo_deposito:
  fixes seed :: bytes
  assumes "length seed = 32"
  obtains shares r' where "repartir (\<lambda>_. replicate 32 7) demo_fuente seed 2 3 0 = (Inr shares, r')"
    "length shares = 3" "map sh_index shares = [1, 2, 3]"
proof -
  have ne: "seed \<noteq> []" using assms by auto
  let ?sha = "\<lambda>_ :: bytes. replicate 32 (7 :: u8)"
  have "\<exists>shares r'. split ?sha demo_fuente seed 2 3 0 = (Inr shares, r')"
    unfolding split_def Let_def using ne by (simp add: MIN_THRESHOLD_def demo_split_loop del: split_loop.simps)
  then obtain shares r' where s: "split ?sha demo_fuente seed 2 3 0 = (Inr shares, r')" by blast
  obtain css where "shares = map (\<lambda>i. \<lparr>sh_threshold = 2, sh_index = of_nat i,
       sh_y = map2 (\<lambda>cs b. evaluar cs b (of_nat i)) css (seed @ etiqueta ?sha seed)\<rparr>)
       [1..<unat (3 :: u8) + 1]"
    by (rule split_Inr [OF s demo_fuente_ok]) blast
  then have "length shares = 3" "map sh_index shares = [1, 2, 3]"
    by (simp_all add: upt_conv_Cons)
  with s assms show ?thesis by (intro that) (simp_all add: repartir_Inr)
qed

lemma custodia_restores_example:
  "\<exists>shares r'. repartir (\<lambda>_. replicate 32 7) demo_fuente (replicate 32 9) 2 3 0 = (Inr shares, r') \<and>
    verificar_restauracion demo_grupo (\<lambda>_. replicate 32 7) [shares ! 2, shares ! 0]
      (public_key demo_grupo \<lparr>key = 1\<rparr>) = Some (Inr (replicate 32 9))"
proof -
  let ?seed = "replicate 32 9 :: bytes"
  obtain shares r' where s: "repartir (\<lambda>_. replicate 32 7) demo_fuente ?seed 2 3 0 = (Inr shares, r')"
      "length shares = 3" "map sh_index shares = [1, 2, 3]"
    by (rule demo_deposito [of ?seed]) simp
  have "map sh_index shares ! 2 = 3" "map sh_index shares ! 0 = 1" unfolding s(3) by simp_all
  then have i: "sh_index (shares ! 2) = 3" "sh_index (shares ! 0) = 1" using s(2) by simp_all
  have "clave_publica_de demo_grupo ?seed = Some (Inr (public_key demo_grupo \<lparr>key = 1\<rparr>))"
    by (simp add: clave_publica_Inr demo_server)
  then have "verificar_restauracion demo_grupo (\<lambda>_. replicate 32 7) [shares ! 2, shares ! 0]
      (public_key demo_grupo \<lparr>key = 1\<rparr>) = Some (Inr ?seed)"
    using s(2) i by (intro custodia_restores [OF _ demo_fuente_ok s(1)]) simp_all
  with s(1) show ?thesis by blast
qed

lemma restored_is_the_same_service_example:
  "\<exists>us. verificar_restauracion demo_grupo (\<lambda>_. replicate 32 7) us (public_key demo_grupo \<lparr>key = 1\<rparr>)
      = Some (Inr (replicate 32 9)) \<and>
    server_from_seed demo_grupo (replicate 32 9) DERIVE_INFO = Some (Some \<lparr>key = 1\<rparr>)"
proof -
  let ?seed = "replicate 32 9 :: bytes"
  obtain shares r' where s: "repartir (\<lambda>_. replicate 32 7) demo_fuente ?seed 2 3 0 = (Inr shares, r')"
      "length shares = 3" "map sh_index shares = [1, 2, 3]"
    by (rule demo_deposito [of ?seed]) simp
  have "combine (\<lambda>_. replicate 32 7) shares = Some (Inr ?seed)"
    by (rule combine_split [OF _ demo_fuente_ok, where secret = ?seed and shares = shares and k = 2 and n = 3 and r' = r'])
      (use s in \<open>simp_all add: repartir_Inr\<close>)
  then have v: "verificar_restauracion demo_grupo (\<lambda>_. replicate 32 7) shares (public_key demo_grupo \<lparr>key = 1\<rparr>)
      = Some (Inr ?seed)"
    by (auto simp: verificar_Inr clave_publica_Inr demo_server)
  with restored_is_the_same_service [OF demo_grupo_ok v] show ?thesis by blast
qed

end
