(* ===== verification/Cliente.thy ===== *)
theory Cliente
  imports Voprf Http
begin

text \<open>
  \<^verbatim>\<open>crates/quipu-oprf-server/src/client.rs\<close>: the reference client, from the password to the hardened
  secret, and its minimal HTTP.  The TCP exchange (connect, write all, read to the end as UTF-8) is
  the parameter \<open>tcp\<close>: address and request to the raw response, or the text of the error.  Composed
  with the route of \<open>Http\<close> and the evaluation of \<open>Voprf\<close>.  The outer option is a panic.
\<close>

section \<open>Strings\<close>

text \<open>\<^verbatim>\<open>str::find\<close>: the first place of a pattern.\<close>

fun buscar :: "bytes \<Rightarrow> bytes \<Rightarrow> nat option" where
  "buscar pat s =
     (if take (length pat) s = pat then Some 0
      else case s of [] \<Rightarrow> None | _ # resto \<Rightarrow> map_option Suc (buscar pat resto))"

declare buscar.simps [simp del]

text \<open>\<^verbatim>\<open>split_whitespace\<close>: the maximal runs without white space, with at most \<open>n\<close> steps.\<close>

definition blanco_inicial :: "bytes \<Rightarrow> bytes option" where
  "blanco_inicial s = find (\<lambda>w. take (length w) s = w) blancos"

fun palabra :: "bytes \<Rightarrow> bytes \<times> bytes" where
  "palabra [] = ([], [])"
| "palabra (b # s) =
     (if blanco_inicial (b # s) \<noteq> None then ([], b # s)
      else let (p, resto) = palabra s in (b # p, resto))"

fun split_whitespace_n :: "nat \<Rightarrow> bytes \<Rightarrow> bytes list" where
  "split_whitespace_n 0 s = []"
| "split_whitespace_n (Suc n) s =
     (let t = trim_start_n (length s) s
      in if t = [] then [] else let (p, resto) = palabra t in p # split_whitespace_n n resto)"

definition split_whitespace :: "bytes \<Rightarrow> bytes list" where
  "split_whitespace s = split_whitespace_n (Suc (length s)) s"

text \<open>\<^verbatim>\<open>parse::<u16>()\<close>: digits after an optional plus sign.\<close>

definition parse_u16 :: "bytes \<Rightarrow> nat option" where
  "parse_u16 s =
     (let digitos = (if 1 < length s \<and> hd s = 43 then List.tl s else s);
          n = foldl (\<lambda>n d. 10 * n + unat (d - 48)) 0 digitos
      in if s = [] \<or> \<not> list_all (\<lambda>d. 48 \<le> d \<and> d \<le> 57) digitos \<or> 65535 < n then None else Some n)"

definition CRLF :: bytes where
  "CRLF = [13, 10]"

section \<open>HTTP\<close>

definition peticion_texto :: "bytes \<Rightarrow> bytes \<Rightarrow> bytes \<Rightarrow> (bytes \<times> bytes) list \<Rightarrow> bytes option \<Rightarrow> bytes" where
  "peticion_texto addr method path headers body =
     method @ [32] @ path @ ascii '' HTTP/1.1'' @ CRLF @ ascii ''Host: '' @ addr @ CRLF @
     ascii ''Connection: close'' @ CRLF @
     concat (map (\<lambda>(k, v). k @ ascii '': '' @ v @ CRLF) headers) @
     (case body of Some b \<Rightarrow> ascii ''Content-Length: '' @ decimal (length b) @ CRLF | None \<Rightarrow> []) @
     CRLF @ (case body of Some b \<Rightarrow> b | None \<Rightarrow> [])"

definition request ::
  "(bytes \<Rightarrow> bytes \<Rightarrow> bytes + bytes) \<Rightarrow> bytes \<Rightarrow> bytes \<Rightarrow> bytes \<Rightarrow> (bytes \<times> bytes) list \<Rightarrow> bytes option \<Rightarrow>
    bytes + (nat \<times> bytes)" where
  "request tcp addr method path headers body =
     (case tcp addr (peticion_texto addr method path headers body) of
        Inl e \<Rightarrow> Inl e
      | Inr raw \<Rightarrow>
          let palabras = split_whitespace raw
          in case (if 1 < length palabras then parse_u16 (palabras ! 1) else None) of
               None \<Rightarrow> Inl (ascii ''respuesta HTTP ilegible'')
             | Some status \<Rightarrow>
                 Inr (status,
                   case buscar (CRLF @ CRLF) raw of None \<Rightarrow> [] | Some i \<Rightarrow> drop (i + 4) raw))"

definition field :: "bytes \<Rightarrow> bytes \<Rightarrow> bytes + bytes" where
  "field body clave =
     (let pat = comillas clave @ ascii '':'' @ [34]
      in case buscar pat body of
           None \<Rightarrow> Inl (ascii ''falta el campo '' @ clave)
         | Some i \<Rightarrow>
             let rest = drop (i + length pat) body
             in case buscar [34] rest of
                  None \<Rightarrow> Inl (ascii ''campo '' @ clave @ ascii '' sin cerrar'')
                | Some j \<Rightarrow> Inr (take j rest))"

definition ok_or :: "'a option \<Rightarrow> 'e \<Rightarrow> 'e + 'a" where
  "ok_or x e = (case x of None \<Rightarrow> Inl e | Some v \<Rightarrow> Inr v)"

text \<open>The answer of \<open>harden\<close> to a body: the parts of the evaluation, each with its error.\<close>

definition leer_evaluacion :: "bytes \<Rightarrow> bytes + (bytes \<times> bytes)" where
  "leer_evaluacion body =
     (case field body (ascii ''evaluation'') of
        Inl e \<Rightarrow> Inl e
      | Inr ev_hex \<Rightarrow>
          (case from_hex_32 ev_hex of
             None \<Rightarrow> Inl (ascii ''evaluation inv'' @ [0xC3, 0xA1] @ ascii ''lida'')
           | Some evaluated \<Rightarrow>
               (case field body (ascii ''proof'') of
                  Inl e \<Rightarrow> Inl e
                | Inr pf_hex \<Rightarrow>
                    (case from_hex pf_hex of
                       None \<Rightarrow> Inl (ascii ''proof inv'' @ [0xC3, 0xA1] @ ascii ''lida'')
                     | Some pf \<Rightarrow>
                         if length pf \<noteq> PROOF_LEN then Inl (ascii ''longitud de proof inesperada'')
                         else Inr (evaluated, pf)))))"

definition harden ::
  "('s :: field, 'p :: ab_group_add) ristretto \<Rightarrow> 'r fuente \<Rightarrow> (bytes \<Rightarrow> bytes \<Rightarrow> bytes + bytes) \<Rightarrow>
    bytes \<Rightarrow> bytes \<Rightarrow> bytes \<Rightarrow> bytes \<Rightarrow> 'r \<Rightarrow> ((bytes + bytes) \<times> 'r) option" where
  "harden G fuente tcp addr api_key password server_pub r =
     (case blind G fuente password r of
        None \<Rightarrow> None
      | Some (None, r') \<Rightarrow> Some (Inl (ascii ''entrada inv'' @ [0xC3, 0xA1] @ ascii ''lida para VOPRF''), r')
      | Some (Some (state, blinded), r') \<Rightarrow>
          (case request tcp addr (ascii ''POST'') (ascii ''/v1/oprf/evaluate'')
               [(ascii ''Authorization'', ascii ''Bearer '' @ api_key), (ascii ''Content-Type'', ascii ''text/plain'')]
               (Some (to_hex blinded)) of
             Inl e \<Rightarrow> Some (Inl e, r')
           | Inr (status, body) \<Rightarrow>
               if status \<noteq> 200 then Some (Inl (ascii ''evaluate HTTP '' @ decimal status @ ascii '': '' @ body), r')
               else
                 (case leer_evaluacion body of
                    Inl e \<Rightarrow> Some (Inl e, r')
                  | Inr (evaluated, pf) \<Rightarrow>
                      map_option
                        (\<lambda>out. (ok_or out (ascii ''prueba DLEQ inv'' @ [0xC3, 0xA1] @
                           ascii ''lida: servidor deshonesto o clave incorrecta''), r'))
                        (finalize G password state evaluated pf server_pub))))"

definition fetch_public_key :: "(bytes \<Rightarrow> bytes \<Rightarrow> bytes + bytes) \<Rightarrow> bytes \<Rightarrow> bytes + bytes" where
  "fetch_public_key tcp addr =
     (case request tcp addr (ascii ''GET'') (ascii ''/v1/public-key'') [] None of
        Inl e \<Rightarrow> Inl e
      | Inr (status, body) \<Rightarrow>
          if status \<noteq> 200 then Inl (ascii ''public-key HTTP '' @ decimal status)
          else
            (case field body (ascii ''public_key'') of
               Inl e \<Rightarrow> Inl e
             | Inr h \<Rightarrow>
                 (case from_hex_32 h of
                    None \<Rightarrow> Inl (ascii ''clave p'' @ [0xC3, 0xBA] @ ascii ''blica inv'' @ [0xC3, 0xA1] @ ascii ''lida'')
                  | Some pk \<Rightarrow> Inr pk)))"

section \<open>Lemmas\<close>

lemma buscar_here: "take (length pat) s = pat \<Longrightarrow> buscar pat s = Some 0"
  by (simp add: buscar.simps)

lemma buscar_later:
  "\<lbrakk>pat \<noteq> []; \<And>i. i < length xs \<Longrightarrow> take (length pat) (drop i (xs @ pat @ ys)) \<noteq> pat\<rbrakk> \<Longrightarrow>
    buscar pat (xs @ pat @ ys) = Some (length xs)"
proof (induction xs)
  case Nil
  then show ?case by (simp add: buscar_here)
next
  case (Cons x xs)
  have "buscar pat (xs @ pat @ ys) = Some (length xs)"
  proof (rule Cons.IH [OF Cons.prems(1)])
    show "take (length pat) (drop i (xs @ pat @ ys)) \<noteq> pat" if "i < length xs" for i
      using Cons.prems(2) [of "Suc i"] that by simp
  qed
  moreover have "take (length pat) (x # xs @ pat @ ys) \<noteq> pat" using Cons.prems(2) [of 0] by simp
  ultimately show ?case by (subst buscar.simps) simp
qed

text \<open>A pattern whose second byte is not before it, and differs from its first.\<close>

lemma buscar_second:
  assumes "pat = a # b # p" and "b \<notin> set xs" and "a \<noteq> b"
  shows "buscar pat (xs @ pat @ ys) = Some (length xs)"
proof (rule buscar_later)
  show "pat \<noteq> []" using assms(1) by simp
  fix i assume i: "i < length xs"
  show "take (length pat) (drop i (xs @ pat @ ys)) \<noteq> pat"
  proof
    assume "take (length pat) (drop i (xs @ pat @ ys)) = pat"
    moreover have "take (length pat) (drop i (xs @ pat @ ys)) ! 1 = drop i (xs @ pat @ ys) ! 1"
      by (rule nth_take) (simp add: assms(1))
    moreover have "drop i (xs @ pat @ ys) ! 1 = (xs @ pat @ ys) ! (i + 1)"
      by (rule nth_drop) (use i in simp)
    ultimately have "pat ! 1 = (xs @ pat @ ys) ! (i + 1)" by (simp only:)
    then have "(xs @ pat @ ys) ! Suc i = b" using assms(1) by simp
    moreover have "(xs @ pat @ ys) ! Suc i \<noteq> b"
    proof (cases "Suc i < length xs")
      case True
      then show ?thesis using assms(2) by (metis nth_append nth_mem)
    next
      case False
      then have "Suc i = length xs" using i by simp
      then show ?thesis using assms(1,3) by (metis append_Cons nth_append_length)
    qed
    ultimately show False by simp
  qed
qed

lemma buscar_comilla:
  assumes "34 \<notin> set xs"
  shows "buscar [34] (xs @ 34 # ys) = Some (length xs)"
proof -
  have "take (length [34 :: u8]) (drop i (xs @ [34] @ ys)) \<noteq> [34]" if "i < length xs" for i
  proof -
    have "drop i (xs @ [34] @ ys) = (xs @ [34] @ ys) ! i # drop (Suc i) (xs @ [34] @ ys)"
      using that by (intro Cons_nth_drop_Suc [symmetric]) simp
    moreover have "(xs @ [34] @ ys) ! i \<in> set xs" using that by (simp add: nth_append)
    ultimately show ?thesis using assms by auto
  qed
  from buscar_later [of "[34]" xs ys, OF _ this] show ?thesis by simp
qed

lemma hex_sin: "c \<notin> set (to_hex bs)" if "hexval c = None"
  using to_hex_digits [of c bs] that by auto

text \<open>A field of hexadecimal text behind a pattern that starts nowhere earlier.\<close>

lemma field_hex:
  assumes "clave = b # k" and "b \<notin> set xs" and "b \<noteq> 34"
    and "body = xs @ (comillas clave @ ascii '':'' @ [34]) @ to_hex h @ 34 # ys"
  shows "field body clave = Inr (to_hex h)"
proof -
  let ?pat = "comillas clave @ ascii '':'' @ [34]"
  have pat: "?pat = 34 # b # (k @ [34] @ ascii '':'' @ [34])" using assms(1) by (simp add: comillas_def)
  have "buscar ?pat body = Some (length xs)"
    unfolding assms(4) by (rule buscar_second [OF pat assms(2)]) (use assms(3) in simp)
  moreover have "drop (length xs + length ?pat) body = to_hex h @ 34 # ys"
    unfolding assms(4) by simp
  moreover have "buscar [34] (to_hex h @ 34 # ys) = Some (length (to_hex h))"
    by (rule buscar_comilla, rule hex_sin) (simp add: hexval_def)
  ultimately show ?thesis unfolding field_def Let_def by simp
qed

lemma fields_evaluacion:
  "field (respuesta_evaluacion ev pf) (ascii ''evaluation'') = Inr (to_hex ev)"
  "field (respuesta_evaluacion ev pf) (ascii ''proof'') = Inr (to_hex pf)"
proof -
  let ?e = "comillas (ascii ''evaluation'') @ ascii '':'' @ [34]"
  let ?p = "comillas (ascii ''proof'') @ ascii '':'' @ [34]"
  have body: "respuesta_evaluacion ev pf =
      [123] @ ?e @ to_hex ev @ 34 # (44 # ?p @ to_hex pf @ [34, 125])"
    by (simp add: respuesta_evaluacion_def objeto_def campo_def comillas_def ascii_def)
  show "field (respuesta_evaluacion ev pf) (ascii ''evaluation'') = Inr (to_hex ev)"
    by (rule field_hex [OF _ _ _ body, where b = 101]) (simp_all add: ascii_def)
  have body': "respuesta_evaluacion ev pf =
      ([123] @ ?e @ to_hex ev @ [34, 44]) @ ?p @ to_hex pf @ 34 # [125]"
    unfolding body by simp
  have "112 \<notin> set (to_hex ev)" by (rule hex_sin) (simp add: hexval_def)
  then show "field (respuesta_evaluacion ev pf) (ascii ''proof'') = Inr (to_hex pf)"
    by (intro field_hex [OF _ _ _ body', where b = 112]) (simp_all add: ascii_def comillas_def)
qed

lemma leer_respuesta_evaluacion:
  "length ev = 32 \<Longrightarrow> length pf = 64 \<Longrightarrow> leer_evaluacion (respuesta_evaluacion ev pf) = Inr (ev, pf)"
  by (simp add: leer_evaluacion_def fields_evaluacion PROOF_LEN_def from_hex_32_to_hex from_hex_to_hex)

text \<open>What the server's evaluation returns has the lengths the client expects.\<close>

text \<open>The first bytes of white space.\<close>

lemma cabeza_blanca: "w \<in> set blancos \<Longrightarrow> w \<noteq> [] \<and> hd w \<in> {9, 10, 11, 12, 13, 32, 0xC2, 0xE1, 0xE2, 0xE3}"
  by (auto simp: blancos_def)

text \<open>The status line of a success.\<close>

lemma split_step:
  "\<lbrakk>trim_start_n (length s) s = t; t \<noteq> []; palabra t = (p, resto)\<rbrakk> \<Longrightarrow>
    split_whitespace_n (Suc n) s = p # split_whitespace_n n resto"
  by (simp add: Let_def)

lemma estado_200:
  "\<exists>palabras. split_whitespace (ascii ''HTTP/1.1 200 '' @ resto) = palabras \<and> 1 < length palabras \<and>
     palabras ! 1 = ascii ''200''"
proof -
  let ?s = "ascii ''HTTP/1.1 200 '' @ resto"
  have no: "blanco_inicial (b # s) = None" if bb: "b \<in> {46, 47, 48, 49, 50, 72, 80, 84}" for b s
  proof -
    have "take (length w) (b # s) \<noteq> w" if w: "w \<in> set blancos" for w
    proof
      assume e: "take (length w) (b # s) = w"
      from cabeza_blanca [OF w] have "w \<noteq> []" "hd w \<in> {9, 10, 11, 12, 13, 32, 0xC2, 0xE1, 0xE2, 0xE3}" by blast+
      moreover from this(1) have "hd (take (length w) (b # s)) = b" by (cases w) simp_all
      ultimately show False using bb unfolding e by auto
    qed
    then show ?thesis by (auto simp: blanco_inicial_def find_None_iff)
  qed
  have si: "blanco_inicial (32 # s) = Some [32]" for s
    by (simp add: blanco_inicial_def blancos_def)
  have trim: "trim_start_n (Suc n) s = (case blanco_inicial s of None \<Rightarrow> s | Some w \<Rightarrow> trim_start_n n (drop (length w) s))"
    for n s by (simp add: blanco_inicial_def)
  have no': "blanco_inicial (72 # s) = None" "blanco_inicial (50 # s) = None" for s
    by (rule no, simp)+
  have t1: "trim_start_n (Suc n) (72 # s) = 72 # s" for s n
    by (simp only: trim no' option.case)
  have t2: "trim_start_n (Suc (Suc n)) (32 # 50 # s) = 50 # s" for n s
  proof -
    have "trim_start_n (Suc (Suc n)) (32 # 50 # s) = trim_start_n (Suc n) (50 # s)"
      unfolding trim [of "Suc n"] si by simp
    also have "\<dots> = 50 # s" by (simp only: trim no' option.case)
    finally show ?thesis .
  qed
  have s: "?s = 72 # 84 # 84 # 80 # 47 # 49 # 46 # 49 # 32 # 50 # 48 # 48 # 32 # resto"
    by (simp add: ascii_def)
  have p1: "palabra ?s = ([72, 84, 84, 80, 47, 49, 46, 49], 32 # 50 # 48 # 48 # 32 # resto)"
    unfolding s by (simp add: no si)
  have p2: "palabra (50 # 48 # 48 # 32 # resto) = ([50, 48, 48], 32 # resto)"
    by (simp add: no si)
  obtain m where m: "length ?s = Suc (Suc m)" by (simp add: ascii_def)
  have "trim_start_n (length ?s) ?s = ?s" unfolding m unfolding s by (rule t1)
  from split_step [OF this _ p1] have 1: "split_whitespace_n (Suc n) ?s =
      [72, 84, 84, 80, 47, 49, 46, 49] # split_whitespace_n n (32 # 50 # 48 # 48 # 32 # resto)" for n
    by (simp add: ascii_def)
  have "trim_start_n (length (32 # 50 # 48 # 48 # 32 # resto)) (32 # 50 # 48 # 48 # 32 # resto)
      = 50 # 48 # 48 # 32 # resto"
    unfolding list.size by (simp only: add_Suc_right add_0_right t2)
  from split_step [OF this _ p2] have 2: "split_whitespace_n (Suc n) (32 # 50 # 48 # 48 # 32 # resto) =
      [50, 48, 48] # split_whitespace_n n (32 # resto)" for n
    by simp
  have "split_whitespace ?s = [72, 84, 84, 80, 47, 49, 46, 49] # [50, 48, 48] # split_whitespace_n (Suc m) (32 # resto)"
    unfolding split_whitespace_def m by (simp only: 1 2)
  then show ?thesis by (simp add: ascii_def)
qed

lemma parse_200: "parse_u16 (ascii ''200'') = Some 200"
  by (simp add: parse_u16_def ascii_def word_le_nat_alt)

text \<open>The text of the request that \<open>harden\<close> sends, and a raw success with a body.\<close>

definition peticion_evaluar :: "bytes \<Rightarrow> bytes \<Rightarrow> bytes \<Rightarrow> bytes" where
  "peticion_evaluar addr api_key blinded =
     peticion_texto addr (ascii ''POST'') (ascii ''/v1/oprf/evaluate'')
       [(ascii ''Authorization'', ascii ''Bearer '' @ api_key), (ascii ''Content-Type'', ascii ''text/plain'')]
       (Some (to_hex blinded))"

definition exito :: "bytes \<Rightarrow> bytes \<Rightarrow> bytes \<Rightarrow> bool" where
  "exito raw cabeceras body \<longleftrightarrow>
     raw = ascii ''HTTP/1.1 200 '' @ cabeceras @ CRLF @ CRLF @ body \<and>
     buscar (CRLF @ CRLF) raw = Some (13 + length cabeceras)"

lemma request_exito:
  assumes "tcp addr (peticion_texto addr method path headers body) = Inr raw" and "exito raw cab cuerpo"
  shows "request tcp addr method path headers body = Inr (200, cuerpo)"
proof -
  have raw: "raw = ascii ''HTTP/1.1 200 '' @ (cab @ CRLF @ CRLF @ cuerpo)"
    and b: "buscar (CRLF @ CRLF) raw = Some (13 + length cab)"
    using assms(2) unfolding exito_def by blast+
  have "drop (13 + length cab + 4) raw = cuerpo" 
  proof -
    have "raw = (ascii ''HTTP/1.1 200 '' @ cab @ CRLF @ CRLF) @ cuerpo" by (simp add: raw)
    moreover have "length (ascii ''HTTP/1.1 200 '' @ cab @ CRLF @ CRLF) = 13 + length cab + 4"
      by (simp add: ascii_def CRLF_def)
    ultimately show ?thesis by (metis append_eq_conv_conj)
  qed
  then show ?thesis
    using assms(1) estado_200 [of "cab @ CRLF @ CRLF @ cuerpo"] b
    unfolding request_def Let_def by (auto simp: raw parse_200)
qed

section \<open>Properties\<close>

text \<open>
  C18. The client and the server together compute the function of the key and the password: when
  the TCP exchange carries the client's request to the route of the server and a success back,
  the hardened secret is the hash of the password with \<open>k\<close> times the point of the password,
  whatever both sides drew.
\<close>
theorem harden_computes_the_prf:
  assumes "ristretto_ok G" and "key K \<noteq> 0" and "en_evaluar E = blind_evaluate G fuente' K"
    and "blind G fuente password r = Some (Some (st, blinded), r1)" and "st_blind st \<noteq> 0"
    and "pt_method req = Post" and "fst (splitn2 63 (pt_url req)) = ascii ''/v1/oprf/evaluate''"
    and "pt_body req = Some (to_hex blinded)"
    and "route E rj req S = Some (resp, S')" and "rs_status resp = 200"
    and "tcp addr (peticion_evaluar addr api_key blinded) = Inr raw" and "exito raw cab (rs_body resp)"
  shows "\<exists>P. hash_to_group G password = Some P \<and>
    harden G fuente tcp addr api_key password (public_key G K) r =
      Some (Inr (salida G password (smul G (key K) P)), r1)"
proof -
  have "evaluate E rj req S = Some (resp, S')"
    using assms(6,7,9) by (simp add: route_def Let_def ascii_def)
  then obtain body b ev pf where ev: "pt_body req = Some body" "from_hex_32 (trim body) = Some b"
    "en_evaluar E b (sv_rng S) = Some (Some (ev, pf), sv_rng S')" "resp = json_resp 200 (respuesta_evaluacion ev pf)"
    using assms(10) by (cases rule: evaluate_cases) auto
  obtain P where P: "hash_to_group G password = Some P" by (metis hash_to_group_ok)
  have st: "P \<noteq> 0" "st_blinded st = smul G (st_blind st) P" "blinded = compress G (smul G (st_blind st) P)"
    using assms(4) by (auto simp: blind_def P Let_def split: if_splits bind_splits)
  have b: "b = blinded"
  proof -
    have "length blinded = 32" using encoding_laws(1) [OF assms(1)] by (simp add: st(3))
    then have "from_hex_32 (trim (to_hex blinded)) = Some blinded" by (simp add: from_hex_32_to_hex)
    moreover have "body = to_hex blinded" using ev(1) assms(8) by simp
    ultimately show ?thesis using ev(2) by (simp only: option.inject)
  qed
  have be: "blind_evaluate G fuente' K blinded (sv_rng S) = Some (Some (ev, pf), sv_rng S')"
    using ev(3) assms(3) b by simp
  obtain s where "blind_evaluate_with_randomness G K blinded s = Some (Some (ev, pf))"
    using be by (rule blind_evaluate_Some)
  from finalize_evaluated [OF assms(1) st(1) assms(5,2) refl st(2) this [unfolded st(3)]]
  have fin: "finalize G password st ev pf (public_key G K) = Some (Some (salida G password (smul G (key K) P)))"
    using P by auto
  have req: "request tcp addr (ascii ''POST'') (ascii ''/v1/oprf/evaluate'')
      [(ascii ''Authorization'', ascii ''Bearer '' @ api_key), (ascii ''Content-Type'', ascii ''text/plain'')]
      (Some (to_hex blinded)) = Inr (200, respuesta_evaluacion ev pf)"
    by (rule request_exito [where raw = raw and cab = cab])
      (use assms(11,12) ev(4) in \<open>simp_all add: peticion_evaluar_def json_resp_def\<close>)
  show ?thesis
    using P fin leer_respuesta_evaluacion blind_evaluate_lengths [OF assms(1) be]
    by (auto simp: harden_def assms(4) req ok_or_def)
qed

text \<open>The demonstration server with the key \<open>3\<close>, and an exchange that answers with its text.\<close>

theorem harden_computes_the_prf_witness:
  "\<exists>tcp r1. harden demo_grupo demo_cincos tcp [104] demo_bearer [112] (public_key demo_grupo \<lparr>key = gf 3\<rparr>) 0 =
    Some (Inr (salida demo_grupo [112] (gf 3)), r1)"
proof -
  let ?K = "\<lparr>key = gf 3\<rparr>"
  have r: "random_scalar demo_grupo demo_cincos 0 = Some (gf 5, 0)"
    by (simp add: random_scalar_def fill_expect_def demo_cincos_def demo_grupo_def)
  have ne: "gf 5 \<noteq> 0" "gf 3 \<noteq> 0" by (simp_all add: gf_field_defs)
  let ?b = "smul demo_grupo (gf 5) 1"
  let ?bb = "compress demo_grupo ?b"
  let ?st = "\<lparr>st_blind = gf 5, st_blinded = ?b\<rparr>"
  have b: "blind demo_grupo demo_cincos [112] 0 = Some (Some (?st, ?bb), 0)"
    by (simp add: blind_def demo_hashes r Let_def)
  obtain pf where pf: "generate_proof demo_grupo ?K ?b (smul demo_grupo (gf 3) ?b) (gf 5) = Some pf"
    using proof_accepted [OF demo_grupo_ok, of ?K ?b "gf 5"] by auto
  have "?b \<noteq> 0" using ne by (simp add: demo_grupo_def)
  then have e: "blind_evaluate demo_grupo demo_cincos ?K ?bb 0
      = Some (Some (compress demo_grupo (smul demo_grupo (gf 3) ?b), pf), 0)"
    using r pf by (simp add: blind_evaluate_def Let_def ristretto_okD(7) [OF demo_grupo_ok])
  let ?body = "respuesta_evaluacion (compress demo_grupo (smul demo_grupo (gf 3) ?b)) pf"
  let ?raw = "ascii ''HTTP/1.1 200 '' @ ascii ''OK'' @ CRLF @ CRLF @ ?body"
  obtain S' where route: "route (demo_entorno\<lparr>en_evaluar := blind_evaluate demo_grupo demo_cincos ?K\<rparr>) demo_reloj
      (demo_evaluar\<lparr>pt_body := Some (to_hex ?bb)\<rparr>) demo_servidor = Some (json_resp 200 ?body, S')"
    using demo_route_con [of "blind_evaluate demo_grupo demo_cincos ?K", OF e]
      encoding_laws(1) [OF demo_grupo_ok] by blast
  have "exito ?raw (ascii ''OK'') ?body"
    unfolding exito_def by (simp add: CRLF_def ascii_def buscar.simps)
  then have ex: "exito ?raw (ascii ''OK'') (rs_body (json_resp 200 ?body))" by (simp add: json_resp_def)
  have "harden demo_grupo demo_cincos (\<lambda>_ _. Inr ?raw) [104] demo_bearer [112] (public_key demo_grupo ?K) 0 =
      Some (Inr (salida demo_grupo [112] (gf 3)), 0)"
  proof -
    have "\<exists>P. hash_to_group demo_grupo [112] = Some P \<and>
        harden demo_grupo demo_cincos (\<lambda>_ _. Inr ?raw) [104] demo_bearer [112] (public_key demo_grupo ?K) 0 =
          Some (Inr (salida demo_grupo [112] (smul demo_grupo (key ?K) P)), 0)"
      by (rule harden_computes_the_prf [OF demo_grupo_ok _ _ b _ _ _ _ route _ _ ex])
        (use ne in \<open>simp_all add: demo_evaluar_def json_resp_def splitn2_def ascii_def\<close>)
    then show ?thesis by (simp add: demo_hashes) (simp add: demo_grupo_def)
  qed
  then show ?thesis by blast
qed

end
