(* ===== verification/Bits.thy ===== *)
theory Bits
  imports Prelude
begin

text \<open>
  Words as lists of bits, the highest first, and the shift accumulators of the encoders of
  \<^verbatim>\<open>papel.rs\<close>: shared by the theories Tecleable and Palabras.
\<close>

section \<open>The low bits of a word\<close>

definition bits_de :: "nat \<Rightarrow> 'a :: len word \<Rightarrow> bool list" where
  "bits_de n w = map (\<lambda>k. bit w (n - 1 - k)) [0..<n]"

lemma length_bits_de [simp]: "length (bits_de n w) = n"
  by (simp add: bits_de_def)

lemma bits_de_0 [simp]: "bits_de 0 w = []"
  by (simp add: bits_de_def)

lemma bits_de_nth: "k < n \<Longrightarrow> bits_de n w ! k = bit w (n - 1 - k)"
  by (simp add: bits_de_def)

lemma bits_de_eqI: "(\<And>k. k < n \<Longrightarrow> bit v k = bit w k) \<Longrightarrow> bits_de n v = bits_de n w"
  by (rule nth_equalityI) (simp_all add: bits_de_nth)

lemma bits_de_eq_iff: "bits_de n v = bits_de n w \<longleftrightarrow> (\<forall>k < n. bit v k = bit w k)"
proof
  assume eq: "bits_de n v = bits_de n w"
  have "bit v k = bit w k" if k: "k < n" for k
    using arg_cong [OF eq, of "\<lambda>xs. xs ! (n - 1 - k)"] k by (simp add: bits_de_nth)
  then show "\<forall>k < n. bit v k = bit w k" by blast
qed (rule bits_de_eqI, blast)

lemma bits_de_inj: "bits_de LENGTH('a) v = bits_de LENGTH('a) w \<longleftrightarrow> v = (w :: 'a :: len word)"
  unfolding bits_de_eq_iff by (auto intro: bit_word_eqI)

lemma bits_de_split: "bits_de (k + m) w = bits_de k (drop_bit m w) @ bits_de m w"
proof (rule nth_equalityI)
  fix i assume "i < length (bits_de (k + m) w)"
  then have i: "i < k + m" by simp
  show "bits_de (k + m) w ! i = (bits_de k (drop_bit m w) @ bits_de m w) ! i"
  proof (cases "i < k")
    case True
    then have "m + (k - 1 - i) = k + m - 1 - i" by simp
    moreover have "bit (drop_bit m w) (k - 1 - i) = bit w (m + (k - 1 - i))" by (simp only: bit_drop_bit_eq comp_def)
    ultimately show ?thesis using True i by (simp only: bits_de_nth nth_append length_bits_de if_True)
  next
    case False
    then have "m - 1 - (i - k) = k + m - 1 - i" "i - k < m" using i by simp_all
    then show ?thesis using i False by (simp only: bits_de_nth nth_append length_bits_de if_False)
  qed
qed (simp only: length_bits_de length_append)

text \<open>Shifting in: the accumulator keeps its low bits.\<close>

lemma bits_de_shift_in:
  fixes acc x :: "'a :: len word"
  assumes "n + k \<le> LENGTH('a)" and "\<And>i. k \<le> i \<Longrightarrow> \<not> bit x i"
  shows "bits_de (n + k) (push_bit k acc OR x) = bits_de n acc @ bits_de k x"
proof (rule nth_equalityI)
  fix i assume "i < length (bits_de (n + k) (push_bit k acc OR x))"
  then have i: "i < n + k" by simp
  show "bits_de (n + k) (push_bit k acc OR x) ! i = (bits_de n acc @ bits_de k x) ! i"
  proof (cases "i < n")
    case True
    then have "n + k - 1 - i = n - 1 - i + k" by simp
    moreover have "n - 1 - i + k < LENGTH('a)" using True assms(1) by simp
    then have "bit (push_bit k acc OR x) (n - 1 - i + k) = bit acc (n - 1 - i)"
      using assms(2) [of "n - 1 - i + k"] by (simp add: bit_or_iff bit_push_bit_iff)
    ultimately show ?thesis using True i by (simp only: bits_de_nth nth_append length_bits_de if_True)
  next
    case False
    then have "n + k - 1 - i = k - 1 - (i - n)" "k - 1 - (i - n) < k" using i by simp_all
    then show ?thesis using i False by (simp add: bits_de_nth nth_append bit_or_iff bit_push_bit_iff)
  qed
qed simp

text \<open>The casts and masks around it.\<close>

lemma bits_de_ucast: "n \<le> LENGTH('b) \<Longrightarrow> bits_de n (ucast w :: 'b :: len word) = bits_de n w"
  by (rule bits_de_eqI) (simp add: bit_ucast_iff)

lemma bits_de_mask: "n \<le> k \<Longrightarrow> bits_de n (w AND mask k) = bits_de n w"
  by (rule bits_de_eqI) (auto simp: bit_simps dest: bit_imp_le_length)

lemma bits_de_push: "n \<le> LENGTH('a) \<Longrightarrow> k \<le> n \<Longrightarrow>
    bits_de n (push_bit k (w :: 'a :: len word)) = bits_de (n - k) w @ replicate k False"
  using bits_de_shift_in [of "n - k" k 0 w]
proof (intro nth_equalityI)
  fix i assume n: "n \<le> LENGTH('a)" "k \<le> n" and "i < length (bits_de n (push_bit k w))"
  then have i: "i < n" by simp
  show "bits_de n (push_bit k w) ! i = (bits_de (n - k) w @ replicate k False) ! i"
  proof (cases "i < n - k")
    case True
    then have "n - 1 - i - k = n - k - 1 - i" "k \<le> n - 1 - i" "n - 1 - i < LENGTH('a)" using n by simp_all
    then show ?thesis using True i by (simp add: bits_de_nth nth_append bit_push_bit_iff)
  next
    case False
    then have "\<not> k \<le> n - 1 - i" using i n by simp
    then show ?thesis using False i by (simp add: bits_de_nth nth_append bit_push_bit_iff)
  qed
qed simp

section \<open>Blocks of one length\<close>

definition plano :: "nat \<Rightarrow> 'a :: len word list \<Rightarrow> bool list" where
  "plano k ws = concat (map (bits_de k) ws)"

lemma plano_simps [simp]:
  "plano k [] = []" "plano k (w # ws) = bits_de k w @ plano k ws"
  "plano k (us @ ws) = plano k us @ plano k ws"
  by (simp_all add: plano_def)

lemma length_plano [simp]: "length (plano k ws) = k * length ws"
  by (induction ws) simp_all

lemma plano_nth:
  assumes "0 < k" and "q < k * length ws"
  shows "plano k ws ! q = bits_de k (ws ! (q div k)) ! (q mod k)"
  using assms(2)
proof (induction ws arbitrary: q)
  case (Cons w ws)
  show ?case
  proof (cases "q < k")
    case False
    then have "q div k = Suc ((q - k) div k)" "q mod k = (q - k) mod k"
      using assms(1) by (simp_all add: le_div_geq le_mod_geq)
    then show ?thesis using False Cons by (simp add: nth_append)
  qed (simp add: nth_append)
qed simp

lemma plano_block:
  "i < length ws \<Longrightarrow> take k (drop (k * i) (plano k ws)) = bits_de k (ws ! i)"
proof (induction ws arbitrary: i)
  case (Cons w ws)
  then show ?case by (cases i) simp_all
qed simp

text \<open>The blocks are determined by the bits, if the rest is less than a block.\<close>

lemma plano_unique:
  fixes us vs :: "'a :: len word list"
  assumes "plano LENGTH('a) us @ r = plano LENGTH('a) vs @ s"
    and "length r < LENGTH('a)" and "length s < LENGTH('a)"
  shows "us = vs"
  using assms
proof (induction us arbitrary: vs)
  case Nil
  then show ?case by (cases vs) (auto dest!: arg_cong [of _ _ length])
next
  case (Cons u us)
  show ?case
  proof (cases vs)
    case Nil
    then show ?thesis using Cons.prems by (auto dest!: arg_cong [of _ _ length])
  next
    case (Cons v vs')
    then have "bits_de LENGTH('a) u @ (plano LENGTH('a) us @ r) = bits_de LENGTH('a) v @ (plano LENGTH('a) vs' @ s)"
      using Cons.prems(1) by simp
    then have "bits_de LENGTH('a) u = bits_de LENGTH('a) v \<and> plano LENGTH('a) us @ r = plano LENGTH('a) vs' @ s"
      by (simp only: append_eq_append_conv length_bits_de simp_thms)
    then show ?thesis using Cons Cons.IH [of vs'] Cons.prems(2,3) by (simp add: bits_de_inj)
  qed
qed

end
