(* ===== verification/Tecleable.thy ===== *)
theory Tecleable
  imports Bits Reed Dictionary
begin

text \<open>
  The module \<^verbatim>\<open>tecleable\<close> of \<^verbatim>\<open>crates/quipu-nucleo/src/papel.rs\<close>: secrets as Base32 text (RFC 4648)
  to be typed from paper, bare or over the Reed-Solomon frame of \<open>Papel\<close>.  A text is the list of
  its characters.
\<close>

section \<open>Alphabet and errors\<close>

definition ALFABETO :: bytes where
  "ALFABETO = map of_char ''ABCDEFGHIJKLMNOPQRSTUVWXYZ234567''"

definition RELLENO :: char32 where
  "RELLENO = 61"

definition GRUPO :: nat where
  "GRUPO = 5"

definition GRUPOS_POR_LINEA :: nat where
  "GRUPOS_POR_LINEA = 6"

datatype marco = Desnudo | Protegido u8

datatype tecleable_error =
    CaracterImposible char32 nat
  | CaracterAmbiguo char32 nat "char32 list"
  | TecleableVacio
  | TecleableNoSeRecupera
  | TecleableParidadExcesiva u8 u8

text \<open>\<^verbatim>\<open>char::is_whitespace\<close> and \<^verbatim>\<open>char::to_ascii_uppercase\<close>.\<close>

definition is_whitespace :: "char32 \<Rightarrow> bool" where
  "is_whitespace c \<longleftrightarrow>
     9 \<le> c \<and> c \<le> 13 \<or> 0x2000 \<le> c \<and> c \<le> 0x200A \<or>
     c \<in> {32, 0x85, 0xA0, 0x1680, 0x2028, 0x2029, 0x202F, 0x205F, 0x3000}"

definition to_ascii_uppercase :: "char32 \<Rightarrow> char32" where
  "to_ascii_uppercase c = (if 97 \<le> c \<and> c \<le> 122 then c - 32 else c)"

section \<open>Five bits at a time\<close>

text \<open>The inner loop of \<open>a_cinco_bits\<close>: symbols while there are five bits in the accumulator.\<close>

function vaciar_cinco :: "u16 \<Rightarrow> nat \<Rightarrow> bytes \<Rightarrow> nat \<times> bytes" where
  "vaciar_cinco acc bits salida =
     (if 5 \<le> bits
      then vaciar_cinco acc (bits - 5) (salida @ [ucast (drop_bit (bits - 5) acc AND 0x1f)])
      else (bits, salida))"
  by pat_completeness auto
termination by (relation "measure (\<lambda>(_, bits, _). bits)") auto

declare vaciar_cinco.simps [simp del]

fun a_cinco_loop :: "bytes \<Rightarrow> u16 \<Rightarrow> nat \<Rightarrow> bytes \<Rightarrow> bytes" where
  "a_cinco_loop [] acc bits salida =
     (if 0 < bits then salida @ [ucast (push_bit (5 - bits) acc AND 0x1f)] else salida)"
| "a_cinco_loop (b # datos) acc bits salida =
     (let acc = push_bit 8 acc OR ucast b;
          (bits, salida) = vaciar_cinco acc (bits + 8) salida
      in a_cinco_loop datos acc bits salida)"

definition a_cinco_bits :: "bytes \<Rightarrow> bytes" where
  "a_cinco_bits datos = a_cinco_loop datos 0 0 []"

fun de_cinco_loop :: "bytes \<Rightarrow> u16 \<Rightarrow> nat \<Rightarrow> bytes \<Rightarrow> bytes" where
  "de_cinco_loop [] acc bits salida = salida"
| "de_cinco_loop (s # simbolos) acc bits salida =
     (let acc = push_bit 5 acc OR ucast (s AND 0x1f);
          bits = bits + 5
      in if 8 \<le> bits
         then de_cinco_loop simbolos acc (bits - 8) (salida @ [ucast (drop_bit (bits - 8) acc AND 0xff)])
         else de_cinco_loop simbolos acc bits salida)"

definition de_cinco_bits :: "bytes \<Rightarrow> bytes" where
  "de_cinco_bits simbolos = de_cinco_loop simbolos 0 0 []"

section \<open>Writing and reading\<close>

definition separador :: "nat \<Rightarrow> char32 list" where
  "separador i =
     (if 0 < i then
        if i mod (GRUPO * GRUPOS_POR_LINEA) = 0 then [10]
        else if i mod GRUPO = 0 then [32] else []
      else [])"

definition escribir :: "reed_solomon \<Rightarrow> bytes \<Rightarrow> marco \<Rightarrow> tecleable_error + char32 list" where
  "escribir R datos m =
     (case (case m of
              Desnudo \<Rightarrow> Inr datos
            | Protegido paridad \<Rightarrow>
                if PARIDAD_MAXIMA < paridad then Inl (TecleableParidadExcesiva paridad PARIDAD_MAXIMA)
                else Inr (protect R datos paridad)) of
        Inl e \<Rightarrow> Inl e
      | Inr flujo \<Rightarrow>
          let simbolos = a_cinco_bits flujo;
              con_relleno = div_ceil (length simbolos) 8 * 8
          in Inr (concat (map (\<lambda>i. separador i @
               [if i < length simbolos then ucast (ALFABETO ! unat (simbolos ! i)) else RELLENO])
               [0..<con_relleno])))"

definition ignorado :: "char32 \<Rightarrow> bool" where
  "ignorado c \<longleftrightarrow> is_whitespace c \<or> c = 45 \<or> c = 95 \<or> c = RELLENO"

text \<open>The two readings of an ambiguous character, in angle quotes.\<close>

definition lecturas :: "char32 \<Rightarrow> char32 \<Rightarrow> char32 list" where
  "lecturas a b = [0xAB, a, 0xBB, 32, 111, 32, 0xAB, b, 0xBB]"

text \<open>What one character stands for.\<close>

definition simbolo_de :: "char32 \<Rightarrow> nat \<Rightarrow> tecleable_error + u8" where
  "simbolo_de c posicion =
     (let arriba = to_ascii_uppercase c;
          arriba = (if arriba = 48 then 79 else arriba)
      in if arriba = 49 then Inl (CaracterAmbiguo c posicion (lecturas 73 76))
         else if arriba = 56 then Inl (CaracterAmbiguo c posicion (lecturas 66 83))
         else
           case find (\<lambda>i. ucast (ALFABETO ! i) = arriba) [0..<length ALFABETO] of
             Some i \<Rightarrow> Inr (of_nat i)
           | None \<Rightarrow> Inl (CaracterImposible c posicion))"

fun leer_simbolos_loop :: "char32 list \<Rightarrow> nat \<Rightarrow> bytes \<Rightarrow> tecleable_error + bytes" where
  "leer_simbolos_loop [] posicion simbolos = Inr simbolos"
| "leer_simbolos_loop (c # texto) posicion simbolos =
     (if ignorado c then leer_simbolos_loop texto posicion simbolos
      else
        case simbolo_de c posicion of
          Inl e \<Rightarrow> Inl e
        | Inr s \<Rightarrow> leer_simbolos_loop texto (posicion + 1) (simbolos @ [s]))"

text \<open>The outer option is the panic of the decoder.\<close>

definition leer :: "reed_solomon \<Rightarrow> char32 list \<Rightarrow> marco \<Rightarrow> (tecleable_error + bytes) option" where
  "leer R texto m =
     (case leer_simbolos_loop texto 0 [] of
        Inl e \<Rightarrow> Some (Inl e)
      | Inr simbolos \<Rightarrow>
          if simbolos = [] then Some (Inl TecleableVacio)
          else
            let flujo = de_cinco_bits simbolos
            in case m of
                 Desnudo \<Rightarrow> Some (Inr flujo)
               | Protegido _ \<Rightarrow>
                   (case recover R flujo of
                      None \<Rightarrow> None
                    | Some None \<Rightarrow> Some (Inl TecleableNoSeRecupera)
                    | Some (Some d) \<Rightarrow> Some (Inr d)))"

definition papel_error_from :: "tecleable_error \<Rightarrow> papel_error" where
  "papel_error_from _ = NoSeRecupera"

section \<open>The bits of the symbols\<close>

lemma mask_5: "(0x1f :: 'a :: len word) = mask 5"
  by (simp add: mask_numeral)

lemma mask_8: "(0xff :: 'a :: len word) = mask 8"
  by (simp add: mask_numeral)

lemma bits_salida:
  fixes acc :: u16
  shows "bits_de 5 (ucast (acc AND 0x1f) :: u8) = bits_de 5 acc" "bits_de 8 (ucast (acc AND 0xff) :: u8) = bits_de 8 acc"
  by (simp_all add: mask_5 mask_8 bits_de_ucast bits_de_mask)

lemma unat_cinco: "unat (ucast (x AND 0x1f :: u16) :: u8) < 32"
proof -
  have "unat (x AND 0x1f) < 32"
    unfolding mask_5 take_bit_eq_mask [symmetric] unsigned_take_bit_eq
    using take_bit_nat_less_exp [of 5 "unat x"] by simp
  then show ?thesis by (simp add: unsigned_ucast_eq take_bit_nat_eq_self)
qed

lemma vaciar_cinco_bits:
  assumes "vaciar_cinco acc bits salida = (bits', salida')"
  shows "bits' < 5 \<and> plano 5 salida' @ bits_de bits' acc = plano 5 salida @ bits_de bits acc \<and>
    (\<exists>xs. salida' = salida @ xs \<and> set xs \<subseteq> range (\<lambda>x. ucast (x AND 0x1f :: u16)))"
  using assms
proof (induction acc bits salida rule: vaciar_cinco.induct)
  case (1 acc bits salida)
  show ?case
  proof (cases "5 \<le> bits")
    case True
    let ?s = "ucast (drop_bit (bits - 5) acc AND 0x1f) :: u8"
    have e: "vaciar_cinco acc (bits - 5) (salida @ [?s]) = (bits', salida')"
      using "1.prems" True by (subst (asm) vaciar_cinco.simps) simp
    have "bits_de bits acc = bits_de 5 (drop_bit (bits - 5) acc) @ bits_de (bits - 5) acc"
      using bits_de_split [of 5 "bits - 5" acc] True by simp
    moreover note IH = "1.IH" [OF True e]
    ultimately have "plano 5 salida' @ bits_de bits' acc = plano 5 salida @ bits_de bits acc"
      by (simp add: bits_salida)
    moreover obtain xs where "salida' = (salida @ [?s]) @ xs" "set xs \<subseteq> range (\<lambda>x. ucast (x AND 0x1f :: u16))"
      using IH by blast
    then have "salida' = salida @ (?s # xs)" "set (?s # xs) \<subseteq> range (\<lambda>x. ucast (x AND 0x1f :: u16))"
      by auto
    ultimately show ?thesis using IH by blast
  next
    case False
    then have "bits' = bits" "salida' = salida" using "1.prems" by (subst (asm) vaciar_cinco.simps, simp)+
    then show ?thesis using False by auto
  qed
qed

lemma bits_entrada_8:
  assumes "bits < 8"
  shows "bits_de (bits + 8) (push_bit 8 acc OR ucast (b :: u8) :: u16) = bits_de bits acc @ bits_de 8 b"
proof -
  have "bits_de (bits + 8) (push_bit 8 acc OR ucast b :: u16) = bits_de bits acc @ bits_de 8 (ucast b :: u16)"
    using assms by (intro bits_de_shift_in) (auto simp: bit_ucast_iff dest: bit_imp_le_length)
  then show ?thesis by (simp add: bits_de_ucast)
qed

lemma bits_entrada_5: "bits < 8 \<Longrightarrow> bits_de (bits + 5) (push_bit 5 acc OR ucast (s AND 0x1f :: u8) :: u16) = bits_de bits acc @ bits_de 5 s"
proof -
  assume "bits < 8"
  then have "bits_de (bits + 5) (push_bit 5 acc OR ucast (s AND 0x1f :: u8) :: u16) =
      bits_de bits acc @ bits_de 5 (ucast (s AND 0x1f :: u8) :: u16)"
    by (intro bits_de_shift_in) (auto simp: mask_5 bit_simps)
  then show ?thesis by (simp add: bits_de_ucast mask_5 bits_de_mask)
qed

text \<open>Both directions keep the bits; what is left is padding, or less than a byte.\<close>

lemma a_cinco_loop_bits:
  "bits < 5 \<Longrightarrow> \<exists>pad. length pad < 5 \<and> (\<forall>p \<in> set pad. \<not> p) \<and>
    plano 5 (a_cinco_loop datos acc bits salida) = plano 5 salida @ bits_de bits acc @ plano 8 datos @ pad"
proof (induction datos acc bits salida rule: a_cinco_loop.induct)
  case (1 acc bits salida)
  have e: "bits_de 5 (ucast (push_bit (5 - bits) acc AND 0x1f) :: u8) = bits_de bits acc @ replicate (5 - bits) False"
    using 1 by (simp add: bits_salida bits_de_push)
  show ?case
  proof (cases "0 < bits")
    case True
    then show ?thesis using 1 e by (intro exI [of _ "replicate (5 - bits) False"]) simp
  next
    case False
    then show ?thesis by (intro exI [of _ "[]"]) simp
  qed
next
  case (2 b datos acc bits salida)
  let ?acc = "push_bit 8 acc OR ucast b"
  obtain bits' salida' where v: "vaciar_cinco ?acc (bits + 8) salida = (bits', salida')" by fastforce
  note vb = vaciar_cinco_bits [OF v]
  obtain pad where pad: "length pad < 5" "\<forall>p \<in> set pad. \<not> p"
      "plano 5 (a_cinco_loop datos ?acc bits' salida') = plano 5 salida' @ bits_de bits' ?acc @ plano 8 datos @ pad"
    using "2.IH" [OF refl v [symmetric] refl] vb by blast
  have "plano 5 salida' @ bits_de bits' ?acc = plano 5 salida @ bits_de bits acc @ bits_de 8 b"
    using vb bits_entrada_8 [of bits acc b] "2.prems" by simp
  then have "plano 5 (a_cinco_loop datos ?acc bits' salida') = plano 5 salida @ bits_de bits acc @ plano 8 (b # datos) @ pad"
    unfolding pad(3) by (metis append.assoc plano_simps(2))
  then show ?case using pad(1,2) v by (auto simp: Let_def)
qed

lemma de_cinco_loop_bits:
  "bits < 8 \<Longrightarrow> \<exists>resto. length resto < 8 \<and>
    plano 8 salida @ bits_de bits acc @ plano 5 simbolos = plano 8 (de_cinco_loop simbolos acc bits salida) @ resto"
proof (induction simbolos acc bits salida rule: de_cinco_loop.induct)
  case (1 acc bits salida)
  then show ?case by (intro exI [of _ "bits_de bits acc"]) simp
next
  case (2 s simbolos acc bits salida)
  let ?acc = "push_bit 5 acc OR ucast (s AND 0x1f) :: u16"
  note e = bits_entrada_5 [OF "2.prems", of acc s]
  show ?case
  proof (cases "8 \<le> bits + 5")
    case True
    let ?b = "ucast (drop_bit (bits + 5 - 8) ?acc AND 0xff) :: u8"
    have "bits + 5 - 8 < 8" using "2.prems" by simp
    with "2.IH"(1) [OF refl refl True] obtain resto where resto: "length resto < 8"
      "plano 8 (salida @ [?b]) @ bits_de (bits + 5 - 8) ?acc @ plano 5 simbolos =
        plano 8 (de_cinco_loop simbolos ?acc (bits + 5 - 8) (salida @ [?b])) @ resto" by blast
    have "bits_de (bits + 5) ?acc = bits_de 8 ?b @ bits_de (bits + 5 - 8) ?acc"
    proof -
      have eight: "8 + (bits + 5 - 8) = bits + 5" using True by simp
      show ?thesis using bits_de_split [of 8 "bits + 5 - 8" ?acc] by (simp only: eight bits_salida)
    qed
    with e have "bits_de bits acc @ bits_de 5 s = bits_de 8 ?b @ bits_de (bits + 5 - 8) ?acc" by (simp only:)
    from arg_cong [OF this, of "\<lambda>x. plano 8 salida @ x @ plano 5 simbolos"]
    have "plano 8 salida @ bits_de bits acc @ plano 5 (s # simbolos) =
        plano 8 (salida @ [?b]) @ bits_de (bits + 5 - 8) ?acc @ plano 5 simbolos"
      by (simp only: plano_simps append_assoc append_Nil2 append_Nil)
    then have "plano 8 salida @ bits_de bits acc @ plano 5 (s # simbolos) =
        plano 8 (de_cinco_loop (s # simbolos) acc bits salida) @ resto"
      using resto(2) by (simp only: de_cinco_loop.simps Let_def if_P [OF True])
    then show ?thesis using resto(1) by blast
  next
    case False
    then have "bits + 5 < 8" by simp
    with "2.IH"(2) [OF refl refl False] obtain resto where "length resto < 8"
      "plano 8 salida @ bits_de (bits + 5) ?acc @ plano 5 simbolos =
        plano 8 (de_cinco_loop simbolos ?acc (bits + 5) salida) @ resto" by blast
    then show ?thesis using e False by (auto simp: Let_def)
  qed
qed

lemma a_cinco_bits_plano:
  obtains pad where "length pad < 5" "\<forall>p \<in> set pad. \<not> p" "plano 5 (a_cinco_bits datos) = plano 8 datos @ pad"
  using a_cinco_loop_bits [of 0 datos 0 "[]"] by (auto simp: a_cinco_bits_def)

lemma de_cinco_bits_plano:
  obtains resto where "length resto < 8" "plano 5 simbolos = plano 8 (de_cinco_bits simbolos) @ resto"
  using de_cinco_loop_bits [of 0 "[]" 0 simbolos] by (auto simp: de_cinco_bits_def)

lemma de_a_cinco_bits: "de_cinco_bits (a_cinco_bits datos) = datos"
proof -
  obtain pad where pad: "length pad < 5" "plano 5 (a_cinco_bits datos) = plano 8 datos @ pad"
    by (rule a_cinco_bits_plano)
  obtain resto where "length resto < 8" "plano 5 (a_cinco_bits datos) = plano 8 (de_cinco_bits (a_cinco_bits datos)) @ resto"
    by (rule de_cinco_bits_plano)
  with pad show ?thesis by (intro plano_unique [of _ resto _ pad]) simp_all
qed

lemma length_de_cinco_bits: "length (de_cinco_bits simbolos) = 5 * length simbolos div 8"
proof -
  obtain resto where "length resto < 8" "plano 5 simbolos = plano 8 (de_cinco_bits simbolos) @ resto"
    by (rule de_cinco_bits_plano)
  then have "5 * length simbolos = 8 * length (de_cinco_bits simbolos) + length resto"
    by (metis length_append length_plano)
  then show ?thesis using \<open>length resto < 8\<close> by simp
qed

text \<open>Symbols have five bits.\<close>

lemma a_cinco_loop_less:
  "set salida \<subseteq> {x. unat x < 32} \<Longrightarrow> set (a_cinco_loop datos acc bits salida) \<subseteq> {x. unat x < 32}"
proof (induction datos acc bits salida rule: a_cinco_loop.induct)
  case (1 acc bits salida)
  then show ?case using unat_cinco by auto
next
  case (2 b datos acc bits salida)
  obtain bits' salida' where v: "vaciar_cinco (push_bit 8 acc OR ucast b) (bits + 8) salida = (bits', salida')"
    by fastforce
  from vaciar_cinco_bits [OF v] obtain xs where xs: "salida' = salida @ xs" "set xs \<subseteq> range (\<lambda>x. ucast (x AND 0x1f :: u16))"
    by blast
  have "unat x < 32" if x: "x \<in> set xs" for x
  proof -
    obtain y where "x = ucast (y AND 0x1f :: u16)" using xs(2) x by blast
    then show ?thesis using unat_cinco by (simp only:)
  qed
  then have "set salida' \<subseteq> {x. unat x < 32}" using 2(2) xs(1) by auto
  then show ?case using "2.IH" [OF refl v [symmetric] refl] v by (simp add: Let_def)
qed

lemma a_cinco_bits_less: "s \<in> set (a_cinco_bits datos) \<Longrightarrow> unat s < 32"
  using a_cinco_loop_less [of "[]" datos 0 0] by (auto simp: a_cinco_bits_def)

section \<open>Characters\<close>

text \<open>What a character is taken for, and the symbols of a text that is read without errors.\<close>

definition corregido :: "char32 \<Rightarrow> char32" where
  "corregido c = (let a = to_ascii_uppercase c in if a = 48 then 79 else a)"

definition utiles :: "char32 list \<Rightarrow> char32 list" where
  "utiles texto = filter (\<lambda>c. \<not> ignorado c) texto"

definition valor :: "char32 \<Rightarrow> u8 option" where
  "valor a = (if a = 49 \<or> a = 56 then None
     else map_option of_nat (find (\<lambda>i. ucast (ALFABETO ! i) = a) [0..<length ALFABETO]))"

lemma simbolo_de_valor: "simbolo_de c pos = Inr x \<longleftrightarrow> valor (corregido c) = Some x"
  by (auto simp: simbolo_de_def valor_def corregido_def Let_def split: option.splits)

lemma leer_simbolos_iff:
  "leer_simbolos_loop texto pos acc = Inr ss \<longleftrightarrow>
     (\<exists>xs. map (\<lambda>c. valor (corregido c)) (utiles texto) = map Some xs \<and> ss = acc @ xs)"
proof (induction texto pos acc rule: leer_simbolos_loop.induct)
  case (2 c texto pos acc)
  show ?case
  proof (cases "ignorado c")
    case False
    show ?thesis
    proof (cases "simbolo_de c pos")
      case (Inl e)
      then have "valor (corregido c) = None"
        using simbolo_de_valor [of c pos] by (cases "valor (corregido c)") auto
      then show ?thesis using False Inl by (auto simp: utiles_def map_eq_Cons_conv)
    next
      case (Inr x)
      then have "valor (corregido c) = Some x" by (simp only: simbolo_de_valor)
      then show ?thesis using False Inr "2.IH"(2) [OF False Inr]
        by (auto simp: utiles_def Cons_eq_map_conv)
    qed
  qed (use 2 in \<open>simp add: utiles_def\<close>)
qed (auto simp: utiles_def)

text \<open>The characters of the alphabet are read as themselves.\<close>

lemma ALFABETO_list:
  "ALFABETO = [65, 66, 67, 68, 69, 70, 71, 72, 73, 74, 75, 76, 77, 78, 79, 80, 81, 82, 83, 84, 85, 86, 87, 88,
     89, 90, 50, 51, 52, 53, 54, 55]"
  by (simp add: ALFABETO_def)

lemma ALFABETO_ok:
  "list_all (\<lambda>i. valor (corregido (ucast (ALFABETO ! i))) = Some (of_nat i) \<and> corregido (ucast (ALFABETO ! i)) =
     ucast (ALFABETO ! i) \<and> \<not> ignorado (ucast (ALFABETO ! i))) [0..<32]"
  unfolding ALFABETO_list valor_def
  by (simp add: upt_rec corregido_def to_ascii_uppercase_def Let_def ignorado_def is_whitespace_def RELLENO_def
      word_le_nat_alt)

lemma alfabeto:
  assumes "unat s < 32"
  shows "valor (corregido (ucast (ALFABETO ! unat s))) = Some s"
    "corregido (ucast (ALFABETO ! unat s)) = ucast (ALFABETO ! unat s)" "\<not> ignorado (ucast (ALFABETO ! unat s))"
proof -
  have "unat s \<in> set [0..<32]" using assms by (simp del: upt_rec_numeral)
  note A = ALFABETO_ok [unfolded list_all_iff, THEN bspec, OF this]
  have eq: "of_nat (unat s) = s" by simp
  show "valor (corregido (ucast (ALFABETO ! unat s))) = Some s"
    "corregido (ucast (ALFABETO ! unat s)) = ucast (ALFABETO ! unat s)" "\<not> ignorado (ucast (ALFABETO ! unat s))"
    using A unfolding eq by blast+
qed

lemma separador_ignorado: "c \<in> set (separador i) \<Longrightarrow> ignorado c"
  by (auto simp: separador_def ignorado_def is_whitespace_def word_le_nat_alt split: if_splits)

lemma utiles_append [simp]: "utiles (xs @ ys) = utiles xs @ utiles ys"
  by (simp add: utiles_def)

lemma utiles_separador [simp]: "utiles (separador i) = []"
  using separador_ignorado by (auto simp: utiles_def filter_empty_conv)

text \<open>The characters that count in what was written.\<close>

lemma utiles_escrito:
  fixes simbolos :: bytes
  assumes "\<forall>s \<in> set simbolos. unat s < 32" and "length simbolos \<le> n"
  shows "utiles (concat (map (\<lambda>i. separador i @
      [if i < length simbolos then ucast (ALFABETO ! unat (simbolos ! i)) else RELLENO]) [0..<n])) =
    map (\<lambda>s. ucast (ALFABETO ! unat s)) simbolos"
proof -
  let ?f = "\<lambda>i. separador i @ [if i < length simbolos then ucast (ALFABETO ! unat (simbolos ! i)) else RELLENO]"
  have relleno: "ignorado RELLENO" by (simp add: ignorado_def)
  have "utiles (concat (map ?f [0..<m])) = map (\<lambda>s. ucast (ALFABETO ! unat s)) (take m simbolos)" for m
  proof (induction m)
    case (Suc m)
    have step: "utiles (concat (map ?f [0..<Suc m])) = utiles (concat (map ?f [0..<m])) @ utiles (?f m)"
      by simp
    show ?case
    proof (cases "m < length simbolos")
      case True
      then have "unat (simbolos ! m) < 32" using assms(1) by simp
      then have "utiles (?f m) = [ucast (ALFABETO ! unat (simbolos ! m))]"
        using alfabeto(3) True by (simp add: utiles_def [of "[_]"])
      then show ?thesis unfolding step Suc using True by (simp add: take_Suc_conv_app_nth)
    next
      case False
      then have "utiles (?f m) = []" using relleno by (simp add: utiles_def [of "[_]"])
      then show ?thesis unfolding step Suc using False by simp
    qed
  qed (simp add: utiles_def)
  from this [of n] show ?thesis using assms(2) by simp
qed

text \<open>The stream that is written in each frame, and what the reader makes of it.\<close>

definition flujo_de :: "reed_solomon \<Rightarrow> bytes \<Rightarrow> marco \<Rightarrow> bytes" where
  "flujo_de R datos m = (case m of Desnudo \<Rightarrow> datos | Protegido p \<Rightarrow> protect R datos p)"

lemma escribir_Inr:
  assumes "escribir R datos m = Inr s"
  shows "utiles s = map (\<lambda>x. ucast (ALFABETO ! unat x)) (a_cinco_bits (flujo_de R datos m))"
    and "m = Protegido p \<Longrightarrow> p \<le> PARIDAD_MAXIMA"
proof -
  let ?ss = "a_cinco_bits (flujo_de R datos m)"
  have n: "length ?ss \<le> div_ceil (length ?ss) 8 * 8"
    by (simp add: div_ceil_eq)
  have s: "s = concat (map (\<lambda>i. separador i @
      [if i < length ?ss then ucast (ALFABETO ! unat (?ss ! i)) else RELLENO]) [0..<div_ceil (length ?ss) 8 * 8])"
  proof -
    have "(case m of Desnudo \<Rightarrow> Inr datos | Protegido paridad \<Rightarrow>
        if PARIDAD_MAXIMA < paridad then Inl (TecleableParidadExcesiva paridad PARIDAD_MAXIMA)
        else Inr (protect R datos paridad)) = Inr (flujo_de R datos m)"
      using assms by (auto simp: escribir_def flujo_de_def split: marco.splits if_splits)
    then show ?thesis using assms unfolding escribir_def by (simp only: sum.case Let_def sum.inject)
  qed
  show "utiles s = map (\<lambda>x. ucast (ALFABETO ! unat x)) ?ss"
    unfolding s by (rule utiles_escrito [OF _ n]) (use a_cinco_bits_less in blast)
  show "m = Protegido p \<Longrightarrow> p \<le> PARIDAD_MAXIMA"
    using assms by (auto simp: escribir_def split: if_splits)
qed

lemma leer_escrito:
  assumes "escribir R datos m = Inr s" and "map corregido (utiles t) = map corregido (utiles s)"
  shows "leer_simbolos_loop t 0 [] = Inr (a_cinco_bits (flujo_de R datos m))"
proof -
  let ?ss = "a_cinco_bits (flujo_de R datos m)"
  have "map (\<lambda>c. valor (corregido c)) (utiles t) = map valor (map corregido (utiles s))"
    by (simp only: assms(2) [symmetric] map_map comp_def)
  also have "\<dots> = map Some ?ss"
    unfolding escribir_Inr(1) [OF assms(1)] map_map
    by (rule map_cong) (simp_all add: alfabeto(1) a_cinco_bits_less)
  finally show ?thesis by (simp add: leer_simbolos_iff)
qed

section \<open>Typing errors\<close>

text \<open>A symbol is a part of two bytes at most.\<close>

lemma bytes_tocados: "card {i :: nat. 8 * i \<le> 5 * j + 4 \<and> 5 * j < 8 * i + 8} \<le> 2"
proof -
  have "{i :: nat. 8 * i \<le> 5 * j + 4 \<and> 5 * j < 8 * i + 8} \<subseteq> {5 * j div 8, 5 * j div 8 + 1}"
    by auto
  then have "card {i :: nat. 8 * i \<le> 5 * j + 4 \<and> 5 * j < 8 * i + 8} \<le> card {5 * j div 8, 5 * j div 8 + 1}"
    by (intro card_mono) simp_all
  then show ?thesis by simp
qed

lemma de_cinco_bits_nth:
  assumes len: "length ss = length ss'" and i: "i < length (de_cinco_bits ss)"
    and eq: "\<And>j. j < length ss \<Longrightarrow> 8 * i \<le> 5 * j + 4 \<Longrightarrow> 5 * j < 8 * i + 8 \<Longrightarrow> ss ! j = ss' ! j"
  shows "de_cinco_bits ss ! i = de_cinco_bits ss' ! i"
proof -
  obtain r where r: "plano 5 ss = plano 8 (de_cinco_bits ss) @ r" by (rule de_cinco_bits_plano)
  obtain r' where r': "plano 5 ss' = plano 8 (de_cinco_bits ss') @ r'" by (rule de_cinco_bits_plano)
  have i': "i < length (de_cinco_bits ss')" using i len by (simp add: length_de_cinco_bits)
  have b: "8 * i + 8 \<le> 5 * length ss" using i by (simp add: length_de_cinco_bits)
  have t: "take 8 (drop (8 * i) (plano 5 xs)) = bits_de 8 (de_cinco_bits xs ! i)"
    if "plano 5 xs = plano 8 (de_cinco_bits xs) @ q" "i < length (de_cinco_bits xs)" for xs q
  proof -
    have "8 * i + 8 \<le> length (plano 8 (de_cinco_bits xs))" using that(2) by simp
    then have "take 8 (drop (8 * i) (plano 8 (de_cinco_bits xs) @ q)) = take 8 (drop (8 * i) (plano 8 (de_cinco_bits xs)))"
      by (simp del: length_plano)
    then show ?thesis using plano_block [OF that(2), of 8] that(1) by simp
  qed
  have "take 8 (drop (8 * i) (plano 5 ss)) = take 8 (drop (8 * i) (plano 5 ss'))"
  proof (rule nth_equalityI)
    fix k assume "k < length (take 8 (drop (8 * i) (plano 5 ss)))"
    then have k: "k < 8" by simp
    let ?q = "8 * i + k"
    have q: "?q < 5 * length ss" "?q < 5 * length ss'" using b k len by simp_all
    have "5 * (?q div 5) \<le> ?q" "?q < 5 * (?q div 5) + 5" by simp_all
    then have "ss ! (?q div 5) = ss' ! (?q div 5)" using k q by (intro eq) simp_all
    then have "plano 5 ss ! ?q = plano 5 ss' ! ?q" using q by (simp add: plano_nth)
    then show "take 8 (drop (8 * i) (plano 5 ss)) ! k = take 8 (drop (8 * i) (plano 5 ss')) ! k"
      using k q by simp
  qed (simp add: len)
  then have "bits_de 8 (de_cinco_bits ss ! i) = bits_de 8 (de_cinco_bits ss' ! i)"
    using t [OF r i] t [OF r' i'] by simp
  then show ?thesis using bits_de_inj [of "de_cinco_bits ss ! i" "de_cinco_bits ss' ! i"] by simp
qed

lemma hdist_de_cinco_bits:
  assumes len: "length ss = length ss'"
  shows "hdist (de_cinco_bits ss) (de_cinco_bits ss') \<le> 2 * hdist ss ss'"
proof -
  let ?D = "{j. j < length ss \<and> ss ! j \<noteq> ss' ! j}"
  let ?A = "\<lambda>j. {i :: nat. 8 * i \<le> 5 * j + 4 \<and> 5 * j < 8 * i + 8}"
  have fin: "finite (?A j)" for j by (rule finite_subset [of _ "{..5 * j + 4}"]) auto
  have "{i. i < length (de_cinco_bits ss) \<and> de_cinco_bits ss ! i \<noteq> de_cinco_bits ss' ! i} \<subseteq> (\<Union>j \<in> ?D. ?A j)"
    using de_cinco_bits_nth [OF len] by blast
  then have "hdist (de_cinco_bits ss) (de_cinco_bits ss') \<le> card (\<Union>j \<in> ?D. ?A j)"
    using fin len by (simp add: hdist_card length_de_cinco_bits card_mono)
  also have "\<dots> \<le> (\<Sum>j \<in> ?D. card (?A j))" by (rule card_UN_le) simp
  also have "\<dots> \<le> (\<Sum>j \<in> ?D. 2)" by (rule sum_mono) (rule bytes_tocados)
  also have "\<dots> = 2 * hdist ss ss'" using len by (simp add: hdist_card)
  finally show ?thesis .
qed

lemma hdist_ventana: "hdist (take L (drop a xs)) (take L (drop a ys)) \<le> hdist xs ys"
proof -
  have "zip (take L (drop a xs)) (take L (drop a ys)) = take L (drop a (zip xs ys))"
    by (simp add: take_zip drop_zip)
  moreover have "length (filter P (take L (drop a zs))) \<le> length (filter P zs)" for P and zs :: "('b \<times> 'b) list"
  proof -
    have "zs = take a zs @ take L (drop a zs) @ drop L (drop a zs)" by (simp only: append_take_drop_id)
    then have "filter P zs = filter P (take a zs) @ filter P (take L (drop a zs)) @ filter P (drop L (drop a zs))"
      by (metis filter_append)
    then show ?thesis by simp
  qed
  ultimately show ?thesis by (simp add: hdist_def)
qed

text \<open>What is read of symbols close to the ones written.\<close>

lemma recover_cerca:
  assumes R: "rs_ok R" and len: "length datos < 2 ^ 32" and p: "p \<le> PARIDAD_MAXIMA"
    and ss: "length ss' = length ss" "de_cinco_bits ss = protect R datos p"
    and d: "2 * hdist ss' ss \<le> min 5 (unat p div 2)"
  shows "recover R (de_cinco_bits ss') = Some (Some datos)"
proof (rule recover_protect [OF R len])
  let ?h = "hdist (de_cinco_bits ss') (protect R datos p)"
  show l: "length (de_cinco_bits ss') = length (protect R datos p)"
    using ss by (simp add: length_de_cinco_bits [of ss'] flip: length_de_cinco_bits [of ss])
  have h: "?h \<le> 2 * hdist ss' ss" using hdist_de_cinco_bits [OF ss(1)] ss(2) by simp
  then have h5: "?h \<le> 5" "?h \<le> unat p div 2" using d by simp_all
  show "hdist (take 15 (de_cinco_bits ss')) (take 15 (protect R datos p)) \<le> 5"
    using hdist_ventana [of 15 0 "de_cinco_bits ss'" "protect R datos p"] h5(1) by simp
  have "unat p \<le> unat (clamp p)"
    using clamp_range [of p] p by (simp add: word_le_nat_alt PARIDAD_MAXIMA_def)
  then have "unat p div 2 \<le> unat (clamp p) div 2" by (rule div_le_mono)
  then show "ventanas 255 (unat (clamp p) div 2) (de_cinco_bits ss') (protect R datos p)"
    using hdist_ventana h5(2) le_trans unfolding ventanas_def by blast
qed

lemma a_cinco_bits_Nil_iff: "a_cinco_bits datos = [] \<longleftrightarrow> datos = []"
  using de_a_cinco_bits [of datos] by (auto simp: a_cinco_bits_def de_cinco_bits_def)

lemma protect_ne: "rs_ok R \<Longrightarrow> protect R datos p \<noteq> []"
  using length_protect [of R datos p] by auto

lemma leer_Protegido:
  assumes "leer_simbolos_loop t 0 [] = Inr ss" and "ss \<noteq> []" and "recover R (de_cinco_bits ss) = Some (Some d)"
  shows "leer R t (Protegido p) = Some (Inr d)"
  using assms by (simp add: leer_def Let_def)

section \<open>Properties\<close>

text \<open>
  What \<^verbatim>\<open>escribir\<close> printed is read back from any typing of it: in lower or upper case, with
  blanks, line breaks and hyphens anywhere, and zero for the letter O, in both frames.
\<close>
lemma tecleable_roundtrip:
  assumes "escribir R datos m = Inr s" and "map corregido (utiles t) = map corregido (utiles s)"
    and "m = Desnudo \<longrightarrow> datos \<noteq> []" and "m \<noteq> Desnudo \<longrightarrow> rs_ok R \<and> length datos < 2 ^ 32"
  shows "leer R t m = Some (Inr datos)"
proof (cases m)
  case Desnudo
  then show ?thesis using leer_escrito [OF assms(1,2)] assms(3)
    by (simp add: leer_def flujo_de_def a_cinco_bits_Nil_iff de_a_cinco_bits Let_def)
next
  case (Protegido p)
  note read = leer_escrito [OF assms(1,2), unfolded flujo_de_def Protegido marco.case]
  have "recover R (de_cinco_bits (a_cinco_bits (protect R datos p))) = Some (Some datos)"
    using assms(4) escribir_Inr(2) [OF assms(1) Protegido] Protegido
    by (intro recover_cerca [where ss = "a_cinco_bits (protect R datos p)" and p = p]) (simp_all add: de_a_cinco_bits)
  then show ?thesis
    using leer_Protegido [OF read] assms(4) Protegido by (simp add: a_cinco_bits_Nil_iff protect_ne)
qed

text \<open>The letter f, as in the RFC, typed with a lower case letter and a blank.\<close>

lemma tecleable_roundtrip_example:
  "escribir reed [102] Desnudo = Inr [77, 89, 61, 61, 61, 32, 61, 61, 61] \<and>
   leer reed [109, 45, 121] Desnudo = Some (Inr [102])"
proof -
  have "a_cinco_bits [102] = [12, 24]"
    by (simp add: a_cinco_bits_def vaciar_cinco.simps)
  then have e: "escribir reed [102] Desnudo = Inr [77, 89, 61, 61, 61, 32, 61, 61, 61]"
    by (simp add: escribir_def Let_def div_ceil_def upt_rec separador_def GRUPO_def GRUPOS_POR_LINEA_def
        ALFABETO_list RELLENO_def)
  have "map corregido (utiles [109, 45, 121]) = map corregido (utiles [77, 89, 61, 61, 61, 32, 61, 61, 61])"
    by (simp add: utiles_def ignorado_def is_whitespace_def RELLENO_def corregido_def to_ascii_uppercase_def
        word_le_nat_alt)
  from tecleable_roundtrip [OF e this] e show ?thesis by simp
qed

text \<open>The first character that is no symbol stops the reader, with its place among those that count.\<close>

lemma leer_simbolos_error:
  assumes "valor (corregido (utiles texto ! i)) = None" "i < length (utiles texto)"
    and "\<forall>j < i. valor (corregido (utiles texto ! j)) \<noteq> None"
  shows "\<exists>e. simbolo_de (utiles texto ! i) (pos + i) = Inl e \<and> leer_simbolos_loop texto pos acc = Inl e"
  using assms
proof (induction texto pos acc arbitrary: i rule: leer_simbolos_loop.induct)
  case (2 c texto pos acc)
  show ?case
  proof (cases "ignorado c")
    case True
    with 2 show ?thesis by (simp add: utiles_def)
  next
    case False
    then have u: "utiles (c # texto) = c # utiles texto" by (simp add: utiles_def)
    show ?thesis
    proof (cases "simbolo_de c pos")
      case (Inl e)
      then have "valor (corregido c) = None" using simbolo_de_valor [of c pos] by (cases "valor (corregido c)") auto
      then have "i = 0" using "2.prems"(3) by (cases i) (auto simp: u)
      then show ?thesis using Inl False by (simp add: u)
    next
      case (Inr x)
      then have v: "valor (corregido c) = Some x" by (simp only: simbolo_de_valor)
      then obtain k where k: "i = Suc k" using "2.prems"(1) by (cases i) (auto simp: u)
      have p: "valor (corregido (utiles texto ! k)) = None" "k < length (utiles texto)"
        "\<forall>j < k. valor (corregido (utiles texto ! j)) \<noteq> None"
        using "2.prems" by (auto simp: u k)
      from "2.IH"(2) [OF False Inr p] show ?thesis by (simp add: u k False Inr)
    qed
  qed
qed (simp add: utiles_def)

lemma hdist_valores:
  assumes "map (\<lambda>c. valor (corregido c)) us = map Some xs" "map (\<lambda>c. valor (corregido c)) vs = map Some ys"
    and "length us = length vs"
  shows "hdist xs ys \<le> hdist us vs" "length xs = length ys"
proof -
  have l: "length xs = length us" "length ys = length vs" using assms by (metis length_map)+
  then show "length xs = length ys" using assms(3) by simp
  have n: "valor (corregido (us ! i)) = Some (xs ! i)" "valor (corregido (vs ! i)) = Some (ys ! i)" if "i < length us" for i
    using that l assms(3) arg_cong [OF assms(1), of "\<lambda>zs. zs ! i"] arg_cong [OF assms(2), of "\<lambda>zs. zs ! i"] by simp_all
  have "{i. i < length xs \<and> xs ! i \<noteq> ys ! i} \<subseteq> {i. i < length us \<and> us ! i \<noteq> vs ! i}"
    using n l by force
  then show "hdist xs ys \<le> hdist us vs"
    using l assms(3) by (simp add: hdist_card card_mono)
qed

text \<open>
  C19. In the protected frame, mistyped characters are corrected or named.  Take a text with as many
  characters that count as the one that was printed (blanks, hyphens and padding do not), of which as many
  are wrong as half of what the header's block and every data block correct, since one character reaches
  two bytes at most.  If every character can be read as a symbol, after the corrections of case and of zero,
  the data comes back; otherwise the error of the first one that cannot, such as \<^verbatim>\<open>1\<close> or \<^verbatim>\<open>8\<close>, is given,
  with the character and its place.
\<close>
theorem tecleable_tolerates_typos:
  assumes "rs_ok R" and "length datos < 2 ^ 32" and "escribir R datos (Protegido p) = Inr s"
    and "length (utiles t) = length (utiles s)" and "2 * hdist (utiles t) (utiles s) \<le> min 5 (unat p div 2)"
  shows "((\<forall>c \<in> set (utiles t). valor (corregido c) \<noteq> None) \<longrightarrow> leer R t (Protegido p) = Some (Inr datos)) \<and>
    (\<forall>i < length (utiles t). valor (corregido (utiles t ! i)) = None \<longrightarrow>
      (\<forall>j < i. valor (corregido (utiles t ! j)) \<noteq> None) \<longrightarrow>
      (\<exists>e. simbolo_de (utiles t ! i) i = Inl e \<and> leer R t (Protegido p) = Some (Inl e)))"
proof (intro conjI impI allI)
  assume "\<forall>c \<in> set (utiles t). valor (corregido c) \<noteq> None"
  then have "map (\<lambda>c. valor (corregido c)) (utiles t) = map Some (map (\<lambda>c. the (valor (corregido c))) (utiles t))"
    by (auto simp: list_eq_iff_nth_eq)
  then obtain ss' where t: "map (\<lambda>c. valor (corregido c)) (utiles t) = map Some ss'" by blast
  let ?ss = "a_cinco_bits (protect R datos p)"
  have "leer_simbolos_loop s 0 [] = Inr ?ss" using leer_escrito [OF assms(3) refl] by (simp add: flujo_de_def)
  then have s: "map (\<lambda>c. valor (corregido c)) (utiles s) = map Some ?ss" by (simp add: leer_simbolos_iff)
  note h = hdist_valores [OF t s assms(4)]
  have "recover R (de_cinco_bits ss') = Some (Some datos)"
    by (rule recover_cerca [OF assms(1,2) escribir_Inr(2) [OF assms(3) refl] h(2)])
      (use h(1) assms(5) in \<open>simp_all add: de_a_cinco_bits\<close>)
  moreover have "ss' \<noteq> []" using h(2) protect_ne [OF assms(1)] by (auto simp: a_cinco_bits_Nil_iff)
  moreover have "leer_simbolos_loop t 0 [] = Inr ss'" using t by (simp add: leer_simbolos_iff)
  ultimately show "leer R t (Protegido p) = Some (Inr datos)" using leer_Protegido by blast
next
  fix i assume "i < length (utiles t)" "valor (corregido (utiles t ! i)) = None"
    "\<forall>j < i. valor (corregido (utiles t ! j)) \<noteq> None"
  then show "\<exists>e. simbolo_de (utiles t ! i) i = Inl e \<and> leer R t (Protegido p) = Some (Inl e)"
    using leer_simbolos_error [of t i 0 "[]"] by (auto simp: leer_def)
qed

theorem tecleable_tolerates_typos_witness:
  "\<exists>s t e. escribir reed [1] (Protegido 8) = Inr s \<and> utiles t \<noteq> utiles s \<and> leer reed t (Protegido 8) = Some (Inr [1]) \<and>
    simbolo_de 56 0 = Inl e \<and> leer reed (56 # tl t) (Protegido 8) = Some (Inl e)"
proof -
  let ?ss = "a_cinco_bits (protect reed [1] 8)"
  let ?f = "\<lambda>x :: u8. ucast (ALFABETO ! unat x) :: char32"
  obtain s where s: "escribir reed [1] (Protegido 8) = Inr s"
    by (simp add: escribir_def PARIDAD_MAXIMA_def Let_def)
  have us: "utiles s = map ?f ?ss" using escribir_Inr(1) [OF s] by (simp add: flujo_de_def)
  have ne: "?ss \<noteq> []" using protect_ne [OF reed_ok] by (simp add: a_cinco_bits_Nil_iff)
  let ?x = "if ?ss ! 0 = 0 then 1 else 0 :: u8"
  let ?t = "?f ?x # tl (map ?f ?ss)"
  have small: "unat x < 32" if "x \<in> set ?ss" for x using that a_cinco_bits_less by blast
  have f: "valor (corregido (?f x)) = Some x" "\<not> ignorado (?f x)" if "unat x < 32" for x
    using alfabeto [OF that] by simp_all
  have x: "unat ?x < 32" "?x \<noteq> ?ss ! 0" by simp_all
  have tl: "unat x < 32" if "x \<in> set (tl ?ss)" for x using that small by (meson list.set_sel(2) ne)
  have u: "utiles (tl (map ?f ?ss)) = tl (map ?f ?ss)"
    using f(2) tl by (auto simp: utiles_def filter_id_conv map_tl [symmetric])
  have ut: "utiles ?t = ?t" using u f(2) [OF x(1)] by (simp add: utiles_def)
  have ub: "utiles (56 # tl ?t) = 56 # tl (map ?f ?ss)"
    using u by (simp add: utiles_def ignorado_def is_whitespace_def RELLENO_def)
  have us': "utiles s = ?f (?ss ! 0) # tl (map ?f ?ss)" using us ne by (cases ?ss) simp_all
  have d: "2 * hdist (c # zs) (c' # zs) \<le> min 5 (unat (8 :: u8) div 2)" for c c' :: char32 and zs
  proof -
    have "filter (\<lambda>(x, y). x \<noteq> y) (zip zs zs) = []" using hdist_same [of zs] unfolding hdist_def by simp
    then show ?thesis by (simp add: hdist_def)
  qed
  have "?t \<noteq> utiles s"
  proof
    assume "?t = utiles s"
    then have "?f ?x = ?f (?ss ! 0)" unfolding us' by simp
    moreover have "unat (?ss ! 0) < 32" using small ne by simp
    ultimately show False using f(1) [of "?ss ! 0"] f(1) [OF x(1)] x(2) by simp
  qed
  then have "utiles ?t \<noteq> utiles s" unfolding ut .
  moreover have "valor (corregido c) \<noteq> None" if "c \<in> set (utiles ?t)" for c
    using that f(1) [OF x(1)] f(1) [OF tl] unfolding ut by (auto simp: map_tl [symmetric])
  then have "leer reed ?t (Protegido 8) = Some (Inr [1])"
    using tecleable_tolerates_typos [OF reed_ok _ s, of ?t] d unfolding ut us' by simp
  moreover have imposible: "simbolo_de 56 0 \<noteq> Inr x" for x
    by (simp add: simbolo_de_def to_ascii_uppercase_def Let_def)
  have "valor (corregido 56) = None"
    using simbolo_de_valor [of 56 0] imposible by (cases "valor (corregido 56)") blast+
  moreover from this have "\<exists>e. simbolo_de 56 0 = Inl e \<and> leer reed (56 # tl ?t) (Protegido 8) = Some (Inl e)"
    using tecleable_tolerates_typos [OF reed_ok _ s, of "56 # tl ?t"] d unfolding ub us' by force
  ultimately show ?thesis using s by blast
qed

text \<open>Nothing in the bare frame is written as nothing, and nothing is what the reader refuses.\<close>

lemma vacio_no_vuelve:
  "escribir R [] Desnudo = Inr [] \<and> leer R [] Desnudo = Some (Inl TecleableVacio)"
  by (simp add: escribir_def a_cinco_bits_def leer_def div_ceil_def)

text \<open>No text makes the reader panic.\<close>

lemma leer_sano: "rs_sano R \<Longrightarrow> leer R texto m \<noteq> None"
  using recover_sano [of R] by (cases m) (simp_all add: leer_def Let_def split: sum.split option.split, metis not_None_eq)

end
