(* ===== verification/Firma.thy ===== *)
theory Firma
  imports Hexutil Instances "HOL-Library.Monad_Syntax"
begin

text \<open>
  \<^verbatim>\<open>src/src/pqsign.rs\<close>: hybrid signatures (Ed25519 and ML-DSA-87, both must verify) and the triple
  mode with SLH-DSA.  The three signature schemes come from other crates: they are the fields of
  the records \<open>firma\<close> and \<open>firma_triple\<close>, with the documented laws in \<open>firma_ok\<close> and \<open>slh_ok\<close>.
\<close>

section \<open>The primitives\<close>

text \<open>
  Seeds and Ed25519 signatures are bytes; \<open>'e\<close> and \<open>'m\<close> are the verification keys, \<open>'g\<close> a decoded
  ML-DSA signature, \<open>'s\<close> an SLH-DSA public key.
\<close>

record ('e, 'm, 'g) firma =
  ed_public :: "bytes \<Rightarrow> 'e"
  ed_sign :: "bytes \<Rightarrow> bytes \<Rightarrow> bytes"
  ed_as_bytes :: "'e \<Rightarrow> bytes"
  ed_from_bytes :: "bytes \<Rightarrow> 'e option"
  ed_verify_strict :: "'e \<Rightarrow> bytes \<Rightarrow> bytes \<Rightarrow> bool"
  ml_public :: "bytes \<Rightarrow> 'm"
  ml_sign :: "bytes \<Rightarrow> bytes \<Rightarrow> 'g"
  ml_encode :: "'m \<Rightarrow> bytes"
  ml_decode :: "bytes \<Rightarrow> 'm"
  ml_sig_encode :: "'g \<Rightarrow> bytes"
  ml_sig_decode :: "bytes \<Rightarrow> 'g option"
  ml_verify :: "'m \<Rightarrow> bytes \<Rightarrow> 'g \<Rightarrow> bool"

record ('e, 'm, 'g, 's) firma_triple = "('e, 'm, 'g) firma" +
  slh_public :: "bytes \<Rightarrow> 's option"
  slh_sign :: "bytes \<Rightarrow> bytes \<Rightarrow> bytes option"
  slh_verify :: "'s \<Rightarrow> bytes \<Rightarrow> bytes \<Rightarrow> bool"
  slh_into_bytes :: "'s \<Rightarrow> bytes"
  slh_from_bytes :: "bytes \<Rightarrow> 's option"

definition ED25519_PUB_LEN :: nat where "ED25519_PUB_LEN = 32"
definition ED25519_SIG_LEN :: nat where "ED25519_SIG_LEN = 64"
definition ED25519_SEED_LEN :: nat where "ED25519_SEED_LEN = 32"
definition MLDSA_VK_LEN :: nat where "MLDSA_VK_LEN = 2592"
definition MLDSA_SIG_LEN :: nat where "MLDSA_SIG_LEN = 4627"
definition MLDSA_SEED_LEN :: nat where "MLDSA_SEED_LEN = 32"
definition VERIFYING_KEY_LEN :: nat where "VERIFYING_KEY_LEN = ED25519_PUB_LEN + MLDSA_VK_LEN"
definition SIGNING_KEY_LEN :: nat where "SIGNING_KEY_LEN = ED25519_SEED_LEN + MLDSA_SEED_LEN"
definition SIGNATURE_LEN :: nat where "SIGNATURE_LEN = ED25519_SIG_LEN + MLDSA_SIG_LEN"

definition SLH_PUB_LEN :: nat where "SLH_PUB_LEN = 64"
definition SLH_SECRET_LEN :: nat where "SLH_SECRET_LEN = 128"
definition SLH_SIG_LEN :: nat where "SLH_SIG_LEN = 29792"
definition TRIPLE_VERIFYING_KEY_LEN :: nat where
  "TRIPLE_VERIFYING_KEY_LEN = ED25519_PUB_LEN + MLDSA_VK_LEN + SLH_PUB_LEN"
definition TRIPLE_SIGNING_KEY_LEN :: nat where
  "TRIPLE_SIGNING_KEY_LEN = ED25519_SEED_LEN + MLDSA_SEED_LEN + SLH_SECRET_LEN"
definition TRIPLE_SIGNATURE_LEN :: nat where
  "TRIPLE_SIGNATURE_LEN = ED25519_SIG_LEN + MLDSA_SIG_LEN + SLH_SIG_LEN"

lemmas firma_lens =
  ED25519_PUB_LEN_def ED25519_SIG_LEN_def ED25519_SEED_LEN_def MLDSA_VK_LEN_def MLDSA_SIG_LEN_def
  MLDSA_SEED_LEN_def VERIFYING_KEY_LEN_def SIGNING_KEY_LEN_def SIGNATURE_LEN_def SLH_PUB_LEN_def
  SLH_SECRET_LEN_def SLH_SIG_LEN_def TRIPLE_VERIFYING_KEY_LEN_def TRIPLE_SIGNING_KEY_LEN_def
  TRIPLE_SIGNATURE_LEN_def

definition SIGN_CONTEXT :: bytes where
  "SIGN_CONTEXT = ascii ''quipu/v3/sign''"

definition SIGN_TRIPLE_CONTEXT :: bytes where
  "SIGN_TRIPLE_CONTEXT = ascii ''quipu/v4/sign-triple''"

text \<open>What RFC 8032, FIPS 204 and FIPS 205 promise: lengths, encodings, and that signing verifies.\<close>

definition firma_ok :: "('e, 'm, 'g, 'z) firma_scheme \<Rightarrow> bool" where
  "firma_ok F \<longleftrightarrow>
     (\<forall>e. length (ed_as_bytes F e) = 32 \<and> ed_from_bytes F (ed_as_bytes F e) = Some e) \<and>
     (\<forall>s m. length (ed_sign F s m) = 64 \<and> ed_verify_strict F (ed_public F s) m (ed_sign F s m)) \<and>
     (\<forall>v. length (ml_encode F v) = 2592 \<and> ml_decode F (ml_encode F v) = v) \<and>
     (\<forall>g. length (ml_sig_encode F g) = 4627 \<and> ml_sig_decode F (ml_sig_encode F g) = Some g) \<and>
     (\<forall>s m. ml_verify F (ml_public F s) m (ml_sign F s m))"

definition slh_ok :: "('e, 'm, 'g, 's, 'z) firma_triple_scheme \<Rightarrow> bool" where
  "slh_ok F \<longleftrightarrow>
     (\<forall>p. length (slh_into_bytes F p) = 64 \<and> slh_from_bytes F (slh_into_bytes F p) = Some p) \<and>
     (\<forall>s p m. slh_public F s = Some p \<longrightarrow>
        (\<exists>g. slh_sign F s m = Some g \<and> length g = 29792 \<and> slh_verify F p m g))"

section \<open>Hybrid keys and signatures\<close>

record ('e, 'm) verifying_key =
  vk_ed :: 'e
  vk_ml :: 'm

record signing_key =
  sk_ed_seed :: bytes
  sk_ml_seed :: bytes

definition sk_verifying_key :: "('e, 'm, 'g, 'z) firma_scheme \<Rightarrow> signing_key \<Rightarrow> ('e, 'm) verifying_key" where
  "sk_verifying_key F sk = \<lparr>vk_ed = ed_public F (sk_ed_seed sk), vk_ml = ml_public F (sk_ml_seed sk)\<rparr>"

definition generate_keypair_unchecked ::
  "('e, 'm, 'g, 'z) firma_scheme \<Rightarrow> 'r fuente \<Rightarrow> 'r \<Rightarrow>
    ((('e, 'm) verifying_key \<times> signing_key) \<times> 'r) option" where
  "generate_keypair_unchecked F fuente r =
     do {
       (ed, r) \<leftarrow> llenar_expect fuente ED25519_SEED_LEN r;
       (ml, r) \<leftarrow> llenar_expect fuente MLDSA_SEED_LEN r;
       let sk = \<lparr>sk_ed_seed = ed, sk_ml_seed = ml\<rparr>;
       Some ((sk_verifying_key F sk, sk), r)
     }"

definition generate_keypair ::
  "report \<Rightarrow> ('e, 'm, 'g, 'z) firma_scheme \<Rightarrow> 'r fuente \<Rightarrow> 'r \<Rightarrow>
    ((('e, 'm) verifying_key \<times> signing_key) \<times> 'r) option" where
  "generate_keypair informe F fuente r =
     do {
       _ \<leftarrow> ensure informe None;
       generate_keypair_unchecked F fuente r
     }"

definition vk_to_bytes :: "('e, 'm, 'g, 'z) firma_scheme \<Rightarrow> ('e, 'm) verifying_key \<Rightarrow> bytes" where
  "vk_to_bytes F vk = ed_as_bytes F (vk_ed vk) @ ml_encode F (vk_ml vk)"

definition vk_from_bytes ::
  "('e, 'm, 'g, 'z) firma_scheme \<Rightarrow> bytes \<Rightarrow> ('e, 'm) verifying_key option" where
  "vk_from_bytes F b =
     (if length b \<noteq> VERIFYING_KEY_LEN then None
      else do {
        ed \<leftarrow> ed_from_bytes F (slice 0 ED25519_PUB_LEN b);
        Some \<lparr>vk_ed = ed, vk_ml = ml_decode F (drop ED25519_PUB_LEN b)\<rparr>
      })"

definition build_preimage :: "bytes \<Rightarrow> bytes \<Rightarrow> bytes" where
  "build_preimage vk_bytes message = SIGN_CONTEXT @ vk_bytes @ message"

definition firmar_ed25519_crudo :: "('e, 'm, 'g, 'z) firma_scheme \<Rightarrow> signing_key \<Rightarrow> bytes \<Rightarrow> bytes" where
  "firmar_ed25519_crudo F sk preimagen = ed_sign F (sk_ed_seed sk) preimagen"

definition firmar_mldsa_crudo :: "('e, 'm, 'g, 'z) firma_scheme \<Rightarrow> signing_key \<Rightarrow> bytes \<Rightarrow> bytes" where
  "firmar_mldsa_crudo F sk preimagen = ml_sig_encode F (ml_sign F (sk_ml_seed sk) preimagen)"

definition sk_sign :: "('e, 'm, 'g, 'z) firma_scheme \<Rightarrow> signing_key \<Rightarrow> bytes \<Rightarrow> bytes" where
  "sk_sign F sk message =
     (let vk = sk_verifying_key F sk;
          preimage = build_preimage (vk_to_bytes F vk) message;
          ed_sig = ed_sign F (sk_ed_seed sk) preimage;
          ml_sig = ml_sign F (sk_ml_seed sk) preimage
      in ed_sig @ ml_sig_encode F ml_sig)"

definition sk_to_bytes :: "signing_key \<Rightarrow> bytes" where
  "sk_to_bytes sk = sk_ed_seed sk @ sk_ml_seed sk"

definition sk_from_bytes :: "bytes \<Rightarrow> signing_key option" where
  "sk_from_bytes b =
     (if length b \<noteq> SIGNING_KEY_LEN then None
      else Some \<lparr>sk_ed_seed = slice 0 ED25519_SEED_LEN b, sk_ml_seed = drop ED25519_SEED_LEN b\<rparr>)"

definition vk_verify ::
  "('e, 'm, 'g, 'z) firma_scheme \<Rightarrow> ('e, 'm) verifying_key \<Rightarrow> bytes \<Rightarrow> bytes \<Rightarrow> bool" where
  "vk_verify F vk message signature =
     (if length signature \<noteq> SIGNATURE_LEN then False
      else
        let preimage = build_preimage (vk_to_bytes F vk) message;
            ed_sig = slice 0 ED25519_SIG_LEN signature;
            ed_ok = ed_verify_strict F (vk_ed vk) preimage ed_sig;
            ml_ok = (case ml_sig_decode F (drop ED25519_SIG_LEN signature) of
                       Some sig \<Rightarrow> ml_verify F (vk_ml vk) preimage sig
                     | None \<Rightarrow> False)
        in ed_ok \<and> ml_ok)"

section \<open>Triple keys and signatures\<close>

record ('e, 'm, 's) triple_verifying_key =
  tvk_ed :: 'e
  tvk_ml :: 'm
  tvk_slh :: 's

record triple_signing_key =
  tsk_ed_seed :: bytes
  tsk_ml_seed :: bytes
  tsk_slh :: bytes

text \<open>An SLH-DSA secret that the crate does not accept is a panic of \<^verbatim>\<open>slh_signing_key\<close>.\<close>

definition tsk_verifying_key ::
  "('e, 'm, 'g, 's, 'z) firma_triple_scheme \<Rightarrow> triple_signing_key \<Rightarrow>
    ('e, 'm, 's) triple_verifying_key option" where
  "tsk_verifying_key F sk =
     do {
       slh \<leftarrow> slh_public F (tsk_slh sk);
       Some \<lparr>tvk_ed = ed_public F (tsk_ed_seed sk), tvk_ml = ml_public F (tsk_ml_seed sk), tvk_slh = slh\<rparr>
     }"

text \<open>\<open>keygen\<close> is the key generation of the SLH-DSA crate, with its own source of randomness.\<close>

definition generate_triple_keypair ::
  "('e, 'm, 'g, 's, 'z) firma_triple_scheme \<Rightarrow> 'r fuente \<Rightarrow> ('r \<Rightarrow> (bytes \<times> 'r) option) \<Rightarrow> 'r \<Rightarrow>
    ((('e, 'm, 's) triple_verifying_key \<times> triple_signing_key) \<times> 'r) option" where
  "generate_triple_keypair F fuente keygen r =
     do {
       (ed, r) \<leftarrow> llenar_expect fuente ED25519_SEED_LEN r;
       (ml, r) \<leftarrow> llenar_expect fuente MLDSA_SEED_LEN r;
       (slh, r) \<leftarrow> keygen r;
       let sk = \<lparr>tsk_ed_seed = ed, tsk_ml_seed = ml, tsk_slh = slh\<rparr>;
       vk \<leftarrow> tsk_verifying_key F sk;
       Some ((vk, sk), r)
     }"

definition tvk_to_bytes ::
  "('e, 'm, 'g, 's, 'z) firma_triple_scheme \<Rightarrow> ('e, 'm, 's) triple_verifying_key \<Rightarrow> bytes" where
  "tvk_to_bytes F vk =
     ed_as_bytes F (tvk_ed vk) @ ml_encode F (tvk_ml vk) @ slh_into_bytes F (tvk_slh vk)"

definition tvk_from_bytes ::
  "('e, 'm, 'g, 's, 'z) firma_triple_scheme \<Rightarrow> bytes \<Rightarrow> ('e, 'm, 's) triple_verifying_key option" where
  "tvk_from_bytes F b =
     (if length b \<noteq> TRIPLE_VERIFYING_KEY_LEN then None
      else do {
        ed \<leftarrow> ed_from_bytes F (slice 0 ED25519_PUB_LEN b);
        let ml_start = ED25519_PUB_LEN;
        let ml = ml_decode F (slice ml_start (ml_start + MLDSA_VK_LEN) b);
        let slh_start = ml_start + MLDSA_VK_LEN;
        slh \<leftarrow> slh_from_bytes F (drop slh_start b);
        Some \<lparr>tvk_ed = ed, tvk_ml = ml, tvk_slh = slh\<rparr>
      })"

definition build_triple_preimage :: "bytes \<Rightarrow> bytes \<Rightarrow> bytes" where
  "build_triple_preimage vk_bytes message = SIGN_TRIPLE_CONTEXT @ vk_bytes @ message"

definition tsk_sign ::
  "('e, 'm, 'g, 's, 'z) firma_triple_scheme \<Rightarrow> triple_signing_key \<Rightarrow> bytes \<Rightarrow> bytes option" where
  "tsk_sign F sk message =
     do {
       vk \<leftarrow> tsk_verifying_key F sk;
       let preimage = build_triple_preimage (tvk_to_bytes F vk) message;
       let ed_sig = ed_sign F (tsk_ed_seed sk) preimage;
       let ml_sig = ml_sign F (tsk_ml_seed sk) preimage;
       slh_sig \<leftarrow> slh_sign F (tsk_slh sk) preimage;
       Some (ed_sig @ ml_sig_encode F ml_sig @ slh_sig)
     }"

definition tsk_to_bytes :: "triple_signing_key \<Rightarrow> bytes" where
  "tsk_to_bytes sk = tsk_ed_seed sk @ tsk_ml_seed sk @ tsk_slh sk"

definition tsk_from_bytes :: "bytes \<Rightarrow> triple_signing_key option" where
  "tsk_from_bytes b =
     (if length b \<noteq> TRIPLE_SIGNING_KEY_LEN then None
      else
        let ml_start = ED25519_SEED_LEN;
            slh_start = ml_start + MLDSA_SEED_LEN
        in Some \<lparr>tsk_ed_seed = slice 0 ED25519_SEED_LEN b,
                 tsk_ml_seed = slice ml_start (ml_start + MLDSA_SEED_LEN) b,
                 tsk_slh = drop slh_start b\<rparr>)"

definition tvk_verify ::
  "('e, 'm, 'g, 's, 'z) firma_triple_scheme \<Rightarrow> ('e, 'm, 's) triple_verifying_key \<Rightarrow> bytes \<Rightarrow> bytes \<Rightarrow>
    bool" where
  "tvk_verify F vk message signature =
     (if length signature \<noteq> TRIPLE_SIGNATURE_LEN then False
      else
        let preimage = build_triple_preimage (tvk_to_bytes F vk) message;
            ed_sig = take ED25519_SIG_LEN signature;
            rest = drop ED25519_SIG_LEN signature;
            ml_sig_bytes = take MLDSA_SIG_LEN rest;
            slh_sig = drop MLDSA_SIG_LEN rest;
            ed_ok = ed_verify_strict F (tvk_ed vk) preimage ed_sig;
            ml_ok = (case ml_sig_decode F ml_sig_bytes of
                       Some sig \<Rightarrow> ml_verify F (tvk_ml vk) preimage sig
                     | None \<Rightarrow> False);
            slh_sig_ok = slh_verify F (tvk_slh vk) preimage slh_sig
        in ed_ok \<and> ml_ok \<and> slh_sig_ok)"

section \<open>Keys in bytes\<close>

lemma firma_okD:
  assumes "firma_ok F"
  shows "length (ed_as_bytes F e) = 32" "ed_from_bytes F (ed_as_bytes F e) = Some e"
    "length (ed_sign F s p) = 64" "ed_verify_strict F (ed_public F s) p (ed_sign F s p)"
    "length (ml_encode F v) = 2592" "ml_decode F (ml_encode F v) = v"
    "length (ml_sig_encode F g) = 4627" "ml_sig_decode F (ml_sig_encode F g) = Some g"
    "ml_verify F (ml_public F s) p (ml_sign F s p)"
  using assms by (simp_all add: firma_ok_def)

lemma slh_okD:
  assumes "slh_ok F"
  shows "length (slh_into_bytes F p) = 64" "slh_from_bytes F (slh_into_bytes F p) = Some p"
    "slh_public F s = Some p \<Longrightarrow> \<exists>g. slh_sign F s m = Some g \<and> length g = 29792 \<and> slh_verify F p m g"
  using assms by (simp_all add: slh_ok_def)

text \<open>A key whose arrays have their lengths, as the Rust types say.\<close>

definition sk_wf :: "signing_key \<Rightarrow> bool" where
  "sk_wf sk \<longleftrightarrow> length (sk_ed_seed sk) = 32 \<and> length (sk_ml_seed sk) = 32"

definition tsk_wf :: "triple_signing_key \<Rightarrow> bool" where
  "tsk_wf sk \<longleftrightarrow> length (tsk_ed_seed sk) = 32 \<and> length (tsk_ml_seed sk) = 32 \<and> length (tsk_slh sk) = 128"

lemma sk_from_to_bytes: "sk_wf sk \<Longrightarrow> sk_from_bytes (sk_to_bytes sk) = Some sk"
  by (simp add: sk_from_bytes_def sk_to_bytes_def sk_wf_def firma_lens)

lemma sk_from_bytes_Some: "sk_from_bytes b = Some sk \<Longrightarrow> sk_wf sk \<and> sk_to_bytes sk = b"
  by (auto simp: sk_from_bytes_def sk_to_bytes_def sk_wf_def firma_lens split: if_splits)

lemma tsk_from_to_bytes: "tsk_wf sk \<Longrightarrow> tsk_from_bytes (tsk_to_bytes sk) = Some sk"
  by (simp add: tsk_from_bytes_def tsk_to_bytes_def tsk_wf_def firma_lens slice_simps slice_def)

lemma vk_from_to_bytes: "firma_ok F \<Longrightarrow> vk_from_bytes F (vk_to_bytes F vk) = Some vk"
  by (simp add: vk_from_bytes_def vk_to_bytes_def firma_lens firma_okD)

lemma tvk_from_to_bytes: "firma_ok F \<Longrightarrow> slh_ok F \<Longrightarrow> tvk_from_bytes F (tvk_to_bytes F vk) = Some vk"
  by (simp add: tvk_from_bytes_def tvk_to_bytes_def firma_lens firma_okD slh_okD slice_def Let_def)

lemma length_vk_to_bytes: "firma_ok F \<Longrightarrow> length (vk_to_bytes F vk) = 2624"
  by (simp add: vk_to_bytes_def firma_okD)

lemma vk_to_bytes_inj: "firma_ok F \<Longrightarrow> vk_to_bytes F vk = vk_to_bytes F vk' \<Longrightarrow> vk = vk'"
  by (metis option.inject vk_from_to_bytes)

lemma length_tvk_to_bytes: "firma_ok F \<Longrightarrow> slh_ok F \<Longrightarrow> length (tvk_to_bytes F vk) = 2688"
  by (simp add: tvk_to_bytes_def firma_okD slh_okD)

lemma tvk_to_bytes_inj:
  "firma_ok F \<Longrightarrow> slh_ok F \<Longrightarrow> tvk_to_bytes F vk = tvk_to_bytes F vk' \<Longrightarrow> vk = vk'"
  by (metis option.inject tvk_from_to_bytes)

lemma generate_keypair_wf:
  assumes "fuente_ok fuente" and "generate_keypair_unchecked F fuente r = Some ((vk, sk), r')"
  shows "sk_wf sk" "vk = sk_verifying_key F sk"
  using assms(2)
  by (auto simp: generate_keypair_unchecked_def sk_wf_def firma_lens Let_def split: bind_splits
      dest!: llenar_expect_length [OF assms(1)])

section \<open>Signing and verifying\<close>

lemma sk_sign_parts:
  assumes "firma_ok F"
  shows "sk_sign F sk m =
      firmar_ed25519_crudo F sk (build_preimage (vk_to_bytes F (sk_verifying_key F sk)) m) @
      firmar_mldsa_crudo F sk (build_preimage (vk_to_bytes F (sk_verifying_key F sk)) m)"
  by (simp add: sk_sign_def firmar_ed25519_crudo_def firmar_mldsa_crudo_def Let_def)

lemma length_sk_sign: "firma_ok F \<Longrightarrow> length (sk_sign F sk m) = SIGNATURE_LEN"
  by (simp add: sk_sign_def firma_okD firma_lens Let_def)

text \<open>Two signatures put together verify exactly when each of them does.\<close>

lemma vk_verify_append:
  "length ed = 64 \<Longrightarrow> length ml = 4627 \<Longrightarrow>
    vk_verify F vk m (ed @ ml) \<longleftrightarrow>
      ed_verify_strict F (vk_ed vk) (build_preimage (vk_to_bytes F vk) m) ed \<and>
      (\<exists>g. ml_sig_decode F ml = Some g \<and> ml_verify F (vk_ml vk) (build_preimage (vk_to_bytes F vk) m) g)"
  by (auto simp: vk_verify_def firma_lens Let_def split: option.splits)

lemma vk_verify_iff:
  "vk_verify F vk m sig \<longleftrightarrow>
     length sig = 4691 \<and>
     ed_verify_strict F (vk_ed vk) (build_preimage (vk_to_bytes F vk) m) (take 64 sig) \<and>
     (\<exists>g. ml_sig_decode F (drop 64 sig) = Some g \<and>
        ml_verify F (vk_ml vk) (build_preimage (vk_to_bytes F vk) m) g)"
  by (auto simp: vk_verify_def firma_lens Let_def split: option.splits)

lemma vk_verify_sign: "firma_ok F \<Longrightarrow> vk_verify F (sk_verifying_key F sk) m (sk_sign F sk m)"
  by (simp add: vk_verify_iff sk_sign_def sk_verifying_key_def firma_okD Let_def)

lemma tvk_verify_iff:
  "tvk_verify F vk m sig \<longleftrightarrow>
     length sig = 34483 \<and>
     ed_verify_strict F (tvk_ed vk) (build_triple_preimage (tvk_to_bytes F vk) m) (take 64 sig) \<and>
     (\<exists>g. ml_sig_decode F (take 4627 (drop 64 sig)) = Some g \<and>
        ml_verify F (tvk_ml vk) (build_triple_preimage (tvk_to_bytes F vk) m) g) \<and>
     slh_verify F (tvk_slh vk) (build_triple_preimage (tvk_to_bytes F vk) m) (drop 4691 sig)"
  by (auto simp: tvk_verify_def firma_lens drop_drop Let_def split: option.splits)

lemma tsk_sign_Some:
  assumes F: "firma_ok F" "slh_ok F" and vk: "tsk_verifying_key F sk = Some vk"
  obtains sig where "tsk_sign F sk m = Some sig" "tvk_verify F vk m sig" "length sig = TRIPLE_SIGNATURE_LEN"
proof -
  obtain p where p: "slh_public F (tsk_slh sk) = Some p"
      and vk_eq: "vk = \<lparr>tvk_ed = ed_public F (tsk_ed_seed sk), tvk_ml = ml_public F (tsk_ml_seed sk), tvk_slh = p\<rparr>"
    using vk by (auto simp: tsk_verifying_key_def split: bind_splits)
  let ?pre = "build_triple_preimage (tvk_to_bytes F vk) m"
  obtain g where g: "slh_sign F (tsk_slh sk) ?pre = Some g" "length g = 29792" "slh_verify F p ?pre g"
    using slh_okD(3) [OF F(2) p] by blast
  let ?sig = "ed_sign F (tsk_ed_seed sk) ?pre @ ml_sig_encode F (ml_sign F (tsk_ml_seed sk) ?pre) @ g"
  have "tsk_sign F sk m = Some ?sig" using vk g(1) by (simp add: tsk_sign_def Let_def)
  moreover have "tvk_ed vk = ed_public F (tsk_ed_seed sk)" "tvk_ml vk = ml_public F (tsk_ml_seed sk)"
      "tvk_slh vk = p"
    by (simp_all add: vk_eq)
  then have "tvk_verify F vk m ?sig"
    unfolding tvk_verify_iff using g by (simp add: firma_okD [OF F(1)])
  moreover have "length ?sig = TRIPLE_SIGNATURE_LEN"
    using g by (simp add: firma_okD [OF F(1)] firma_lens)
  ultimately show ?thesis using that by blast
qed

section \<open>Preimages bind the domain, the whole key and the message\<close>

lemma build_preimage_inj:
  "length k = length k' \<Longrightarrow> build_preimage k m = build_preimage k' m' \<longleftrightarrow> k = k' \<and> m = m'"
  by (auto simp: build_preimage_def)

lemma build_triple_preimage_inj:
  "length k = length k' \<Longrightarrow> build_triple_preimage k m = build_triple_preimage k' m' \<longleftrightarrow> k = k' \<and> m = m'"
  by (auto simp: build_triple_preimage_def)

lemma preimages_disjoint: "build_preimage k m \<noteq> build_triple_preimage k' m'"
proof
  assume "build_preimage k m = build_triple_preimage k' m'"
  then have "build_preimage k m ! 7 = build_triple_preimage k' m' ! 7" by simp
  then show False
    by (simp add: build_preimage_def build_triple_preimage_def SIGN_CONTEXT_def SIGN_TRIPLE_CONTEXT_def ascii_def)
qed

text \<open>
  The preimages that were signed: \<open>D\<close> are the pairs of key and message of the double mode, \<open>T\<close> those
  of the triple mode, whose keys may share halves with the double ones.
\<close>

definition preimagenes ::
  "('e, 'm, 'g, 's, 'z) firma_triple_scheme \<Rightarrow> (('e, 'm) verifying_key \<times> bytes) set \<Rightarrow>
    (('e, 'm, 's) triple_verifying_key \<times> bytes) set \<Rightarrow> bytes set" where
  "preimagenes F D T =
     (\<lambda>(k, m). build_preimage (vk_to_bytes F k) m) ` D \<union>
     (\<lambda>(k, m). build_triple_preimage (tvk_to_bytes F k) m) ` T"

lemma preimagen_doble:
  assumes "firma_ok F"
  shows "build_preimage (vk_to_bytes F k) m \<in> preimagenes F D T \<longleftrightarrow> (k, m) \<in> D"
proof
  assume "build_preimage (vk_to_bytes F k) m \<in> preimagenes F D T"
  then obtain k' m' where *: "(k', m') \<in> D"
      "build_preimage (vk_to_bytes F k) m = build_preimage (vk_to_bytes F k') m'"
    by (auto simp: preimagenes_def preimages_disjoint)
  have l: "length (vk_to_bytes F k) = length (vk_to_bytes F k')"
    by (simp add: length_vk_to_bytes assms)
  from *(2) have "k = k'" "m = m'"
    using vk_to_bytes_inj [OF assms] by (simp_all add: build_preimage_inj [OF l])
  with *(1) show "(k, m) \<in> D" by simp
qed (auto simp: preimagenes_def)

lemma preimagen_triple:
  assumes "firma_ok F" "slh_ok F"
  shows "build_triple_preimage (tvk_to_bytes F k) m \<in> preimagenes F D T \<longleftrightarrow> (k, m) \<in> T"
proof
  assume "build_triple_preimage (tvk_to_bytes F k) m \<in> preimagenes F D T"
  then obtain k' m' where *: "(k', m') \<in> T"
      "build_triple_preimage (tvk_to_bytes F k) m = build_triple_preimage (tvk_to_bytes F k') m'"
    by (auto simp: preimagenes_def preimages_disjoint [symmetric])
  have l: "length (tvk_to_bytes F k) = length (tvk_to_bytes F k')"
    by (simp add: length_tvk_to_bytes assms)
  from *(2) have "k = k'" "m = m'"
    using tvk_to_bytes_inj [OF assms] by (simp_all add: build_triple_preimage_inj [OF l])
  with *(1) show "(k, m) \<in> T" by simp
qed (auto simp: preimagenes_def)

text \<open>A forgery of a component: accepted by it, on a preimage that nobody signed.\<close>

definition falsifica_ed :: "('e, 'm, 'g, 'z) firma_scheme \<Rightarrow> 'e \<Rightarrow> bytes set \<Rightarrow> bytes \<Rightarrow> bytes \<Rightarrow> bool" where
  "falsifica_ed F e P p g \<longleftrightarrow> p \<notin> P \<and> ed_verify_strict F e p g"

definition falsifica_ml :: "('e, 'm, 'g, 'z) firma_scheme \<Rightarrow> 'm \<Rightarrow> bytes set \<Rightarrow> bytes \<Rightarrow> bytes \<Rightarrow> bool" where
  "falsifica_ml F v P p g \<longleftrightarrow> p \<notin> P \<and> (\<exists>s. ml_sig_decode F g = Some s \<and> ml_verify F v p s)"

definition falsifica_slh ::
  "('e, 'm, 'g, 's, 'z) firma_triple_scheme \<Rightarrow> 's \<Rightarrow> bytes set \<Rightarrow> bytes \<Rightarrow> bytes \<Rightarrow> bool" where
  "falsifica_slh F v P p g \<longleftrightarrow> p \<notin> P \<and> slh_verify F v p g"

text \<open>
  The hybrid signature stands while one of its parts stands.  Whoever presents a signature that
  verifies under a key \<open>vk\<close> for a message that was never signed under it (whatever was signed under
  other keys, even keys that share one half with \<open>vk\<close>, and whatever was signed in the triple mode)
  has forged Ed25519 and has forged ML-DSA, both on the same new preimage.
\<close>
lemma hybrid_forgery_forges_both:
  assumes "firma_ok F" and "vk_verify F vk m sig" and "(vk, m) \<notin> D"
  shows "\<exists>p. falsifica_ed F (vk_ed vk) (preimagenes F D T) p (take 64 sig) \<and>
    falsifica_ml F (vk_ml vk) (preimagenes F D T) p (drop 64 sig)"
  using assms
  by (intro exI [of _ "build_preimage (vk_to_bytes F vk) m"])
    (simp add: falsifica_ed_def falsifica_ml_def preimagen_doble vk_verify_iff)

text \<open>
  C21. The triple mode stands while one of its three parts stands: a signature that verifies for a
  message never signed under the triple key is a forgery of Ed25519, of ML-DSA and of SLH-DSA, even
  when the halves of the key also signed in the double mode.
\<close>
theorem triple_forgery_forges_all:
  assumes "firma_ok F" and "slh_ok F" and "tvk_verify F vk m sig" and "(vk, m) \<notin> T"
  shows "\<exists>p. falsifica_ed F (tvk_ed vk) (preimagenes F D T) p (take 64 sig) \<and>
    falsifica_ml F (tvk_ml vk) (preimagenes F D T) p (take 4627 (drop 64 sig)) \<and>
    falsifica_slh F (tvk_slh vk) (preimagenes F D T) p (drop 4691 sig)"
  using assms
  by (intro exI [of _ "build_triple_preimage (tvk_to_bytes F vk) m"])
    (simp add: falsifica_ed_def falsifica_ml_def falsifica_slh_def preimagen_triple tvk_verify_iff)

section \<open>Concrete schemes\<close>

text \<open>
  A checksum under the public key for each of the three.  It satisfies the laws, and anyone can
  forge it: the witnesses below show what a forgery is.
\<close>

definition demo_firma :: "(256 word, 256 word, 64 word, 512 word) firma_triple" where
  "demo_firma =
     \<lparr>ed_public = \<lambda>s. of_nat (nat_of_be s),
      ed_sign = \<lambda>s m. be_bytes 64 (demo_hash [be_bytes 32 (unat (of_nat (nat_of_be s) :: 256 word)), m]),
      ed_as_bytes = \<lambda>e. be_bytes 32 (unat e),
      ed_from_bytes = \<lambda>b. Some (of_nat (nat_of_be b)),
      ed_verify_strict = \<lambda>e m g. g = be_bytes 64 (demo_hash [be_bytes 32 (unat e), m]),
      ml_public = \<lambda>s. of_nat (nat_of_be s),
      ml_sign = \<lambda>s m. of_nat (demo_hash [m, be_bytes 32 (unat (of_nat (nat_of_be s) :: 256 word))]),
      ml_encode = \<lambda>v. be_bytes 2592 (unat v),
      ml_decode = \<lambda>b. of_nat (nat_of_be b),
      ml_sig_encode = \<lambda>g. be_bytes 4627 (unat g),
      ml_sig_decode = \<lambda>b. Some (of_nat (nat_of_be b)),
      ml_verify = \<lambda>v m g. g = of_nat (demo_hash [m, be_bytes 32 (unat v)]),
      slh_public = \<lambda>s. Some (of_nat (nat_of_be s)),
      slh_sign = \<lambda>s m. Some (be_bytes 29792 (demo_hash [be_bytes 64 (unat (of_nat (nat_of_be s) :: 512 word)), m])),
      slh_verify = \<lambda>p m g. g = be_bytes 29792 (demo_hash [be_bytes 64 (unat p), m]),
      slh_into_bytes = \<lambda>p. be_bytes 64 (unat p),
      slh_from_bytes = \<lambda>b. Some (of_nat (nat_of_be b))\<rparr>"

lemma demo_firma_ok: "firma_ok demo_firma"
  unfolding firma_ok_def demo_firma_def by (simp add: be_bytes_word)

lemma demo_slh_ok: "slh_ok demo_firma"
  unfolding slh_ok_def demo_firma_def by (simp add: be_bytes_word)

definition demo_clave :: signing_key where
  "demo_clave = \<lparr>sk_ed_seed = replicate 32 1, sk_ml_seed = replicate 32 2\<rparr>"

definition demo_clave_triple :: triple_signing_key where
  "demo_clave_triple =
     \<lparr>tsk_ed_seed = replicate 32 1, tsk_ml_seed = replicate 32 2, tsk_slh = replicate 128 3\<rparr>"

lemma demo_clave_wf: "sk_wf demo_clave"
  by (simp add: sk_wf_def demo_clave_def)

lemma demo_triple_vk: "\<exists>vk. tsk_verifying_key demo_firma demo_clave_triple = Some vk"
  by (simp add: tsk_verifying_key_def demo_firma_def)

theorem triple_forgery_forges_all_witness:
  "\<exists>vk sig p. falsifica_ed demo_firma (tvk_ed vk) (preimagenes demo_firma {} {(vk, [1])}) p (take 64 sig) \<and>
    falsifica_ml demo_firma (tvk_ml vk) (preimagenes demo_firma {} {(vk, [1])}) p (take 4627 (drop 64 sig)) \<and>
    falsifica_slh demo_firma (tvk_slh vk) (preimagenes demo_firma {} {(vk, [1])}) p (drop 4691 sig)"
proof -
  obtain vk where vk: "tsk_verifying_key demo_firma demo_clave_triple = Some vk"
    using demo_triple_vk by blast
  obtain sig where "tvk_verify demo_firma vk [2] sig"
    by (rule tsk_sign_Some [OF demo_firma_ok demo_slh_ok vk])
  from triple_forgery_forges_all [OF demo_firma_ok demo_slh_ok this, of "{(vk, [1])}" "{}"]
  show ?thesis by auto
qed

end
