(* ===== verification/Firmante.thy ===== *)
theory Firmante
  imports Api Firma Shamir
begin

text \<open>
  \<^verbatim>\<open>src/src/firmante/mod.rs\<close> and the signed artefacts of \<^verbatim>\<open>src/src/api.rs\<close>: the custody of the
  signing key behind the trait \<open>Custodio\<close>, signing with shares of it, and the containers \<open>QSG1\<close> and
  \<open>QSG3\<close>.
\<close>

section \<open>Custody of the signing key\<close>

text \<open>
  The text of an error is kept as what it is made of: the words of the device, or the error that
  \<^verbatim>\<open>format!\<close> prints.
\<close>

datatype detalle =
    Texto bytes
  | RepartoInvalido shamir_error
  | NoEsClaveDeFirma

datatype error_de_firma =
    CustodioNoDisponible detalle
  | OperacionRechazada detalle
  | LongitudInesperada nat nat

text \<open>
  The trait \<open>Custodio\<close>.  A custodian may be a device with a session of its own and a randomised
  signature, so each operation passes the state \<open>'h\<close> of the outside on.
\<close>

record ('e, 'm, 'h) custodio =
  clave_de_verificacion :: "'h \<Rightarrow> (error_de_firma + ('e, 'm) verifying_key) \<times> 'h"
  firmar_ed25519 :: "bytes \<Rightarrow> 'h \<Rightarrow> (error_de_firma + bytes) \<times> 'h"
  firmar_mldsa :: "bytes \<Rightarrow> 'h \<Rightarrow> (error_de_firma + bytes) \<times> 'h"

definition comprobar_longitud :: "nat \<Rightarrow> nat \<Rightarrow> error_de_firma + unit" where
  "comprobar_longitud recibio esperaba =
     (if recibio = esperaba then Inr () else Inl (LongitudInesperada esperaba recibio))"

definition firmar ::
  "('e, 'm, 'g, 'z) firma_scheme \<Rightarrow> ('e, 'm, 'h) custodio \<Rightarrow> bytes \<Rightarrow> 'h \<Rightarrow> (error_de_firma + bytes) \<times> 'h" where
  "firmar F custodio mensaje h =
     (case clave_de_verificacion custodio h of
        (Inl e, h) \<Rightarrow> (Inl e, h)
      | (Inr vk, h) \<Rightarrow>
          let preimagen = build_preimage (vk_to_bytes F vk) mensaje
          in case firmar_ed25519 custodio preimagen h of
               (Inl e, h) \<Rightarrow> (Inl e, h)
             | (Inr ed, h) \<Rightarrow>
                 (case comprobar_longitud (length ed) ED25519_SIG_LEN of
                    Inl e \<Rightarrow> (Inl e, h)
                  | Inr _ \<Rightarrow>
                      (case firmar_mldsa custodio preimagen h of
                         (Inl e, h) \<Rightarrow> (Inl e, h)
                       | (Inr ml, h) \<Rightarrow>
                           (case comprobar_longitud (length ml) MLDSA_SIG_LEN of
                              Inl e \<Rightarrow> (Inl e, h)
                            | Inr _ \<Rightarrow> (Inr (ed @ ml), h)))))"

text \<open>\<open>EnMemoria\<close>: the key is in the process.\<close>

definition en_memoria :: "('e, 'm, 'g, 'z) firma_scheme \<Rightarrow> signing_key \<Rightarrow> ('e, 'm, 'h) custodio" where
  "en_memoria F clave =
     \<lparr>clave_de_verificacion = (\<lambda>h. (Inr (sk_verifying_key F clave), h)),
      firmar_ed25519 = (\<lambda>preimagen h. (Inr (firmar_ed25519_crudo F clave preimagen), h)),
      firmar_mldsa = (\<lambda>preimagen h. (Inr (firmar_mldsa_crudo F clave preimagen), h))\<rparr>"

text \<open>Signing with shares: the key is put together, used and dropped.  The option is the panic of \<open>combine\<close>.\<close>

definition firmar_con_comparticiones ::
  "('e, 'm, 'g, 'z) firma_scheme \<Rightarrow> (bytes \<Rightarrow> bytes) \<Rightarrow> share list \<Rightarrow> bytes \<Rightarrow>
    (error_de_firma + bytes) option" where
  "firmar_con_comparticiones F sha comparticiones mensaje =
     (case combine sha comparticiones of
        None \<Rightarrow> None
      | Some (Inl e) \<Rightarrow> Some (Inl (OperacionRechazada (RepartoInvalido e)))
      | Some (Inr bs) \<Rightarrow>
          (case sk_from_bytes bs of
             None \<Rightarrow> Some (Inl (OperacionRechazada NoEsClaveDeFirma))
           | Some clave \<Rightarrow> Some (fst (firmar F (en_memoria F clave) mensaje ()))))"

section \<open>The signed artefacts\<close>

definition SIGNED_MAGIC :: bytes where
  "SIGNED_MAGIC = ascii ''QSG1''"

definition SIGNED_VERSION :: u8 where
  "SIGNED_VERSION = 1"

definition SIGNED_PREFIX :: nat where
  "SIGNED_PREFIX = 4 + 1 + 1 + 4"

definition SIGNED_TRIPLE_MAGIC :: bytes where
  "SIGNED_TRIPLE_MAGIC = ascii ''QSG3''"

definition SIGNED_TRIPLE_VERSION :: u8 where
  "SIGNED_TRIPLE_VERSION = 1"

definition SIGNED_TRIPLE_PREFIX :: nat where
  "SIGNED_TRIPLE_PREFIX = 4 + 1 + 1 + 4"

text \<open>
  The bytes that both modes write.  \<^verbatim>\<open>data.len() as u32\<close> truncates.
\<close>

definition firmado_blob :: "bytes \<Rightarrow> u8 \<Rightarrow> u8 \<Rightarrow> bytes \<Rightarrow> bytes \<Rightarrow> bytes" where
  "firmado_blob magic version flags data signature =
     magic @ [version] @ [flags] @ u32_to_be (of_nat (length data)) @ data @ signature"

definition armar_firmado :: "bytes \<Rightarrow> bytes \<Rightarrow> dictionary \<Rightarrow> char32 list option" where
  "armar_firmado data signature dict =
     representar dict (firmado_blob SIGNED_MAGIC SIGNED_VERSION 0 data signature)"

definition encode_signed ::
  "('e, 'm, 'g, 'z) firma_scheme \<Rightarrow> bytes \<Rightarrow> signing_key \<Rightarrow> dictionary \<Rightarrow> char32 list option" where
  "encode_signed F data signer dict = armar_firmado data (sk_sign F signer data) dict"

definition encode_signed_con_custodio ::
  "('e, 'm, 'g, 'z) firma_scheme \<Rightarrow> bytes \<Rightarrow> ('e, 'm, 'h) custodio \<Rightarrow> dictionary \<Rightarrow> 'h \<Rightarrow>
    (error_de_firma + char32 list) option \<times> 'h" where
  "encode_signed_con_custodio F data custodio dict h =
     (case firmar F custodio data h of
        (Inl e, h) \<Rightarrow> (Some (Inl e), h)
      | (Inr signature, h) \<Rightarrow> (map_option Inr (armar_firmado data signature dict), h))"

definition encode_signed_triple ::
  "('e, 'm, 'g, 's, 'z) firma_triple_scheme \<Rightarrow> bytes \<Rightarrow> triple_signing_key \<Rightarrow> dictionary \<Rightarrow>
    char32 list option" where
  "encode_signed_triple F data signer dict =
     do {
       signature \<leftarrow> tsk_sign F signer data;
       representar dict (firmado_blob SIGNED_TRIPLE_MAGIC SIGNED_TRIPLE_VERSION 0 data signature)
     }"

text \<open>\<^verbatim>\<open>usize::checked_add\<close>, 64 bits.\<close>

definition checked_add_usize :: "nat \<Rightarrow> nat \<Rightarrow> nat option" where
  "checked_add_usize a b = (if a + b < 2 ^ 64 then Some (a + b) else None)"

text \<open>The checks of \<open>decode_verified\<close> and \<open>decode_verified_triple\<close>, which differ in their constants.\<close>

definition abrir_firmado ::
  "bytes \<Rightarrow> u8 \<Rightarrow> nat \<Rightarrow> nat \<Rightarrow> (bytes \<Rightarrow> bytes \<Rightarrow> bool) \<Rightarrow> bytes \<Rightarrow> decode_error + bytes" where
  "abrir_firmado magic version prefix sig_len verifica blob =
     (if length blob < prefix + sig_len then Inl (Container ContainerTooShort)
      else if slice 0 4 blob \<noteq> magic then Inl (Container ContainerBadMagic)
      else if blob ! 4 \<noteq> version then Inl (Container (ContainerUnsupportedVersion (blob ! 4)))
      else
        let msg_len = unat (u32_from_be (slice 6 10 blob))
        in case checked_add_usize prefix msg_len of
             None \<Rightarrow> Inl (Container ContainerTooShort)
           | Some msg_end \<Rightarrow>
               (case checked_add_usize msg_end sig_len of
                  None \<Rightarrow> Inl (Container ContainerTooShort)
                | Some expected_len \<Rightarrow>
                    if length blob \<noteq> expected_len then Inl (Container ContainerTooShort)
                    else
                      let message = slice prefix msg_end blob;
                          signature = drop msg_end blob
                      in if \<not> verifica message signature then Inl BadSignature else Inr message))"

definition decode_verified ::
  "('e, 'm, 'g, 'z) firma_scheme \<Rightarrow> char32 list \<Rightarrow> ('e, 'm) verifying_key \<Rightarrow> dictionary \<Rightarrow>
    decode_error + bytes" where
  "decode_verified F symbols verifier dict =
     (case leer_simbolos dict symbols of
        Inl e \<Rightarrow> Inl e
      | Inr blob \<Rightarrow>
          abrir_firmado SIGNED_MAGIC SIGNED_VERSION SIGNED_PREFIX SIGNATURE_LEN (vk_verify F verifier) blob)"

definition decode_verified_triple ::
  "('e, 'm, 'g, 's, 'z) firma_triple_scheme \<Rightarrow> char32 list \<Rightarrow> ('e, 'm, 's) triple_verifying_key \<Rightarrow>
    dictionary \<Rightarrow> decode_error + bytes" where
  "decode_verified_triple F symbols verifier dict =
     (case leer_simbolos dict symbols of
        Inl e \<Rightarrow> Inl e
      | Inr blob \<Rightarrow>
          abrir_firmado SIGNED_TRIPLE_MAGIC SIGNED_TRIPLE_VERSION SIGNED_TRIPLE_PREFIX
            TRIPLE_SIGNATURE_LEN (tvk_verify F verifier) blob)"

section \<open>The custodian as an interface\<close>

text \<open>
  What a custodian of the identity \<open>vk\<close> promises while the scheme and the device keep their own
  promises (\<open>ok\<close>): the key it names is that one, and a signature it gives, when it has the length of
  its algorithm, verifies under it.  It may fail at any time.
\<close>

locale custodia_de_firma =
  fixes F :: "('e, 'm, 'g, 'z) firma_scheme" and K :: "('e, 'm, 'h) custodio"
    and vk :: "('e, 'm) verifying_key" and ok :: bool
  assumes misma_clave: "ok \<Longrightarrow> clave_de_verificacion K h = (Inr v, h') \<Longrightarrow> v = vk"
    and ed_firma: "ok \<Longrightarrow> firmar_ed25519 K p h = (Inr a, h') \<Longrightarrow> length a = 64 \<Longrightarrow>
      ed_verify_strict F (vk_ed vk) p a"
    and ml_firma: "ok \<Longrightarrow> firmar_mldsa K p h = (Inr b, h') \<Longrightarrow> length b = 4627 \<Longrightarrow>
      \<exists>g. ml_sig_decode F b = Some g \<and> ml_verify F (vk_ml vk) p g"
begin

lemma firmar_verifica:
  assumes ok and f: "firmar F K m h = (Inr sig, h')"
  shows "vk_verify F vk m sig"
proof -
  obtain v h1 where v: "clave_de_verificacion K h = (Inr v, h1)"
    using f by (auto simp: firmar_def split: prod.splits sum.splits)
  then have [simp]: "v = vk" by (rule misma_clave [OF \<open>ok\<close>])
  let ?p = "build_preimage (vk_to_bytes F vk) m"
  obtain a h2 where a: "firmar_ed25519 K ?p h1 = (Inr a, h2)" and la: "length a = 64"
    using f v by (auto simp: firmar_def comprobar_longitud_def firma_lens Let_def
        split: prod.splits sum.splits if_splits)
  obtain b h3 where b: "firmar_mldsa K ?p h2 = (Inr b, h3)" and lb: "length b = 4627" and sig: "sig = a @ b"
    using f v a by (auto simp: firmar_def comprobar_longitud_def firma_lens Let_def
        split: prod.splits sum.splits if_splits)
  show ?thesis unfolding sig vk_verify_append [OF la lb]
    using ed_firma [OF \<open>ok\<close> a la] ml_firma [OF \<open>ok\<close> b lb] by blast
qed

lemma firmar_length: "firmar F K m h = (Inr sig, h') \<Longrightarrow> length sig = SIGNATURE_LEN"
  by (auto simp: firmar_def comprobar_longitud_def firma_lens Let_def split: prod.splits sum.splits if_splits)

end

interpretation memoria: custodia_de_firma F "en_memoria F sk" "sk_verifying_key F sk" "firma_ok F" for F sk
  by unfold_locales
    (auto simp: en_memoria_def firmar_ed25519_crudo_def firmar_mldsa_crudo_def sk_verifying_key_def firma_okD)

lemma firmar_en_memoria: "firma_ok F \<Longrightarrow> firmar F (en_memoria F sk) m h = (Inr (sk_sign F sk m), h)"
  by (simp add: firmar_def en_memoria_def comprobar_longitud_def firma_lens sk_sign_parts
      firmar_ed25519_crudo_def firmar_mldsa_crudo_def firma_okD Let_def)

section \<open>The container\<close>

lemma checked_add_small: "a + b < 2 ^ 64 \<Longrightarrow> checked_add_usize a b = Some (a + b)"
  by (simp add: checked_add_usize_def)

lemma firmado_blob_parts:
  assumes "length magic = 4"
  shows "length (firmado_blob magic version flags data sig) = 10 + length data + length sig"
    "slice 0 4 (firmado_blob magic version flags data sig) = magic"
    "firmado_blob magic version flags data sig ! 4 = version"
    "slice 6 10 (firmado_blob magic version flags data sig) = u32_to_be (of_nat (length data))"
    "drop 10 (firmado_blob magic version flags data sig) = data @ sig"
  using assms by (simp_all add: firmado_blob_def nth_append slice_def)

lemma abrir_firmado_blob:
  assumes magic: "length magic = 4" and len: "length data < 2 ^ 32" and sig: "length sig = n" "n < 2 ^ 32"
  shows "abrir_firmado magic version 10 n verifica (firmado_blob magic version flags data sig) =
    (if verifica data sig then Inr data else Inl BadSignature)"
proof -
  let ?b = "firmado_blob magic version flags data sig"
  have parts: "length ?b = 10 + length data + length sig" "take 4 ?b = magic" "?b ! 4 = version"
      "slice 6 10 ?b = u32_to_be (of_nat (length data))"
    using firmado_blob_parts [OF magic] by simp_all
  have u: "unat (of_nat (length data) :: u32) = length data"
    using len by (simp add: unat_of_nat_u32)
  have body: "slice 10 (10 + length data) ?b = data" "drop (10 + length data) ?b = sig"
    using firmado_blob_parts(5) [OF magic, of version flags data sig]
    by (simp_all add: slice_def add.commute [of 10] flip: drop_drop)
  have sums: "checked_add_usize 10 (length data) = Some (10 + length data)"
      "checked_add_usize (10 + length data) n = Some (10 + length data + n)"
    using len sig by (simp_all add: checked_add_usize_def)
  show ?thesis unfolding abrir_firmado_def Let_def slice_zero parts u32_from_to_be u sums option.case body
    using sig(1) by simp
qed

lemma abrir_firmado_Inr:
  assumes "abrir_firmado magic version 10 n verifica blob = Inr m" and "length magic = 4"
  obtains flags sig where "blob = firmado_blob magic version flags m sig" "length m < 2 ^ 32"
    "length sig = n" "verifica m sig"
proof -
  obtain l where l: "l = unat (u32_from_be (slice 6 10 blob))" by simp
  have *: "10 + n \<le> length blob" "slice 0 4 blob = magic" "blob ! 4 = version"
      "length blob = 10 + l + n" "m = slice 10 (10 + l) blob" "verifica m (drop (10 + l) blob)"
    using assms(1)
    by (auto simp: l abrir_firmado_def checked_add_usize_def Let_def split: if_splits option.splits)
  have m: "length m = l" using * by simp
  have p4: "slice 4 5 blob = [version]" using slice_single [of 4 blob] * by simp
  have p5: "slice 5 6 blob = [blob ! 5]" using slice_single [of 5 blob] * by simp
  have p6: "slice 6 10 blob = u32_to_be (of_nat (length m))"
    using *(1) unfolding m l by (simp add: u32_to_from_be)
  have joins: "slice 0 4 blob @ drop 4 blob = drop 0 blob" "slice 4 5 blob @ drop 5 blob = drop 4 blob"
      "slice 5 6 blob @ drop 6 blob = drop 5 blob" "slice 6 10 blob @ drop 10 blob = drop 6 blob"
      "slice 10 (10 + l) blob @ drop (10 + l) blob = drop 10 blob"
    by (rule slice_take_drop, simp)+
  have "firmado_blob magic version (blob ! 5) m (drop (10 + l) blob) =
      slice 0 4 blob @ slice 4 5 blob @ slice 5 6 blob @ slice 6 10 blob @
      slice 10 (10 + l) blob @ drop (10 + l) blob"
    by (simp only: firmado_blob_def *(2) p4 p5 p6 *(5) [symmetric])
  then have b: "blob = firmado_blob magic version (blob ! 5) m (drop (10 + l) blob)"
    by (simp only: joins drop_0)
  have n: "length (drop (10 + l) blob) = n" using *(4) by simp
  have "length m < 2 ^ 32" using m l unat_u32_lt [of "u32_from_be (slice 6 10 blob)"] by simp
  from that [OF b this n *(6)] show ?thesis .
qed

lemma magics [simp]: "length SIGNED_MAGIC = 4" "length SIGNED_TRIPLE_MAGIC = 4"
    "SIGNED_MAGIC \<noteq> SIGNED_TRIPLE_MAGIC" "SIGNED_TRIPLE_MAGIC \<noteq> SIGNED_MAGIC"
  by (simp_all add: SIGNED_MAGIC_def SIGNED_TRIPLE_MAGIC_def ascii_def)

lemmas firmado_lens = SIGNED_PREFIX_def SIGNED_TRIPLE_PREFIX_def firma_lens

lemma decode_verified_blob:
  assumes "leer_simbolos dict s = Inr (firmado_blob SIGNED_MAGIC SIGNED_VERSION flags data sig)"
    and "length data < 2 ^ 32" and "length sig = SIGNATURE_LEN"
  shows "decode_verified F s vk dict = (if vk_verify F vk data sig then Inr data else Inl BadSignature)"
  using assms abrir_firmado_blob [of SIGNED_MAGIC data sig SIGNATURE_LEN]
  by (simp add: decode_verified_def firmado_lens)

lemma decode_verified_triple_blob:
  assumes "leer_simbolos dict s = Inr (firmado_blob SIGNED_TRIPLE_MAGIC SIGNED_TRIPLE_VERSION flags data sig)"
    and "length data < 2 ^ 32" and "length sig = TRIPLE_SIGNATURE_LEN"
  shows "decode_verified_triple F s vk dict =
    (if tvk_verify F vk data sig then Inr data else Inl BadSignature)"
  using assms abrir_firmado_blob [of SIGNED_TRIPLE_MAGIC data sig TRIPLE_SIGNATURE_LEN]
  by (simp add: decode_verified_triple_def firmado_lens)

lemma decode_verified_Inr:
  "decode_verified F s vk dict = Inr m \<longleftrightarrow>
     (\<exists>flags sig. leer_simbolos dict s = Inr (firmado_blob SIGNED_MAGIC SIGNED_VERSION flags m sig) \<and>
       length m < 2 ^ 32 \<and> length sig = SIGNATURE_LEN \<and> vk_verify F vk m sig)" (is "?l \<longleftrightarrow> ?r")
proof
  assume ?l
  then obtain blob where b: "leer_simbolos dict s = Inr blob"
      "abrir_firmado SIGNED_MAGIC SIGNED_VERSION 10 SIGNATURE_LEN (vk_verify F vk) blob = Inr m"
    by (auto simp: decode_verified_def SIGNED_PREFIX_def split: sum.splits)
  obtain flags sig where "blob = firmado_blob SIGNED_MAGIC SIGNED_VERSION flags m sig" "length m < 2 ^ 32"
      "length sig = SIGNATURE_LEN" "vk_verify F vk m sig"
    using abrir_firmado_Inr [OF b(2) magics(1)] .
  with b(1) show ?r by blast
next
  assume ?r
  then show ?l by (auto simp: decode_verified_blob)
qed

lemma decode_verified_triple_Inr:
  assumes "decode_verified_triple F s vk dict = Inr m"
  obtains flags sig where
    "leer_simbolos dict s = Inr (firmado_blob SIGNED_TRIPLE_MAGIC SIGNED_TRIPLE_VERSION flags m sig)"
    "length m < 2 ^ 32" "length sig = TRIPLE_SIGNATURE_LEN" "tvk_verify F vk m sig"
proof -
  obtain blob where b: "leer_simbolos dict s = Inr blob"
      "abrir_firmado SIGNED_TRIPLE_MAGIC SIGNED_TRIPLE_VERSION 10 TRIPLE_SIGNATURE_LEN (tvk_verify F vk) blob = Inr m"
    using assms by (auto simp: decode_verified_triple_def SIGNED_TRIPLE_PREFIX_def split: sum.splits)
  obtain flags sig where "blob = firmado_blob SIGNED_TRIPLE_MAGIC SIGNED_TRIPLE_VERSION flags m sig"
      "length m < 2 ^ 32" "length sig = TRIPLE_SIGNATURE_LEN" "tvk_verify F vk m sig"
    using abrir_firmado_Inr [OF b(2) magics(2)] .
  with b(1) that show ?thesis by blast
qed

text \<open>What any lawful custodian signs, the reader accepts.\<close>

context custodia_de_firma
begin

lemma artefacto:
  assumes ok and d: "dictionary_wf dict" and len: "length data < 2 ^ 32"
    and enc: "encode_signed_con_custodio F data K dict h = (Some (Inr s), h')"
  shows "decode_verified F s vk dict = Inr data"
proof -
  obtain sig where sig: "firmar F K data h = (Inr sig, h')" and s: "armar_firmado data sig dict = Some s"
    using enc by (auto simp: encode_signed_con_custodio_def split: prod.splits sum.splits)
  have "leer_simbolos dict s = Inr (firmado_blob SIGNED_MAGIC SIGNED_VERSION 0 data sig)"
    using leer_representar [OF d] s by (simp add: armar_firmado_def)
  then show ?thesis
    by (simp add: decode_verified_blob [OF _ len firmar_length [OF sig]] firmar_verifica [OF \<open>ok\<close> sig])
qed

end

lemma encode_signed_total: "dictionary_wf dict \<Longrightarrow> \<exists>s. encode_signed F data sk dict = Some s"
  using representar_total by (fastforce simp: encode_signed_def armar_firmado_def)

section \<open>What the code does at its edges\<close>

text \<open>The byte of flags is neither signed nor checked: each of its values reads the same.\<close>

lemma flags_no_firmadas:
  assumes "leer_simbolos dict s = Inr (firmado_blob SIGNED_MAGIC SIGNED_VERSION flags data sig)"
    and "leer_simbolos dict s' = Inr (firmado_blob SIGNED_MAGIC SIGNED_VERSION flags' data sig)"
    and "length data < 2 ^ 32" and "length sig = SIGNATURE_LEN"
  shows "decode_verified F s vk dict = decode_verified F s' vk dict"
  using assms by (simp add: decode_verified_blob)

text \<open>A message of 4 GiB or more is written with its length truncated, and does not come back.\<close>

lemma firmado_truncado:
  assumes "firma_ok F" and "dictionary_wf dict" and "2 ^ 32 \<le> length data"
    and "encode_signed F data sk dict = Some s"
  shows "decode_verified F s vk dict = Inl (Container ContainerTooShort)"
proof -
  let ?sig = "sk_sign F sk data"
  let ?b = "firmado_blob SIGNED_MAGIC SIGNED_VERSION 0 data ?sig"
  have b: "leer_simbolos dict s = Inr ?b"
    using leer_representar assms by (simp add: encode_signed_def armar_firmado_def)
  have sig: "length ?sig = 4691" using length_sk_sign [OF assms(1)] by (simp add: firma_lens)
  have u: "unat (u32_from_be (slice 6 10 ?b)) < 2 ^ 32"
    using unat_u32_lt by simp
  then have "10 + unat (u32_from_be (slice 6 10 ?b)) + 4691 \<noteq> length ?b"
    using assms(3) unfolding firmado_blob_parts(1) [OF magics(1)] sig by linarith
  moreover have "10 + unat (u32_from_be (slice 6 10 ?b)) + 4691 < 2 ^ 64" using u by simp
  moreover have "take 4 ?b = SIGNED_MAGIC" "?b ! 4 = SIGNED_VERSION" "10 + 4691 \<le> length ?b"
    using firmado_blob_parts(1-3) [OF magics(1), of SIGNED_VERSION 0 data ?sig] sig by simp_all
  ultimately show ?thesis
    by (simp add: decode_verified_def b abrir_firmado_def firmado_lens checked_add_usize_def Let_def)
qed

text \<open>The length comes first: a short artefact of the double mode is refused for it, not for its magic.\<close>

lemma qsg1_corto:
  assumes "leer_simbolos dict s = Inr (firmado_blob SIGNED_MAGIC SIGNED_VERSION flags data sig)"
    and "length data + length sig < TRIPLE_SIGNATURE_LEN"
  shows "decode_verified_triple F s vk dict = Inl (Container ContainerTooShort)"
  using assms firmado_blob_parts(1) [OF magics(1), of SIGNED_VERSION flags data sig]
  by (simp add: decode_verified_triple_def abrir_firmado_def firmado_lens)

section \<open>Properties\<close>

text \<open>
  Signing and reading: every artefact of \<open>encode_signed\<close> is accepted under the signer's key and gives
  the message back, and the custodian that holds the key in memory writes the same artefact.
\<close>
lemma signed_roundtrip:
  assumes "firma_ok F" and "dictionary_wf dict" and "length data < 2 ^ 32"
  shows "\<exists>s. encode_signed F data sk dict = Some s \<and>
    decode_verified F s (sk_verifying_key F sk) dict = Inr data \<and>
    encode_signed_con_custodio F data (en_memoria F sk) dict h = (Some (Inr s), h)"
proof -
  obtain s where s: "encode_signed F data sk dict = Some s" using encode_signed_total [OF assms(2)] by blast
  then have c: "encode_signed_con_custodio F data (en_memoria F sk) dict h = (Some (Inr s), h)"
    by (simp add: encode_signed_con_custodio_def encode_signed_def firmar_en_memoria [OF assms(1)])
  with s memoria.artefacto [OF assms c] show ?thesis by blast
qed

text \<open>
  C20. What \<open>decode_verified\<close> accepts was signed.  An accepted text is a container of this mode with the
  message that comes out and a signature of the whole length, and either the owner of the fixed key
  signed that very message, or that signature forges Ed25519 and forges ML-DSA on the same new
  preimage.  Messages signed under other keys, even with a common half, and everything signed in the
  triple mode count as known to the forger.
\<close>
theorem accepted_means_signed:
  assumes "firma_ok F" and "decode_verified F s vk dict = Inr m"
  shows "\<exists>flags sig. leer_simbolos dict s = Inr (firmado_blob SIGNED_MAGIC SIGNED_VERSION flags m sig) \<and>
    length sig = SIGNATURE_LEN \<and>
    ((vk, m) \<in> D \<or>
     (\<exists>p. falsifica_ed F (vk_ed vk) (preimagenes F D T) p (take 64 sig) \<and>
          falsifica_ml F (vk_ml vk) (preimagenes F D T) p (drop 64 sig)))"
  using assms(2) hybrid_forgery_forges_both [OF assms(1)] unfolding decode_verified_Inr by blast

text \<open>
  C22. The triple mode round trips, and there is no way down: no artefact that one of the two readers
  accepts is accepted by the other.
\<close>
theorem triple_roundtrip_no_downgrade:
  assumes "firma_ok F" and "slh_ok F" and "dictionary_wf dict" and "length data < 2 ^ 32"
    and "tsk_verifying_key F sk = Some vk"
  shows "\<exists>s. encode_signed_triple F data sk dict = Some s \<and>
    decode_verified_triple F s vk dict = Inr data \<and>
    (\<forall>vk2 m. decode_verified F s vk2 dict \<noteq> Inr m)"
proof -
  obtain sig where sig: "tsk_sign F sk data = Some sig" "tvk_verify F vk data sig" "length sig = TRIPLE_SIGNATURE_LEN"
    using tsk_sign_Some [OF assms(1,2,5)] .
  let ?b = "firmado_blob SIGNED_TRIPLE_MAGIC SIGNED_TRIPLE_VERSION 0 data sig"
  obtain s where s: "representar dict ?b = Some s" "leer_simbolos dict s = Inr ?b"
    using representar_total [OF assms(3)] by blast
  have "encode_signed_triple F data sk dict = Some s" using sig s by (simp add: encode_signed_triple_def)
  moreover have "decode_verified_triple F s vk dict = Inr data"
    by (simp add: decode_verified_triple_blob [OF s(2) assms(4) sig(3)] sig(2))
  moreover have "decode_verified F s vk2 dict \<noteq> Inr m" for vk2 m
  proof
    assume "decode_verified F s vk2 dict = Inr m"
    then obtain flags sig' where "?b = firmado_blob SIGNED_MAGIC SIGNED_VERSION flags m sig'"
      using s(2) by (auto simp: decode_verified_Inr)
    then have "slice 0 4 ?b = SIGNED_MAGIC" using firmado_blob_parts(2) [OF magics(1)] by metis
    then show False using firmado_blob_parts(2) [OF magics(2)] by simp
  qed
  ultimately show ?thesis by blast
qed

text \<open>
  Signing with a shared key: any \<open>k\<close> or more different shares of a signing key make the very
  signature the whole key makes, and a set of shares below the threshold makes none.
\<close>
lemma shares_sign_as_the_key:
  assumes "firma_ok F" and "\<And>m. length (sha m) = 32" and "fuente_ok fuente" and "sk_wf sk"
    and "split sha fuente (sk_to_bytes sk) k n r = (Inr shares, r')"
    and "set us \<subseteq> set shares" and "distinct (map sh_index us)" and "us \<noteq> []"
  shows "firmar_con_comparticiones F sha us m =
    Some (if unat k \<le> length us then Inr (sk_sign F sk m)
          else Inl (OperacionRechazada (RepartoInvalido (NotEnoughShares (unat k) (length us)))))"
proof (cases "unat k \<le> length us")
  case True
  have "combine sha us = Some (Inr (sk_to_bytes sk))"
    by (rule combine_split [OF assms(2,3,5,6,7) True])
  with True show ?thesis
    by (simp add: firmar_con_comparticiones_def sk_from_to_bytes [OF assms(4)] firmar_en_memoria [OF assms(1)])
next
  case False
  obtain p rest where us: "us = p # rest" using assms(8) by (cases us) auto
  obtain css where "shares = map (\<lambda>i. \<lparr>sh_threshold = k, sh_index = of_nat i,
       sh_y = map2 (\<lambda>cs b. evaluar cs b (of_nat i)) css (sk_to_bytes sk @ etiqueta sha (sk_to_bytes sk))\<rparr>)
       [1..<unat n + 1]"
    by (rule split_Inr [OF assms(5,3)])
  with assms(6) us have "sh_threshold p = k" by auto
  with False us have "combine sha us = Some (Inl (NotEnoughShares (unat k) (length us)))"
    by (simp add: combine_def Let_def)
  with False show ?thesis by (simp add: firmar_con_comparticiones_def)
qed

section \<open>Concrete signatures\<close>

lemma signed_roundtrip_example:
  "\<exists>s. encode_signed demo_firma [1, 2, 3] demo_clave (projr flagship) = Some s \<and>
    decode_verified demo_firma s (sk_verifying_key demo_firma demo_clave) (projr flagship) = Inr [1, 2, 3] \<and>
    encode_signed_con_custodio demo_firma [1, 2, 3] (en_memoria demo_firma demo_clave) (projr flagship) ()
      = (Some (Inr s), ())"
  by (rule signed_roundtrip [OF demo_firma_ok flagship_wf]) simp

lemma demo_firmado:
  "\<exists>s. decode_verified demo_firma s (sk_verifying_key demo_firma demo_clave) (projr flagship) = Inr [1, 2, 3]"
proof -
  obtain s where "encode_signed_con_custodio demo_firma [1, 2, 3] (en_memoria demo_firma demo_clave)
      (projr flagship) () = (Some (Inr s), ())"
    using encode_signed_total [OF flagship_wf]
    by (fastforce simp: encode_signed_con_custodio_def encode_signed_def firmar_en_memoria [OF demo_firma_ok])
  from memoria.artefacto [OF demo_firma_ok flagship_wf _ this] show ?thesis by auto
qed

theorem accepted_means_signed_witness:
  "\<exists>flags sig p. falsifica_ed demo_firma (vk_ed (sk_verifying_key demo_firma demo_clave))
        (preimagenes demo_firma {(sk_verifying_key demo_firma demo_clave, [1])} {}) p (take 64 sig) \<and>
    falsifica_ml demo_firma (vk_ml (sk_verifying_key demo_firma demo_clave))
        (preimagenes demo_firma {(sk_verifying_key demo_firma demo_clave, [1])} {}) p (drop 64 sig)"
proof -
  obtain s where "decode_verified demo_firma s (sk_verifying_key demo_firma demo_clave) (projr flagship)
      = Inr [1, 2, 3]"
    using demo_firmado by blast
  from accepted_means_signed [OF demo_firma_ok this,
      of "{(sk_verifying_key demo_firma demo_clave, [1])}" "{}"]
  show ?thesis by auto
qed

theorem triple_roundtrip_no_downgrade_witness:
  "\<exists>s vk. encode_signed_triple demo_firma [7] demo_clave_triple (projr flagship) = Some s \<and>
    decode_verified_triple demo_firma s vk (projr flagship) = Inr [7] \<and>
    (\<forall>vk2 m. decode_verified demo_firma s vk2 (projr flagship) \<noteq> Inr m)"
proof -
  obtain vk where vk: "tsk_verifying_key demo_firma demo_clave_triple = Some vk"
    using demo_triple_vk by blast
  from triple_roundtrip_no_downgrade [OF demo_firma_ok demo_slh_ok flagship_wf _ vk, of "[7]"]
  show ?thesis by auto
qed

lemma shares_sign_as_the_key_example:
  "\<exists>shares r'. split (\<lambda>_. replicate 32 7) demo_fuente (sk_to_bytes demo_clave) 2 3 0 = (Inr shares, r') \<and>
    firmar_con_comparticiones demo_firma (\<lambda>_. replicate 32 7) [shares ! 0] [5] =
      Some (Inl (OperacionRechazada (RepartoInvalido (NotEnoughShares 2 1))))"
proof -
  let ?sha = "\<lambda>_ :: bytes. replicate 32 (7 :: u8)" and ?b = "sk_to_bytes demo_clave"
  have "\<exists>shares r'. split ?sha demo_fuente ?b 2 3 0 = (Inr shares, r')"
    unfolding split_def Let_def
    by (simp add: MIN_THRESHOLD_def demo_split_loop sk_to_bytes_def demo_clave_def del: split_loop.simps)
  then obtain shares r' where s: "split ?sha demo_fuente ?b 2 3 0 = (Inr shares, r')" by blast
  obtain css where "shares = map (\<lambda>i. \<lparr>sh_threshold = 2, sh_index = of_nat i,
       sh_y = map2 (\<lambda>cs b. evaluar cs b (of_nat i)) css (?b @ etiqueta ?sha ?b)\<rparr>)
       [1..<unat (3 :: u8) + 1]"
    by (rule split_Inr [OF s demo_fuente_ok]) blast
  then have "length shares = 3" by simp
  then have "set [shares ! 0] \<subseteq> set shares" by simp
  from shares_sign_as_the_key [OF demo_firma_ok _ demo_fuente_ok demo_clave_wf s this, of "[5]"] s
  show ?thesis by simp
qed

end
