(* ===== verification/Pkcs11.thy ===== *)
theory Pkcs11
  imports Firmante
begin

text \<open>
  \<^verbatim>\<open>src/src/firmante/pkcs11.rs\<close>: the custodian whose keys stay in a PKCS#11 device.  The session is
  the one of the crate \<open>cryptoki\<close>: the record \<open>sesion\<close> holds its calls, each over the state \<open>'h\<close> of the
  device.  Texts are their UTF-8 bytes.
\<close>

section \<open>The session\<close>

datatype rv_error =
    DeviceRemoved
  | DeviceError
  | TokenNotPresent
  | SessionClosed
  | SessionHandleInvalid
  | OtroRv nat

datatype cryptoki_error =
    Pkcs11Error rv_error bytes
  | OtroCryptoki bytes

datatype object_class = PRIVATE_KEY | PUBLIC_KEY

datatype attribute_type = EcPointType | ValueType

datatype attribute = EcPoint bytes | Value bytes | OtroAtributo

datatype mechanism = EddsaPure | MlDsaPreferred

record ('o, 'h) sesion =
  find_objects :: "bytes \<Rightarrow> object_class \<Rightarrow> 'h \<Rightarrow> (cryptoki_error + 'o list) \<times> 'h"
  get_attributes :: "'o \<Rightarrow> attribute_type \<Rightarrow> 'h \<Rightarrow> (cryptoki_error + attribute list) \<times> 'h"
  sesion_sign :: "mechanism \<Rightarrow> 'o \<Rightarrow> bytes \<Rightarrow> 'h \<Rightarrow> (cryptoki_error + bytes) \<times> 'h"
  mostrar_cryptoki :: "cryptoki_error \<Rightarrow> bytes"

text \<open>Errors that a retry may mend, and the rest.\<close>

definition traducir :: "('o, 'h) sesion \<Rightarrow> bytes \<Rightarrow> cryptoki_error \<Rightarrow> error_de_firma" where
  "traducir S contexto e =
     (let detalle = Texto (contexto @ ascii '': '' @ mostrar_cryptoki S e)
      in case e of
           Pkcs11Error rv _ \<Rightarrow>
             (if rv \<in> {DeviceRemoved, DeviceError, TokenNotPresent, SessionClosed, SessionHandleInvalid}
              then CustodioNoDisponible detalle else OperacionRechazada detalle)
         | OtroCryptoki _ \<Rightarrow> OperacionRechazada detalle)"

definition map_err_pkcs ::
  "('o, 'h) sesion \<Rightarrow> bytes \<Rightarrow> (cryptoki_error + 'a) \<times> 'h \<Rightarrow> (error_de_firma + 'a) \<times> 'h" where
  "map_err_pkcs S contexto res =
     (case res of (Inl e, h) \<Rightarrow> (Inl (traducir S contexto e), h) | (Inr a, h) \<Rightarrow> (Inr a, h))"

section \<open>Finding and reading the keys\<close>

text \<open>\<^verbatim>\<open>"p\'ublica"\<close> with its accent, and the quotation marks around a label.\<close>

definition publica :: bytes where
  "publica = ascii ''p'' @ [0xC3, 0xBA] @ ascii ''blica''"

definition entre_comillas :: "bytes \<Rightarrow> bytes" where
  "entre_comillas rotulo = [0xC2, 0xAB] @ rotulo @ [0xC2, 0xBB]"

definition buscar_uno ::
  "('o, 'h) sesion \<Rightarrow> bytes \<Rightarrow> object_class \<Rightarrow> bytes \<Rightarrow> 'h \<Rightarrow> (error_de_firma + 'o) \<times> 'h" where
  "buscar_uno S rotulo clase cual h =
     (case map_err_pkcs S (ascii ''buscar la clave '' @ cual @ ascii '' '' @ entre_comillas rotulo)
             (find_objects S rotulo clase h) of
        (Inl e, h) \<Rightarrow> (Inl e, h)
      | (Inr encontrados, h) \<Rightarrow>
          ((if length encontrados = 1 then Inr (encontrados ! 0)
            else if length encontrados = 0 then
              Inl (OperacionRechazada (Texto (ascii ''no hay clave '' @ cual @ ascii '' con etiqueta '' @
                entre_comillas rotulo)))
            else
              Inl (OperacionRechazada (Texto (ascii ''hay '' @ decimal (length encontrados) @
                ascii '' claves '' @ cual @ ascii '' con etiqueta '' @ entre_comillas rotulo @
                ascii '': la etiqueta debe ser '' @ [0xC3, 0xBA] @ ascii ''nica'')))), h))"

definition buscar_par :: "('o, 'h) sesion \<Rightarrow> bytes \<Rightarrow> 'h \<Rightarrow> (error_de_firma + 'o \<times> 'o) \<times> 'h" where
  "buscar_par S rotulo h =
     (case buscar_uno S rotulo PRIVATE_KEY (ascii ''privada'') h of
        (Inl e, h) \<Rightarrow> (Inl e, h)
      | (Inr priv, h) \<Rightarrow>
          (case buscar_uno S rotulo PUBLIC_KEY publica h of
             (Inl e, h) \<Rightarrow> (Inl e, h)
           | (Inr pub, h) \<Rightarrow> (Inr (priv, pub), h)))"

fun find_ec_point :: "attribute list \<Rightarrow> bytes option" where
  "find_ec_point [] = None"
| "find_ec_point (EcPoint v # _) = Some v"
| "find_ec_point (_ # as) = find_ec_point as"

fun find_value :: "attribute list \<Rightarrow> bytes option" where
  "find_value [] = None"
| "find_value (Value v # _) = Some v"
| "find_value (_ # as) = find_value as"

text \<open>The point as it is, or without the DER octet string around it.\<close>

definition punto_crudo :: "bytes \<Rightarrow> bytes" where
  "punto_crudo punto =
     (if length punto = ED25519_PUB_LEN + 2 \<and> punto ! 0 = 0x04 \<and> punto ! 1 = of_nat ED25519_PUB_LEN
      then drop 2 punto else punto)"

definition leer_ed25519_publica ::
  "('o, 'h) sesion \<Rightarrow> 'o \<Rightarrow> 'h \<Rightarrow> (error_de_firma + bytes) \<times> 'h" where
  "leer_ed25519_publica S ob h =
     (case map_err_pkcs S (ascii ''leer EC_POINT Ed25519'') (get_attributes S ob EcPointType h) of
        (Inl e, h) \<Rightarrow> (Inl e, h)
      | (Inr attrs, h) \<Rightarrow>
          (case find_ec_point attrs of
             None \<Rightarrow> (Inl (OperacionRechazada (Texto (ascii ''la clave Ed25519 no expone EC_POINT''))), h)
           | Some punto \<Rightarrow>
               let crudo = punto_crudo punto
               in if length crudo \<noteq> ED25519_PUB_LEN then
                    (Inl (OperacionRechazada (Texto (ascii ''EC_POINT Ed25519 mide '' @
                      decimal (length crudo) @ ascii '' y se esperaban '' @ decimal ED25519_PUB_LEN))), h)
                  else (Inr crudo, h)))"

definition leer_mldsa_publica ::
  "('o, 'h) sesion \<Rightarrow> 'o \<Rightarrow> 'h \<Rightarrow> (error_de_firma + bytes) \<times> 'h" where
  "leer_mldsa_publica S ob h =
     (case map_err_pkcs S (ascii ''leer Value ML-DSA'') (get_attributes S ob ValueType h) of
        (Inl e, h) \<Rightarrow> (Inl e, h)
      | (Inr attrs, h) \<Rightarrow>
          (case find_value attrs of
             None \<Rightarrow> (Inl (OperacionRechazada (Texto (ascii ''la clave ML-DSA no expone Value''))), h)
           | Some valor \<Rightarrow>
               if length valor \<noteq> MLDSA_VK_LEN then
                 (Inl (OperacionRechazada (Texto (ascii ''clave p'' @ [0xC3, 0xBA] @
                   ascii ''blica ML-DSA mide '' @ decimal (length valor) @ ascii '' y se esperaban '' @
                   decimal MLDSA_VK_LEN))), h)
               else (Inr valor, h)))"

section \<open>The custodian\<close>

record ('o, 'e, 'm) custodio_pkcs11 =
  clave_ed25519 :: 'o
  clave_mldsa :: 'o
  verificacion :: "('e, 'm) verifying_key"

definition pkcs11_nuevo ::
  "('e, 'm, 'g, 'z) firma_scheme \<Rightarrow> ('o, 'h) sesion \<Rightarrow> 'o \<Rightarrow> 'o \<Rightarrow> 'o \<Rightarrow> 'o \<Rightarrow> 'h \<Rightarrow>
    (error_de_firma + ('o, 'e, 'm) custodio_pkcs11) \<times> 'h" where
  "pkcs11_nuevo F S ed_priv ed_pub ml_priv ml_pub h =
     (case leer_ed25519_publica S ed_pub h of
        (Inl e, h) \<Rightarrow> (Inl e, h)
      | (Inr ed, h) \<Rightarrow>
          (case leer_mldsa_publica S ml_pub h of
             (Inl e, h) \<Rightarrow> (Inl e, h)
           | (Inr ml, h) \<Rightarrow>
               (case vk_from_bytes F (ed @ ml) of
                  None \<Rightarrow>
                    (Inl (OperacionRechazada (Texto (ascii ''el dispositivo entreg'' @ [0xC3, 0xB3] @
                      ascii '' claves p'' @ [0xC3, 0xBA] @
                      ascii ''blicas que no forman una VerifyingKey de Quipu''))), h)
                | Some vk \<Rightarrow>
                    (Inr \<lparr>clave_ed25519 = ed_priv, clave_mldsa = ml_priv, verificacion = vk\<rparr>, h))))"

definition por_etiqueta ::
  "('e, 'm, 'g, 'z) firma_scheme \<Rightarrow> ('o, 'h) sesion \<Rightarrow> bytes \<Rightarrow> bytes \<Rightarrow> 'h \<Rightarrow>
    (error_de_firma + ('o, 'e, 'm) custodio_pkcs11) \<times> 'h" where
  "por_etiqueta F S etiqueta_ed25519 etiqueta_mldsa h =
     (case buscar_par S etiqueta_ed25519 h of
        (Inl e, h) \<Rightarrow> (Inl e, h)
      | (Inr (ed_priv, ed_pub), h) \<Rightarrow>
          (case buscar_par S etiqueta_mldsa h of
             (Inl e, h) \<Rightarrow> (Inl e, h)
           | (Inr (ml_priv, ml_pub), h) \<Rightarrow> pkcs11_nuevo F S ed_priv ed_pub ml_priv ml_pub h))"

definition pkcs11_custodio ::
  "('o, 'h) sesion \<Rightarrow> ('o, 'e, 'm) custodio_pkcs11 \<Rightarrow> ('e, 'm, 'h) custodio" where
  "pkcs11_custodio S C =
     \<lparr>clave_de_verificacion = (\<lambda>h. (Inr (verificacion C), h)),
      firmar_ed25519 = (\<lambda>preimagen h.
        map_err_pkcs S (ascii ''firmar Ed25519 en el dispositivo'')
          (sesion_sign S EddsaPure (clave_ed25519 C) preimagen h)),
      firmar_mldsa = (\<lambda>preimagen h.
        map_err_pkcs S (ascii ''firmar ML-DSA en el dispositivo'')
          (sesion_sign S MlDsaPreferred (clave_mldsa C) preimagen h))\<rparr>"

section \<open>What a device promises\<close>

text \<open>
  PKCS#11: a private and a public object with one label are the two halves of one key, so what the
  private one signs verifies under the key the public one shows, whatever happened in between.
\<close>

definition dispositivo_ok :: "('e, 'm, 'g, 'z) firma_scheme \<Rightarrow> ('o, 'h) sesion \<Rightarrow> bool" where
  "dispositivo_ok F S \<longleftrightarrow>
     (\<forall>l priv pub h1 h1' h2 h2' h3 h3' as h4 h4' p sig.
        find_objects S l PRIVATE_KEY h1 = (Inr [priv], h1') \<longrightarrow>
        find_objects S l PUBLIC_KEY h2 = (Inr [pub], h2') \<longrightarrow>
        (\<forall>v e. get_attributes S pub EcPointType h3 = (Inr as, h3') \<longrightarrow> find_ec_point as = Some v \<longrightarrow>
           ed_from_bytes F (punto_crudo v) = Some e \<longrightarrow>
           sesion_sign S EddsaPure priv p h4 = (Inr sig, h4') \<longrightarrow> ed_verify_strict F e p sig) \<and>
        (\<forall>v. get_attributes S pub ValueType h3 = (Inr as, h3') \<longrightarrow> find_value as = Some v \<longrightarrow>
           sesion_sign S MlDsaPreferred priv p h4 = (Inr sig, h4') \<longrightarrow>
           (\<exists>g. ml_sig_decode F sig = Some g \<and> ml_verify F (ml_decode F v) p g)))"

text \<open>The same of one custodian: its two handles sign for the key it names.\<close>

definition pkcs11_ok ::
  "('e, 'm, 'g, 'z) firma_scheme \<Rightarrow> ('o, 'h) sesion \<Rightarrow> ('o, 'e, 'm) custodio_pkcs11 \<Rightarrow> bool" where
  "pkcs11_ok F S C \<longleftrightarrow>
     (\<forall>p h sig h'. sesion_sign S EddsaPure (clave_ed25519 C) p h = (Inr sig, h') \<longrightarrow>
        ed_verify_strict F (vk_ed (verificacion C)) p sig) \<and>
     (\<forall>p h sig h'. sesion_sign S MlDsaPreferred (clave_mldsa C) p h = (Inr sig, h') \<longrightarrow>
        (\<exists>g. ml_sig_decode F sig = Some g \<and> ml_verify F (vk_ml (verificacion C)) p g))"

lemma map_err_pkcs_Inr [simp]: "map_err_pkcs S c res = (Inr a, h) \<longleftrightarrow> res = (Inr a, h)"
  by (auto simp: map_err_pkcs_def split: prod.splits sum.splits)

interpretation hsm: custodia_de_firma F "pkcs11_custodio S C" "verificacion C" "pkcs11_ok F S C" for F S C
  by unfold_locales (simp_all add: pkcs11_custodio_def pkcs11_ok_def, blast+)

lemma buscar_uno_Inr:
  "buscar_uno S l c cual h = (Inr ob, h') \<longleftrightarrow> find_objects S l c h = (Inr [ob], h')"
  by (auto simp: buscar_uno_def length_Suc_conv map_err_pkcs_def split: prod.splits sum.splits if_splits)

lemma buscar_par_Inr:
  assumes "buscar_par S l h = (Inr (priv, pub), h')"
  obtains h1 where "find_objects S l PRIVATE_KEY h = (Inr [priv], h1)"
    "find_objects S l PUBLIC_KEY h1 = (Inr [pub], h')"
  using assms by (auto simp: buscar_par_def buscar_uno_Inr split: prod.splits sum.splits)

lemma leer_ed25519_Inr:
  assumes "leer_ed25519_publica S ob h = (Inr b, h')"
  obtains as v where "get_attributes S ob EcPointType h = (Inr as, h')" "find_ec_point as = Some v"
    "b = punto_crudo v" "length b = 32"
  using assms
  by (auto simp: leer_ed25519_publica_def firma_lens Let_def
      split: prod.splits sum.splits option.splits if_splits)

lemma leer_mldsa_Inr:
  assumes "leer_mldsa_publica S ob h = (Inr b, h')"
  obtains as where "get_attributes S ob ValueType h = (Inr as, h')" "find_value as = Some b"
    "length b = 2592"
  using assms
  by (auto simp: leer_mldsa_publica_def firma_lens split: prod.splits sum.splits option.splits if_splits)

lemma pkcs11_nuevo_Inr:
  assumes "pkcs11_nuevo F S ed_priv ed_pub ml_priv ml_pub h = (Inr C, h')"
  obtains as1 v e as2 w h1 where
    "get_attributes S ed_pub EcPointType h = (Inr as1, h1)" "find_ec_point as1 = Some v"
    "ed_from_bytes F (punto_crudo v) = Some e"
    "get_attributes S ml_pub ValueType h1 = (Inr as2, h')" "find_value as2 = Some w"
    "C = \<lparr>clave_ed25519 = ed_priv, clave_mldsa = ml_priv,
      verificacion = \<lparr>vk_ed = e, vk_ml = ml_decode F w\<rparr>\<rparr>"
proof -
  obtain b h1 where b: "leer_ed25519_publica S ed_pub h = (Inr b, h1)"
    using assms by (auto simp: pkcs11_nuevo_def split: prod.splits sum.splits)
  obtain w vk where w: "leer_mldsa_publica S ml_pub h1 = (Inr w, h')" and vk: "vk_from_bytes F (b @ w) = Some vk"
      and C: "C = \<lparr>clave_ed25519 = ed_priv, clave_mldsa = ml_priv, verificacion = vk\<rparr>"
    using assms b by (auto simp: pkcs11_nuevo_def split: prod.splits sum.splits option.splits)
  obtain as1 v where v: "get_attributes S ed_pub EcPointType h = (Inr as1, h1)" "find_ec_point as1 = Some v"
      "b = punto_crudo v" "length b = 32"
    using leer_ed25519_Inr [OF b] .
  obtain as2 where as2: "get_attributes S ml_pub ValueType h1 = (Inr as2, h')" "find_value as2 = Some w"
      "length w = 2592"
    using leer_mldsa_Inr [OF w] .
  obtain e where "ed_from_bytes F (punto_crudo v) = Some e" "vk = \<lparr>vk_ed = e, vk_ml = ml_decode F w\<rparr>"
    using vk v(3,4) as2(3) by (auto simp: vk_from_bytes_def firma_lens split: bind_splits if_splits)
  with that v(1,2) as2(1,2) C show ?thesis by blast
qed

lemma por_etiqueta_ok:
  assumes S: "dispositivo_ok F S" and C: "por_etiqueta F S le lm h = (Inr C, h')"
  shows "pkcs11_ok F S C"
proof -
  obtain ed_priv ed_pub h1 where e: "buscar_par S le h = (Inr (ed_priv, ed_pub), h1)"
    using C by (auto simp: por_etiqueta_def split: prod.splits sum.splits)
  obtain ml_priv ml_pub h2 where m: "buscar_par S lm h1 = (Inr (ml_priv, ml_pub), h2)"
      and n: "pkcs11_nuevo F S ed_priv ed_pub ml_priv ml_pub h2 = (Inr C, h')"
    using C e by (auto simp: por_etiqueta_def split: prod.splits sum.splits)
  obtain k1 where k1: "find_objects S le PRIVATE_KEY h = (Inr [ed_priv], k1)"
      "find_objects S le PUBLIC_KEY k1 = (Inr [ed_pub], h1)"
    using buscar_par_Inr [OF e] .
  obtain k2 where k2: "find_objects S lm PRIVATE_KEY h1 = (Inr [ml_priv], k2)"
      "find_objects S lm PUBLIC_KEY k2 = (Inr [ml_pub], h2)"
    using buscar_par_Inr [OF m] .
  obtain as1 v x as2 w h3 where a: "get_attributes S ed_pub EcPointType h2 = (Inr as1, h3)"
      "find_ec_point as1 = Some v" "ed_from_bytes F (punto_crudo v) = Some x"
      "get_attributes S ml_pub ValueType h3 = (Inr as2, h')" "find_value as2 = Some w"
      "C = \<lparr>clave_ed25519 = ed_priv, clave_mldsa = ml_priv,
        verificacion = \<lparr>vk_ed = x, vk_ml = ml_decode F w\<rparr>\<rparr>"
    using pkcs11_nuevo_Inr [OF n] .
  have "ed_verify_strict F x p sig" if "sesion_sign S EddsaPure ed_priv p g = (Inr sig, g')" for p g sig g'
    using S k1 a(1-3) that unfolding dispositivo_ok_def by blast
  moreover have "\<exists>y. ml_sig_decode F sig = Some y \<and> ml_verify F (ml_decode F w) p y"
    if "sesion_sign S MlDsaPreferred ml_priv p g = (Inr sig, g')" for p g sig g'
    using S k2 a(4,5) that unfolding dispositivo_ok_def by blast
  ultimately show ?thesis by (auto simp: pkcs11_ok_def a(6))
qed

section \<open>A device\<close>

text \<open>The keys of \<open>demo_clave\<close> as objects 1 to 4, the point with its DER prefix, and no state.\<close>

definition demo_sesion :: "(nat, unit) sesion" where
  "demo_sesion =
     \<lparr>find_objects = \<lambda>l c h. (Inr (if l = ascii ''ed'' then [if c = PRIVATE_KEY then 1 else 2]
          else if l = ascii ''ml'' then [if c = PRIVATE_KEY then 3 else 4] else []), h),
      get_attributes = \<lambda>ob t h. (Inr (
          if ob = 2 \<and> t = EcPointType then
            [EcPoint (0x04 # 0x20 # ed_as_bytes demo_firma (vk_ed (sk_verifying_key demo_firma demo_clave)))]
          else if ob = 4 \<and> t = ValueType then
            [Value (ml_encode demo_firma (vk_ml (sk_verifying_key demo_firma demo_clave)))]
          else []), h),
      sesion_sign = \<lambda>m ob p h. ((
          if m = EddsaPure \<and> ob = 1 then Inr (firmar_ed25519_crudo demo_firma demo_clave p)
          else if m = MlDsaPreferred \<and> ob = 3 then Inr (firmar_mldsa_crudo demo_firma demo_clave p)
          else Inl (OtroCryptoki [])), h),
      mostrar_cryptoki = \<lambda>e. []\<rparr>"

lemma demo_punto:
  "punto_crudo (0x04 # 0x20 # ed_as_bytes demo_firma e) = ed_as_bytes demo_firma e"
  by (simp add: punto_crudo_def firma_lens firma_okD [OF demo_firma_ok])

lemma demo_dispositivo_ok: "dispositivo_ok demo_firma demo_sesion"
  unfolding dispositivo_ok_def
  by (auto simp: demo_sesion_def demo_punto firma_okD [OF demo_firma_ok] firmar_ed25519_crudo_def
      firmar_mldsa_crudo_def sk_verifying_key_def ascii_def split: if_splits)

lemma demo_por_etiqueta:
  "por_etiqueta demo_firma demo_sesion (ascii ''ed'') (ascii ''ml'') () =
    (Inr \<lparr>clave_ed25519 = 1, clave_mldsa = 3, verificacion = sk_verifying_key demo_firma demo_clave\<rparr>, ())"
proof -
  let ?vk = "sk_verifying_key demo_firma demo_clave"
  have "vk_from_bytes demo_firma (ed_as_bytes demo_firma (vk_ed ?vk) @ ml_encode demo_firma (vk_ml ?vk)) = Some ?vk"
    using vk_from_to_bytes [OF demo_firma_ok, of ?vk] by (simp add: vk_to_bytes_def)
  then show ?thesis
    by (simp add: por_etiqueta_def buscar_par_def buscar_uno_def pkcs11_nuevo_def leer_ed25519_publica_def
        leer_mldsa_publica_def map_err_pkcs_def demo_sesion_def demo_punto firma_lens ascii_def
        firma_okD [OF demo_firma_ok])
qed

section \<open>Properties\<close>

text \<open>
  C23. The key in the device.  A custodian built from two labels of a device that keeps its promises
  signs for the key it read when it was built: every signed artefact it writes, whatever the device
  went through in between and however its signatures are randomised, is accepted under that key and
  gives the message back.
\<close>
theorem device_artefact_is_accepted:
  assumes "dispositivo_ok F S" and "por_etiqueta F S le lm h = (Inr C, h')"
    and "dictionary_wf dict" and "length data < 2 ^ 32"
    and "encode_signed_con_custodio F data (pkcs11_custodio S C) dict h2 = (Some (Inr s), h3)"
  shows "decode_verified F s (verificacion C) dict = Inr data"
  by (rule hsm.artefacto [OF por_etiqueta_ok [OF assms(1,2)] assms(3-5)])

theorem device_artefact_is_accepted_witness:
  "\<exists>s. encode_signed_con_custodio demo_firma [9]
      (pkcs11_custodio demo_sesion \<lparr>clave_ed25519 = 1, clave_mldsa = 3,
        verificacion = sk_verifying_key demo_firma demo_clave\<rparr>) (projr flagship) () = (Some (Inr s), ()) \<and>
    decode_verified demo_firma s (sk_verifying_key demo_firma demo_clave) (projr flagship) = Inr [9]"
proof -
  let ?C = "\<lparr>clave_ed25519 = 1, clave_mldsa = 3, verificacion = sk_verifying_key demo_firma demo_clave\<rparr>"
  have "firmar demo_firma (pkcs11_custodio demo_sesion ?C) [9] () = (Inr (sk_sign demo_firma demo_clave [9]), ())"
    by (simp add: firmar_def pkcs11_custodio_def map_err_pkcs_def demo_sesion_def comprobar_longitud_def
        firma_lens sk_sign_parts [OF demo_firma_ok] firmar_ed25519_crudo_def firmar_mldsa_crudo_def
        firma_okD [OF demo_firma_ok] Let_def)
  then obtain s where s: "encode_signed_con_custodio demo_firma [9] (pkcs11_custodio demo_sesion ?C)
      (projr flagship) () = (Some (Inr s), ())"
    using encode_signed_total [OF flagship_wf, of demo_firma "[9]" demo_clave]
    by (auto simp: encode_signed_con_custodio_def encode_signed_def)
  from device_artefact_is_accepted [OF demo_dispositivo_ok demo_por_etiqueta flagship_wf _ s]
  have "decode_verified demo_firma s (sk_verifying_key demo_firma demo_clave) (projr flagship) = Inr [9]" by simp
  with s show ?thesis by blast
qed

end
