(* ===== verification/Hibrido.thy ===== *)
theory Hibrido
  imports Api Hexutil Instances
begin

text \<open>
  \<^verbatim>\<open>src/src/pqhybrid.rs\<close> and the recipient mode of \<^verbatim>\<open>src/src/api.rs\<close>: a hybrid KEM (X25519 and
  ML-KEM-1024) whose two secrets enter one HKDF together with the whole transcript, and the
  container \<open>QPQ1\<close> it opens.  X25519, ML-KEM and the ChaCha20 generator are other crates: the fields
  of the record \<open>kem\<close>, with their documented laws in \<open>kem_ok\<close>.  The outer option is a panic.
\<close>

section \<open>The primitives\<close>

text \<open>
  \<open>'x\<close> and \<open>'p\<close> are X25519 secrets and public keys, \<open>'d\<close> and \<open>'k\<close> ML-KEM decapsulation and
  encapsulation keys, \<open>'g\<close> a seeded generator.  \<open>dk_to_bytes\<close> gives the seed, of a key that has one.
\<close>

record ('x, 'p, 'd, 'k, 'g) kem =
  chacha_from_seed :: "bytes \<Rightarrow> 'g"
  x_random :: "'g \<Rightarrow> 'x \<times> 'g"
  x_from :: "bytes \<Rightarrow> 'x"
  x_to_bytes :: "'x \<Rightarrow> bytes"
  x_public :: "'x \<Rightarrow> 'p"
  xp_from :: "bytes \<Rightarrow> 'p"
  xp_as_bytes :: "'p \<Rightarrow> bytes"
  diffie_hellman :: "'x \<Rightarrow> 'p \<Rightarrow> bytes"
  ml_generate :: "'g \<Rightarrow> ('d \<times> 'k) \<times> 'g"
  ek_to_bytes :: "'k \<Rightarrow> bytes"
  ek_new :: "bytes \<Rightarrow> 'k option"
  dk_to_bytes :: "'d \<Rightarrow> bytes option"
  dk_new :: "bytes \<Rightarrow> 'd"
  dk_to_expanded :: "'d \<Rightarrow> bytes"
  dk_from_expanded :: "bytes \<Rightarrow> 'd option"
  dk_ek :: "'d \<Rightarrow> 'k"
  ml_encapsulate :: "'k \<Rightarrow> 'g \<Rightarrow> (bytes \<times> bytes) \<times> 'g"
  ml_decapsulate :: "'d \<Rightarrow> bytes \<Rightarrow> bytes"

definition X25519_PUB_LEN :: nat where "X25519_PUB_LEN = 32"
definition MLKEM_EK_LEN :: nat where "MLKEM_EK_LEN = 1568"
definition MLKEM_CT_LEN :: nat where "MLKEM_CT_LEN = 1568"
definition ENCAPSULATION_LEN :: nat where "ENCAPSULATION_LEN = X25519_PUB_LEN + MLKEM_CT_LEN"
definition PUBLIC_KEY_LEN :: nat where "PUBLIC_KEY_LEN = X25519_PUB_LEN + MLKEM_EK_LEN"
definition MLKEM_DK_LEN :: nat where "MLKEM_DK_LEN = 64"
definition MLKEM_DK_LEN_EXPANDIDA :: nat where "MLKEM_DK_LEN_EXPANDIDA = 3168"
definition SECRET_KEY_LEN :: nat where "SECRET_KEY_LEN = X25519_PUB_LEN + MLKEM_DK_LEN"
definition SECRET_KEY_LEN_ANTERIOR :: nat where
  "SECRET_KEY_LEN_ANTERIOR = X25519_PUB_LEN + MLKEM_DK_LEN_EXPANDIDA"
definition CONTENT_KEY_LEN :: nat where "CONTENT_KEY_LEN = 32"

lemmas kem_lens =
  X25519_PUB_LEN_def MLKEM_EK_LEN_def MLKEM_CT_LEN_def ENCAPSULATION_LEN_def PUBLIC_KEY_LEN_def
  MLKEM_DK_LEN_def MLKEM_DK_LEN_EXPANDIDA_def SECRET_KEY_LEN_def SECRET_KEY_LEN_ANTERIOR_def
  CONTENT_KEY_LEN_def

definition HKDF_INFO :: bytes where
  "HKDF_INFO = ascii ''quipu/v2/hybrid-kem''"

text \<open>
  RFC 7748 and FIPS 203: lengths, encodings, the commuting square of Diffie-Hellman, and that a
  generated key opens what was encapsulated to it (FIPS 203 bounds the exceptions by \<open>2^-174\<close>; the
  law takes them as never).  A generated key comes from a seed; a key read from its expanded form
  does what the key it was written from does.
\<close>

definition kem_ok :: "('x, 'p, 'd, 'k, 'g, 'z) kem_scheme \<Rightarrow> bool" where
  "kem_ok M \<longleftrightarrow>
     (\<forall>p. length (xp_as_bytes M p) = 32 \<and> xp_from M (xp_as_bytes M p) = p) \<and>
     (\<forall>x. length (x_to_bytes M x) = 32 \<and> x_from M (x_to_bytes M x) = x) \<and>
     (\<forall>a b. diffie_hellman M a (x_public M b) = diffie_hellman M b (x_public M a)) \<and>
     (\<forall>a p. length (diffie_hellman M a p) = 32) \<and>
     (\<forall>k. length (ek_to_bytes M k) = 1568 \<and> ek_new M (ek_to_bytes M k) = Some k) \<and>
     (\<forall>g d k g'. ml_generate M g = ((d, k), g') \<longrightarrow>
        k = dk_ek M d \<and> (\<exists>s. length s = 64 \<and> dk_to_bytes M d = Some s \<and> dk_new M s = d)) \<and>
     (\<forall>d. length (dk_to_expanded M d) = 3168 \<and>
        (\<exists>d'. dk_from_expanded M (dk_to_expanded M d) = Some d' \<and> dk_ek M d' = dk_ek M d \<and>
           ml_decapsulate M d' = ml_decapsulate M d)) \<and>
     (\<forall>d g ct ss g'. ml_encapsulate M (dk_ek M d) g = ((ct, ss), g') \<longrightarrow>
        length ct = 1568 \<and> ml_decapsulate M d ct = ss) \<and>
     (\<forall>d ct. length (ml_decapsulate M d ct) = 32)"

section \<open>Keys\<close>

record ('p, 'k) hybrid_public =
  hp_x :: 'p
  hp_ml :: 'k

record ('x, 'd) hybrid_secret =
  hs_x :: 'x
  hs_ml :: 'd

text \<open>\<^verbatim>\<open>aleatorio::generador\<close>: 32 checked bytes seed a generator that cannot fail.\<close>

definition generador ::
  "('x, 'p, 'd, 'k, 'g, 'z) kem_scheme \<Rightarrow> 'r fuente \<Rightarrow> 'r \<Rightarrow> (sin_entropia + 'g) \<times> 'r" where
  "generador M fuente r =
     (case llenar fuente 32 r of
        (Inl e, r) \<Rightarrow> (Inl e, r)
      | (Inr semilla, r) \<Rightarrow> (Inr (chacha_from_seed M semilla), r))"

definition hybrid_keypair_unchecked ::
  "('x, 'p, 'd, 'k, 'g, 'z) kem_scheme \<Rightarrow> 'r fuente \<Rightarrow> 'r \<Rightarrow>
    (sin_entropia + ('p, 'k) hybrid_public \<times> ('x, 'd) hybrid_secret) \<times> 'r" where
  "hybrid_keypair_unchecked M fuente r =
     (case generador M fuente r of
        (Inl e, r) \<Rightarrow> (Inl e, r)
      | (Inr rng, r) \<Rightarrow>
          (let (x_secret, rng) = x_random M rng;
               ((ml_dk, ml_ek), rng) = ml_generate M rng
           in (Inr (\<lparr>hp_x = x_public M x_secret, hp_ml = ml_ek\<rparr>, \<lparr>hs_x = x_secret, hs_ml = ml_dk\<rparr>), r)))"

definition hybrid_keypair ::
  "report \<Rightarrow> ('x, 'p, 'd, 'k, 'g, 'z) kem_scheme \<Rightarrow> 'r fuente \<Rightarrow> 'r \<Rightarrow>
    ((sin_entropia + ('p, 'k) hybrid_public \<times> ('x, 'd) hybrid_secret) \<times> 'r) option" where
  "hybrid_keypair informe M fuente r =
     do {
       _ \<leftarrow> ensure informe None;
       Some (hybrid_keypair_unchecked M fuente r)
     }"

definition hp_to_bytes :: "('x, 'p, 'd, 'k, 'g, 'z) kem_scheme \<Rightarrow> ('p, 'k) hybrid_public \<Rightarrow> bytes" where
  "hp_to_bytes M pk = xp_as_bytes M (hp_x pk) @ ek_to_bytes M (hp_ml pk)"

definition hp_from_bytes ::
  "('x, 'p, 'd, 'k, 'g, 'z) kem_scheme \<Rightarrow> bytes \<Rightarrow> ('p, 'k) hybrid_public option" where
  "hp_from_bytes M b =
     (if length b \<noteq> PUBLIC_KEY_LEN then None
      else do {
        ml \<leftarrow> ek_new M (drop 32 b);
        Some \<lparr>hp_x = xp_from M (slice 0 32 b), hp_ml = ml\<rparr>
      })"

definition hs_to_bytes ::
  "('x, 'p, 'd, 'k, 'g, 'z) kem_scheme \<Rightarrow> ('x, 'd) hybrid_secret \<Rightarrow> bytes option" where
  "hs_to_bytes M sk = map_option (\<lambda>semilla. x_to_bytes M (hs_x sk) @ semilla) (dk_to_bytes M (hs_ml sk))"

text \<open>Both formats are read; the length tells them apart.\<close>

definition hs_from_bytes ::
  "('x, 'p, 'd, 'k, 'g, 'z) kem_scheme \<Rightarrow> bytes \<Rightarrow> ('x, 'd) hybrid_secret option" where
  "hs_from_bytes M b =
     (if length b < 32 then None
      else
        let x = x_from M (slice 0 32 b)
        in if length b = SECRET_KEY_LEN then Some \<lparr>hs_x = x, hs_ml = dk_new M (drop 32 b)\<rparr>
           else if length b = SECRET_KEY_LEN_ANTERIOR then
             map_option (\<lambda>dk. \<lparr>hs_x = x, hs_ml = dk\<rparr>) (dk_from_expanded M (drop 32 b))
           else None)"

section \<open>Encapsulation\<close>

definition build_transcript :: "bytes \<Rightarrow> bytes \<Rightarrow> bytes \<Rightarrow> bytes" where
  "build_transcript recipient_x_pub recipient_ek encapsulation =
     recipient_x_pub @ recipient_ek @ encapsulation"

definition hybrid_combine :: "'c cripto_scheme \<Rightarrow> bytes \<Rightarrow> bytes \<Rightarrow> bytes \<Rightarrow> bytes option" where
  "hybrid_combine C x_ss ml_ss transcript =
     (let ikm = x_ss @ ml_ss;
          info = HKDF_INFO @ transcript
      in hkdf_sha256 C ikm info CONTENT_KEY_LEN)"

definition encapsulate ::
  "'c cripto_scheme \<Rightarrow> ('x, 'p, 'd, 'k, 'g, 'z) kem_scheme \<Rightarrow> 'r fuente \<Rightarrow> ('p, 'k) hybrid_public \<Rightarrow> 'r \<Rightarrow>
    ((sin_entropia + bytes \<times> bytes) \<times> 'r) option" where
  "encapsulate C M fuente pk r =
     (case generador M fuente r of
        (Inl e, r) \<Rightarrow> Some (Inl e, r)
      | (Inr rng, r) \<Rightarrow>
          (let (eph, rng) = x_random M rng;
               x_ss = diffie_hellman M eph (hp_x pk);
               ((ml_ct, ml_ss), rng) = ml_encapsulate M (hp_ml pk) rng;
               encapsulation = xp_as_bytes M (x_public M eph) @ ml_ct;
               transcript = build_transcript (xp_as_bytes M (hp_x pk)) (ek_to_bytes M (hp_ml pk)) encapsulation
           in do {
                clave \<leftarrow> hybrid_combine C x_ss ml_ss transcript;
                Some (Inr (clave, encapsulation), r)
              }))"

text \<open>The two shared secrets and the transcript on the recipient's side.\<close>

definition secretos_de ::
  "('x, 'p, 'd, 'k, 'g, 'z) kem_scheme \<Rightarrow> ('x, 'd) hybrid_secret \<Rightarrow> bytes \<Rightarrow> bytes \<times> bytes \<times> bytes" where
  "secretos_de M sk encapsulation =
     (let eph_pub = xp_from M (slice 0 32 encapsulation);
          x_ss = diffie_hellman M (hs_x sk) eph_pub;
          ml_ss = ml_decapsulate M (hs_ml sk) (drop 32 encapsulation);
          recipient_x_pub = x_public M (hs_x sk);
          recipient_ek = ek_to_bytes M (dk_ek M (hs_ml sk))
      in (x_ss, ml_ss, build_transcript (xp_as_bytes M recipient_x_pub) recipient_ek encapsulation))"

definition decapsulate ::
  "'c cripto_scheme \<Rightarrow> ('x, 'p, 'd, 'k, 'g, 'z) kem_scheme \<Rightarrow> ('x, 'd) hybrid_secret \<Rightarrow> bytes \<Rightarrow>
    bytes option option" where
  "decapsulate C M sk encapsulation =
     (if length encapsulation \<noteq> ENCAPSULATION_LEN then Some None
      else
        let (x_ss, ml_ss, transcript) = secretos_de M sk encapsulation
        in map_option Some (hybrid_combine C x_ss ml_ss transcript))"

section \<open>The recipient mode\<close>

definition HYBRID_MAGIC :: bytes where
  "HYBRID_MAGIC = ascii ''QPQ1''"

definition HYBRID_VERSION :: u8 where
  "HYBRID_VERSION = 1"

definition HYBRID_PREFIX :: nat where
  "HYBRID_PREFIX = 4 + 1 + 1 + NONCE_LEN"

definition hybrid_header :: "u8 \<Rightarrow> bytes \<Rightarrow> bytes \<Rightarrow> bytes" where
  "hybrid_header flags nonce encapsulation =
     HYBRID_MAGIC @ [HYBRID_VERSION] @ [flags] @ nonce @ encapsulation"

definition encode_to_recipient ::
  "'c cripto_scheme \<Rightarrow> ('x, 'p, 'd, 'k, 'g, 'z) kem_scheme \<Rightarrow> 'r fuente \<Rightarrow> bytes \<Rightarrow>
    ('p, 'k) hybrid_public \<Rightarrow> dictionary \<Rightarrow> 'r \<Rightarrow> ((sin_entropia + char32 list) \<times> 'r) option" where
  "encode_to_recipient C M fuente data recipient dict r =
     (case encapsulate C M fuente recipient r of
        None \<Rightarrow> None
      | Some (Inl e, r) \<Rightarrow> Some (Inl e, r)
      | Some (Inr (content_key, encapsulation), r) \<Rightarrow>
          (case llenar fuente NONCE_LEN r of
             (Inl e, r) \<Rightarrow> Some (Inl e, r)
           | (Inr nonce, r) \<Rightarrow>
               let header = hybrid_header 0 nonce encapsulation
               in do {
                    padded \<leftarrow> prelayers_pad data;
                    ciphertext \<leftarrow> cipher_encrypt C content_key nonce padded header;
                    symbols \<leftarrow> representar dict (header @ ciphertext);
                    Some (Inr symbols, r)
                  }))"

definition decode_as_recipient ::
  "'c cripto_scheme \<Rightarrow> ('x, 'p, 'd, 'k, 'g, 'z) kem_scheme \<Rightarrow> char32 list \<Rightarrow>
    ('x, 'd) hybrid_secret \<Rightarrow> dictionary \<Rightarrow> (decode_error + bytes) option" where
  "decode_as_recipient C M symbols recipient dict =
     (case leer_simbolos dict symbols of
        Inl e \<Rightarrow> Some (Inl e)
      | Inr blob \<Rightarrow>
          let header_len = HYBRID_PREFIX + ENCAPSULATION_LEN
          in if length blob < header_len then Some (Inl (Container ContainerTooShort))
             else if slice 0 4 blob \<noteq> HYBRID_MAGIC then Some (Inl (Container ContainerBadMagic))
             else if blob ! 4 \<noteq> HYBRID_VERSION then
               Some (Inl (Container (ContainerUnsupportedVersion (blob ! 4))))
             else
               let nonce = slice 6 HYBRID_PREFIX blob;
                   encapsulation = slice HYBRID_PREFIX header_len blob;
                   aad = slice 0 header_len blob;
                   ciphertext = drop header_len blob
               in case decapsulate C M recipient encapsulation of
                    None \<Rightarrow> None
                  | Some None \<Rightarrow> Some (Inl Decrypt)
                  | Some (Some content_key) \<Rightarrow>
                      Some (case cipher_decrypt C content_key nonce ciphertext aad of
                              Inl _ \<Rightarrow> Inl Decrypt
                            | Inr padded \<Rightarrow>
                                (case prelayers_unpad padded of Inl _ \<Rightarrow> Inl Decrypt | Inr d \<Rightarrow> Inr d)))"

section \<open>Keys in bytes\<close>

lemma kem_okD:
  assumes "kem_ok M"
  shows "length (xp_as_bytes M p) = 32" "xp_from M (xp_as_bytes M p) = p"
    "length (x_to_bytes M x) = 32" "x_from M (x_to_bytes M x) = x"
    "diffie_hellman M a (x_public M b) = diffie_hellman M b (x_public M a)"
    "length (diffie_hellman M a p) = 32"
    "length (ek_to_bytes M k) = 1568" "ek_new M (ek_to_bytes M k) = Some k"
    "ml_generate M g = ((d, k), g') \<Longrightarrow>
      k = dk_ek M d \<and> (\<exists>s. length s = 64 \<and> dk_to_bytes M d = Some s \<and> dk_new M s = d)"
    "length (dk_to_expanded M d) = 3168"
    "\<exists>d'. dk_from_expanded M (dk_to_expanded M d) = Some d' \<and> dk_ek M d' = dk_ek M d \<and>
      ml_decapsulate M d' = ml_decapsulate M d"
    "ml_encapsulate M (dk_ek M d) g = ((ct, ss), g') \<Longrightarrow> length ct = 1568 \<and> ml_decapsulate M d ct = ss"
    "length (ml_decapsulate M d ct) = 32"
  using assms unfolding kem_ok_def by blast+

lemma hp_from_to_bytes: "kem_ok M \<Longrightarrow> hp_from_bytes M (hp_to_bytes M pk) = Some pk"
  by (simp add: hp_from_bytes_def hp_to_bytes_def kem_lens kem_okD)

text \<open>The two halves of one identity.\<close>

definition hybrid_pair ::
  "('x, 'p, 'd, 'k, 'g, 'z) kem_scheme \<Rightarrow> ('p, 'k) hybrid_public \<Rightarrow> ('x, 'd) hybrid_secret \<Rightarrow> bool" where
  "hybrid_pair M pk sk \<longleftrightarrow> hp_x pk = x_public M (hs_x sk) \<and> hp_ml pk = dk_ek M (hs_ml sk)"

lemma hybrid_keypair_pair:
  assumes M: "kem_ok M" and gen: "hybrid_keypair_unchecked M fuente r = (Inr (pk, sk), r')"
  shows "hybrid_pair M pk sk" "\<exists>b. hs_to_bytes M sk = Some b \<and> length b = 96 \<and> hs_from_bytes M b = Some sk"
proof -
  obtain g x g1 d k g2 where x: "x_random M g = (x, g1)" and d: "ml_generate M g1 = ((d, k), g2)"
      and eq: "pk = \<lparr>hp_x = x_public M x, hp_ml = k\<rparr>" "sk = \<lparr>hs_x = x, hs_ml = d\<rparr>"
    using gen by (auto simp: hybrid_keypair_unchecked_def split: prod.splits sum.splits)
  obtain s where k: "k = dk_ek M d" and s: "length s = 64" "dk_to_bytes M d = Some s" "dk_new M s = d"
    using kem_okD(9) [OF M d] by blast
  show "hybrid_pair M pk sk" by (simp add: hybrid_pair_def eq k)
  show "\<exists>b. hs_to_bytes M sk = Some b \<and> length b = 96 \<and> hs_from_bytes M b = Some sk"
    using s by (simp add: eq hs_to_bytes_def hs_from_bytes_def kem_lens kem_okD [OF M])
qed

text \<open>What a key written in the old format reads as does the same.\<close>

lemma hs_from_expanded:
  assumes M: "kem_ok M"
  obtains sk' where "hs_from_bytes M (x_to_bytes M (hs_x sk) @ dk_to_expanded M (hs_ml sk)) = Some sk'"
    "\<And>enc. secretos_de M sk' enc = secretos_de M sk enc"
proof -
  obtain d' where d: "dk_from_expanded M (dk_to_expanded M (hs_ml sk)) = Some d'"
      "dk_ek M d' = dk_ek M (hs_ml sk)" "ml_decapsulate M d' = ml_decapsulate M (hs_ml sk)"
    using kem_okD(11) [OF M] by blast
  have "hs_from_bytes M (x_to_bytes M (hs_x sk) @ dk_to_expanded M (hs_ml sk)) = Some \<lparr>hs_x = hs_x sk, hs_ml = d'\<rparr>"
    by (simp add: hs_from_bytes_def kem_lens kem_okD [OF M] d(1))
  moreover have "secretos_de M \<lparr>hs_x = hs_x sk, hs_ml = d'\<rparr> enc = secretos_de M sk enc" for enc
    by (simp add: secretos_de_def d)
  ultimately show ?thesis by (rule that)
qed

section \<open>Encapsulation and decapsulation agree\<close>

lemma hybrid_combine_total: "cripto_ok C \<Longrightarrow> \<exists>k. hybrid_combine C x m t = Some k \<and> length k = 32"
  by (simp add: hybrid_combine_def kem_lens cripto_ok_def hkdf_ok_def)

lemma generador_Inr:
  "generador M fuente r = (Inr g, r') \<longleftrightarrow> (\<exists>s. llenar fuente 32 r = (Inr s, r') \<and> g = chacha_from_seed M s)"
  by (auto simp: generador_def split: prod.splits sum.splits)

lemma encapsulate_Inr:
  assumes M: "kem_ok M" and p: "hybrid_pair M pk sk"
    and enc: "encapsulate C M fuente pk r = Some (Inr (key, encap), r')"
  shows "length encap = ENCAPSULATION_LEN" "decapsulate C M sk encap = Some (Some key)"
proof -
  obtain g where g: "generador M fuente r = (Inr g, r')"
    using enc by (auto simp: encapsulate_def Let_def split: prod.splits sum.splits bind_splits)
  obtain eph g1 where e: "x_random M g = (eph, g1)" by force
  obtain ct ss g2 where c: "ml_encapsulate M (hp_ml pk) g1 = ((ct, ss), g2)" by (metis surj_pair)
  let ?t = "build_transcript (xp_as_bytes M (hp_x pk)) (ek_to_bytes M (hp_ml pk)) (xp_as_bytes M (x_public M eph) @ ct)"
  have k: "hybrid_combine C (diffie_hellman M eph (hp_x pk)) ss ?t = Some key"
      and encap: "encap = xp_as_bytes M (x_public M eph) @ ct"
    using enc g e c by (auto simp: encapsulate_def Let_def split: bind_splits)
  have ct: "length ct = 1568" "ml_decapsulate M (hs_ml sk) ct = ss"
    using kem_okD(12) [OF M, where d = "hs_ml sk"] c p by (simp_all add: hybrid_pair_def)
  show len: "length encap = ENCAPSULATION_LEN" by (simp add: encap ct kem_okD [OF M] kem_lens)
  have "secretos_de M sk encap = (diffie_hellman M eph (hp_x pk), ss, ?t)"
    using p kem_okD(5) [OF M, where a = "hs_x sk" and b = eph] ct
    by (simp add: secretos_de_def encap kem_okD(1,2) [OF M] hybrid_pair_def)
  with k len show "decapsulate C M sk encap = Some (Some key)" by (simp add: decapsulate_def)
qed

lemma encapsulate_total:
  assumes "cripto_ok C" and "llenar fuente 32 r = (Inr s, r')"
  shows "\<exists>key encap. encapsulate C M fuente pk r = Some (Inr (key, encap), r')"
proof -
  have g: "generador M fuente r = (Inr (chacha_from_seed M s), r')" using assms(2) by (simp add: generador_def)
  obtain eph g1 where e: "x_random M (chacha_from_seed M s) = (eph, g1)" by force
  obtain ct ss g2 where c: "ml_encapsulate M (hp_ml pk) g1 = ((ct, ss), g2)" by (metis surj_pair)
  obtain k where "hybrid_combine C (diffie_hellman M eph (hp_x pk)) ss
      (build_transcript (xp_as_bytes M (hp_x pk)) (ek_to_bytes M (hp_ml pk)) (xp_as_bytes M (x_public M eph) @ ct)) = Some k"
    using hybrid_combine_total [OF assms(1)] by blast
  then show ?thesis by (simp add: encapsulate_def g e c)
qed

text \<open>One query to HKDF has one recipient, one encapsulation and one pair of shared secrets.\<close>

lemma secretos_inj:
  assumes M: "kem_ok M" and len: "length enc = ENCAPSULATION_LEN" "length enc' = ENCAPSULATION_LEN"
    and s: "secretos_de M sk enc = (x, m, t)" "secretos_de M sk' enc' = (x', m', t')"
    and eq: "x @ m = x' @ m'" "HKDF_INFO @ t = HKDF_INFO @ t'"
  shows "enc = enc' \<and> x = x' \<and> m = m' \<and> x_public M (hs_x sk) = x_public M (hs_x sk') \<and>
    dk_ek M (hs_ml sk) = dk_ek M (hs_ml sk')"
proof -
  have "length x = length x'" using s by (auto simp: secretos_de_def kem_okD [OF M])
  with eq(1) have xm: "x = x'" "m = m'" by simp_all
  have "xp_as_bytes M (x_public M (hs_x sk)) @ ek_to_bytes M (dk_ek M (hs_ml sk)) @ enc =
      xp_as_bytes M (x_public M (hs_x sk')) @ ek_to_bytes M (dk_ek M (hs_ml sk')) @ enc'"
    using s eq(2) by (auto simp: secretos_de_def build_transcript_def)
  then have "xp_as_bytes M (x_public M (hs_x sk)) = xp_as_bytes M (x_public M (hs_x sk'))"
      "ek_to_bytes M (dk_ek M (hs_ml sk)) = ek_to_bytes M (dk_ek M (hs_ml sk'))" "enc = enc'"
    by (simp_all add: kem_okD(1,7) [OF M])
  moreover from this have "x_public M (hs_x sk) = x_public M (hs_x sk')"
    using kem_okD(2) [OF M] by metis
  moreover have "dk_ek M (hs_ml sk) = dk_ek M (hs_ml sk')"
    using kem_okD(8) [OF M] \<open>ek_to_bytes M (dk_ek M (hs_ml sk)) = _\<close> by (metis option.inject)
  ultimately show ?thesis using xm by simp
qed

section \<open>The container\<close>

lemma hybrid_magic [simp]: "length HYBRID_MAGIC = 4"
  by (simp add: HYBRID_MAGIC_def ascii_def)

lemma hybrid_parts:
  assumes "length nonce = 24" and "length enc = 1600"
  shows "length (hybrid_header flags nonce enc) = 1630"
    "take 4 (hybrid_header flags nonce enc) = HYBRID_MAGIC"
    "(hybrid_header flags nonce enc @ ct) ! 4 = HYBRID_VERSION"
    "slice 6 30 (hybrid_header flags nonce enc @ ct) = nonce"
    "slice 30 1630 (hybrid_header flags nonce enc @ ct) = enc"
    "take 1630 (hybrid_header flags nonce enc @ ct) = hybrid_header flags nonce enc"
    "drop 1630 (hybrid_header flags nonce enc @ ct) = ct"
  using assms by (simp_all add: hybrid_header_def nth_append slice_def)

lemma decode_recipient_blob:
  assumes b: "leer_simbolos dict s = Inr (hybrid_header flags nonce enc @ ct)"
    and len: "length nonce = 24" "length enc = 1600"
    and k: "decapsulate C M sk enc = Some (Some key)"
    and c: "cipher_decrypt C key nonce ct (hybrid_header flags nonce enc) = Inr padded"
    and u: "prelayers_unpad padded = Inr data"
  shows "decode_as_recipient C M s sk dict = Some (Inr data)"
  by (simp add: decode_as_recipient_def b HYBRID_PREFIX_def NONCE_LEN_def kem_lens k c u
      hybrid_parts [OF len] Let_def)

lemma decode_recipient_Inr:
  assumes "decode_as_recipient C M s sk dict = Some (Inr data)"
  obtains flags nonce enc ct key padded where
    "leer_simbolos dict s = Inr (hybrid_header flags nonce enc @ ct)"
    "length nonce = 24" "length enc = 1600" "decapsulate C M sk enc = Some (Some key)"
    "cipher_decrypt C key nonce ct (hybrid_header flags nonce enc) = Inr padded"
    "prelayers_unpad padded = Inr data"
proof -
  obtain b where b: "leer_simbolos dict s = Inr b" and len: "1630 \<le> length b" and magic: "slice 0 4 b = HYBRID_MAGIC"
      and v: "b ! 4 = HYBRID_VERSION"
    using assms by (auto simp: decode_as_recipient_def HYBRID_PREFIX_def NONCE_LEN_def kem_lens Let_def
        split: sum.splits if_splits)
  obtain key padded where k: "decapsulate C M sk (slice 30 1630 b) = Some (Some key)"
      and c: "cipher_decrypt C key (slice 6 30 b) (drop 1630 b) (slice 0 1630 b) = Inr padded"
      and u: "prelayers_unpad padded = Inr data"
    using assms b len magic v
    by (auto simp: decode_as_recipient_def HYBRID_PREFIX_def NONCE_LEN_def kem_lens Let_def
        split: sum.splits option.splits)
  have p: "slice 4 5 b = [HYBRID_VERSION]" "slice 5 6 b = [b ! 5]"
    using slice_single [of 4 b] slice_single [of 5 b] len v by simp_all
  have joins: "slice 0 4 b @ slice 4 5 b @ slice 5 6 b @ slice 6 30 b @ slice 30 1630 b = slice 0 1630 b"
    by (simp add: slice_join del: slice_zero)
  then have h: "hybrid_header (b ! 5) (slice 6 30 b) (slice 30 1630 b) = slice 0 1630 b"
    by (simp only: hybrid_header_def p magic)
  have "b = slice 0 1630 b @ drop 1630 b" using slice_take_drop [of 0 1630 b] by simp
  then have "leer_simbolos dict s = Inr (hybrid_header (b ! 5) (slice 6 30 b) (slice 30 1630 b) @ drop 1630 b)"
    unfolding h using b by simp
  moreover have "length (slice 6 30 b) = 24" "length (slice 30 1630 b) = 1600" using len by simp_all
  ultimately show ?thesis using that k c [folded h] u by blast
qed

section \<open>Properties\<close>

text \<open>
  Encrypting to a recipient and decrypting as it: whenever the system gives the two draws of
  randomness, the artefact to the public key of a generated pair is written without panic and the
  secret key gives the data back.
\<close>
lemma recipient_roundtrip:
  assumes "cripto_ok C" and "kem_ok M" and "fuente_ok fuente" and "dictionary_wf dict"
    and "length data < 2 ^ 37"
    and "hybrid_keypair informe M fuente r0 = Some (Inr (pk, sk), r)"
    and "llenar fuente 32 r = (Inr semilla, r1)" and "llenar fuente 24 r1 = (Inr nonce, r2)"
  shows "\<exists>s. encode_to_recipient C M fuente data pk dict r = Some (Inr s, r2) \<and>
    decode_as_recipient C M s sk dict = Some (Inr data)"
proof -
  have pair: "hybrid_pair M pk sk"
    using assms(6) by (intro hybrid_keypair_pair [OF assms(2)]) (auto simp: hybrid_keypair_def split: bind_splits)
  obtain key enc where e: "encapsulate C M fuente pk r = Some (Inr (key, enc), r1)"
    using encapsulate_total [OF assms(1,7)] by blast
  note enc = encapsulate_Inr [OF assms(2) pair e]
  obtain padded where p: "prelayers_pad data = Some padded"
    using assms(5) by (simp add: prelayers_pad_def pad_eq)
  obtain ct where ct: "cipher_encrypt C key nonce padded (hybrid_header 0 nonce enc) = Some ct"
    using cipher_encrypt_total [OF assms(1) padded_small [OF p assms(5)]] by blast
  obtain s where s: "representar dict (hybrid_header 0 nonce enc @ ct) = Some s"
      "leer_simbolos dict s = Inr (hybrid_header 0 nonce enc @ ct)"
    using representar_total [OF assms(4)] by blast
  have "encode_to_recipient C M fuente data pk dict r = Some (Inr s, r2)"
    by (simp add: encode_to_recipient_def e assms(8) NONCE_LEN_def p ct s)
  moreover have "prelayers_unpad padded = Inr data"
    using prelayers.dec_enc [of data] assms(5) p by simp
  then have "decode_as_recipient C M s sk dict = Some (Inr data)"
    using ct llenar_length [OF assms(3,8)] enc
    by (intro decode_recipient_blob [OF s(2)]) (simp_all add: cipher_decrypt_iff [OF assms(1)] kem_lens)
  ultimately show ?thesis by blast
qed

text \<open>
  C24. What the recipient accepts is authentic to the last bit of the header: the ciphertext is the
  encryption, under the content key of that very encapsulation and with the whole header, flags and
  encapsulation included, as associated data, of a frame that holds the data.  And the content key
  is bound to who it was made for: a query to HKDF made for another encapsulation, or by another
  recipient, or from other shared secrets, is another query.
\<close>
theorem recipient_accepts_only_authentic:
  assumes "cripto_ok C" and "kem_ok M" and "decode_as_recipient C M s sk dict = Some (Inr data)"
  shows "\<exists>flags nonce enc ct key padded x m t.
    leer_simbolos dict s = Inr (hybrid_header flags nonce enc @ ct) \<and>
    secretos_de M sk enc = (x, m, t) \<and> hkdf_sha256 C (x @ m) (HKDF_INFO @ t) 32 = Some key \<and>
    cipher_encrypt C key nonce padded (hybrid_header flags nonce enc) = Some ct \<and>
    prelayers_unpad padded = Inr data \<and>
    (\<forall>sk' enc' x' m' t'. length enc' = 1600 \<and> secretos_de M sk' enc' = (x', m', t') \<and>
       x' @ m' = x @ m \<and> HKDF_INFO @ t' = HKDF_INFO @ t \<longrightarrow>
       enc' = enc \<and> x' = x \<and> m' = m \<and> x_public M (hs_x sk') = x_public M (hs_x sk) \<and>
       dk_ek M (hs_ml sk') = dk_ek M (hs_ml sk))"
proof -
  obtain flags nonce enc ct key padded where b: "leer_simbolos dict s = Inr (hybrid_header flags nonce enc @ ct)"
      and len: "length enc = 1600" and k: "decapsulate C M sk enc = Some (Some key)"
      and c: "cipher_decrypt C key nonce ct (hybrid_header flags nonce enc) = Inr padded"
      and u: "prelayers_unpad padded = Inr data"
    using decode_recipient_Inr [OF assms(3)] by metis
  obtain x m t where s: "secretos_de M sk enc = (x, m, t)" by (metis surj_pair)
  have h: "hkdf_sha256 C (x @ m) (HKDF_INFO @ t) 32 = Some key"
    using k len by (simp add: decapsulate_def s hybrid_combine_def kem_lens)
  have "cipher_encrypt C key nonce padded (hybrid_header flags nonce enc) = Some ct"
    using c by (simp add: cipher_decrypt_iff [OF assms(1)])
  moreover have "enc' = enc \<and> x' = x \<and> m' = m \<and> x_public M (hs_x sk') = x_public M (hs_x sk) \<and>
      dk_ek M (hs_ml sk') = dk_ek M (hs_ml sk)"
    if "length enc' = 1600 \<and> secretos_de M sk' enc' = (x', m', t') \<and> x' @ m' = x @ m \<and>
      HKDF_INFO @ t' = HKDF_INFO @ t" for sk' enc' x' m' t'
    using that len by (intro secretos_inj [OF assms(2) _ _ _ s]) (simp_all add: kem_lens)
  ultimately show ?thesis using b s h u by blast
qed

text \<open>
  No key is lost.  The secret key of a generated pair is written in 96 bytes and read back as
  itself, and the 3200 bytes an older version wrote for it read as a key that decodes every text in
  the same way.
\<close>
lemma both_secret_formats_open:
  assumes "kem_ok M" and "hybrid_keypair informe M fuente r = Some (Inr (pk, sk), r')"
  shows "\<exists>b sk'. hs_to_bytes M sk = Some b \<and> length b = 96 \<and> hs_from_bytes M b = Some sk \<and>
    hs_from_bytes M (x_to_bytes M (hs_x sk) @ dk_to_expanded M (hs_ml sk)) = Some sk' \<and>
    (\<forall>s. decode_as_recipient C M s sk' dict = decode_as_recipient C M s sk dict)"
proof -
  have u: "hybrid_keypair_unchecked M fuente r = (Inr (pk, sk), r')"
    using assms(2) by (auto simp: hybrid_keypair_def split: bind_splits)
  obtain sk' where sk': "hs_from_bytes M (x_to_bytes M (hs_x sk) @ dk_to_expanded M (hs_ml sk)) = Some sk'"
      "\<And>enc. secretos_de M sk' enc = secretos_de M sk enc"
    using hs_from_expanded [OF assms(1)] by blast
  have d: "decapsulate C M sk' enc = decapsulate C M sk enc" for enc by (simp add: decapsulate_def sk'(2))
  have "decode_as_recipient C M s sk' dict = decode_as_recipient C M s sk dict" for s
    by (simp only: decode_as_recipient_def d)
  with sk'(1) hybrid_keypair_pair(2) [OF assms(1) u] show ?thesis by blast
qed

section \<open>A concrete KEM\<close>

text \<open>
  Diffie-Hellman in the exponents of the natural numbers modulo a power of two, and an ML-KEM that
  sends the shared secret in the clear: laws without security.  A decapsulation key is its seed.
\<close>

definition demo_kem :: "(256 word, 256 word, 512 word, 512 word, nat) kem" where
  "demo_kem =
     \<lparr>chacha_from_seed = \<lambda>s. nat_of_be s,
      x_random = \<lambda>g. (of_nat g, Suc g),
      x_from = \<lambda>b. of_nat (nat_of_be b),
      x_to_bytes = \<lambda>x. be_bytes 32 (unat x),
      x_public = \<lambda>x. 9 * x,
      xp_from = \<lambda>b. of_nat (nat_of_be b),
      xp_as_bytes = \<lambda>p. be_bytes 32 (unat p),
      diffie_hellman = \<lambda>x p. be_bytes 32 (unat (x * p)),
      ml_generate = \<lambda>g. ((of_nat g, of_nat g), Suc g),
      ek_to_bytes = \<lambda>k. be_bytes 1568 (unat k),
      ek_new = \<lambda>b. Some (of_nat (nat_of_be b)),
      dk_to_bytes = \<lambda>d. Some (be_bytes 64 (unat d)),
      dk_new = \<lambda>b. of_nat (nat_of_be b),
      dk_to_expanded = \<lambda>d. be_bytes 3168 (unat d),
      dk_from_expanded = \<lambda>b. Some (of_nat (nat_of_be b)),
      dk_ek = \<lambda>d. d,
      ml_encapsulate = \<lambda>k g. ((replicate 1536 0 @ be_bytes 32 g, be_bytes 32 g), Suc g),
      ml_decapsulate = \<lambda>d ct. resize 32 0 (drop 1536 ct)\<rparr>"

lemma demo_kem_ok: "kem_ok demo_kem"
  unfolding kem_ok_def
proof (intro conjI allI impI)
  fix d :: "512 word" and g ct ss g'
  assume "ml_encapsulate demo_kem (dk_ek demo_kem d) g = ((ct, ss), g')"
  then show "length ct = 1568" "ml_decapsulate demo_kem d ct = ss"
    by (auto simp: demo_kem_def resize_def)
qed (auto simp: demo_kem_def be_bytes_word mult_ac)

text \<open>The counter as the source: a pair from the first 32 bytes, an artefact from the 56 after them.\<close>

lemma demo_pair:
  obtains pk sk where "hybrid_keypair demo_informe demo_kem demo_fuente 0 = Some (Inr (pk, sk), 32)"
proof -
  have e: "ensure demo_informe None = Some (Some demo_informe)"
    using demo_informe_ok by (simp add: ensure_iff get_or_init_def)
  show ?thesis
    by (rule that, simp add: hybrid_keypair_def e hybrid_keypair_unchecked_def generador_def demo_fill
        split_def Let_def del: upt_rec_numeral)
qed

lemma recipient_roundtrip_example:
  "\<exists>pk sk s. hybrid_keypair demo_informe demo_kem demo_fuente 0 = Some (Inr (pk, sk), 32) \<and>
    encode_to_recipient demo_cripto demo_kem demo_fuente [1, 2, 3] pk (projr flagship) 32 = Some (Inr s, 88) \<and>
    decode_as_recipient demo_cripto demo_kem s sk (projr flagship) = Some (Inr [1, 2, 3])"
proof -
  obtain pk sk where p: "hybrid_keypair demo_informe demo_kem demo_fuente 0 = Some (Inr (pk, sk), 32)"
    by (rule demo_pair)
  have "llenar demo_fuente 32 32 = (Inr (map of_nat [32..<64]), 64)"
      "llenar demo_fuente 24 64 = (Inr (map of_nat [64..<88]), 88)"
    using demo_fill [of 32 32] demo_fill [of 24 64] by (simp_all del: upt_rec_numeral)
  from recipient_roundtrip [OF demo_cripto_ok demo_kem_ok demo_fuente_ok flagship_wf _ p this, of "[1, 2, 3]"] p
  show ?thesis by auto
qed

lemma demo_recipient:
  "\<exists>sk s. decode_as_recipient demo_cripto demo_kem s sk (projr flagship) = Some (Inr [1, 2, 3])"
proof -
  let ?nonce = "replicate 24 (0 :: u8)" and ?enc = "replicate 1600 (0 :: u8)"
  let ?sk = "\<lparr>hs_x = 0, hs_ml = 0\<rparr> :: (256 word, 512 word) hybrid_secret"
  obtain x m t where "secretos_de demo_kem ?sk ?enc = (x, m, t)" by (metis surj_pair)
  moreover obtain key where "hybrid_combine demo_cripto x m t = Some key"
    using hybrid_combine_total [OF demo_cripto_ok] by blast
  ultimately have k: "decapsulate demo_cripto demo_kem ?sk ?enc = Some (Some key)"
    by (simp add: decapsulate_def kem_lens)
  obtain padded where p: "prelayers_pad [1, 2, 3 :: u8] = Some padded"
    by (simp add: prelayers_pad_def pad_eq)
  obtain ct where ct: "cipher_encrypt demo_cripto key ?nonce padded (hybrid_header 0 ?nonce ?enc) = Some ct"
    using cipher_encrypt_total [OF demo_cripto_ok padded_small [OF p]] by fastforce
  obtain s where s: "leer_simbolos (projr flagship) s = Inr (hybrid_header 0 ?nonce ?enc @ ct)"
    using representar_total [OF flagship_wf] by blast
  have "prelayers_unpad padded = Inr [1, 2, 3]"
    using prelayers.dec_enc [of "[1, 2, 3]"] p by simp
  with ct have "decode_as_recipient demo_cripto demo_kem s ?sk (projr flagship) = Some (Inr [1, 2, 3])"
    by (intro decode_recipient_blob [OF s _ _ k]) (simp_all add: cipher_decrypt_iff [OF demo_cripto_ok])
  then show ?thesis by blast
qed

theorem recipient_accepts_only_authentic_witness:
  "\<exists>sk s flags nonce enc ct key padded.
    leer_simbolos (projr flagship) s = Inr (hybrid_header flags nonce enc @ ct) \<and>
    cipher_encrypt demo_cripto key nonce padded (hybrid_header flags nonce enc) = Some ct \<and>
    prelayers_unpad padded = Inr [1, 2, 3] \<and>
    decode_as_recipient demo_cripto demo_kem s sk (projr flagship) = Some (Inr [1, 2, 3])"
proof -
  obtain sk s where d: "decode_as_recipient demo_cripto demo_kem s sk (projr flagship) = Some (Inr [1, 2, 3])"
    using demo_recipient by blast
  from recipient_accepts_only_authentic [OF demo_cripto_ok demo_kem_ok d] d show ?thesis by metis
qed

lemma both_secret_formats_open_example:
  "\<exists>sk b. hs_to_bytes demo_kem sk = Some b \<and> length b = 96 \<and> hs_from_bytes demo_kem b = Some sk"
proof -
  obtain pk sk where p: "hybrid_keypair demo_informe demo_kem demo_fuente 0 = Some (Inr (pk, sk), 32)"
    by (rule demo_pair)
  from both_secret_formats_open [OF demo_kem_ok p, of demo_cripto "projr flagship"] show ?thesis by blast
qed

end
