(* ===== verification/Online.thy ===== *)
theory Online
  imports Api Voprf
begin

text \<open>
  The online mode of \<^verbatim>\<open>src/src/api.rs\<close> and its carrier \<^verbatim>\<open>src/src/oprf_net.rs\<close>: the passphrase is
  hardened by a VOPRF server whose proof is checked against a pinned public key, and the result goes
  into the pepper of the passphrase mode.  A network is a function from what was sent to what came
  back before the connection ended, over its own state \<open>'h\<close>; a connection, on the server's side, is
  what arrives, what was written and how much may still be written.  The outer option is a panic.
\<close>

section \<open>The carrier\<close>

datatype red_error = UnexpectedEof | WriteZero | Conexion int

type_synonym 'h red = "bytes \<Rightarrow> bytes \<Rightarrow> 'h \<Rightarrow> (red_error + bytes) \<times> 'h"

definition VERIFIED_RESP_LEN :: nat where
  "VERIFIED_RESP_LEN = 1 + 32 + PROOF_LEN"

definition evaluate_remote_verified ::
  "'h red \<Rightarrow> bytes \<Rightarrow> bytes \<Rightarrow> 'h \<Rightarrow> (red_error + (bytes \<times> bytes) option) \<times> 'h" where
  "evaluate_remote_verified red addr blinded h =
     (case red addr blinded h of
        (Inl e, h) \<Rightarrow> (Inl e, h)
      | (Inr flujo, h) \<Rightarrow>
          if length flujo < VERIFIED_RESP_LEN then (Inl UnexpectedEof, h)
          else
            let resp = take VERIFIED_RESP_LEN flujo
            in if resp ! 0 \<noteq> 1 then (Inr None, h)
               else (Inr (Some (slice 1 33 resp, drop 33 resp)), h))"

record conexion =
  cx_entrada :: bytes
  cx_salida :: bytes
  cx_cabe :: nat

definition read_exact :: "nat \<Rightarrow> conexion \<Rightarrow> (red_error + bytes) \<times> conexion" where
  "read_exact n cx =
     (if length (cx_entrada cx) < n then (Inl UnexpectedEof, cx\<lparr>cx_entrada := []\<rparr>)
      else (Inr (take n (cx_entrada cx)), cx\<lparr>cx_entrada := drop n (cx_entrada cx)\<rparr>))"

definition write_all :: "bytes \<Rightarrow> conexion \<Rightarrow> (red_error + unit) \<times> conexion" where
  "write_all b cx =
     (if length b \<le> cx_cabe cx then
        (Inr (), cx\<lparr>cx_salida := cx_salida cx @ b, cx_cabe := cx_cabe cx - length b\<rparr>)
      else (Inl WriteZero, cx\<lparr>cx_salida := cx_salida cx @ take (cx_cabe cx) b, cx_cabe := 0\<rparr>))"

text \<open>Consecutive writes with \<open>?\<close> after each.\<close>

fun escribir_todo :: "bytes list \<Rightarrow> conexion \<Rightarrow> (red_error + unit) \<times> conexion" where
  "escribir_todo [] cx = (Inr (), cx)"
| "escribir_todo (b # bs) cx =
     (case write_all b cx of (Inl e, cx) \<Rightarrow> (Inl e, cx) | (Inr _, cx) \<Rightarrow> escribir_todo bs cx)"

definition handle_connection_verified ::
  "('s :: field, 'p :: ab_group_add) ristretto \<Rightarrow> 'r fuente \<Rightarrow> 's voprf_server \<Rightarrow> bool \<Rightarrow> conexion \<Rightarrow> 'r \<Rightarrow>
    ((red_error + unit) \<times> conexion \<times> 'r) option" where
  "handle_connection_verified G fuente S allowed cx r =
     (case read_exact 32 cx of
        (Inl e, cx) \<Rightarrow> Some (Inl e, cx, r)
      | (Inr blinded, cx) \<Rightarrow>
          do {
            (res, r) \<leftarrow> (if allowed then blind_evaluate G fuente S blinded r else Some (None, r));
            let (w, cx) =
              (case res of
                 Some (z, pf) \<Rightarrow> escribir_todo [[1], z, pf] cx
               | None \<Rightarrow> escribir_todo [[0], replicate 32 0, replicate PROOF_LEN 0] cx);
            Some (w, cx, r)
          })"

section \<open>The online mode\<close>

datatype online_error =
    Network
  | Denied
  | Verification
  | Decode decode_error

definition api_harden ::
  "('s :: field, 'p :: ab_group_add) ristretto \<Rightarrow> 'r fuente \<Rightarrow> 'h red \<Rightarrow> char32 list \<Rightarrow> bytes \<Rightarrow> bytes \<Rightarrow>
    'r \<Rightarrow> 'h \<Rightarrow> ((online_error + bytes) \<times> 'r \<times> 'h) option" where
  "api_harden G fuente red passphrase server_addr server_pub r h =
     (case blind G fuente (utf8 passphrase) r of
        None \<Rightarrow> None
      | Some (None, r) \<Rightarrow> Some (Inl Verification, r, h)
      | Some (Some (state, blinded), r) \<Rightarrow>
          (case evaluate_remote_verified red server_addr blinded h of
             (Inl _, h) \<Rightarrow> Some (Inl Network, r, h)
           | (Inr None, h) \<Rightarrow> Some (Inl Denied, r, h)
           | (Inr (Some (z, pf)), h) \<Rightarrow>
               (case finalize G (utf8 passphrase) state z pf server_pub of
                  None \<Rightarrow> None
                | Some None \<Rightarrow> Some (Inl Verification, r, h)
                | Some (Some hardened) \<Rightarrow> Some (Inr hardened, r, h))))"

definition encode_online ::
  "('s :: field, 'p :: ab_group_add) ristretto \<Rightarrow> 'c cripto_scheme \<Rightarrow> 'r fuente \<Rightarrow> 'h red \<Rightarrow> report \<Rightarrow>
    bytes \<Rightarrow> char32 list \<Rightarrow> bytes \<Rightarrow> bytes \<Rightarrow> dictionary \<Rightarrow> options \<Rightarrow> 'r \<Rightarrow> 'h \<Rightarrow>
    ((online_error + char32 list) \<times> 'r \<times> 'h) option" where
  "encode_online G C fuente red informe data passphrase server_addr server_pub dict opts r h =
     (case api_harden G fuente red passphrase server_addr server_pub r h of
        None \<Rightarrow> None
      | Some (Inl e, r, h) \<Rightarrow> Some (Inl e, r, h)
      | Some (Inr hardened, r, h) \<Rightarrow>
          let opts2 = \<lparr>opt_pepper = opt_pepper opts @ hardened, opt_kdf_params = opt_kdf_params opts,
                       opt_codebook_id = 0\<rparr>
          in do {
               (symbols, r) \<leftarrow> encode informe C fuente data passphrase dict opts2 r;
               Some (Inr symbols, r, h)
             })"

definition decode_online ::
  "('s :: field, 'p :: ab_group_add) ristretto \<Rightarrow> 'c cripto_scheme \<Rightarrow> 'r fuente \<Rightarrow> 'h red \<Rightarrow> report \<Rightarrow>
    char32 list \<Rightarrow> char32 list \<Rightarrow> bytes \<Rightarrow> bytes \<Rightarrow> dictionary \<Rightarrow> bytes \<Rightarrow> 'r \<Rightarrow> 'h \<Rightarrow>
    ((online_error + bytes) \<times> 'r \<times> 'h) option" where
  "decode_online G C fuente red informe symbols passphrase server_addr server_pub dict base_pepper r h =
     (case api_harden G fuente red passphrase server_addr server_pub r h of
        None \<Rightarrow> None
      | Some (Inl e, r, h) \<Rightarrow> Some (Inl e, r, h)
      | Some (Inr hardened, r, h) \<Rightarrow>
          do {
            res \<leftarrow> decode informe C symbols passphrase dict (base_pepper @ hardened);
            Some (map_sum Decode id res, r, h)
          })"

section \<open>An honest server at the other end\<close>

text \<open>
  The network that reaches \<open>handle_connection_verified\<close>: the state is the server's randomness,
  \<open>permitido\<close> its policy, and a panic of the server breaks the connection.
\<close>

definition red_honesta ::
  "('s :: field, 'p :: ab_group_add) ristretto \<Rightarrow> 'h fuente \<Rightarrow> 's voprf_server \<Rightarrow> ('h \<Rightarrow> bool) \<Rightarrow> 'h red" where
  "red_honesta G fuente S permitido addr blinded h =
     (case handle_connection_verified G fuente S (permitido h)
             \<lparr>cx_entrada = blinded, cx_salida = [], cx_cabe = VERIFIED_RESP_LEN\<rparr> h of
        None \<Rightarrow> (Inl (Conexion 0), h)
      | Some (_, cx, h) \<Rightarrow> (Inr (cx_salida cx), h))"

lemma red_honesta_eq:
  assumes "ristretto_ok G" and "length blinded = 32"
  shows "red_honesta G fuente S permitido addr blinded h =
    (if permitido h then
       case blind_evaluate G fuente S blinded h of
         None \<Rightarrow> (Inl (Conexion 0), h)
       | Some (None, h) \<Rightarrow> (Inr (0 # replicate 96 0), h)
       | Some (Some (z, pf), h) \<Rightarrow> (Inr (1 # z @ pf), h)
     else (Inr (0 # replicate 96 0), h))"
  using assms(2)
  by (auto simp: red_honesta_def handle_connection_verified_def read_exact_def write_all_def
      VERIFIED_RESP_LEN_def PROOF_LEN_def replicate_add [symmetric]
      dest!: blind_evaluate_lengths [OF assms(1)] split: option.splits)

lemma evaluate_honesta:
  assumes G: "ristretto_ok G" and len: "length blinded = 32"
  shows "evaluate_remote_verified (red_honesta G fuente S permitido) addr blinded h =
    (if permitido h then
       case blind_evaluate G fuente S blinded h of
         None \<Rightarrow> (Inl (Conexion 0), h)
       | Some (res, h) \<Rightarrow> (Inr res, h)
     else (Inr None, h))"
proof -
  have r: "slice 1 33 (take 97 (1 # z @ pf)) = z \<and> drop 33 (take 97 (1 # z @ pf)) = pf \<and> \<not> length (1 # z @ pf) < 97"
    if "length z = 32 \<and> length pf = 64" for z pf :: bytes
    using that by (simp add: slice_def)
  show ?thesis
  proof (cases "\<exists>z pf h1. permitido h \<and> blind_evaluate G fuente S blinded h = Some (Some (z, pf), h1)")
    case True
    then obtain z pf h1 where e: "permitido h" "blind_evaluate G fuente S blinded h = Some (Some (z, pf), h1)"
      by blast
    have "red_honesta G fuente S permitido addr blinded h = (Inr (1 # z @ pf), h1)"
      using e by (simp add: red_honesta_eq [OF G len])
    then show ?thesis
      using r [OF blind_evaluate_lengths [OF G e(2)]] e
      by (simp add: evaluate_remote_verified_def VERIFIED_RESP_LEN_def PROOF_LEN_def)
  next
    case False
    then show ?thesis
      by (auto simp: evaluate_remote_verified_def red_honesta_eq [OF G len] VERIFIED_RESP_LEN_def PROOF_LEN_def
          split: option.splits)
  qed
qed

text \<open>What the client's blinding is made of.\<close>

lemma blind_Some:
  assumes "blind G fuente input r = Some (Some (st, b), r')"
  obtains P where "hash_to_group G input = Some P" "P \<noteq> 0" "st_blinded st = smul G (st_blind st) P"
    "b = compress G (smul G (st_blind st) P)"
  using assms by (auto simp: blind_def Let_def split: if_splits bind_splits)

lemma finalize_Some:
  assumes G: "ristretto_ok G" and f: "finalize G input st ev pf (public_key G S) = Some (Some x)"
  obtains z where "z \<noteq> 0"
    "verify_proof G (smul G (key S) (basepoint G)) (st_blinded st) z pf = Some True"
    "x = salida G input (smul G (inverse (st_blind st)) z)"
proof -
  have d: "decompress G (public_key G S) = Some (smul G (key S) (basepoint G))"
    by (simp add: public_key_def encoding_laws [OF G])
  obtain z where z: "decompress G ev = Some z" using f d by (auto simp: finalize_def split: option.splits)
  with f d that show ?thesis by (auto simp: finalize_def split: if_splits bind_splits)
qed

text \<open>With an honest server there are the PRF and three refusals; a wrong value is not among them.\<close>

lemma api_harden_honesta:
  assumes G: "ristretto_ok G" and k: "key S \<noteq> 0"
    and h: "api_harden G fuente (red_honesta G fuente' S permitido) pw addr (public_key G S) r h = Some (res, r', h')"
    and P: "hash_to_group G (utf8 pw) = Some P"
  shows "res = Inr (salida G (utf8 pw) (smul G (key S) P)) \<or> res = Inl Network \<or> res = Inl Denied \<or>
    (res = Inl Verification \<and> P = 0)"
proof (cases "\<exists>st b r1. blind G fuente (utf8 pw) r = Some (Some (st, b), r1)")
  case False
  with h have "blind G fuente (utf8 pw) r = Some (None, r')" "res = Inl Verification"
    by (auto simp: api_harden_def split: option.splits prod.splits)
  then show ?thesis using P by (auto simp: blind_def Let_def split: if_splits bind_splits)
next
  case True
  then obtain st b r1 where b: "blind G fuente (utf8 pw) r = Some (Some (st, b), r1)" by blast
  then have st: "P \<noteq> 0" "st_blinded st = smul G (st_blind st) P" "b = compress G (smul G (st_blind st) P)"
    using P by (auto elim!: blind_Some)
  have lb: "length b = 32" by (simp add: st encoding_laws [OF G])
  show ?thesis
  proof (cases "\<exists>z pf h1. permitido h \<and> blind_evaluate G fuente' S b h = Some (Some (z, pf), h1)")
    case False
    with h b show ?thesis
      by (auto simp: api_harden_def evaluate_honesta [OF G lb] split: option.splits if_splits prod.splits)
  next
    case True
    then obtain z pf h1 where e: "permitido h" "blind_evaluate G fuente' S b h = Some (Some (z, pf), h1)" by blast
    obtain t where t: "blind_evaluate_with_randomness G S b t = Some (Some (z, pf))"
      using blind_evaluate_Some [OF e(2)] .
    have a: "st_blind st \<noteq> 0"
      using e(2) by (auto simp: blind_evaluate_def st(3) encoding_laws [OF G] smul_zero [OF G])
    from finalize_evaluated [OF G st(1) a k refl st(2) t [unfolded st(3)]]
    have "finalize G (utf8 pw) st z pf (public_key G S) = Some (Some (salida G (utf8 pw) (smul G (key S) P)))" .
    with h b e show ?thesis by (simp add: api_harden_def evaluate_honesta [OF G lb])
  qed
qed

lemma api_harden_answers:
  assumes G: "ristretto_ok G" and k: "key S \<noteq> 0" and P: "hash_to_group G (utf8 pw) = Some P" "P \<noteq> 0"
    and a: "random_scalar G fuente r = Some (a, r1)" "a \<noteq> 0"
    and b: "random_scalar G fuente' h = Some (t, h1)" and perm: "permitido h"
  shows "api_harden G fuente (red_honesta G fuente' S permitido) pw addr (public_key G S) r h =
    Some (Inr (salida G (utf8 pw) (smul G (key S) P)), r1, h1)"
proof -
  let ?st = "\<lparr>st_blind = a, st_blinded = smul G a P\<rparr>" and ?b = "compress G (smul G a P)"
  have bl: "blind G fuente (utf8 pw) r = Some (Some (?st, ?b), r1)"
    using P a by (simp add: blind_def Let_def)
  have lb: "length ?b = 32" by (simp add: encoding_laws [OF G])
  obtain pf where pf: "generate_proof G S (smul G a P) (smul G (key S) (smul G a P)) t = Some pf"
    using proof_accepted [OF G] by blast
  then have e: "blind_evaluate G fuente' S ?b h = Some (Some (compress G (smul G (key S) (smul G a P)), pf), h1)"
    using b P(2) a(2) by (simp add: blind_evaluate_def encoding_laws [OF G] smul_eq_0_iff [OF G] Let_def)
  obtain s where s: "blind_evaluate_with_randomness G S ?b s = Some (Some (compress G (smul G (key S) (smul G a P)), pf))"
    using blind_evaluate_Some [OF e] .
  have "finalize G (utf8 pw) ?st (compress G (smul G (key S) (smul G a P))) pf (public_key G S)
      = Some (Some (salida G (utf8 pw) (smul G (key S) P)))"
    using finalize_evaluated [OF G P(2) a(2) k _ _ s, of ?st] by simp
  then show ?thesis using bl e perm by (simp add: api_harden_def evaluate_honesta [OF G lb])
qed

section \<open>Normalisation\<close>

text \<open>
  The offline mode takes two forms of a passphrase that normalise alike for one; the online mode
  also hashes the bytes as typed, so there they are two passphrases.
\<close>

lemma offline_normalises:
  "nfkc C pw = nfkc C pw' \<Longrightarrow> decode informe C s pw dict pepper = decode informe C s pw' dict pepper"
proof -
  assume n: "nfkc C pw = nfkc C pw'"
  have k: "derive_master_key C pw salt p params = derive_master_key C pw' salt p params" for salt p params
    by (simp only: derive_master_key_def normalizar_def n)
  show ?thesis by (simp only: decode_def decode_from_blob_def k)
qed

lemma online_hashes_the_bytes:
  assumes "length m < 65536" and "length m' < 65536" and "m \<noteq> m'"
  shows "i2osp2 (length m) @ m @ resto \<noteq> i2osp2 (length m') @ m' @ resto'"
proof
  assume e: "i2osp2 (length m) @ m @ resto = i2osp2 (length m') @ m' @ resto'"
  then have "u16_to_be (of_nat (length m)) = u16_to_be (of_nat (length m'))" by (simp add: i2osp2_def)
  then have "(of_nat (length m) :: u16) = of_nat (length m')" by (metis u16_from_to_be)
  then have "unat (of_nat (length m) :: u16) = unat (of_nat (length m') :: u16)" by simp
  then have "length m = length m'"
    using assms(1,2) by (simp add: unsigned_of_nat take_bit_nat_eq_self)
  with e assms(3) show False by (simp add: i2osp2_def)
qed

section \<open>Properties\<close>

lemma encode_online_Inr:
  assumes "encode_online G C fuente red informe data pw addr pub dict opts r h = Some (Inr s, r', h')"
  obtains x r1 where "api_harden G fuente red pw addr pub r h = Some (Inr x, r1, h')"
    "encode informe C fuente data pw dict
      \<lparr>opt_pepper = opt_pepper opts @ x, opt_kdf_params = opt_kdf_params opts, opt_codebook_id = 0\<rparr> r1
      = Some (s, r')"
  using assms by (auto simp: encode_online_def Let_def split: option.splits prod.splits sum.splits bind_splits)

text \<open>The pepper is fixed by the passphrase and the key, so decoding finds the data.\<close>

lemma decode_online_hardened:
  assumes C: "cripto_ok C" and f: "fuente_ok fuente" and d: "dictionary_wf dict"
    and len: "length data < 2 ^ 63"
    and enc: "encode informe C fuente data pw dict
      \<lparr>opt_pepper = opt_pepper opts @ x, opt_kdf_params = opt_kdf_params opts, opt_codebook_id = 0\<rparr> r
      = Some (s, r')"
    and h: "api_harden G fuente' red pw addr pub r1 h = Some (Inr x, r2, h')"
  shows "decode_online G C fuente' red informe s pw addr pub dict (opt_pepper opts) r1 h =
    Some (if is_sane (opt_kdf_params opts) then Inr data else Inl (Decode Decrypt), r2, h')"
  using decode_encode [OF C f d len enc] by (simp add: decode_online_def h)

text \<open>
  The online mode with an honest server: whatever the two sides drew in the two sessions, and
  whatever the server's policy answered, an artefact written online is read back online as the same
  data, unless the second session is refused or breaks; no wrong data and no failed proof.
\<close>
lemma online_roundtrip:
  assumes "cripto_ok C" and "ristretto_ok G" and "fuente_ok fuente" and "dictionary_wf dict"
    and "length data < 2 ^ 63" and "is_sane (opt_kdf_params opts)" and "key S \<noteq> 0"
    and "encode_online G C fuente (red_honesta G fuente' S permitido) informe data pw addr
      (public_key G S) dict opts r h = Some (Inr s, r1, h1)"
    and "decode_online G C fuente (red_honesta G fuente' S permitido') informe s pw addr
      (public_key G S) dict (opt_pepper opts) r2 h2 = Some (res, r3, h3)"
  shows "res = Inr data \<or> res = Inl Network \<or> res = Inl Denied"
proof -
  obtain x r4 where x: "api_harden G fuente (red_honesta G fuente' S permitido) pw addr (public_key G S) r h
        = Some (Inr x, r4, h1)"
      and enc: "encode informe C fuente data pw dict
        \<lparr>opt_pepper = opt_pepper opts @ x, opt_kdf_params = opt_kdf_params opts, opt_codebook_id = 0\<rparr> r4
        = Some (s, r1)"
    using encode_online_Inr [OF assms(8)] .
  obtain P where P: "hash_to_group G (utf8 pw) = Some P" by (metis hash_to_group_ok)
  have x': "x = salida G (utf8 pw) (smul G (key S) P)"
    using api_harden_honesta [OF assms(2,7) x P] by simp
  have P0: "P \<noteq> 0"
  proof
    assume "P = 0"
    then have "blind G fuente (utf8 pw) r = Some (None, r)" by (simp add: blind_def P)
    with x show False by (simp add: api_harden_def)
  qed
  obtain res' where h: "api_harden G fuente (red_honesta G fuente' S permitido') pw addr (public_key G S) r2 h2
      = Some (res', r3, h3)"
    using assms(9) by (auto simp: decode_online_def split: option.splits prod.splits sum.splits bind_splits)
  from api_harden_honesta [OF assms(2,7) h P] P0 consider "res' = Inr x" | "res' = Inl Network" | "res' = Inl Denied"
    using x' by blast
  then show ?thesis
  proof cases
    case 1
    from decode_online_hardened [OF assms(1,3-5) enc h [unfolded 1]] assms(6,9) show ?thesis by simp
  qed (use assms(9) h in \<open>simp_all add: decode_online_def\<close>)
qed

text \<open>
  C25. An honest server that allows the query always answers it: when both sides can draw and the
  client's blinding scalar is not zero, decoding an online artefact completes, and with the data if the
  KDF parameters it was encoded with are sane (\<open>decode\<close> refuses what \<open>encode\<close> wrote under others); there
  is no state of the server in which it hangs, refuses or panics.
\<close>
theorem online_decode_completes:
  assumes "cripto_ok C" and "ristretto_ok G" and "fuente_ok fuente" and "dictionary_wf dict"
    and "length data < 2 ^ 63" and "key S \<noteq> 0"
    and "encode_online G C fuente (red_honesta G fuente' S permitido) informe data pw addr
      (public_key G S) dict opts r h = Some (Inr s, r1, h1)"
    and "random_scalar G fuente r2 = Some (a, r3)" and "a \<noteq> 0"
    and "random_scalar G fuente' h2 = Some (t, h3)" and "permitido' h2"
  shows "decode_online G C fuente (red_honesta G fuente' S permitido') informe s pw addr
      (public_key G S) dict (opt_pepper opts) r2 h2 =
    Some (if is_sane (opt_kdf_params opts) then Inr data else Inl (Decode Decrypt), r3, h3)"
proof -
  obtain x r4 where x: "api_harden G fuente (red_honesta G fuente' S permitido) pw addr (public_key G S) r h
        = Some (Inr x, r4, h1)"
      and enc: "encode informe C fuente data pw dict
        \<lparr>opt_pepper = opt_pepper opts @ x, opt_kdf_params = opt_kdf_params opts, opt_codebook_id = 0\<rparr> r4
        = Some (s, r1)"
    using encode_online_Inr [OF assms(7)] .
  obtain P where P: "hash_to_group G (utf8 pw) = Some P" by (metis hash_to_group_ok)
  have P0: "P \<noteq> 0"
  proof
    assume "P = 0"
    then have "blind G fuente (utf8 pw) r = Some (None, r)" by (simp add: blind_def P)
    with x show False by (simp add: api_harden_def)
  qed
  have "x = salida G (utf8 pw) (smul G (key S) P)"
    using api_harden_honesta [OF assms(2,6) x P] by simp
  then have "api_harden G fuente (red_honesta G fuente' S permitido') pw addr (public_key G S) r2 h2
      = Some (Inr x, r3, h3)"
    using api_harden_answers [OF assms(2,6) P P0 assms(8-10), of permitido' addr] assms(11) by simp
  from decode_online_hardened [OF assms(1,3-5) enc this] show ?thesis .
qed

text \<open>
  C26. Whatever is at the other end of the network, a hardened secret that the client uses is the
  hash of the passphrase with \<open>k\<close> times its point, for the key \<open>k\<close> of the pinned public key, or
  somebody produced a proof that verifies for a false statement.
\<close>
theorem hardened_or_forged_proof:
  assumes "ristretto_ok G"
    and "api_harden G fuente red pw addr (public_key G S) r h = Some (Inr x, r', h')"
  shows "\<exists>P b z pf. hash_to_group G (utf8 pw) = Some P \<and>
    verify_proof G (smul G (key S) (basepoint G)) b z pf = Some True \<and>
    (x = salida G (utf8 pw) (smul G (key S) P) \<or> z \<noteq> smul G (key S) b)"
proof -
  obtain st b r1 where bl: "blind G fuente (utf8 pw) r = Some (Some (st, b), r1)"
    using assms(2) by (auto simp: api_harden_def split: option.splits prod.splits)
  obtain P where P: "hash_to_group G (utf8 pw) = Some P" "P \<noteq> 0" "st_blinded st = smul G (st_blind st) P"
    using blind_Some [OF bl] by metis
  obtain ev pf where f: "finalize G (utf8 pw) st ev pf (public_key G S) = Some (Some x)"
    using assms(2) bl by (auto simp: api_harden_def split: option.splits prod.splits sum.splits)
  then obtain z where z: "z \<noteq> 0" "verify_proof G (smul G (key S) (basepoint G)) (st_blinded st) z pf = Some True"
      "x = salida G (utf8 pw) (smul G (inverse (st_blind st)) z)"
    using finalize_Some [OF assms(1)] by metis
  show ?thesis
  proof (cases "z = smul G (key S) (st_blinded st)")
    case True
    with z(1) P(3) have "st_blind st \<noteq> 0" by (auto simp: smul_zero [OF assms(1)])
    with True P(3) have "smul G (inverse (st_blind st)) z = smul G (key S) P"
      by (simp add: unblind [OF assms(1)])
    with z(3) have "x = salida G (utf8 pw) (smul G (key S) P)" by simp
    with P(1) z(2) show ?thesis
      by (intro exI [of _ P] exI [of _ "st_blinded st"] exI [of _ z] exI [of _ pf]) simp
  next
    case False
    with P(1) z(2) show ?thesis
      by (intro exI [of _ P] exI [of _ "st_blinded st"] exI [of _ z] exI [of _ pf]) simp
  qed
qed

section \<open>A concrete session\<close>

abbreviation demo_red :: "nat red" where
  "demo_red \<equiv> red_honesta demo_grupo demo_cincos \<lparr>key = gf 3\<rparr> (\<lambda>_. True)"

lemma demo_scalars:
  "random_scalar demo_grupo demo_cincos h = Some (gf 5, h)"
  "random_scalar demo_grupo demo_fuente 1 = Some (1, 65)"
  "gf 5 \<noteq> 0" "gf 3 \<noteq> 0"
proof -
  have "hd (map of_nat [1..<65]) = (1 :: u8)" by (simp add: upt_conv_Cons del: upt_rec_numeral)
  then show "random_scalar demo_grupo demo_fuente 1 = Some (1, 65)"
    by (simp add: random_scalar_def fill_expect_def demo_fuente_def demo_grupo_def gf_simps del: upt_rec_numeral)
qed (simp_all add: random_scalar_def fill_expect_def demo_cincos_def demo_grupo_def gf_field_defs)

lemma demo_api_harden:
  "api_harden demo_grupo demo_fuente demo_red [112] addr (public_key demo_grupo \<lparr>key = gf 3\<rparr>) 1 h =
    Some (Inr (salida demo_grupo (utf8 [112]) (gf 3)), 65, h)"
proof -
  have "smul demo_grupo (gf 3) 1 = gf 3" by (simp add: demo_grupo_def)
  then show ?thesis
    using api_harden_answers [OF demo_grupo_ok _ demo_hashes(2) _ demo_scalars(2) _ demo_scalars(1),
      of "\<lparr>key = gf 3\<rparr>" "\<lambda>_. True" h] demo_scalars(3,4)
    by simp
qed

lemma demo_encode_online:
  "\<exists>s. encode_online demo_grupo demo_cripto demo_fuente demo_red demo_informe [1, 2, 3] [112] addr
    (public_key demo_grupo \<lparr>key = gf 3\<rparr>) (projr flagship) options_default 1 h = Some (Inr s, 105, h)"
proof -
  let ?x = "salida demo_grupo (utf8 [112]) (gf 3)"
  let ?o = "\<lparr>opt_pepper = opt_pepper options_default @ ?x,
    opt_kdf_params = opt_kdf_params options_default, opt_codebook_id = 0\<rparr>"
  have sane: "is_sane (opt_kdf_params ?o)"
    by (simp, intro canonicos_sane)
      (simp add: options_default_def kdf_params_default_def kdf_es_canonico_def canonicos_def)
  have len: "length (utf8 (nfkc demo_cripto [112])) + length (opt_pepper ?o) < 2 ^ 32"
    by (simp add: demo_cripto_def utf8_def utf8_char_def options_default_def salida_def demo_grupo_def)
  have draws: "llenar_expect demo_fuente 16 65 = Some (map of_nat [65..<81], 81)"
      "llenar_expect demo_fuente 24 81 = Some (map of_nat [81..<105], 105)"
    using demo_llenar [of 16 65] demo_llenar [of 24 81] by (simp_all del: upt_rec_numeral)
  obtain blob where blob: "encode_to_blob demo_cripto demo_fuente [1, 2, 3] [112]
      (fingerprint (sha256 demo_cripto) (projr flagship)) ?o 65 = Some (blob, 105)"
    using encode_to_blob_total [OF demo_cripto_ok demo_fuente_ok _ sane len draws, of "[1, 2, 3]"] by fastforce
  obtain s where "representar (projr flagship) blob = Some s"
    using representar_total [OF flagship_wf] by blast
  then have "encode demo_informe demo_cripto demo_fuente [1, 2, 3] [112] (projr flagship) ?o 65 = Some (s, 105)"
    using blob demo_informe_ok by (simp add: encode_def ensure_def try_ensure_def get_or_init_def Let_def)
  then show ?thesis by (simp add: encode_online_def demo_api_harden [unfolded One_nat_def])
qed

theorem online_decode_completes_witness:
  "\<exists>s. encode_online demo_grupo demo_cripto demo_fuente demo_red demo_informe [1, 2, 3] [112] []
      (public_key demo_grupo \<lparr>key = gf 3\<rparr>) (projr flagship) options_default 1 0 = Some (Inr s, 105, 0) \<and>
    decode_online demo_grupo demo_cripto demo_fuente demo_red demo_informe s [112] []
      (public_key demo_grupo \<lparr>key = gf 3\<rparr>) (projr flagship) [] 1 7 = Some (Inr [1, 2, 3], 65, 7)"
proof -
  obtain s where s: "encode_online demo_grupo demo_cripto demo_fuente demo_red demo_informe [1, 2, 3] [112] []
      (public_key demo_grupo \<lparr>key = gf 3\<rparr>) (projr flagship) options_default 1 0 = Some (Inr s, 105, 0)"
    using demo_encode_online by blast
  have sane: "is_sane (opt_kdf_params options_default)"
    by (intro canonicos_sane)
      (simp add: options_default_def kdf_params_default_def kdf_es_canonico_def canonicos_def)
  from online_decode_completes [OF demo_cripto_ok demo_grupo_ok demo_fuente_ok flagship_wf _ _ s
      demo_scalars(2) _ demo_scalars(1)] s demo_scalars(3,4) sane
  show ?thesis by (auto simp: options_default_def)
qed

lemma online_roundtrip_example:
  "\<exists>s res. decode_online demo_grupo demo_cripto demo_fuente demo_red demo_informe s [112] []
      (public_key demo_grupo \<lparr>key = gf 3\<rparr>) (projr flagship) [] 1 7 = Some (res, 65, 7) \<and>
    (res = Inr [1, 2, 3] \<or> res = Inl Network \<or> res = Inl Denied)"
proof -
  obtain s where s: "encode_online demo_grupo demo_cripto demo_fuente demo_red demo_informe [1, 2, 3] [112] []
      (public_key demo_grupo \<lparr>key = gf 3\<rparr>) (projr flagship) options_default 1 0 = Some (Inr s, 105, 0)"
    using demo_encode_online by blast
  obtain x r4 where x: "api_harden demo_grupo demo_fuente demo_red [112] [] (public_key demo_grupo \<lparr>key = gf 3\<rparr>) 1 0
        = Some (Inr x, r4, 0)"
      and enc: "encode demo_informe demo_cripto demo_fuente [1, 2, 3] [112] (projr flagship)
        \<lparr>opt_pepper = opt_pepper options_default @ x, opt_kdf_params = opt_kdf_params options_default,
          opt_codebook_id = 0\<rparr> r4 = Some (s, 105)"
    using encode_online_Inr [OF s] .
  have sane: "is_sane (opt_kdf_params options_default)"
    by (intro canonicos_sane)
      (simp add: options_default_def kdf_params_default_def kdf_es_canonico_def canonicos_def)
  have "api_harden demo_grupo demo_fuente demo_red [112] [] (public_key demo_grupo \<lparr>key = gf 3\<rparr>) 1 7
      = Some (Inr x, 65, 7)"
    using x by (simp add: demo_api_harden [unfolded One_nat_def])
  from decode_online_hardened [OF demo_cripto_ok demo_fuente_ok flagship_wf _ enc this] sane
  have d: "decode_online demo_grupo demo_cripto demo_fuente demo_red demo_informe s [112] []
      (public_key demo_grupo \<lparr>key = gf 3\<rparr>) (projr flagship) (opt_pepper options_default) 1 7
      = Some (Inr [1, 2, 3], 65, 7)" by simp
  from online_roundtrip [OF demo_cripto_ok demo_grupo_ok demo_fuente_ok flagship_wf _ sane _ s d] d demo_scalars(4)
  show ?thesis by (auto simp: options_default_def)
qed

theorem hardened_or_forged_proof_witness:
  "\<exists>x b z pf. api_harden demo_grupo demo_fuente demo_red [112] [] (public_key demo_grupo \<lparr>key = gf 3\<rparr>) 1 0
      = Some (Inr x, 65, 0) \<and>
    verify_proof demo_grupo (smul demo_grupo (gf 3) (basepoint demo_grupo)) b z pf = Some True"
  using hardened_or_forged_proof [OF demo_grupo_ok demo_api_harden [of "[]" 0]] demo_api_harden [of "[]" 0]
  by auto

end
