(* ===== verification/Oprf.thy ===== *)
theory Oprf
  imports Online
begin

text \<open>
  \<^verbatim>\<open>src/src/oprf.rs\<close> and the unverified half of \<^verbatim>\<open>src/src/oprf_net.rs\<close>: the deprecated OPRF without
  a proof.  Its server counts its evaluations down; its client cannot tell a lie.
\<close>

section \<open>Server\<close>

record 's oprf_server =
  oprf_key :: 's
  oprf_remaining :: u32

definition OPRF_DOMAIN :: bytes where
  "OPRF_DOMAIN = ascii ''quipu/v2/oprf''"

definition oprf_random_scalar :: "('s, 'p) ristretto \<Rightarrow> 'r fuente \<Rightarrow> 'r \<Rightarrow> ('s \<times> 'r) option" where
  "oprf_random_scalar G fuente r =
     do {
       (b, r) \<leftarrow> llenar_expect fuente 64 r;
       Some (scalar_wide G b, r)
     }"

definition oprf_new :: "('s, 'p) ristretto \<Rightarrow> 'r fuente \<Rightarrow> u32 \<Rightarrow> 'r \<Rightarrow> ('s oprf_server \<times> 'r) option" where
  "oprf_new G fuente max_requests r =
     do {
       (k, r) \<leftarrow> oprf_random_scalar G fuente r;
       Some (\<lparr>oprf_key = k, oprf_remaining = max_requests\<rparr>, r)
     }"

definition oprf_from_seed :: "('s, 'p) ristretto \<Rightarrow> bytes \<Rightarrow> u32 \<Rightarrow> 's oprf_server" where
  "oprf_from_seed G seed max_requests =
     (let wide = sha512 G (ascii ''quipu/v2/oprf-server-key'' @ seed)
      in \<lparr>oprf_key = scalar_wide G wide, oprf_remaining = max_requests\<rparr>)"

definition oprf_evaluate_raw :: "('s, 'p) ristretto \<Rightarrow> 's oprf_server \<Rightarrow> bytes \<Rightarrow> bytes option" where
  "oprf_evaluate_raw G S blinded =
     do {
       point \<leftarrow> decompress G blinded;
       Some (compress G (smul G (oprf_key S) point))
     }"

definition oprf_evaluate ::
  "('s, 'p) ristretto \<Rightarrow> 's oprf_server \<Rightarrow> bytes \<Rightarrow> bytes option \<times> 's oprf_server" where
  "oprf_evaluate G S blinded =
     (if oprf_remaining S = 0 then (None, S)
      else
        case oprf_evaluate_raw G S blinded of
          None \<Rightarrow> (None, S)
        | Some out \<Rightarrow> (Some out, S\<lparr>oprf_remaining := oprf_remaining S - 1\<rparr>))"

section \<open>Client\<close>

text \<open>The state is the inverse of the blinding scalar, \<open>0\<close> for \<open>0\<close> as \<^verbatim>\<open>Scalar::invert\<close> gives.\<close>

definition oprf_blind ::
  "('s :: field, 'p) ristretto \<Rightarrow> 'r fuente \<Rightarrow> bytes \<Rightarrow> 'r \<Rightarrow> (('s \<times> bytes) \<times> 'r) option" where
  "oprf_blind G fuente password r =
     (let h = from_uniform G (sha512 G password)
      in do {
           (s, r) \<leftarrow> oprf_random_scalar G fuente r;
           let blinded = smul G s h;
           Some ((inverse s, compress G blinded), r)
         })"

definition oprf_finalize ::
  "('s, 'p) ristretto \<Rightarrow> (bytes \<Rightarrow> bytes) \<Rightarrow> bytes \<Rightarrow> 's \<Rightarrow> bytes \<Rightarrow> bytes option" where
  "oprf_finalize G sha password r_inv evaluated =
     do {
       ev \<leftarrow> decompress G evaluated;
       let unblinded = smul G r_inv ev;
       Some (sha (OPRF_DOMAIN @ u64_to_be (of_nat (length password)) @ password @ compress G unblinded))
     }"

section \<open>The carrier without proof\<close>

definition evaluate_remote ::
  "'h red \<Rightarrow> bytes \<Rightarrow> bytes \<Rightarrow> 'h \<Rightarrow> (red_error + bytes option) \<times> 'h" where
  "evaluate_remote red addr blinded h =
     (case red addr blinded h of
        (Inl e, h) \<Rightarrow> (Inl e, h)
      | (Inr flujo, h) \<Rightarrow>
          if length flujo < 1 then (Inl UnexpectedEof, h)
          else if length flujo - 1 < 32 then (Inl UnexpectedEof, h)
          else (Inr (if flujo ! 0 = 1 then Some (slice 1 33 flujo) else None), h))"

definition handle_connection ::
  "('s, 'p) ristretto \<Rightarrow> 's oprf_server \<Rightarrow> bool \<Rightarrow> conexion \<Rightarrow> (red_error + unit) \<times> conexion" where
  "handle_connection G S allowed cx =
     (case read_exact 32 cx of
        (Inl e, cx) \<Rightarrow> (Inl e, cx)
      | (Inr blinded, cx) \<Rightarrow>
          let result = (if allowed then oprf_evaluate_raw G S blinded else None)
          in case result of
               Some ev \<Rightarrow> escribir_todo [[1], ev] cx
             | None \<Rightarrow> escribir_todo [[0], replicate 32 0] cx)"

section \<open>What it computes, and what it cannot see\<close>

lemma oprf_computes:
  assumes G: "ristretto_ok G" and "oprf_blind G fuente password r = Some ((r_inv, b), r')" and "r_inv \<noteq> 0"
    and "oprf_evaluate_raw G S b = Some ev"
  shows "oprf_finalize G sha password r_inv ev =
    Some (sha (OPRF_DOMAIN @ u64_to_be (of_nat (length password)) @ password @
      compress G (smul G (oprf_key S) (from_uniform G (sha512 G password)))))"
proof -
  obtain s where s: "r_inv = inverse s" "b = compress G (smul G s (from_uniform G (sha512 G password)))"
    using assms(2) by (auto simp: oprf_blind_def Let_def split: bind_splits)
  then have "s \<noteq> 0" using assms(3) by simp
  with s assms(4) show ?thesis
    by (auto simp: oprf_evaluate_raw_def oprf_finalize_def unblind [OF G] encoding_laws [OF G])
qed

text \<open>Any point at all is accepted as the answer.\<close>

lemma oprf_accepts_any_point:
  "ristretto_ok G \<Longrightarrow> \<exists>out. oprf_finalize G sha password r_inv (compress G Q) = Some out"
  by (simp add: oprf_finalize_def encoding_laws)

text \<open>The unverified exchange carries the evaluation through.\<close>

lemma evaluate_remote_handled:
  assumes "ristretto_ok G" and "length b = 32" and "cx_cabe cx = 33" and "cx_entrada cx = b"
    and "cx_salida cx = []"
    and red: "red addr b h = (Inr (cx_salida (snd (handle_connection G S allowed cx))), h')"
  shows "evaluate_remote red addr b h =
    (Inr (if allowed then oprf_evaluate_raw G S b else None), h')"
proof -
  have l: "length ev = 32" if "oprf_evaluate_raw G S b = Some ev" for ev
    using that by (auto simp: oprf_evaluate_raw_def encoding_laws [OF assms(1)] split: bind_splits)
  show ?thesis
    using assms(2-5) l
    by (auto simp: evaluate_remote_def red handle_connection_def read_exact_def write_all_def
        slice_def split: option.splits)
qed

section \<open>The budget\<close>

text \<open>A client that sends points until it is tired: the answers it got, and the server after them.\<close>

fun oprf_sesion ::
  "('s, 'p) ristretto \<Rightarrow> bytes list \<Rightarrow> 's oprf_server \<Rightarrow> bytes option list \<times> 's oprf_server" where
  "oprf_sesion G [] S = ([], S)"
| "oprf_sesion G (b # bs) S =
     (let (res, S) = oprf_evaluate G S b; (rs, S) = oprf_sesion G bs S in (res # rs, S))"

definition validos :: "('s, 'p) ristretto \<Rightarrow> bytes list \<Rightarrow> nat" where
  "validos G bs = length (filter (\<lambda>b. decompress G b \<noteq> None) bs)"

definition concedidos :: "bytes option list \<Rightarrow> nat" where
  "concedidos rs = length (filter (\<lambda>r. r \<noteq> None) rs)"

lemma oprf_evaluate_cases:
  "oprf_evaluate G S b =
     (if oprf_remaining S = 0 \<or> decompress G b = None then (None, S)
      else (Some (compress G (smul G (oprf_key S) (the (decompress G b)))),
            S\<lparr>oprf_remaining := oprf_remaining S - 1\<rparr>))"
  by (cases "decompress G b") (simp_all add: oprf_evaluate_def oprf_evaluate_raw_def)

lemma oprf_sesion_budget:
  "oprf_sesion G bs S = (rs, S') \<Longrightarrow>
    concedidos rs = min (unat (oprf_remaining S)) (validos G bs) \<and>
    unat (oprf_remaining S') = unat (oprf_remaining S) - concedidos rs \<and> oprf_key S' = oprf_key S"
proof (induction bs arbitrary: S rs S')
  case Nil
  then show ?case by (auto simp: concedidos_def validos_def)
next
  case (Cons b bs)
  obtain res S1 where e: "oprf_evaluate G S b = (res, S1)" by force
  obtain rs1 S2 where s: "oprf_sesion G bs S1 = (rs1, S2)" by force
  have rs: "rs = res # rs1" "S' = S2" using Cons.prems e s by simp_all
  note IH = Cons.IH [OF s]
  show ?case
  proof (cases "oprf_remaining S = 0 \<or> decompress G b = None")
    case True
    then have "res = None" "S1 = S" using e by (simp_all add: oprf_evaluate_cases)
    with IH True rs show ?thesis by (auto simp: concedidos_def validos_def)
  next
    case False
    then have "res \<noteq> None" "S1 = S\<lparr>oprf_remaining := oprf_remaining S - 1\<rparr>"
      using e by (auto simp: oprf_evaluate_cases)
    moreover have "unat (oprf_remaining S - 1) = unat (oprf_remaining S) - 1" "0 < unat (oprf_remaining S)"
      using False by (simp_all add: unat_minus_one unat_gt_0)
    ultimately show ?thesis using IH False rs by (auto simp: concedidos_def validos_def)
  qed
qed

section \<open>Properties\<close>

text \<open>
  The budget of the deprecated server is exact: of any sequence of requests it answers as many
  as there are valid points, up to its budget and not one more, an invalid point costs nothing, and
  what is left is the budget less what was answered.
\<close>
lemma oprf_budget_is_exact:
  assumes "oprf_sesion G bs S = (rs, S')"
  shows "concedidos rs = min (unat (oprf_remaining S)) (validos G bs) \<and>
    unat (oprf_remaining S') = unat (oprf_remaining S) - concedidos rs"
  using oprf_sesion_budget [OF assms] by blast

lemma oprf_budget_is_exact_example:
  "concedidos (fst (oprf_sesion demo_grupo [[1], [2], [3]] \<lparr>oprf_key = 1, oprf_remaining = 2\<rparr>)) = 2"
  using oprf_budget_is_exact [OF surjective_pairing, of demo_grupo "[[1], [2], [3]]" "\<lparr>oprf_key = 1, oprf_remaining = 2\<rparr>"]
  by (simp add: validos_def demo_grupo_def)

end
