(* ===== verification/Lista.thy ===== *)
theory Lista
  imports Prelude
begin

text \<open>
  \<^verbatim>\<open>crates/quipu-nucleo/src/bip39_english.txt\<close>, the word list of BIP-39 that \<^verbatim>\<open>papel.rs\<close> embeds, line by
  line, and what the reader of phrases needs of it: its words are of lower-case letters and are in
  strict order already by their first four letters.  The list is in sixteen parts, so that the check
  of the order is sixteen short ones.
\<close>

section \<open>The order by four letters\<close>

fun menor :: "string \<Rightarrow> string \<Rightarrow> bool" where
  "menor [] t = (t \<noteq> [])"
| "menor (c # s) [] = False"
| "menor (c # s) (d # t) = (if c = d then menor s t else (of_char c :: nat) < of_char d)"

definition letra :: "char \<Rightarrow> bool" where
  "letra c \<longleftrightarrow> 97 \<le> (of_char c :: nat) \<and> (of_char c :: nat) \<le> 122"

definition palabra_ok :: "string \<Rightarrow> bool" where
  "palabra_ok w \<longleftrightarrow> w \<noteq> [] \<and> list_all letra w"

fun ordenadas :: "string list \<Rightarrow> bool" where
  "ordenadas [] = True"
| "ordenadas [a] = palabra_ok a"
| "ordenadas (a # b # ws) \<longleftrightarrow> palabra_ok a \<and> menor (take 4 a) (take 4 b) \<and> ordenadas (b # ws)"

lemma menor_irrefl: "\<not> menor s s"
  by (induction s) simp_all

lemma menor_trans: "menor s t \<Longrightarrow> menor t u \<Longrightarrow> menor s u"
proof (induction s t arbitrary: u rule: menor.induct)
  case (1 t)
  then show ?case by (cases t; cases u) (simp_all split: if_splits)
next
  case (3 c s d t)
  then show ?case by (cases u) (auto split: if_splits)
qed simp

lemma ordenadas_ok: "ordenadas ws \<Longrightarrow> w \<in> set ws \<Longrightarrow> palabra_ok w"
  by (induction ws rule: ordenadas.induct) auto

lemma ordenadas_sorted: "ordenadas ws \<Longrightarrow> sorted_wrt (\<lambda>a b. menor (take 4 a) (take 4 b)) ws"
proof (induction ws rule: ordenadas.induct)
  case (3 a b ws)
  then show ?case by (auto intro: menor_trans)
qed simp_all

lemma sorted_distinct4: "sorted_wrt (\<lambda>a b. menor (take 4 a) (take 4 b)) ws \<Longrightarrow> distinct (map (take 4) ws)"
  by (induction ws) (auto simp: image_iff, metis menor_irrefl)

lemma ordenadas_append:
  "ordenadas us \<Longrightarrow> ordenadas vs \<Longrightarrow> us \<noteq> [] \<Longrightarrow> vs \<noteq> [] \<Longrightarrow>
    menor (take 4 (last us)) (take 4 (hd vs)) \<Longrightarrow> ordenadas (us @ vs)"
proof (induction us rule: ordenadas.induct)
  case (2 a)
  then show ?case by (cases vs) simp_all
qed (auto split: if_splits)

section \<open>The list\<close>

definition lista_0 :: "string list" where
  "lista_0 =
   [''abandon'', ''ability'', ''able'', ''about'', ''above'', ''absent'', ''absorb'',
     ''abstract'', ''absurd'', ''abuse'', ''access'', ''accident'', ''account'', ''accuse'',
     ''achieve'', ''acid'', ''acoustic'', ''acquire'', ''across'', ''act'', ''action'', ''actor'',
     ''actress'', ''actual'', ''adapt'', ''add'', ''addict'', ''address'', ''adjust'', ''admit'',
     ''adult'', ''advance'', ''advice'', ''aerobic'', ''affair'', ''afford'', ''afraid'',
     ''again'', ''age'', ''agent'', ''agree'', ''ahead'', ''aim'', ''air'', ''airport'',
     ''aisle'', ''alarm'', ''album'', ''alcohol'', ''alert'', ''alien'', ''all'', ''alley'',
     ''allow'', ''almost'', ''alone'', ''alpha'', ''already'', ''also'', ''alter'', ''always'',
     ''amateur'', ''amazing'', ''among'', ''amount'', ''amused'', ''analyst'', ''anchor'',
     ''ancient'', ''anger'', ''angle'', ''angry'', ''animal'', ''ankle'', ''announce'',
     ''annual'', ''another'', ''answer'', ''antenna'', ''antique'', ''anxiety'', ''any'',
     ''apart'', ''apology'', ''appear'', ''apple'', ''approve'', ''april'', ''arch'', ''arctic'',
     ''area'', ''arena'', ''argue'', ''arm'', ''armed'', ''armor'', ''army'', ''around'',
     ''arrange'', ''arrest'', ''arrive'', ''arrow'', ''art'', ''artefact'', ''artist'',
     ''artwork'', ''ask'', ''aspect'', ''assault'', ''asset'', ''assist'', ''assume'', ''asthma'',
     ''athlete'', ''atom'', ''attack'', ''attend'', ''attitude'', ''attract'', ''auction'',
     ''audit'', ''august'', ''aunt'', ''author'', ''auto'', ''autumn'', ''average'', ''avocado'']"

definition lista_1 :: "string list" where
  "lista_1 =
   [''avoid'', ''awake'', ''aware'', ''away'', ''awesome'', ''awful'', ''awkward'', ''axis'',
     ''baby'', ''bachelor'', ''bacon'', ''badge'', ''bag'', ''balance'', ''balcony'', ''ball'',
     ''bamboo'', ''banana'', ''banner'', ''bar'', ''barely'', ''bargain'', ''barrel'', ''base'',
     ''basic'', ''basket'', ''battle'', ''beach'', ''bean'', ''beauty'', ''because'', ''become'',
     ''beef'', ''before'', ''begin'', ''behave'', ''behind'', ''believe'', ''below'', ''belt'',
     ''bench'', ''benefit'', ''best'', ''betray'', ''better'', ''between'', ''beyond'',
     ''bicycle'', ''bid'', ''bike'', ''bind'', ''biology'', ''bird'', ''birth'', ''bitter'',
     ''black'', ''blade'', ''blame'', ''blanket'', ''blast'', ''bleak'', ''bless'', ''blind'',
     ''blood'', ''blossom'', ''blouse'', ''blue'', ''blur'', ''blush'', ''board'', ''boat'',
     ''body'', ''boil'', ''bomb'', ''bone'', ''bonus'', ''book'', ''boost'', ''border'',
     ''boring'', ''borrow'', ''boss'', ''bottom'', ''bounce'', ''box'', ''boy'', ''bracket'',
     ''brain'', ''brand'', ''brass'', ''brave'', ''bread'', ''breeze'', ''brick'', ''bridge'',
     ''brief'', ''bright'', ''bring'', ''brisk'', ''broccoli'', ''broken'', ''bronze'', ''broom'',
     ''brother'', ''brown'', ''brush'', ''bubble'', ''buddy'', ''budget'', ''buffalo'', ''build'',
     ''bulb'', ''bulk'', ''bullet'', ''bundle'', ''bunker'', ''burden'', ''burger'', ''burst'',
     ''bus'', ''business'', ''busy'', ''butter'', ''buyer'', ''buzz'', ''cabbage'', ''cabin'',
     ''cable'']"

definition lista_2 :: "string list" where
  "lista_2 =
   [''cactus'', ''cage'', ''cake'', ''call'', ''calm'', ''camera'', ''camp'', ''can'', ''canal'',
     ''cancel'', ''candy'', ''cannon'', ''canoe'', ''canvas'', ''canyon'', ''capable'',
     ''capital'', ''captain'', ''car'', ''carbon'', ''card'', ''cargo'', ''carpet'', ''carry'',
     ''cart'', ''case'', ''cash'', ''casino'', ''castle'', ''casual'', ''cat'', ''catalog'',
     ''catch'', ''category'', ''cattle'', ''caught'', ''cause'', ''caution'', ''cave'',
     ''ceiling'', ''celery'', ''cement'', ''census'', ''century'', ''cereal'', ''certain'',
     ''chair'', ''chalk'', ''champion'', ''change'', ''chaos'', ''chapter'', ''charge'',
     ''chase'', ''chat'', ''cheap'', ''check'', ''cheese'', ''chef'', ''cherry'', ''chest'',
     ''chicken'', ''chief'', ''child'', ''chimney'', ''choice'', ''choose'', ''chronic'',
     ''chuckle'', ''chunk'', ''churn'', ''cigar'', ''cinnamon'', ''circle'', ''citizen'',
     ''city'', ''civil'', ''claim'', ''clap'', ''clarify'', ''claw'', ''clay'', ''clean'',
     ''clerk'', ''clever'', ''click'', ''client'', ''cliff'', ''climb'', ''clinic'', ''clip'',
     ''clock'', ''clog'', ''close'', ''cloth'', ''cloud'', ''clown'', ''club'', ''clump'',
     ''cluster'', ''clutch'', ''coach'', ''coast'', ''coconut'', ''code'', ''coffee'', ''coil'',
     ''coin'', ''collect'', ''color'', ''column'', ''combine'', ''come'', ''comfort'', ''comic'',
     ''common'', ''company'', ''concert'', ''conduct'', ''confirm'', ''congress'', ''connect'',
     ''consider'', ''control'', ''convince'', ''cook'', ''cool'', ''copper'']"

definition lista_3 :: "string list" where
  "lista_3 =
   [''copy'', ''coral'', ''core'', ''corn'', ''correct'', ''cost'', ''cotton'', ''couch'',
     ''country'', ''couple'', ''course'', ''cousin'', ''cover'', ''coyote'', ''crack'',
     ''cradle'', ''craft'', ''cram'', ''crane'', ''crash'', ''crater'', ''crawl'', ''crazy'',
     ''cream'', ''credit'', ''creek'', ''crew'', ''cricket'', ''crime'', ''crisp'', ''critic'',
     ''crop'', ''cross'', ''crouch'', ''crowd'', ''crucial'', ''cruel'', ''cruise'', ''crumble'',
     ''crunch'', ''crush'', ''cry'', ''crystal'', ''cube'', ''culture'', ''cup'', ''cupboard'',
     ''curious'', ''current'', ''curtain'', ''curve'', ''cushion'', ''custom'', ''cute'',
     ''cycle'', ''dad'', ''damage'', ''damp'', ''dance'', ''danger'', ''daring'', ''dash'',
     ''daughter'', ''dawn'', ''day'', ''deal'', ''debate'', ''debris'', ''decade'', ''december'',
     ''decide'', ''decline'', ''decorate'', ''decrease'', ''deer'', ''defense'', ''define'',
     ''defy'', ''degree'', ''delay'', ''deliver'', ''demand'', ''demise'', ''denial'',
     ''dentist'', ''deny'', ''depart'', ''depend'', ''deposit'', ''depth'', ''deputy'',
     ''derive'', ''describe'', ''desert'', ''design'', ''desk'', ''despair'', ''destroy'',
     ''detail'', ''detect'', ''develop'', ''device'', ''devote'', ''diagram'', ''dial'',
     ''diamond'', ''diary'', ''dice'', ''diesel'', ''diet'', ''differ'', ''digital'', ''dignity'',
     ''dilemma'', ''dinner'', ''dinosaur'', ''direct'', ''dirt'', ''disagree'', ''discover'',
     ''disease'', ''dish'', ''dismiss'', ''disorder'', ''display'', ''distance'', ''divert'',
     ''divide'']"

definition lista_4 :: "string list" where
  "lista_4 =
   [''divorce'', ''dizzy'', ''doctor'', ''document'', ''dog'', ''doll'', ''dolphin'', ''domain'',
     ''donate'', ''donkey'', ''donor'', ''door'', ''dose'', ''double'', ''dove'', ''draft'',
     ''dragon'', ''drama'', ''drastic'', ''draw'', ''dream'', ''dress'', ''drift'', ''drill'',
     ''drink'', ''drip'', ''drive'', ''drop'', ''drum'', ''dry'', ''duck'', ''dumb'', ''dune'',
     ''during'', ''dust'', ''dutch'', ''duty'', ''dwarf'', ''dynamic'', ''eager'', ''eagle'',
     ''early'', ''earn'', ''earth'', ''easily'', ''east'', ''easy'', ''echo'', ''ecology'',
     ''economy'', ''edge'', ''edit'', ''educate'', ''effort'', ''egg'', ''eight'', ''either'',
     ''elbow'', ''elder'', ''electric'', ''elegant'', ''element'', ''elephant'', ''elevator'',
     ''elite'', ''else'', ''embark'', ''embody'', ''embrace'', ''emerge'', ''emotion'',
     ''employ'', ''empower'', ''empty'', ''enable'', ''enact'', ''end'', ''endless'', ''endorse'',
     ''enemy'', ''energy'', ''enforce'', ''engage'', ''engine'', ''enhance'', ''enjoy'',
     ''enlist'', ''enough'', ''enrich'', ''enroll'', ''ensure'', ''enter'', ''entire'', ''entry'',
     ''envelope'', ''episode'', ''equal'', ''equip'', ''era'', ''erase'', ''erode'', ''erosion'',
     ''error'', ''erupt'', ''escape'', ''essay'', ''essence'', ''estate'', ''eternal'',
     ''ethics'', ''evidence'', ''evil'', ''evoke'', ''evolve'', ''exact'', ''example'',
     ''excess'', ''exchange'', ''excite'', ''exclude'', ''excuse'', ''execute'', ''exercise'',
     ''exhaust'', ''exhibit'', ''exile'', ''exist'', ''exit'']"

definition lista_5 :: "string list" where
  "lista_5 =
   [''exotic'', ''expand'', ''expect'', ''expire'', ''explain'', ''expose'', ''express'',
     ''extend'', ''extra'', ''eye'', ''eyebrow'', ''fabric'', ''face'', ''faculty'', ''fade'',
     ''faint'', ''faith'', ''fall'', ''false'', ''fame'', ''family'', ''famous'', ''fan'',
     ''fancy'', ''fantasy'', ''farm'', ''fashion'', ''fat'', ''fatal'', ''father'', ''fatigue'',
     ''fault'', ''favorite'', ''feature'', ''february'', ''federal'', ''fee'', ''feed'', ''feel'',
     ''female'', ''fence'', ''festival'', ''fetch'', ''fever'', ''few'', ''fiber'', ''fiction'',
     ''field'', ''figure'', ''file'', ''film'', ''filter'', ''final'', ''find'', ''fine'',
     ''finger'', ''finish'', ''fire'', ''firm'', ''first'', ''fiscal'', ''fish'', ''fit'',
     ''fitness'', ''fix'', ''flag'', ''flame'', ''flash'', ''flat'', ''flavor'', ''flee'',
     ''flight'', ''flip'', ''float'', ''flock'', ''floor'', ''flower'', ''fluid'', ''flush'',
     ''fly'', ''foam'', ''focus'', ''fog'', ''foil'', ''fold'', ''follow'', ''food'', ''foot'',
     ''force'', ''forest'', ''forget'', ''fork'', ''fortune'', ''forum'', ''forward'', ''fossil'',
     ''foster'', ''found'', ''fox'', ''fragile'', ''frame'', ''frequent'', ''fresh'', ''friend'',
     ''fringe'', ''frog'', ''front'', ''frost'', ''frown'', ''frozen'', ''fruit'', ''fuel'',
     ''fun'', ''funny'', ''furnace'', ''fury'', ''future'', ''gadget'', ''gain'', ''galaxy'',
     ''gallery'', ''game'', ''gap'', ''garage'', ''garbage'', ''garden'', ''garlic'',
     ''garment'']"

definition lista_6 :: "string list" where
  "lista_6 =
   [''gas'', ''gasp'', ''gate'', ''gather'', ''gauge'', ''gaze'', ''general'', ''genius'',
     ''genre'', ''gentle'', ''genuine'', ''gesture'', ''ghost'', ''giant'', ''gift'', ''giggle'',
     ''ginger'', ''giraffe'', ''girl'', ''give'', ''glad'', ''glance'', ''glare'', ''glass'',
     ''glide'', ''glimpse'', ''globe'', ''gloom'', ''glory'', ''glove'', ''glow'', ''glue'',
     ''goat'', ''goddess'', ''gold'', ''good'', ''goose'', ''gorilla'', ''gospel'', ''gossip'',
     ''govern'', ''gown'', ''grab'', ''grace'', ''grain'', ''grant'', ''grape'', ''grass'',
     ''gravity'', ''great'', ''green'', ''grid'', ''grief'', ''grit'', ''grocery'', ''group'',
     ''grow'', ''grunt'', ''guard'', ''guess'', ''guide'', ''guilt'', ''guitar'', ''gun'',
     ''gym'', ''habit'', ''hair'', ''half'', ''hammer'', ''hamster'', ''hand'', ''happy'',
     ''harbor'', ''hard'', ''harsh'', ''harvest'', ''hat'', ''have'', ''hawk'', ''hazard'',
     ''head'', ''health'', ''heart'', ''heavy'', ''hedgehog'', ''height'', ''hello'', ''helmet'',
     ''help'', ''hen'', ''hero'', ''hidden'', ''high'', ''hill'', ''hint'', ''hip'', ''hire'',
     ''history'', ''hobby'', ''hockey'', ''hold'', ''hole'', ''holiday'', ''hollow'', ''home'',
     ''honey'', ''hood'', ''hope'', ''horn'', ''horror'', ''horse'', ''hospital'', ''host'',
     ''hotel'', ''hour'', ''hover'', ''hub'', ''huge'', ''human'', ''humble'', ''humor'',
     ''hundred'', ''hungry'', ''hunt'', ''hurdle'', ''hurry'', ''hurt'', ''husband'']"

definition lista_7 :: "string list" where
  "lista_7 =
   [''hybrid'', ''ice'', ''icon'', ''idea'', ''identify'', ''idle'', ''ignore'', ''ill'',
     ''illegal'', ''illness'', ''image'', ''imitate'', ''immense'', ''immune'', ''impact'',
     ''impose'', ''improve'', ''impulse'', ''inch'', ''include'', ''income'', ''increase'',
     ''index'', ''indicate'', ''indoor'', ''industry'', ''infant'', ''inflict'', ''inform'',
     ''inhale'', ''inherit'', ''initial'', ''inject'', ''injury'', ''inmate'', ''inner'',
     ''innocent'', ''input'', ''inquiry'', ''insane'', ''insect'', ''inside'', ''inspire'',
     ''install'', ''intact'', ''interest'', ''into'', ''invest'', ''invite'', ''involve'',
     ''iron'', ''island'', ''isolate'', ''issue'', ''item'', ''ivory'', ''jacket'', ''jaguar'',
     ''jar'', ''jazz'', ''jealous'', ''jeans'', ''jelly'', ''jewel'', ''job'', ''join'', ''joke'',
     ''journey'', ''joy'', ''judge'', ''juice'', ''jump'', ''jungle'', ''junior'', ''junk'',
     ''just'', ''kangaroo'', ''keen'', ''keep'', ''ketchup'', ''key'', ''kick'', ''kid'',
     ''kidney'', ''kind'', ''kingdom'', ''kiss'', ''kit'', ''kitchen'', ''kite'', ''kitten'',
     ''kiwi'', ''knee'', ''knife'', ''knock'', ''know'', ''lab'', ''label'', ''labor'',
     ''ladder'', ''lady'', ''lake'', ''lamp'', ''language'', ''laptop'', ''large'', ''later'',
     ''latin'', ''laugh'', ''laundry'', ''lava'', ''law'', ''lawn'', ''lawsuit'', ''layer'',
     ''lazy'', ''leader'', ''leaf'', ''learn'', ''leave'', ''lecture'', ''left'', ''leg'',
     ''legal'', ''legend'', ''leisure'', ''lemon'', ''lend'']"

definition lista_8 :: "string list" where
  "lista_8 =
   [''length'', ''lens'', ''leopard'', ''lesson'', ''letter'', ''level'', ''liar'', ''liberty'',
     ''library'', ''license'', ''life'', ''lift'', ''light'', ''like'', ''limb'', ''limit'',
     ''link'', ''lion'', ''liquid'', ''list'', ''little'', ''live'', ''lizard'', ''load'',
     ''loan'', ''lobster'', ''local'', ''lock'', ''logic'', ''lonely'', ''long'', ''loop'',
     ''lottery'', ''loud'', ''lounge'', ''love'', ''loyal'', ''lucky'', ''luggage'', ''lumber'',
     ''lunar'', ''lunch'', ''luxury'', ''lyrics'', ''machine'', ''mad'', ''magic'', ''magnet'',
     ''maid'', ''mail'', ''main'', ''major'', ''make'', ''mammal'', ''man'', ''manage'',
     ''mandate'', ''mango'', ''mansion'', ''manual'', ''maple'', ''marble'', ''march'',
     ''margin'', ''marine'', ''market'', ''marriage'', ''mask'', ''mass'', ''master'', ''match'',
     ''material'', ''math'', ''matrix'', ''matter'', ''maximum'', ''maze'', ''meadow'', ''mean'',
     ''measure'', ''meat'', ''mechanic'', ''medal'', ''media'', ''melody'', ''melt'', ''member'',
     ''memory'', ''mention'', ''menu'', ''mercy'', ''merge'', ''merit'', ''merry'', ''mesh'',
     ''message'', ''metal'', ''method'', ''middle'', ''midnight'', ''milk'', ''million'',
     ''mimic'', ''mind'', ''minimum'', ''minor'', ''minute'', ''miracle'', ''mirror'', ''misery'',
     ''miss'', ''mistake'', ''mix'', ''mixed'', ''mixture'', ''mobile'', ''model'', ''modify'',
     ''mom'', ''moment'', ''monitor'', ''monkey'', ''monster'', ''month'', ''moon'', ''moral'',
     ''more'', ''morning'']"

definition lista_9 :: "string list" where
  "lista_9 =
   [''mosquito'', ''mother'', ''motion'', ''motor'', ''mountain'', ''mouse'', ''move'', ''movie'',
     ''much'', ''muffin'', ''mule'', ''multiply'', ''muscle'', ''museum'', ''mushroom'',
     ''music'', ''must'', ''mutual'', ''myself'', ''mystery'', ''myth'', ''naive'', ''name'',
     ''napkin'', ''narrow'', ''nasty'', ''nation'', ''nature'', ''near'', ''neck'', ''need'',
     ''negative'', ''neglect'', ''neither'', ''nephew'', ''nerve'', ''nest'', ''net'',
     ''network'', ''neutral'', ''never'', ''news'', ''next'', ''nice'', ''night'', ''noble'',
     ''noise'', ''nominee'', ''noodle'', ''normal'', ''north'', ''nose'', ''notable'', ''note'',
     ''nothing'', ''notice'', ''novel'', ''now'', ''nuclear'', ''number'', ''nurse'', ''nut'',
     ''oak'', ''obey'', ''object'', ''oblige'', ''obscure'', ''observe'', ''obtain'', ''obvious'',
     ''occur'', ''ocean'', ''october'', ''odor'', ''off'', ''offer'', ''office'', ''often'',
     ''oil'', ''okay'', ''old'', ''olive'', ''olympic'', ''omit'', ''once'', ''one'', ''onion'',
     ''online'', ''only'', ''open'', ''opera'', ''opinion'', ''oppose'', ''option'', ''orange'',
     ''orbit'', ''orchard'', ''order'', ''ordinary'', ''organ'', ''orient'', ''original'',
     ''orphan'', ''ostrich'', ''other'', ''outdoor'', ''outer'', ''output'', ''outside'',
     ''oval'', ''oven'', ''over'', ''own'', ''owner'', ''oxygen'', ''oyster'', ''ozone'',
     ''pact'', ''paddle'', ''page'', ''pair'', ''palace'', ''palm'', ''panda'', ''panel'',
     ''panic'', ''panther'', ''paper'']"

definition lista_10 :: "string list" where
  "lista_10 =
   [''parade'', ''parent'', ''park'', ''parrot'', ''party'', ''pass'', ''patch'', ''path'',
     ''patient'', ''patrol'', ''pattern'', ''pause'', ''pave'', ''payment'', ''peace'',
     ''peanut'', ''pear'', ''peasant'', ''pelican'', ''pen'', ''penalty'', ''pencil'', ''people'',
     ''pepper'', ''perfect'', ''permit'', ''person'', ''pet'', ''phone'', ''photo'', ''phrase'',
     ''physical'', ''piano'', ''picnic'', ''picture'', ''piece'', ''pig'', ''pigeon'', ''pill'',
     ''pilot'', ''pink'', ''pioneer'', ''pipe'', ''pistol'', ''pitch'', ''pizza'', ''place'',
     ''planet'', ''plastic'', ''plate'', ''play'', ''please'', ''pledge'', ''pluck'', ''plug'',
     ''plunge'', ''poem'', ''poet'', ''point'', ''polar'', ''pole'', ''police'', ''pond'',
     ''pony'', ''pool'', ''popular'', ''portion'', ''position'', ''possible'', ''post'',
     ''potato'', ''pottery'', ''poverty'', ''powder'', ''power'', ''practice'', ''praise'',
     ''predict'', ''prefer'', ''prepare'', ''present'', ''pretty'', ''prevent'', ''price'',
     ''pride'', ''primary'', ''print'', ''priority'', ''prison'', ''private'', ''prize'',
     ''problem'', ''process'', ''produce'', ''profit'', ''program'', ''project'', ''promote'',
     ''proof'', ''property'', ''prosper'', ''protect'', ''proud'', ''provide'', ''public'',
     ''pudding'', ''pull'', ''pulp'', ''pulse'', ''pumpkin'', ''punch'', ''pupil'', ''puppy'',
     ''purchase'', ''purity'', ''purpose'', ''purse'', ''push'', ''put'', ''puzzle'', ''pyramid'',
     ''quality'', ''quantum'', ''quarter'', ''question'', ''quick'', ''quit'', ''quiz'']"

definition lista_11 :: "string list" where
  "lista_11 =
   [''quote'', ''rabbit'', ''raccoon'', ''race'', ''rack'', ''radar'', ''radio'', ''rail'',
     ''rain'', ''raise'', ''rally'', ''ramp'', ''ranch'', ''random'', ''range'', ''rapid'',
     ''rare'', ''rate'', ''rather'', ''raven'', ''raw'', ''razor'', ''ready'', ''real'',
     ''reason'', ''rebel'', ''rebuild'', ''recall'', ''receive'', ''recipe'', ''record'',
     ''recycle'', ''reduce'', ''reflect'', ''reform'', ''refuse'', ''region'', ''regret'',
     ''regular'', ''reject'', ''relax'', ''release'', ''relief'', ''rely'', ''remain'',
     ''remember'', ''remind'', ''remove'', ''render'', ''renew'', ''rent'', ''reopen'',
     ''repair'', ''repeat'', ''replace'', ''report'', ''require'', ''rescue'', ''resemble'',
     ''resist'', ''resource'', ''response'', ''result'', ''retire'', ''retreat'', ''return'',
     ''reunion'', ''reveal'', ''review'', ''reward'', ''rhythm'', ''rib'', ''ribbon'', ''rice'',
     ''rich'', ''ride'', ''ridge'', ''rifle'', ''right'', ''rigid'', ''ring'', ''riot'',
     ''ripple'', ''risk'', ''ritual'', ''rival'', ''river'', ''road'', ''roast'', ''robot'',
     ''robust'', ''rocket'', ''romance'', ''roof'', ''rookie'', ''room'', ''rose'', ''rotate'',
     ''rough'', ''round'', ''route'', ''royal'', ''rubber'', ''rude'', ''rug'', ''rule'', ''run'',
     ''runway'', ''rural'', ''sad'', ''saddle'', ''sadness'', ''safe'', ''sail'', ''salad'',
     ''salmon'', ''salon'', ''salt'', ''salute'', ''same'', ''sample'', ''sand'', ''satisfy'',
     ''satoshi'', ''sauce'', ''sausage'', ''save'', ''say'']"

definition lista_12 :: "string list" where
  "lista_12 =
   [''scale'', ''scan'', ''scare'', ''scatter'', ''scene'', ''scheme'', ''school'', ''science'',
     ''scissors'', ''scorpion'', ''scout'', ''scrap'', ''screen'', ''script'', ''scrub'', ''sea'',
     ''search'', ''season'', ''seat'', ''second'', ''secret'', ''section'', ''security'',
     ''seed'', ''seek'', ''segment'', ''select'', ''sell'', ''seminar'', ''senior'', ''sense'',
     ''sentence'', ''series'', ''service'', ''session'', ''settle'', ''setup'', ''seven'',
     ''shadow'', ''shaft'', ''shallow'', ''share'', ''shed'', ''shell'', ''sheriff'', ''shield'',
     ''shift'', ''shine'', ''ship'', ''shiver'', ''shock'', ''shoe'', ''shoot'', ''shop'',
     ''short'', ''shoulder'', ''shove'', ''shrimp'', ''shrug'', ''shuffle'', ''shy'', ''sibling'',
     ''sick'', ''side'', ''siege'', ''sight'', ''sign'', ''silent'', ''silk'', ''silly'',
     ''silver'', ''similar'', ''simple'', ''since'', ''sing'', ''siren'', ''sister'', ''situate'',
     ''six'', ''size'', ''skate'', ''sketch'', ''ski'', ''skill'', ''skin'', ''skirt'', ''skull'',
     ''slab'', ''slam'', ''sleep'', ''slender'', ''slice'', ''slide'', ''slight'', ''slim'',
     ''slogan'', ''slot'', ''slow'', ''slush'', ''small'', ''smart'', ''smile'', ''smoke'',
     ''smooth'', ''snack'', ''snake'', ''snap'', ''sniff'', ''snow'', ''soap'', ''soccer'',
     ''social'', ''sock'', ''soda'', ''soft'', ''solar'', ''soldier'', ''solid'', ''solution'',
     ''solve'', ''someone'', ''song'', ''soon'', ''sorry'', ''sort'', ''soul'', ''sound'',
     ''soup'']"

definition lista_13 :: "string list" where
  "lista_13 =
   [''source'', ''south'', ''space'', ''spare'', ''spatial'', ''spawn'', ''speak'', ''special'',
     ''speed'', ''spell'', ''spend'', ''sphere'', ''spice'', ''spider'', ''spike'', ''spin'',
     ''spirit'', ''split'', ''spoil'', ''sponsor'', ''spoon'', ''sport'', ''spot'', ''spray'',
     ''spread'', ''spring'', ''spy'', ''square'', ''squeeze'', ''squirrel'', ''stable'',
     ''stadium'', ''staff'', ''stage'', ''stairs'', ''stamp'', ''stand'', ''start'', ''state'',
     ''stay'', ''steak'', ''steel'', ''stem'', ''step'', ''stereo'', ''stick'', ''still'',
     ''sting'', ''stock'', ''stomach'', ''stone'', ''stool'', ''story'', ''stove'', ''strategy'',
     ''street'', ''strike'', ''strong'', ''struggle'', ''student'', ''stuff'', ''stumble'',
     ''style'', ''subject'', ''submit'', ''subway'', ''success'', ''such'', ''sudden'',
     ''suffer'', ''sugar'', ''suggest'', ''suit'', ''summer'', ''sun'', ''sunny'', ''sunset'',
     ''super'', ''supply'', ''supreme'', ''sure'', ''surface'', ''surge'', ''surprise'',
     ''surround'', ''survey'', ''suspect'', ''sustain'', ''swallow'', ''swamp'', ''swap'',
     ''swarm'', ''swear'', ''sweet'', ''swift'', ''swim'', ''swing'', ''switch'', ''sword'',
     ''symbol'', ''symptom'', ''syrup'', ''system'', ''table'', ''tackle'', ''tag'', ''tail'',
     ''talent'', ''talk'', ''tank'', ''tape'', ''target'', ''task'', ''taste'', ''tattoo'',
     ''taxi'', ''teach'', ''team'', ''tell'', ''ten'', ''tenant'', ''tennis'', ''tent'', ''term'',
     ''test'', ''text'', ''thank'', ''that'']"

definition lista_14 :: "string list" where
  "lista_14 =
   [''theme'', ''then'', ''theory'', ''there'', ''they'', ''thing'', ''this'', ''thought'',
     ''three'', ''thrive'', ''throw'', ''thumb'', ''thunder'', ''ticket'', ''tide'', ''tiger'',
     ''tilt'', ''timber'', ''time'', ''tiny'', ''tip'', ''tired'', ''tissue'', ''title'',
     ''toast'', ''tobacco'', ''today'', ''toddler'', ''toe'', ''together'', ''toilet'', ''token'',
     ''tomato'', ''tomorrow'', ''tone'', ''tongue'', ''tonight'', ''tool'', ''tooth'', ''top'',
     ''topic'', ''topple'', ''torch'', ''tornado'', ''tortoise'', ''toss'', ''total'',
     ''tourist'', ''toward'', ''tower'', ''town'', ''toy'', ''track'', ''trade'', ''traffic'',
     ''tragic'', ''train'', ''transfer'', ''trap'', ''trash'', ''travel'', ''tray'', ''treat'',
     ''tree'', ''trend'', ''trial'', ''tribe'', ''trick'', ''trigger'', ''trim'', ''trip'',
     ''trophy'', ''trouble'', ''truck'', ''true'', ''truly'', ''trumpet'', ''trust'', ''truth'',
     ''try'', ''tube'', ''tuition'', ''tumble'', ''tuna'', ''tunnel'', ''turkey'', ''turn'',
     ''turtle'', ''twelve'', ''twenty'', ''twice'', ''twin'', ''twist'', ''two'', ''type'',
     ''typical'', ''ugly'', ''umbrella'', ''unable'', ''unaware'', ''uncle'', ''uncover'',
     ''under'', ''undo'', ''unfair'', ''unfold'', ''unhappy'', ''uniform'', ''unique'', ''unit'',
     ''universe'', ''unknown'', ''unlock'', ''until'', ''unusual'', ''unveil'', ''update'',
     ''upgrade'', ''uphold'', ''upon'', ''upper'', ''upset'', ''urban'', ''urge'', ''usage'',
     ''use'', ''used'', ''useful'']"

definition lista_15 :: "string list" where
  "lista_15 =
   [''useless'', ''usual'', ''utility'', ''vacant'', ''vacuum'', ''vague'', ''valid'', ''valley'',
     ''valve'', ''van'', ''vanish'', ''vapor'', ''various'', ''vast'', ''vault'', ''vehicle'',
     ''velvet'', ''vendor'', ''venture'', ''venue'', ''verb'', ''verify'', ''version'', ''very'',
     ''vessel'', ''veteran'', ''viable'', ''vibrant'', ''vicious'', ''victory'', ''video'',
     ''view'', ''village'', ''vintage'', ''violin'', ''virtual'', ''virus'', ''visa'', ''visit'',
     ''visual'', ''vital'', ''vivid'', ''vocal'', ''voice'', ''void'', ''volcano'', ''volume'',
     ''vote'', ''voyage'', ''wage'', ''wagon'', ''wait'', ''walk'', ''wall'', ''walnut'',
     ''want'', ''warfare'', ''warm'', ''warrior'', ''wash'', ''wasp'', ''waste'', ''water'',
     ''wave'', ''way'', ''wealth'', ''weapon'', ''wear'', ''weasel'', ''weather'', ''web'',
     ''wedding'', ''weekend'', ''weird'', ''welcome'', ''west'', ''wet'', ''whale'', ''what'',
     ''wheat'', ''wheel'', ''when'', ''where'', ''whip'', ''whisper'', ''wide'', ''width'',
     ''wife'', ''wild'', ''will'', ''win'', ''window'', ''wine'', ''wing'', ''wink'', ''winner'',
     ''winter'', ''wire'', ''wisdom'', ''wise'', ''wish'', ''witness'', ''wolf'', ''woman'',
     ''wonder'', ''wood'', ''wool'', ''word'', ''work'', ''world'', ''worry'', ''worth'',
     ''wrap'', ''wreck'', ''wrestle'', ''wrist'', ''write'', ''wrong'', ''yard'', ''year'',
     ''yellow'', ''you'', ''young'', ''youth'', ''zebra'', ''zero'', ''zone'', ''zoo'']"

definition LISTA :: "string list" where
  "LISTA = concat [lista_0, lista_1, lista_2, lista_3, lista_4, lista_5, lista_6, lista_7, lista_8,
     lista_9, lista_10, lista_11, lista_12, lista_13, lista_14, lista_15]"

section \<open>Its order\<close>

text \<open>A part is in order, has 128 words, and begins and ends where it does.\<close>

definition parte :: "string list \<Rightarrow> string \<Rightarrow> string \<Rightarrow> bool" where
  "parte ws a z \<longleftrightarrow> ordenadas ws \<and> length ws = 128 \<and> ws \<noteq> [] \<and> hd ws = a \<and> last ws = z"

lemma parte_0: "parte lista_0 ''abandon'' ''avocado''"
  unfolding lista_0_def parte_def by (simp add: palabra_ok_def letra_def)

lemma parte_1: "parte lista_1 ''avoid'' ''cable''"
  unfolding lista_1_def parte_def by (simp add: palabra_ok_def letra_def)

lemma parte_2: "parte lista_2 ''cactus'' ''copper''"
  unfolding lista_2_def parte_def by (simp add: palabra_ok_def letra_def)

lemma parte_3: "parte lista_3 ''copy'' ''divide''"
  unfolding lista_3_def parte_def by (simp add: palabra_ok_def letra_def)

lemma parte_4: "parte lista_4 ''divorce'' ''exit''"
  unfolding lista_4_def parte_def by (simp add: palabra_ok_def letra_def)

lemma parte_5: "parte lista_5 ''exotic'' ''garment''"
  unfolding lista_5_def parte_def by (simp add: palabra_ok_def letra_def)

lemma parte_6: "parte lista_6 ''gas'' ''husband''"
  unfolding lista_6_def parte_def by (simp add: palabra_ok_def letra_def)

lemma parte_7: "parte lista_7 ''hybrid'' ''lend''"
  unfolding lista_7_def parte_def by (simp add: palabra_ok_def letra_def)

lemma parte_8: "parte lista_8 ''length'' ''morning''"
  unfolding lista_8_def parte_def by (simp add: palabra_ok_def letra_def)

lemma parte_9: "parte lista_9 ''mosquito'' ''paper''"
  unfolding lista_9_def parte_def by (simp add: palabra_ok_def letra_def)

lemma parte_10: "parte lista_10 ''parade'' ''quiz''"
  unfolding lista_10_def parte_def by (simp add: palabra_ok_def letra_def)

lemma parte_11: "parte lista_11 ''quote'' ''say''"
  unfolding lista_11_def parte_def by (simp add: palabra_ok_def letra_def)

lemma parte_12: "parte lista_12 ''scale'' ''soup''"
  unfolding lista_12_def parte_def by (simp add: palabra_ok_def letra_def)

lemma parte_13: "parte lista_13 ''source'' ''that''"
  unfolding lista_13_def parte_def by (simp add: palabra_ok_def letra_def)

lemma parte_14: "parte lista_14 ''theme'' ''useful''"
  unfolding lista_14_def parte_def by (simp add: palabra_ok_def letra_def)

lemma parte_15: "parte lista_15 ''useless'' ''zoo''"
  unfolding lista_15_def parte_def by (simp add: palabra_ok_def letra_def)

text \<open>Parts one after the other.\<close>

fun encadenadas :: "(string list \<times> string \<times> string) list \<Rightarrow> bool" where
  "encadenadas [] = True"
| "encadenadas [(ws, a, z)] = parte ws a z"
| "encadenadas ((ws, a, z) # (vs, b, y) # ps) \<longleftrightarrow>
     parte ws a z \<and> menor (take 4 z) (take 4 b) \<and> encadenadas ((vs, b, y) # ps)"

lemma encadenadas_ordenadas:
  "encadenadas ps \<Longrightarrow>
    ordenadas (concat (map fst ps)) \<and> length (concat (map fst ps)) = 128 * length ps \<and>
    (ps \<noteq> [] \<longrightarrow> concat (map fst ps) \<noteq> [] \<and> hd (concat (map fst ps)) = fst (snd (hd ps)))"
proof (induction ps rule: encadenadas.induct)
  case (3 ws a z vs b y ps)
  then have p: "parte ws a z" "menor (take 4 z) (take 4 b)" by simp_all
  let ?r = "concat (map fst ((vs, b, y) # ps))"
  have r: "ordenadas ?r" "length ?r = 128 * length ((vs, b, y) # ps)" "?r \<noteq> []" "hd ?r = b"
    using 3 by auto
  have "ordenadas (ws @ ?r)"
  proof (rule ordenadas_append)
    show "ordenadas ws" "ws \<noteq> []" using p(1) by (simp_all add: parte_def)
    show "menor (take 4 (last ws)) (take 4 (hd ?r))" using p r(4) by (simp only: parte_def)
  qed (fact r(1), fact r(3))
  then show ?case using p(1) r(2) by (simp add: parte_def)
qed (simp_all add: parte_def)

lemma LISTA_partes:
  "\<exists>ps. encadenadas ps \<and> length ps = 16 \<and> concat (map fst ps) = LISTA"
  by (rule exI [of _ "[
      (lista_0, ''abandon'', ''avocado''),
      (lista_1, ''avoid'', ''cable''),
      (lista_2, ''cactus'', ''copper''),
      (lista_3, ''copy'', ''divide''),
      (lista_4, ''divorce'', ''exit''),
      (lista_5, ''exotic'', ''garment''),
      (lista_6, ''gas'', ''husband''),
      (lista_7, ''hybrid'', ''lend''),
      (lista_8, ''length'', ''morning''),
      (lista_9, ''mosquito'', ''paper''),
      (lista_10, ''parade'', ''quiz''),
      (lista_11, ''quote'', ''say''),
      (lista_12, ''scale'', ''soup''),
      (lista_13, ''source'', ''that''),
      (lista_14, ''theme'', ''useful''),
      (lista_15, ''useless'', ''zoo'')
     ]"]) (simp add: LISTA_def parte_0 parte_1 parte_2 parte_3 parte_4 parte_5 parte_6 parte_7 parte_8
      parte_9 parte_10 parte_11 parte_12 parte_13 parte_14 parte_15)

lemma LISTA_ordenadas: "ordenadas LISTA" and length_LISTA: "length LISTA = 2048"
  using LISTA_partes encadenadas_ordenadas by fastforce+

lemma LISTA_ok: "w \<in> set LISTA \<Longrightarrow> palabra_ok w"
  by (rule ordenadas_ok [OF LISTA_ordenadas])

lemma LISTA_cuatro: "distinct (map (take 4) LISTA)"
  by (rule sorted_distinct4 [OF ordenadas_sorted [OF LISTA_ordenadas]])

lemma LISTA_abandon: "LISTA ! 0 = ''abandon''"
  by (simp add: LISTA_def lista_0_def)

end
