(* ===== verification/Palabras.thy ===== *)
theory Palabras
  imports Tecleable Lista
begin

text \<open>
  The module \<^verbatim>\<open>palabras\<close> of \<^verbatim>\<open>crates/quipu-nucleo/src/papel.rs\<close>: secrets as phrases of the
  word list of BIP-39, eleven bits to the word, and the reader that takes what people write: in any
  case, over several lines, with the words cut after their fourth letter.  SHA-256 is a parameter.
\<close>

section \<open>The list and the errors\<close>

definition bip_lista :: "char32 list list" where
  "bip_lista = map (map of_char) LISTA"

definition TAMANOS :: "nat list" where
  "TAMANOS = [16, 20, 24, 28, 32]"

definition PREFIJO_SUFICIENTE :: nat where
  "PREFIJO_SUFICIENTE = 4"

datatype palabras_error =
    TamanoNoAdmitido nat "nat list"
  | CuentaNoAdmitida nat
  | PalabraDesconocida "char32 list" nat
  | PalabraDemasiadoCorta "char32 list" nat
  | PalabraAmbigua "char32 list" nat nat
  | SumaDeVerificacion
  | PalabrasVacio
  | ListaCorrupta nat

section \<open>Writing\<close>

text \<open>The closure \<^verbatim>\<open>bit\<close>: a bit of the secret, or of its hash after the secret's last.\<close>

definition bit_de :: "bytes \<Rightarrow> bytes \<Rightarrow> nat \<Rightarrow> u32" where
  "bit_de datos suma i =
     (let (fuente, i) = if i < length datos * 8 then (datos ! (i div 8), i)
            else let j = i - length datos * 8 in (suma ! (j div 8), j)
      in ucast (drop_bit (7 - i mod 8) fuente AND 1))"

definition indice_en :: "(nat \<Rightarrow> u32) \<Rightarrow> nat \<Rightarrow> u32" where
  "indice_en b p = foldl (\<lambda>idx k. push_bit 1 idx OR b (p * 11 + k)) 0 [0..<11]"

fun frase_loop :: "(nat \<Rightarrow> u32) \<Rightarrow> nat list \<Rightarrow> char32 list \<Rightarrow> palabras_error + char32 list" where
  "frase_loop b [] frase = Inr frase"
| "frase_loop b (p # ps) frase =
     (let idx = indice_en b p;
          frase = (if 0 < p then frase @ [32] else frase)
      in if unat idx < length bip_lista then frase_loop b ps (frase @ bip_lista ! unat idx)
         else Inl (ListaCorrupta (unat idx)))"

definition bip_escribir :: "(bytes \<Rightarrow> bytes) \<Rightarrow> bytes \<Rightarrow> palabras_error + char32 list" where
  "bip_escribir sha datos =
     (if length datos \<notin> set TAMANOS then Inl (TamanoNoAdmitido (length datos) TAMANOS)
      else
        let bits_suma = length datos * 8 div 32;
            total = length datos * 8 + bits_suma
        in frase_loop (bit_de datos (sha datos)) [0..<total div 11] [])"

section \<open>Reading\<close>

text \<open>\<^verbatim>\<open>str::split_whitespace\<close>, \<^verbatim>\<open>char::is_ascii_alphabetic\<close> and \<^verbatim>\<open>char::to_ascii_lowercase\<close>.\<close>

fun partir :: "char32 list \<Rightarrow> char32 list \<Rightarrow> char32 list list" where
  "partir [] w = (if w = [] then [] else [w])"
| "partir (c # cs) w =
     (if is_whitespace c then (if w = [] then partir cs [] else w # partir cs []) else partir cs (w @ [c]))"

definition split_whitespace :: "char32 list \<Rightarrow> char32 list list" where
  "split_whitespace texto = partir texto []"

definition is_ascii_alphabetic :: "char32 \<Rightarrow> bool" where
  "is_ascii_alphabetic c \<longleftrightarrow> 65 \<le> c \<and> c \<le> 90 \<or> 97 \<le> c \<and> c \<le> 122"

definition to_ascii_lowercase :: "char32 \<Rightarrow> char32" where
  "to_ascii_lowercase c = (if 65 \<le> c \<and> c \<le> 90 then c + 32 else c)"

definition limpia :: "char32 list \<Rightarrow> char32 list" where
  "limpia cruda = map to_ascii_lowercase (filter is_ascii_alphabetic cruda)"

definition empieza_por :: "char32 list \<Rightarrow> char32 list \<Rightarrow> bool" where
  "empieza_por w l \<longleftrightarrow> take (length l) w = l"

definition indice_de :: "char32 list \<Rightarrow> nat \<Rightarrow> palabras_error + u32" where
  "indice_de l posicion =
     (if l = [] then Inl (PalabraDesconocida [] posicion)
      else
        case find (\<lambda>i. bip_lista ! i = l) [0..<length bip_lista] of
          Some i \<Rightarrow> Inr (of_nat i)
        | None \<Rightarrow>
            let candidatas = filter (\<lambda>i. empieza_por (bip_lista ! i) l) [0..<length bip_lista]
            in if length candidatas = 0 then Inl (PalabraDesconocida l posicion)
               else if length candidatas = 1 then
                 if PREFIJO_SUFICIENTE \<le> length l then Inr (of_nat (hd candidatas))
                 else Inl (PalabraDemasiadoCorta l posicion)
               else Inl (PalabraAmbigua l posicion (length candidatas)))"

fun indices_loop :: "char32 list list \<Rightarrow> nat \<Rightarrow> palabras_error + u32 list" where
  "indices_loop [] i = Inr []"
| "indices_loop (cruda # crudas) i =
     (case indice_de (limpia cruda) (i + 1) of
        Inl e \<Rightarrow> Inl e
      | Inr idx \<Rightarrow> (case indices_loop crudas (i + 1) of Inl e \<Rightarrow> Inl e | Inr is \<Rightarrow> Inr (idx # is)))"

text \<open>The groups of eleven bits, undone into bytes; what is left goes to a last byte.\<close>

function vaciar_ocho :: "u32 \<Rightarrow> nat \<Rightarrow> bytes \<Rightarrow> nat \<times> bytes" where
  "vaciar_ocho acc n salida =
     (if 8 \<le> n then vaciar_ocho acc (n - 8) (salida @ [ucast (drop_bit (n - 8) acc AND 0xff)])
      else (n, salida))"
  by pat_completeness auto
termination by (relation "measure (\<lambda>(_, n, _). n)") auto

declare vaciar_ocho.simps [simp del]

fun once_loop :: "u32 list \<Rightarrow> u32 \<Rightarrow> nat \<Rightarrow> bytes \<Rightarrow> bytes" where
  "once_loop [] acc n salida =
     (if 0 < n then salida @ [ucast (push_bit (8 - n) acc AND 0xff)] else salida)"
| "once_loop (idx # indices) acc n salida =
     (let acc = push_bit 11 acc OR idx;
          (n, salida) = vaciar_ocho acc (n + 11) salida
      in once_loop indices acc n salida)"

definition bytes_de_palabras :: "nat \<Rightarrow> nat option" where
  "bytes_de_palabras n =
     (if n = 12 then Some 16 else if n = 15 then Some 20 else if n = 18 then Some 24
      else if n = 21 then Some 28 else if n = 24 then Some 32 else None)"

definition bip_leer :: "(bytes \<Rightarrow> bytes) \<Rightarrow> char32 list \<Rightarrow> palabras_error + bytes" where
  "bip_leer sha texto =
     (let crudas = split_whitespace texto
      in if crudas = [] then Inl PalabrasVacio
         else
           case bytes_de_palabras (length crudas) of
             None \<Rightarrow> Inl (CuentaNoAdmitida (length crudas))
           | Some bs \<Rightarrow>
               (case indices_loop crudas 0 of
                  Inl e \<Rightarrow> Inl e
                | Inr indices \<Rightarrow>
                    let bits_suma = bs * 8 div 32;
                        pl = once_loop indices 0 0 [];
                        entropia = take bs pl;
                        esperada = sha entropia ! 0;
                        mascara = push_bit (8 - bits_suma) 0xff
                    in if pl ! bs AND mascara \<noteq> esperada AND mascara then Inl SumaDeVerificacion
                       else Inr entropia))"

section \<open>The words of the list\<close>

lemma length_bip_lista: "length bip_lista = 2048"
  by (simp add: bip_lista_def length_LISTA)

lemma unat_of_char: "unat (of_char c :: char32) = of_char c"
proof -
  have "(of_char c :: nat) mod 256 < 256" by simp
  then have "(of_char c :: nat) < 256" by (simp only: of_char_mod_256)
  then have "(of_char c :: nat) < 4294967296" by (rule less_trans) simp
  then have "unat (of_nat (of_char c) :: char32) = of_char c" by (rule unat_of_nat_u32)
  then show ?thesis by (simp only: of_nat_of_char)
qed

lemma of_char_32_inj: "(of_char c :: char32) = of_char d \<longleftrightarrow> c = d"
  by (metis unat_of_char of_char_eq_iff)

lemma bip_lista_cuatro: "distinct (map (take 4) bip_lista)"
proof -
  have "inj (map (of_char :: char \<Rightarrow> char32))"
    by (rule inj_mapI) (simp add: inj_def of_char_32_inj)
  then have "distinct (map (map (of_char :: char \<Rightarrow> char32)) (map (take 4) LISTA))"
    using LISTA_cuatro by (simp only: distinct_map [of "map of_char"] inj_on_subset [OF _ subset_UNIV])
  then show ?thesis by (simp add: bip_lista_def take_map comp_def)
qed

definition letra_32 :: "char32 \<Rightarrow> bool" where
  "letra_32 c \<longleftrightarrow> 97 \<le> c \<and> c \<le> 122"

lemma letra_of_char: "letra c \<Longrightarrow> letra_32 (of_char c)"
  by (simp add: letra_32_def letra_def word_le_nat_alt unat_of_char)

lemma bip_lista_ok: "w \<in> set bip_lista \<Longrightarrow> w \<noteq> [] \<and> list_all letra_32 w"
  using LISTA_ok letra_of_char by (fastforce simp: bip_lista_def palabra_ok_def list_all_iff)

lemma letra_ws: "letra_32 c \<Longrightarrow> \<not> is_whitespace c"
  by (auto simp: letra_32_def is_whitespace_def word_le_nat_alt)

text \<open>An index is found exactly for a word, or four or more of its first letters.\<close>

definition aceptada :: "char32 list \<Rightarrow> char32 list \<Rightarrow> bool" where
  "aceptada w l \<longleftrightarrow> l = w \<or> PREFIJO_SUFICIENTE \<le> length l \<and> empieza_por w l"

lemma aceptada_unica:
  assumes "i < 2048" "j < 2048" "PREFIJO_SUFICIENTE \<le> length l"
    and "empieza_por (bip_lista ! i) l" "empieza_por (bip_lista ! j) l"
  shows "i = j"
proof -
  have "take 4 (bip_lista ! i) = take 4 l" "take 4 (bip_lista ! j) = take 4 l"
    using assms(3-5) by (metis PREFIJO_SUFICIENTE_def empieza_por_def min.absorb1 take_take)+
  then have "map (take 4) bip_lista ! i = map (take 4) bip_lista ! j"
    using assms(1,2) by (simp add: length_bip_lista)
  then show ?thesis
    using bip_lista_cuatro assms(1,2) by (simp only: nth_eq_iff_index_eq length_map length_bip_lista)
qed

lemma aceptada_misma:
  assumes "i < 2048" "j < 2048" "aceptada (bip_lista ! i) l" "aceptada (bip_lista ! j) l"
  shows "i = j"
proof (cases "PREFIJO_SUFICIENTE \<le> length l")
  case True
  then show ?thesis
    using assms by (intro aceptada_unica [OF assms(1,2) True]) (auto simp: aceptada_def empieza_por_def)
next
  case False
  then have "map (take 4) bip_lista ! i = map (take 4) bip_lista ! j"
    using assms by (auto simp: aceptada_def length_bip_lista)
  then show ?thesis
    using bip_lista_cuatro assms(1,2) by (simp only: nth_eq_iff_index_eq length_map length_bip_lista)
qed

lemma filter_upt_eq: "i < n \<Longrightarrow> filter (\<lambda>k. k = i) [0..<n] = [i]"
proof (induction n)
  case (Suc n)
  then show ?case by (cases "i = n") (simp_all add: filter_empty_conv)
qed simp

lemma indice_de_iff:
  "indice_de l pos = Inr idx \<longleftrightarrow> unat idx < 2048 \<and> aceptada (bip_lista ! unat idx) l"
proof -
  have u: "unat (of_nat i :: u32) = i" if "i < 2048" for i
    using that by (intro unat_of_nat_u32) simp
  have ok: "indice_de l pos = Inr (of_nat i) " if i: "i < 2048" "aceptada (bip_lista ! i) l" for i
  proof -
    have "bip_lista ! i \<in> set bip_lista" using i(1) by (simp add: length_bip_lista)
    then have ne: "l \<noteq> []" using bip_lista_ok i(2) by (fastforce simp: aceptada_def PREFIJO_SUFICIENTE_def)
    show ?thesis
    proof (cases "find (\<lambda>i. bip_lista ! i = l) [0..<length bip_lista]")
      case (Some j)
      then have j: "j < 2048" "bip_lista ! j = l"
        by (auto simp: find_Some_iff length_bip_lista)
      then have "aceptada (bip_lista ! j) l" by (simp add: aceptada_def)
      then have "j = i" using aceptada_misma i j(1) by blast
      then show ?thesis using Some ne by (simp add: indice_de_def)
    next
      case None
      then have "l \<noteq> bip_lista ! i" using i(1) by (auto simp: find_None_iff length_bip_lista)
      then have four: "PREFIJO_SUFICIENTE \<le> length l" "empieza_por (bip_lista ! i) l"
        using i(2) by (simp_all add: aceptada_def)
      have "filter (\<lambda>k. empieza_por (bip_lista ! k) l) [0..<2048] = filter (\<lambda>k. k = i) [0..<2048]"
        using aceptada_unica [OF _ i(1) four(1) _ four(2)] four(2) by (intro filter_cong) auto
      also have "\<dots> = [i]" by (rule filter_upt_eq [OF i(1)])
      finally show ?thesis using None ne four by (simp add: indice_de_def length_bip_lista Let_def)
    qed
  qed
  show ?thesis
  proof
    assume "unat idx < 2048 \<and> aceptada (bip_lista ! unat idx) l"
    then show "indice_de l pos = Inr idx" using ok [of "unat idx"] by simp
  next
    assume h: "indice_de l pos = Inr idx"
    show "unat idx < 2048 \<and> aceptada (bip_lista ! unat idx) l"
    proof (cases "find (\<lambda>i. bip_lista ! i = l) [0..<length bip_lista]")
      case (Some j)
      then have "j < 2048" "bip_lista ! j = l" by (auto simp: find_Some_iff length_bip_lista)
      then show ?thesis using h Some by (auto simp: indice_de_def aceptada_def u split: if_splits)
    next
      case None
      let ?c = "filter (\<lambda>i. empieza_por (bip_lista ! i) l) [0..<length bip_lista]"
      have c: "length ?c = 1" "PREFIJO_SUFICIENTE \<le> length l" "idx = of_nat (hd ?c)"
        using h None by (auto simp: indice_de_def Let_def split: if_splits)
      then have "?c \<noteq> []" by auto
      then have "hd ?c \<in> set ?c" by (rule hd_in_set)
      then show ?thesis using c by (auto simp: aceptada_def u length_bip_lista)
    qed
  qed
qed

lemma indices_loop_iff:
  "indices_loop crudas i = Inr is \<longleftrightarrow>
     list_all2 (\<lambda>cruda (idx :: u32). unat idx < 2048 \<and> aceptada (bip_lista ! unat idx) (limpia cruda)) crudas is"
proof (induction crudas i arbitrary: "is" rule: indices_loop.induct)
  case (2 cruda crudas i)
  show ?case
  proof (cases "indice_de (limpia cruda) (i + 1)")
    case (Inl e)
    then have "\<not> (unat idx < 2048 \<and> aceptada (bip_lista ! unat idx) (limpia cruda))" for idx :: u32
      using indice_de_iff [of "limpia cruda" "i + 1" idx] by simp
    then show ?thesis using Inl by (simp add: list_all2_Cons1) blast
  next
    case (Inr j)
    then have "unat idx < 2048 \<and> aceptada (bip_lista ! unat idx) (limpia cruda) \<longleftrightarrow> idx = j" for idx :: u32
      using indice_de_iff [of "limpia cruda" "i + 1" idx] by auto
    then show ?thesis
      using Inr by (cases "indices_loop crudas (i + 1)") (auto simp: list_all2_Cons1 "2.IH" [OF Inr, symmetric])
  qed
qed auto

section \<open>The bits of a phrase\<close>

text \<open>What the words of a secret carry: its bits, and then the first ones of its hash.\<close>

definition bits_del_secreto :: "(bytes \<Rightarrow> bytes) \<Rightarrow> bytes \<Rightarrow> bool list" where
  "bits_del_secreto sha datos = plano 8 datos @ take (length datos div 4) (plano 8 (sha datos))"

lemma bit_de_plano:
  assumes "length (sha datos) = 32" and "length datos \<le> 32" and "i < length (bits_del_secreto sha datos)"
  shows "bit_de datos (sha datos) i = of_bool (bits_del_secreto sha datos ! i)"
proof -
  have one: "(ucast (drop_bit (7 - k mod 8) (w :: u8) AND 1) :: u32) = of_bool (bits_de 8 w ! (k mod 8))" for w k
    by (simp add: bits_de_nth and_one_eq bit_iff_odd_drop_bit odd_iff_mod_2_eq_one of_bool_def)
  show ?thesis
  proof (cases "i < 8 * length datos")
    case True
    then show ?thesis
      by (simp add: bit_de_def bits_del_secreto_def nth_append plano_nth one mult.commute)
  next
    case False
    then have j: "i - 8 * length datos < 8 * length (sha datos)"
      using assms by (simp add: bits_del_secreto_def)
    then have "plano 8 (sha datos) ! (i - 8 * length datos) =
        bits_de 8 (sha datos ! ((i - 8 * length datos) div 8)) ! ((i - 8 * length datos) mod 8)"
      by (intro plano_nth) simp_all
    then show ?thesis
      using False assms(3) by (simp add: bit_de_def bits_del_secreto_def nth_append one mult.commute Let_def)
  qed
qed

lemma bit_less: "unat (w :: 'a :: len word) < 2 ^ n \<Longrightarrow> bit w k \<Longrightarrow> k < n"
proof -
  assume "unat w < 2 ^ n"
  then have "w = take_bit n w" by (simp add: word_unat_eq_iff unsigned_take_bit_eq take_bit_nat_eq_self)
  then show "bit w k \<Longrightarrow> k < n" by (metis bit_take_bit_iff)
qed

lemma bits_bajos:
  assumes "unat (w :: 'a :: len word) < 2 ^ n"
  shows "unat (push_bit 1 w OR of_bool b) < 2 ^ Suc n"
proof -
  note low = bit_less [OF assms]
  have "push_bit 1 w OR of_bool b = take_bit (Suc n) (push_bit 1 w OR of_bool b)"
  proof (rule bit_word_eqI)
    fix k
    show "bit (push_bit 1 w OR of_bool b) k = bit (take_bit (Suc n) (push_bit 1 w OR of_bool b)) k"
      using low [of "k - 1"] unfolding bit_take_bit_iff bit_or_iff bit_push_bit_iff by (cases k) (auto simp: bit_1_iff)
  qed
  then show ?thesis by (metis unsigned_take_bit_eq take_bit_nat_less_exp)
qed

lemma foldl_bits:
  assumes "n \<le> LENGTH('a :: len)"
  shows "bits_de n (foldl (\<lambda>w k. push_bit 1 w OR of_bool (f k)) (0 :: 'a word) [0..<n]) = map f [0..<n] \<and>
    unat (foldl (\<lambda>w k. push_bit 1 w OR of_bool (f k)) (0 :: 'a word) [0..<n]) < 2 ^ n"
  using assms
proof (induction n)
  case (Suc n)
  let ?w = "foldl (\<lambda>w k. push_bit 1 w OR of_bool (f k)) (0 :: 'a word) [0..<n]"
  have "bits_de (n + 1) (push_bit 1 ?w OR of_bool (f n)) = bits_de n ?w @ bits_de 1 (of_bool (f n) :: 'a word)"
    using Suc.prems by (intro bits_de_shift_in) (auto simp: bit_1_iff)
  moreover have "bits_de 1 (of_bool (f n) :: 'a word) = [f n]"
    by (simp add: bits_de_def bit_0)
  moreover have "unat (push_bit 1 ?w OR of_bool (f n)) < 2 ^ Suc n"
    using Suc by (intro bits_bajos) simp
  ultimately show ?case using Suc by simp
qed simp

lemma indice_en_bits:
  assumes "p * 11 + 11 \<le> length bs" and "\<And>i. i < length bs \<Longrightarrow> b i = of_bool (bs ! i)"
  shows "bits_de 11 (indice_en b p) = take 11 (drop (p * 11) bs)" "unat (indice_en b p) < 2048"
proof -
  let ?f = "\<lambda>k. bs ! (p * 11 + k)"
  have "indice_en b p = foldl (\<lambda>idx k. push_bit 1 idx OR of_bool (?f k)) 0 [0..<11]"
    unfolding indice_en_def using assms by (intro foldl_cong) (auto simp del: upt_rec_numeral)
  moreover have "map ?f [0..<11] = take 11 (drop (p * 11) bs)"
    using assms(1) by (intro nth_equalityI) (simp_all del: upt_rec_numeral)
  ultimately show "bits_de 11 (indice_en b p) = take 11 (drop (p * 11) bs)" "unat (indice_en b p) < 2048"
    using foldl_bits [of 11 ?f, where ?'a = 32] by simp_all
qed

text \<open>The phrase that is written.\<close>

lemma frase_loop_ok:
  "(\<And>p. p \<in> set ps \<Longrightarrow> unat (indice_en b p) < 2048) \<Longrightarrow>
    frase_loop b ps frase = Inr (frase @ concat (map (\<lambda>p. (if 0 < p then [32] else []) @
      bip_lista ! unat (indice_en b p)) ps))"
  by (induction ps arbitrary: frase) (simp_all add: length_bip_lista Let_def)

lemma partir_palabra: "(\<And>c. c \<in> set w \<Longrightarrow> \<not> is_whitespace c) \<Longrightarrow> partir (w @ t) acc = partir t (acc @ w)"
  by (induction w arbitrary: acc) simp_all

definition palabra_32 :: "char32 list \<Rightarrow> bool" where
  "palabra_32 w \<longleftrightarrow> w \<noteq> [] \<and> (\<forall>c \<in> set w. \<not> is_whitespace c)"

lemma partir_palabras:
  "list_all palabra_32 ws \<Longrightarrow> partir (concat (map (Cons 32) ws)) acc = (if acc = [] then ws else acc # ws)"
proof (induction ws arbitrary: acc)
  case (Cons w ws)
  have sp: "is_whitespace 32" by (simp add: is_whitespace_def)
  have w: "w \<noteq> []" "\<And>c. c \<in> set w \<Longrightarrow> \<not> is_whitespace c" using Cons.prems by (auto simp: palabra_32_def)
  have "partir (w @ concat (map (Cons 32) ws)) [] = partir (concat (map (Cons 32) ws)) w"
    using partir_palabra [OF w(2)] by simp
  also have "\<dots> = w # ws" using Cons w(1) by simp
  finally show ?case using sp by simp
qed simp

lemma partir_frase:
  assumes "\<And>p. p < n \<Longrightarrow> f p \<in> set bip_lista"
  shows "split_whitespace (concat (map (\<lambda>p. (if 0 < p then [32] else []) @ f p) [0..<n])) = map f [0..<n]"
proof (cases n)
  case (Suc m)
  have "palabra_32 w" if "w \<in> set bip_lista" for w
    using bip_lista_ok [OF that] by (auto simp: palabra_32_def list_all_iff letra_ws)
  then have ok: "list_all palabra_32 (map f [0..<n])"
    using assms by (auto simp: list_all_iff simp del: upt_Suc)
  have n: "[0..<n] = 0 # [1..<n]" using Suc upt_conv_Cons [of 0 n] by simp
  have "map (\<lambda>p. (if 0 < p then [32] else []) @ f p) [1..<n] = map (Cons 32) (map f [1..<n])"
    by (simp add: comp_def cong: map_cong)
  then have c: "concat (map (\<lambda>p. (if 0 < p then [32] else []) @ f p) [0..<n]) =
      f 0 @ concat (map (Cons 32) (map f [1..<n]))"
    unfolding n by (simp only: list.map concat.simps less_irrefl if_False append_Nil)
  from ok have w: "f 0 \<noteq> []" "\<And>c. c \<in> set (f 0) \<Longrightarrow> \<not> is_whitespace c" "list_all palabra_32 (map f [1..<n])"
    unfolding n by (auto simp: palabra_32_def)
  have "partir (f 0 @ concat (map (Cons 32) (map f [1..<n]))) [] = partir (concat (map (Cons 32) (map f [1..<n]))) (f 0)"
    using partir_palabra [OF w(2)] by simp
  also have "\<dots> = f 0 # map f [1..<n]" using w(1) by (simp only: partir_palabras [OF w(3)] if_False)
  finally show ?thesis unfolding split_whitespace_def c by (simp only: n list.map)
qed (simp add: split_whitespace_def)

lemma indices_plano:
  assumes "length bs = n * 11" and "\<And>i. i < length bs \<Longrightarrow> b i = of_bool (bs ! i)"
  shows "m \<le> n \<Longrightarrow> plano 11 (map (indice_en b) [0..<m]) = take (m * 11) bs"
proof (induction m)
  case (Suc m)
  then have "m * 11 + 11 \<le> length bs" using assms(1) by simp
  then have "bits_de 11 (indice_en b m) = take 11 (drop (m * 11) bs)"
    using assms(2) by (rule indice_en_bits)
  then show ?case using Suc by (simp add: take_add [of "m * 11" 11] add.commute [of 11])
qed simp

lemma escribir_palabras:
  assumes "length (sha datos) = 32" and "length datos \<in> set TAMANOS"
  obtains frase and idxs :: "u32 list" where "bip_escribir sha datos = Inr frase"
    "split_whitespace frase = map (\<lambda>i. bip_lista ! unat i) idxs"
    "plano 11 idxs = bits_del_secreto sha datos" "\<forall>i \<in> set idxs. unat i < 2048"
proof -
  let ?bs = "bits_del_secreto sha datos" and ?b = "bit_de datos (sha datos)"
  let ?n = "(length datos * 8 + length datos * 8 div 32) div 11"
  have len: "length datos \<le> 32" "length ?bs = ?n * 11"
    using assms by (auto simp: TAMANOS_def bits_del_secreto_def)
  have bits: "?b i = of_bool (?bs ! i)" if "i < length ?bs" for i
    using bit_de_plano [OF assms(1) len(1) that] .
  have less: "unat (indice_en ?b p) < 2048" if "p < ?n" for p
  proof -
    have "p * 11 + 11 \<le> length ?bs" using that unfolding len(2) by simp
    then show ?thesis using bits by (rule indice_en_bits(2))
  qed
  let ?f = "\<lambda>p. bip_lista ! unat (indice_en ?b p)" and ?is = "map (indice_en ?b) [0..<?n]"
  have "bip_escribir sha datos = Inr (concat (map (\<lambda>p. (if 0 < p then [32] else []) @ ?f p) [0..<?n]))"
  proof -
    have "frase_loop ?b [0..<?n] [] = Inr ([] @ concat (map (\<lambda>p. (if 0 < p then [32] else []) @ ?f p) [0..<?n]))"
      using less by (intro frase_loop_ok) simp
    then show ?thesis using assms(2) by (simp add: bip_escribir_def Let_def)
  qed
  moreover have "split_whitespace (concat (map (\<lambda>p. (if 0 < p then [32] else []) @ ?f p) [0..<?n])) = map ?f [0..<?n]"
    using less by (intro partir_frase) (auto simp: length_bip_lista)
  moreover have "plano 11 ?is = ?bs"
    using indices_plano [OF len(2) bits, of ?n] len(2) by simp
  ultimately show ?thesis using less by (intro that [of _ ?is]) (simp_all add: comp_def)
qed

text \<open>The bytes that are read: the bits of the words, and zeros to the end of the last byte.\<close>

lemma vaciar_ocho_bits:
  "vaciar_ocho acc n salida = (n', salida') \<Longrightarrow>
    n' < 8 \<and> plano 8 salida' @ bits_de n' acc = plano 8 salida @ bits_de n acc"
proof (induction acc n salida rule: vaciar_ocho.induct)
  case (1 acc n salida)
  show ?case
  proof (cases "8 \<le> n")
    case True
    let ?s = "ucast (drop_bit (n - 8) acc AND 0xff) :: u8"
    have "vaciar_ocho acc (n - 8) (salida @ [?s]) = (n', salida')"
      using "1.prems" True by (subst (asm) vaciar_ocho.simps) simp
    note IH = "1.IH" [OF True this]
    have "bits_de n acc = bits_de 8 ?s @ bits_de (n - 8) acc"
      using bits_de_split [of 8 "n - 8" acc] True by (simp add: mask_8 bits_de_ucast bits_de_mask)
    then show ?thesis using IH by simp
  next
    case False
    then have "n' = n" "salida' = salida" using "1.prems" by (subst (asm) vaciar_ocho.simps, simp)+
    then show ?thesis using False by simp
  qed
qed

lemma once_loop_bits:
  "n < 8 \<Longrightarrow> \<forall>i \<in> set idxs. unat i < 2048 \<Longrightarrow> \<exists>pad. length pad < 8 \<and> (\<forall>p \<in> set pad. \<not> p) \<and>
    plano 8 (once_loop idxs acc n salida) = plano 8 salida @ bits_de n acc @ plano 11 idxs @ pad"
proof (induction idxs acc n salida rule: once_loop.induct)
  case (1 acc n salida)
  have e: "bits_de 8 (ucast (push_bit (8 - n) acc AND 0xff) :: u8) = bits_de n acc @ replicate (8 - n) False"
    using 1 by (simp add: mask_8 bits_de_ucast bits_de_mask bits_de_push)
  show ?case
  proof (cases "0 < n")
    case True
    then show ?thesis using 1 e by (intro exI [of _ "replicate (8 - n) False"]) simp
  next
    case False
    then show ?thesis by (intro exI [of _ "[]"]) simp
  qed
next
  case (2 idx idxs acc n salida)
  let ?acc = "push_bit 11 acc OR idx"
  obtain n' salida' where v: "vaciar_ocho ?acc (n + 11) salida = (n', salida')" by fastforce
  note vb = vaciar_ocho_bits [OF v]
  have "bit idx k \<Longrightarrow> k < 11" for k using bit_less [of idx 11 k] "2.prems"(2) by simp
  then have "bits_de (n + 11) ?acc = bits_de n acc @ bits_de 11 idx"
    using "2.prems"(1) by (intro bits_de_shift_in) (auto simp: not_less [symmetric])
  then have e: "plano 8 salida' @ bits_de n' ?acc = plano 8 salida @ bits_de n acc @ bits_de 11 idx"
    using vb by simp
  obtain pad where pad: "length pad < 8" "\<forall>p \<in> set pad. \<not> p"
      "plano 8 (once_loop idxs ?acc n' salida') = plano 8 salida' @ bits_de n' ?acc @ plano 11 idxs @ pad"
    using "2.IH" [OF refl v [symmetric] refl] vb "2.prems"(2) by auto
  have "plano 8 (once_loop idxs ?acc n' salida') = plano 8 salida @ bits_de n acc @ plano 11 (idx # idxs) @ pad"
    unfolding pad(3) using e by (metis append.assoc plano_simps(2))
  then show ?case using pad(1,2) v by (auto simp: Let_def)
qed

text \<open>The high bits of a byte, by its mask.\<close>

lemma mascara_bits:
  assumes "s \<le> 8"
  shows "(x :: u8) AND push_bit (8 - s) 0xff = y AND push_bit (8 - s) 0xff \<longleftrightarrow> take s (bits_de 8 x) = take s (bits_de 8 y)"
proof
  assume eq: "x AND push_bit (8 - s) 0xff = y AND push_bit (8 - s) 0xff"
  have "bit x k = bit y k" if k: "8 - s \<le> k" "k < 8" for k
  proof -
    have "bit (x AND push_bit (8 - s) 0xff) k = bit x k" "bit (y AND push_bit (8 - s) 0xff) k = bit y k"
      using k by (auto simp: mask_8 bit_simps)
    then show ?thesis using eq by simp
  qed
  then show "take s (bits_de 8 x) = take s (bits_de 8 y)"
    using assms by (intro nth_equalityI) (simp_all add: bits_de_nth)
next
  assume eq: "take s (bits_de 8 x) = take s (bits_de 8 y)"
  have "bit x k = bit y k" if k: "8 - s \<le> k" "k < 8" for k
  proof -
    have "7 - k < s" "7 - (7 - k) = k" using k by simp_all
    moreover have "take s (bits_de 8 x) ! (7 - k) = take s (bits_de 8 y) ! (7 - k)" by (simp only: eq)
    ultimately show ?thesis by (simp add: bits_de_nth)
  qed
  then show "x AND push_bit (8 - s) 0xff = y AND push_bit (8 - s) 0xff"
    by (intro bit_word_eqI) (auto simp: mask_8 bit_simps)
qed

section \<open>The reader is exact\<close>

text \<open>What was typed for a word: the word or four or more of its first letters, in any case.\<close>

definition tecleada :: "char32 list \<Rightarrow> char32 list \<Rightarrow> bool" where
  "tecleada w cruda \<longleftrightarrow> aceptada w (limpia cruda)"

lemma bytes_de_palabras_iff:
  "bytes_de_palabras n = Some bs \<longleftrightarrow> bs \<in> set TAMANOS \<and> n * 11 = bs * 8 + bs div 4"
proof
  assume "bytes_de_palabras n = Some bs"
  then show "bs \<in> set TAMANOS \<and> n * 11 = bs * 8 + bs div 4"
    by (auto simp: bytes_de_palabras_def TAMANOS_def split: if_splits)
next
  assume h: "bs \<in> set TAMANOS \<and> n * 11 = bs * 8 + bs div 4"
  then have "bs = 16 \<or> bs = 20 \<or> bs = 24 \<or> bs = 28 \<or> bs = 32" by (auto simp: TAMANOS_def)
  then have "bs = 16 \<and> n = 12 \<or> bs = 20 \<and> n = 15 \<or> bs = 24 \<and> n = 18 \<or> bs = 28 \<and> n = 21 \<or> bs = 32 \<and> n = 24"
    using h by (elim disjE) simp_all
  then show "bytes_de_palabras n = Some bs" by (auto simp: bytes_de_palabras_def)
qed

lemma plano_once_inj:
  "\<forall>i \<in> set us. unat i < 2048 \<Longrightarrow> \<forall>i \<in> set vs. unat i < 2048 \<Longrightarrow>
    plano 11 us = plano 11 (vs :: u32 list) \<Longrightarrow> us = vs"
proof (induction us arbitrary: vs)
  case Nil
  then show ?case by (cases vs) (auto dest!: arg_cong [of _ _ length])
next
  case (Cons u us)
  show ?case
  proof (cases vs)
    case Nil
    then show ?thesis using Cons.prems by (auto dest!: arg_cong [of _ _ length])
  next
    case (Cons v vs')
    then have "bits_de 11 u @ plano 11 us = bits_de 11 v @ plano 11 vs'" using Cons.prems(3) by simp
    then have e: "bits_de 11 u = bits_de 11 v" "plano 11 us = plano 11 vs'"
      by (simp_all only: append_eq_append_conv length_bits_de simp_thms)
    have "bit u k \<Longrightarrow> k < 11" "bit v k \<Longrightarrow> k < 11" for k
      using bit_less [of u 11 k] bit_less [of v 11 k] Cons.prems Cons by simp_all
    then have "u = v" using e(1) unfolding bits_de_eq_iff by (intro bit_word_eqI) blast
    then show ?thesis using Cons e(2) Cons.IH [of vs'] Cons.prems by simp
  qed
qed

lemma ocho_mas: "8 * l = 8 * b + (s + p) \<Longrightarrow> 4 \<le> s \<Longrightarrow> s \<le> 8 \<Longrightarrow> p < 8 \<Longrightarrow> l = b + (1 :: nat)"
  by arith

text \<open>The check on the way back is that the words carry the secret's bits.\<close>

lemma suma_exacta:
  fixes idxs :: "u32 list"
  assumes sha: "length (sha (take bs (once_loop idxs 0 0 []))) = 32"
    and bs: "bs \<in> set TAMANOS" "length idxs * 11 = bs * 8 + bs div 4" and i: "\<forall>i \<in> set idxs. unat i < 2048"
  defines "pl \<equiv> once_loop idxs 0 0 []" and "m \<equiv> push_bit (8 - bs * 8 div 32) 0xff"
  shows "length (take bs pl) = bs"
    and "plano 8 (take bs pl) = take (8 * bs) (plano 11 idxs)"
    and "pl ! bs AND m = sha (take bs pl) ! 0 AND m \<longleftrightarrow> plano 11 idxs = bits_del_secreto sha (take bs pl)"
proof -
  let ?s = "bs div 4" and ?e = "take bs pl"
  have s: "4 \<le> ?s" "?s \<le> 8" using bs(1) by (auto simp: TAMANOS_def)
  obtain pad where pad: "length pad < 8" "plano 8 pl = plano 11 idxs @ pad"
    using once_loop_bits [of 0 idxs 0 "[]"] i unfolding pl_def by auto
  have "8 * length pl = length idxs * 11 + length pad"
    using arg_cong [OF pad(2), of length] by simp
  then have "8 * length pl = 8 * bs + (?s + length pad)" using bs(2) by simp
  then have len: "length pl = bs + 1" using s pad(1) by (rule ocho_mas)
  then show le: "length ?e = bs" by simp
  have "take (Suc bs) pl = ?e @ [pl ! bs]" using len by (intro take_Suc_conv_app_nth) simp
  then have pl: "pl = ?e @ [pl ! bs]" using len by simp
  have split: "plano 8 ?e @ bits_de 8 (pl ! bs) = plano 11 idxs @ pad"
    using arg_cong [OF pl, of "plano 8"] pad(2) by simp
  have l11: "length (plano 11 idxs) = 8 * bs + ?s" using bs(2) by simp
  have "take (8 * bs) (plano 8 ?e @ bits_de 8 (pl ! bs)) = plano 8 ?e" using le by simp
  then show "plano 8 ?e = take (8 * bs) (plano 11 idxs)" unfolding split using l11 by simp
  have "take (8 * bs + ?s) (plano 8 ?e @ bits_de 8 (pl ! bs)) = plano 8 ?e @ take ?s (bits_de 8 (pl ! bs))"
    using le by simp
  then have p11: "plano 11 idxs = plano 8 ?e @ take ?s (bits_de 8 (pl ! bs))" unfolding split using l11 by simp
  obtain h hs where h: "sha ?e = h # hs" using sha unfolding pl_def by (cases "sha (take bs (once_loop idxs 0 0 []))") auto
  have b: "bits_del_secreto sha ?e = plano 8 ?e @ take ?s (bits_de 8 (sha ?e ! 0))"
    unfolding bits_del_secreto_def le using s by (simp add: h)
  show "pl ! bs AND m = sha ?e ! 0 AND m \<longleftrightarrow> plano 11 idxs = bits_del_secreto sha ?e"
    unfolding p11 b m_def using mascara_bits [OF s(2)] by simp
qed

lemma bip_leer_iff:
  assumes "\<And>m. length (sha m) = 32"
  shows "bip_leer sha t = Inr d \<longleftrightarrow>
    (\<exists>idxs :: u32 list. length d \<in> set TAMANOS \<and> (\<forall>i \<in> set idxs. unat i < 2048) \<and>
      plano 11 idxs = bits_del_secreto sha d \<and>
      list_all2 (\<lambda>cruda idx. tecleada (bip_lista ! unat idx) cruda) (split_whitespace t) idxs)"
    (is "_ \<longleftrightarrow> (\<exists>idxs. ?P idxs)")
proof -
  let ?c = "split_whitespace t"
  let ?m = "\<lambda>bs. push_bit (8 - bs * 8 div 32) 0xff :: u8"
  have uses: "list_all2 (\<lambda>cruda (idx :: u32). unat idx < 2048 \<and> aceptada (bip_lista ! unat idx) (limpia cruda)) ?c idxs
      \<longleftrightarrow> (\<forall>i \<in> set idxs. unat i < 2048) \<and> list_all2 (\<lambda>cruda idx. tecleada (bip_lista ! unat idx) cruda) ?c idxs" for idxs
    by (auto simp: tecleada_def list_all2_conv_all_nth all_set_conv_all_nth)
  show ?thesis
  proof
    assume r: "bip_leer sha t = Inr d"
    then obtain bs idxs where b: "bytes_de_palabras (length ?c) = Some bs" and idx: "indices_loop ?c 0 = Inr idxs"
      and e: "once_loop idxs 0 0 [] ! bs AND ?m bs = sha (take bs (once_loop idxs 0 0 [])) ! 0 AND ?m bs"
      and d: "d = take bs (once_loop idxs 0 0 [])"
      by (auto simp: bip_leer_def Let_def split: if_splits option.splits sum.splits)
    from idx have la: "\<forall>i \<in> set idxs. unat i < 2048" "list_all2 (\<lambda>cruda idx. tecleada (bip_lista ! unat idx) cruda) ?c idxs"
      unfolding indices_loop_iff uses by simp_all
    then have len: "length idxs = length ?c" by (auto dest: list_all2_lengthD)
    have bs: "bs \<in> set TAMANOS" "length idxs * 11 = bs * 8 + bs div 4" using b unfolding bytes_de_palabras_iff len by simp_all
    note S = suma_exacta [where sha = sha, OF assms bs la(1)]
    have "?P idxs" using S(1) S(3) e la bs(1) unfolding d by simp
    then show "\<exists>idxs. ?P idxs" by blast
  next
    assume "\<exists>idxs. ?P idxs"
    then obtain idxs where P: "?P idxs" by blast
    let ?bs = "length d"
    have len: "length idxs = length ?c" using P by (auto dest: list_all2_lengthD)
    have "?bs \<le> 32" using P by (auto simp: TAMANOS_def)
    then have "length (plano 11 idxs) = 8 * ?bs + ?bs div 4"
      using P assms [of d] by (simp add: bits_del_secreto_def)
    then have n: "length idxs * 11 = ?bs * 8 + ?bs div 4" by simp
    have b: "bytes_de_palabras (length ?c) = Some ?bs" unfolding bytes_de_palabras_iff using n len P by simp
    have ne: "?c \<noteq> []" using b by (auto simp: bytes_de_palabras_def)
    have idx: "indices_loop ?c 0 = Inr idxs" unfolding indices_loop_iff uses using P by simp
    have TAM: "?bs \<in> set TAMANOS" and lim: "\<forall>i \<in> set idxs. unat i < 2048" using P by simp_all
    note S = suma_exacta [where sha = sha, OF assms TAM n lim]
    have "plano 8 (take ?bs (once_loop idxs 0 0 [])) = plano 8 d"
      using S(2) P by (simp add: bits_del_secreto_def)
    then have d: "take ?bs (once_loop idxs 0 0 []) = d"
      using plano_unique [of "take ?bs (once_loop idxs 0 0 [])" "[]" d "[]"] by simp
    then have "once_loop idxs 0 0 [] ! ?bs AND ?m ?bs = sha d ! 0 AND ?m ?bs" using S(3) P by simp
    then show "bip_leer sha t = Inr d"
      using ne b idx d by (simp add: bip_leer_def Let_def)
  qed
qed

lemma list_all2_lista:
  "list_all2 P xs (map (\<lambda>i. bip_lista ! unat i) idxs) \<longleftrightarrow> list_all2 (\<lambda>x i. P x (bip_lista ! unat i)) xs idxs"
  by (simp add: list_all2_map2)

text \<open>
  C27.  What the reader of phrases accepts is exact: it returns a secret precisely if the text is the
  phrase of that secret, typed word for word in any case and with any layout, each word whole or cut
  after four or more of its letters.  In particular it reads back every phrase, and a text that
  stands for no phrase (an unknown or an ambiguous word, a wrong count, a checksum that does not
  fit) gives an error and no byte.  This rests on the embedded list of 2048 words.
\<close>
theorem palabras_reader_is_exact:
  assumes "\<And>m. length (sha m) = 32"
  shows "bip_leer sha t = Inr d \<longleftrightarrow>
    (\<exists>frase. bip_escribir sha d = Inr frase \<and>
      list_all2 tecleada (split_whitespace frase) (split_whitespace t))"
proof -
  note iff = bip_leer_iff [where sha = sha, OF assms, of t d]
  show ?thesis
  proof
    assume "bip_leer sha t = Inr d"
    then obtain idxs :: "u32 list" where i: "length d \<in> set TAMANOS" "\<forall>i \<in> set idxs. unat i < 2048"
        "plano 11 idxs = bits_del_secreto sha d"
        "list_all2 (\<lambda>cruda idx. tecleada (bip_lista ! unat idx) cruda) (split_whitespace t) idxs"
      unfolding iff by blast
    obtain frase and js :: "u32 list" where f: "bip_escribir sha d = Inr frase"
        "split_whitespace frase = map (\<lambda>i. bip_lista ! unat i) js"
        "plano 11 js = bits_del_secreto sha d" "\<forall>i \<in> set js. unat i < 2048"
      using escribir_palabras [where sha = sha, OF assms i(1)] by blast
    have "js = idxs" using plano_once_inj [OF f(4) i(2)] f(3) i(3) by simp
    then have "list_all2 (\<lambda>c w. tecleada w c) (split_whitespace t) (split_whitespace frase)"
      using i(4) unfolding f(2) list_all2_lista by simp
    then show "\<exists>frase. bip_escribir sha d = Inr frase \<and>
        list_all2 tecleada (split_whitespace frase) (split_whitespace t)"
      using f(1) by (auto simp: list_all2_conv_all_nth)
  next
    assume "\<exists>frase. bip_escribir sha d = Inr frase \<and>
        list_all2 tecleada (split_whitespace frase) (split_whitespace t)"
    then obtain frase where f: "bip_escribir sha d = Inr frase"
        "list_all2 tecleada (split_whitespace frase) (split_whitespace t)" by blast
    have l: "length d \<in> set TAMANOS" using f(1) by (simp add: bip_escribir_def split: if_splits)
    obtain frase' and js :: "u32 list" where j: "bip_escribir sha d = Inr frase'"
        "split_whitespace frase' = map (\<lambda>i. bip_lista ! unat i) js"
        "plano 11 js = bits_del_secreto sha d" "\<forall>i \<in> set js. unat i < 2048"
      using escribir_palabras [where sha = sha, OF assms l] by blast
    have "list_all2 (\<lambda>c w. tecleada w c) (split_whitespace t) (split_whitespace frase')"
      using f j(1) by (auto simp: list_all2_conv_all_nth)
    then show "bip_leer sha t = Inr d"
      unfolding iff j(2) list_all2_lista using l j(3,4) by blast
  qed
qed

text \<open>Sixteen zero bytes under a hash of zeros: twelve times the first word, typed by its first letters.\<close>

definition abandon_12 :: "char32 list" where
  "abandon_12 = concat (map (Cons 32) (replicate 12 (map of_char ''ABan'')))"

lemma bip_lista_0: "bip_lista ! 0 = map of_char ''abandon''"
  using length_LISTA by (simp only: bip_lista_def nth_map LISTA_abandon)

lemma plano_ceros: "plano k (replicate n 0) = replicate (k * n) False"
proof (induction n)
  case (Suc n)
  have "bits_de k 0 = replicate k False" by (intro nth_equalityI) (simp_all add: bits_de_nth)
  then show ?case using Suc by (simp add: replicate_add)
qed simp

lemma indice_ceros: "p < 12 \<Longrightarrow> indice_en (bit_de (replicate 16 0) (replicate 32 0)) p = 0"
proof -
  assume p: "p < 12"
  let ?bs = "bits_del_secreto (\<lambda>_. replicate 32 0) (replicate 16 0)"
  have z: "?bs = replicate 132 False"
    unfolding bits_del_secreto_def plano_ceros length_replicate take_replicate replicate_add [symmetric] by simp
  have b: "bit_de (replicate 16 0) (replicate 32 0) i = of_bool (?bs ! i)" if "i < length ?bs" for i
    using bit_de_plano [of "\<lambda>_. replicate 32 0" "replicate 16 0" i] that by simp
  have "p * 11 + 11 \<le> length ?bs" using p unfolding z by simp
  from indice_en_bits [OF this b]
  have r: "bits_de 11 (indice_en (bit_de (replicate 16 0) (replicate 32 0)) p) = take 11 (drop (p * 11) (replicate 132 False))"
    and l: "unat (indice_en (bit_de (replicate 16 0) (replicate 32 0)) p) < 2048"
    unfolding z by blast+
  have "take 11 (drop (p * 11) (replicate 132 False)) = bits_de 11 (0 :: u32)"
    using p by (intro nth_equalityI) (simp_all add: bits_de_nth)
  with r have "\<not> bit (indice_en (bit_de (replicate 16 0) (replicate 32 0)) p) k" if "k < 11" for k
    using that by (metis bits_de_eq_iff bit_0_eq bot_apply bot_bool_def)
  moreover have "\<not> bit (indice_en (bit_de (replicate 16 0) (replicate 32 0)) p) k" if "\<not> k < 11" for k
    using bit_less [of _ 11 k] l that by fastforce
  ultimately have "\<not> bit (indice_en (bit_de (replicate 16 0) (replicate 32 0)) p) k" for k by blast
  then show ?thesis by (intro bit_word_eqI) simp
qed

theorem palabras_reader_is_exact_witness:
  "bip_leer (\<lambda>_. replicate 32 0) abandon_12 = Inr (replicate 16 0)"
proof -
  let ?f = "\<lambda>p. bip_lista ! unat (indice_en (bit_de (replicate 16 0) (replicate 32 0)) p)"
  let ?fr = "concat (map (\<lambda>p. (if 0 < p then [32] else []) @ ?f p) [0..<12])"
  have f: "?f p = map of_char ''abandon''" if "p < 12" for p
    using indice_ceros [OF that] bip_lista_0 by simp
  have "frase_loop (bit_de (replicate 16 0) (replicate 32 0)) [0..<12] [] = Inr ([] @ ?fr)"
    by (intro frase_loop_ok) (simp add: indice_ceros del: upt_rec_numeral)
  then have e: "bip_escribir (\<lambda>_. replicate 32 0) (replicate 16 0) = Inr ?fr"
    by (simp add: bip_escribir_def TAMANOS_def del: upt_rec_numeral)
  have "split_whitespace ?fr = map ?f [0..<12]"
    by (rule partir_frase) (simp add: indice_ceros length_bip_lista)
  also have "\<dots> = replicate 12 (map of_char ''abandon'')"
    using f by (intro nth_equalityI) (simp_all del: upt_rec_numeral)
  finally have s: "split_whitespace ?fr = replicate 12 (map of_char ''abandon'')" .
  have t: "split_whitespace abandon_12 = replicate 12 (map of_char ''ABan'')"
  proof -
    have "palabra_32 (map of_char ''ABan'')" by (simp add: palabra_32_def is_whitespace_def word_le_nat_alt)
    then have "list_all palabra_32 (replicate 12 (map of_char ''ABan''))" by (simp only: list_all_iff set_replicate_conv_if ball_simps split: if_split) simp
    then show ?thesis unfolding abandon_12_def split_whitespace_def by (simp only: partir_palabras simp_thms if_True)
  qed
  have "tecleada (map of_char ''abandon'') (map of_char ''ABan'')"
    by (simp add: tecleada_def aceptada_def limpia_def empieza_por_def PREFIJO_SUFICIENTE_def
        is_ascii_alphabetic_def to_ascii_lowercase_def word_le_nat_alt)
  then have "list_all2 tecleada (split_whitespace ?fr) (split_whitespace abandon_12)"
    unfolding s t by (simp add: list_all2_conv_all_nth)
  then show ?thesis
    using palabras_reader_is_exact [of "\<lambda>_. replicate 32 0" abandon_12 "replicate 16 0"] e by auto
qed

end
