(* ===== verification/Cnsa.thy ===== *)
theory Cnsa
  imports Api Hexutil Instances
begin

text \<open>
  \<^verbatim>\<open>crates/quipu-cnsa\<close>, the profile of the algorithms of CNSA 2.0: \<^verbatim>\<open>kdf.rs\<close>, \<^verbatim>\<open>cipher.rs\<close>,
  \<^verbatim>\<open>dictionary.rs\<close>, the container with the profile (16, 12) and \<^verbatim>\<open>api.rs\<close>.  Argon2id, HKDF-SHA384,
  SHA-384 and AES-256-GCM are the fields of the record \<open>cnsa\<close>.  The operations of this profile are
  named \<open>cnsa_\<close>\dots; the padding and the container format are those of \<^verbatim>\<open>quipu-nucleo\<close>.
  The profile draws from the system directly, without the health test of \<open>Aleatorio\<close>.
\<close>

section \<open>The primitives\<close>

record cnsa =
  cn_nfkc :: "char32 list \<Rightarrow> char32 list"
  cn_argon2id :: "u32 \<Rightarrow> u32 \<Rightarrow> u32 \<Rightarrow> bytes \<Rightarrow> bytes \<Rightarrow> bytes option"
  hkdf_sha384 :: "bytes option \<Rightarrow> bytes \<Rightarrow> bytes \<Rightarrow> nat \<Rightarrow> bytes option"
  aes_encrypt :: "bytes \<Rightarrow> bytes \<Rightarrow> bytes \<Rightarrow> bytes \<Rightarrow> bytes option"
  aes_decrypt :: "bytes \<Rightarrow> bytes \<Rightarrow> bytes \<Rightarrow> bytes \<Rightarrow> bytes option"
  sha384 :: "bytes \<Rightarrow> bytes"

text \<open>AES-GCM (SP 800-38D) seals up to \<open>2^36 - 32\<close> bytes; HKDF-SHA384 expands up to \<open>255 * 48\<close>.\<close>

definition GCM_LIMIT :: nat where
  "GCM_LIMIT = 2 ^ 36 - 31"

definition cnsa_ok :: "'c cnsa_scheme \<Rightarrow> bool" where
  "cnsa_ok N \<longleftrightarrow>
     argon2id_ok (cn_argon2id N) \<and>
     (\<forall>salt ikm info len. len \<le> 255 * 48 \<longrightarrow> (\<exists>k. hkdf_sha384 N salt ikm info len = Some k \<and> length k = len)) \<and>
     aead_ok GCM_LIMIT (aes_encrypt N) (aes_decrypt N) \<and>
     (\<forall>m. length (sha384 N m) = 48)"

section \<open>Derivation\<close>

definition CNSA_MAX_MEM_KIB :: u32 where
  "CNSA_MAX_MEM_KIB = 256 * 1024"

definition CNSA_MAX_ITERATIONS :: u32 where
  "CNSA_MAX_ITERATIONS = 32"

definition CNSA_MAX_PARALLELISM :: u32 where
  "CNSA_MAX_PARALLELISM = 16"

definition cnsa_params_default :: kdf_params where
  "cnsa_params_default = \<lparr>mem_kib = 65536, iterations = 3, parallelism = 1\<rparr>"

text \<open>As in \<open>is_sane\<close>, the product is reached with a parallelism of sixteen at most.\<close>

definition cnsa_is_sane :: "kdf_params \<Rightarrow> bool" where
  "cnsa_is_sane p \<longleftrightarrow>
     1 \<le> parallelism p \<and> parallelism p \<le> CNSA_MAX_PARALLELISM \<and>
     1 \<le> iterations p \<and> iterations p \<le> CNSA_MAX_ITERATIONS \<and>
     8 * parallelism p \<le> mem_kib p \<and> mem_kib p \<le> CNSA_MAX_MEM_KIB"

definition cnsa_derive_master_key ::
  "'c cnsa_scheme \<Rightarrow> char32 list \<Rightarrow> bytes \<Rightarrow> bytes \<Rightarrow> kdf_params \<Rightarrow> bytes option" where
  "cnsa_derive_master_key N passphrase salt pepper params =
     (let normalized = cn_nfkc N passphrase;
          secret = utf8 normalized @ pepper
      in cn_argon2id N (mem_kib params) (iterations params) (parallelism params) secret salt)"

definition cnsa_derive_subkey :: "'c cnsa_scheme \<Rightarrow> bytes \<Rightarrow> bytes \<Rightarrow> bytes option" where
  "cnsa_derive_subkey N master info = hkdf_sha384 N None master info KEY_LEN"

definition cnsa_derive_stream :: "'c cnsa_scheme \<Rightarrow> bytes \<Rightarrow> bytes \<Rightarrow> nat \<Rightarrow> bytes option" where
  "cnsa_derive_stream N master info len = hkdf_sha384 N None master info len"

section \<open>Cipher, fingerprint and container\<close>

definition CNSA_NONCE_LEN :: nat where
  "CNSA_NONCE_LEN = 12"

definition CNSA_SALT_LEN :: nat where
  "CNSA_SALT_LEN = 16"

datatype cnsa_cipher_error = CnsaDecryptFailed

definition cnsa_encrypt :: "'c cnsa_scheme \<Rightarrow> bytes \<Rightarrow> bytes \<Rightarrow> bytes \<Rightarrow> bytes \<Rightarrow> bytes option" where
  "cnsa_encrypt N key nonce plaintext aad = aes_encrypt N key nonce plaintext aad"

definition cnsa_decrypt ::
  "'c cnsa_scheme \<Rightarrow> bytes \<Rightarrow> bytes \<Rightarrow> bytes \<Rightarrow> bytes \<Rightarrow> cnsa_cipher_error + bytes" where
  "cnsa_decrypt N key nonce ciphertext aad =
     (case aes_decrypt N key nonce ciphertext aad of None \<Rightarrow> Inl CnsaDecryptFailed | Some p \<Rightarrow> Inr p)"

definition cnsa_fingerprint :: "'c cnsa_scheme \<Rightarrow> dictionary \<Rightarrow> bytes" where
  "cnsa_fingerprint N d = take 8 (sha384 N (bytes_canonicos d))"

definition cnsa_serialize :: "header \<Rightarrow> bytes \<Rightarrow> bytes" where
  "cnsa_serialize = container_serialize"

definition cnsa_parse :: "bytes \<Rightarrow> container_error + header \<times> bytes" where
  "cnsa_parse = container_parse CNSA_SALT_LEN CNSA_NONCE_LEN"

section \<open>Encoding and decoding\<close>

definition CNSA_SUBKEY_INFO :: bytes where
  "CNSA_SUBKEY_INFO = ascii ''quipu-cnsa/v1/cipher''"

datatype cnsa_sin_entropia = CnsaSinEntropia

datatype cnsa_decode_error =
    CnsaContainer container_error
  | CnsaCodebookMismatch
  | CnsaDecrypt

record cnsa_options =
  cnopt_kdf_params :: kdf_params
  cnopt_pepper :: bytes
  cnopt_codebook_id :: u16

definition cnsa_options_default :: cnsa_options where
  "cnsa_options_default = \<lparr>cnopt_kdf_params = cnsa_params_default, cnopt_pepper = [], cnopt_codebook_id = 0\<rparr>"

text \<open>\<^verbatim>\<open>getrandom::fill(\<dots>).map_err(|_| SinEntropia)\<close>.\<close>

definition getrandom_fill :: "'r fuente \<Rightarrow> nat \<Rightarrow> 'r \<Rightarrow> (cnsa_sin_entropia + bytes) \<times> 'r" where
  "getrandom_fill fuente n r =
     (case fuente r n of (Inl _, r) \<Rightarrow> (Inl CnsaSinEntropia, r) | (Inr b, r) \<Rightarrow> (Inr b, r))"

definition cnsa_header :: "bytes \<Rightarrow> kdf_params \<Rightarrow> bytes \<Rightarrow> bytes \<Rightarrow> header" where
  "cnsa_header codebook_fingerprint params salt nonce =
     \<lparr>hdr_version = container_VERSION,
      hdr_flags = 0,
      hdr_codebook_id = 0,
      hdr_codebook_hash_prefix = codebook_fingerprint,
      hdr_salt = salt,
      hdr_nonce = nonce,
      hdr_kdf_mem_kib = mem_kib params,
      hdr_kdf_iterations = iterations params,
      hdr_kdf_parallelism = parallelism params\<rparr>"

definition cnsa_encode_to_blob ::
  "'c cnsa_scheme \<Rightarrow> 'r fuente \<Rightarrow> bytes \<Rightarrow> char32 list \<Rightarrow> bytes \<Rightarrow> cnsa_options \<Rightarrow> 'r \<Rightarrow>
    ((cnsa_sin_entropia + bytes) \<times> 'r) option" where
  "cnsa_encode_to_blob N fuente data passphrase codebook_fingerprint opts r =
     (case getrandom_fill fuente CNSA_SALT_LEN r of
        (Inl e, r) \<Rightarrow> Some (Inl e, r)
      | (Inr salt, r) \<Rightarrow>
          (case getrandom_fill fuente CNSA_NONCE_LEN r of
             (Inl e, r) \<Rightarrow> Some (Inl e, r)
           | (Inr nonce, r) \<Rightarrow>
               do {
                 master \<leftarrow> cnsa_derive_master_key N passphrase salt (cnopt_pepper opts) (cnopt_kdf_params opts);
                 cipher_key \<leftarrow> cnsa_derive_subkey N master CNSA_SUBKEY_INFO;
                 let header = cnsa_header codebook_fingerprint (cnopt_kdf_params opts) salt nonce;
                 padded \<leftarrow> prelayers_pad data;
                 let aad = header_to_bytes header;
                 ciphertext \<leftarrow> cnsa_encrypt N cipher_key nonce padded aad;
                 Some (Inr (cnsa_serialize header ciphertext), r)
               }))"

definition cnsa_decode_from_blob ::
  "'c cnsa_scheme \<Rightarrow> bytes \<Rightarrow> char32 list \<Rightarrow> bytes \<Rightarrow> bytes \<Rightarrow> (cnsa_decode_error + bytes) option" where
  "cnsa_decode_from_blob N blob passphrase expected_fingerprint pepper =
     (case cnsa_parse blob of
        Inl e \<Rightarrow> Some (Inl (CnsaContainer e))
      | Inr (header, ciphertext) \<Rightarrow>
          if hdr_codebook_hash_prefix header \<noteq> expected_fingerprint then Some (Inl CnsaCodebookMismatch)
          else
            let params = header_params header
            in if \<not> cnsa_is_sane params then Some (Inl CnsaDecrypt)
               else do {
                 master \<leftarrow> cnsa_derive_master_key N passphrase (hdr_salt header) pepper params;
                 cipher_key \<leftarrow> cnsa_derive_subkey N master CNSA_SUBKEY_INFO;
                 let aad = header_to_bytes header;
                 Some (case cnsa_decrypt N cipher_key (hdr_nonce header) ciphertext aad of
                         Inl _ \<Rightarrow> Inl CnsaDecrypt
                       | Inr padded \<Rightarrow>
                           (case prelayers_unpad padded of Inl _ \<Rightarrow> Inl CnsaDecrypt | Inr d \<Rightarrow> Inr d))
               })"

section \<open>The primitives do what the operations need\<close>

lemma cnsa_okD:
  assumes "cnsa_ok N"
  shows "argon2id_ok (cn_argon2id N)" and "aead_ok GCM_LIMIT (aes_encrypt N) (aes_decrypt N)"
    and "length (sha384 N m) = 48"
    and "len \<le> 12240 \<Longrightarrow> \<exists>k. hkdf_sha384 N salt ikm info len = Some k \<and> length k = len"
  using assms by (simp_all add: cnsa_ok_def)

interpretation aes: aead "cnsa_ok N" GCM_LIMIT "aes_encrypt N" "aes_decrypt N" for N
  by unfold_locales (rule cnsa_okD(2))

lemma cnsa_decrypt_iff:
  "cnsa_ok N \<Longrightarrow> cnsa_decrypt N k n c a = Inr p \<longleftrightarrow> cnsa_encrypt N k n p a = Some c"
  by (auto simp: cnsa_decrypt_def cnsa_encrypt_def aes.opens_iff [symmetric] split: option.splits)

lemma cnsa_subkey_total: "cnsa_ok N \<Longrightarrow> \<exists>k. cnsa_derive_subkey N m info = Some k \<and> length k = KEY_LEN"
  by (simp add: cnsa_derive_subkey_def KEY_LEN_def cnsa_okD(4))

lemma cnsa_is_sane_unat:
  "cnsa_is_sane p \<longleftrightarrow>
    1 \<le> unat (parallelism p) \<and> unat (parallelism p) \<le> 16 \<and>
    1 \<le> unat (iterations p) \<and> unat (iterations p) \<le> 32 \<and>
    8 * unat (parallelism p) \<le> unat (mem_kib p) \<and> unat (mem_kib p) \<le> 262144"
proof (cases "unat (parallelism p) \<le> 16")
  case True
  then have "unat (8 * parallelism p) = 8 * unat (parallelism p)"
    by (simp add: unat_word_ariths)
  then show ?thesis
    by (simp add: cnsa_is_sane_def word_le_nat_alt CNSA_MAX_PARALLELISM_def CNSA_MAX_ITERATIONS_def
        CNSA_MAX_MEM_KIB_def)
next
  case False
  then show ?thesis by (simp add: cnsa_is_sane_def word_le_nat_alt CNSA_MAX_PARALLELISM_def)
qed

text \<open>What is sane in one profile is sane in the other, except for the passes.\<close>

lemma sane_profiles: "is_sane p \<longleftrightarrow> cnsa_is_sane p \<and> unat (iterations p) \<le> 16"
  unfolding is_sane_unat cnsa_is_sane_unat by linarith

lemma argon2id_total:
  assumes "argon2id_ok kdf" and "1 \<le> unat p" "unat p < 2 ^ 24" "1 \<le> unat t" "8 * unat p \<le> unat m"
    and "length secret < 2 ^ 32" "8 \<le> length salt" "length salt < 2 ^ 32"
  shows "\<exists>k. kdf m t p secret salt = Some k"
proof -
  have "1 \<le> p" "p < 2 ^ 24" "1 \<le> t" using assms by (simp_all add: word_less_nat_alt word_le_nat_alt)
  then show ?thesis using assms unfolding argon2id_ok_def by blast
qed

lemma cnsa_master_total:
  assumes "cnsa_ok N" and "cnsa_is_sane params" and "length salt = 16"
    and "length (utf8 (cn_nfkc N pw)) + length pepper < 2 ^ 32"
  shows "\<exists>k. cnsa_derive_master_key N pw salt pepper params = Some k"
  unfolding cnsa_derive_master_key_def Let_def
  using assms by (intro argon2id_total cnsa_okD(1)) (simp_all add: cnsa_is_sane_unat)

lemma getrandom_fill_Inr: "fuente_ok fuente \<Longrightarrow> getrandom_fill fuente n r = (Inr b, r') \<Longrightarrow> length b = n"
  by (auto simp: getrandom_fill_def fuente_ok_def split: prod.splits sum.splits)

lemma cnsa_header_ok:
  "length fp = 8 \<Longrightarrow> length salt = 16 \<Longrightarrow> length nonce = 12 \<Longrightarrow>
    header_ok CNSA_SALT_LEN CNSA_NONCE_LEN (cnsa_header fp params salt nonce)"
  by (simp add: header_ok_def header_wf_def cnsa_header_def CNSA_SALT_LEN_def CNSA_NONCE_LEN_def)

lemma cnsa_header_sel [simp]:
  "hdr_codebook_hash_prefix (cnsa_header fp params salt nonce) = fp"
  "hdr_salt (cnsa_header fp params salt nonce) = salt" "hdr_nonce (cnsa_header fp params salt nonce) = nonce"
  "header_params (cnsa_header fp params salt nonce) = params"
  by (simp_all add: cnsa_header_def header_params_def)

section \<open>Properties\<close>

text \<open>A blob that opens: a header of this profile and the sealing of a frame of the data under it.\<close>

definition cnsa_sellado ::
  "'c cnsa_scheme \<Rightarrow> char32 list \<Rightarrow> bytes \<Rightarrow> bytes \<Rightarrow> bytes \<Rightarrow> bytes \<Rightarrow> header \<Rightarrow> bool" where
  "cnsa_sellado N pw fp pepper data blob h \<longleftrightarrow>
     header_ok CNSA_SALT_LEN CNSA_NONCE_LEN h \<and> hdr_codebook_hash_prefix h = fp \<and>
     cnsa_is_sane (header_params h) \<and>
     (\<exists>master key padded ct.
        cnsa_derive_master_key N pw (hdr_salt h) pepper (header_params h) = Some master \<and>
        cnsa_derive_subkey N master CNSA_SUBKEY_INFO = Some key \<and>
        prelayers_unpad padded = Inr data \<and>
        aes_encrypt N key (hdr_nonce h) padded (header_to_bytes h) = Some ct \<and>
        blob = header_to_bytes h @ ct)"

lemma cnsa_decode_Inr:
  assumes N: "cnsa_ok N" and d: "cnsa_decode_from_blob N blob pw fp pepper = Some (Inr data)"
  shows "\<exists>h. cnsa_sellado N pw fp pepper data blob h"
proof -
  obtain h ct where p: "cnsa_parse blob = Inr (h, ct)"
    using d by (auto simp: cnsa_decode_from_blob_def split: sum.splits)
  have h: "hdr_codebook_hash_prefix h = fp" "cnsa_is_sane (header_params h)"
    using d p by (auto simp: cnsa_decode_from_blob_def Let_def split: if_splits)
  then obtain master key where k: "cnsa_derive_master_key N pw (hdr_salt h) pepper (header_params h) = Some master"
      "cnsa_derive_subkey N master CNSA_SUBKEY_INFO = Some key"
    using d p by (auto simp: cnsa_decode_from_blob_def Let_def split: bind_splits)
  then obtain padded where o: "cnsa_decrypt N key (hdr_nonce h) ct (header_to_bytes h) = Inr padded"
      "prelayers_unpad padded = Inr data"
    using d p h by (auto simp: cnsa_decode_from_blob_def Let_def split: sum.splits)
  then have "aes_encrypt N key (hdr_nonce h) padded (header_to_bytes h) = Some ct"
    unfolding cnsa_decrypt_iff [OF N] cnsa_encrypt_def by simp
  moreover have "header_ok CNSA_SALT_LEN CNSA_NONCE_LEN h \<and> container_serialize h ct = blob"
    using p unfolding cnsa_parse_def by (rule container_parse_Inr)
  ultimately have "cnsa_sellado N pw fp pepper data blob h"
    using h k o(2) unfolding cnsa_sellado_def container_serialize_def by blast
  then show ?thesis by blast
qed

lemma cnsa_sellado_opens:
  assumes N: "cnsa_ok N" and s: "cnsa_sellado N pw fp pepper data blob h"
  shows "cnsa_decode_from_blob N blob pw fp pepper = Some (Inr data)"
proof -
  obtain master key padded ct where k: "cnsa_derive_master_key N pw (hdr_salt h) pepper (header_params h) = Some master"
      "cnsa_derive_subkey N master CNSA_SUBKEY_INFO = Some key" "prelayers_unpad padded = Inr data"
      "aes_encrypt N key (hdr_nonce h) padded (header_to_bytes h) = Some ct" "blob = container_serialize h ct"
    using s unfolding cnsa_sellado_def container_serialize_def by blast
  have ok: "header_ok CNSA_SALT_LEN CNSA_NONCE_LEN h" "hdr_codebook_hash_prefix h = fp" "cnsa_is_sane (header_params h)"
    using s unfolding cnsa_sellado_def by simp_all
  have "cnsa_parse blob = Inr (h, ct)"
    unfolding k(5) cnsa_parse_def by (rule container_parse_serialize [OF ok(1)])
  moreover have "cnsa_decrypt N key (hdr_nonce h) ct (header_to_bytes h) = Inr padded"
    unfolding cnsa_decrypt_iff [OF N] cnsa_encrypt_def by (rule k(4))
  ultimately show ?thesis using ok k(1-3) by (simp add: cnsa_decode_from_blob_def)
qed

lemma cnsa_encode_sellado:
  assumes f: "fuente_ok fuente" and fp: "length fp = 8" and d: "length data < 2 ^ 63"
    and sane: "cnsa_is_sane (cnopt_kdf_params opts)"
    and e: "cnsa_encode_to_blob N fuente data pw fp opts r = Some (Inr blob, r')"
  shows "\<exists>h. cnsa_sellado N pw fp (cnopt_pepper opts) data blob h"
proof -
  obtain salt r1 where s: "getrandom_fill fuente CNSA_SALT_LEN r = (Inr salt, r1)"
    using e by (auto simp: cnsa_encode_to_blob_def split: prod.splits sum.splits)
  then obtain nonce r2 where n: "getrandom_fill fuente CNSA_NONCE_LEN r1 = (Inr nonce, r2)"
    using e by (auto simp: cnsa_encode_to_blob_def split: prod.splits sum.splits)
  let ?h = "cnsa_header fp (cnopt_kdf_params opts) salt nonce"
  obtain master key padded ct where
      k: "cnsa_derive_master_key N pw salt (cnopt_pepper opts) (cnopt_kdf_params opts) = Some master"
      "cnsa_derive_subkey N master CNSA_SUBKEY_INFO = Some key" "prelayers_pad data = Some padded"
      "aes_encrypt N key nonce padded (header_to_bytes ?h) = Some ct" "blob = cnsa_serialize ?h ct"
    using e s n by (auto simp: cnsa_encode_to_blob_def cnsa_encrypt_def Let_def split: bind_splits)
  have "length salt = 16" "length nonce = 12"
    using getrandom_fill_Inr [OF f] s n by (auto simp: CNSA_SALT_LEN_def CNSA_NONCE_LEN_def)
  then have "header_ok CNSA_SALT_LEN CNSA_NONCE_LEN ?h" by (rule cnsa_header_ok [OF fp])
  moreover have "prelayers_unpad padded = Inr data"
    using prelayers.dec_enc [of data] d k(3) by simp
  moreover have "blob = header_to_bytes ?h @ ct" using k(5) by (simp add: cnsa_serialize_def container_serialize_def)
  ultimately have "cnsa_sellado N pw fp (cnopt_pepper opts) data blob ?h"
    unfolding cnsa_sellado_def cnsa_header_sel using sane k(1,2,4) by blast
  then show ?thesis by blast
qed

text \<open>
  C28.  The reader of the CNSA profile is exact: it returns data precisely if the blob is a header
  of the profile with the expected fingerprint and sane costs, followed by the AES-256-GCM sealing of
  a Padm\'e frame of the data under the key that passphrase, pepper and the header's salt and costs
  derive, with the whole header as associated data.  So no other blob gives data, and every such
  blob does.
\<close>
theorem cnsa_decode_exact:
  "cnsa_ok N \<Longrightarrow> cnsa_decode_from_blob N blob pw fp pepper = Some (Inr data) \<longleftrightarrow>
    (\<exists>h. cnsa_sellado N pw fp pepper data blob h)"
  by (rule iffI, erule (1) cnsa_decode_Inr, erule exE, erule (1) cnsa_sellado_opens)

lemma cnsa_padded_small:
  assumes "prelayers_pad data = Some padded" and "length data < 2 ^ 35"
  shows "length padded < GCM_LIMIT"
proof -
  have "length padded = padme_nat (8 + length data)"
    using assms padme_nat_ge [of "8 + length data"] by (auto simp: prelayers_pad_def pad_eq)
  moreover have "8 * (padme_nat (8 + length data) - (8 + length data)) < 8 + length data"
    by (rule padme_overhead) simp
  ultimately show ?thesis using assms(2) by (simp add: GCM_LIMIT_def)
qed

text \<open>
   With sane costs, less than \<open>2^35\<close> bytes of data and less than \<open>2^32\<close> of passphrase and
  pepper, writing in the CNSA profile never panics: it says that there was no entropy, in which case
  one of its two draws failed, or it returns a blob that decodes to the data.
\<close>
lemma cnsa_roundtrip:
  assumes N: "cnsa_ok N" and f: "fuente_ok fuente" and fp: "length fp = 8"
    and d: "length data < 2 ^ 35" and sane: "cnsa_is_sane (cnopt_kdf_params opts)"
    and secret: "length (utf8 (cn_nfkc N pw)) + length (cnopt_pepper opts) < 2 ^ 32"
  shows "case cnsa_encode_to_blob N fuente data pw fp opts r of
      None \<Rightarrow> False
    | Some (Inl CnsaSinEntropia, r') \<Rightarrow>
        \<exists>e. fuente r 16 = (Inl e, r') \<or> (\<exists>salt r1. fuente r 16 = (Inr salt, r1) \<and> fuente r1 12 = (Inl e, r'))
    | Some (Inr blob, r') \<Rightarrow> cnsa_decode_from_blob N blob pw fp (cnopt_pepper opts) = Some (Inr data)"
proof -
  have reads: "cnsa_decode_from_blob N blob pw fp (cnopt_pepper opts) = Some (Inr data)"
    if e: "cnsa_encode_to_blob N fuente data pw fp opts r = Some (Inr blob, r')" for blob r'
  proof -
    have "length data < 2 ^ 63" using d by simp
    from cnsa_encode_sellado [OF f fp this sane e] show ?thesis using cnsa_sellado_opens [OF N] by blast
  qed
  obtain a r1 where s: "fuente r 16 = (a, r1)" by fastforce
  show ?thesis
  proof (cases a)
    case (Inl e)
    then show ?thesis using s
      by (simp add: cnsa_encode_to_blob_def getrandom_fill_def CNSA_SALT_LEN_def)
  next
    case (Inr salt)
    obtain b r2 where n: "fuente r1 12 = (b, r2)" by fastforce
    show ?thesis
    proof (cases b)
      case (Inl e)
      then show ?thesis using s n Inr
        by (simp add: cnsa_encode_to_blob_def getrandom_fill_def CNSA_SALT_LEN_def CNSA_NONCE_LEN_def)
    next
      case (Inr nonce)
      have "length salt = 16" using f s \<open>a = Inr salt\<close> unfolding fuente_ok_def by blast
      then obtain master where m: "cnsa_derive_master_key N pw salt (cnopt_pepper opts) (cnopt_kdf_params opts) = Some master"
        using cnsa_master_total [OF N sane _ secret] by blast
      obtain key where k: "cnsa_derive_subkey N master CNSA_SUBKEY_INFO = Some key"
        using cnsa_subkey_total [OF N] by blast
      obtain padded where p: "prelayers_pad data = Some padded"
        using d by (simp add: prelayers_pad_def pad_eq)
      obtain ct where "cnsa_encrypt N key nonce padded
          (header_to_bytes (cnsa_header fp (cnopt_kdf_params opts) salt nonce)) = Some ct"
        using aes.seals [OF N cnsa_padded_small [OF p d]] unfolding cnsa_encrypt_def by blast
      then have "\<exists>blob. cnsa_encode_to_blob N fuente data pw fp opts r = Some (Inr blob, r2)"
        using s n Inr \<open>a = Inr salt\<close> m k p
        by (simp add: cnsa_encode_to_blob_def getrandom_fill_def CNSA_SALT_LEN_def CNSA_NONCE_LEN_def Let_def)
      then show ?thesis using reads by auto
    qed
  qed
qed

text \<open>Costs out of bounds are written without complaint, and never read back.\<close>

lemma cnsa_insane_params_unreadable:
  assumes f: "fuente_ok fuente" and fp: "length fp = 8" and "\<not> cnsa_is_sane (cnopt_kdf_params opts)"
    and e: "cnsa_encode_to_blob N fuente data pw fp opts r = Some (Inr blob, r')"
  shows "cnsa_decode_from_blob N blob pw' fp pepper = Some (Inl CnsaDecrypt)"
proof -
  obtain salt r1 where s: "getrandom_fill fuente CNSA_SALT_LEN r = (Inr salt, r1)"
    using e by (auto simp: cnsa_encode_to_blob_def split: prod.splits sum.splits)
  then obtain nonce r2 where n: "getrandom_fill fuente CNSA_NONCE_LEN r1 = (Inr nonce, r2)"
    using e by (auto simp: cnsa_encode_to_blob_def split: prod.splits sum.splits)
  let ?h = "cnsa_header fp (cnopt_kdf_params opts) salt nonce"
  obtain ct where b: "blob = cnsa_serialize ?h ct"
    using e s n by (auto simp: cnsa_encode_to_blob_def Let_def split: bind_splits)
  have "length salt = 16" "length nonce = 12"
    using getrandom_fill_Inr [OF f] s n by (auto simp: CNSA_SALT_LEN_def CNSA_NONCE_LEN_def)
  then have "cnsa_parse blob = Inr (?h, ct)"
    unfolding b cnsa_parse_def cnsa_serialize_def by (intro container_parse_serialize cnsa_header_ok fp)
  then show ?thesis using assms(3) by (simp add: cnsa_decode_from_blob_def)
qed

section \<open>Concrete inputs\<close>

definition demo_cnsa :: cnsa where
  "demo_cnsa =
     \<lparr>cn_nfkc = id, cn_argon2id = demo_argon2id,
      hkdf_sha384 = (\<lambda>salt ikm info len. if len \<le> 12240
        then Some (be_bytes len (demo_hash [case salt of None \<Rightarrow> [] | Some s \<Rightarrow> s, ikm, info] ^ 3)) else None),
      aes_encrypt = demo_encrypt, aes_decrypt = demo_decrypt,
      sha384 = (\<lambda>m. be_bytes 48 (demo_hash [m]))\<rparr>"

lemma demo_cnsa_ok: "cnsa_ok demo_cnsa"
proof -
  have "aead_ok GCM_LIMIT demo_encrypt demo_decrypt"
    using demo_aead_ok unfolding aead_ok_def by (auto simp: GCM_LIMIT_def XCHACHA_LIMIT_def)
  moreover have "argon2id_ok demo_argon2id"
    using cripto_ok_simps(1) [OF demo_cripto_ok] by (simp add: demo_cripto_def)
  ultimately show ?thesis by (simp add: cnsa_ok_def demo_cnsa_def)
qed

lemma demo_cnsa_encode:
  "\<exists>blob. cnsa_encode_to_blob demo_cnsa demo_fuente [7, 8, 9] [112, 119] (replicate 8 5) cnsa_options_default 0 =
      Some (Inr blob, 28) \<and>
    cnsa_decode_from_blob demo_cnsa blob [112, 119] (replicate 8 5) [] = Some (Inr [7, 8, 9])"
proof -
  let ?e = "cnsa_encode_to_blob demo_cnsa demo_fuente [7, 8, 9] [112, 119] (replicate 8 5) cnsa_options_default 0"
  have sane: "cnsa_is_sane (cnopt_kdf_params cnsa_options_default)"
    by (simp add: cnsa_is_sane_unat cnsa_options_default_def cnsa_params_default_def)
  have draws: "getrandom_fill demo_fuente CNSA_SALT_LEN 0 = (Inr (map of_nat [0..<16]), 16)"
      "getrandom_fill demo_fuente CNSA_NONCE_LEN 16 = (Inr (map of_nat [16..<28]), 28)"
    by (simp_all add: getrandom_fill_def demo_fuente_def CNSA_SALT_LEN_def CNSA_NONCE_LEN_def del: upt_rec_numeral)
  obtain master where m: "cnsa_derive_master_key demo_cnsa [112, 119] (map of_nat [0..<16]) []
      (cnopt_kdf_params cnsa_options_default) = Some master"
    using cnsa_master_total [OF demo_cnsa_ok sane, of "map of_nat [0..<16]" "[112, 119]" "[]"]
    by (auto simp: demo_cnsa_def utf8_def utf8_char_def simp del: upt_rec_numeral)
  obtain key where k: "cnsa_derive_subkey demo_cnsa master CNSA_SUBKEY_INFO = Some key"
    using cnsa_subkey_total [OF demo_cnsa_ok] by blast
  obtain padded where p: "prelayers_pad [7, 8, 9] = Some padded"
    by (simp add: prelayers_pad_def pad_eq)
  obtain ct where "cnsa_encrypt demo_cnsa key (map of_nat [16..<28]) padded
      (header_to_bytes (cnsa_header (replicate 8 5) (cnopt_kdf_params cnsa_options_default)
        (map of_nat [0..<16]) (map of_nat [16..<28]))) = Some ct"
    using aes.seals [OF demo_cnsa_ok cnsa_padded_small [OF p]] unfolding cnsa_encrypt_def by fastforce
  then obtain blob where b: "?e = Some (Inr blob, 28)"
    using draws m k p by (simp add: cnsa_encode_to_blob_def cnsa_options_default_def Let_def)
  have "\<exists>h. cnsa_sellado demo_cnsa [112, 119] (replicate 8 5) [] [7, 8, 9] blob h"
    using cnsa_encode_sellado [OF demo_fuente_ok _ _ sane b] by (simp add: cnsa_options_default_def)
  then have "cnsa_decode_from_blob demo_cnsa blob [112, 119] (replicate 8 5) [] = Some (Inr [7, 8, 9])"
    using cnsa_sellado_opens [OF demo_cnsa_ok] by blast
  with b show ?thesis by blast
qed

theorem cnsa_decode_exact_witness:
  "\<exists>blob h. cnsa_sellado demo_cnsa [112, 119] (replicate 8 5) [] [7, 8, 9] blob h"
proof -
  obtain blob where "cnsa_decode_from_blob demo_cnsa blob [112, 119] (replicate 8 5) [] = Some (Inr [7, 8, 9])"
    using demo_cnsa_encode by blast
  then show ?thesis using cnsa_decode_exact [OF demo_cnsa_ok] by blast
qed

lemma cnsa_roundtrip_example:
  "\<exists>blob. cnsa_encode_to_blob demo_cnsa demo_fuente [7, 8, 9] [112, 119] (replicate 8 5) cnsa_options_default 0 =
      Some (Inr blob, 28) \<and>
    cnsa_decode_from_blob demo_cnsa blob [112, 119] (replicate 8 5) [] = Some (Inr [7, 8, 9])"
proof -
  obtain blob where b: "cnsa_encode_to_blob demo_cnsa demo_fuente [7, 8, 9] [112, 119] (replicate 8 5)
      cnsa_options_default 0 = Some (Inr blob, 28)"
    using demo_cnsa_encode by blast
  have "cnsa_is_sane (cnopt_kdf_params cnsa_options_default)"
    by (simp add: cnsa_is_sane_unat cnsa_options_default_def cnsa_params_default_def)
  moreover have "length (utf8 (cn_nfkc demo_cnsa [112, 119])) + length (cnopt_pepper cnsa_options_default) < 2 ^ 32"
    by (simp add: demo_cnsa_def utf8_def utf8_char_def cnsa_options_default_def)
  ultimately show ?thesis
    using cnsa_roundtrip [OF demo_cnsa_ok demo_fuente_ok, of "replicate 8 5" "[7, 8, 9]" cnsa_options_default
        "[112, 119]" 0] b by (simp add: cnsa_options_default_def)
qed

end
