(* ===== verification/Cnsakeys.thy ===== *)
theory Cnsakeys
  imports Cnsa Hibrido Firma
begin

text \<open>
  \<^verbatim>\<open>crates/quipu-cnsa/src/destinatario.rs\<close>, encryption to a recipient with ML-KEM-1024 alone, and
  \<^verbatim>\<open>crates/quipu-cnsa/src/firma.rs\<close>, signatures with ML-DSA-87 alone.  The primitives are the
  ML-KEM and ML-DSA fields of the records \<open>kem\<close> and \<open>firma\<close>, with the laws stated there.
\<close>

section \<open>The recipient channel\<close>

definition CNSA_PUBLIC_KEY_LEN :: nat where "CNSA_PUBLIC_KEY_LEN = 1568"
definition CNSA_ENCAPSULATION_LEN :: nat where "CNSA_ENCAPSULATION_LEN = 1568"
definition CNSA_SECRET_KEY_LEN :: nat where "CNSA_SECRET_KEY_LEN = 64"

lemmas cnsa_lens = CNSA_PUBLIC_KEY_LEN_def CNSA_ENCAPSULATION_LEN_def CNSA_SECRET_KEY_LEN_def CNSA_NONCE_LEN_def

definition ETIQUETA_DESTINATARIO :: bytes where
  "ETIQUETA_DESTINATARIO = ascii ''quipu-cnsa/destinatario/ml-kem-1024/v1''"

datatype destinatario_error = NoAbre

definition cnsa_generador ::
  "('x, 'p, 'd, 'k, 'g, 'z) kem_scheme \<Rightarrow> 'r fuente \<Rightarrow> 'r \<Rightarrow> (cnsa_sin_entropia + 'g) \<times> 'r" where
  "cnsa_generador M fuente r =
     (case getrandom_fill fuente 32 r of
        (Inl e, r) \<Rightarrow> (Inl e, r)
      | (Inr semilla, r) \<Rightarrow> (Inr (chacha_from_seed M semilla), r))"

definition dest_generar_par ::
  "('x, 'p, 'd, 'k, 'g, 'z) kem_scheme \<Rightarrow> 'r fuente \<Rightarrow> 'r \<Rightarrow> (cnsa_sin_entropia + 'k \<times> 'd) \<times> 'r" where
  "dest_generar_par M fuente r =
     (case cnsa_generador M fuente r of
        (Inl e, r) \<Rightarrow> (Inl e, r)
      | (Inr rng, r) \<Rightarrow> (let ((dk, ek), rng) = ml_generate M rng in (Inr (ek, dk), r)))"

text \<open>The length as \<^verbatim>\<open>u64\<close>: the key goes before the ciphertext with its length.\<close>

definition dest_transcript :: "bytes \<Rightarrow> bytes \<Rightarrow> bytes" where
  "dest_transcript ek ct = ETIQUETA_DESTINATARIO @ u64_to_be (of_nat (length ek)) @ ek @ ct"

definition clave_de_contenido :: "'c cnsa_scheme \<Rightarrow> bytes \<Rightarrow> bytes \<Rightarrow> bytes option" where
  "clave_de_contenido N ss t = hkdf_sha384 N (Some t) ss ETIQUETA_DESTINATARIO KEY_LEN"

definition dest_pk_a_bytes :: "('x, 'p, 'd, 'k, 'g, 'z) kem_scheme \<Rightarrow> 'k \<Rightarrow> bytes" where
  "dest_pk_a_bytes M pk = ek_to_bytes M pk"

definition dest_pk_desde_bytes :: "('x, 'p, 'd, 'k, 'g, 'z) kem_scheme \<Rightarrow> bytes \<Rightarrow> 'k option" where
  "dest_pk_desde_bytes M b = (if length b \<noteq> CNSA_PUBLIC_KEY_LEN then None else ek_new M b)"

text \<open>\<open>None\<close> is the panic of the primitive on a key without a seed.\<close>

definition dest_sk_a_bytes :: "('x, 'p, 'd, 'k, 'g, 'z) kem_scheme \<Rightarrow> 'd \<Rightarrow> bytes option" where
  "dest_sk_a_bytes M sk = dk_to_bytes M sk"

definition dest_sk_desde_bytes :: "('x, 'p, 'd, 'k, 'g, 'z) kem_scheme \<Rightarrow> bytes \<Rightarrow> 'd option" where
  "dest_sk_desde_bytes M b = (if length b \<noteq> CNSA_SECRET_KEY_LEN then None else Some (dk_new M b))"

definition dest_clave_publica :: "('x, 'p, 'd, 'k, 'g, 'z) kem_scheme \<Rightarrow> 'd \<Rightarrow> 'k" where
  "dest_clave_publica M sk = dk_ek M sk"

definition cifrar_para ::
  "'c cnsa_scheme \<Rightarrow> ('x, 'p, 'd, 'k, 'g, 'z) kem_scheme \<Rightarrow> 'r fuente \<Rightarrow> 'k \<Rightarrow> bytes \<Rightarrow> 'r \<Rightarrow>
    ((cnsa_sin_entropia + bytes) \<times> 'r) option" where
  "cifrar_para N M fuente pk mensaje r =
     (case cnsa_generador M fuente r of
        (Inl e, r) \<Rightarrow> Some (Inl e, r)
      | (Inr rng, r) \<Rightarrow>
          (let ((ct, ss), rng) = ml_encapsulate M pk rng;
               ek = dest_pk_a_bytes M pk
           in do {
                clave \<leftarrow> clave_de_contenido N ss (dest_transcript ek ct);
                case getrandom_fill fuente CNSA_NONCE_LEN r of
                  (Inl e, r) \<Rightarrow> Some (Inl e, r)
                | (Inr nonce, r) \<Rightarrow> do {
                    sellado \<leftarrow> cnsa_encrypt N clave nonce mensaje ct;
                    Some (Inr (ct @ nonce @ sellado), r)
                  }
              }))"

definition descifrar ::
  "'c cnsa_scheme \<Rightarrow> ('x, 'p, 'd, 'k, 'g, 'z) kem_scheme \<Rightarrow> 'd \<Rightarrow> bytes \<Rightarrow> (destinatario_error + bytes) option" where
  "descifrar N M sk blob =
     (if length blob < CNSA_ENCAPSULATION_LEN + CNSA_NONCE_LEN then Some (Inl NoAbre)
      else
        let ct = take CNSA_ENCAPSULATION_LEN blob;
            resto = drop CNSA_ENCAPSULATION_LEN blob;
            nonce = take CNSA_NONCE_LEN resto;
            sellado = drop CNSA_NONCE_LEN resto;
            ss = ml_decapsulate M sk ct;
            ek = ek_to_bytes M (dk_ek M sk)
        in do {
             clave \<leftarrow> clave_de_contenido N ss (dest_transcript ek ct);
             Some (case cnsa_decrypt N clave nonce sellado ct of Inl _ \<Rightarrow> Inl NoAbre | Inr m \<Rightarrow> Inr m)
           })"

section \<open>Signatures\<close>

definition ETIQUETA_FIRMA :: bytes where
  "ETIQUETA_FIRMA = ascii ''quipu-cnsa/firma/ml-dsa-87/v1''"

definition CNSA_SIGNATURE_LEN :: nat where "CNSA_SIGNATURE_LEN = 4627"
definition CNSA_VERIFYING_KEY_LEN :: nat where "CNSA_VERIFYING_KEY_LEN = 2592"
definition CNSA_SIGNING_KEY_LEN :: nat where "CNSA_SIGNING_KEY_LEN = 32"

definition preimagen :: "bytes \<Rightarrow> bytes \<Rightarrow> bytes" where
  "preimagen vk mensaje = ETIQUETA_FIRMA @ u64_to_be (of_nat (length vk)) @ vk @ mensaje"

text \<open>A signing key is its seed of 32 bytes; \<open>desde_semilla\<close> and \<open>a_bytes\<close> are identities on it.\<close>

definition cnsa_clave_de_verificacion :: "('e, 'm, 'g, 'z) firma_scheme \<Rightarrow> bytes \<Rightarrow> 'm" where
  "cnsa_clave_de_verificacion F semilla = ml_public F semilla"

definition firma_generar_par ::
  "('e, 'm, 'g, 'z) firma_scheme \<Rightarrow> 'r fuente \<Rightarrow> 'r \<Rightarrow> (cnsa_sin_entropia + 'm \<times> bytes) \<times> 'r" where
  "firma_generar_par F fuente r =
     (case getrandom_fill fuente CNSA_SIGNING_KEY_LEN r of
        (Inl e, r) \<Rightarrow> (Inl e, r)
      | (Inr semilla, r) \<Rightarrow> (Inr (cnsa_clave_de_verificacion F semilla, semilla), r))"

definition cnsa_firmar :: "('e, 'm, 'g, 'z) firma_scheme \<Rightarrow> bytes \<Rightarrow> bytes \<Rightarrow> bytes" where
  "cnsa_firmar F semilla mensaje =
     (let vk = ml_public F semilla;
          p = preimagen (ml_encode F vk) mensaje
      in ml_sig_encode F (ml_sign F semilla p))"

definition cnsa_vk_desde_bytes :: "('e, 'm, 'g, 'z) firma_scheme \<Rightarrow> bytes \<Rightarrow> 'm option" where
  "cnsa_vk_desde_bytes F b = (if length b = CNSA_VERIFYING_KEY_LEN then Some (ml_decode F b) else None)"

definition cnsa_verificar :: "('e, 'm, 'g, 'z) firma_scheme \<Rightarrow> 'm \<Rightarrow> bytes \<Rightarrow> bytes \<Rightarrow> bool" where
  "cnsa_verificar F vk mensaje firma =
     (if length firma \<noteq> CNSA_SIGNATURE_LEN then False
      else
        let p = preimagen (ml_encode F vk) mensaje
        in case ml_sig_decode F firma of
             Some sig \<Rightarrow> ml_verify F vk p sig
           | None \<Rightarrow> False)"

section \<open>What is sealed and what is signed\<close>

lemma clave_total: "cnsa_ok N \<Longrightarrow> \<exists>k. clave_de_contenido N ss t = Some k \<and> length k = 32"
  by (simp add: clave_de_contenido_def KEY_LEN_def cnsa_okD(4))

lemma descifrar_eq:
  assumes "length ct = 1568" "length nonce = 12"
  shows "descifrar N M sk (ct @ nonce @ sellado) =
    do {
      clave \<leftarrow> clave_de_contenido N (ml_decapsulate M sk ct) (dest_transcript (ek_to_bytes M (dk_ek M sk)) ct);
      Some (case cnsa_decrypt N clave nonce sellado ct of Inl _ \<Rightarrow> Inl NoAbre | Inr m \<Rightarrow> Inr m)
    }"
  using assms by (simp add: descifrar_def cnsa_lens Let_def)

text \<open>The length before the key makes the encoding of the two fields injective.\<close>

lemma con_longitud_inj:
  assumes l: "length k < 18446744073709551616" "length k' < 18446744073709551616"
    and "u64_to_be (of_nat (length k)) @ k @ m = u64_to_be (of_nat (length k')) @ k' @ m'"
  shows "k = k' \<and> m = m'"
proof -
  have e: "u64_to_be (of_nat (length k)) = u64_to_be (of_nat (length k'))" "k @ m = k' @ m'"
    using assms(3) append_eq_append_conv length_u64_to_be by metis+
  then have "(of_nat (length k) :: u64) = of_nat (length k')" by (metis u64_from_to_be)
  then have "length k = length k'" using l by (metis unat_of_nat_u64)
  with e(2) show ?thesis by simp
qed

lemma dest_transcript_inj:
  assumes "length k < 18446744073709551616" "length k' < 18446744073709551616"
  shows "dest_transcript k c = dest_transcript k' c' \<longleftrightarrow> k = k' \<and> c = c'"
  unfolding dest_transcript_def same_append_eq using con_longitud_inj [OF assms] by blast

lemma preimagen_inj:
  assumes "length k < 18446744073709551616" "length k' < 18446744073709551616"
  shows "preimagen k m = preimagen k' m' \<longleftrightarrow> k = k' \<and> m = m'"
  unfolding preimagen_def same_append_eq using con_longitud_inj [OF assms] by blast

text \<open>The character after \<open>quipu\<close> tells the profiles apart.\<close>

lemma preimagen_disjoint: "preimagen k m \<noteq> build_preimage k' m'" "preimagen k m \<noteq> build_triple_preimage k' m'"
proof -
  have "preimagen k m ! 5 = 45" by (simp add: preimagen_def ETIQUETA_FIRMA_def ascii_def)
  moreover have "build_preimage k' m' ! 5 = 47" "build_triple_preimage k' m' ! 5 = 47"
    by (simp_all add: build_preimage_def build_triple_preimage_def SIGN_CONTEXT_def SIGN_TRIPLE_CONTEXT_def ascii_def)
  moreover have "(45 :: u8) \<noteq> 47" by simp
  ultimately show "preimagen k m \<noteq> build_preimage k' m'" "preimagen k m \<noteq> build_triple_preimage k' m'" by auto
qed

lemma descifrar_cifrado:
  assumes N: "cnsa_ok N" and M: "kem_ok M" and f: "fuente_ok fuente"
    and c: "cifrar_para N M fuente pk mensaje q = Some (Inr blob, q')" and pk: "pk = dk_ek M sk"
  shows "descifrar N M sk blob = Some (Inr mensaje)" "length blob = length mensaje + 1596"
proof -
  obtain g q1 where g: "cnsa_generador M fuente q = (Inr g, q1)"
    using c by (auto simp: cifrar_para_def split: prod.splits sum.splits)
  obtain ct ss g' where e: "ml_encapsulate M pk g = ((ct, ss), g')" by (metis surj_pair)
  then have ct: "length ct = 1568" "ml_decapsulate M sk ct = ss" using kem_okD(12) [OF M] unfolding pk by blast+
  obtain clave where k: "clave_de_contenido N ss (dest_transcript (ek_to_bytes M pk) ct) = Some clave"
    using clave_total [OF N] by blast
  obtain nonce q2 where n: "getrandom_fill fuente CNSA_NONCE_LEN q1 = (Inr nonce, q2)"
    using c g e k by (auto simp: cifrar_para_def dest_pk_a_bytes_def split: prod.splits sum.splits)
  obtain sellado where sel: "cnsa_encrypt N clave nonce mensaje ct = Some sellado" and blob: "blob = ct @ nonce @ sellado"
    using c g e k n by (auto simp: cifrar_para_def dest_pk_a_bytes_def split: bind_splits)
  have ln: "length nonce = 12" using getrandom_fill_Inr [OF f n] by (simp add: CNSA_NONCE_LEN_def)
  show "descifrar N M sk blob = Some (Inr mensaje)"
    unfolding blob descifrar_eq [OF ct(1) ln] using k ct(2) pk sel [folded cnsa_decrypt_iff [OF N]] by simp
  have "length sellado = length mensaje + 16"
    using aead_okD(2) [OF cnsa_okD(2) [OF N]] sel unfolding cnsa_encrypt_def by blast
  then show "length blob = length mensaje + 1596" using ct(1) ln by (simp add: blob)
qed

section \<open>Properties\<close>

text \<open>
  A message encrypted to a generated key, whose secret was stored as its seed of 64 bytes
  and read back, is decrypted to itself; the public key survives its serialisation too, and the blob
  is 1596 bytes longer than the message.
\<close>

theorem cnsa_recipient_roundtrip:
  assumes N: "cnsa_ok N" and M: "kem_ok M" and f: "fuente_ok fuente"
    and p: "dest_generar_par M fuente r = (Inr (pk, sk), r')"
    and c: "cifrar_para N M fuente pk mensaje q = Some (Inr blob, q')"
  shows "\<exists>semilla sk'. dest_sk_a_bytes M sk = Some semilla \<and> dest_sk_desde_bytes M semilla = Some sk' \<and>
    descifrar N M sk' blob = Some (Inr mensaje) \<and> length blob = length mensaje + 1596 \<and>
    dest_pk_desde_bytes M (dest_pk_a_bytes M pk) = Some pk \<and> dest_clave_publica M sk' = pk"
proof -
  have "\<exists>rng rng'. ml_generate M rng = ((sk, pk), rng')"
    using p by (auto simp: dest_generar_par_def split: prod.splits sum.splits)
  then have pk: "pk = dk_ek M sk" and s: "\<exists>s. length s = 64 \<and> dk_to_bytes M sk = Some s \<and> dk_new M s = sk"
    using M unfolding kem_ok_def by blast+
  have "dest_pk_desde_bytes M (dest_pk_a_bytes M pk) = Some pk"
    by (simp add: dest_pk_desde_bytes_def dest_pk_a_bytes_def cnsa_lens kem_okD [OF M])
  then show ?thesis
    using s pk descifrar_cifrado [OF N M f c pk]
    by (auto simp: dest_sk_a_bytes_def dest_sk_desde_bytes_def dest_clave_publica_def cnsa_lens)
qed

text \<open>
   Decryption for a recipient never panics, and gives a message precisely if the blob is a
  ciphertext of ML-KEM, a nonce and the AES-256-GCM sealing of the message under the key that the
  decapsulated secret and the transcript of the recipient's own public key derive, with the
  ciphertext as associated data.
\<close>
lemma cnsa_recipient_exact:
  assumes N: "cnsa_ok N"
  shows "descifrar N M sk blob \<noteq> None \<and>
    (descifrar N M sk blob = Some (Inr mensaje) \<longleftrightarrow>
      (\<exists>ct nonce sellado clave. blob = ct @ nonce @ sellado \<and> length ct = 1568 \<and> length nonce = 12 \<and>
        clave_de_contenido N (ml_decapsulate M sk ct) (dest_transcript (ek_to_bytes M (dk_ek M sk)) ct) = Some clave \<and>
        aes_encrypt N clave nonce mensaje ct = Some sellado))"
proof (intro conjI iffI)
  have long: "descifrar N M sk blob \<noteq> None \<and> (descifrar N M sk blob = Some (Inr m) \<longrightarrow>
      (\<exists>ct nonce sellado clave. blob = ct @ nonce @ sellado \<and> length ct = 1568 \<and> length nonce = 12 \<and>
        clave_de_contenido N (ml_decapsulate M sk ct) (dest_transcript (ek_to_bytes M (dk_ek M sk)) ct) = Some clave \<and>
        aes_encrypt N clave nonce m ct = Some sellado))" for m
  proof (cases "length blob < 1580")
    case True
    then show ?thesis by (simp add: descifrar_def cnsa_lens)
  next
    case False
    let ?ct = "take 1568 blob" and ?n = "take 12 (drop 1568 blob)" and ?s = "drop 12 (drop 1568 blob)"
    have b: "blob = ?ct @ ?n @ ?s" by (simp only: append_take_drop_id)
    have l: "length ?ct = 1568" "length ?n = 12" using False by simp_all
    obtain clave where k: "clave_de_contenido N (ml_decapsulate M sk ?ct) (dest_transcript (ek_to_bytes M (dk_ek M sk)) ?ct) = Some clave"
      using clave_total [OF N] by blast
    have d: "descifrar N M sk (?ct @ ?n @ ?s) = Some (case cnsa_decrypt N clave ?n ?s ?ct of Inl _ \<Rightarrow> Inl NoAbre | Inr m \<Rightarrow> Inr m)"
      unfolding descifrar_eq [OF l] k by simp
    have "cnsa_decrypt N clave ?n ?s ?ct = Inr m \<Longrightarrow> aes_encrypt N clave ?n m ?ct = Some ?s"
      unfolding cnsa_decrypt_iff [OF N] cnsa_encrypt_def by simp
    then have "descifrar N M sk (?ct @ ?n @ ?s) = Some (Inr m) \<Longrightarrow> aes_encrypt N clave ?n m ?ct = Some ?s"
      unfolding d by (auto split: sum.splits)
    then have "descifrar N M sk blob = Some (Inr m) \<Longrightarrow> aes_encrypt N clave ?n m ?ct = Some ?s"
      by (subst (asm) b)
    moreover have "descifrar N M sk blob \<noteq> None" by (subst b) (simp only: d option.distinct not_False_eq_True)
    ultimately show ?thesis using b l k by blast
  qed
  show "descifrar N M sk blob \<noteq> None" using long by blast
  show "descifrar N M sk blob = Some (Inr mensaje) \<Longrightarrow> \<exists>ct nonce sellado clave. blob = ct @ nonce @ sellado \<and>
      length ct = 1568 \<and> length nonce = 12 \<and>
      clave_de_contenido N (ml_decapsulate M sk ct) (dest_transcript (ek_to_bytes M (dk_ek M sk)) ct) = Some clave \<and>
      aes_encrypt N clave nonce mensaje ct = Some sellado"
    using long by blast
next
  assume "\<exists>ct nonce sellado clave. blob = ct @ nonce @ sellado \<and> length ct = 1568 \<and> length nonce = 12 \<and>
      clave_de_contenido N (ml_decapsulate M sk ct) (dest_transcript (ek_to_bytes M (dk_ek M sk)) ct) = Some clave \<and>
      aes_encrypt N clave nonce mensaje ct = Some sellado"
  then obtain ct nonce sellado clave where h: "blob = ct @ nonce @ sellado" "length ct = 1568" "length nonce = 12"
      "clave_de_contenido N (ml_decapsulate M sk ct) (dest_transcript (ek_to_bytes M (dk_ek M sk)) ct) = Some clave"
      "aes_encrypt N clave nonce mensaje ct = Some sellado" by blast
  then have "cnsa_decrypt N clave nonce sellado ct = Inr mensaje"
    unfolding cnsa_decrypt_iff [OF N] cnsa_encrypt_def by simp
  then show "descifrar N M sk blob = Some (Inr mensaje)"
    unfolding h(1) descifrar_eq [OF h(2,3)] h(4) by simp
qed

text \<open>
  C29.  Signatures of the CNSA profile: what a key signs it verifies; and an accepted signature is an
  ML-DSA signature on bytes that fix both the verification key and the message, and that no hybrid
  and no triple signature of \<^verbatim>\<open>quipu\<close> is ever made on, so no signature passes from one profile to the
  other even if they share an ML-DSA key.
\<close>
theorem cnsa_signatures_are_bound:
  assumes F: "firma_ok F"
  shows "cnsa_verificar F (cnsa_clave_de_verificacion F s) m (cnsa_firmar F s m) \<and>
    (cnsa_verificar F vk m sig \<longrightarrow>
      (\<exists>g p. ml_sig_decode F sig = Some g \<and> ml_verify F vk p g \<and> p = preimagen (ml_encode F vk) m \<and>
        (\<forall>vk' m'. p = preimagen (ml_encode F vk') m' \<longleftrightarrow> vk' = vk \<and> m' = m) \<and>
        (\<forall>k m'. p \<noteq> build_preimage k m' \<and> p \<noteq> build_triple_preimage k m')))"
proof (intro conjI impI)
  show "cnsa_verificar F (cnsa_clave_de_verificacion F s) m (cnsa_firmar F s m)"
    by (simp add: cnsa_verificar_def cnsa_firmar_def cnsa_clave_de_verificacion_def CNSA_SIGNATURE_LEN_def Let_def
        firma_okD [OF F])
  assume v: "cnsa_verificar F vk m sig"
  then obtain g where g: "ml_sig_decode F sig = Some g" "ml_verify F vk (preimagen (ml_encode F vk) m) g"
    by (auto simp: cnsa_verificar_def Let_def split: if_splits option.splits)
  have "ml_encode F a = ml_encode F b \<longleftrightarrow> a = b" for a b by (metis firma_okD(6) [OF F])
  moreover have "length (ml_encode F a) < 18446744073709551616" for a by (simp add: firma_okD(5) [OF F])
  ultimately have bound: "preimagen (ml_encode F vk) m = preimagen (ml_encode F vk') m' \<longleftrightarrow> vk' = vk \<and> m' = m" for vk' m'
    using preimagen_inj by metis
  then show "\<exists>g p. ml_sig_decode F sig = Some g \<and> ml_verify F vk p g \<and> p = preimagen (ml_encode F vk) m \<and>
        (\<forall>vk' m'. p = preimagen (ml_encode F vk') m' \<longleftrightarrow> vk' = vk \<and> m' = m) \<and>
        (\<forall>k m'. p \<noteq> build_preimage k m' \<and> p \<noteq> build_triple_preimage k m')"
    by (intro exI [of _ g] exI [of _ "preimagen (ml_encode F vk) m"] conjI allI g bound refl preimagen_disjoint)
qed

section \<open>Concrete inputs\<close>

lemma demo_getrandom: "getrandom_fill demo_fuente n q = (Inr (map of_nat [q..<q + n]), q + n)"
  by (simp add: getrandom_fill_def demo_fuente_def)

lemma demo_dest_par:
  obtains pk sk where "dest_generar_par demo_kem demo_fuente 0 = (Inr (pk, sk), 32)"
proof -
  obtain dk ek g where e: "ml_generate demo_kem (chacha_from_seed demo_kem (map of_nat [0..<32])) = ((dk, ek), g)"
    by (metis surj_pair)
  have "cnsa_generador demo_kem demo_fuente 0 = (Inr (chacha_from_seed demo_kem (map of_nat [0..<32])), 32)"
    by (simp add: cnsa_generador_def demo_getrandom del: upt_rec_numeral)
  then show ?thesis using e by (intro that [of ek dk]) (simp add: dest_generar_par_def)
qed

lemma demo_cifrar:
  obtains blob where "cifrar_para demo_cnsa demo_kem demo_fuente pk [1, 2, 3] 32 = Some (Inr blob, 76)"
proof -
  let ?g = "chacha_from_seed demo_kem (map of_nat [32..<64])"
  obtain ct ss g' where e: "ml_encapsulate demo_kem pk ?g = ((ct, ss), g')" by (metis surj_pair)
  obtain clave where k: "clave_de_contenido demo_cnsa ss (dest_transcript (dest_pk_a_bytes demo_kem pk) ct) = Some clave"
    using clave_total [OF demo_cnsa_ok] by blast
  have "length [1, 2, 3 :: u8] < GCM_LIMIT" by (simp add: GCM_LIMIT_def)
  then obtain sellado where s: "cnsa_encrypt demo_cnsa clave (map of_nat [64..<76]) [1, 2, 3] ct = Some sellado"
    using aes.seals [OF demo_cnsa_ok] unfolding cnsa_encrypt_def by blast
  have g: "cnsa_generador demo_kem demo_fuente 32 = (Inr ?g, 64)"
      "getrandom_fill demo_fuente CNSA_NONCE_LEN 64 = (Inr (map of_nat [64..<76]), 76)"
    by (simp_all add: cnsa_generador_def demo_getrandom CNSA_NONCE_LEN_def del: upt_rec_numeral)
  have "cifrar_para demo_cnsa demo_kem demo_fuente pk [1, 2, 3] 32 =
      Some (Inr (ct @ map of_nat [64..<76] @ sellado), 76)"
    by (simp add: cifrar_para_def g e k s del: upt_rec_numeral)
  then show ?thesis by (rule that)
qed

lemma cnsa_recipient_roundtrip_example:
  "\<exists>pk sk blob. dest_generar_par demo_kem demo_fuente 0 = (Inr (pk, sk), 32) \<and>
    cifrar_para demo_cnsa demo_kem demo_fuente pk [1, 2, 3] 32 = Some (Inr blob, 76) \<and> length blob = 1599"
proof -
  obtain pk sk where p: "dest_generar_par demo_kem demo_fuente 0 = (Inr (pk, sk), 32)" by (rule demo_dest_par)
  obtain blob where b: "cifrar_para demo_cnsa demo_kem demo_fuente pk [1, 2, 3] 32 = Some (Inr blob, 76)" by (rule demo_cifrar)
  have "length blob = 1599"
    using cnsa_recipient_roundtrip [OF demo_cnsa_ok demo_kem_ok demo_fuente_ok p b] by auto
  with p b show ?thesis by blast
qed

lemma cnsa_recipient_exact_example:
  "\<exists>ct nonce sellado clave. length ct = 1568 \<and> length nonce = 12 \<and>
    aes_encrypt demo_cnsa clave nonce [1, 2, 3] ct = Some sellado \<and>
    descifrar demo_cnsa demo_kem 0 (ct @ nonce @ sellado) = Some (Inr [1, 2, 3])"
proof -
  obtain blob where b: "cifrar_para demo_cnsa demo_kem demo_fuente (dk_ek demo_kem 0) [1, 2, 3] 32 = Some (Inr blob, 76)"
    by (rule demo_cifrar)
  have d: "descifrar demo_cnsa demo_kem 0 blob = Some (Inr [1, 2, 3])"
    by (rule descifrar_cifrado(1) [OF demo_cnsa_ok demo_kem_ok demo_fuente_ok b refl])
  with cnsa_recipient_exact [OF demo_cnsa_ok, of demo_kem 0 blob "[1, 2, 3]"] show ?thesis by blast
qed

theorem cnsa_signatures_are_bound_witness:
  "cnsa_verificar demo_firma (cnsa_clave_de_verificacion demo_firma (replicate 32 1)) [1, 2]
    (cnsa_firmar demo_firma (replicate 32 1) [1, 2])"
  using cnsa_signatures_are_bound [OF demo_firma_ok] by blast

end
