(* ===== verification/Autoprueba.thy ===== *)
theory Autoprueba
  imports Antihacker Firma Hibrido
begin

text \<open>
  The checks of \<^verbatim>\<open>src/src/selftest.rs\<close> and \<^verbatim>\<open>run\<close>, which makes the report that \<open>Selftest\<close> latches.
  Published and frozen vectors are compared with what the primitives of this machine give, and
  generated keys with each other.  HKDF with a salt, which only the first check uses, is the
  argument \<open>H\<close> (salt, key material, info, length).  The outer option is a panic.
\<close>

section \<open>Vectors\<close>

definition hex_valor :: "char \<Rightarrow> nat" where
  "hex_valor c = (let n = of_char c in if n < 58 then n - 48 else n - 87)"

text \<open>\<^verbatim>\<open>h\<close>, on the literals of the module: pairs of lower-case hexadecimal digits.\<close>

fun vector :: "string \<Rightarrow> bytes" where
  "vector (a # b # s) = of_nat (16 * hex_valor a + hex_valor b) # vector s"
| "vector _ = []"

definition RFC5869_IKM :: string where
  "RFC5869_IKM = ''0b0b0b0b0b0b0b0b0b0b0b0b0b0b0b0b0b0b0b0b0b0b''"
definition RFC5869_SALT :: string where
  "RFC5869_SALT = ''000102030405060708090a0b0c''"
definition RFC5869_INFO :: string where
  "RFC5869_INFO = ''f0f1f2f3f4f5f6f7f8f9''"
definition RFC5869_OKM :: string where
  "RFC5869_OKM = ''3cb25f25faacd57a90434f64d0362f2a2d2d0a90cf1a5a4c5db02d56ecc4c5bf34007208d5b887185865''"
definition ARGON2_SALT :: string where
  "ARGON2_SALT = ''0102030405060708090a0b0c0d0e0f10''"
definition ARGON2_PASS :: "char32 list" where
  "ARGON2_PASS = map of_char ''correct horse''"
definition ARGON2_MASTER :: string where
  "ARGON2_MASTER = ''5d93644e2809e3ba0b45544e86a16b73d710a4787befda41324580d6d542af60''"
definition SUBKEY_INFO :: bytes where
  "SUBKEY_INFO = ascii ''quipu/v1/cipher''"
definition SUBKEY_EXPECTED :: string where
  "SUBKEY_EXPECTED = ''d90e65cda080025c232961f2bf4a6b27991842755c5341dffa484bac2f8212a9''"
definition AEAD_KEY :: string where
  "AEAD_KEY = ''5a5b58595e5f5c5d52535051565754554a4b48494e4f4c4d4243404146474445''"
definition AEAD_NONCE :: string where
  "AEAD_NONCE = ''202122232425262728292a2b2c2d2e2f3031323334353637''"
definition AEAD_PLAIN :: string where
  "AEAD_PLAIN = ''5843686143686132302d506f6c7931333035206b6e6f776e2d616e73776572''"
definition AEAD_AAD :: string where
  "AEAD_AAD = ''63616265636572612d636f6d6f2d414144''"
definition AEAD_CIPHER :: string where
  "AEAD_CIPHER =
     ''dbfa22815adba089dfe8a52d8defc8b8a55301bb2fec13ee5284dfb2b91249e07beb10eac5272f204be6f5c31e3dde''"

text \<open>\<^verbatim>\<open>FALLO_INYECTADO\<close> without the feature \<^verbatim>\<open>selftest-fault\<close>, which no published build has.\<close>

definition FALLO_INYECTADO :: bool where
  "FALLO_INYECTADO = False"

section \<open>The checks\<close>

definition check_hkdf_rfc5869_contra :: "(bytes \<Rightarrow> bytes \<Rightarrow> bytes \<Rightarrow> nat \<Rightarrow> bytes option) \<Rightarrow> bytes \<Rightarrow> bool" where
  "check_hkdf_rfc5869_contra H esperado =
     (case H (vector RFC5869_SALT) (vector RFC5869_IKM) (vector RFC5869_INFO) (length esperado) of
        None \<Rightarrow> False
      | Some okm \<Rightarrow> ct_eq okm esperado)"

definition check_hkdf_rfc5869 :: "(bytes \<Rightarrow> bytes \<Rightarrow> bytes \<Rightarrow> nat \<Rightarrow> bytes option) \<Rightarrow> bool" where
  "check_hkdf_rfc5869 H = check_hkdf_rfc5869_contra H (vector RFC5869_OKM)"

definition check_argon2id :: "'c cripto_scheme \<Rightarrow> bool option" where
  "check_argon2id C =
     do {
       let salt = vector ARGON2_SALT;
       let params = \<lparr>mem_kib = 64, iterations = 1, parallelism = 1\<rparr>;
       master \<leftarrow> derive_master_key C ARGON2_PASS salt [] params;
       Some (ct_eq master (vector ARGON2_MASTER))
     }"

definition check_derive_subkey :: "'c cripto_scheme \<Rightarrow> bool option" where
  "check_derive_subkey C =
     do {
       sub \<leftarrow> derive_subkey C (vector ARGON2_MASTER) SUBKEY_INFO;
       Some (ct_eq sub (vector SUBKEY_EXPECTED))
     }"

definition check_aead_encrypt_contra :: "'c cripto_scheme \<Rightarrow> bytes \<Rightarrow> bool option" where
  "check_aead_encrypt_contra C esperado =
     (if FALLO_INYECTADO then Some False
      else do {
        ct \<leftarrow> cipher_encrypt C (vector AEAD_KEY) (vector AEAD_NONCE) (vector AEAD_PLAIN) (vector AEAD_AAD);
        Some (ct_eq ct esperado)
      })"

definition check_aead_encrypt :: "'c cripto_scheme \<Rightarrow> bool option" where
  "check_aead_encrypt C = check_aead_encrypt_contra C (vector AEAD_CIPHER)"

definition check_aead_decrypt :: "'c cripto_scheme \<Rightarrow> bool" where
  "check_aead_decrypt C =
     (case cipher_decrypt C (vector AEAD_KEY) (vector AEAD_NONCE) (vector AEAD_CIPHER) (vector AEAD_AAD) of
        Inr pt \<Rightarrow> ct_eq pt (vector AEAD_PLAIN)
      | Inl _ \<Rightarrow> False)"

definition check_aead_rejects_tamper :: "'c cripto_scheme \<Rightarrow> bool" where
  "check_aead_rejects_tamper C =
     (let ct = vector AEAD_CIPHER;
          ct = ct[0 := ct ! 0 XOR 0x01]
      in case cipher_decrypt C (vector AEAD_KEY) (vector AEAD_NONCE) ct (vector AEAD_AAD) of
           Inr _ \<Rightarrow> False | Inl _ \<Rightarrow> True)"

definition check_aead_rejects_wrong_aad :: "'c cripto_scheme \<Rightarrow> bool" where
  "check_aead_rejects_wrong_aad C =
     (case cipher_decrypt C (vector AEAD_KEY) (vector AEAD_NONCE) (vector AEAD_CIPHER) (ascii ''aad-distinto'') of
        Inr _ \<Rightarrow> False | Inl _ \<Rightarrow> True)"

definition check_mlkem_pairwise ::
  "'c cripto_scheme \<Rightarrow> ('x, 'p, 'd, 'k, 'g, 'z) kem_scheme \<Rightarrow> 'r fuente \<Rightarrow> 'r \<Rightarrow> (bool \<times> 'r) option" where
  "check_mlkem_pairwise C M fuente r =
     (case hybrid_keypair_unchecked M fuente r of
        (Inl _, r) \<Rightarrow> Some (False, r)
      | (Inr (pk, sk), r) \<Rightarrow>
          (case encapsulate C M fuente pk r of
             None \<Rightarrow> None
           | Some (Inl _, r) \<Rightarrow> Some (False, r)
           | Some (Inr (k1, enc), r) \<Rightarrow>
               (case decapsulate C M sk enc of
                  None \<Rightarrow> None
                | Some None \<Rightarrow> Some (False, r)
                | Some (Some k2) \<Rightarrow> Some (ct_eq k1 k2, r))))"

text \<open>Both pairs are generated before either result is looked at.\<close>

definition check_mlkem_wrong_key_differs ::
  "'c cripto_scheme \<Rightarrow> ('x, 'p, 'd, 'k, 'g, 'z) kem_scheme \<Rightarrow> 'r fuente \<Rightarrow> 'r \<Rightarrow> (bool \<times> 'r) option" where
  "check_mlkem_wrong_key_differs C M fuente r =
     (let (p1, r) = hybrid_keypair_unchecked M fuente r;
          (p2, r) = hybrid_keypair_unchecked M fuente r
      in case (p1, p2) of
           (Inr (pk, _), Inr (_, sk2)) \<Rightarrow>
             (case encapsulate C M fuente pk r of
                None \<Rightarrow> None
              | Some (Inl _, r) \<Rightarrow> Some (False, r)
              | Some (Inr (k1, enc), r) \<Rightarrow>
                  (case decapsulate C M sk2 enc of
                     None \<Rightarrow> None
                   | Some None \<Rightarrow> Some (True, r)
                   | Some (Some k2) \<Rightarrow> Some (\<not> ct_eq k1 k2, r)))
         | _ \<Rightarrow> Some (False, r))"

definition check_signature_pairwise ::
  "('e, 'm, 'g, 'z) firma_scheme \<Rightarrow> 'r fuente \<Rightarrow> 'r \<Rightarrow> (bool \<times> 'r) option" where
  "check_signature_pairwise F fuente r =
     do {
       ((vk, sk), r) \<leftarrow> generate_keypair_unchecked F fuente r;
       let firma = sk_sign F sk (ascii ''quipu selftest'');
       Some (vk_verify F vk (ascii ''quipu selftest'') firma, r)
     }"

definition check_signature_rejects_forgery ::
  "('e, 'm, 'g, 'z) firma_scheme \<Rightarrow> 'r fuente \<Rightarrow> 'r \<Rightarrow> (bool \<times> 'r) option" where
  "check_signature_rejects_forgery F fuente r =
     do {
       ((vk, sk), r) \<leftarrow> generate_keypair_unchecked F fuente r;
       let firma = sk_sign F sk (ascii ''quipu selftest'');
       let firma = firma[0 := firma ! 0 XOR 0x01];
       Some (\<not> vk_verify F vk (ascii ''quipu selftest'') firma, r)
     }"

definition check_signature_rejects_wrong_message ::
  "('e, 'm, 'g, 'z) firma_scheme \<Rightarrow> 'r fuente \<Rightarrow> 'r \<Rightarrow> (bool \<times> 'r) option" where
  "check_signature_rejects_wrong_message F fuente r =
     do {
       ((vk, sk), r) \<leftarrow> generate_keypair_unchecked F fuente r;
       let firma = sk_sign F sk (ascii ''mensaje A'');
       Some (\<not> vk_verify F vk (ascii ''mensaje B'') firma, r)
     }"

text \<open>\<^verbatim>\<open>aleatorio::bytes::<32>\<close> is \<open>llenar\<close>; both draws are made before either is looked at.\<close>

definition check_rng_health :: "'r fuente \<Rightarrow> 'r \<Rightarrow> bool \<times> 'r" where
  "check_rng_health fuente r =
     (let (a, r) = llenar fuente 32 r;
          (b, r) = llenar fuente 32 r
      in case (a, b) of
           (Inr a, Inr b) \<Rightarrow> (a \<noteq> b \<and> a \<noteq> replicate 32 0 \<and> b \<noteq> replicate 32 0, r)
         | _ \<Rightarrow> (False, r))"

definition check_ct_eq_discriminates :: bool where
  "check_ct_eq_discriminates \<longleftrightarrow>
     ct_eq (ascii ''identico'') (ascii ''identico'') \<and> \<not> ct_eq (ascii ''identico'') (ascii ''distinto'') \<and>
     \<not> ct_eq (ascii ''ab'') (ascii ''abc'')"

section \<open>The run\<close>

text \<open>The checks run in the order of the report.  Texts are lists of UTF-8 bytes.\<close>

definition informe_de :: "bool list \<Rightarrow> report" where
  "informe_de pasan =
     \<lparr>report_checks = map (\<lambda>(nombre, origen, pasa).
        \<lparr>check_name = nombre, check_passed = pasa, check_source = origen\<rparr>)
       (zip
         [''HKDF-SHA256'',
          ''Argon2id (derivaci'' @ [CHR 0xC3, CHR 0xB3] @ ''n maestra)'',
          ''HKDF (subclave de dominio)'',
          ''XChaCha20-Poly1305 cifra'',
          ''XChaCha20-Poly1305 descifra'',
          ''AEAD rechaza manipulaci'' @ [CHR 0xC3, CHR 0xB3] @ ''n'',
          ''AEAD rechaza AAD ajeno'',
          ''ML-KEM-1024 par consistente'',
          ''ML-KEM rechazo impl'' @ [CHR 0xC3, CHR 0xAD] @ ''cito'',
          ''Firma h'' @ [CHR 0xC3, CHR 0xAD] @ ''brida par consistente'',
          ''Firma rechaza falsificaci'' @ [CHR 0xC3, CHR 0xB3] @ ''n'',
          ''Firma rechaza otro mensaje'',
          ''Salud del RNG'',
          ''Comparaci'' @ [CHR 0xC3, CHR 0xB3] @ ''n en tiempo constante'']
         (zip
           [''RFC 5869 A.1 caso 1'',
            ''vector congelado del proyecto'',
            ''vector congelado del proyecto'',
            ''vector congelado del proyecto'',
            ''vector congelado del proyecto'',
            ''prueba negativa'',
            ''prueba negativa'',
            ''PCT (FIPS 140-3 '' @ [CHR 0xC2, CHR 0xA7] @ ''7.10.3)'',
            ''prueba negativa'',
            ''PCT (FIPS 140-3 '' @ [CHR 0xC2, CHR 0xA7] @ ''7.10.3)'',
            ''prueba negativa'',
            ''prueba negativa'',
            ''prueba continua de RNG'',
            ''meta-prueba de defensa'']
           pasan))\<rparr>"

definition run ::
  "(bytes \<Rightarrow> bytes \<Rightarrow> bytes \<Rightarrow> nat \<Rightarrow> bytes option) \<Rightarrow> 'c cripto_scheme \<Rightarrow>
    ('x, 'p, 'd, 'k, 'g, 'z) kem_scheme \<Rightarrow> ('e, 'm, 'h, 'y) firma_scheme \<Rightarrow> 'r fuente \<Rightarrow> 'r \<Rightarrow>
    (report \<times> 'r) option" where
  "run H C M F fuente r =
     do {
       argon \<leftarrow> check_argon2id C;
       subclave \<leftarrow> check_derive_subkey C;
       cifra \<leftarrow> check_aead_encrypt C;
       (par, r) \<leftarrow> check_mlkem_pairwise C M fuente r;
       (rechazo, r) \<leftarrow> check_mlkem_wrong_key_differs C M fuente r;
       (firma, r) \<leftarrow> check_signature_pairwise F fuente r;
       (falsa, r) \<leftarrow> check_signature_rejects_forgery F fuente r;
       (otro, r) \<leftarrow> check_signature_rejects_wrong_message F fuente r;
       let (salud, r) = check_rng_health fuente r;
       Some (informe_de
         [check_hkdf_rfc5869 H, argon, subclave, cifra, check_aead_decrypt C,
          check_aead_rejects_tamper C, check_aead_rejects_wrong_aad C, par, rechazo, firma, falsa, otro,
          salud, check_ct_eq_discriminates], r)
     }"

section \<open>What a passed run has seen\<close>

lemma informe_ok: "length pasan = 14 \<Longrightarrow> report_ok (informe_de pasan) \<longleftrightarrow> list_all id pasan"
  by (simp add: report_ok_def informe_de_def numeral_eq_Suc length_Suc_conv del: of_char_Char)
    (auto simp: numeral_eq_Suc length_Suc_conv)

lemma ct_eq_refl [simp]: "ct_eq a a"
  by (simp add: ct_eq_iff)

text \<open>The vectors that the primitives of a machine must reproduce, and what they must refuse.\<close>

definition vectores_ok :: "(bytes \<Rightarrow> bytes \<Rightarrow> bytes \<Rightarrow> nat \<Rightarrow> bytes option) \<Rightarrow> 'c cripto_scheme \<Rightarrow> bool" where
  "vectores_ok H C \<longleftrightarrow>
     H (vector RFC5869_SALT) (vector RFC5869_IKM) (vector RFC5869_INFO) 42 = Some (vector RFC5869_OKM) \<and>
     derive_master_key C ARGON2_PASS (vector ARGON2_SALT) [] \<lparr>mem_kib = 64, iterations = 1, parallelism = 1\<rparr> =
       Some (vector ARGON2_MASTER) \<and>
     derive_subkey C (vector ARGON2_MASTER) SUBKEY_INFO = Some (vector SUBKEY_EXPECTED) \<and>
     cipher_encrypt C (vector AEAD_KEY) (vector AEAD_NONCE) (vector AEAD_PLAIN) (vector AEAD_AAD) =
       Some (vector AEAD_CIPHER) \<and>
     cipher_decrypt C (vector AEAD_KEY) (vector AEAD_NONCE) (vector AEAD_CIPHER) (vector AEAD_AAD) =
       Inr (vector AEAD_PLAIN) \<and>
     (\<forall>p. cipher_decrypt C (vector AEAD_KEY) (vector AEAD_NONCE) ((0xda) # tl (vector AEAD_CIPHER))
        (vector AEAD_AAD) \<noteq> Inr p) \<and>
     (\<forall>p. cipher_decrypt C (vector AEAD_KEY) (vector AEAD_NONCE) (vector AEAD_CIPHER) (ascii ''aad-distinto'') \<noteq> Inr p)"

lemma tampered: "(vector AEAD_CIPHER)[0 := vector AEAD_CIPHER ! 0 XOR 0x01] = 0xda # tl (vector AEAD_CIPHER)"
  by (simp add: AEAD_CIPHER_def hex_valor_def)

lemma length_OKM: "length (vector RFC5869_OKM) = 42"
  by (simp add: RFC5869_OKM_def)

lemma run_Some:
  assumes "run H C M F fuente r = Some (informe, r')"
  obtains argon subclave cifra par rechazo firma falsa otro salud r1 r2 r3 r4 r5
  where "check_argon2id C = Some argon" "check_derive_subkey C = Some subclave"
    "check_aead_encrypt C = Some cifra" "check_mlkem_pairwise C M fuente r = Some (par, r1)"
    "check_mlkem_wrong_key_differs C M fuente r1 = Some (rechazo, r2)"
    "check_signature_pairwise F fuente r2 = Some (firma, r3)"
    "check_signature_rejects_forgery F fuente r3 = Some (falsa, r4)"
    "check_signature_rejects_wrong_message F fuente r4 = Some (otro, r5)"
    "check_rng_health fuente r5 = (salud, r')"
    "informe = informe_de [check_hkdf_rfc5869 H, argon, subclave, cifra, check_aead_decrypt C,
       check_aead_rejects_tamper C, check_aead_rejects_wrong_aad C, par, rechazo, firma, falsa, otro,
       salud, check_ct_eq_discriminates]"
  using assms by (auto simp: run_def split: bind_splits prod.splits)

lemma vectores_iff:
  assumes "check_argon2id C = Some argon" "check_derive_subkey C = Some subclave" "check_aead_encrypt C = Some cifra"
  shows "vectores_ok H C \<longleftrightarrow> check_hkdf_rfc5869 H \<and> argon \<and> subclave \<and> cifra \<and> check_aead_decrypt C \<and>
    check_aead_rejects_tamper C \<and> check_aead_rejects_wrong_aad C"
proof -
  have H: "check_hkdf_rfc5869 H \<longleftrightarrow>
      H (vector RFC5869_SALT) (vector RFC5869_IKM) (vector RFC5869_INFO) 42 = Some (vector RFC5869_OKM)"
    by (auto simp: check_hkdf_rfc5869_def check_hkdf_rfc5869_contra_def length_OKM ct_eq_iff split: option.splits)
  have A: "argon \<longleftrightarrow> derive_master_key C ARGON2_PASS (vector ARGON2_SALT) []
      \<lparr>mem_kib = 64, iterations = 1, parallelism = 1\<rparr> = Some (vector ARGON2_MASTER)"
    using assms(1) by (auto simp: check_argon2id_def ct_eq_iff split: bind_splits)
  have S: "subclave \<longleftrightarrow> derive_subkey C (vector ARGON2_MASTER) SUBKEY_INFO = Some (vector SUBKEY_EXPECTED)"
    using assms(2) by (auto simp: check_derive_subkey_def ct_eq_iff split: bind_splits)
  have E: "cifra \<longleftrightarrow> cipher_encrypt C (vector AEAD_KEY) (vector AEAD_NONCE) (vector AEAD_PLAIN) (vector AEAD_AAD) =
      Some (vector AEAD_CIPHER)"
    using assms(3)
    by (auto simp: check_aead_encrypt_def check_aead_encrypt_contra_def FALLO_INYECTADO_def ct_eq_iff split: bind_splits)
  have D: "check_aead_decrypt C \<longleftrightarrow> cipher_decrypt C (vector AEAD_KEY) (vector AEAD_NONCE) (vector AEAD_CIPHER)
      (vector AEAD_AAD) = Inr (vector AEAD_PLAIN)"
    by (auto simp: check_aead_decrypt_def ct_eq_iff split: sum.splits)
  have T: "check_aead_rejects_tamper C \<longleftrightarrow> (\<forall>p. cipher_decrypt C (vector AEAD_KEY) (vector AEAD_NONCE)
      (0xda # tl (vector AEAD_CIPHER)) (vector AEAD_AAD) \<noteq> Inr p)"
    unfolding check_aead_rejects_tamper_def Let_def tampered by (auto split: sum.splits)
  have W: "check_aead_rejects_wrong_aad C \<longleftrightarrow> (\<forall>p. cipher_decrypt C (vector AEAD_KEY) (vector AEAD_NONCE)
      (vector AEAD_CIPHER) (ascii ''aad-distinto'') \<noteq> Inr p)"
    unfolding check_aead_rejects_wrong_aad_def by (auto split: sum.splits)
  show ?thesis unfolding vectores_ok_def H A S E D T W by blast
qed

lemma ct_eq_discriminates: "check_ct_eq_discriminates"
  by (simp add: check_ct_eq_discriminates_def ct_eq_iff ascii_def)

text \<open>Pairs that are generated agree, if the primitives do.\<close>

lemma pairwise_true:
  assumes C: "cripto_ok C" and M: "kem_ok M" and f: "\<And>n q. \<exists>b q'. llenar fuente n q = (Inr b, q')"
  shows "\<exists>r'. check_mlkem_pairwise C M fuente r = Some (True, r')"
proof -
  obtain b r1 where "llenar fuente 32 r = (Inr b, r1)" using f by blast
  then obtain pk sk where p: "hybrid_keypair_unchecked M fuente r = (Inr (pk, sk), r1)"
    by (cases "x_random M (chacha_from_seed M b)"; cases "ml_generate M (snd (x_random M (chacha_from_seed M b)))")
      (auto simp: hybrid_keypair_unchecked_def generador_def)
  obtain b2 r2 where "llenar fuente 32 r1 = (Inr b2, r2)" using f by blast
  from encapsulate_total [OF C this] obtain k enc where e: "encapsulate C M fuente pk r1 = Some (Inr (k, enc), r2)"
    by blast
  have "decapsulate C M sk enc = Some (Some k)"
    using encapsulate_Inr(2) [OF M hybrid_keypair_pair(1) [OF M p] e] .
  then show ?thesis using p e by (simp add: check_mlkem_pairwise_def)
qed

lemma wrong_key_total:
  assumes C: "cripto_ok C" and M: "kem_ok M" and f: "\<And>n q. \<exists>b q'. llenar fuente n q = (Inr b, q')"
  shows "\<exists>x r'. check_mlkem_wrong_key_differs C M fuente r = Some (x, r')"
proof -
  obtain p1 r1 where p: "hybrid_keypair_unchecked M fuente r = (p1, r1)" by fastforce
  obtain p2 r2 where q: "hybrid_keypair_unchecked M fuente r1 = (p2, r2)" by fastforce
  show ?thesis
  proof (cases "\<exists>pk sk pk2 sk2. p1 = Inr (pk, sk) \<and> p2 = Inr (pk2, sk2)")
    case True
    then obtain pk sk pk2 sk2 where k: "p1 = Inr (pk, sk)" "p2 = Inr (pk2, sk2)" by blast
    obtain b r3 where "llenar fuente 32 r2 = (Inr b, r3)" using f by blast
    from encapsulate_total [OF C this] obtain k1 enc where e: "encapsulate C M fuente pk r2 = Some (Inr (k1, enc), r3)"
      by blast
    have "\<exists>x. decapsulate C M sk2 enc = Some x"
      using hybrid_combine_total [OF C] by (fastforce simp: decapsulate_def split: prod.splits)
    then show ?thesis using p q k e by (auto simp: check_mlkem_wrong_key_differs_def split: option.splits)
  next
    case False
    then show ?thesis using p q by (auto simp: check_mlkem_wrong_key_differs_def split: sum.splits)
  qed
qed

lemma keypair_total:
  assumes f: "\<And>n q. \<exists>b q'. llenar fuente n q = (Inr b, q')"
  shows "\<exists>vk sk r'. generate_keypair_unchecked F fuente r = Some ((vk, sk), r') \<and> vk = sk_verifying_key F sk"
proof -
  obtain a r1 where a: "llenar fuente ED25519_SEED_LEN r = (Inr a, r1)" using f by blast
  obtain b r2 where "llenar fuente MLDSA_SEED_LEN r1 = (Inr b, r2)" using f by blast
  with a have "generate_keypair_unchecked F fuente r =
      (let sk = \<lparr>sk_ed_seed = a, sk_ml_seed = b\<rparr> in Some ((sk_verifying_key F sk, sk), r2))"
    by (simp add: generate_keypair_unchecked_def llenar_expect_def)
  then show ?thesis unfolding Let_def by blast
qed

lemma ensure_blocks: "\<not> report_ok informe \<Longrightarrow> encode informe C fuente data pw dict opts q = None"
  by (simp add: encode_def ensure_def try_ensure_def get_or_init_def Let_def)

lemma informe_nth:
  assumes "length pasan = 14" and "i < 14"
  shows "length (report_checks (informe_de pasan)) = 14 \<and> check_passed (report_checks (informe_de pasan) ! i) = pasan ! i"
  using assms by (simp add: informe_de_def del: of_char_Char)

section \<open>Properties\<close>

text \<open>Whatever the primitives: the report passes only if every vector was reproduced.\<close>

lemma run_vectores:
  assumes "run H C M F fuente r = Some (informe, r')" and "report_ok informe"
  shows "vectores_ok H C"
proof -
  obtain argon subclave cifra par rechazo firma falsa otro salud where
      c: "check_argon2id C = Some argon" "check_derive_subkey C = Some subclave" "check_aead_encrypt C = Some cifra"
      and i: "informe = informe_de [check_hkdf_rfc5869 H, argon, subclave, cifra, check_aead_decrypt C,
        check_aead_rejects_tamper C, check_aead_rejects_wrong_aad C, par, rechazo, firma, falsa, otro,
        salud, check_ct_eq_discriminates]"
    using run_Some [OF assms(1)] by metis
  show ?thesis using assms(2) by (simp add: i informe_ok vectores_iff [OF c])
qed

lemma run_passes_pairs:
  assumes C: "cripto_ok C" and M: "kem_ok M" and F: "firma_ok F"
    and f: "\<And>n q. \<exists>b q'. llenar fuente n q = (Inr b, q')"
    and secret: "length (utf8 (nfkc C ARGON2_PASS)) < 2 ^ 32"
  shows "\<exists>informe r'. run H C M F fuente r = Some (informe, r') \<and>
    length (report_checks informe) = 14 \<and>
    check_passed (report_checks informe ! 7) \<and> check_passed (report_checks informe ! 9) \<and>
    check_passed (report_checks informe ! 13)"
proof -
  have sane: "is_sane \<lparr>mem_kib = 64, iterations = 1, parallelism = 1\<rparr>" by (simp add: is_sane_unat)
  have "length (vector ARGON2_SALT) = KDF_SALT_LEN" by (simp add: ARGON2_SALT_def KDF_SALT_LEN_def)
  from derive_master_key_total [OF C sane this, of ARGON2_PASS "[]"] secret
  obtain argon where argon: "check_argon2id C = Some argon" by (auto simp: check_argon2id_def)
  obtain subclave where sub: "check_derive_subkey C = Some subclave"
    using derive_subkey_total [OF C, of "vector ARGON2_MASTER" SUBKEY_INFO] by (auto simp: check_derive_subkey_def)
  have "length (vector AEAD_PLAIN) < XCHACHA_LIMIT" by (simp add: AEAD_PLAIN_def XCHACHA_LIMIT_def)
  from cipher_encrypt_total [OF C this, of "vector AEAD_KEY" "vector AEAD_NONCE" "vector AEAD_AAD"]
  obtain cifra where cifra: "check_aead_encrypt C = Some cifra"
    by (auto simp: check_aead_encrypt_def check_aead_encrypt_contra_def FALLO_INYECTADO_def)
  obtain r1 where par: "check_mlkem_pairwise C M fuente r = Some (True, r1)"
    using pairwise_true [OF C M f] by blast
  obtain rechazo r2 where rechazo: "check_mlkem_wrong_key_differs C M fuente r1 = Some (rechazo, r2)"
    using wrong_key_total [OF C M f] by blast
  obtain sk1 r3 where k1: "generate_keypair_unchecked F fuente r2 = Some ((sk_verifying_key F sk1, sk1), r3)"
    using keypair_total [OF f] by metis
  obtain sk2 r4 where k2: "generate_keypair_unchecked F fuente r3 = Some ((sk_verifying_key F sk2, sk2), r4)"
    using keypair_total [OF f] by metis
  obtain sk3 r5 where k3: "generate_keypair_unchecked F fuente r4 = Some ((sk_verifying_key F sk3, sk3), r5)"
    using keypair_total [OF f] by metis
  have firma: "check_signature_pairwise F fuente r2 = Some (True, r3)"
    by (simp add: check_signature_pairwise_def k1 vk_verify_sign [OF F])
  obtain falsa otro where resto: "check_signature_rejects_forgery F fuente r3 = Some (falsa, r4)"
      "check_signature_rejects_wrong_message F fuente r4 = Some (otro, r5)"
    by (simp add: check_signature_rejects_forgery_def check_signature_rejects_wrong_message_def k2 k3 Let_def)
  obtain salud r6 where salud: "check_rng_health fuente r5 = (salud, r6)" by fastforce
  let ?pasan = "[check_hkdf_rfc5869 H, argon, subclave, cifra, check_aead_decrypt C,
       check_aead_rejects_tamper C, check_aead_rejects_wrong_aad C, True, rechazo, True, falsa, otro,
       salud, check_ct_eq_discriminates]"
  have "run H C M F fuente r = Some (informe_de ?pasan, r6)"
    by (simp only: run_def argon sub cifra par rechazo firma resto salud Option.bind.bind_lunit prod.case Let_def)
  then show ?thesis
    using informe_nth [of ?pasan 7] informe_nth [of ?pasan 9] informe_nth [of ?pasan 13] ct_eq_discriminates
    by (intro exI [of _ "informe_de ?pasan"] exI [of _ r6] conjI) (simp_all only: list.size nth_Cons_numeral, simp_all)
qed

text \<open>
   Without entropy the self-test does not report, it panics: on a machine whose source fails at
  every draw the checks of the signatures die in \<^verbatim>\<open>expect("RNG del sistema")\<close>, before the
  check of the generator could say why, although that check itself is made to fail quietly.
\<close>
lemma selftest_without_entropy_panics:
  assumes f: "\<And>n q. \<exists>e q'. llenar fuente n q = (Inl e, q')"
  shows "run H C M F fuente r = None \<and> (\<exists>r'. check_rng_health fuente r = (False, r'))"
proof
  have "generate_keypair_unchecked F fuente q = None" for q
  proof -
    obtain e q' where "llenar fuente ED25519_SEED_LEN q = (Inl e, q')" using f by blast
    then show ?thesis by (simp add: generate_keypair_unchecked_def llenar_expect_def)
  qed
  then have "check_signature_pairwise F fuente q = None" for q by (simp add: check_signature_pairwise_def)
  then show "run H C M F fuente r = None" by (auto simp: run_def split: bind_splits prod.splits)
  obtain e r1 where a: "llenar fuente 32 r = (Inl e, r1)" using f by blast
  obtain e' r2 where "llenar fuente 32 r1 = (Inl e', r2)" using f by blast
  with a show "\<exists>r'. check_rng_health fuente r = (False, r')" by (simp add: check_rng_health_def)
qed

section \<open>Concrete inputs\<close>

text \<open>
  C30.  The self-test decides for the whole process.  Whatever the primitives of the machine are, a run that
  completes leaves a report under which \<open>encode\<close> panics, whatever its arguments, unless they reproduced
  every published and frozen vector (HKDF, Argon2id, the subkey, the AEAD in both directions) and refused
  the tampered ciphertext and the foreign associated data: nothing is encrypted on such a machine.  And where
  the primitives meet their laws and the system delivers entropy, the run does complete, with fourteen
  checks of which the pairs that it generates (ML-KEM, the hybrid signature) and the comparison pass.
\<close>
theorem selftest_decides:
  "(run H C M F fuente r = Some (informe, r') \<and> \<not> vectores_ok H C \<longrightarrow>
      encode informe C fuente data pw dict opts q = None) \<and>
    (cripto_ok C \<and> kem_ok M \<and> firma_ok F \<and> (\<forall>n q. \<exists>b q'. llenar fuente n q = (Inr b, q')) \<and>
      length (utf8 (nfkc C ARGON2_PASS)) < 2 ^ 32 \<longrightarrow>
      (\<exists>informe r'. run H C M F fuente r = Some (informe, r') \<and>
        length (report_checks informe) = 14 \<and>
        check_passed (report_checks informe ! 7) \<and> check_passed (report_checks informe ! 9) \<and>
        check_passed (report_checks informe ! 13)))"
proof (intro conjI impI)
  assume "run H C M F fuente r = Some (informe, r') \<and> \<not> vectores_ok H C"
  then have "\<not> report_ok informe" using run_vectores [of H C M F fuente r informe r'] by blast
  then show "encode informe C fuente data pw dict opts q = None" by (rule ensure_blocks)
qed (use run_passes_pairs [of C M F fuente H r] in blast)

theorem selftest_decides_witness:
  "\<exists>informe r'. run (\<lambda>_ _ _ _. None) demo_cripto demo_kem demo_firma demo_fuente 0 = Some (informe, r') \<and>
    length (report_checks informe) = 14 \<and> check_passed (report_checks informe ! 7) \<and>
    encode informe demo_cripto demo_fuente [1] [97] (projr flagship) options_default 0 = None"
proof -
  have "\<exists>b q'. llenar demo_fuente n q = (Inr b, q')" for n q by (simp add: demo_fill)
  moreover have "length (utf8 (nfkc demo_cripto ARGON2_PASS)) < 2 ^ 32"
    by (simp add: demo_cripto_def ARGON2_PASS_def utf8_def utf8_char_def Let_def)
  ultimately obtain informe r' where r: "run (\<lambda>_ _ _ _. None) demo_cripto demo_kem demo_firma demo_fuente 0 = Some (informe, r')"
      "length (report_checks informe) = 14" "check_passed (report_checks informe ! 7)"
    using selftest_decides [of "\<lambda>_ _ _ _. None" demo_cripto demo_kem demo_firma demo_fuente 0,
        THEN conjunct2] demo_cripto_ok demo_kem_ok demo_firma_ok by blast
  have "\<not> vectores_ok (\<lambda>_ _ _ _. None) demo_cripto" by (simp add: vectores_ok_def)
  then show ?thesis
    using selftest_decides [of "\<lambda>_ _ _ _. None" demo_cripto demo_kem demo_firma demo_fuente 0 informe r', THEN conjunct1] r
    by blast
qed

lemma selftest_without_entropy_panics_example:
  "run (\<lambda>_ _ _ _. None) demo_cripto demo_kem demo_firma (\<lambda>r n. (Inl None, r)) (0 :: nat) = None"
proof -
  have f: "\<exists>e q'. llenar (\<lambda>r n. (Inl None, r)) n q = (Inl e, q')" for n and q :: nat
    by (simp add: llenar_def llenar_desde.simps INTENTOS_def codigo_transitorio_def)
  show ?thesis by (rule selftest_without_entropy_panics [OF f, THEN conjunct1])
qed

end
