(* ===== verification/Ceremonia.thy ===== *)
theory Ceremonia
  imports Custodia Http
begin

text \<open>
  \<^verbatim>\<open>crates/quipu-oprf-server/src/bin/custodia-seed.rs\<close>, the operator's tool: it deals the seed of the
  service in shares, after testing that they restore it, and restores it from the lines of
  hexadecimal that the operator brings together.  Arguments and texts are UTF-8 bytes; the
  standard input is an argument, the result the exit code and the standard output (what goes to
  the standard error is not modelled).  The outer option is a panic.
\<close>

section \<open>Command line and input\<close>

datatype entrada = Terminal | Ilegible | Texto bytes

definition SUCCESS :: nat where "SUCCESS = 0"
definition FAILURE :: nat where "FAILURE = 1"
definition USO :: nat where "USO = 2"

definition leer_stdin :: "entrada \<Rightarrow> nat + bytes" where
  "leer_stdin e = (case e of Terminal \<Rightarrow> Inl USO | Ilegible \<Rightarrow> Inl FAILURE | Texto s \<Rightarrow> Inr s)"

definition valor_arg :: "bytes list \<Rightarrow> bytes \<Rightarrow> bytes option" where
  "valor_arg args nombre =
     (case find (\<lambda>i. args ! i = nombre) [0..<length args] of
        None \<Rightarrow> None
      | Some i \<Rightarrow> if i + 1 < length args then Some (args ! (i + 1)) else None)"

text \<open>\<^verbatim>\<open>str::parse::<u8>\<close>: digits, perhaps after a plus sign, of a number that fits.\<close>

definition parse_u8 :: "bytes \<Rightarrow> u8 option" where
  "parse_u8 s =
     (let d = (case s of c # cs \<Rightarrow> if c = 43 then cs else s | [] \<Rightarrow> s)
      in if d = [] \<or> \<not> list_all (\<lambda>c. 48 \<le> c \<and> c \<le> 57) d then None
         else let n = foldl (\<lambda>acc c. acc * 10 + (unat c - 48)) 0 d
              in if n < 256 then Some (of_nat n) else None)"

text \<open>\<^verbatim>\<open>str::lines\<close>: the last line may lack its end, and a carriage return before the end is dropped.\<close>

definition sin_retorno :: "bytes \<Rightarrow> bytes" where
  "sin_retorno l = (if l \<noteq> [] \<and> last l = 13 then butlast l else l)"

fun lineas_desde :: "bytes \<Rightarrow> bytes \<Rightarrow> bytes list" where
  "lineas_desde [] l = (if l = [] then [] else [l])"
| "lineas_desde (c # s) l = (if c = 10 then sin_retorno l # lineas_desde s [] else lineas_desde s (l @ [c]))"

definition lineas :: "bytes \<Rightarrow> bytes list" where
  "lineas s = lineas_desde s []"

section \<open>Dealing\<close>

definition linea_clave :: bytes where
  "linea_clave = ascii ''# clave p'' @ [0xC3, 0xBA] @ ascii ''blica (AN'' @ [0xC3, 0x93] @
     ascii ''TALA: verifica cualquier restauraci'' @ [0xC3, 0xB3] @ ascii ''n futura)''"

definition linea_cuantas :: "u8 \<Rightarrow> u8 \<Rightarrow> bytes" where
  "linea_cuantas umbral partes =
     ascii ''# '' @ decimal (unat partes) @ ascii '' comparticiones, hacen falta '' @ decimal (unat umbral)"

definition linea_verificado :: "u8 \<Rightarrow> bytes" where
  "linea_verificado umbral =
     ascii ''# reparto VERIFICADO: '' @ decimal (unat umbral) @ ascii '' de ellas reconstruyen esta clave''"

definition linea_parte :: "nat \<Rightarrow> u8 \<Rightarrow> bytes" where
  "linea_parte i partes =
     ascii ''#  ^ compartici'' @ [0xC3, 0xB3] @ ascii ''n '' @ decimal i @ ascii '' de '' @ decimal (unat partes)"

definition lineas_del_reparto :: "bytes \<Rightarrow> share list \<Rightarrow> u8 \<Rightarrow> u8 \<Rightarrow> bytes list" where
  "lineas_del_reparto publica comparticiones umbral partes =
     [linea_clave, to_hex publica, linea_cuantas umbral partes, linea_verificado umbral] @
     concat (map (\<lambda>(i, c). [to_hex (share_to_bytes c), linea_parte (i + 1) partes])
       (enumerate 0 comparticiones))"

definition writeln :: "bytes list \<Rightarrow> bytes" where
  "writeln ls = concat (map (\<lambda>l. l @ [10]) ls)"

definition cmd_repartir ::
  "('s :: field, 'p) ristretto \<Rightarrow> (bytes \<Rightarrow> bytes) \<Rightarrow> 'r fuente \<Rightarrow> bytes list \<Rightarrow> entrada \<Rightarrow> 'r \<Rightarrow>
    ((nat \<times> bytes) \<times> 'r) option" where
  "cmd_repartir G sha fuente args stdin r =
     (case Option.bind (valor_arg args (ascii ''--umbral'')) parse_u8 of
        None \<Rightarrow> Some ((USO, []), r)
      | Some umbral \<Rightarrow>
          (case Option.bind (valor_arg args (ascii ''--partes'')) parse_u8 of
             None \<Rightarrow> Some ((USO, []), r)
           | Some partes \<Rightarrow>
               (case leer_stdin stdin of
                  Inl c \<Rightarrow> Some ((c, []), r)
                | Inr crudo \<Rightarrow>
                    (case from_hex_32 (trim crudo) of
                       None \<Rightarrow> Some ((FAILURE, []), r)
                     | Some seed \<Rightarrow>
                         (case clave_publica_de G seed of
                            None \<Rightarrow> None
                          | Some (Inl e) \<Rightarrow> Some ((FAILURE, []), r)
                          | Some (Inr publica) \<Rightarrow>
                              (case repartir sha fuente seed umbral partes r of
                                 (Inl e, r) \<Rightarrow> Some ((FAILURE, []), r)
                               | (Inr comparticiones, r) \<Rightarrow>
                                   let subconjunto = take (unat umbral) comparticiones
                                   in case verificar_restauracion G sha subconjunto publica of
                                        None \<Rightarrow> None
                                      | Some (Inl e) \<Rightarrow> Some ((FAILURE, []), r)
                                      | Some (Inr _) \<Rightarrow>
                                          Some ((SUCCESS, writeln (lineas_del_reparto publica comparticiones umbral partes)),
                                            r)))))))"

section \<open>Restoring\<close>

text \<open>The lines that are neither blank nor comments, as shares.\<close>

fun leer_partes :: "bytes list \<Rightarrow> share list option" where
  "leer_partes [] = Some []"
| "leer_partes (linea # ls) =
     (let l = trim linea
      in if l = [] \<or> hd l = 35 then leer_partes ls
         else
           case from_hex l of
             None \<Rightarrow> None
           | Some b \<Rightarrow>
               (case share_from_bytes b of
                  Inl _ \<Rightarrow> None
                | Inr s \<Rightarrow> map_option (Cons s) (leer_partes ls)))"

definition cmd_restaurar ::
  "('s :: field, 'p) ristretto \<Rightarrow> (bytes \<Rightarrow> bytes) \<Rightarrow> bytes list \<Rightarrow> entrada \<Rightarrow> (nat \<times> bytes) option" where
  "cmd_restaurar G sha args stdin =
     (case Option.bind (valor_arg args (ascii ''--clave-publica'')) from_hex_32 of
        None \<Rightarrow> Some (USO, [])
      | Some esperada \<Rightarrow>
          (case leer_stdin stdin of
             Inl c \<Rightarrow> Some (c, [])
           | Inr crudo \<Rightarrow>
               (case leer_partes (lineas crudo) of
                  None \<Rightarrow> Some (FAILURE, [])
                | Some partes \<Rightarrow>
                    if partes = [] then Some (FAILURE, [])
                    else
                      let mostrar = ascii ''--mostrar-seed'' \<in> set args
                      in case verificar_restauracion G sha partes esperada of
                           None \<Rightarrow> None
                         | Some (Inr seed) \<Rightarrow> Some (SUCCESS, if mostrar then writeln [to_hex seed] else [])
                         | Some (Inl e) \<Rightarrow> Some (FAILURE, []))))"

definition custodia_main ::
  "('s :: field, 'p) ristretto \<Rightarrow> (bytes \<Rightarrow> bytes) \<Rightarrow> 'r fuente \<Rightarrow> bytes list \<Rightarrow> entrada \<Rightarrow> 'r \<Rightarrow>
    ((nat \<times> bytes) \<times> 'r) option" where
  "custodia_main G sha fuente args stdin r =
     (case args of
        [] \<Rightarrow> Some ((USO, []), r)
      | a # _ \<Rightarrow>
          if a = ascii ''repartir'' then cmd_repartir G sha fuente args stdin r
          else if a = ascii ''restaurar'' then map_option (\<lambda>x. (x, r)) (cmd_restaurar G sha args stdin)
          else Some ((USO, []), r))"

section \<open>What the tools read\<close>

definition util :: "bytes \<Rightarrow> bool" where
  "util l \<longleftrightarrow> l \<noteq> [] \<and> hd l \<noteq> 35"

lemma to_hex_util: "b \<noteq> [] \<Longrightarrow> util (to_hex b)"
proof -
  assume b: "b \<noteq> []"
  then have ne: "to_hex b \<noteq> []" by (cases b) (simp_all add: to_hex_def)
  then have "hd (to_hex b) \<in> set (to_hex b)" by (rule hd_in_set)
  then have "\<exists>v. hexval (hd (to_hex b)) = Some v" by (rule to_hex_digits)
  then have "hd (to_hex b) \<noteq> 35" by (auto simp: hexval_def word_le_nat_alt split: if_splits)
  then show ?thesis using ne by (simp add: util_def)
qed

lemma leer_partes_shares:
  "filter util (map trim ls) = map (\<lambda>u. to_hex (share_to_bytes u)) us \<Longrightarrow> \<forall>u \<in> set us. share_ok u \<Longrightarrow>
    leer_partes ls = Some us"
proof (induction ls arbitrary: us)
  case (Cons l ls)
  show ?case
  proof (cases "util (trim l)")
    case True
    then obtain u vs where us: "us = u # vs" "trim l = to_hex (share_to_bytes u)"
        "filter util (map trim ls) = map (\<lambda>u. to_hex (share_to_bytes u)) vs"
      using Cons.prems(1) by (cases us) auto
    moreover have "share_from_bytes (share_to_bytes u) = Inr u"
      using Cons.prems(2) us(1) share_from_to_bytes by simp
    moreover have "leer_partes ls = Some vs" using Cons.IH [OF us(3)] Cons.prems(2) us(1) by simp
    ultimately show ?thesis using True by (simp add: util_def from_hex_to_hex)
  next
    case False
    then have "filter util (map trim ls) = map (\<lambda>u. to_hex (share_to_bytes u)) us" using Cons.prems(1) by simp
    then have "leer_partes ls = Some us" using Cons.IH Cons.prems(2) by blast
    moreover have "leer_partes (l # ls) = leer_partes ls" using False by (auto simp: util_def Let_def)
    ultimately show ?thesis by simp
  qed
qed simp

text \<open>What is dealt can be written: shares of the format, each with its own index.\<close>

lemma dealt_shares:
  assumes sha: "\<And>m. length (sha m) = 32" and f: "fuente_ok fuente" and l: "length seed = 32"
    and s: "split sha fuente seed k n r = (Inr shares, r')"
  shows "\<forall>u \<in> set shares. share_ok u" and "distinct (map sh_index shares)" and "unat k \<le> length shares"
proof -
  obtain css where k: "MIN_THRESHOLD \<le> k" "k \<le> n" and css: "length css = length (seed @ etiqueta sha seed)"
    and eq: "shares = map (\<lambda>i. \<lparr>sh_threshold = k, sh_index = of_nat i,
       sh_y = map2 (\<lambda>cs b. evaluar cs b (of_nat i)) css (seed @ etiqueta sha seed)\<rparr>) [1..<unat n + 1]"
    by (rule split_Inr [OF s f]) blast
  have ly: "length (seed @ etiqueta sha seed) = 40"
    using l sha by (simp add: etiqueta_def TAG_LEN_def)
  have u: "unat (of_nat i :: u8) = i" if "i \<in> set [1..<unat n + 1]" for i
    using that unat_u8_lt [of n] by (intro unat_of_nat_u8) auto
  then have "of_nat i \<noteq> (0 :: u8)" if "i \<in> set [1..<unat n + 1]" for i
    using that by fastforce
  then show "\<forall>u \<in> set shares. share_ok u"
    using k(1) css ly unfolding eq by (auto simp: share_ok_def TAG_LEN_def simp del: length_append)
  have "inj_on (of_nat :: nat \<Rightarrow> u8) (set [1..<unat n + 1])" using u by (intro inj_onI) metis
  then show "distinct (map sh_index shares)" unfolding eq by (simp add: comp_def distinct_map)
  show "unat k \<le> length shares" using k(2) unfolding eq by (simp add: word_le_nat_alt)
qed

lemma cmd_repartir_SUCCESS:
  assumes "cmd_repartir G sha fuente args stdin r = Some ((SUCCESS, out), r')"
  obtains crudo umbral partes seed pk shares seed' where
    "stdin = Texto crudo" "from_hex_32 (trim crudo) = Some seed"
    "clave_publica_de G seed = Some (Inr pk)" "split sha fuente seed umbral partes r = (Inr shares, r')"
    "verificar_restauracion G sha (take (unat umbral) shares) pk = Some (Inr seed')"
    "out = writeln (lineas_del_reparto pk shares umbral partes)" "length seed = 32"
proof -
  note r = assms [unfolded cmd_repartir_def leer_stdin_def SUCCESS_def FAILURE_def USO_def Let_def]
  obtain umbral where u: "Option.bind (valor_arg args (ascii ''--umbral'')) parse_u8 = Some umbral"
    using r by (auto split: option.splits)
  obtain partes where p: "Option.bind (valor_arg args (ascii ''--partes'')) parse_u8 = Some partes"
    using r u by (auto split: option.splits)
  obtain crudo where c: "stdin = Texto crudo" using r u p by (auto split: entrada.splits)
  obtain seed where s: "from_hex_32 (trim crudo) = Some seed" using r u p c by (auto split: option.splits)
  obtain pk where pk: "clave_publica_de G seed = Some (Inr pk)"
    using r u p c s by (auto split: option.splits sum.splits)
  obtain shares r1 where sh: "repartir sha fuente seed umbral partes r = (Inr shares, r1)"
    using r u p c s pk by (auto split: prod.splits sum.splits)
  obtain seed' where v: "verificar_restauracion G sha (take (unat umbral) shares) pk = Some (Inr seed')"
    using r u p c s pk sh by (auto split: option.splits sum.splits)
  have "out = writeln (lineas_del_reparto pk shares umbral partes)" "r1 = r'"
    using r u p c s pk sh v by simp_all
  moreover have "split sha fuente seed umbral partes r = (Inr shares, r1)" using sh by (simp add: repartir_Inr)
  ultimately show ?thesis
    using c s pk v from_hex_32_length [OF s, THEN conjunct1] by (intro that [of crudo seed pk umbral partes shares seed']) simp_all
qed

text \<open>What the tool answers to lines of shares that restore.\<close>

lemma cmd_restaurar_lines:
  assumes v: "verificar_restauracion G sha us pk = Some (Inr seed)" and us: "\<forall>u \<in> set us. share_ok u"
    and pk: "length pk = 32" "valor_arg args (ascii ''--clave-publica'') = Some (to_hex pk)"
    and t: "filter util (map trim (lineas texto)) = map (\<lambda>u. to_hex (share_to_bytes u)) us"
  shows "cmd_restaurar G sha args (Texto texto) =
    Some (SUCCESS, if ascii ''--mostrar-seed'' \<in> set args then writeln [to_hex seed] else [])"
proof -
  have "leer_partes (lineas texto) = Some us" using leer_partes_shares [OF t us] .
  moreover have "us \<noteq> []" using v by (auto simp: verificar_Inr combine_def)
  ultimately show ?thesis
    using pk(2) v from_hex_32_to_hex [OF pk(1)] by (simp add: cmd_restaurar_def leer_stdin_def Let_def)
qed

text \<open>
   The ceremony works end to end.  When the tool says it dealt, it printed the public key and the
  shares, and from then on: any text whose lines, besides blanks and comments, are the lines of
  enough different shares restores the very seed that was dealt, when the tool is given the printed
  key; it prints the seed if asked to, and otherwise only says yes.
\<close>
lemma ceremony_restores:
  assumes G: "ristretto_ok G" and sha: "\<And>m. length (sha m) = 32" and f: "fuente_ok fuente"
    and d: "cmd_repartir G sha fuente args stdin r = Some ((SUCCESS, out), r')"
  shows "\<exists>crudo seed umbral partes pk shares. stdin = Texto crudo \<and> from_hex_32 (trim crudo) = Some seed \<and>
    out = writeln (lineas_del_reparto pk shares umbral partes) \<and> unat umbral \<le> length shares \<and> distinct shares \<and>
    (\<forall>us texto args'. set us \<subseteq> set shares \<and> distinct us \<and> unat umbral \<le> length us \<and>
       filter util (map trim (lineas texto)) = map (\<lambda>u. to_hex (share_to_bytes u)) us \<and>
       valor_arg args' (ascii ''--clave-publica'') = Some (to_hex pk) \<longrightarrow>
       cmd_restaurar G sha args' (Texto texto) =
         Some (SUCCESS, if ascii ''--mostrar-seed'' \<in> set args' then writeln [to_hex seed] else []))"
proof -
  obtain crudo umbral partes seed pk shares seed' where c: "stdin = Texto crudo" "from_hex_32 (trim crudo) = Some seed"
    and pk: "clave_publica_de G seed = Some (Inr pk)" and s: "split sha fuente seed umbral partes r = (Inr shares, r')"
    and out: "out = writeln (lineas_del_reparto pk shares umbral partes)" and l: "length seed = 32"
    by (rule cmd_repartir_SUCCESS [OF d]) blast
  note sh = dealt_shares [OF sha f l s]
  have lpk: "length pk = 32" using pk ristretto_okD(6) [OF G] by (auto simp: clave_publica_Inr public_key_def)
  have ds: "distinct shares" using sh(2) by (simp add: distinct_map)
  have restore: "cmd_restaurar G sha args' (Texto texto) =
      Some (SUCCESS, if ascii ''--mostrar-seed'' \<in> set args' then writeln [to_hex seed] else [])"
    if us: "set us \<subseteq> set shares" "distinct us" "unat umbral \<le> length us"
      "filter util (map trim (lineas texto)) = map (\<lambda>u. to_hex (share_to_bytes u)) us"
      "valor_arg args' (ascii ''--clave-publica'') = Some (to_hex pk)" for us texto args'
  proof -
    have "inj_on sh_index (set shares)" using sh(2) by (simp add: distinct_map)
    then have "distinct (map sh_index us)" using us(1,2) by (simp add: distinct_map inj_on_subset)
    then have "combine sha us = Some (Inr seed)" using combine_split [OF sha f s us(1) _ us(3)] by blast
    then have v: "verificar_restauracion G sha us pk = Some (Inr seed)" using pk by (simp add: verificar_Inr)
    show ?thesis using us(1,5) sh(1) by (intro cmd_restaurar_lines [OF v _ lpk _ us(4)]) auto
  qed
  show ?thesis
    by (intro exI [of _ crudo] exI [of _ seed] exI [of _ umbral] exI [of _ partes] exI [of _ pk] exI [of _ shares]
        conjI allI impI c out sh(3) ds) (elim conjE, rule restore)
qed

section \<open>A concrete ceremony\<close>

lemma lineas_desde_append:
  "10 \<notin> set l \<Longrightarrow> lineas_desde (l @ [10] @ s) a = sin_retorno (a @ l) # lineas_desde s []"
  by (induction l arbitrary: a) simp_all

lemma lineas_writeln:
  "(\<And>l. l \<in> set ls \<Longrightarrow> 10 \<notin> set l \<and> 13 \<notin> set l) \<Longrightarrow> lineas (writeln ls) = ls"
proof (induction ls)
  case (Cons l ls)
  have l: "10 \<notin> set l" "13 \<notin> set l" using Cons.prems by auto
  then have "sin_retorno l = l" by (auto simp: sin_retorno_def dest: last_in_set)
  moreover have "lineas_desde (l @ [10] @ writeln ls) [] = sin_retorno ([] @ l) # lineas_desde (writeln ls) []"
    by (rule lineas_desde_append [OF l(1)])
  moreover have "lineas (writeln ls) = ls" using Cons by simp
  ultimately show ?case by (simp add: lineas_def writeln_def)
qed (simp add: lineas_def writeln_def)

lemma to_hex_no_line: "10 \<notin> set (to_hex b) \<and> 13 \<notin> set (to_hex b)"
proof -
  have "hexval 10 = None" "hexval 13 = None" by (simp_all add: hexval_def word_le_nat_alt)
  then show ?thesis using to_hex_digits [of 10 b] to_hex_digits [of 13 b] by auto
qed

lemma share_text:
  "filter util (map trim (lineas (writeln (map (\<lambda>u. to_hex (share_to_bytes u)) us)))) =
    map (\<lambda>u. to_hex (share_to_bytes u)) us"
proof -
  have "lineas (writeln (map (\<lambda>u. to_hex (share_to_bytes u)) us)) = map (\<lambda>u. to_hex (share_to_bytes u)) us"
    using to_hex_no_line by (intro lineas_writeln) auto
  moreover have "share_to_bytes u \<noteq> []" for u by (simp add: share_to_bytes_def shamir_MAGIC_def)
  then have "util (to_hex (share_to_bytes u))" for u by (rule to_hex_util)
  ultimately show ?thesis by (simp add: comp_def filter_map)
qed

lemma demo_ceremonia:
  obtains out r' where "cmd_repartir demo_grupo (\<lambda>_. replicate 32 7) demo_fuente
      [ascii ''repartir'', ascii ''--umbral'', ascii ''2'', ascii ''--partes'', ascii ''3'']
      (Texto (to_hex (replicate 32 9))) 0 = Some ((SUCCESS, out), r')"
proof -
  let ?args = "[ascii ''repartir'', ascii ''--umbral'', ascii ''2'', ascii ''--partes'', ascii ''3'']"
  let ?sha = "\<lambda>_ :: bytes. replicate 32 (7 :: u8)" and ?seed = "replicate 32 9 :: bytes"
  have args: "valor_arg ?args (ascii ''--umbral'') = Some [50]" "valor_arg ?args (ascii ''--partes'') = Some [51]"
    by (simp_all add: valor_arg_def ascii_def upt_rec)
  have num: "parse_u8 [50] = Some 2" "parse_u8 [51] = Some 3"
    by (simp_all add: parse_u8_def word_le_nat_alt)
  obtain shares r' where s: "repartir ?sha demo_fuente ?seed 2 3 0 = (Inr shares, r')"
      "length shares = 3" "map sh_index shares = [1, 2, 3]"
    by (rule demo_deposito [of ?seed]) simp
  have pk: "clave_publica_de demo_grupo ?seed = Some (Inr (public_key demo_grupo \<lparr>key = 1\<rparr>))"
    by (simp add: clave_publica_Inr demo_server)
  have "distinct (map sh_index shares)" unfolding s(3) by simp
  then have "distinct (map sh_index (take 2 shares))" by (simp only: take_map [symmetric] distinct_take)
  then have "verificar_restauracion demo_grupo ?sha (take 2 shares) (public_key demo_grupo \<lparr>key = 1\<rparr>) = Some (Inr ?seed)"
    using s(2) pk by (intro custodia_restores [OF _ demo_fuente_ok s(1)]) (auto dest: in_set_takeD)
  then show ?thesis
    using args num s(1) pk
    by (intro that [of _ r']) (simp add: cmd_repartir_def leer_stdin_def from_hex_32_to_hex Let_def)
qed

lemma demo_restauracion:
  obtains pk texto where "cmd_restaurar demo_grupo (\<lambda>_. replicate 32 7)
      [ascii ''restaurar'', ascii ''--clave-publica'', to_hex pk, ascii ''--mostrar-seed''] (Texto texto) =
    Some (SUCCESS, writeln [to_hex (replicate 32 9)])"
proof -
  let ?sha = "\<lambda>_ :: bytes. replicate 32 (7 :: u8)" and ?seed = "replicate 32 9 :: bytes"
  let ?pk = "public_key demo_grupo \<lparr>key = 1\<rparr>"
  obtain shares r' where s: "repartir ?sha demo_fuente ?seed 2 3 0 = (Inr shares, r')"
      "length shares = 3" "map sh_index shares = [1, 2, 3]"
    by (rule demo_deposito [of ?seed]) simp
  have pk: "clave_publica_de demo_grupo ?seed = Some (Inr ?pk)" by (simp add: clave_publica_Inr demo_server)
  have "distinct (map sh_index shares)" unfolding s(3) by simp
  then have v: "verificar_restauracion demo_grupo ?sha shares ?pk = Some (Inr ?seed)"
    using s(2) pk by (intro custodia_restores [OF _ demo_fuente_ok s(1)]) auto
  have ok: "\<forall>u \<in> set shares. share_ok u"
    using s(1) by (intro dealt_shares(1) [of ?sha demo_fuente ?seed 2 3 0]) (simp_all add: demo_fuente_ok repartir_Inr)
  have "length ?pk = 32" by (simp add: public_key_def ristretto_okD(6) [OF demo_grupo_ok])
  from cmd_restaurar_lines [OF v ok this _ share_text,
      of "[ascii ''restaurar'', ascii ''--clave-publica'', to_hex ?pk, ascii ''--mostrar-seed'']"]
  show ?thesis by (intro that) (simp add: valor_arg_def ascii_def upt_rec)
qed

lemma ceremony_restores_example:
  "\<exists>pk texto. cmd_restaurar demo_grupo (\<lambda>_. replicate 32 7)
      [ascii ''restaurar'', ascii ''--clave-publica'', to_hex pk, ascii ''--mostrar-seed''] (Texto texto) =
    Some (SUCCESS, writeln [to_hex (replicate 32 9)])"
proof -
  obtain out r' where d: "cmd_repartir demo_grupo (\<lambda>_. replicate 32 7) demo_fuente
      [ascii ''repartir'', ascii ''--umbral'', ascii ''2'', ascii ''--partes'', ascii ''3'']
      (Texto (to_hex (replicate 32 9))) 0 = Some ((SUCCESS, out), r')"
    by (rule demo_ceremonia)
  have "length ((\<lambda>_ :: bytes. replicate 32 (7 :: u8)) m) = 32" for m by simp
  from ceremony_restores [OF demo_grupo_ok this demo_fuente_ok d]
  obtain crudo seed umbral partes pk shares where c: "Texto (to_hex (replicate 32 9)) = Texto crudo"
    and seed: "from_hex_32 (trim crudo) = Some seed"
    and sh: "unat (umbral :: u8) \<le> length shares" "distinct shares"
    and r: "\<forall>us texto args'. set us \<subseteq> set shares \<and> distinct us \<and> unat umbral \<le> length us \<and>
       filter util (map trim (lineas texto)) = map (\<lambda>u. to_hex (share_to_bytes u)) us \<and>
       valor_arg args' (ascii ''--clave-publica'') = Some (to_hex pk) \<longrightarrow>
       cmd_restaurar demo_grupo (\<lambda>_. replicate 32 7) args' (Texto texto) =
         Some (SUCCESS, if ascii ''--mostrar-seed'' \<in> set args' then writeln [to_hex seed] else [])"
    by (elim exE conjE) (rule that; assumption)
  have "crudo = to_hex (replicate 32 9)" using c by simp
  then have s: "seed = replicate 32 9" using seed by (simp add: from_hex_32_to_hex)
  let ?args = "[ascii ''restaurar'', ascii ''--clave-publica'', to_hex pk, ascii ''--mostrar-seed'']"
  have "valor_arg ?args (ascii ''--clave-publica'') = Some (to_hex pk)" "ascii ''--mostrar-seed'' \<in> set ?args"
    by (simp_all add: valor_arg_def ascii_def upt_rec)
  with r [rule_format, of shares "writeln (map (\<lambda>u. to_hex (share_to_bytes u)) shares)" ?args] sh share_text
  have "cmd_restaurar demo_grupo (\<lambda>_. replicate 32 7) ?args
      (Texto (writeln (map (\<lambda>u. to_hex (share_to_bytes u)) shares))) = Some (SUCCESS, writeln [to_hex (replicate 32 9)])"
    by (simp add: s)
  then show ?thesis by blast
qed

end
