(* ===== verification/Calendario.thy ===== *)
theory Calendario
  imports Store
begin

text \<open>
  The billing periods of \<^verbatim>\<open>crates/quipu-oprf-server/src/store.rs\<close> against the calendar.  The reference is
  the Gregorian calendar as it is taught: the length of the months, the leap years, and the day after
  a day.  \<open>civil_from_days\<close> computes its days without a loop, from eras of 400 years that begin in March.
\<close>

section \<open>The calendar\<close>

definition bisiesto :: "int \<Rightarrow> bool" where
  "bisiesto y \<longleftrightarrow> 4 dvd y \<and> (\<not> 100 dvd y \<or> 400 dvd y)"

definition dias_del_mes :: "int \<Rightarrow> int \<Rightarrow> int" where
  "dias_del_mes y m =
     (if m = 2 then if bisiesto y then 29 else 28 else if m = 4 \<or> m = 6 \<or> m = 9 \<or> m = 11 then 30 else 31)"

fun dia_siguiente :: "int \<times> int \<times> int \<Rightarrow> int \<times> int \<times> int" where
  "dia_siguiente (y, m, d) =
     (if d < dias_del_mes y m then (y, m, d + 1) else if m < 12 then (y, m + 1, 1) else (y + 1, 1, 1))"

section \<open>The years of an era\<close>

text \<open>The first day of the year \<open>y\<close> of an era, and how many days it has.\<close>

definition inicio :: "int \<Rightarrow> int" where
  "inicio y = 365 * y + y div 4 - y div 100"

definition largo :: "int \<Rightarrow> int" where
  "largo y = (if bisiesto (y + 1) then 366 else 365)"

definition yoe_de :: "int \<Rightarrow> int" where
  "yoe_de doe = (doe - doe div 1460 + doe div 36524 - doe div 146096) div 365"

lemma div_trunc_pos: "0 \<le> a \<Longrightarrow> div_trunc a b = a div b"
  by (simp add: div_trunc_def)

lemma div_Suc: "0 < k \<Longrightarrow> (x + 1) div k = x div k + (if k dvd x + 1 then 1 else 0)" for x k :: int
proof -
  assume k: "0 < k"
  have "x = k * (x div k) + x mod k" "0 \<le> x mod k" "x mod k < k" using k by simp_all
  show ?thesis
  proof (cases "x mod k = k - 1")
    case True
    then have "x + 1 = k * (x div k) + k" using \<open>x = _\<close> by linarith
    then have "x + 1 = k * (x div k + 1)" by (simp only: distrib_left mult_1_right)
    then show ?thesis using k by simp
  next
    case False
    then have "(x + 1) mod k = x mod k + 1 \<and> (x + 1) div k = x div k"
      using \<open>0 \<le> x mod k\<close> \<open>x mod k < k\<close> \<open>x = _\<close>
      by (intro conjI int_mod_pos_eq [of _ _ "x div k"] int_div_pos_eq [of _ _ _ "x mod k + 1"]) linarith+
    then show ?thesis using \<open>0 \<le> x mod k\<close> by (auto simp: dvd_eq_mod_eq_0)
  qed
qed

lemma inicio_Suc: "0 \<le> y \<Longrightarrow> y < 399 \<Longrightarrow> inicio (y + 1) = inicio y + largo y"
proof -
  assume y: "0 \<le> y" "y < 399"
  have "\<not> 400 dvd y + 1" using y by (auto dest: zdvd_imp_le)
  moreover have "100 dvd y + 1 \<Longrightarrow> 4 dvd y + 1" by (rule dvd_trans [of 4 100]) simp_all
  ultimately show ?thesis by (simp add: inicio_def largo_def bisiesto_def div_Suc)
qed

lemma yoe_mono: "x \<le> y \<Longrightarrow> yoe_de x \<le> yoe_de y"
proof (induction rule: int_ge_induct)
  case (step y)
  have "146096 dvd y + 1 \<Longrightarrow> 36524 dvd y + 1" by (rule dvd_trans [of 36524 146096]) simp_all
  then have "y - y div 1460 + y div 36524 - y div 146096 \<le> y + 1 - (y + 1) div 1460 + (y + 1) div 36524 - (y + 1) div 146096"
    by (simp add: div_Suc)
  then have "yoe_de y \<le> yoe_de (y + 1)" unfolding yoe_de_def by (rule zdiv_mono1) simp
  then show ?case using step.IH by linarith
qed simp

lemma extremos: "list_all (\<lambda>y. yoe_de (inicio y) = y \<and> yoe_de (inicio y + largo y - 1) = y) [0..399]"
  by code_simp

text \<open>The formula finds the year that a day is in.\<close>

lemma yoe_eq:
  assumes "0 \<le> y" "y \<le> 399" "inicio y \<le> doe" "doe < inicio y + largo y"
  shows "yoe_de doe = y"
proof -
  have "yoe_de (inicio y) = y" "yoe_de (inicio y + largo y - 1) = y"
    using extremos assms(1,2) by (simp_all add: list_all_iff)
  then show ?thesis
    using yoe_mono [OF assms(3)] yoe_mono [of doe "inicio y + largo y - 1"] assms(4) by linarith
qed

lemma en_un_anio:
  assumes "0 \<le> doe" "doe < 146097"
  obtains y where "0 \<le> y" "y \<le> 399" "inicio y \<le> doe" "doe < inicio y + largo y"
proof -
  have "doe < 146097 \<longrightarrow> (\<exists>y. 0 \<le> y \<and> y \<le> 399 \<and> inicio y \<le> doe \<and> doe < inicio y + largo y)"
    using assms(1)
  proof (induction rule: int_ge_induct)
    case base
    show ?case by (intro impI exI [of _ 0]) (simp add: inicio_def largo_def bisiesto_def)
  next
    case (step doe)
    show ?case
    proof
      assume b: "doe + 1 < 146097"
      then obtain y where y: "0 \<le> y" "y \<le> 399" "inicio y \<le> doe" "doe < inicio y + largo y"
        using step.IH by auto
      have "inicio 399 + largo 399 = 146097" by (simp add: inicio_def largo_def bisiesto_def)
      then have last: "doe + 1 = inicio y + largo y \<Longrightarrow> y < 399" using b y(2) by (cases "y = 399") auto
      have pos: "0 < largo (y + 1)" by (simp add: largo_def)
      show "\<exists>y. 0 \<le> y \<and> y \<le> 399 \<and> inicio y \<le> doe + 1 \<and> doe + 1 < inicio y + largo y"
      proof (cases "doe + 1 < inicio y + largo y")
        case True
        then show ?thesis using y by (intro exI [of _ y]) linarith
      next
        case False
        then have e: "doe + 1 = inicio y + largo y" using y(4) by linarith
        then have "inicio (y + 1) = doe + 1" using inicio_Suc [OF y(1) last] by simp
        then show ?thesis using y(1) last [OF e] pos by (intro exI [of _ "y + 1"]) linarith
      qed
    qed
  qed
  then show ?thesis using assms that by blast
qed

section \<open>The months of a year\<close>

text \<open>Month (counted from March) and day of the day \<open>doy\<close> of a year that begins in March.\<close>

definition mes_y_dia :: "int \<Rightarrow> int \<times> int" where
  "mes_y_dia doy = (let mp = (5 * doy + 2) div 153 in (if mp < 10 then mp + 3 else mp - 9, doy - (153 * mp + 2) div 5 + 1))"

lemma meses: "list_all (\<lambda>doy. case (mes_y_dia doy, mes_y_dia (doy + 1)) of ((m, d), (m', d')) \<Rightarrow>
    m \<noteq> 2 \<and> m \<noteq> 12 \<and> (m', d') = (if d < dias_del_mes 1 m then (m, d + 1) else (m + 1, 1)) \<and> 1 \<le> m \<and> m < 12 \<or>
    m = 12 \<and> (m', d') = (if d < 31 then (12, d + 1) else (1, 1)) \<or>
    m = 2 \<and> d = doy - 336 \<and> m' = 2 \<and> d' = d + 1) [0..364]"
  by code_simp

section \<open>Days\<close>

lemma era_eq: "div_trunc (if 0 \<le> z then z else z - 146096) 146097 = z div 146097"
proof (cases "0 \<le> z")
  case False
  let ?q = "(146096 - z) div 146097" and ?r = "(146096 - z) mod 146097"
  have "146096 - z = 146097 * ?q + ?r" "0 \<le> ?r" "?r < 146097" by simp_all
  then have "z div 146097 = - ?q" by (intro int_div_pos_eq [of _ _ _ "146096 - ?r"]) linarith+
  then show ?thesis using False by (simp add: div_trunc_def)
qed (simp add: div_trunc_def)

lemma civil_eq:
  assumes "z + 719468 = e * 146097 + inicio y + doy" "0 \<le> y" "y \<le> 399" "0 \<le> doy" "doy < largo y"
  shows "civil_from_days z =
    (y + e * 400 + (if fst (mes_y_dia doy) \<le> 2 then 1 else 0), fst (mes_y_dia doy), snd (mes_y_dia doy))"
proof -
  let ?doe = "inicio y + doy"
  have y4: "0 \<le> y div 4" "y div 100 \<le> y div 4" using assms(2) by (simp_all add: zdiv_mono2)
  then have "0 \<le> inicio y" using assms(2) by (simp add: inicio_def)
  then have doe0: "0 \<le> ?doe" using assms(4) by simp
  have "inicio y + largo y \<le> 146097"
  proof (cases "y = 399")
    case False
    have "y div 4 \<le> 99" "0 \<le> y div 100" using assms(2,3) by linarith+
    moreover have "y \<le> 398" using False assms(3) by simp
    ultimately show ?thesis by (simp add: inicio_def largo_def)
  qed (simp add: inicio_def largo_def bisiesto_def)
  then have doe: "?doe < 146097" using assms(5) by simp
  have era: "(z + 719468) div 146097 = e" using assms(1) doe0 doe by (intro int_div_pos_eq [of _ _ _ ?doe]) simp_all
  have d: "z + 719468 - e * 146097 = ?doe" using assms(1) by simp
  have "?doe div 1460 \<le> ?doe" using doe0 by linarith
  moreover have "?doe div 146096 \<le> ?doe div 36524" using doe0 by (simp add: zdiv_mono2)
  ultimately have "div_trunc (?doe - div_trunc ?doe 1460 + div_trunc ?doe 36524 - div_trunc ?doe 146096) 365 = yoe_de ?doe"
    using doe0 by (simp add: div_trunc_pos yoe_de_def)
  also have "\<dots> = y" using assms(2-5) by (intro yoe_eq) simp_all
  finally have yoe: "div_trunc (?doe - div_trunc ?doe 1460 + div_trunc ?doe 36524 - div_trunc ?doe 146096) 365 = y" .
  have doy: "?doe - (365 * y + div_trunc y 4 - div_trunc y 100) = doy"
    using assms(2) by (simp add: div_trunc_pos inicio_def)
  have "0 \<le> (5 * doy + 2) div 153" using assms(4) by simp
  then have mp: "div_trunc (5 * doy + 2) 153 = (5 * doy + 2) div 153"
      "div_trunc (153 * ((5 * doy + 2) div 153) + 2) 5 = (153 * ((5 * doy + 2) div 153) + 2) div 5"
    using assms(4) by (simp_all add: div_trunc_pos)
  show ?thesis unfolding civil_from_days_def Let_def era_eq era d yoe doy mp mes_y_dia_def by simp
qed

lemma un_dia:
  obtains e y doy where "z + 719468 = e * 146097 + inicio y + doy" "0 \<le> y" "y \<le> 399" "0 \<le> doy" "doy < largo y"
proof -
  let ?doe = "(z + 719468) mod 146097"
  obtain y where y: "0 \<le> y" "y \<le> 399" "inicio y \<le> ?doe" "?doe < inicio y + largo y"
    by (rule en_un_anio [of ?doe]) simp_all
  have "z + 719468 = (z + 719468) div 146097 * 146097 + inicio y + (?doe - inicio y)" by simp
  then show ?thesis using y by (intro that [of "(z + 719468) div 146097" y "?doe - inicio y"]) linarith+
qed

lemma bisiesto_era: "bisiesto (y + e * 400) = bisiesto y"
proof -
  have "k dvd y + e * 400 \<longleftrightarrow> k dvd y" if "k dvd 400" for k :: int using that by (simp add: dvd_add_left_iff)
  then show ?thesis by (simp add: bisiesto_def)
qed

lemma dias_del_mes_otro: "m \<noteq> 2 \<Longrightarrow> dias_del_mes y m = dias_del_mes 1 m"
  by (simp add: dias_del_mes_def)

lemma civil_siguiente: "civil_from_days (z + 1) = dia_siguiente (civil_from_days z)"
proof -
  obtain e y doy where z: "z + 719468 = e * 146097 + inicio y + doy" "0 \<le> y" "y \<le> 399" "0 \<le> doy" "doy < largo y"
    by (rule un_dia)
  note hoy = civil_eq [OF z]
  have feb: "dias_del_mes (y + e * 400 + 1) 2 = largo y - 337"
    using bisiesto_era [of "y + 1" e] by (simp add: dias_del_mes_def largo_def algebra_simps)
  show ?thesis
  proof (cases "doy + 1 < largo y")
    case True
    obtain m d m' d' where md: "mes_y_dia doy = (m, d)" "mes_y_dia (doy + 1) = (m', d')" by fastforce
    have "doy \<in> set [0..364]" using z(4) True by (simp add: largo_def split: if_splits)
    then have "m \<noteq> 2 \<and> m \<noteq> 12 \<and> (m', d') = (if d < dias_del_mes 1 m then (m, d + 1) else (m + 1, 1)) \<and> 1 \<le> m \<and> m < 12 \<or>
        m = 12 \<and> (m', d') = (if d < 31 then (12, d + 1) else (1, 1)) \<or>
        m = 2 \<and> d = doy - 336 \<and> m' = 2 \<and> d' = d + 1"
      using meses [unfolded list_all_iff, rule_format, of doy] md by simp
    moreover have "civil_from_days (z + 1) = (y + e * 400 + (if m' \<le> 2 then 1 else 0), m', d')"
      using civil_eq [of "z + 1" e y "doy + 1"] z True md(2) by simp
    ultimately show ?thesis
      using hoy md(1) feb True dias_del_mes_otro [of m "y + e * 400"] dias_del_mes_otro [of m "y + e * 400 + 1"]
      by (auto simp: dias_del_mes_def split: if_splits)
  next
    case False
    then have doy: "doy = largo y - 1" using z(5) by simp
    have md: "mes_y_dia doy = (2, largo y - 337)" by (simp add: doy mes_y_dia_def largo_def)
    have m0: "mes_y_dia 0 = (3, 1)" by (simp add: mes_y_dia_def)
    have "civil_from_days (z + 1) = (y + e * 400 + 1, 3, 1)"
    proof (cases "y = 399")
      case True
      have "z + 1 + 719468 = (e + 1) * 146097 + inicio 0 + 0"
        using z(1) doy by (simp add: True inicio_def largo_def bisiesto_def)
      from civil_eq [OF this] m0 show ?thesis by (simp add: largo_def True)
    next
      case False
      then have "z + 1 + 719468 = e * 146097 + inicio (y + 1) + 0" using z(1-3) doy inicio_Suc [of y] by simp
      from civil_eq [OF this] False z(2,3) m0 show ?thesis by (simp add: largo_def)
    qed
    then show ?thesis using hoy md feb by simp
  qed
qed

section \<open>The text of a period\<close>

definition leer_decimal :: "bytes \<Rightarrow> nat" where
  "leer_decimal s = foldl (\<lambda>acc c. acc * 10 + (unat c - 48)) 0 s"

lemma leer_decimal_ceros: "leer_decimal (replicate k 48 @ s) = leer_decimal s"
  by (induction k) (simp_all add: leer_decimal_def)

lemma unat_digit: "n < 10 \<Longrightarrow> unat (48 + of_nat n :: u8) = 48 + n"
  by (simp add: unat_word_ariths unat_of_nat_u8)

lemma decimal_digits: "leer_decimal (decimal n) = n \<and> 45 \<notin> set (decimal n) \<and> decimal n \<noteq> []"
proof (induction n rule: decimal.induct)
  case (1 n)
  have neq: "(45 :: u8) \<noteq> 48 + of_nat k" if "k < 10" for k
  proof
    assume "(45 :: u8) = 48 + of_nat k"
    from arg_cong [OF this, of unat] show False unfolding unat_digit [OF that] by simp
  qed
  show ?case
  proof (cases "n < 10")
    case True
    then show ?thesis using neq [of n] by (simp add: decimal.simps [of n] leer_decimal_def unat_digit)
  next
    case False
    then show ?thesis
      using 1 neq [of "n mod 10"] by (simp add: decimal.simps [of n] leer_decimal_def unat_digit)
  qed
qed

lemma ceros_inj: "ceros w a = ceros w b \<Longrightarrow> a = b"
proof -
  assume e: "ceros w a = ceros w b"
  have d: "leer_decimal (decimal n) = n" "45 \<notin> set (replicate k 48 @ decimal n)" for n k
    using decimal_digits [of n] by auto
  have signo: "a < 0 \<longleftrightarrow> b < 0"
  proof (rule ccontr)
    assume "\<not> (a < 0 \<longleftrightarrow> b < 0)"
    moreover have "45 \<in> set (ceros w x) \<longleftrightarrow> x < 0" for x using d(2) by (simp add: ceros_def Let_def)
    ultimately show False using e by metis
  qed
  have "m = n" if "replicate k 48 @ decimal m = replicate j 48 @ decimal n" for k j m n
    using arg_cong [OF that, of leer_decimal] by (simp add: leer_decimal_ceros d(1))
  note unica = this
  show "a = b"
  proof (cases "a < 0")
    case True
    then have "replicate (w - 1 - length (decimal (nat (- a)))) 48 @ decimal (nat (- a)) =
        replicate (w - 1 - length (decimal (nat (- b)))) 48 @ decimal (nat (- b))"
      using e signo by (simp add: ceros_def Let_def)
    then have "nat (- a) = nat (- b)" by (rule unica)
    then show ?thesis using True signo by simp
  next
    case False
    then have "replicate (w - length (decimal (nat a))) 48 @ decimal (nat a) =
        replicate (w - length (decimal (nat b))) 48 @ decimal (nat b)"
      using e signo by (simp add: ceros_def Let_def)
    then have "nat a = nat b" by (rule unica)
    then show ?thesis using False signo by simp
  qed
qed

lemma length_ceros_mes: "1 \<le> m \<Longrightarrow> m \<le> 12 \<Longrightarrow> length (ceros 2 m) = 2"
proof -
  assume m: "1 \<le> m" "m \<le> 12"
  have "length (decimal n) = (if n < 10 then 1 else 2)" if "n < 100" for n
  proof (cases "n < 10")
    case False
    then have "n div 10 < 10" using that by simp
    then show ?thesis using False by (simp add: decimal.simps [of n] decimal.simps [of "n div 10"])
  qed (simp add: decimal.simps [of n])
  then show ?thesis using m by (simp add: ceros_def Let_def)
qed

definition mes_civil :: "int \<Rightarrow> int \<times> int" where
  "mes_civil z = (case civil_from_days z of (y, m, _) \<Rightarrow> (y, m))"

lemma meses_rango: "list_all (\<lambda>doy. 1 \<le> fst (mes_y_dia doy) \<and> fst (mes_y_dia doy) \<le> 12) [0..365]"
  by code_simp

lemma mes_civil_rango: "1 \<le> snd (mes_civil z)" "snd (mes_civil z) \<le> 12"
proof -
  obtain e y doy where z: "z + 719468 = e * 146097 + inicio y + doy" "0 \<le> y" "y \<le> 399" "0 \<le> doy" "doy < largo y"
    by (rule un_dia)
  have "doy \<in> set [0..365]" using z(4,5) by (simp add: largo_def split: if_splits)
  then have "1 \<le> fst (mes_y_dia doy) \<and> fst (mes_y_dia doy) \<le> 12" using meses_rango by (simp add: list_all_iff)
  then show "1 \<le> snd (mes_civil z)" "snd (mes_civil z) \<le> 12" 
    by (simp_all add: mes_civil_def civil_eq [OF z] case_prod_beta)
qed

lemma period_of_eq_iff: "period_of s = period_of t \<longleftrightarrow> mes_civil (s div 86400) = mes_civil (t div 86400)"
proof -
  have p: "period_of s = ceros 4 (fst (mes_civil (s div 86400))) @ [45] @ ceros 2 (snd (mes_civil (s div 86400)))" for s
    by (simp add: period_of_def mes_civil_def split: prod.splits)
  have "length (ceros 2 (snd (mes_civil z))) = 2" for z using mes_civil_rango [of z] by (rule length_ceros_mes)
  then show ?thesis unfolding p by (auto dest: ceros_inj simp: prod_eq_iff)
qed

section \<open>Properties\<close>

text \<open>
  C31.  The billing periods are the months of the calendar, for every reading of the clock: the day of
  the epoch is the first of January 1970, the day after a day is the calendar's, leap years and turns of
  the century included, before the epoch too; and two instants fall in the same period, the key the
  usage is counted under, exactly when they are in the same month of the same year.
\<close>
theorem billing_period_is_the_month:
  "civil_from_days 0 = (1970, 1, 1) \<and>
    (\<forall>z. civil_from_days (z + 1) = dia_siguiente (civil_from_days z)) \<and>
    (\<forall>s t. period_of s = period_of t \<longleftrightarrow> mes_civil (s div 86400) = mes_civil (t div 86400))"
proof (intro conjI allI)
  show "civil_from_days 0 = (1970, 1, 1)" by code_simp
  show "civil_from_days (z + 1) = dia_siguiente (civil_from_days z)" for z by (rule civil_siguiente)
  show "period_of s = period_of t \<longleftrightarrow> mes_civil (s div 86400) = mes_civil (t div 86400)" for s t
    by (rule period_of_eq_iff)
qed

end
