(* ===== verification/Servidor.thy ===== *)
theory Servidor
  imports Ceremonia
begin

text \<open>
  \<^verbatim>\<open>crates/quipu-oprf-server/src/main.rs\<close>, the command line of the server: the key the service starts
  with, and the administration of keys by hand.  A variable of the environment is what \<^verbatim>\<open>std::env::var\<close>
  reports; arguments, the first of them the program's name, and standard output are UTF-8 texts.  What
  the process does at last is a \<open>salida\<close>: it ends with a result, exits at once, or serves with a key
  and an address, from where \<open>Http.serve\<close> goes on.  The outer option is a panic.
\<close>

section \<open>Configuration\<close>

datatype variable = Ausente | NoUnicode | Valor bytes

definition env_ok :: "variable \<Rightarrow> bytes option" where
  "env_ok v = (case v of Valor s \<Rightarrow> Some s | _ \<Rightarrow> None)"

definition db_path :: "variable \<Rightarrow> bytes" where
  "db_path v = (case env_ok v of Some s \<Rightarrow> s | None \<Rightarrow> ascii ''quipu-oprf.db'')"

text \<open>The key of the service, or the code the process exits with.\<close>

definition load_server_key ::
  "('s :: field, 'p) ristretto \<Rightarrow> 'r fuente \<Rightarrow> variable \<Rightarrow> 'r \<Rightarrow> ((nat + 's voprf_server) \<times> 'r) option" where
  "load_server_key G fuente v r =
     (case v of
        Valor hex \<Rightarrow>
          (case from_hex_32 (trim hex) of
             Some seed \<Rightarrow>
               (case server_from_seed G seed DERIVE_INFO of
                  None \<Rightarrow> None
                | Some (Some s) \<Rightarrow> Some (Inr s, r)
                | Some None \<Rightarrow> Some (Inl FAILURE, r))
           | None \<Rightarrow> Some (Inl FAILURE, r))
      | _ \<Rightarrow>
          (case fill_expect fuente 32 r of
             None \<Rightarrow> None
           | Some (seed, r) \<Rightarrow>
               (case server_from_seed G seed DERIVE_INFO of
                  Some (Some s) \<Rightarrow> Some (Inr s, r)
                | _ \<Rightarrow> None)))"

text \<open>\<^verbatim>\<open>Store::open\<close>: the database that opening the file gives, and the statement that makes the schema.\<close>

definition store_open :: "sql_error + bd \<Rightarrow> sql_error + bd" where
  "store_open abierta =
     (case abierta of
        Inl e \<Rightarrow> Inl e
      | Inr db \<Rightarrow>
          (case sentencia (\<lambda>db. (Inr (), db)) db of (Inl e, _) \<Rightarrow> Inl e | (Inr _, db) \<Rightarrow> Inr db))"

section \<open>Commands\<close>

datatype orden_error =
    AbrirBD sql_error
  | FaltaEmail
  | FaltaPrefix
  | PlanDesconocido bytes
  | CrearCliente sql_error
  | EmitirKey sql_error
  | Revocar sql_error
  | Desactivar sql_error
  | Activar sql_error
  | NoReconocido

datatype 's salida =
    Termina "orden_error + bytes list"
  | Sale nat
  | Sirve "'s voprf_server" bytes "bytes option"

record entorno_cli =
  ec_db :: variable
  ec_seed :: variable
  ec_addr :: variable
  ec_admin :: variable

definition arg :: "bytes list \<Rightarrow> nat \<Rightarrow> bytes option" where
  "arg args i = (if i < length args then Some (args ! i) else None)"

definition orden_issue ::
  "(bytes \<Rightarrow> bytes) \<Rightarrow> 'r fuente \<Rightarrow> int \<Rightarrow> int \<Rightarrow> bytes list \<Rightarrow> bd \<Rightarrow> 'r \<Rightarrow>
    ((orden_error + bytes list) \<times> bd \<times> 'r) option" where
  "orden_issue sha fuente ahora ahora' args db r =
     (case arg args 2 of
        None \<Rightarrow> Some (Inl FaltaEmail, db, r)
      | Some email \<Rightarrow>
          let plan = (case arg args 3 of Some p \<Rightarrow> p | None \<Rightarrow> ascii ''starter'')
          in case quota_for plan of
               None \<Rightarrow> Some (Inl (PlanDesconocido plan), db, r)
             | Some quota \<Rightarrow>
                 (case create_customer fuente email plan ahora r db of
                    None \<Rightarrow> None
                  | Some (Inl e, r, db) \<Rightarrow> Some (Inl (CrearCliente e), db, r)
                  | Some (Inr customer, r, db) \<Rightarrow>
                      (case issue_key sha fuente customer quota None ahora' r db of
                         None \<Rightarrow> None
                       | Some (Inl e, r, db) \<Rightarrow> Some (Inl (EmitirKey e), db, r)
                       | Some (Inr k, r, db) \<Rightarrow>
                           Some (Inr [ascii ''cliente : '' @ customer,
                             ascii ''plan    : '' @ plan @ ascii '' ('' @ decimal (unat quota) @ ascii '' evaluaciones/mes)'',
                             ascii ''prefix  : '' @ gk_prefix k,
                             ascii ''API KEY : '' @ gk_secret k], db, r))))"

text \<open>The three commands that change the keys with a prefix.\<close>

definition orden_prefix ::
  "(sql_error \<Rightarrow> orden_error) \<Rightarrow> string \<Rightarrow> (bytes \<Rightarrow> bd \<Rightarrow> (sql_error + nat) \<times> bd) \<Rightarrow> bytes list \<Rightarrow> bd \<Rightarrow>
    (orden_error + bytes list) \<times> bd" where
  "orden_prefix fallo hecho op args db =
     (case arg args 2 of
        None \<Rightarrow> (Inl FaltaPrefix, db)
      | Some prefix \<Rightarrow>
          (case op prefix db of
             (Inl e, db) \<Rightarrow> (Inl (fallo e), db)
           | (Inr n, db) \<Rightarrow> (Inr [decimal n @ ascii '' key(s) '' @ ascii hecho], db)))"

definition orden_serve ::
  "('s :: field, 'p) ristretto \<Rightarrow> 'r fuente \<Rightarrow> entorno_cli \<Rightarrow> bytes list \<Rightarrow> 'r \<Rightarrow> ('s salida \<times> 'r) option" where
  "orden_serve G fuente E args r =
     (let addr = (case arg args 2 of
                    Some a \<Rightarrow> a
                  | None \<Rightarrow> (case env_ok (ec_addr E) of Some a \<Rightarrow> a | None \<Rightarrow> ascii ''127.0.0.1:8787''));
          admin_token = env_ok (ec_admin E)
      in case load_server_key G fuente (ec_seed E) r of
           None \<Rightarrow> None
         | Some (Inl c, r) \<Rightarrow> Some (Sale c, r)
         | Some (Inr s, r) \<Rightarrow> Some (Sirve s addr admin_token, r))"

definition run_cli ::
  "('s :: field, 'p) ristretto \<Rightarrow> (bytes \<Rightarrow> bytes) \<Rightarrow> 'r fuente \<Rightarrow> entorno_cli \<Rightarrow> int \<Rightarrow> int \<Rightarrow> bytes list \<Rightarrow>
    sql_error + bd \<Rightarrow> 'r \<Rightarrow> ('s salida \<times> (sql_error + bd) \<times> 'r) option" where
  "run_cli G sha fuente E ahora ahora' args abierta r =
     (case store_open abierta of
        Inl e \<Rightarrow> Some (Termina (Inl (AbrirBD e)), abierta, r)
      | Inr db \<Rightarrow>
          let fin = (\<lambda>(res, db). Some (Termina res, Inr db, r))
          in case arg args 1 of
               None \<Rightarrow> fin (Inl NoReconocido, db)
             | Some orden \<Rightarrow>
                 if orden = ascii ''init''
                 then fin (Inr [ascii ''Esquema listo en '' @ db_path (ec_db E)], db)
                 else if orden = ascii ''issue''
                 then map_option (\<lambda>(res, db, r). (Termina res, Inr db, r)) (orden_issue sha fuente ahora ahora' args db r)
                 else if orden = ascii ''revoke''
                 then fin (orden_prefix Revocar ''revocada(s)'' (\<lambda>p. revoke p ahora) args db)
                 else if orden = ascii ''deactivate''
                 then fin (orden_prefix Desactivar ''desactivada(s)'' (\<lambda>p. set_active p False) args db)
                 else if orden = ascii ''activate''
                 then fin (orden_prefix Activar ''activada(s)'' (\<lambda>p. set_active p True) args db)
                 else if orden = ascii ''serve''
                 then map_option (\<lambda>(s, r). (s, Inr db, r)) (orden_serve G fuente E args r)
                 else fin (Inl NoReconocido, db))"

text \<open>\<^verbatim>\<open>main\<close>: the code of a process that ends.\<close>

definition codigo :: "'s salida \<Rightarrow> nat option" where
  "codigo s =
     (case s of Termina (Inr _) \<Rightarrow> Some SUCCESS | Termina (Inl _) \<Rightarrow> Some FAILURE | Sale c \<Rightarrow> Some c | Sirve _ _ _ \<Rightarrow> None)"

section \<open>What the key is\<close>

text \<open>A line of hexadecimal is trimmed to the hexadecimal.\<close>

lemma sin_blanco_inicial:
  assumes "is_ascii_hexdigit (hd t)"
  shows "trim_start_n n t = t"
proof -
  have w: "w \<noteq> [] \<and> \<not> is_ascii_hexdigit (hd w)" if "w \<in> set blancos" for w
    using that by (auto simp: blancos_def is_ascii_hexdigit_def word_le_nat_alt upt_rec)
  have "find (\<lambda>w. take (length w) t = w) blancos = None"
    unfolding find_None_iff
  proof
    assume "\<exists>x. x \<in> set blancos \<and> take (length x) t = x"
    then obtain x where x: "x \<in> set blancos" "take (length x) t = x" by blast
    have "hd (take (length x) t) = hd t" using w [OF x(1)] by (intro hd_take) simp
    then show False using w [OF x(1)] assms x(2) by simp
  qed
  then show ?thesis by (cases n) simp_all
qed

lemma trim_line:
  assumes "list_all is_ascii_hexdigit s" and "s \<noteq> []"
  shows "trim (s @ [10]) = s"
proof -
  have hd: "is_ascii_hexdigit (hd s)" "is_ascii_hexdigit (hd (s @ [10]))" using assms by (cases s; simp)+
  have "find (\<lambda>w. length w \<le> length (s @ [10]) \<and> drop (length (s @ [10]) - length w) (s @ [10]) = w) blancos = Some [10]"
    by (simp add: blancos_def)
  then have "trim_end_n (length (s @ [10])) (s @ [10]) = trim_end_n (length s) s" by simp
  also have "\<dots> = s"
    using trim_hex [OF assms(1)] unfolding trim_def Let_def sin_blanco_inicial [OF hd(1)] .
  finally show ?thesis unfolding trim_def Let_def sin_blanco_inicial [OF hd(2)] .
qed

lemma trim_hex_line: "b \<noteq> [] \<Longrightarrow> trim (to_hex b @ [10]) = to_hex b"
proof (rule trim_line)
  show "list_all is_ascii_hexdigit (to_hex b)"
    using to_hex_digits [of _ b] hexval_Some_iff by (fastforce simp: list_all_iff is_ascii_hexdigit_def)
qed (cases b; simp add: to_hex_def)

lemma cmd_restaurar_SUCCESS:
  assumes "cmd_restaurar G sha args stdin = Some (SUCCESS, out)"
  obtains pk partes seed where
    "Option.bind (valor_arg args (ascii ''--clave-publica'')) from_hex_32 = Some pk"
    "verificar_restauracion G sha partes pk = Some (Inr seed)"
    "out = (if ascii ''--mostrar-seed'' \<in> set args then writeln [to_hex seed] else [])"
proof -
  note r = assms [unfolded cmd_restaurar_def leer_stdin_def SUCCESS_def FAILURE_def USO_def Let_def]
  obtain pk where pk: "Option.bind (valor_arg args (ascii ''--clave-publica'')) from_hex_32 = Some pk"
    using r by (auto split: option.splits)
  obtain crudo where c: "stdin = Texto crudo" using r pk by (auto split: entrada.splits)
  obtain partes where p: "leer_partes (lineas crudo) = Some partes" "partes \<noteq> []"
    using r pk c by (auto split: option.splits if_splits)
  obtain seed where s: "verificar_restauracion G sha partes pk = Some (Inr seed)"
    using r pk c p by (auto split: option.splits sum.splits)
  have "out = (if ascii ''--mostrar-seed'' \<in> set args then writeln [to_hex seed] else [])"
    using r pk c p s by simp
  then show ?thesis using pk s by (rule that [rotated 2])
qed

lemma load_server_key_Valor:
  "load_server_key G fuente (Valor hex) r = Some (x, r') \<longleftrightarrow>
    r' = r \<and> (case from_hex_32 (trim hex) of
       None \<Rightarrow> x = Inl FAILURE
     | Some seed \<Rightarrow> (case server_from_seed G seed DERIVE_INFO of
          None \<Rightarrow> False | Some None \<Rightarrow> x = Inl FAILURE | Some (Some S) \<Rightarrow> x = Inr S))"
  by (auto simp: load_server_key_def split: option.splits)

section \<open>Properties\<close>

text \<open>
  A configured key is the key of the service or there is no service.  When the variable of the seed
  is set to a text, the server starts with the key of exactly that seed, drawing nothing, or it exits
  with a failure; a key that was drawn serves only when the variable is not set, or is no text.
\<close>
lemma configured_seed_or_no_service:
  assumes "run_cli G sha fuente E t t' args abierta r = Some (Sirve S addr token, st, r')"
  shows "case ec_seed E of
      Valor hex \<Rightarrow> r' = r \<and> (\<exists>seed. from_hex_32 (trim hex) = Some seed \<and>
        clave_publica_de G seed = Some (Inr (public_key G S)) \<and> server_from_seed G seed DERIVE_INFO = Some (Some S))
    | _ \<Rightarrow> (\<exists>seed. fuente r 32 = (Inr seed, r') \<and> server_from_seed G seed DERIVE_INFO = Some (Some S))"
proof -
  obtain db where db: "store_open abierta = Inr db" using assms by (auto simp: run_cli_def split: sum.splits)
  have "orden_serve G fuente E args r = Some (Sirve S addr token, r')"
    using assms db by (auto simp: run_cli_def Let_def split: option.splits if_splits prod.splits)
  then have l: "load_server_key G fuente (ec_seed E) r = Some (Inr S, r')"
    by (auto simp: orden_serve_def Let_def split: option.splits sum.splits)
  show ?thesis
  proof (cases "ec_seed E")
    case (Valor hex)
    have "r' = r" and "\<exists>seed. from_hex_32 (trim hex) = Some seed \<and> server_from_seed G seed DERIVE_INFO = Some (Some S)"
      using l unfolding Valor load_server_key_Valor by (auto split: option.splits)
    then show ?thesis using from_hex_32_length by (fastforce simp: Valor clave_publica_Inr)
  qed (use l in \<open>auto simp: load_server_key_def fill_expect_def split: option.splits prod.splits sum.splits\<close>)
qed

text \<open>
  C32.  The disaster is recoverable.  What the tool of the custody prints when it restores with
  \<open>--mostrar-seed\<close>, put as it is into the variable of the seed, starts the server with the key whose
  public part was given to the tool, and draws nothing.
\<close>
theorem recovered_seed_starts_the_service:
  assumes "cmd_restaurar G sha args stdin = Some (SUCCESS, out)" and "ascii ''--mostrar-seed'' \<in> set args"
  shows "\<exists>pk S. Option.bind (valor_arg args (ascii ''--clave-publica'')) from_hex_32 = Some pk \<and>
    load_server_key G fuente (Valor out) r = Some (Inr S, r) \<and> public_key G S = pk"
  using assms(1)
proof (rule cmd_restaurar_SUCCESS)
  fix pk partes seed
  assume pk: "Option.bind (valor_arg args (ascii ''--clave-publica'')) from_hex_32 = Some pk"
    and v: "verificar_restauracion G sha partes pk = Some (Inr seed)"
    and out: "out = (if ascii ''--mostrar-seed'' \<in> set args then writeln [to_hex seed] else [])"
  obtain S where S: "length seed = 32" "server_from_seed G seed DERIVE_INFO = Some (Some S)" "pk = public_key G S"
    using v by (auto simp: verificar_Inr clave_publica_Inr)
  have "out = to_hex seed @ [10]" using out assms(2) by (simp add: writeln_def)
  moreover have "seed \<noteq> []" using S(1) by auto
  ultimately have "trim out = to_hex seed" using trim_hex_line [of seed] by simp
  then have "load_server_key G fuente (Valor out) r = Some (Inr S, r)"
    using S(1,2) by (simp add: load_server_key_Valor from_hex_32_to_hex)
  then show ?thesis using pk S(3) by blast
qed

text \<open>A variable that is set to bytes that are no text counts as one that is not set.\<close>

lemma no_unicode_es_ausente: "load_server_key G fuente NoUnicode r = load_server_key G fuente Ausente r"
  by (simp add: load_server_key_def)

text \<open>
  A key that \<open>issue\<close> prints is accepted: on consistent tables the last line it prints is the secret,
  and the store then authenticates it as a key without usage, with the quota and the plan that were asked for
  (\<open>starter\<close> when none was), which is a plan on sale.
\<close>
lemma issued_on_the_command_line_is_valid:
  assumes ok: "bd_ok db" "bd_fallos db = []" and f: "fuente_ok fuente"
    and run: "run_cli G sha fuente E t t' (p # ascii ''issue'' # args) (Inr db) r = Some (Termina (Inr out), Inr db', r')"
  shows "\<exists>plan q secret ident c. plan = (case arg args 1 of Some x \<Rightarrow> x | None \<Rightarrow> ascii ''starter'') \<and>
    quota_for plan = Some q \<and> last out = ascii ''API KEY : '' @ secret \<and>
    verify sha secret t1 t2 db' = (Inr (Valid ident c q 0 plan), db')"
proof -
  let ?plan = "case arg args 1 of Some x \<Rightarrow> x | None \<Rightarrow> ascii ''starter''"
  have op: "store_open (Inr db) = Inr db" using ok(2) by (simp add: store_open_def sentencia_sin_fallos)
  have arg: "arg (p # ascii ''issue'' # args) 1 = Some (ascii ''issue'')" "arg (p # ascii ''issue'' # args) 2 = arg args 0"
    "arg (p # ascii ''issue'' # args) 3 = arg args 1" by (simp_all add: arg_def)
  note arg = arg [unfolded One_nat_def]
  have "ascii ''issue'' \<noteq> ascii ''init''" by (simp add: ascii_def)
  then have o: "orden_issue sha fuente t t' (p # ascii ''issue'' # args) db r = Some (Inr out, db', r')"
    using run by (auto simp: run_cli_def op arg Let_def split: option.splits)
  obtain email where e: "arg args 0 = Some email" using o by (auto simp: orden_issue_def arg split: option.splits)
  obtain q where q: "quota_for ?plan = Some q"
    using o e by (auto simp: orden_issue_def arg Let_def split: option.splits)
  obtain c r1 db1 where c: "create_customer fuente email ?plan t r db = Some (Inr c, r1, db1)"
    using o e q by (auto simp: orden_issue_def arg Let_def split: option.splits prod.splits sum.splits)
  obtain k where k: "issue_key sha fuente c q None t' r1 db1 = Some (Inr k, r', db')"
      and out: "last out = ascii ''API KEY : '' @ gk_secret k"
    using o e q c by (auto simp: orden_issue_def arg Let_def split: option.splits prod.splits sum.splits)
  have db1: "bd_ok db1" using create_customer_buena [OF ok(1) c] by simp
  have fallos: "bd_fallos db1 = []" using create_customer_sin_fallos [OF ok(2) c] by simp
  have "bd_customer db1 = bd_customer db @ [\<lparr>cu_id = c, cu_email = email, cu_plan = ?plan, cu_created_at = t\<rparr>]"
    using c ok(2) by (auto simp: create_customer_def sentencia_sin_fallos insertar_customer_def split: option.splits if_splits)
  moreover have "distinct (map cu_id (bd_customer db1))" using db1 by (simp add: bd_ok_def)
  ultimately have row: "cu = \<lparr>cu_id = c, cu_email = email, cu_plan = ?plan, cu_created_at = t\<rparr>"
    if "cu \<in> set (bd_customer db1)" "cu_id cu = c" for cu
    using that by auto
  have plan: "cu_plan cu = ?plan" if "cu \<in> set (bd_customer db1)" "cu_id cu = c" for cu
    by (subst row [OF that]) simp
  have "0 < q" using q by (auto simp: quota_for_iff)
  with verify_issued [OF db1 f k, of t1 t2] issue_key_sin_fallos [OF fallos k] obtain ident cu
    where "cu \<in> set (bd_customer db1)" "cu_id cu = c" "verify sha (gk_secret k) t1 t2 db' = (Inr (Valid ident c q 0 (cu_plan cu)), db')"
    by auto
  then show ?thesis using plan q out by metis
qed

section \<open>Concrete runs\<close>

definition demo_cli :: entorno_cli where
  "demo_cli = \<lparr>ec_db = Ausente, ec_seed = Valor (to_hex (replicate 32 9)), ec_addr = Ausente, ec_admin = Ausente\<rparr>"

lemma configured_seed_or_no_service_example:
  "\<exists>st r'. run_cli demo_grupo (\<lambda>_. replicate 32 7) demo_fuente demo_cli 0 0 [[112], ascii ''serve''] (Inr demo_bd) 5 =
      Some (Sirve \<lparr>key = 1\<rparr> (ascii ''127.0.0.1:8787'') None, st, r') \<and> r' = 5 \<and>
    clave_publica_de demo_grupo (replicate 32 9) = Some (Inr (public_key demo_grupo \<lparr>key = 1\<rparr>))"
proof -
  have hex: "from_hex_32 (trim (to_hex (replicate 32 9))) = Some (replicate 32 9)" by (simp add: from_hex_32_to_hex)
  have l: "load_server_key demo_grupo demo_fuente (Valor (to_hex (replicate 32 9))) 5 = Some (Inr \<lparr>key = 1\<rparr>, 5)"
    unfolding load_server_key_Valor hex by (simp add: demo_server)
  have d: "run_cli demo_grupo (\<lambda>_. replicate 32 7) demo_fuente demo_cli 0 0 [[112], ascii ''serve''] (Inr demo_bd) 5 =
      Some (Sirve \<lparr>key = 1\<rparr> (ascii ''127.0.0.1:8787'') None, Inr demo_bd, 5)"
    using l by (simp add: run_cli_def store_open_def sentencia_def demo_bd_def bd_init_def arg_def orden_serve_def
        demo_cli_def env_ok_def ascii_def)
  from configured_seed_or_no_service [OF this] hex d show ?thesis by (auto simp: demo_cli_def)
qed

theorem recovered_seed_starts_the_service_witness:
  "\<exists>pk S. load_server_key demo_grupo demo_fuente (Valor (writeln [to_hex (replicate 32 9)])) 5 = Some (Inr S, 5) \<and>
    public_key demo_grupo S = pk"
proof -
  obtain pk texto where c: "cmd_restaurar demo_grupo (\<lambda>_. replicate 32 7)
      [ascii ''restaurar'', ascii ''--clave-publica'', to_hex pk, ascii ''--mostrar-seed''] (Texto texto) =
    Some (SUCCESS, writeln [to_hex (replicate 32 9)])"
    by (rule demo_restauracion)
  from recovered_seed_starts_the_service [OF c, of demo_fuente 5] show ?thesis by auto
qed

lemma issued_on_the_command_line_is_valid_example:
  "\<exists>out db' r' secret ident c. run_cli demo_grupo (sha256 demo_cripto) demo_fuente demo_cli 0 0
      [[112], ascii ''issue'', [101], ascii ''pro''] (Inr bd_init) 0 = Some (Termina (Inr out), Inr db', r') \<and>
    last out = ascii ''API KEY : '' @ secret \<and>
    verify (sha256 demo_cripto) secret 3 3 db' = (Inr (Valid ident c 1500000 0 (ascii ''pro'')), db')"
proof -
  let ?sha = "sha256 demo_cripto" and ?c = "to_hex (map of_nat [0..<16])" and ?i = "to_hex (map of_nat [48..<64])"
  obtain k where g: "generate ?sha demo_fuente 16 = Some (k, 48)"
    by (simp add: generate_def fill_expect_def demo_fuente_def Let_def del: upt_rec_numeral)
  have i: "random_id demo_fuente 0 = Some (?c, 16)" "random_id demo_fuente 48 = Some (?i, 64)"
    by (simp_all add: random_id_def fill_expect_def demo_fuente_def del: upt_rec_numeral)
  have q: "quota_for (ascii ''pro'') = Some 1500000" by (simp add: quota_for_iff)
  let ?args = "[[112], ascii ''issue'', [101], ascii ''pro'']"
  obtain out db' where o: "orden_issue ?sha demo_fuente 0 0 ?args bd_init 0 = Some (Inr out, db', 64)"
    by (simp add: orden_issue_def arg_def q create_customer_def i sentencia_def bd_init_def insertar_customer_def
        issue_key_def g insertar_api_key_def Let_def del: upt_rec_numeral)
  have "arg ?args 1 = Some (ascii ''issue'')" "ascii ''issue'' \<noteq> ascii ''init''" "store_open (Inr bd_init) = Inr bd_init"
    by (simp_all add: arg_def ascii_def store_open_def sentencia_def bd_init_def)
  then have d: "run_cli demo_grupo ?sha demo_fuente demo_cli 0 0 ?args (Inr bd_init) 0 =
      Some (Termina (Inr out), Inr db', 64)"
    using o by (simp add: run_cli_def)
  have "bd_ok bd_init" "bd_fallos bd_init = []" by (simp_all add: bd_init_ok) (simp add: bd_init_def)
  from issued_on_the_command_line_is_valid [OF this demo_fuente_ok d, of 3 3] q d show ?thesis
    by (auto simp: arg_def)
qed

end
