(* ===== verification/Laboratorio.thy ===== *)
theory Laboratorio
  imports Stream Honey
begin

text \<open>
  The engine of the laboratory, \<^verbatim>\<open>src/src/lab/engine.rs\<close>, and the attacks on what an artefact gives away:
  \<^verbatim>\<open>leak.rs\<close>, \<^verbatim>\<open>honey_attack.rs\<close> and \<^verbatim>\<open>honey_fuzz.rs\<close>.  An attack is a step over the state of the machine (the
  random source of the system) and of the laboratory's own generator; \<open>None\<close> is a panic.  What a breach
  says in words is a value here.
\<close>

section \<open>The engine\<close>

text \<open>SplitMix64: the state of the generator is its \<^verbatim>\<open>u64\<close>.\<close>

definition rng_next :: "u64 \<Rightarrow> u64 \<times> u64" where
  "rng_next state =
     (let state = state + 0x9E3779B97F4A7C15;
          z = state;
          z = (z XOR drop_bit 30 z) * 0xBF58476D1CE4E5B9;
          z = (z XOR drop_bit 27 z) * 0x94D049BB133111EB
      in (z XOR drop_bit 31 z, state))"

definition rng_below :: "nat \<Rightarrow> u64 \<Rightarrow> nat \<times> u64" where
  "rng_below n g = (if n = 0 then (0, g) else case rng_next g of (z, g) \<Rightarrow> (unat z mod n, g))"

definition rng_byte :: "u64 \<Rightarrow> u8 \<times> u64" where
  "rng_byte g = (case rng_next g of (z, g) \<Rightarrow> (ucast z, g))"

primrec rng_bytes :: "nat \<Rightarrow> u64 \<Rightarrow> bytes \<times> u64" where
  "rng_bytes 0 g = ([], g)"
| "rng_bytes (Suc n) g =
     (case rng_byte g of (b, g) \<Rightarrow> case rng_bytes n g of (bs, g) \<Rightarrow> (b # bs, g))"

datatype 'd attack_outcome = Advanced | Breach 'd | NoProgress

record 'd lab_report =
  lr_name :: bytes
  lr_attempts :: nat
  lr_advances :: nat
  lr_breaches :: "'d list"

definition is_clean :: "'d lab_report \<Rightarrow> bool" where
  "is_clean rep \<longleftrightarrow> lr_breaches rep = []"

type_synonym ('d, 's) ataque_paso = "u64 \<Rightarrow> 's \<Rightarrow> ('d attack_outcome \<times> u64 \<times> 's) option"

definition anotar :: "'d attack_outcome \<Rightarrow> 'd lab_report \<Rightarrow> 'd lab_report" where
  "anotar o' rep =
     (let rep = rep\<lparr>lr_attempts := lr_attempts rep + 1\<rparr>
      in case o' of
           Advanced \<Rightarrow> rep\<lparr>lr_advances := lr_advances rep + 1\<rparr>
         | Breach detail \<Rightarrow> rep\<lparr>lr_breaches := lr_breaches rep @ [detail]\<rparr>
         | NoProgress \<Rightarrow> rep)"

primrec lab_loop ::
  "('d, 's) ataque_paso \<Rightarrow> nat \<Rightarrow> u64 \<Rightarrow> 's \<Rightarrow> 'd lab_report \<Rightarrow> ('d lab_report \<times> 's) option" where
  "lab_loop paso 0 g s rep = Some (rep, s)"
| "lab_loop paso (Suc n) g s rep =
     (case paso g s of
        None \<Rightarrow> None
      | Some (res, g, s) \<Rightarrow> lab_loop paso n g s (anotar res rep))"

definition lab_run :: "bytes \<Rightarrow> ('d, 's) ataque_paso \<Rightarrow> u64 \<Rightarrow> nat \<Rightarrow> 's \<Rightarrow> ('d lab_report \<times> 's) option" where
  "lab_run nombre paso seed budget s =
     lab_loop paso budget seed s \<lparr>lr_name = nombre, lr_attempts = 0, lr_advances = 0, lr_breaches = []\<rparr>"

text \<open>
  What makes an attack harmless: it ends and reports no breach, whatever the generator and the machine
  draw.  Then every run ends, makes the attempts it was given and is clean.
\<close>

locale ataque_inofensivo =
  fixes paso :: "('d, 's) ataque_paso" and seguro :: bool
  assumes sin_brecha: "seguro \<Longrightarrow> \<exists>res g' s'. paso g s = Some (res, g', s') \<and> (\<forall>d. res \<noteq> Breach d)"
begin

lemma bucle_limpio:
  assumes seguro
  shows "\<exists>rep' s'. lab_loop paso n g s rep = Some (rep', s') \<and> lr_name rep' = lr_name rep \<and>
    lr_attempts rep' = lr_attempts rep + n \<and> lr_breaches rep' = lr_breaches rep \<and>
    lr_advances rep \<le> lr_advances rep' \<and> lr_advances rep' \<le> lr_advances rep + n"
proof (induction n arbitrary: g s rep)
  case (Suc n)
  obtain res g1 s1 where p: "paso g s = Some (res, g1, s1)" "\<And>d. res \<noteq> Breach d"
    using sin_brecha [OF assms] by blast
  have "lr_name (anotar res rep) = lr_name rep" "lr_attempts (anotar res rep) = Suc (lr_attempts rep)"
    "lr_breaches (anotar res rep) = lr_breaches rep" "lr_advances rep \<le> lr_advances (anotar res rep)"
    "lr_advances (anotar res rep) \<le> Suc (lr_advances rep)"
    using p(2) by (cases res; simp add: anotar_def)+
  with Suc [of g1 s1 "anotar res rep"] p(1) show ?case by fastforce
qed simp

lemma corrida_limpia:
  assumes seguro
  shows "\<exists>rep s'. lab_run nombre paso seed budget s = Some (rep, s') \<and> is_clean rep \<and> lr_name rep = nombre \<and>
    lr_attempts rep = budget \<and> lr_advances rep \<le> budget"
  using bucle_limpio [OF assms, of budget seed s] unfolding lab_run_def is_clean_def by fastforce

end

lemma rng_bytes_length: "rng_bytes n g = (bs, g') \<Longrightarrow> length bs = n"
  by (induction n arbitrary: g bs g') (auto split: prod.splits)

section \<open>The generator never repeats itself\<close>

lemma xor_shift_inj:
  fixes x y :: u64
  assumes "0 < k" "x XOR drop_bit k x = y XOR drop_bit k y"
  shows "x = y"
proof (rule bit_word_eqI)
  have b: "bit x n \<noteq> bit x (n + k) \<longleftrightarrow> bit y n \<noteq> bit y (n + k)" for n
  proof -
    have "bit (x XOR drop_bit k x) n = bit (y XOR drop_bit k y) n" using assms(2) by simp
    then show ?thesis by (simp add: bit_xor_iff bit_drop_bit_eq add.commute)
  qed
  show "bit x n = bit y n" if "n < LENGTH(64)" for n
  proof (induction "64 - n" arbitrary: n rule: less_induct)
    case less
    show ?case
    proof (cases "n < 64")
      case True
      then have "bit x (n + k) = bit y (n + k)" using less [of "n + k"] assms(1) by simp
      then show ?thesis using b [of n] by blast
    next
      case False
      then show ?thesis by (simp add: bit_word.rep_eq)
    qed
  qed
qed

lemma odd_mult_inj:
  fixes x y :: u64
  assumes "c * d = 1" "x * c = y * c"
  shows "x = y"
proof -
  have "x * c * d = y * c * d" using assms(2) by simp
  then show ?thesis using assms(1) by (simp add: mult.assoc)
qed

lemma rng_next_inj: "fst (rng_next s) = fst (rng_next t) \<Longrightarrow> s = t"
proof -
  assume e: "fst (rng_next s) = fst (rng_next t)"
  let ?a = "\<lambda>s :: u64. s + 0x9E3779B97F4A7C15"
  let ?b = "\<lambda>s. (?a s XOR drop_bit 30 (?a s)) * 0xBF58476D1CE4E5B9"
  let ?c = "\<lambda>s. (?b s XOR drop_bit 27 (?b s)) * 0x94D049BB133111EB"
  have "?c s XOR drop_bit 31 (?c s) = ?c t XOR drop_bit 31 (?c t)" using e by (simp add: rng_next_def Let_def)
  then have "?c s = ?c t" by (rule xor_shift_inj [rotated]) simp
  then have "?b s XOR drop_bit 27 (?b s) = ?b t XOR drop_bit 27 (?b t)"
    by (rule odd_mult_inj [rotated, where d = "0x319642B2D24D8EC3"]) simp
  then have "?b s = ?b t" by (rule xor_shift_inj [rotated]) simp
  then have "?a s XOR drop_bit 30 (?a s) = ?a t XOR drop_bit 30 (?a t)"
    by (rule odd_mult_inj [rotated, where d = "0x96DE1B173F119089"]) simp
  then have "?a s = ?a t" by (rule xor_shift_inj [rotated]) simp
  then show "s = t" by simp
qed

text \<open>The outputs from a seed on.\<close>

primrec rng_salidas :: "nat \<Rightarrow> u64 \<Rightarrow> u64 list" where
  "rng_salidas 0 g = []"
| "rng_salidas (Suc n) g = (case rng_next g of (z, g) \<Rightarrow> z # rng_salidas n g)"

lemma rng_salidas_eq: "rng_salidas n g = map (\<lambda>i. fst (rng_next (g + of_nat i * 0x9E3779B97F4A7C15))) [0..<n]"
proof (induction n arbitrary: g)
  case (Suc n)
  have "snd (rng_next g) = g + 0x9E3779B97F4A7C15" by (simp add: rng_next_def Let_def)
  then have "rng_salidas (Suc n) g = fst (rng_next g) # rng_salidas n (g + 0x9E3779B97F4A7C15)"
    by (simp add: case_prod_beta)
  then show ?case unfolding Suc by (simp add: upt_conv_Cons map_Suc_upt [symmetric] algebra_simps comp_def del: upt_Suc)
qed simp

lemma rng_sin_repetir: "n \<le> 2 ^ 64 \<Longrightarrow> distinct (rng_salidas n g)"
proof -
  assume n: "n \<le> 2 ^ 64"
  have "i = j" if "i < n" "j < n" "fst (rng_next (g + of_nat i * 0x9E3779B97F4A7C15)) = fst (rng_next (g + of_nat j * 0x9E3779B97F4A7C15))" for i j
  proof -
    have "g + of_nat i * 0x9E3779B97F4A7C15 = g + of_nat j * 0x9E3779B97F4A7C15" using rng_next_inj [OF that(3)] .
    then have "of_nat i * 0x9E3779B97F4A7C15 = (of_nat j * 0x9E3779B97F4A7C15 :: u64)" by simp
    then have "of_nat i = (of_nat j :: u64)"
      by (rule odd_mult_inj [rotated, where d = "0xF1DE83E19937733D"]) simp
    then have "unat (of_nat i :: u64) = unat (of_nat j :: u64)" by simp
    then show ?thesis using that(1,2) n by (simp add: unat_of_nat_u64)
  qed
  then show ?thesis by (auto simp: rng_salidas_eq distinct_map inj_on_def)
qed

section \<open>The length of an artefact\<close>

lemma length_radix:
  assumes n: "2 \<le> n" and v: "n ^ k \<le> v" "v < n ^ (k + 1)"
  shows "length (radix n v) = k + 1"
proof -
  have pos: "0 < v" using v(1) n by (auto intro!: gr0I)
  have r: "radix n v \<noteq> []" "0 < hd (radix n v)" "horner n (radix n v) = v"
    using hd_radix [OF pos n] horner_radix [OF n] by simp_all
  have "v < n ^ length (radix n v)" using horner_less [of "radix n v" n] radix_digits r(3) by simp
  then have "n ^ k < n ^ length (radix n v)" using v(1) by linarith
  then have "k < length (radix n v)" using n by (simp add: power_strict_increasing_iff)
  moreover obtain d ds where ds: "radix n v = d # ds" using r(1) by (cases "radix n v") auto
  then have "n ^ length ds \<le> d * n ^ length ds + horner n ds" using r(2) by (simp add: trans_le_add1)
  then have "n ^ length ds \<le> v" using r(3) by (simp add: ds horner_Cons)
  then have "n ^ length ds < n ^ (k + 1)" using v(2) by linarith
  then have "length ds < k + 1" using n power_less_imp_less_exp [of n "length ds" "k + 1"] by simp
  ultimately show ?thesis by (simp add: ds)
qed

text \<open>What an artefact is as a number: a marker, the fixed beginning of the header, and the rest.\<close>

lemma encode_number:
  assumes e: "encode informe C fuente data pw dict opts r = Some (s, r')" and C: "cripto_ok C" and f: "fuente_ok fuente"
    and l: "length data < 2 ^ 63"
  obtains rest where "length rest = 83 + padme_nat (8 + length data)"
    "length s = length (radix (unat (dictionary_base dict)) (nat_of_be ([1, 0x51] @ rest)))"
proof -
  obtain blob where blob: "encode_to_blob C fuente data pw (fingerprint (sha256 C) dict) opts r = Some (blob, r')"
      and rep: "representar dict blob = Some s"
    using e by (auto simp: encode_def split: bind_splits)
  note len = encode_to_blob_length [OF blob C f fingerprint_length [OF C] l]
  have h: "blob = 0x51 # tl blob" using len(2) by (cases blob) (simp_all add: container_MAGIC_def)
  then have "length (tl blob) = 83 + padme_nat (8 + length data)" using len(1) by simp
  moreover have "length s = length (radix (unat (dictionary_base dict)) (nat_of_be ([1, 0x51] @ tl blob)))"
  proof -
    obtain idx where idx: "encode_base_n blob (dictionary_base dict) = Some idx"
        "expect (dictionary_encode dict idx) = Some s"
      using rep by (auto simp: representar_def split: bind_splits)
    then have "dictionary_encode dict idx = Inr s" by (cases "dictionary_encode dict idx") (simp_all add: expect_simps)
    note idx = idx(1) this
    have "length s = length idx" using idx(2) by (auto simp: dictionary_encode_Inr_iff dest: list_all2_lengthD)
    also have "\<dots> = length (radix (unat (dictionary_base dict)) (nat_of_be (1 # blob)))"
      using idx(1) by (auto simp: encode_base_n_eq split: if_splits)
    finally show ?thesis by (subst (asm) h) simp
  qed
  ultimately show ?thesis by (rule that)
qed

lemma nat_of_be_prefix:
  "nat_of_be pre * 256 ^ length rest \<le> nat_of_be (pre @ rest)"
  "nat_of_be (pre @ rest) < (nat_of_be pre + 1) * 256 ^ length rest"
  using nat_of_be_less [of rest] by (simp_all add: nat_of_be_append algebra_simps)

lemma potencia_256: "(256 :: nat) ^ n = 2 ^ (8 * n)"
proof -
  have "(2 :: nat) ^ (8 * n) = (2 ^ 8) ^ n" by (rule power_mult)
  then show ?thesis by simp
qed

lemma encode_length_flagship:
  assumes "encode informe C fuente data pw (projr flagship) opts r = Some (s, r')" and "cripto_ok C" and "fuente_ok fuente"
    and "length data < 2 ^ 63"
  shows "length s = 8 * (84 + padme_nat (8 + length data)) div 12 + 1"
proof -
  obtain rest where r: "length rest = 83 + padme_nat (8 + length data)"
      "length s = length (radix (unat (dictionary_base (projr flagship))) (nat_of_be ([1, 0x51] @ rest)))"
    by (rule encode_number [OF assms])
  let ?L = "84 + padme_nat (8 + length data)" and ?v = "nat_of_be ([1] @ (0x51 # rest))"
  have l: "length ((0x51 :: u8) # rest) = ?L" using r(1) by simp
  have one: "nat_of_be [1] = 1" by (simp add: nat_of_be_single)
  have "1 * 256 ^ ?L \<le> ?v" "?v < (1 + 1) * 256 ^ ?L"
    using nat_of_be_prefix [of "[1]" "0x51 # rest"] unfolding l one .
  then have v: "2 ^ (8 * ?L) \<le> ?v" "?v < 2 * 2 ^ (8 * ?L)" unfolding potencia_256 by simp_all
  have p: "(4096 :: nat) ^ k = 2 ^ (12 * k)" for k by (simp add: power_mult)
  have "length (radix 4096 ?v) = 8 * ?L div 12 + 1"
  proof (rule length_radix)
    have "(2 :: nat) ^ (12 * (8 * ?L div 12)) \<le> 2 ^ (8 * ?L)" by (rule power_increasing) simp_all
    then show "4096 ^ (8 * ?L div 12) \<le> ?v" unfolding p using v(1) by linarith
    have "Suc (8 * ?L) \<le> 12 * (8 * ?L div 12 + 1)" by presburger
    then have "(2 :: nat) ^ Suc (8 * ?L) \<le> 2 ^ (12 * (8 * ?L div 12 + 1))" by (rule power_increasing) simp
    then have "(2 :: nat) * 2 ^ (8 * ?L) \<le> 2 ^ (12 * (8 * ?L div 12 + 1))" by (simp only: power_Suc)
    then show "?v < 4096 ^ (8 * ?L div 12 + 1)" unfolding p using v(2) by linarith
  qed simp
  moreover have "unat (dictionary_base (projr flagship)) = 4096"
  proof -
    obtain d where d: "flagship = Inr d" using flagship_ok by blast
    show ?thesis by (simp only: d sum.sel flagship_base [OF d]) simp
  qed
  ultimately show ?thesis using r(2) by simp
qed

section \<open>Powers of 94\<close>

text \<open>
  \<open>c = (l, h, e)\<close> bounds \<open>94 ^ k\<close> between \<open>l * 2 ^ (e - 30)\<close> and \<open>h * 2 ^ (e - 30)\<close>; a step multiplies by 94 and
  drops low bits.
\<close>

fun potencia_paso :: "int \<times> int \<times> int \<Rightarrow> int \<times> int \<times> int" where
  "potencia_paso (l, h, e) =
     (if l * 94 < 137438953472 then (l * 94 div 64, h * 94 div 64 + 1, e + 6)
      else (l * 94 div 128, h * 94 div 128 + 1, e + 7))"

fun potencia_ok :: "nat \<Rightarrow> int \<times> int \<times> int \<Rightarrow> bool" where
  "potencia_ok k (l, h, e) \<longleftrightarrow> 0 \<le> e \<and> l * 2 ^ nat e \<le> 94 ^ k * 2 ^ 30 \<and> 94 ^ k * 2 ^ 30 \<le> h * 2 ^ nat e"

text \<open>No power of 94 is between \<open>p * 256 ^ m\<close> and \<open>(p + 1) * 256 ^ m\<close>, for the \<open>m\<close> of a list in order.\<close>

fun cabe :: "int \<Rightarrow> int \<Rightarrow> int \<times> int \<times> int \<Rightarrow> int \<times> int \<times> int \<Rightarrow> bool" where
  "cabe p m (l, h, e) (l', h', e') =
     (let x = 8 * m + 30 - e; y = 8 * m + 30 - e'
      in if x < 0 \<or> 60 < x \<or> y < 0 then False else h \<le> p * 2 ^ nat x \<and> (p + 1) * 2 ^ nat y \<le> l')"

fun recorrer :: "int \<Rightarrow> nat \<Rightarrow> int \<times> int \<times> int \<Rightarrow> int list \<Rightarrow> bool" where
  "recorrer p n c [] = True"
| "recorrer p n c (m # ms) =
     (if cabe p m c (potencia_paso c) then recorrer p n c ms
      else case n of 0 \<Rightarrow> False | Suc n \<Rightarrow> recorrer p n (potencia_paso c) (m # ms))"

lemma potencia_paso_ok: "potencia_ok k c \<Longrightarrow> potencia_ok (k + 1) (potencia_paso c)"
proof -
  have step: "l * 94 div 2 ^ s * 2 ^ (e + s) \<le> 94 ^ (k + 1) * 2 ^ 30 \<and>
      94 ^ (k + 1) * 2 ^ 30 \<le> (h * 94 div 2 ^ s + 1) * 2 ^ (e + s)"
    if "l * 2 ^ e \<le> 94 ^ k * 2 ^ 30" "94 ^ k * 2 ^ 30 \<le> h * 2 ^ e" for l h :: int and e s :: nat
  proof
    have d: "2 ^ s * (x div 2 ^ s) + x mod 2 ^ s = x" "0 \<le> x mod 2 ^ s" "x mod 2 ^ s < 2 ^ s" for x :: int
      by simp_all
    have "2 ^ s * (l * 94 div 2 ^ s) \<le> l * 94" using d [of "l * 94"] by linarith
    then have "l * 94 div 2 ^ s * 2 ^ s \<le> l * 94" by (simp only: mult.commute)
    then have "l * 94 div 2 ^ s * 2 ^ s * 2 ^ e \<le> l * 94 * 2 ^ e" by (rule mult_right_mono) simp
    moreover have "l * 94 * 2 ^ e \<le> 94 ^ (k + 1) * 2 ^ 30" using that(1) by simp
    moreover have "l * 94 div 2 ^ s * 2 ^ s * 2 ^ e = l * 94 div 2 ^ s * 2 ^ (e + s)" by (simp only: power_add ac_simps)
    ultimately show "l * 94 div 2 ^ s * 2 ^ (e + s) \<le> 94 ^ (k + 1) * 2 ^ 30" by linarith
    have "h * 94 \<le> 2 ^ s * (h * 94 div 2 ^ s) + 2 ^ s" using d [of "h * 94"] by linarith
    moreover have "(h * 94 div 2 ^ s + 1) * 2 ^ s = 2 ^ s * (h * 94 div 2 ^ s) + 2 ^ s" by (simp add: algebra_simps)
    ultimately have "h * 94 \<le> (h * 94 div 2 ^ s + 1) * 2 ^ s" by linarith
    then have "h * 94 * 2 ^ e \<le> (h * 94 div 2 ^ s + 1) * 2 ^ s * 2 ^ e" by (rule mult_right_mono) simp
    moreover have "94 ^ (k + 1) * 2 ^ 30 \<le> h * 94 * 2 ^ e" using that(2) by simp
    moreover have "(h * 94 div 2 ^ s + 1) * 2 ^ s * 2 ^ e = (h * 94 div 2 ^ s + 1) * 2 ^ (e + s)"
      by (simp only: power_add ac_simps)
    ultimately show "94 ^ (k + 1) * 2 ^ 30 \<le> (h * 94 div 2 ^ s + 1) * 2 ^ (e + s)" by linarith
  qed
  assume ok: "potencia_ok k c"
  obtain l h e where c: "c = (l, h, e)" by (cases c)
  have s: "l * 2 ^ nat e \<le> 94 ^ k * 2 ^ 30" "94 ^ k * 2 ^ 30 \<le> h * 2 ^ nat e" and e: "0 \<le> e"
    using ok unfolding c by simp_all
  show ?thesis
  proof (cases "l * 94 < 137438953472")
    case True
    have "potencia_paso c = (l * 94 div 2 ^ 6, h * 94 div 2 ^ 6 + 1, e + 6)" using True by (simp add: c)
    moreover have "nat (e + 6) = nat e + 6" using e by simp
    ultimately show ?thesis using step [OF s, of 6] e by (simp only: potencia_ok.simps) simp
  next
    case False
    have "potencia_paso c = (l * 94 div 2 ^ 7, h * 94 div 2 ^ 7 + 1, e + 7)" using False by (simp add: c)
    moreover have "nat (e + 7) = nat e + 7" using e by simp
    ultimately show ?thesis using step [OF s, of 7] e by (simp only: potencia_ok.simps) simp
  qed
qed

lemma cabe_ok:
  assumes "potencia_ok k c" "potencia_ok (k + 1) c'" "cabe p m c c'" "0 \<le> m"
  shows "94 ^ k \<le> p * 256 ^ nat m \<and> (p + 1) * 256 ^ nat m \<le> 94 ^ (k + 1)"
proof -
  obtain l h e l' h' e' where c: "c = (l, h, e)" "c' = (l', h', e')" by (cases c; cases c')
  have x: "0 \<le> 8 * m + 30 - e" "0 \<le> 8 * m + 30 - e'" "h \<le> p * 2 ^ nat (8 * m + 30 - e)"
      "(p + 1) * 2 ^ nat (8 * m + 30 - e') \<le> l'"
    using assms(3) by (auto simp: c Let_def split: if_splits)
  have e: "0 \<le> e" "94 ^ k * 2 ^ 30 \<le> h * 2 ^ nat e" "0 \<le> e'" "l' * 2 ^ nat e' \<le> 94 ^ (k + 1) * 2 ^ 30"
    using assms(1,2) unfolding c potencia_ok.simps by simp_all
  have pot: "(2 :: int) ^ nat (8 * m + 30 - x) * 2 ^ nat x = 256 ^ nat m * 2 ^ 30"
    if "0 \<le> x" "0 \<le> 8 * m + 30 - x" for x
  proof -
    have "nat (8 * m + 30 - x) + nat x = 8 * nat m + 30" using that assms(4) by simp
    then have "(2 :: int) ^ nat (8 * m + 30 - x) * 2 ^ nat x = 2 ^ (8 * nat m) * 2 ^ 30" by (simp only: power_add [symmetric])
    also have "(2 :: int) ^ (8 * nat m) = (2 ^ 8) ^ nat m" by (rule power_mult)
    finally show ?thesis by simp
  qed
  have "h * 2 ^ nat e \<le> p * 2 ^ nat (8 * m + 30 - e) * 2 ^ nat e" using x(3) by (rule mult_right_mono) simp
  then have "94 ^ k * 2 ^ 30 \<le> p * 256 ^ nat m * 2 ^ 30" using e(2) pot [OF e(1) x(1)] by (simp only: mult.assoc)
  then have 1: "94 ^ k \<le> p * 256 ^ nat m" by simp
  have "(p + 1) * 2 ^ nat (8 * m + 30 - e') * 2 ^ nat e' \<le> l' * 2 ^ nat e'" using x(4) by (rule mult_right_mono) simp
  then have "(p + 1) * 256 ^ nat m * 2 ^ 30 \<le> 94 ^ (k + 1) * 2 ^ 30" using e(4) pot [OF e(3) x(2)] by (simp only: mult.assoc)
  then show ?thesis using 1 by simp
qed

lemma recorrer_ok:
  "recorrer p n c ms \<Longrightarrow> potencia_ok k c \<Longrightarrow> \<forall>m \<in> set ms. 0 \<le> m \<Longrightarrow>
    \<forall>m \<in> set ms. \<exists>j. 94 ^ j \<le> p * 256 ^ nat m \<and> (p + 1) * 256 ^ nat m \<le> 94 ^ (j + 1)"
proof (induction p n c ms arbitrary: k rule: recorrer.induct)
  case (2 p n c m ms)
  show ?case
  proof (cases "cabe p m c (potencia_paso c)")
    case True
    have "recorrer p n c ms" using "2.prems"(1) True by simp
    then have "\<forall>m \<in> set ms. \<exists>j. 94 ^ j \<le> p * 256 ^ nat m \<and> (p + 1) * 256 ^ nat m \<le> 94 ^ (j + 1)"
      using "2.IH"(1) [OF True _ "2.prems"(2)] "2.prems"(3) by simp
    moreover have "0 \<le> m" using "2.prems"(3) by simp
    ultimately show ?thesis
      using cabe_ok [OF "2.prems"(2) potencia_paso_ok [OF "2.prems"(2)] True] by (metis set_ConsD)
  next
    case False
    then obtain n' where n: "n = Suc n'" using "2.prems"(1) by (cases n) auto
    then have "recorrer p n' (potencia_paso c) (m # ms)" using False "2.prems"(1) by simp
    then show ?thesis using "2.IH"(2) [OF False n _ potencia_paso_ok [OF "2.prems"(2)] "2.prems"(3)] by simp
  qed
qed simp

text \<open>The sizes that the data of at most 256 bytes have once padded, and the lengths behind the prefix.\<close>

definition rellenos :: "nat list" where
  "rellenos = [10, 12, 14, 16, 18, 20, 22, 24, 26, 28, 30, 32, 36, 40, 44, 48, 52, 56, 60, 64, 72, 80, 88, 96, 104, 112,
     120, 128, 144, 160, 176, 192, 208, 224, 240, 256, 272]"

lemma rellenos_list:
  "list_all (\<lambda>q. q * 2 ^ 1 \<in> set rellenos) [5..<17]" "list_all (\<lambda>q. q * 2 ^ 2 \<in> set rellenos) [8..<17]"
  "list_all (\<lambda>q. q * 2 ^ 3 \<in> set rellenos) [8..<17]" "list_all (\<lambda>q. q * 2 ^ 4 \<in> set rellenos) [8..<18]"
  by (simp_all add: upt_rec rellenos_def)

lemma rellenos_ok:
  assumes "1 \<le> n" "n \<le> 256"
  shows "padme_nat (8 + n) \<in> set rellenos"
proof -
  let ?x = "8 + n"
  have one: "padme_nat ?x \<in> set rellenos"
    if "2 ^ k \<le> ?x" "?x < 2 ^ (k + 1)" "k - bit_length k = b"
      "list_all (\<lambda>q. q * 2 ^ b \<in> set rellenos) [i..<j]" "i * 2 ^ b \<le> ?x + (2 ^ b - 1)" "?x + (2 ^ b - 1) < j * 2 ^ b" for k b i j
  proof -
    have "bit_length ?x = Suc k" using that(1,2) by (intro bit_length_eqI) simp_all
    then have "padme_nat ?x = (?x + (2 ^ b - 1)) div 2 ^ b * 2 ^ b"
      using assms that(3) by (simp add: padme_nat_def padme_bits_def Let_def)
    moreover have "i \<le> (?x + (2 ^ b - 1)) div 2 ^ b" "(?x + (2 ^ b - 1)) div 2 ^ b < j"
      using that(5,6) by (simp_all add: less_eq_div_iff_mult_less_eq div_less_iff_less_mult)
    ultimately show ?thesis using that(4) by (simp add: list_all_iff)
  qed
  have b: "bit_length 3 = 2" "bit_length 4 = 3" "bit_length 5 = 3" "bit_length 6 = 3" "bit_length 7 = 3" "bit_length 8 = 4"
    by (simp_all add: bit_length.simps)
  consider "?x < 16" | "16 \<le> ?x" "?x < 32" | "32 \<le> ?x" "?x < 64" | "64 \<le> ?x" "?x < 128" | "128 \<le> ?x" "?x < 256" | "256 \<le> ?x"
    by linarith
  then show ?thesis
  proof cases
    case 1 then show ?thesis using assms by (intro one [OF _ _ _ rellenos_list(1), where k = 3]) (simp_all add: b)
  next
    case 2 then show ?thesis by (intro one [OF _ _ _ rellenos_list(1), where k = 4]) (simp_all add: b)
  next
    case 3 then show ?thesis by (intro one [OF _ _ _ rellenos_list(2), where k = 5]) (simp_all add: b)
  next
    case 4 then show ?thesis by (intro one [OF _ _ _ rellenos_list(3), where k = 6]) (simp_all add: b)
  next
    case 5 then show ?thesis by (intro one [OF _ _ _ rellenos_list(4), where k = 7]) (simp_all add: b)
  next
    case 6 then show ?thesis using assms by (intro one [OF _ _ _ rellenos_list(4), where k = 8]) (simp_all add: b)
  qed
qed

lemma sin_potencias: "recorrer 337 500 (1073741824, 1073741825, 0) (map (\<lambda>x. 83 + int x) rellenos)"
  by (simp add: rellenos_def)

text \<open>So in the codebook of 94 symbols the data of one length of at most 256 bytes give texts of one length.\<close>

lemma encode_length_ascii94:
  assumes n: "1 \<le> n" "n \<le> 256"
  obtains k where "\<And>(C :: 'c cripto_scheme) (fuente :: 'r fuente) informe data pw opts r s r'. cripto_ok C \<Longrightarrow> fuente_ok fuente \<Longrightarrow>
    length data = n \<Longrightarrow> encode informe C fuente data pw (projr ascii94) opts r = Some (s, r') \<Longrightarrow> length s = k + 1"
proof -
  let ?m = "83 + padme_nat (8 + n)"
  have ok: "potencia_ok 0 (1073741824, 1073741825, 0)" by simp
  have "int ?m \<in> set (map (\<lambda>x. 83 + int x) rellenos)" using rellenos_ok [OF n] by force
  then obtain k where k: "94 ^ k \<le> 337 * (256 :: int) ^ nat (int ?m)" "(337 + 1) * 256 ^ nat (int ?m) \<le> (94 :: int) ^ (k + 1)"
    using recorrer_ok [OF sin_potencias ok] by fastforce
  note k = k [unfolded nat_int]
  have "int (94 ^ k) \<le> int (337 * 256 ^ ?m)" "int (338 * 256 ^ ?m) \<le> int (94 ^ (k + 1))" using k by simp_all
  then have k: "94 ^ k \<le> (337 :: nat) * 256 ^ ?m" "(338 :: nat) * 256 ^ ?m \<le> 94 ^ (k + 1)" by (simp_all only: of_nat_le_iff)
  show ?thesis
  proof (rule that)
    fix C :: "'c cripto_scheme" and fuente :: "'r fuente" and informe data pw opts r s r'
    assume C: "cripto_ok C" and f: "fuente_ok fuente" and l: "length data = n"
      and e: "encode informe C fuente data pw (projr ascii94) opts r = Some (s, r')"
    obtain rest where r: "length rest = 83 + padme_nat (8 + length data)"
        "length s = length (radix (unat (dictionary_base (projr ascii94))) (nat_of_be ([1, 0x51] @ rest)))"
      by (rule encode_number [OF e C f]) (use n l in simp)
    have "nat_of_be [1, 0x51] = 337" by (simp add: nat_of_be_Cons)
    then have v: "337 * 256 ^ ?m \<le> nat_of_be ([1, 0x51] @ rest)" "nat_of_be ([1, 0x51] @ rest) < 338 * 256 ^ ?m"
      using nat_of_be_prefix [of "[1, 0x51]" rest] r(1) l by simp_all
    have "unat (dictionary_base (projr ascii94)) = 94"
    proof -
      obtain d where d: "ascii94 = Inr d" using ascii94_ok by blast
      show ?thesis by (simp only: d sum.sel ascii94_base [OF d]) simp
    qed
    then show "length s = k + 1"
      unfolding r(2) using v k by (simp only:) (intro length_radix; linarith)
  qed
qed

end
