(* ===== verification/Ataques.thy ===== *)
theory Ataques
  imports Laboratorio Hexutil
begin

text \<open>
  The attacks of the laboratory on what an artefact gives away: \<^verbatim>\<open>src/src/lab/leak.rs\<close> (does the length of
  a text depend on more than the length of the data?), \<^verbatim>\<open>honey_attack.rs\<close> (is there a sign of the right
  passphrase?) and \<^verbatim>\<open>honey_fuzz.rs\<close> (do bytes of an adversary make the reader panic?), and what the engine
  reports of them.  The state of the machine is that of its random source.
\<close>

section \<open>The length of the text\<close>

definition texto_de :: "string \<Rightarrow> char32 list" where
  "texto_de s = map of_char s"

definition lab_params :: kdf_params where
  "lab_params = \<lparr>mem_kib = 64, iterations = 1, parallelism = 1\<rparr>"

definition leak_opts :: options where
  "leak_opts = \<lparr>opt_pepper = [], opt_kdf_params = lab_params, opt_codebook_id = 0\<rparr>"

definition leak_step ::
  "report \<Rightarrow> 'c cripto_scheme \<Rightarrow> 'r fuente \<Rightarrow> (nat \<times> nat \<times> nat, 'r) ataque_paso" where
  "leak_step informe C fuente g r =
     (let dict = projr ascii94
      in case rng_below 256 g of (x, g) \<Rightarrow>
         let len = 1 + x; structured = replicate len 0xAB
         in case rng_bytes len g of (random, g) \<Rightarrow>
            do {
              (a, r) \<leftarrow> encode informe C fuente structured (texto_de ''clave-lab'') dict leak_opts r;
              (b, r) \<leftarrow> encode informe C fuente random (texto_de ''clave-lab'') dict leak_opts r;
              Some (if length a \<noteq> length b then Breach (len, length a, length b) else Advanced, g, r)
            })"

section \<open>The right passphrase\<close>

definition honey_ALPHABET :: u16 where "honey_ALPHABET = 10"
definition honey_LEN :: nat where "honey_LEN = 6"

definition honey_lab_opts :: honey_options where
  "honey_lab_opts = \<lparr>ho_pepper = [], ho_kdf_params = lab_params\<rparr>"

datatype honey_brecha =
    NoRecupera
  | LongitudDistinta
  | TokenInvalido
  | ErrorDelata honey_error

primrec rng_tokens :: "nat \<Rightarrow> u64 \<Rightarrow> u16 list \<times> u64" where
  "rng_tokens 0 g = ([], g)"
| "rng_tokens (Suc n) g =
     (case rng_below (unat honey_ALPHABET) g of (t, g) \<Rightarrow>
      case rng_tokens n g of (ts, g) \<Rightarrow> (of_nat t # ts, g))"

text \<open>\<^verbatim>\<open>format!("real-{}", rng.next_u64())\<close> and the like.\<close>

definition rng_clave :: "string \<Rightarrow> u64 \<Rightarrow> char32 list \<times> u64" where
  "rng_clave prefijo g = (case rng_next g of (z, g) \<Rightarrow> (texto_de prefijo @ map ucast (decimal (unat z)), g))"

primrec honey_tantear :: "'c cripto_scheme \<Rightarrow> bytes \<Rightarrow> nat \<Rightarrow> u64 \<Rightarrow> (honey_brecha option \<times> u64) option" where
  "honey_tantear C blob 0 g = Some (None, g)"
| "honey_tantear C blob (Suc n) g =
     (case rng_clave ''guess-'' g of (guess, g) \<Rightarrow>
        (case honey_decrypt C blob guess [] of
           None \<Rightarrow> None
         | Some (Inl e) \<Rightarrow> Some (Some (ErrorDelata e), g)
         | Some (Inr t) \<Rightarrow>
             if length t \<noteq> honey_LEN then Some (Some LongitudDistinta, g)
             else if \<exists>x \<in> set t. honey_ALPHABET \<le> x then Some (Some TokenInvalido, g)
             else honey_tantear C blob n g))"

definition honey_step :: "'c cripto_scheme \<Rightarrow> 'r fuente \<Rightarrow> (honey_brecha, 'r) ataque_paso" where
  "honey_step C fuente g r =
     (let ab = projr (alphabet_new honey_ALPHABET)
      in case rng_tokens honey_LEN g of (secret, g) \<Rightarrow>
         case rng_clave ''real-'' g of (real_pw, g) \<Rightarrow>
           (case honey_encrypt C fuente secret ab real_pw honey_lab_opts r of
              Some (Inr blob, r) \<Rightarrow>
                do {
                  t \<leftarrow> honey_decrypt C blob real_pw [];
                  if t \<noteq> Inr secret then Some (Breach NoRecupera, g, r)
                  else do {
                    (b, g) \<leftarrow> honey_tantear C blob 8 g;
                    Some (case b of None \<Rightarrow> Advanced | Some d \<Rightarrow> Breach d, g, r)
                  }
                }
            | _ \<Rightarrow> None))"

section \<open>Hostile bytes\<close>

definition valid_header :: "u64 \<Rightarrow> u32 \<Rightarrow> bytes \<times> u64" where
  "valid_header g declared_len =
     (case rng_bytes KDF_SALT_LEN g of (salt, g) \<Rightarrow>
        (honey_MAGIC @ [1] @ salt @ u32_to_be 64 @ u32_to_be 1 @ u32_to_be 1 @ u16_to_be 10 @ u32_to_be declared_len, g))"

definition build_adversarial :: "'c cripto_scheme \<Rightarrow> 'r fuente \<Rightarrow> u64 \<Rightarrow> 'r \<Rightarrow> (bytes \<times> u64 \<times> 'r) option" where
  "build_adversarial C fuente g r =
     (let lleno = (\<lambda>r. case encrypt_pin C fuente (texto_de ''4913'') (texto_de ''otra'') honey_lab_opts r of
            Some (Inr full, r) \<Rightarrow> Some (full, r) | _ \<Rightarrow> None)
      in case rng_below 6 g of (caso, g) \<Rightarrow>
         if caso = 0 then (case rng_below 200 g of (n, g) \<Rightarrow> case rng_bytes n g of (bs, g) \<Rightarrow> Some (bs, g, r))
         else if caso = 1 then
           (case rng_below 80 g of (n, g) \<Rightarrow> case rng_bytes n g of (bs, g) \<Rightarrow> Some (honey_MAGIC @ bs, g, r))
         else if caso = 2 then (case valid_header g (- 1) of (v, g) \<Rightarrow> Some (v, g, r))
         else if caso = 3 then
           (case valid_header g 4 of (v, g) \<Rightarrow>
              let off = 5 + KDF_SALT_LEN
              in Some (take off v @ u32_to_be (- 1) @ drop (off + 4) v, g, r))
         else if caso = 4 then do { (full, r) \<leftarrow> lleno r; Some (take (length full div 2) full, g, r) }
         else do {
           (full, r) \<leftarrow> lleno r;
           case rng_below 40 g of (n, g) \<Rightarrow> case rng_bytes n g of (bs, g) \<Rightarrow> Some (full @ bs, g, r)
         })"

text \<open>A panic of the reader is caught and is the breach; a panic before it is not.\<close>

definition fuzz_step :: "'c cripto_scheme \<Rightarrow> 'r fuente \<Rightarrow> (nat, 'r) ataque_paso" where
  "fuzz_step C fuente g r =
     do {
       (blob, g, r) \<leftarrow> build_adversarial C fuente g r;
       Some (case honey_decrypt C blob (texto_de ''clave-fuzz'') [] of None \<Rightarrow> Breach (length blob) | Some _ \<Rightarrow> Advanced, g, r)
     }"

section \<open>What the attacks can rely on\<close>

text \<open>
  Primitives that meet their laws and do not blow up a short passphrase, a self-test that passed, and a
  random source that delivers healthy bytes.
\<close>

definition lab_ok :: "report \<Rightarrow> 'c cripto_scheme \<Rightarrow> 'r fuente \<Rightarrow> bool" where
  "lab_ok informe C fuente \<longleftrightarrow> cripto_ok C \<and> fuente_ok fuente \<and> report_ok informe \<and>
     (\<forall>pw. length pw \<le> 64 \<longrightarrow> length (utf8 (nfkc C pw)) < 2 ^ 32) \<and>
     (\<forall>n r. llenar_expect fuente n r \<noteq> None)"

lemma lab_okD:
  assumes "lab_ok informe C fuente"
  shows "cripto_ok C" "fuente_ok fuente" "report_ok informe"
    and "length pw \<le> 64 \<Longrightarrow> length (utf8 (nfkc C pw)) < 2 ^ 32"
    and "\<exists>b r'. llenar_expect fuente n r = Some (b, r')"
  using assms by (auto simp: lab_ok_def)

lemma lab_params_sane: "is_sane lab_params"
  by (simp add: lab_params_def is_sane_unat)

lemma lab_ok_demo: "lab_ok demo_informe demo_cripto demo_fuente"
proof -
  have "length (utf8 pw) \<le> 4 * length pw" for pw
    by (induction pw) (simp_all add: utf8_def utf8_char_def Let_def)
  then have "length (utf8 (nfkc demo_cripto pw)) < 2 ^ 32" if "length pw \<le> 64" for pw
    using that le_less_trans [of "length (utf8 pw)" "4 * length pw" "2 ^ 32"] by (simp add: demo_cripto_def)
  then show ?thesis
    by (simp add: lab_ok_def demo_cripto_ok demo_fuente_ok demo_informe_ok demo_llenar)
qed

section \<open>The lengths do not leak\<close>

lemma rng_below_less: "0 < n \<Longrightarrow> rng_below n g = (x, g') \<Longrightarrow> x < n"
  by (auto simp: rng_below_def split: prod.splits)

lemma lab_encode:
  assumes ok: "lab_ok informe C fuente" and d: "length data < 2 ^ 37"
  shows "\<exists>s r'. encode informe C fuente data (texto_de ''clave-lab'') (projr ascii94) leak_opts r = Some (s, r')"
proof -
  obtain salt r1 where s: "llenar_expect fuente SALT_LEN r = Some (salt, r1)" using lab_okD(5) [OF ok] by blast
  obtain nonce r2 where n: "llenar_expect fuente NONCE_LEN r1 = Some (nonce, r2)" using lab_okD(5) [OF ok] by blast
  have "length (texto_de ''clave-lab'') \<le> 64" by (simp add: texto_de_def)
  then have "length (utf8 (nfkc C (texto_de ''clave-lab''))) + length (opt_pepper leak_opts) < 2 ^ 32"
    using lab_okD(4) [OF ok] by (simp add: leak_opts_def)
  from encode_returns [OF lab_okD(1,2) [OF ok] ascii94_wf lab_okD(3) [OF ok] _ d this s n]
  show ?thesis using lab_params_sane by (auto simp: leak_opts_def)
qed

lemma leak_sin_brecha:
  assumes ok: "lab_ok informe C fuente"
  shows "\<exists>res g' r'. leak_step informe C fuente g r = Some (res, g', r') \<and> (\<forall>d. res \<noteq> Breach d)"
proof -
  obtain x g1 where x: "rng_below 256 g = (x, g1)" by fastforce
  obtain bs g2 where bs: "rng_bytes (1 + x) g1 = (bs, g2)" by fastforce
  have len: "1 \<le> 1 + x" "1 + x \<le> 256" "length bs = 1 + x"
    using rng_below_less [OF _ x] rng_bytes_length [OF bs] by simp_all
  obtain a r1 where a: "encode informe C fuente (replicate (1 + x) 0xAB) (texto_de ''clave-lab'') (projr ascii94) leak_opts r = Some (a, r1)"
    using lab_encode [OF ok, of "replicate (1 + x) 0xAB" r] len by auto
  obtain b r2 where b: "encode informe C fuente bs (texto_de ''clave-lab'') (projr ascii94) leak_opts r1 = Some (b, r2)"
    using lab_encode [OF ok, of bs r1] len by auto
  obtain k where k: "\<And>data s r r'. length data = 1 + x \<Longrightarrow>
      encode informe C fuente data (texto_de ''clave-lab'') (projr ascii94) leak_opts r = Some (s, r') \<Longrightarrow> length s = k + 1"
    using encode_length_ascii94 [OF len(1,2)] lab_okD(1,2) [OF ok] by metis
  have "length a = length b" using k [OF _ a] k [OF len(3) b] by simp
  then show ?thesis using x bs a b by (simp add: leak_step_def Let_def)
qed

section \<open>Nothing gives the right passphrase away\<close>

lemma length_decimal: "n < 10 ^ Suc k \<Longrightarrow> length (decimal n) \<le> Suc k"
proof (induction k arbitrary: n)
  case (Suc k)
  then have "n div 10 < 10 ^ Suc k" by (simp add: less_mult_imp_div_less mult.commute)
  then show ?case using Suc.IH [of "n div 10"] by (simp add: decimal.simps [of n])
qed (simp add: decimal.simps)

lemma rng_clave_corta:
  assumes "rng_clave prefijo g = (pw, g')" and "length prefijo \<le> 40"
  shows "length pw \<le> 64"
proof -
  have "unat z < 10 ^ Suc 19" for z :: u64 using unat_u64_lt [of z] by simp
  then have "length (decimal (unat z)) \<le> 20" for z :: u64 using length_decimal [of "unat z" 19] by simp
  moreover have "pw = texto_de prefijo @ map ucast (decimal (unat (fst (rng_next g))))"
    using assms(1) by (auto simp: rng_clave_def split: prod.splits)
  ultimately show ?thesis using assms(2) by (simp add: texto_de_def add_le_mono [of _ 40 _ 20, THEN order_trans])
qed

lemma rng_tokens_ok:
  "rng_tokens n g = (ts, g') \<Longrightarrow> length ts = n \<and> (\<forall>t \<in> set ts. t < honey_ALPHABET)"
proof (induction n arbitrary: g ts g')
  case (Suc n)
  obtain t g1 where t: "rng_below (unat honey_ALPHABET) g = (t, g1)" by fastforce
  obtain us g2 where us: "rng_tokens n g1 = (us, g2)" by fastforce
  have "t < 10" using rng_below_less [OF _ t] by (simp add: honey_ALPHABET_def)
  then have "(of_nat t :: u16) < honey_ALPHABET"
    by (simp add: honey_ALPHABET_def word_less_nat_alt unat_of_nat take_bit_nat_eq_self)
  then show ?case using Suc t us by auto
qed simp

lemma honey_encrypt_total:
  assumes ok: "lab_ok informe C fuente" and t: "tokens \<noteq> []" "length tokens \<le> MAX_TOKENS" "\<forall>t \<in> set tokens. t < al_size al"
    and pw: "length pw \<le> 64"
  shows "\<exists>blob r'. honey_encrypt C fuente tokens al pw honey_lab_opts r = Some (Inr blob, r')"
proof -
  have c: "\<not> (tokens = [] \<or> MAX_TOKENS < length tokens)" "\<not> (\<exists>t \<in> set tokens. al_size al \<le> t)"
    using t by (auto simp: not_le not_less)
  obtain salt r1 where s: "llenar_expect fuente KDF_SALT_LEN r = Some (salt, r1)" using lab_okD(5) [OF ok] by blast
  have "length salt = 16" using llenar_expect_length [OF lab_okD(2) [OF ok] s] by (simp add: KDF_SALT_LEN_def)
  moreover have "length (utf8 (nfkc C pw)) + length ([] :: bytes) < 2 ^ 32" using lab_okD(4) [OF ok pw] by simp
  ultimately obtain ks where "keystream_digits C pw salt [] lab_params (al_size al) (length tokens) = Some ks"
    using keystream_digits_total [OF lab_okD(1) [OF ok] t(2) lab_params_sane] by blast
  then show ?thesis using s unfolding honey_encrypt_def if_not_P [OF c(1)] if_not_P [OF c(2)]
    by (simp add: honey_lab_opts_def Let_def)
qed

text \<open>Every short passphrase opens to something plausible.\<close>

lemma honey_plausible:
  assumes ok: "lab_ok informe C fuente" and a: "2 \<le> al_size al"
    and e: "honey_encrypt C fuente tokens al pw honey_lab_opts r = Some (Inr blob, r')" and pw: "length pw' \<le> 64"
  shows "\<exists>ts. honey_decrypt C blob pw' [] = Some (Inr ts) \<and> length ts = length tokens \<and> (\<forall>t \<in> set ts. t < al_size al)"
proof -
  obtain salt cs where s: "length salt = 16" and t: "tokens \<noteq> []" "length tokens \<le> MAX_TOKENS"
      and cs: "length cs = length tokens"
      and blob: "blob = honey_cabecera salt lab_params (al_size al) (length cs) @ concat (map u16_to_be cs)"
    using honey_encrypt_Inr [OF lab_okD(1,2) [OF ok] a e] by (metis honey_lab_opts_def honey_options.select_convs(2))
  have ne: "cs \<noteq> []" "length cs \<le> MAX_TOKENS" using t cs by auto
  have "length (utf8 (nfkc C pw')) + length ([] :: bytes) < 2 ^ 32" using lab_okD(4) [OF ok pw] by simp
  then obtain ks where ks: "keystream_digits C pw' salt [] lab_params (al_size al) (length cs) = Some ks"
    using keystream_digits_total [OF lab_okD(1) [OF ok] ne(2) lab_params_sane s] by blast
  from honey_decrypt_any [OF lab_okD(1) [OF ok] a s lab_params_sane ne ks] cs show ?thesis
    unfolding blob by (metis (no_types, lifting))
qed

lemma tantear_nada:
  assumes ok: "lab_ok informe C fuente" and al: "al_size al = honey_ALPHABET"
    and e: "honey_encrypt C fuente tokens al pw honey_lab_opts r = Some (Inr blob, r')" and l: "length tokens = honey_LEN"
  shows "\<exists>g'. honey_tantear C blob n g = Some (None, g')"
proof (induction n arbitrary: g)
  case (Suc n)
  obtain guess g1 where p: "rng_clave ''guess-'' g = (guess, g1)" by fastforce
  have "2 \<le> al_size al" by (simp add: al honey_ALPHABET_def word_le_nat_alt)
  moreover have "length guess \<le> 64" by (rule rng_clave_corta [OF p]) simp
  ultimately obtain ts where "honey_decrypt C blob guess [] = Some (Inr ts)" "length ts = honey_LEN"
      "\<forall>t \<in> set ts. t < honey_ALPHABET"
    using honey_plausible [OF ok _ e, of guess] l al by auto
  then show ?case using p Suc [of g1] by (auto simp: not_le)
qed simp

lemma honey_sin_brecha:
  assumes ok: "lab_ok informe C fuente"
  shows "\<exists>res g' r'. honey_step C fuente g r = Some (res, g', r') \<and> (\<forall>d. res \<noteq> Breach d)"
proof -
  let ?al = "projr (alphabet_new honey_ALPHABET)"
  have al: "al_size ?al = honey_ALPHABET" "2 \<le> al_size ?al"
    by (simp_all add: alphabet_new_def honey_ALPHABET_def word_le_nat_alt word_less_nat_alt)
  obtain secret g1 where s: "rng_tokens honey_LEN g = (secret, g1)" by fastforce
  obtain real_pw g2 where pw: "rng_clave ''real-'' g1 = (real_pw, g2)" by fastforce
  have sl: "length secret = honey_LEN" "\<forall>t \<in> set secret. t < al_size ?al" using rng_tokens_ok [OF s] al by simp_all
  have "length real_pw \<le> 64" by (rule rng_clave_corta [OF pw]) simp
  then obtain blob r1 where e: "honey_encrypt C fuente secret ?al real_pw honey_lab_opts r = Some (Inr blob, r1)"
    using honey_encrypt_total [OF ok _ _ sl(2)] sl(1) by (fastforce simp: honey_LEN_def MAX_TOKENS_def)
  have d: "honey_decrypt C blob real_pw [] = Some (Inr secret)"
    using honey_lossless [OF lab_okD(1,2) [OF ok] al(2) _ e] lab_params_sane by (simp add: honey_lab_opts_def)
  obtain g3 where "honey_tantear C blob 8 g2 = Some (None, g3)" using tantear_nada [OF ok al(1) e sl(1)] by blast
  then show ?thesis using s pw e d by (simp add: honey_step_def Let_def)
qed

section \<open>No bytes make the reader panic\<close>

lemma honey_decrypt_total:
  assumes C: "cripto_ok C" and pw: "length (utf8 (nfkc C pw)) + length pepper < 2 ^ 32"
  shows "honey_decrypt C blob pw pepper \<noteq> None"
proof -
  have "\<exists>ks. keystream_digits C pw (slice 5 21 blob) pepper params tam len = Some ks"
    if "\<not> length blob < honey_HEADER_LEN" "len \<le> MAX_TOKENS" "is_sane params" for params tam len
  proof (rule keystream_digits_total [OF C that(2,3) _ pw])
    show "length (slice 5 21 blob) = 16" using that(1) by (simp add: length_slice honey_HEADER_LEN_def KDF_SALT_LEN_def)
  qed
  note ks = this
  show ?thesis
  proof
    assume "honey_decrypt C blob pw pepper = None"
    then have "\<exists>params tam len. \<not> length blob < honey_HEADER_LEN \<and> len \<le> MAX_TOKENS \<and> is_sane params \<and>
        keystream_digits C pw (slice 5 21 blob) pepper params tam len = None"
      by (force simp: honey_decrypt_def Let_def not_less split: if_splits bind_splits)
    then obtain params tam len where n: "\<not> length blob < honey_HEADER_LEN" "len \<le> MAX_TOKENS" "is_sane params"
        "keystream_digits C pw (slice 5 21 blob) pepper params tam len = None" by blast
    from ks [OF n(1-3), of tam] n(4) show False by simp
  qed
qed

lemma fuzz_sin_brecha:
  assumes ok: "lab_ok informe C fuente"
  shows "\<exists>res g' r'. fuzz_step C fuente g r = Some (res, g', r') \<and> (\<forall>d. res \<noteq> Breach d)"
proof -
  have pin: "pin_to_tokens (texto_de ''4913'') = Inr [4, 9, 1, 3]"
    by (simp add: pin_to_tokens_def to_digit10_def MAX_TOKENS_def texto_de_def utf8_def utf8_char_def)
  have "\<exists>full r'. encrypt_pin C fuente (texto_de ''4913'') (texto_de ''otra'') honey_lab_opts r = Some (Inr full, r')" for r
  proof -
    have "length (texto_de ''otra'') \<le> 64" by (simp add: texto_de_def)
    then have "\<exists>blob r'. honey_encrypt C fuente [4, 9, 1, 3] alphabet_digits (texto_de ''otra'') honey_lab_opts r = Some (Inr blob, r')"
      by (intro honey_encrypt_total [OF ok]) (simp_all add: alphabet_digits_def MAX_TOKENS_def word_less_nat_alt)
    then show ?thesis by (simp add: encrypt_pin_def pin)
  qed
  then obtain full r1 where "encrypt_pin C fuente (texto_de ''4913'') (texto_de ''otra'') honey_lab_opts r = Some (Inr full, r1)"
    by blast
  then have "\<exists>blob g' r'. build_adversarial C fuente g r = Some (blob, g', r')"
    by (simp add: build_adversarial_def Let_def case_prod_beta)
  moreover have "length (texto_de ''clave-fuzz'') \<le> 64" by (simp add: texto_de_def)
  then have "honey_decrypt C blob (texto_de ''clave-fuzz'') [] \<noteq> None" for blob
    using lab_okD(4) [OF ok] by (intro honey_decrypt_total lab_okD(1) [OF ok]) simp
  ultimately show ?thesis by (auto simp: fuzz_step_def split: option.split)
qed

section \<open>The reports\<close>

text \<open>The three attacks are harmless on a machine that is in order.\<close>

interpretation leak: ataque_inofensivo "leak_step informe C fuente" "lab_ok informe C fuente" for informe C fuente
  by unfold_locales (rule leak_sin_brecha)

interpretation oraculo: ataque_inofensivo "honey_step C fuente" "lab_ok informe C fuente" for informe C fuente
  by unfold_locales (rule honey_sin_brecha)

interpretation fuzz: ataque_inofensivo "fuzz_step C fuente" "lab_ok informe C fuente" for informe C fuente
  by unfold_locales (rule fuzz_sin_brecha)

text \<open>
  C33.  The laboratory finds nothing to report, for every seed and budget, whatever is drawn: the run of the
  attack on lengths ends, makes the attempts of its budget and is clean, because two data of one length
  give texts of one length in the codebook of 94 symbols; so is the run of the attack on honey
  encryption, because every passphrase opens to a plausible secret; and so is the run of the fuzzer,
  because the reader answers any bytes.
\<close>
theorem laboratory_is_clean:
  assumes "lab_ok informe C fuente"
  shows "(\<exists>rep r'. lab_run nombre (leak_step informe C fuente) seed budget r = Some (rep, r') \<and> is_clean rep \<and>
      lr_attempts rep = budget) \<and>
    (\<exists>rep r'. lab_run nombre (honey_step C fuente) seed budget r = Some (rep, r') \<and> is_clean rep \<and>
      lr_attempts rep = budget) \<and>
    (\<exists>rep r'. lab_run nombre (fuzz_step C fuente) seed budget r = Some (rep, r') \<and> is_clean rep \<and>
      lr_attempts rep = budget)"
  using leak.corrida_limpia [OF assms, of nombre seed budget r] oraculo.corrida_limpia [OF assms, of nombre seed budget r]
    fuzz.corrida_limpia [OF assms, of nombre seed budget r] by blast

theorem laboratory_is_clean_witness:
  "\<exists>rep r'. lab_run [] (leak_step demo_informe demo_cripto demo_fuente) 20260701 64 0 = Some (rep, r') \<and> is_clean rep \<and>
    lr_attempts rep = 64"
  using laboratory_is_clean [OF lab_ok_demo, of "[]" 20260701 64 0] by blast

text \<open>
   In the default codebook of 4096 symbols the length of a text is a function of the padded length alone,
  so it says no more of the data than the bucket of their length: not their content, not the passphrase,
  not what was drawn.
\<close>
lemma text_length_is_the_bucket:
  assumes "encode informe C fuente data pw (projr flagship) opts r = Some (s, r')" and "cripto_ok C" and "fuente_ok fuente"
    and "length data < 2 ^ 63"
  shows "length s = 8 * (84 + padme_nat (8 + length data)) div 12 + 1"
  using assms by (rule encode_length_flagship)

lemma demo_texto:
  "\<exists>s r'. encode demo_informe demo_cripto demo_fuente [1, 2, 3] (texto_de ''clave-lab'') (projr flagship) leak_opts 0 = Some (s, r')"
proof -
  have "length (texto_de ''clave-lab'') \<le> 64" by (simp add: texto_de_def)
  then have "length (utf8 (nfkc demo_cripto (texto_de ''clave-lab''))) + length (opt_pepper leak_opts) < 2 ^ 32"
    using lab_okD(4) [OF lab_ok_demo] by (simp add: leak_opts_def)
  from encode_returns [OF demo_cripto_ok demo_fuente_ok flagship_wf demo_informe_ok _ _ this demo_llenar demo_llenar, of "[1, 2, 3]" 0]
  show ?thesis using lab_params_sane by (auto simp: leak_opts_def)
qed

lemma text_length_is_the_bucket_example:
  "\<exists>s r'. encode demo_informe demo_cripto demo_fuente [1, 2, 3] (texto_de ''clave-lab'') (projr flagship) leak_opts 0 = Some (s, r') \<and>
    length s = 65"
proof -
  obtain s r' where e: "encode demo_informe demo_cripto demo_fuente [1, 2, 3] (texto_de ''clave-lab'') (projr flagship) leak_opts 0 = Some (s, r')"
    using demo_texto by blast
  have l: "length s = 8 * (84 + padme_nat (8 + length [1 :: u8, 2, 3])) div 12 + 1"
    by (rule text_length_is_the_bucket [OF e demo_cripto_ok demo_fuente_ok]) simp
  have "bit_length 11 = 4" "bit_length 3 = 2" by (simp_all add: bit_length.simps)
  then have "padme_nat (8 + length [1 :: u8, 2, 3]) = 12" by (simp add: padme_nat_def padme_bits_def)
  then have "length s = 65" unfolding l by simp
  with e show ?thesis by blast
qed

end
