(* ===== verification/Corpus.thy ===== *)
theory Corpus
  imports Antihacker Kdf Hexutil
begin

text \<open>
  Two locks of the laboratory: the chain of findings of \<^verbatim>\<open>src/src/lab/corpus.rs\<close>, where every entry carries
  the hash of all that came before, and the check of \<^verbatim>\<open>src/src/lab/guard.rs\<close> that the defences are still in
  place.  A kind is a text, as UTF-8 bytes; SHA-256 is the parameter \<open>sha\<close>.
\<close>

section \<open>The chain\<close>

definition corpus_ROOT :: bytes where
  "corpus_ROOT = replicate 32 0"

record corpus_entry =
  ce_kind :: bytes
  ce_data :: bytes
  ce_hash :: bytes

type_synonym corpus = "corpus_entry list"


definition corpus_link :: "(bytes \<Rightarrow> bytes) \<Rightarrow> bytes \<Rightarrow> bytes \<Rightarrow> bytes \<Rightarrow> bytes" where
  "corpus_link sha prev kind data = sha (prev @ kind @ [0] @ data)"

definition corpus_head :: "corpus \<Rightarrow> bytes" where
  "corpus_head es = (if es = [] then corpus_ROOT else ce_hash (last es))"

definition corpus_append :: "(bytes \<Rightarrow> bytes) \<Rightarrow> bytes \<Rightarrow> bytes \<Rightarrow> corpus \<Rightarrow> corpus" where
  "corpus_append sha kind data es =
     es @ [\<lparr>ce_kind = kind, ce_data = data, ce_hash = corpus_link sha (corpus_head es) kind data\<rparr>]"

definition corpus_len :: "corpus \<Rightarrow> nat" where
  "corpus_len es = length es"

definition corpus_is_empty :: "corpus \<Rightarrow> bool" where
  "corpus_is_empty es \<longleftrightarrow> es = []"

fun corpus_verify_loop :: "(bytes \<Rightarrow> bytes) \<Rightarrow> bytes \<Rightarrow> corpus \<Rightarrow> bool" where
  "corpus_verify_loop sha prev [] = True"
| "corpus_verify_loop sha prev (e # es) =
     (let expected = corpus_link sha prev (ce_kind e) (ce_data e)
      in if expected \<noteq> ce_hash e then False else corpus_verify_loop sha (ce_hash e) es)"

definition corpus_verify :: "(bytes \<Rightarrow> bytes) \<Rightarrow> corpus \<Rightarrow> bool" where
  "corpus_verify sha es = corpus_verify_loop sha corpus_ROOT es"

section \<open>The guard\<close>

definition guard_ct_eq :: bool where
  "guard_ct_eq \<longleftrightarrow>
     ct_eq (ascii ''clave-secreta'') (ascii ''clave-secreta'') \<and>
     \<not> ct_eq (ascii ''clave-secreta'') (ascii ''clave-secretX'') \<and>
     \<not> ct_eq (ascii ''corta'') (ascii ''mas-larga'')"

definition guard_kdf_validation :: bool where
  "guard_kdf_validation \<longleftrightarrow>
     (let sane = is_sane kdf_params_default;
          malicious = \<lparr>mem_kib = - 1, iterations = - 1, parallelism = - 1\<rparr>
      in sane \<and> \<not> is_sane malicious)"

definition guard_wipe :: bool where
  "guard_wipe \<longleftrightarrow> list_all (\<lambda>b. b = 0) (wipe (replicate 32 0xAA))"

definition all_defenses_intact :: bool where
  "all_defenses_intact \<longleftrightarrow> guard_ct_eq \<and> guard_kdf_validation \<and> guard_wipe"

lemma defenses_intact: "all_defenses_intact"
proof -
  have "is_sane kdf_params_default"
    by (intro canonicos_sane) (simp add: kdf_params_default_def kdf_es_canonico_def canonicos_def)
  then show ?thesis
    by (simp add: all_defenses_intact_def guard_ct_eq_def ct_eq_iff ascii_def guard_kdf_validation_def
        is_sane_unat guard_wipe_def wipe_def list_all_iff)
qed

section \<open>What a head stands for\<close>

lemma corpus_verify_loop_append:
  "corpus_verify_loop sha prev (es @ es') \<longleftrightarrow>
    corpus_verify_loop sha prev es \<and> corpus_verify_loop sha (if es = [] then prev else ce_hash (last es)) es'"
  by (induction sha prev es rule: corpus_verify_loop.induct) (auto simp: Let_def)

lemma corpus_verify_append: "corpus_verify sha es \<Longrightarrow> corpus_verify sha (corpus_append sha kind data es)"
  by (simp add: corpus_verify_def corpus_append_def corpus_verify_loop_append corpus_head_def)











text \<open>What the chain does not say: where a kind ends when kinds may hold the separator.\<close>

lemma kind_is_not_bound:
  "corpus_head (corpus_append sha (k @ [0] @ k') d es) = corpus_head (corpus_append sha k (k' @ [0] @ d) es)"
  by (simp add: corpus_head_def corpus_append_def corpus_link_def)

text \<open>A history that was forged whole, or cut short, verifies.\<close>

lemma forged_history_verifies:
  "\<exists>es. corpus_verify sha es \<and> map (\<lambda>e. (ce_kind e, ce_data e)) es = kds"
proof (induction kds rule: rev_induct)
  case Nil
  show ?case by (simp add: corpus_verify_def)
next
  case (snoc kd kds)
  then obtain es where es: "corpus_verify sha es" "map (\<lambda>e. (ce_kind e, ce_data e)) es = kds" by blast
  then show ?case
    by (intro exI [of _ "corpus_append sha (fst kd) (snd kd) es"] conjI corpus_verify_append)
      (simp_all add: corpus_append_def)
qed

lemma truncated_history_verifies: "corpus_verify sha (es @ es') \<Longrightarrow> corpus_verify sha es"
  by (simp add: corpus_verify_def corpus_verify_loop_append)

section \<open>Properties\<close>



end
