(* ===== verification/Hackerbot.thy ===== *)
theory Hackerbot
  imports Firmante
begin

text \<open>
  \<^verbatim>\<open>src/src/hackerbot.rs\<close>, the attacks the library makes on itself: change one symbol of an artefact,
  cut it, encode twice, and see what is accepted.  \<open>None\<close> is a panic.
\<close>

section \<open>The attacks\<close>

record attack_report =
  ar_name :: bytes
  ar_attempts :: nat
  ar_breaches :: nat

definition attack_is_clean :: "attack_report \<Rightarrow> bool" where
  "attack_is_clean rep \<longleftrightarrow> ar_breaches rep = 0"

text \<open>The symbol after \<open>c\<close>, round the codebook.\<close>

definition otro_simbolo :: "dictionary \<Rightarrow> char32 \<Rightarrow> char32 option" where
  "otro_simbolo dict c =
     do {
       idx \<leftarrow> symbol_to_index dict c;
       index_to_symbol dict ((idx + 1) mod dictionary_base dict)
     }"

text \<open>The loop over positions, with the reader that is attacked; attempts and breaches.\<close>

fun sustituir_loop ::
  "(char32 list \<Rightarrow> bool option) \<Rightarrow> dictionary \<Rightarrow> char32 list \<Rightarrow> nat list \<Rightarrow> nat \<times> nat \<Rightarrow> (nat \<times> nat) option" where
  "sustituir_loop acepta dict chars [] cuenta = Some cuenta"
| "sustituir_loop acepta dict chars (i # ps) (attempts, breaches) =
     do {
       new_sym \<leftarrow> otro_simbolo dict (chars ! i);
       if new_sym = chars ! i then sustituir_loop acepta dict chars ps (attempts, breaches)
       else do {
         ok \<leftarrow> acepta (chars[i := new_sym]);
         sustituir_loop acepta dict chars ps (attempts + 1, if ok then breaches + 1 else breaches)
       }
     }"

fun cortar_loop ::
  "(char32 list \<Rightarrow> bool option) \<Rightarrow> char32 list \<Rightarrow> nat list \<Rightarrow> nat \<times> nat \<Rightarrow> (nat \<times> nat) option" where
  "cortar_loop acepta chars [] cuenta = Some cuenta"
| "cortar_loop acepta chars (n # ns) (attempts, breaches) =
     do {
       ok \<leftarrow> acepta (take n chars);
       cortar_loop acepta chars ns (attempts + 1, if ok then breaches + 1 else breaches)
     }"

text \<open>\<^verbatim>\<open>decode(\<dots>).is_ok()\<close>.\<close>

definition descifra ::
  "report \<Rightarrow> 'c cripto_scheme \<Rightarrow> char32 list \<Rightarrow> dictionary \<Rightarrow> bytes \<Rightarrow> char32 list \<Rightarrow> bool option" where
  "descifra informe C passphrase dict pepper symbols =
     map_option (\<lambda>res. case res of Inr _ \<Rightarrow> True | Inl _ \<Rightarrow> False) (decode informe C symbols passphrase dict pepper)"

definition tamper_attack ::
  "report \<Rightarrow> 'c cripto_scheme \<Rightarrow> 'r fuente \<Rightarrow> bytes \<Rightarrow> char32 list \<Rightarrow> dictionary \<Rightarrow> bytes \<Rightarrow> options \<Rightarrow> 'r \<Rightarrow>
    (attack_report \<times> 'r) option" where
  "tamper_attack informe C fuente data passphrase dict pepper opts r =
     do {
       (chars, r) \<leftarrow> encode informe C fuente data passphrase dict opts r;
       (attempts, breaches) \<leftarrow>
         sustituir_loop (descifra informe C passphrase dict pepper) dict chars [0..<length chars] (0, 0);
       Some (\<lparr>ar_name = ascii ''tamper'', ar_attempts = attempts, ar_breaches = breaches\<rparr>, r)
     }"

definition truncation_attack ::
  "report \<Rightarrow> 'c cripto_scheme \<Rightarrow> 'r fuente \<Rightarrow> bytes \<Rightarrow> char32 list \<Rightarrow> dictionary \<Rightarrow> bytes \<Rightarrow> options \<Rightarrow> 'r \<Rightarrow>
    (attack_report \<times> 'r) option" where
  "truncation_attack informe C fuente data passphrase dict pepper opts r =
     do {
       (chars, r) \<leftarrow> encode informe C fuente data passphrase dict opts r;
       (attempts, breaches) \<leftarrow>
         cortar_loop (descifra informe C passphrase dict pepper) chars [0..<length chars] (0, 0);
       Some (\<lparr>ar_name = ascii ''truncation'', ar_attempts = attempts, ar_breaches = breaches\<rparr>, r)
     }"

primrec uniqueness_loop ::
  "report \<Rightarrow> 'c cripto_scheme \<Rightarrow> 'r fuente \<Rightarrow> bytes \<Rightarrow> char32 list \<Rightarrow> dictionary \<Rightarrow> options \<Rightarrow> nat \<Rightarrow>
    char32 list set \<Rightarrow> nat \<Rightarrow> 'r \<Rightarrow> (nat \<times> 'r) option" where
  "uniqueness_loop informe C fuente data passphrase dict opts 0 seen breaches r = Some (breaches, r)"
| "uniqueness_loop informe C fuente data passphrase dict opts (Suc n) seen breaches r =
     do {
       (symbols, r) \<leftarrow> encode informe C fuente data passphrase dict opts r;
       uniqueness_loop informe C fuente data passphrase dict opts n (insert symbols seen)
         (if symbols \<in> seen then breaches + 1 else breaches) r
     }"

definition uniqueness_attack ::
  "report \<Rightarrow> 'c cripto_scheme \<Rightarrow> 'r fuente \<Rightarrow> bytes \<Rightarrow> char32 list \<Rightarrow> dictionary \<Rightarrow> options \<Rightarrow> nat \<Rightarrow> 'r \<Rightarrow>
    (attack_report \<times> 'r) option" where
  "uniqueness_attack informe C fuente data passphrase dict opts rounds r =
     do {
       (breaches, r) \<leftarrow> uniqueness_loop informe C fuente data passphrase dict opts rounds {} 0 r;
       Some (\<lparr>ar_name = ascii ''uniqueness'', ar_attempts = rounds, ar_breaches = breaches\<rparr>, r)
     }"

text \<open>\<^verbatim>\<open>(0..n).step_by(stride)\<close>.\<close>

definition step_by :: "nat \<Rightarrow> nat \<Rightarrow> nat list" where
  "step_by n stride = filter (\<lambda>i. i mod stride = 0) [0..<n]"

definition forgery_attack ::
  "('e, 'm, 'g, 'z) firma_scheme \<Rightarrow> bytes \<Rightarrow> signing_key \<Rightarrow> ('e, 'm) verifying_key \<Rightarrow> dictionary \<Rightarrow> nat \<Rightarrow>
    attack_report option" where
  "forgery_attack F data signer verifier dict stride =
     do {
       chars \<leftarrow> encode_signed F data signer dict;
       (attempts, breaches) \<leftarrow>
         sustituir_loop
           (\<lambda>s. Some (case decode_verified F s verifier dict of Inr _ \<Rightarrow> True | Inl _ \<Rightarrow> False)) dict chars
           (step_by (length chars) (max stride 1)) (0, 0);
       Some \<lparr>ar_name = ascii ''forgery'', ar_attempts = attempts, ar_breaches = breaches\<rparr>
     }"

section \<open>What the loops count\<close>

lemma sustituir_loop_mono:
  "sustituir_loop acepta dict chars ps (a, b) = Some (a', b') \<Longrightarrow>
    a \<le> a' \<and> b \<le> b' \<and> a' \<le> a + length ps \<and> b' - b \<le> a' - a"
  by (induction acepta dict chars ps "(a, b)" arbitrary: a b rule: sustituir_loop.induct)
    (fastforce split: bind_splits if_splits)+

text \<open>The loop ends when the text is of the codebook and the reader answers.\<close>

lemma otro_simbolo_total:
  assumes wf: "dictionary_wf d" and c: "c \<in> set (dict_symbols d)"
  shows "\<exists>c'. otro_simbolo d c = Some c' \<and> c' \<in> set (dict_symbols d)"
proof -
  obtain i where i: "i < length (dict_symbols d)" "c = dict_symbols d ! i" using c by (auto simp: in_set_conv_nth)
  have b: "unat (dictionary_base d) = length (dict_symbols d)" by (rule base_wf [OF wf])
  then have "unat (of_nat i :: u32) = i" using i(1) unat_u32_lt [of "dictionary_base d"] by (intro unat_of_nat_u32) simp
  then have "index_to_symbol d (of_nat i) = Some c" using i by (simp add: index_to_symbol_def)
  then have s: "symbol_to_index d c = Some (of_nat i)" using index_symbol_iff [OF wf] by blast
  have "0 < unat (dictionary_base d)" using b i(1) by linarith
  then have "0 < dictionary_base d" by (simp only: word_less_nat_alt unat_0)
  then have less: "(of_nat i + 1) mod dictionary_base d < dictionary_base d" by (simp add: word_mod_less_divisor)
  then obtain c' where c': "index_to_symbol d ((of_nat i + 1) mod dictionary_base d) = Some c'"
    using index_in_base [OF wf, of "(of_nat i + 1) mod dictionary_base d"] by auto
  then have "c' \<in> set (dict_symbols d)" by (auto simp: index_to_symbol_def split: if_splits)
  then show ?thesis using s c' by (simp add: otro_simbolo_def)
qed

lemma sustituir_loop_total:
  assumes wf: "dictionary_wf d" and s: "set chars \<subseteq> set (dict_symbols d)" and a: "\<And>t. \<exists>b. acepta t = Some b"
  shows "\<forall>i \<in> set ps. i < length chars \<Longrightarrow> \<exists>res. sustituir_loop acepta d chars ps (x, y) = Some res"
proof (induction ps arbitrary: x y)
  case (Cons i ps)
  then have "chars ! i \<in> set (dict_symbols d)" using s by (auto simp: subset_iff)
  then obtain c where "otro_simbolo d (chars ! i) = Some c" using otro_simbolo_total [OF wf] by blast
  moreover obtain b where "acepta (chars[i := c]) = Some b" using a by blast
  ultimately show ?case using Cons by simp
qed simp

lemma representar_symbols:
  assumes "representar d blob = Some s"
  shows "set s \<subseteq> set (dict_symbols d)"
proof -
  obtain idx where "expect (dictionary_encode d idx) = Some s" using assms by (auto simp: representar_def split: bind_splits)
  then have "dictionary_encode d idx = Inr s" by (cases "dictionary_encode d idx") (simp_all add: expect_simps)
  then have "list_all2 (\<lambda>i c. index_to_symbol d i = Some c) idx s" by (simp add: dictionary_encode_Inr_iff)
  then show ?thesis
    by (auto simp: list_all2_conv_all_nth in_set_conv_nth index_to_symbol_def split: if_splits) (metis nth_mem)
qed

text \<open>An accepted substitution at the first position is a breach.\<close>

lemma primer_simbolo_brecha:
  assumes "sustituir_loop acepta dict chars (0 # ps) (0, 0) = Some (a, b)"
    and "otro_simbolo dict (chars ! 0) = Some c" "c \<noteq> chars ! 0" "acepta (chars[0 := c]) = Some True"
  shows "1 \<le> b"
  using assms sustituir_loop_mono [of acepta dict chars ps 1 1 a b] by simp

section \<open>The marker\<close>

text \<open>
  In the codebook of 4096 symbols the text of a blob of a length divisible by three begins with the symbol
  of the marker; with the next symbol in its place it is read as the same blob.
\<close>

lemma marcador_en_flagship:
  assumes rep: "representar (projr flagship) blob = Some s" and l: "length blob = 3 * m"
  shows "\<exists>c. otro_simbolo (projr flagship) (s ! 0) = Some c \<and> c \<noteq> s ! 0 \<and> s \<noteq> [] \<and>
    leer_simbolos (projr flagship) (s[0 := c]) = Inr blob"
proof -
  obtain d where fl: "flagship = Inr d" using flagship_ok by blast
  have d: "projr flagship = d" "dictionary_wf d" "dictionary_base d = 4096"
    using flagship_wf flagship_base [OF fl] by (simp_all add: fl)
  let ?ds = "digitos_grupo 4096 (2 * m) (nat_of_be blob)"
  have enc: "encode_base_n blob (dictionary_base d) = Some (1 # ?ds)" using encode_4096 [OF l] d(3) by simp
  then have "expect (dictionary_encode d (1 # ?ds)) = Some s" using rep by (simp add: representar_def d(1))
  then have "dictionary_encode d (1 # ?ds) = Inr s" by (cases "dictionary_encode d (1 # ?ds)") (simp_all add: expect_simps)
  then obtain x xs where s: "s = x # xs" "index_to_symbol d 1 = Some x"
      "list_all2 (\<lambda>i s. index_to_symbol d i = Some s) ?ds xs"
    by (auto simp: dictionary_encode_Inr_iff list_all2_Cons1)
  have x: "symbol_to_index d x = Some 1" using s(2) index_symbol_iff [OF d(2)] by blast
  have "(2 :: u32) < dictionary_base d" by (simp add: d(3))
  then obtain c where c: "index_to_symbol d 2 = Some c" using index_in_base [OF d(2), of 2] by auto
  have ci: "symbol_to_index d c = Some 2" using c index_symbol_iff [OF d(2)] by blast
  have otro: "otro_simbolo d x = Some c" by (simp add: otro_simbolo_def x d(3) c)
  have ne: "c \<noteq> x" using x ci by auto
  have "list_all2 (\<lambda>s i. symbol_to_index d s = Some i) xs ?ds"
    using s(3) index_symbol_iff [OF d(2)] by (auto simp: list_all2_conv_all_nth)
  then have "dictionary_decode d (c # xs) = Inr (of_nat 2 # ?ds)"
    by (simp add: dictionary_decode_Inr_iff ci)
  moreover have "decode_base_n (of_nat 2 # ?ds) (dictionary_base d) = blob"
    using decode_4096 [OF l, of 2] d(3) by simp
  ultimately have "leer_simbolos d (c # xs) = Inr blob" by (simp add: leer_simbolos_def)
  then show ?thesis using otro ne s(1) d(1) by (intro exI [of _ c]) simp
qed

lemma decode_total:
  assumes ok: "report_ok informe" and C: "cripto_ok C" and pw: "length (utf8 (nfkc C pw)) + length pepper < 2 ^ 32"
  shows "\<exists>res. decode informe C s pw dict pepper = Some res"
proof (cases "leer_simbolos dict s")
  case (Inl e)
  then show ?thesis using ok by (simp add: decode_def ensure_def try_ensure_def get_or_init_def Let_def)
next
  case (Inr blob)
  have "\<exists>res. decode_from_blob C blob pw fp pepper = Some res" for fp
  proof (cases "quipu_parse blob")
    case (Inr x)
    obtain h ct where x: "x = (h, ct)" by fastforce
    show ?thesis
    proof (cases "is_sane (header_params h)")
      case True
      have "header_ok SALT_LEN NONCE_LEN h"
        using Inr unfolding x quipu_parse_def by (rule container_parse_Inr [THEN conjunct1])
      then have "length (hdr_salt h) = KDF_SALT_LEN" by (simp add: header_ok_def header_wf_def SALT_LEN_def KDF_SALT_LEN_def)
      then obtain m where "derive_master_key C pw (hdr_salt h) pepper (header_params h) = Some m"
        using derive_master_key_total [OF C True _ pw] by blast
      moreover obtain k where "derive_subkey C m CIPHER_SUBKEY_INFO = Some k" using derive_subkey_total [OF C] by blast
      ultimately show ?thesis using Inr x by (simp add: decode_from_blob_def Let_def)
    qed (simp add: decode_from_blob_def Inr x Let_def)
  qed (simp add: decode_from_blob_def)
  then show ?thesis using decode_eq [OF ok Inr, of C pw pepper] by simp
qed

text \<open>The artefacts of a length divisible by three.\<close>

lemma blob_divisible:
  assumes e: "encode informe C fuente data pw (projr flagship) opts r = Some (s, r')" and C: "cripto_ok C" and f: "fuente_ok fuente"
    and l: "length data < 2 ^ 63" "3 dvd padme_nat (8 + length data)"
  obtains blob m where "representar (projr flagship) blob = Some s" "length blob = 3 * m"
    "encode_to_blob C fuente data pw (fingerprint (sha256 C) (projr flagship)) opts r = Some (blob, r')"
proof -
  obtain blob where blob: "encode_to_blob C fuente data pw (fingerprint (sha256 C) (projr flagship)) opts r = Some (blob, r')"
      and rep: "representar (projr flagship) blob = Some s"
    using e by (auto simp: encode_def split: bind_splits)
  have "length blob = 84 + padme_nat (8 + length data)" by (rule encode_to_blob_length(1) [OF blob C f fingerprint_length [OF C] l(1)])
  moreover have "3 dvd 84 + padme_nat (8 + length data)" using l(2) by presburger
  ultimately obtain m where "length blob = 3 * m" by (metis dvdE)
  then show ?thesis using rep blob by (intro that)
qed

section \<open>Properties\<close>

text \<open>
  C35.  The library does not survive its own attack on its default codebook.  With sane KDF parameters, a
  passed self-test, two draws of randomness and a passphrase that Argon2 takes, for data below 128 GiB whose padded length is divisible by
  three, such as any three or four bytes, the attack that changes symbols ends and reports a breach: with
  another symbol in place of the first one the artefact still decodes to the data.
\<close>
theorem tamper_attack_finds_the_marker:
  assumes C: "cripto_ok C" and f: "fuente_ok fuente" and ok: "report_ok informe"
    and sane: "is_sane (opt_kdf_params opts)" and l: "length data < 2 ^ 37" "3 dvd padme_nat (8 + length data)"
    and pw: "length (utf8 (nfkc C pw)) + length (opt_pepper opts) < 2 ^ 32"
    and d: "llenar_expect fuente SALT_LEN r = Some (salt, r1)" "llenar_expect fuente NONCE_LEN r1 = Some (nonce, r2)"
  shows "\<exists>rep. tamper_attack informe C fuente data pw (projr flagship) (opt_pepper opts) opts r = Some (rep, r2) \<and>
    1 \<le> ar_breaches rep"
proof -
  let ?acepta = "descifra informe C pw (projr flagship) (opt_pepper opts)"
  obtain s where s: "encode informe C fuente data pw (projr flagship) opts r = Some (s, r2)"
    using encode_returns [OF C f flagship_wf ok sane l(1) pw d] by blast
  have l63: "length data < 2 ^ 63" using l(1) by simp
  obtain blob m where blob: "representar (projr flagship) blob = Some s" "length blob = 3 * m"
      "encode_to_blob C fuente data pw (fingerprint (sha256 C) (projr flagship)) opts r = Some (blob, r2)"
    by (rule blob_divisible [OF s C f l63 l(2)])
  obtain c where c: "otro_simbolo (projr flagship) (s ! 0) = Some c" "c \<noteq> s ! 0" "s \<noteq> []"
      "leer_simbolos (projr flagship) (s[0 := c]) = Inr blob"
    using marcador_en_flagship [OF blob(1,2)] by blast
  have acepta: "\<exists>b. ?acepta t = Some b" for t
    using decode_total [OF ok C pw] by (force simp: descifra_def)
  have simbolos: "set s \<subseteq> set (dict_symbols (projr flagship))" by (rule representar_symbols [OF blob(1)])
  obtain a b where ab: "sustituir_loop ?acepta (projr flagship) s [0..<length s] (0, 0) = Some (a, b)"
    using sustituir_loop_total [OF flagship_wf simbolos, where acepta = ?acepta and ps = "[0..<length s]" and x = 0 and y = 0] acepta
    by auto
  have "decode_from_blob C blob pw (fingerprint (sha256 C) (projr flagship)) (opt_pepper opts) = Some (Inr data)"
    by (rule decode_encode_blob [OF C f fingerprint_length [OF C] l63 sane blob(3)])
  then have "?acepta (s[0 := c]) = Some True" using decode_eq [OF ok c(4), of C pw "opt_pepper opts"] by (simp add: descifra_def)
  moreover have "[0..<length s] = 0 # [1..<length s]" using c(3) by (simp add: upt_conv_Cons)
  ultimately have "1 \<le> b"
    using ab c(1,2) by (intro primer_simbolo_brecha [where acepta = ?acepta and chars = s and c = c]) simp_all
  then show ?thesis using s ab by (simp add: tamper_attack_def)
qed

theorem tamper_attack_finds_the_marker_witness:
  "\<exists>rep. tamper_attack demo_informe demo_cripto demo_fuente [1, 2, 3] [97, 98] (projr flagship) [] options_default 0 =
      Some (rep, 40) \<and> 1 \<le> ar_breaches rep"
proof -
  have d: "llenar_expect demo_fuente SALT_LEN 0 = Some (map of_nat [0..<16], 16)"
    "llenar_expect demo_fuente NONCE_LEN 16 = Some (map of_nat [16..<40], 40)"
    using demo_llenar [of 16 0] demo_llenar [of 24 16] by (simp_all add: SALT_LEN_def NONCE_LEN_def del: upt_rec_numeral)
  have pw: "length (utf8 (nfkc demo_cripto [97, 98])) + length (opt_pepper options_default) < 2 ^ 32"
    by (simp add: demo_cripto_def utf8_def utf8_char_def options_default_def)
  have sane: "is_sane (opt_kdf_params options_default)"
    by (intro canonicos_sane) (simp add: options_default_def kdf_params_default_def kdf_es_canonico_def canonicos_def)
  have "bit_length 11 = 4" "bit_length 3 = 2" by (simp_all add: bit_length.simps)
  then have "3 dvd padme_nat (8 + length [1 :: u8, 2, 3])" by (simp add: padme_nat_def padme_bits_def)
  from tamper_attack_finds_the_marker [OF demo_cripto_ok demo_fuente_ok demo_informe_ok sane _ this pw d]
  show ?thesis by (simp add: options_default_def)
qed

end
