(* ===== verification/Python.thy ===== *)
theory Python
  imports Hibrido Pkcs11 Stream Shamir Voprf Autoprueba
begin

text \<open>
  The Python modules: \<^verbatim>\<open>src/src/python.rs\<close> and the module of \<^verbatim>\<open>crates/quipu-voprf/src/lib.rs\<close>.  Keys and
  states cross the border as bytes.  An exception is \<^verbatim>\<open>ValueError\<close> or \<^verbatim>\<open>OSError\<close> with what its message
  says as a value; the outer option is a Rust panic (pyo3 raises its own \<^verbatim>\<open>PanicException\<close>).  What of
  \<^verbatim>\<open>cryptoki\<close> is not in Pkcs11 (modules, slots, sessions, login) is the record \<open>cryptoki\<close>.
\<close>

section \<open>Exceptions\<close>

datatype py_msg =
    SinEntropiaMsg sin_entropia
  | DecodeFailed
  | ClavePublicaInvalida
  | ClaveSecretaInvalida
  | ClaveDeFirmaInvalida
  | ClaveDeVerificacionInvalida
  | VerificacionFallida
  | EncryptFailed stream_error
  | DecryptFailed
  | ShamirMsg shamir_error
  | FirmaMsg error_de_firma
  | SlotsMsg cryptoki_error
  | SinSlots
  | AbrirSesionMsg cryptoki_error
  | LoginMsg cryptoki_error
  | OtroModulo bytes bytes
  | EntradaInvalida
  | DebeMedir bytes nat
  | StateInvalido
  | PruebaNoValida

datatype py_err = PyValueError py_msg | PyOSError py_msg

definition py_sin_entropia :: "sin_entropia \<Rightarrow> py_err" where
  "py_sin_entropia e = PyOSError (SinEntropiaMsg e)"

definition default_dict :: "dictionary option" where
  "default_dict = (case dictionary_new (map of_nat [0x21..<0x7e + 1]) of Inl _ \<Rightarrow> None | Inr d \<Rightarrow> Some d)"

section \<open>Passphrases\<close>

definition py_encode ::
  "report \<Rightarrow> 'c cripto_scheme \<Rightarrow> 'r fuente \<Rightarrow> bytes \<Rightarrow> char32 list \<Rightarrow> bytes option \<Rightarrow> 'r \<Rightarrow>
    (char32 list \<times> 'r) option" where
  "py_encode informe C fuente data passphrase pepper r =
     do {
       dict \<leftarrow> default_dict;
       let opts = \<lparr>opt_pepper = (case pepper of Some p \<Rightarrow> p | None \<Rightarrow> []),
                   opt_kdf_params = kdf_params_default, opt_codebook_id = 0\<rparr>;
       encode informe C fuente data passphrase dict opts r
     }"

definition py_decode ::
  "report \<Rightarrow> 'c cripto_scheme \<Rightarrow> char32 list \<Rightarrow> char32 list \<Rightarrow> bytes option \<Rightarrow> (py_err + bytes) option" where
  "py_decode informe C symbols passphrase pepper =
     do {
       dict \<leftarrow> default_dict;
       res \<leftarrow> decode informe C symbols passphrase dict (case pepper of Some p \<Rightarrow> p | None \<Rightarrow> []);
       Some (case res of Inr b \<Rightarrow> Inr b | Inl _ \<Rightarrow> Inl (PyValueError DecodeFailed))
     }"

definition py_encrypt_stream ::
  "report \<Rightarrow> 'c cripto_scheme \<Rightarrow> 'r fuente \<Rightarrow> bytes \<Rightarrow> char32 list \<Rightarrow> bytes option \<Rightarrow> nat option \<Rightarrow> 'r \<Rightarrow>
    (py_err + bytes) option" where
  "py_encrypt_stream informe C fuente data passphrase pepper chunk_size r =
     (let opts = stream_options_default;
          opts = (case pepper of Some p \<Rightarrow> opts\<lparr>so_pepper := p\<rparr> | None \<Rightarrow> opts);
          opts = (case chunk_size of Some cs \<Rightarrow> opts\<lparr>so_chunk_size := cs\<rparr> | None \<Rightarrow> opts)
      in case encrypt_stream informe C fuente vec_writer (slice_reader data) passphrase opts r [] of
           None \<Rightarrow> None
         | Some (Inl e, _) \<Rightarrow> Some (Inl (PyValueError (EncryptFailed e)))
         | Some (Inr _, blob) \<Rightarrow> Some (Inr blob))"

definition py_decrypt_stream ::
  "report \<Rightarrow> 'c cripto_scheme \<Rightarrow> bytes \<Rightarrow> char32 list \<Rightarrow> bytes option \<Rightarrow> (py_err + bytes) option" where
  "py_decrypt_stream informe C blob passphrase pepper =
     (case decrypt_stream_bytes informe C blob passphrase (case pepper of Some p \<Rightarrow> p | None \<Rightarrow> []) of
        None \<Rightarrow> None
      | Some (Inr b) \<Rightarrow> Some (Inr b)
      | Some (Inl _) \<Rightarrow> Some (Inl (PyValueError DecryptFailed)))"

section \<open>Recipients\<close>

definition py_generate_keypair ::
  "report \<Rightarrow> ('x, 'p, 'd, 'k, 'g, 'z) kem_scheme \<Rightarrow> 'r fuente \<Rightarrow> 'r \<Rightarrow> ((py_err + bytes \<times> bytes) \<times> 'r) option" where
  "py_generate_keypair informe M fuente r =
     (case hybrid_keypair informe M fuente r of
        None \<Rightarrow> None
      | Some (Inl e, r) \<Rightarrow> Some (Inl (py_sin_entropia e), r)
      | Some (Inr (pk, sk), r) \<Rightarrow>
          map_option (\<lambda>b. (Inr (hp_to_bytes M pk, b), r)) (hs_to_bytes M sk))"

definition py_encode_to_recipient ::
  "'c cripto_scheme \<Rightarrow> ('x, 'p, 'd, 'k, 'g, 'z) kem_scheme \<Rightarrow> 'r fuente \<Rightarrow> bytes \<Rightarrow> bytes \<Rightarrow> 'r \<Rightarrow>
    ((py_err + char32 list) \<times> 'r) option" where
  "py_encode_to_recipient C M fuente data pub_key r =
     (case hp_from_bytes M pub_key of
        None \<Rightarrow> Some (Inl (PyValueError ClavePublicaInvalida), r)
      | Some pk \<Rightarrow> do {
          dict \<leftarrow> default_dict;
          (res, r) \<leftarrow> encode_to_recipient C M fuente data pk dict r;
          Some (case res of Inl e \<Rightarrow> Inl (py_sin_entropia e) | Inr s \<Rightarrow> Inr s, r)
        })"

definition py_decode_as_recipient ::
  "'c cripto_scheme \<Rightarrow> ('x, 'p, 'd, 'k, 'g, 'z) kem_scheme \<Rightarrow> char32 list \<Rightarrow> bytes \<Rightarrow> (py_err + bytes) option" where
  "py_decode_as_recipient C M symbols secret_key =
     (case hs_from_bytes M secret_key of
        None \<Rightarrow> Some (Inl (PyValueError ClaveSecretaInvalida))
      | Some sk \<Rightarrow> do {
          dict \<leftarrow> default_dict;
          res \<leftarrow> decode_as_recipient C M symbols sk dict;
          Some (case res of Inr b \<Rightarrow> Inr b | Inl _ \<Rightarrow> Inl (PyValueError DecodeFailed))
        })"

section \<open>Signatures\<close>

definition py_generate_signing_keypair ::
  "report \<Rightarrow> ('e, 'm, 'g, 'z) firma_scheme \<Rightarrow> 'r fuente \<Rightarrow> 'r \<Rightarrow> ((bytes \<times> bytes) \<times> 'r) option" where
  "py_generate_signing_keypair informe F fuente r =
     (case generate_keypair informe F fuente r of
        None \<Rightarrow> None
      | Some ((vk, sk), r) \<Rightarrow> Some ((vk_to_bytes F vk, sk_to_bytes sk), r))"

definition py_encode_signed ::
  "('e, 'm, 'g, 'z) firma_scheme \<Rightarrow> bytes \<Rightarrow> bytes \<Rightarrow> (py_err + char32 list) option" where
  "py_encode_signed F data signing_key =
     (case sk_from_bytes signing_key of
        None \<Rightarrow> Some (Inl (PyValueError ClaveDeFirmaInvalida))
      | Some sk \<Rightarrow> do {
          dict \<leftarrow> default_dict;
          symbols \<leftarrow> encode_signed F data sk dict;
          Some (Inr symbols)
        })"

definition py_decode_verified ::
  "('e, 'm, 'g, 'z) firma_scheme \<Rightarrow> char32 list \<Rightarrow> bytes \<Rightarrow> (py_err + bytes) option" where
  "py_decode_verified F symbols verifying_key =
     (case vk_from_bytes F verifying_key of
        None \<Rightarrow> Some (Inl (PyValueError ClaveDeVerificacionInvalida))
      | Some vk \<Rightarrow> do {
          dict \<leftarrow> default_dict;
          Some (case decode_verified F symbols vk dict of
                  Inr b \<Rightarrow> Inr b | Inl _ \<Rightarrow> Inl (PyValueError VerificacionFallida))
        })"

section \<open>The device\<close>

text \<open>\<open>cargar_modulo\<close> loads and initialises a module; where it fails, the code panics.\<close>

record ('c, 's, 'o, 'h) cryptoki =
  cargar_modulo :: "bytes \<Rightarrow> 'c option"
  get_all_slots :: "'c \<Rightarrow> 'h \<Rightarrow> (cryptoki_error + 's list) \<times> 'h"
  open_rw_session :: "'c \<Rightarrow> 's \<Rightarrow> 'h \<Rightarrow> (cryptoki_error + ('o, 'h) sesion) \<times> 'h"
  sesion_login :: "('o, 'h) sesion \<Rightarrow> bytes \<Rightarrow> 'h \<Rightarrow> (cryptoki_error + unit) \<times> 'h"

text \<open>The cell of the process: \<^verbatim>\<open>OnceLock<(String, Pkcs11)>\<close>.\<close>

definition pkcs11_contexto ::
  "('c, 's, 'o, 'h) cryptoki \<Rightarrow> bytes \<Rightarrow> (bytes \<times> 'c) option \<Rightarrow> ((py_err + 'c) \<times> (bytes \<times> 'c) option) option" where
  "pkcs11_contexto K module CTX =
     do {
       (cargado, ctx) \<leftarrow> (case CTX of
           Some e \<Rightarrow> Some e
         | None \<Rightarrow> map_option (\<lambda>p. (module, p)) (cargar_modulo K module));
       Some (if cargado \<noteq> module then Inl (PyOSError (OtroModulo cargado module)) else Inr ctx, Some (cargado, ctx))
     }"

record ('o, 'h, 'e, 'm) custodio_hsm =
  hsm_sesion :: "('o, 'h) sesion"
  hsm_inner :: "('o, 'e, 'm) custodio_pkcs11"

definition custodio_hsm_new ::
  "('e, 'm, 'g, 'z) firma_scheme \<Rightarrow> ('c, 's, 'o, 'h) cryptoki \<Rightarrow> bytes \<Rightarrow> bytes \<Rightarrow> bytes \<Rightarrow> bytes option \<Rightarrow>
    (bytes \<times> 'c) option \<Rightarrow> 'h \<Rightarrow> ((py_err + ('o, 'h, 'e, 'm) custodio_hsm) \<times> (bytes \<times> 'c) option \<times> 'h) option" where
  "custodio_hsm_new F K module ed25519 mldsa pin CTX h =
     (case pkcs11_contexto K module CTX of
        None \<Rightarrow> None
      | Some (Inl e, CTX) \<Rightarrow> Some (Inl e, CTX, h)
      | Some (Inr ctx, CTX) \<Rightarrow>
          (case get_all_slots K ctx h of
             (Inl e, h) \<Rightarrow> Some (Inl (PyOSError (SlotsMsg e)), CTX, h)
           | (Inr [], h) \<Rightarrow> Some (Inl (PyOSError SinSlots), CTX, h)
           | (Inr (slot # _), h) \<Rightarrow>
               (case open_rw_session K ctx slot h of
                  (Inl e, h) \<Rightarrow> Some (Inl (PyOSError (AbrirSesionMsg e)), CTX, h)
                | (Inr S, h) \<Rightarrow>
                    (case (case pin of None \<Rightarrow> (Inr (), h) | Some p \<Rightarrow> sesion_login K S p h) of
                       (Inl e, h) \<Rightarrow> Some (Inl (PyValueError (LoginMsg e)), CTX, h)
                     | (Inr _, h) \<Rightarrow>
                         (case por_etiqueta F S ed25519 mldsa h of
                            (Inl e, h) \<Rightarrow> Some (Inl (PyValueError (FirmaMsg e)), CTX, h)
                          | (Inr P, h) \<Rightarrow> Some (Inr \<lparr>hsm_sesion = S, hsm_inner = P\<rparr>, CTX, h))))))"

definition custodio_hsm_encode_signed ::
  "('e, 'm, 'g, 'z) firma_scheme \<Rightarrow> ('o, 'h, 'e, 'm) custodio_hsm \<Rightarrow> bytes \<Rightarrow> 'h \<Rightarrow>
    ((py_err + char32 list) \<times> 'h) option" where
  "custodio_hsm_encode_signed F self data h =
     do {
       dict \<leftarrow> default_dict;
       case encode_signed_con_custodio F data (pkcs11_custodio (hsm_sesion self) (hsm_inner self)) dict h of
         (None, h) \<Rightarrow> None
       | (Some (Inl e), h) \<Rightarrow> Some (Inl (PyValueError (FirmaMsg e)), h)
       | (Some (Inr s), h) \<Rightarrow> Some (Inr s, h)
     }"

definition custodio_hsm_verifying_key ::
  "('e, 'm, 'g, 'z) firma_scheme \<Rightarrow> ('o, 'h, 'e, 'm) custodio_hsm \<Rightarrow> 'h \<Rightarrow> (py_err + bytes) \<times> 'h" where
  "custodio_hsm_verifying_key F self h =
     (case clave_de_verificacion (pkcs11_custodio (hsm_sesion self) (hsm_inner self)) h of
        (Inl e, h) \<Rightarrow> (Inl (PyValueError (FirmaMsg e)), h)
      | (Inr vk, h) \<Rightarrow> (Inr (vk_to_bytes F vk), h))"

section \<open>Shares\<close>

definition py_split_secret ::
  "(bytes \<Rightarrow> bytes) \<Rightarrow> 'r fuente \<Rightarrow> bytes \<Rightarrow> u8 \<Rightarrow> u8 \<Rightarrow> 'r \<Rightarrow> (py_err + bytes list) \<times> 'r" where
  "py_split_secret sha fuente secret threshold shares r =
     (case split sha fuente secret threshold shares r of
        (Inl e, r) \<Rightarrow> (Inl (PyValueError (ShamirMsg e)), r)
      | (Inr partes, r) \<Rightarrow> (Inr (map share_to_bytes partes), r))"

text \<open>\<^verbatim>\<open>.map(Share::from_bytes).collect::<Result<Vec<_>, _>>()\<close>: the first error stops it.\<close>

fun leer_partes :: "bytes list \<Rightarrow> shamir_error + share list" where
  "leer_partes [] = Inr []"
| "leer_partes (b # bs) =
     (case share_from_bytes b of
        Inl e \<Rightarrow> Inl e
      | Inr s \<Rightarrow> (case leer_partes bs of Inl e \<Rightarrow> Inl e | Inr ss \<Rightarrow> Inr (s # ss)))"

definition py_combine_secret :: "(bytes \<Rightarrow> bytes) \<Rightarrow> bytes list \<Rightarrow> (py_err + bytes) option" where
  "py_combine_secret sha shares =
     (case leer_partes shares of
        Inl e \<Rightarrow> Some (Inl (PyValueError (ShamirMsg e)))
      | Inr partes \<Rightarrow>
          (case combine sha partes of
             None \<Rightarrow> None
           | Some (Inl e) \<Rightarrow> Some (Inl (PyValueError (ShamirMsg e)))
           | Some (Inr secreto) \<Rightarrow> Some (Inr secreto)))"

section \<open>The module \<^verbatim>\<open>quipu_voprf\<close>\<close>

definition voprf_blind ::
  "('s :: field, 'p :: ab_group_add) ristretto \<Rightarrow> 'r fuente \<Rightarrow> bytes \<Rightarrow> 'r \<Rightarrow>
    ((py_err + bytes \<times> bytes) \<times> 'r) option" where
  "voprf_blind G fuente password r =
     (case blind G fuente password r of
        None \<Rightarrow> None
      | Some (None, r) \<Rightarrow> Some (Inl (PyValueError EntradaInvalida), r)
      | Some (Some (st, b), r) \<Rightarrow> Some (Inr (blind_state_to_bytes G st, b), r))"

definition voprf_finalize ::
  "('s :: field, 'p :: ab_group_add) ristretto \<Rightarrow> bytes \<Rightarrow> bytes \<Rightarrow> bytes \<Rightarrow> bytes \<Rightarrow> bytes \<Rightarrow>
    (py_err + bytes) option" where
  "voprf_finalize G password state evaluated prueba server_pub =
     (if length state \<noteq> 64 then Some (Inl (PyValueError (DebeMedir (ascii ''state'') 64)))
      else if length evaluated \<noteq> 32 then Some (Inl (PyValueError (DebeMedir (ascii ''evaluated'') 32)))
      else if length prueba \<noteq> PROOF_LEN then Some (Inl (PyValueError (DebeMedir (ascii ''proof'') 64)))
      else if length server_pub \<noteq> 32 then Some (Inl (PyValueError (DebeMedir (ascii ''server_pub'') 32)))
      else
        case blind_state_from_bytes G state of
          None \<Rightarrow> Some (Inl (PyValueError StateInvalido))
        | Some st \<Rightarrow>
            (case finalize G password st evaluated prueba server_pub of
               None \<Rightarrow> None
             | Some None \<Rightarrow> Some (Inl (PyValueError PruebaNoValida))
             | Some (Some s) \<Rightarrow> Some (Inr s)))"

section \<open>What crosses the border comes back\<close>

lemma default_dict: "default_dict = Some (projr ascii94)"
  using ascii94_ok by (auto simp: default_dict_def ascii94_def simp del: upt_Suc)

lemma clave_secreta_por_bytes:
  assumes M: "kem_ok M" and g: "py_generate_keypair informe M fuente r0 = Some (Inr (pkb, skb), r)"
  obtains pk sk where "hybrid_keypair informe M fuente r0 = Some (Inr (pk, sk), r)"
    "hp_from_bytes M pkb = Some pk" "hs_from_bytes M skb = Some sk"
proof -
  obtain pk sk where k: "hybrid_keypair informe M fuente r0 = Some (Inr (pk, sk), r)"
      and b: "pkb = hp_to_bytes M pk" "hs_to_bytes M sk = Some skb"
    using g by (auto simp: py_generate_keypair_def split: option.splits sum.splits)
  have "hs_from_bytes M skb = Some sk" using both_secret_formats_open [OF M k] b(2) by auto
  with that k b(1) hp_from_to_bytes [OF M] show ?thesis by simp
qed

lemma destinatario_por_bytes:
  assumes C: "cripto_ok C" and M: "kem_ok M" and f: "fuente_ok fuente" and d: "length data < 2 ^ 37"
    and g: "py_generate_keypair informe M fuente r0 = Some (Inr (pkb, skb), r)"
    and l: "llenar fuente 32 r = (Inr semilla, r1)" "llenar fuente 24 r1 = (Inr nonce, r2)"
  shows "\<exists>s. py_encode_to_recipient C M fuente data pkb r = Some (Inr s, r2) \<and>
    py_decode_as_recipient C M s skb = Some (Inr data)"
proof -
  obtain pk sk where k: "hybrid_keypair informe M fuente r0 = Some (Inr (pk, sk), r)"
      "hp_from_bytes M pkb = Some pk" "hs_from_bytes M skb = Some sk"
    by (rule clave_secreta_por_bytes [OF M g])
  obtain s where "encode_to_recipient C M fuente data pk (projr ascii94) r = Some (Inr s, r2)"
      "decode_as_recipient C M s sk (projr ascii94) = Some (Inr data)"
    using recipient_roundtrip [OF C M f ascii94_wf d k(1) l] by blast
  then show ?thesis
    by (simp add: py_encode_to_recipient_def py_decode_as_recipient_def default_dict k(2,3))
qed

lemma firma_por_bytes:
  assumes F: "firma_ok F" and f: "fuente_ok fuente" and d: "length data < 2 ^ 32"
    and g: "py_generate_signing_keypair informe F fuente r = Some ((vkb, skb), r')"
  shows "\<exists>s. py_encode_signed F data skb = Some (Inr s) \<and> py_decode_verified F s vkb = Some (Inr data)"
proof -
  obtain vk sk where k: "generate_keypair_unchecked F fuente r = Some ((vk, sk), r')"
      and b: "vkb = vk_to_bytes F vk" "skb = sk_to_bytes sk"
    using g by (auto simp: py_generate_signing_keypair_def generate_keypair_def split: option.splits bind_splits)
  note w = generate_keypair_wf [OF f k]
  obtain s where "encode_signed F data sk (projr ascii94) = Some s"
      "decode_verified F s (sk_verifying_key F sk) (projr ascii94) = Inr data"
    using signed_roundtrip [OF F ascii94_wf d, where sk = sk and h = "()"] by blast
  then show ?thesis unfolding b w(2)
    by (simp add: py_encode_signed_def py_decode_verified_def default_dict vk_from_to_bytes [OF F] sk_from_to_bytes [OF w(1)])
qed

lemma leer_partes_map: "\<forall>s \<in> set ss. share_ok s \<Longrightarrow> leer_partes (map share_to_bytes ss) = Inr ss"
  by (induction ss) (simp_all add: share_from_to_bytes)

lemma partes_por_bytes:
  assumes sha: "\<And>m. length (sha m) = 32" and f: "fuente_ok fuente"
    and s: "py_split_secret sha fuente secret k n r = (Inr partes, r')" and l: "length secret + TAG_LEN < 2 ^ 32"
    and bs: "set bs \<subseteq> set partes" "distinct bs" "unat k \<le> length bs"
  shows "py_combine_secret sha bs = Some (Inr secret)"
proof -
  obtain ss where ss: "split sha fuente secret k n r = (Inr ss, r')" "partes = map share_to_bytes ss"
    using s by (auto simp: py_split_secret_def split: prod.splits sum.splits)
  note ok = split_shares(2) [OF sha f ss(1) l]
  have "bs \<in> lists (share_to_bytes ` set ss)" using bs(1) ss(2) by (simp add: lists_eq_set)
  then obtain us where us: "bs = map share_to_bytes us" "set us \<subseteq> set ss"
    unfolding lists_image by (auto simp: lists_eq_set)
  have "distinct us" using bs(2) us(1) by (simp add: distinct_map)
  moreover have "inj_on sh_index (set us)"
    using split_shares(1) [OF sha f ss(1)] us(2) by (auto simp: distinct_map intro: inj_on_subset)
  ultimately have "distinct (map sh_index us)" by (simp add: distinct_map)
  then have "combine sha us = Some (Inr secret)"
    using combine_split [OF sha f ss(1) us(2)] bs(3) us(1) by simp
  moreover have "leer_partes bs = Inr us" unfolding us(1) using ok us(2) by (intro leer_partes_map) blast
  ultimately show ?thesis by (simp add: py_combine_secret_def)
qed

text \<open>The client of the VOPRF does over bytes what the Rust client does.\<close>

lemma voprf_por_bytes:
  assumes G: "ristretto_ok G" and b: "voprf_blind G fuente pw r = Some (Inr (state, blinded), r')"
    and l: "length evaluated = 32" "length prueba = PROOF_LEN" "length server_pub = 32"
  shows "\<exists>st. blind G fuente pw r = Some (Some (st, blinded), r') \<and>
    voprf_finalize G pw state evaluated prueba server_pub =
      map_option (\<lambda>x. case x of None \<Rightarrow> Inl (PyValueError PruebaNoValida) | Some s \<Rightarrow> Inr s)
        (finalize G pw st evaluated prueba server_pub)"
proof -
  obtain st where st: "blind G fuente pw r = Some (Some (st, blinded), r')" "state = blind_state_to_bytes G st"
    using b by (auto simp: voprf_blind_def split: option.splits)
  have "length state = 64" unfolding st(2) by (simp add: blind_state_to_bytes_def encoding_laws [OF G])
  then show ?thesis using st l
    by (auto simp: voprf_finalize_def blind_state_read [OF G] split: option.splits)
qed

text \<open>The object of the device signs for the key it shows.\<close>

lemma hsm_firma_por_su_clave:
  assumes F: "firma_ok F" and S: "dispositivo_ok F (hsm_sesion self)"
    and n: "custodio_hsm_new F K module led lml pin CTX h = Some (Inr self, CTX', h1)" and d: "length data < 2 ^ 32"
    and e: "custodio_hsm_encode_signed F self data h2 = Some (Inr s, h3)"
  shows "\<exists>vkb. custodio_hsm_verifying_key F self h4 = (Inr vkb, h4) \<and> py_decode_verified F s vkb = Some (Inr data)"
proof -
  obtain g where p: "por_etiqueta F (hsm_sesion self) led lml g = (Inr (hsm_inner self), h1)"
    using n by (auto simp: custodio_hsm_new_def split: option.splits prod.splits sum.splits list.splits)
  have q: "encode_signed_con_custodio F data (pkcs11_custodio (hsm_sesion self) (hsm_inner self))
      (projr ascii94) h2 = (Some (Inr s), h3)"
    using e by (auto simp: custodio_hsm_encode_signed_def default_dict split: prod.splits option.splits sum.splits)
  have "decode_verified F s (verificacion (hsm_inner self)) (projr ascii94) = Inr data"
    by (rule hsm.artefacto [OF por_etiqueta_ok [OF S p] ascii94_wf d q])
  then show ?thesis
    by (simp add: custodio_hsm_verifying_key_def pkcs11_custodio_def py_decode_verified_def default_dict
        vk_from_to_bytes [OF F])
qed

text \<open>One module for the whole process: another one is refused, and the first stays.\<close>

lemma un_solo_modulo:
  assumes "pkcs11_contexto K m CTX = Some (Inr ctx, CTX')" "m' \<noteq> m"
  shows "pkcs11_contexto K m CTX' = Some (Inr ctx, CTX')"
    "pkcs11_contexto K m' CTX' = Some (Inl (PyOSError (OtroModulo m m')), CTX')"
  using assms by (auto simp: pkcs11_contexto_def split: option.splits prod.splits if_splits bind_splits)

section \<open>Without entropy\<close>

text \<open>A source that delivers nothing any more, in any of the states it can get to.\<close>

definition agotada :: "'r fuente \<Rightarrow> 'r set \<Rightarrow> bool" where
  "agotada fuente D \<longleftrightarrow> (\<forall>r \<in> D. \<forall>n. \<exists>c r'. fuente r n = (Inl c, r') \<and> r' \<in> D)"

lemma llenar_desde_agotada:
  "agotada fuente D \<Longrightarrow> r \<in> D \<Longrightarrow> \<exists>e r'. llenar_desde fuente n intento ultimo r = (Inl e, r') \<and> r' \<in> D"
proof (induction fuente n intento ultimo r rule: llenar_desde.induct)
  case (1 fuente n intento ultimo r)
  obtain c r' where f: "fuente r n = (Inl c, r')" "r' \<in> D" using "1.prems" unfolding agotada_def by blast
  show ?case
    using "1.IH" [OF _ f(1) [symmetric] refl _ "1.prems"(1) f(2)] "1.prems"(2) f
    by (subst llenar_desde.simps) auto
qed

lemma llenar_agotada:
  assumes "agotada fuente D" and "r \<in> D"
  obtains e r' where "llenar fuente n r = (Inl e, r')" "r' \<in> D"
  using llenar_desde_agotada [OF assms] unfolding llenar_def by blast

lemma llenar_expect_agotada: "agotada fuente D \<Longrightarrow> r \<in> D \<Longrightarrow> llenar_expect fuente n r = None"
  by (rule llenar_agotada [of fuente D r n]) (simp_all add: llenar_expect_def)

lemma keypair_agotada:
  assumes "agotada fuente D" and "r \<in> D"
  obtains e r' where "hybrid_keypair_unchecked M fuente r = (Inl e, r')" "r' \<in> D"
  by (rule llenar_agotada [OF assms, of 32]) (auto simp: hybrid_keypair_unchecked_def generador_def intro: that)

text \<open>The self-test cannot even fail there: its signature checks panic.\<close>

lemma run_agotada:
  assumes a: "agotada fuente D" and r: "r \<in> D"
  shows "run H C M F fuente r = None"
proof -
  obtain e r1 where 1: "hybrid_keypair_unchecked M fuente r = (Inl e, r1)" "r1 \<in> D" by (rule keypair_agotada [OF a r])
  obtain e' r2 where 2: "hybrid_keypair_unchecked M fuente r1 = (Inl e', r2)" "r2 \<in> D" by (rule keypair_agotada [OF a 1(2)])
  obtain e'' r3 where 3: "hybrid_keypair_unchecked M fuente r2 = (Inl e'', r3)" "r3 \<in> D" by (rule keypair_agotada [OF a 2(2)])
  have "check_mlkem_pairwise C M fuente r = Some (False, r1)" by (simp add: check_mlkem_pairwise_def 1)
  moreover have "check_mlkem_wrong_key_differs C M fuente r1 = Some (False, r3)"
    by (simp add: check_mlkem_wrong_key_differs_def 2 3)
  moreover have "check_signature_pairwise F fuente r3 = None"
    using llenar_expect_agotada [OF a 3(2)] by (simp add: check_signature_pairwise_def generate_keypair_unchecked_def)
  ultimately show ?thesis by (auto simp: run_def split: bind_splits)
qed

section \<open>Properties\<close>

text \<open>A pair, an artefact and its reading, over bytes only.\<close>

lemma destinatario_por_bytes_example:
  "\<exists>pkb skb s. py_generate_keypair demo_informe demo_kem demo_fuente 0 = Some (Inr (pkb, skb), 32) \<and>
    py_encode_to_recipient demo_cripto demo_kem demo_fuente [1, 2, 3] pkb 32 = Some (Inr s, 88) \<and>
    py_decode_as_recipient demo_cripto demo_kem s skb = Some (Inr [1, 2, 3])"
proof -
  obtain pk sk where p: "hybrid_keypair demo_informe demo_kem demo_fuente 0 = Some (Inr (pk, sk), 32)"
    by (rule demo_pair)
  obtain b where "hs_to_bytes demo_kem sk = Some b" using both_secret_formats_open [OF demo_kem_ok p] by blast
  then have g: "py_generate_keypair demo_informe demo_kem demo_fuente 0 = Some (Inr (hp_to_bytes demo_kem pk, b), 32)"
    by (simp add: py_generate_keypair_def p)
  have "llenar demo_fuente 32 32 = (Inr (map of_nat [32..<64]), 64)"
      "llenar demo_fuente 24 64 = (Inr (map of_nat [64..<88]), 88)"
    using demo_fill [of 32 32] demo_fill [of 24 64] by (simp_all del: upt_rec_numeral)
  from destinatario_por_bytes [OF demo_cripto_ok demo_kem_ok demo_fuente_ok _ g this, of "[1, 2, 3]"] g
  show ?thesis by auto
qed

text \<open>
  C36.  A system that runs out of entropy, as Python sees it.  In a process whose self-test has passed, and
  whose source then stops delivering, \<^verbatim>\<open>generate_keypair\<close> and \<^verbatim>\<open>encode_to_recipient\<close> raise \<^verbatim>\<open>OSError\<close>, as
  the module says every failure of entropy does; \<^verbatim>\<open>split_secret\<close> raises \<^verbatim>\<open>ValueError\<close> for the same failure,
  and \<^verbatim>\<open>encode\<close>, \<^verbatim>\<open>encrypt_stream\<close> and \<^verbatim>\<open>generate_signing_keypair\<close> panic.  In a process that has not run
  the self-test yet, the run itself panics in that state, so whatever needs it does.
\<close>
theorem python_without_entropy:
  assumes f: "agotada fuente D" "r \<in> D" and i: "report_ok informe"
    and pk: "hp_from_bytes M pkb = Some pk" and s: "secret \<noteq> []" "2 \<le> k" "k \<le> n"
  shows "(\<exists>e r'. py_generate_keypair informe M fuente r = Some (Inl (PyOSError (SinEntropiaMsg e)), r')) \<and>
    (\<exists>e r'. py_encode_to_recipient C M fuente data pkb r = Some (Inl (PyOSError (SinEntropiaMsg e)), r')) \<and>
    (\<exists>e r'. py_split_secret sha fuente secret k n r = (Inl (PyValueError (ShamirMsg (ShamirSinEntropia e))), r')) \<and>
    py_encode informe C fuente data pw pepper r = None \<and>
    py_encrypt_stream informe C fuente data pw pepper None r = None \<and>
    py_generate_signing_keypair informe F fuente r = None \<and>
    run H C M F fuente r = None"
proof (intro conjI)
  note ex = llenar_expect_agotada [OF f]
  have en: "ensure informe None = Some (Some informe)" using i by (simp add: ensure_iff get_or_init_def)
  obtain e r' where l: "llenar fuente 32 r = (Inl e, r')" by (rule llenar_agotada [OF f])
  then show "\<exists>e r'. py_generate_keypair informe M fuente r = Some (Inl (PyOSError (SinEntropiaMsg e)), r')"
    by (simp add: py_generate_keypair_def hybrid_keypair_def en hybrid_keypair_unchecked_def generador_def
        py_sin_entropia_def)
  from l show "\<exists>e r'. py_encode_to_recipient C M fuente data pkb r = Some (Inl (PyOSError (SinEntropiaMsg e)), r')"
    by (simp add: py_encode_to_recipient_def pk default_dict encode_to_recipient_def encapsulate_def generador_def
        py_sin_entropia_def)
  obtain b payload where p: "secret @ etiqueta sha secret = b # payload" using s(1) by (cases secret) simp_all
  obtain e r' where "llenar fuente (unat k - 1) r = (Inl e, r')" by (rule llenar_agotada [OF f])
  then show "\<exists>e r'. py_split_secret sha fuente secret k n r = (Inl (PyValueError (ShamirMsg (ShamirSinEntropia e))), r')"
    using s by (simp add: py_split_secret_def split_def Let_def p MIN_THRESHOLD_def not_less [symmetric] del: append_Cons)
  show "py_encode informe C fuente data pw pepper r = None"
    by (simp add: py_encode_def default_dict encode_def en encode_to_blob_def ex)
  have "is_sane (so_kdf_params stream_options_default) \<and>
      MIN_CHUNK_SIZE \<le> so_chunk_size stream_options_default \<and> so_chunk_size stream_options_default \<le> MAX_CHUNK_SIZE"
    using demo_stream(3-5) by blast
  then show "py_encrypt_stream informe C fuente data pw pepper None r = None"
    by (simp add: py_encrypt_stream_def encrypt_stream_def en ex Let_def not_less [symmetric] split: option.split)
  show "py_generate_signing_keypair informe F fuente r = None"
    by (simp add: py_generate_signing_keypair_def generate_keypair_def generate_keypair_unchecked_def en ex)
qed (rule run_agotada [OF f])

text \<open>A source that counts what it has delivered and answers \<^verbatim>\<open>ENOSYS\<close> from its thousandth byte on.\<close>

theorem python_without_entropy_witness:
  "py_encode demo_informe demo_cripto (\<lambda>r n. if r < 1000 then (Inr (replicate n 7), r + n) else (Inl (Some 38), r))
      [1] [97] None (1000 :: nat) = None \<and>
    (\<exists>e r'. py_split_secret (sha256 demo_cripto)
      (\<lambda>r n. if r < 1000 then (Inr (replicate n 7), r + n) else (Inl (Some 38), r)) [1] 2 3 (1000 :: nat) =
      (Inl (PyValueError (ShamirMsg (ShamirSinEntropia e))), r'))"
proof -
  let ?f = "\<lambda>(r :: nat) n. if r < 1000 then (Inr (replicate n 7), r + n) else (Inl (Some 38), r)"
  have a: "agotada ?f {1000..}" by (simp add: agotada_def)
  have "hp_from_bytes demo_kem (hp_to_bytes demo_kem \<lparr>hp_x = 0, hp_ml = 0\<rparr>) = Some \<lparr>hp_x = 0, hp_ml = 0\<rparr>"
    by (rule hp_from_to_bytes [OF demo_kem_ok])
  from python_without_entropy [of ?f "{1000..}" 1000, OF a _ demo_informe_ok this, of "[1]" 2 3
      demo_cripto "[1]" "sha256 demo_cripto" "[97]" None demo_firma "\<lambda>_ _ _ _. None"]
  show ?thesis by simp
qed

end
