(* ===== verification/Fotocopia.thy ===== *)
theory Fotocopia
  imports Laboratorio Tecleable Plans
begin

text \<open>
  \<^verbatim>\<open>src/src/lab/papel.rs\<close>: two ways of putting bytes on a sheet of dots, square modules of one bit and
  Base32 text in a font of dots, a model of what a photocopier does to a sheet, and the measurement of
  how often a protected secret survives.  A sheet is its dots, row by row; \<open>None\<close> is a panic.  An
  \<^verbatim>\<open>f64\<close> is a rational number and \<open>rd\<close> its rounding, as in Plans.
\<close>

section \<open>The sheet\<close>

record lienzo =
  li_ancho :: nat
  li_alto :: nat
  px :: "bool list"

definition lienzo_nuevo :: "nat \<Rightarrow> nat \<Rightarrow> lienzo" where
  "lienzo_nuevo ancho alto = \<lparr>li_ancho = ancho, li_alto = alto, px = replicate (ancho * alto) False\<rparr>"

definition poner :: "nat \<Rightarrow> nat \<Rightarrow> bool \<Rightarrow> lienzo \<Rightarrow> lienzo" where
  "poner x y t l =
     (if x < li_ancho l \<and> y < li_alto l then l\<lparr>px := (px l)[y * li_ancho l + x := t]\<rparr> else l)"

definition tinta :: "lienzo \<Rightarrow> nat \<Rightarrow> nat \<Rightarrow> bool" where
  "tinta l x y \<longleftrightarrow> x < li_ancho l \<and> y < li_alto l \<and> px l ! (y * li_ancho l + x)"

definition li_area :: "lienzo \<Rightarrow> nat" where
  "li_area l = li_ancho l * li_alto l"

section \<open>The photocopier\<close>

record fotocopia =
  desenfoque :: nat
  fo_umbral :: f64
  mota :: f64
  franja :: nat

definition limpia :: fotocopia where
  "limpia = \<lparr>desenfoque = 0, fo_umbral = 1 / 2, mota = 0, franja = 0\<rparr>"

text \<open>How much ink there is around a dot; out of the sheet there is none.\<close>

definition vecinos_con_tinta :: "nat \<Rightarrow> lienzo \<Rightarrow> nat \<Rightarrow> nat \<Rightarrow> nat" where
  "vecinos_con_tinta r entrada x y =
     length (filter (\<lambda>(dx, dy).
         let nx = int x + dx; ny = int y + dy
         in 0 \<le> nx \<and> 0 \<le> ny \<and> tinta entrada (nat nx) (nat ny))
       (concat (map (\<lambda>dy. map (\<lambda>dx. (dx, dy)) [- int r..int r]) [- int r..int r])))"

fun copiar_puntos ::
  "(rat \<Rightarrow> f64) \<Rightarrow> fotocopia \<Rightarrow> lienzo \<Rightarrow> (nat \<times> nat) list \<Rightarrow> u64 \<Rightarrow> lienzo \<Rightarrow> lienzo \<times> u64" where
  "copiar_puntos rd F entrada [] g salida = (salida, g)"
| "copiar_puntos rd F entrada ((x, y) # ps) g salida =
     (let lado = of_nat (2 * desenfoque F + 1);
          suma = of_nat (vecinos_con_tinta (desenfoque F) entrada x y);
          negro = fo_umbral F \<le> rd (suma / rd (lado * lado));
          (negro, g) =
            (if 0 < mota F then
               case rng_byte g of (b, g) \<Rightarrow> (if rd (of_nat (unat b) / 255) < mota F then \<not> negro else negro, g)
             else (negro, g))
      in copiar_puntos rd F entrada ps g (poner x y negro salida))"

definition aplicar :: "(rat \<Rightarrow> f64) \<Rightarrow> fotocopia \<Rightarrow> lienzo \<Rightarrow> u64 \<Rightarrow> lienzo \<times> u64" where
  "aplicar rd F entrada g =
     (let puntos = (\<lambda>y0 y1. concat (map (\<lambda>y. map (\<lambda>x. (x, y)) [0..<li_ancho entrada]) [y0..<y1]));
          (salida, g) = copiar_puntos rd F entrada (puntos 0 (li_alto entrada)) g
            (lienzo_nuevo (li_ancho entrada) (li_alto entrada))
      in if 0 < franja F then
           case rng_byte g of (b, g) \<Rightarrow>
             let inicio = unat b * li_alto entrada div 256
             in (fold (\<lambda>(x, y). poner x y False) (puntos inicio (min (inicio + franja F) (li_alto entrada))) salida, g)
         else (salida, g))"

section \<open>Squares of dots\<close>

text \<open>The inner loops of both carriers: the dots of a square of side \<open>r\<close>, how they are painted and read.\<close>

definition cuadrado :: "nat \<Rightarrow> nat \<Rightarrow> nat \<Rightarrow> (nat \<times> nat) list" where
  "cuadrado r a b = concat (map (\<lambda>dy. map (\<lambda>dx. (a * r + dx, b * r + dy)) [0..<r]) [0..<r])"

definition poner_cuadrado :: "nat \<Rightarrow> nat \<times> nat \<times> bool \<Rightarrow> lienzo \<Rightarrow> lienzo" where
  "poner_cuadrado r m l = (case m of (a, b, t) \<Rightarrow> fold (\<lambda>(x, y). poner x y t) (cuadrado r a b) l)"

definition mayoria :: "nat \<Rightarrow> lienzo \<Rightarrow> nat \<Rightarrow> nat \<Rightarrow> bool" where
  "mayoria r l a b \<longleftrightarrow> r * r < length (filter (\<lambda>(x, y). tinta l x y) (cuadrado r a b)) * 2"

section \<open>The two carriers\<close>

record portador =
  po_nombre :: bytes
  capacidad_bytes :: "nat \<Rightarrow> nat \<Rightarrow> nat option"
  po_imprimir :: "bytes \<Rightarrow> nat \<Rightarrow> nat \<Rightarrow> lienzo option"
  po_leer :: "lienzo \<Rightarrow> nat \<Rightarrow> bytes option"

text \<open>Modules.  Division by a side or by a number of columns of zero is a panic.\<close>

definition modulos :: "nat \<Rightarrow> nat \<Rightarrow> nat \<Rightarrow> (nat \<times> nat) option" where
  "modulos lado ancho alto = (if lado = 0 then None else Some (ancho div lado, alto div lado))"

definition bits_de_matriz :: "bytes \<Rightarrow> bool list" where
  "bits_de_matriz datos = concat (map (\<lambda>b. map (\<lambda>k. drop_bit (7 - k) b AND 1 = 1) [0..<8]) datos)"

definition matriz_imprimir :: "nat \<Rightarrow> bytes \<Rightarrow> nat \<Rightarrow> nat \<Rightarrow> lienzo option" where
  "matriz_imprimir lado datos ancho alto =
     (case modulos lado ancho alto of
        None \<Rightarrow> None
      | Some (mx, _) \<Rightarrow>
          if mx = 0 \<and> datos \<noteq> [] then None
          else Some (fold (\<lambda>(i, t). poner_cuadrado lado (i mod mx, i div mx, t))
                 (enumerate 0 (bits_de_matriz datos)) (lienzo_nuevo ancho alto)))"

definition byte_de_bits :: "bool list \<Rightarrow> u8" where
  "byte_de_bits c = fold (\<lambda>(k, b) a. a OR push_bit (7 - k) (if b then 1 else 0)) (enumerate 0 c) 0"

definition matriz_leer :: "nat \<Rightarrow> lienzo \<Rightarrow> nat \<Rightarrow> bytes option" where
  "matriz_leer lado hoja cuantos =
     (case modulos lado (li_ancho hoja) (li_alto hoja) of
        None \<Rightarrow> None
      | Some (mx, _) \<Rightarrow>
          if mx = 0 \<and> 0 < cuantos then None
          else Some (map byte_de_bits
                 (chunks 8 (map (\<lambda>i. mayoria lado hoja (i mod mx) (i div mx)) [0..<cuantos * 8]))))"

definition Matriz :: "nat \<Rightarrow> portador" where
  "Matriz lado = \<lparr>
     po_nombre = ascii ''matriz(lado='' @ decimal lado @ ascii '')'',
     capacidad_bytes = (\<lambda>ancho alto. case modulos lado ancho alto of
         None \<Rightarrow> None | Some (mx, my) \<Rightarrow> Some (mx * my div 8)),
     po_imprimir = matriz_imprimir lado,
     po_leer = matriz_leer lado\<rparr>"

text \<open>Base32 in a font of five by seven dots.\<close>

definition ANCHO_GLIFO :: nat where
  "ANCHO_GLIFO = 5"

definition ALTO_GLIFO :: nat where
  "ALTO_GLIFO = 7"

definition ANCHO_CELDA :: nat where
  "ANCHO_CELDA = ANCHO_GLIFO + 1"

definition ALTO_CELDA :: nat where
  "ALTO_CELDA = ALTO_GLIFO + 1"

definition FUENTE :: "u8 list list" where
  "FUENTE =
  [[0b01110, 0b10001, 0b10001, 0b11111, 0b10001, 0b10001, 0b10001],
   [0b11110, 0b10001, 0b10001, 0b11110, 0b10001, 0b10001, 0b11110],
   [0b01110, 0b10001, 0b10000, 0b10000, 0b10000, 0b10001, 0b01110],
   [0b11110, 0b10001, 0b10001, 0b10001, 0b10001, 0b10001, 0b11110],
   [0b11111, 0b10000, 0b10000, 0b11110, 0b10000, 0b10000, 0b11111],
   [0b11111, 0b10000, 0b10000, 0b11110, 0b10000, 0b10000, 0b10000],
   [0b01110, 0b10001, 0b10000, 0b10111, 0b10001, 0b10001, 0b01111],
   [0b10001, 0b10001, 0b10001, 0b11111, 0b10001, 0b10001, 0b10001],
   [0b01110, 0b00100, 0b00100, 0b00100, 0b00100, 0b00100, 0b01110],
   [0b00111, 0b00010, 0b00010, 0b00010, 0b00010, 0b10010, 0b01100],
   [0b10001, 0b10010, 0b10100, 0b11000, 0b10100, 0b10010, 0b10001],
   [0b10000, 0b10000, 0b10000, 0b10000, 0b10000, 0b10000, 0b11111],
   [0b10001, 0b11011, 0b10101, 0b10101, 0b10001, 0b10001, 0b10001],
   [0b10001, 0b11001, 0b10101, 0b10011, 0b10001, 0b10001, 0b10001],
   [0b01110, 0b10001, 0b10001, 0b10001, 0b10001, 0b10001, 0b01110],
   [0b11110, 0b10001, 0b10001, 0b11110, 0b10000, 0b10000, 0b10000],
   [0b01110, 0b10001, 0b10001, 0b10001, 0b10101, 0b10010, 0b01101],
   [0b11110, 0b10001, 0b10001, 0b11110, 0b10100, 0b10010, 0b10001],
   [0b01111, 0b10000, 0b10000, 0b01110, 0b00001, 0b00001, 0b11110],
   [0b11111, 0b00100, 0b00100, 0b00100, 0b00100, 0b00100, 0b00100],
   [0b10001, 0b10001, 0b10001, 0b10001, 0b10001, 0b10001, 0b01110],
   [0b10001, 0b10001, 0b10001, 0b10001, 0b10001, 0b01010, 0b00100],
   [0b10001, 0b10001, 0b10001, 0b10101, 0b10101, 0b11011, 0b10001],
   [0b10001, 0b10001, 0b01010, 0b00100, 0b01010, 0b10001, 0b10001],
   [0b10001, 0b10001, 0b01010, 0b00100, 0b00100, 0b00100, 0b00100],
   [0b11111, 0b00001, 0b00010, 0b00100, 0b01000, 0b10000, 0b11111],
   [0b01110, 0b10001, 0b00001, 0b00010, 0b00100, 0b01000, 0b11111],
   [0b11111, 0b00010, 0b00100, 0b00010, 0b00001, 0b10001, 0b01110],
   [0b00010, 0b00110, 0b01010, 0b10010, 0b11111, 0b00010, 0b00010],
   [0b11111, 0b10000, 0b11110, 0b00001, 0b00001, 0b10001, 0b01110],
   [0b00110, 0b01000, 0b10000, 0b11110, 0b10001, 0b10001, 0b01110],
   [0b11111, 0b00001, 0b00010, 0b00100, 0b01000, 0b01000, 0b01000]]"

definition celdas :: "nat \<Rightarrow> nat \<Rightarrow> nat \<Rightarrow> (nat \<times> nat) option" where
  "celdas escala ancho alto =
     (if escala = 0 then None
      else Some (ancho div (ANCHO_CELDA * escala), alto div (ALTO_CELDA * escala)))"

definition a_base32 :: "bytes \<Rightarrow> bytes" where
  "a_base32 datos = a_cinco_loop datos 0 0 []"

text \<open>The loop with its \<^verbatim>\<open>break\<close>.\<close>

fun de_base32_loop :: "bytes \<Rightarrow> nat \<Rightarrow> u16 \<Rightarrow> nat \<Rightarrow> bytes \<Rightarrow> bytes" where
  "de_base32_loop [] cuantos acc bits out = out"
| "de_base32_loop (s # simbolos) cuantos acc bits out =
     (let acc = push_bit 5 acc OR ucast (s AND 0x1f);
          bits = bits + 5
      in if 8 \<le> bits then
           let out = out @ [ucast (drop_bit (bits - 8) acc AND 0xff)];
               bits = bits - 8
           in if length out = cuantos then out else de_base32_loop simbolos cuantos acc bits out
         else de_base32_loop simbolos cuantos acc bits out)"

definition de_base32 :: "bytes \<Rightarrow> nat \<Rightarrow> bytes" where
  "de_base32 simbolos cuantos = resize cuantos 0 (de_base32_loop simbolos cuantos 0 0 [])"

definition punto_de_glifo :: "u8 \<Rightarrow> nat \<Rightarrow> bool" where
  "punto_de_glifo renglon gx \<longleftrightarrow> drop_bit (ANCHO_GLIFO - 1 - gx) renglon AND 1 = 1"

text \<open>The dots of a glyph, in the order of the loops over rows and columns.\<close>

definition puntos_de_glifo :: "u8 list \<Rightarrow> (nat \<times> nat \<times> bool) list" where
  "puntos_de_glifo glifo =
     concat (map (\<lambda>(gy, renglon). map (\<lambda>gx. (gx, gy, punto_de_glifo renglon gx)) [0..<ANCHO_GLIFO])
       (enumerate 0 glifo))"

definition texto_imprimir :: "nat \<Rightarrow> bytes \<Rightarrow> nat \<Rightarrow> nat \<Rightarrow> lienzo option" where
  "texto_imprimir e datos ancho alto =
     (case celdas e ancho alto of
        None \<Rightarrow> None
      | Some (cx, _) \<Rightarrow>
          if cx = 0 \<and> datos \<noteq> [] then None
          else Some (fold (\<lambda>(i, simbolo) hoja.
                   let col = i mod cx; fila = i div cx
                   in fold (\<lambda>(gx, gy, t). poner_cuadrado e (col * ANCHO_CELDA + gx, fila * ALTO_CELDA + gy, t))
                        (puntos_de_glifo (FUENTE ! unat simbolo)) hoja)
                 (enumerate 0 (a_base32 datos)) (lienzo_nuevo ancho alto)))"

definition distancia_a :: "nat \<Rightarrow> lienzo \<Rightarrow> nat \<Rightarrow> nat \<Rightarrow> u8 list \<Rightarrow> nat" where
  "distancia_a e hoja col fila glifo =
     length (filter (\<lambda>(gx, gy, esperado).
         mayoria e hoja (col * ANCHO_CELDA + gx) (fila * ALTO_CELDA + gy) \<noteq> esperado)
       (puntos_de_glifo glifo))"

text \<open>The nearest template; the first one of those at the least distance.\<close>

definition plantilla :: "(u8 list \<Rightarrow> nat) \<Rightarrow> u8" where
  "plantilla d =
     fst (fold (\<lambda>(s, glifo) mejor. if d glifo < snd mejor then (of_nat s, d glifo) else mejor)
            (enumerate 0 FUENTE) (0 :: u8, 2 ^ 64 - 1))"

definition texto_leer :: "nat \<Rightarrow> lienzo \<Rightarrow> nat \<Rightarrow> bytes option" where
  "texto_leer e hoja cuantos =
     (case celdas e (li_ancho hoja) (li_alto hoja) of
        None \<Rightarrow> None
      | Some (cx, _) \<Rightarrow>
          if cx = 0 then None
          else Some (de_base32 (map (\<lambda>i. plantilla (distancia_a e hoja (i mod cx) (i div cx)))
                 [0..<cuantos * 8 div 5 + 1]) cuantos))"

definition Texto :: "nat \<Rightarrow> portador" where
  "Texto escala = \<lparr>
     po_nombre = ascii ''texto b32(esc='' @ decimal escala @ ascii '')'',
     capacidad_bytes = (\<lambda>ancho alto. case celdas escala ancho alto of
         None \<Rightarrow> None | Some (cx, cy) \<Rightarrow> Some (cx * cy * 5 div 8)),
     po_imprimir = texto_imprimir escala,
     po_leer = texto_leer escala\<rparr>"

section \<open>The measurement\<close>

record corrida =
  co_portador :: bytes
  carga_util :: nat
  intentos :: nat
  exitos :: nat

definition tasa :: "(rat \<Rightarrow> f64) \<Rightarrow> corrida \<Rightarrow> f64" where
  "tasa rd c = rd (of_nat (exitos c) / of_nat (max (intentos c) 1))"

definition vacia :: "corrida \<Rightarrow> bool" where
  "vacia c \<longleftrightarrow> carga_util c = 0"

definition fiable :: "(rat \<Rightarrow> f64) \<Rightarrow> corrida \<Rightarrow> bool" where
  "fiable rd c \<longleftrightarrow> \<not> vacia c \<and> rd (95 / 100) \<le> tasa rd c"

text \<open>\<^verbatim>\<open>(255.0 * paridad_pct) as u8\<close>, which saturates, and the clamp.\<close>

definition paridad_de :: "(rat \<Rightarrow> f64) \<Rightarrow> f64 \<Rightarrow> u8" where
  "paridad_de rd pct = clamp (of_nat (min 255 (nat \<lfloor>rd (255 * pct)\<rfloor>)))"

primrec buscar_carga :: "reed_solomon \<Rightarrow> u8 \<Rightarrow> nat \<Rightarrow> nat \<Rightarrow> nat" where
  "buscar_carga R paridad capacidad 0 = 0"
| "buscar_carga R paridad capacidad (Suc n) =
     (if capacidad < length (protect R (replicate (Suc n) 0) paridad)
      then buscar_carga R paridad capacidad n else Suc n)"

primrec medir_loop ::
  "(rat \<Rightarrow> f64) \<Rightarrow> reed_solomon \<Rightarrow> portador \<Rightarrow> nat \<Rightarrow> nat \<Rightarrow> u8 \<Rightarrow> nat \<Rightarrow> fotocopia \<Rightarrow> nat \<Rightarrow> u64 \<Rightarrow> nat
    \<Rightarrow> (nat \<times> u64) option" where
  "medir_loop rd R P ancho alto paridad cg copia 0 g ex = Some (ex, g)"
| "medir_loop rd R P ancho alto paridad cg copia (Suc n) g ex =
     (case rng_bytes cg g of (secreto, g) \<Rightarrow>
        let protegido = protect R secreto paridad
        in case po_imprimir P protegido ancho alto of
             None \<Rightarrow> None
           | Some hoja \<Rightarrow>
               (case aplicar rd copia hoja g of (copiada, g) \<Rightarrow>
                  case po_leer P copiada (length protegido) of
                    None \<Rightarrow> None
                  | Some leido \<Rightarrow>
                      (case recover R leido of
                         None \<Rightarrow> None
                       | Some x \<Rightarrow> medir_loop rd R P ancho alto paridad cg copia n g
                           (if x = Some secreto then ex + 1 else ex))))"

definition medir ::
  "(rat \<Rightarrow> f64) \<Rightarrow> reed_solomon \<Rightarrow> portador \<Rightarrow> nat \<Rightarrow> nat \<Rightarrow> f64 \<Rightarrow> fotocopia \<Rightarrow> nat \<Rightarrow> u64
    \<Rightarrow> (corrida \<times> u64) option" where
  "medir rd R P ancho alto paridad_pct copia n g =
     (case capacidad_bytes P ancho alto of
        None \<Rightarrow> None
      | Some capacidad \<Rightarrow>
          let paridad = paridad_de rd paridad_pct;
              cg = buscar_carga R paridad capacidad capacidad
          in case medir_loop rd R P ancho alto paridad cg copia n g 0 of
               None \<Rightarrow> None
             | Some (ex, g) \<Rightarrow>
                 Some (\<lparr>co_portador = po_nombre P, carga_util = cg, intentos = n, exitos = ex\<rparr>, g))"

section \<open>What is painted\<close>

definition li_ok :: "lienzo \<Rightarrow> bool" where
  "li_ok l \<longleftrightarrow> length (px l) = li_ancho l * li_alto l"

definition misma_hoja :: "lienzo \<Rightarrow> lienzo \<Rightarrow> bool" where
  "misma_hoja l l' \<longleftrightarrow> li_ok l' \<and> li_ancho l' = li_ancho l \<and> li_alto l' = li_alto l"

lemma misma_hoja_trans: "misma_hoja l l' \<Longrightarrow> misma_hoja l' l'' \<Longrightarrow> misma_hoja l l''"
  by (simp add: misma_hoja_def)

lemma misma_hoja_refl: "li_ok l \<Longrightarrow> misma_hoja l l"
  by (simp add: misma_hoja_def)

lemma poner_misma: "li_ok l \<Longrightarrow> misma_hoja l (poner x y t l)"
  by (simp add: misma_hoja_def li_ok_def poner_def)

lemma nuevo_ok: "li_ok (lienzo_nuevo w h)" "li_ancho (lienzo_nuevo w h) = w" "li_alto (lienzo_nuevo w h) = h"
  by (simp_all add: li_ok_def lienzo_nuevo_def)

lemma tinta_poner:
  assumes "li_ok l"
  shows "tinta (poner x y t l) x' y' =
    (if x' = x \<and> y' = y \<and> x < li_ancho l \<and> y < li_alto l then t else tinta l x' y')"
  using assms posicion_menor [of x "li_ancho l" y "li_alto l"] posicion_unica [of x' "li_ancho l" x y' y]
  by (auto simp: tinta_def poner_def li_ok_def nth_list_update)

lemma fold_misma:
  assumes "li_ok l" and "\<And>m l. li_ok l \<Longrightarrow> misma_hoja l (f m l)"
  shows "misma_hoja l (fold f ms l)"
  using assms(1)
proof (induction ms arbitrary: l)
  case (Cons m ms)
  have "misma_hoja l (f m l)" using assms(2) Cons.prems .
  moreover from this have "misma_hoja (f m l) (fold f ms (f m l))" by (intro Cons.IH) (simp add: misma_hoja_def)
  ultimately show ?case by (auto intro: misma_hoja_trans)
qed (simp add: misma_hoja_refl)

lemma tinta_fold_poner:
  "li_ok l \<Longrightarrow> tinta (fold (\<lambda>(x, y). poner x y t) ps l) x' y' =
    (if (x', y') \<in> set ps \<and> x' < li_ancho l \<and> y' < li_alto l then t else tinta l x' y')"
proof (induction ps arbitrary: l)
  case (Cons p ps)
  obtain x y where p: "p = (x, y)" by force
  have m: "misma_hoja l (poner x y t l)" using poner_misma Cons.prems .
  then show ?case using Cons.IH [of "poner x y t l"] Cons.prems
    by (auto simp: p misma_hoja_def tinta_poner)
qed simp

lemma cuadrado_iff: "0 < r \<Longrightarrow> (x, y) \<in> set (cuadrado r a b) \<longleftrightarrow> x div r = a \<and> y div r = b"
proof
  assume r: "0 < r" and "x div r = a \<and> y div r = b"
  then have "x = a * r + x mod r" "y = b * r + y mod r" using div_mult_mod_eq by auto
  moreover have "x mod r < r" "y mod r < r" using r by simp_all
  ultimately show "(x, y) \<in> set (cuadrado r a b)" unfolding cuadrado_def by fastforce
qed (auto simp: cuadrado_def)

lemma length_cuadrado: "length (cuadrado r a b) = r * r"
  by (simp add: cuadrado_def length_concat comp_def sum_list_triv)

lemma poner_cuadrado_misma: "li_ok l \<Longrightarrow> misma_hoja l (poner_cuadrado r m l)"
  by (cases m) (auto simp: poner_cuadrado_def intro!: fold_misma poner_misma)

lemma tinta_poner_cuadrado:
  "li_ok l \<Longrightarrow> 0 < r \<Longrightarrow> tinta (poner_cuadrado r (a, b, t) l) x y =
    (if x div r = a \<and> y div r = b \<and> x < li_ancho l \<and> y < li_alto l then t else tinta l x y)"
  by (simp add: poner_cuadrado_def tinta_fold_poner cuadrado_iff)

lemma marcas_misma: "misma_hoja (lienzo_nuevo w h) (fold (poner_cuadrado r) ms (lienzo_nuevo w h))"
  by (rule fold_misma [OF nuevo_ok(1) poner_cuadrado_misma])

text \<open>A square that all its marks paint the same has that colour.\<close>

lemma tinta_marcas:
  assumes "li_ok l" "0 < r" "x < li_ancho l" "y < li_alto l"
    and "\<forall>t'. (x div r, y div r, t') \<in> set ms \<longrightarrow> t' = t"
    and "(x div r, y div r, t) \<in> set ms \<or> tinta l x y = t"
  shows "tinta (fold (poner_cuadrado r) ms l) x y = t"
  using assms
proof (induction ms arbitrary: l)
  case (Cons m ms)
  obtain a b u where m: "m = (a, b, u)" by (cases m)
  have h: "misma_hoja l (poner_cuadrado r m l)" using poner_cuadrado_misma Cons.prems(1) .
  have "(x div r, y div r, t) \<in> set ms \<or> tinta (poner_cuadrado r m l) x y = t"
    using Cons.prems m by (auto simp: tinta_poner_cuadrado)
  then have "tinta (fold (poner_cuadrado r) ms (poner_cuadrado r m l)) x y = t"
    using Cons.IH [of "poner_cuadrado r m l"] Cons.prems(2-5) h by (simp add: misma_hoja_def)
  then show ?case by simp
qed simp

section \<open>What is read\<close>

text \<open>
  A copy is legible at side \<open>r\<close> when in every square of that side, of those aligned on the sheet, less
  than half of the dots changed.
\<close>

definition cambiados :: "nat \<Rightarrow> lienzo \<Rightarrow> lienzo \<Rightarrow> nat \<Rightarrow> nat \<Rightarrow> nat" where
  "cambiados r l l' a b = length (filter (\<lambda>(x, y). tinta l x y \<noteq> tinta l' x y) (cuadrado r a b))"

definition copia_legible :: "nat \<Rightarrow> lienzo \<Rightarrow> lienzo \<Rightarrow> bool" where
  "copia_legible r l l' \<longleftrightarrow> li_ancho l' = li_ancho l \<and> li_alto l' = li_alto l \<and>
     (\<forall>a b. (a + 1) * r \<le> li_ancho l \<longrightarrow> (b + 1) * r \<le> li_alto l \<longrightarrow> 2 * cambiados r l l' a b < r * r)"

lemma copia_legible_refl: "0 < r \<Longrightarrow> copia_legible r l l"
  by (simp add: copia_legible_def cambiados_def)

lemma mayoria_copia:
  assumes "2 * cambiados r l l' a b < r * r"
    and t: "\<And>x y. (x, y) \<in> set (cuadrado r a b) \<Longrightarrow> tinta l x y = t"
  shows "mayoria r l' a b = t"
proof -
  let ?n = "length (filter (\<lambda>(x, y). tinta l' x y) (cuadrado r a b))"
  have "?n = (if t then r * r - cambiados r l l' a b else cambiados r l l' a b)"
  proof (cases t)
    case True
    have "cambiados r l l' a b = length (filter (\<lambda>p. \<not> (case p of (x, y) \<Rightarrow> tinta l' x y)) (cuadrado r a b))"
      unfolding cambiados_def using t True by (intro arg_cong [where f = length] filter_cong) auto
    then show ?thesis
      using sum_length_filter_compl [of "\<lambda>(x, y). tinta l' x y" "cuadrado r a b"] True by (simp add: length_cuadrado)
  next
    case False
    then show ?thesis unfolding cambiados_def using t by (auto intro!: arg_cong [where f = length] filter_cong)
  qed
  then show ?thesis using assms(1) by (cases t) (auto simp: mayoria_def)
qed

lemma cuadrado_en_hoja:
  assumes "(a + 1) * r \<le> w" "(b + 1) * r \<le> h" "(x, y) \<in> set (cuadrado r a b)"
  shows "x < w \<and> y < (h :: nat) \<and> x div r = a \<and> y div r = b"
proof -
  have r: "0 < r" using assms(3) by (cases r) (simp_all add: cuadrado_def)
  then have d: "x div r = a" "y div r = b" using assms(3) by (simp_all add: cuadrado_iff)
  have "x < r + a * r" "y < r + b * r"
    using dividend_less_div_times [OF r, of x] dividend_less_div_times [OF r, of y] by (simp_all only: d)
  moreover have "r + a * r \<le> w" "r + b * r \<le> h"
    using assms(1,2) by (simp_all only: distrib_right mult_1 add.commute)
  ultimately have "x < w" "y < h" by (blast intro: less_le_trans)+
  then show ?thesis using d by blast
qed

text \<open>What was painted with marks is read off a legible copy.\<close>

lemma marcas_se_leen:
  assumes "li_ok l" "(a, b, t) \<in> set ms" "\<forall>t'. (a, b, t') \<in> set ms \<longrightarrow> t' = t"
    and "(a + 1) * r \<le> li_ancho l" "(b + 1) * r \<le> li_alto l"
    and "copia_legible r (fold (poner_cuadrado r) ms l) l'"
  shows "mayoria r l' a b = t"
proof (rule mayoria_copia)
  have m: "misma_hoja l (fold (poner_cuadrado r) ms l)"
    using assms(1) by (intro fold_misma poner_cuadrado_misma)
  then show "2 * cambiados r (fold (poner_cuadrado r) ms l) l' a b < r * r"
    using assms(4-6) by (simp add: copia_legible_def misma_hoja_def)
  fix x y assume xy: "(x, y) \<in> set (cuadrado r a b)"
  then have "0 < r" by (cases r) (simp_all add: cuadrado_def)
  have e: "x < li_ancho l" "y < li_alto l" "x div r = a" "y div r = b"
    using cuadrado_en_hoja [OF assms(4,5) xy] by simp_all
  show "tinta (fold (poner_cuadrado r) ms l) x y = t"
    by (rule tinta_marcas [OF assms(1) \<open>0 < r\<close> e(1,2)]) (use assms(2,3) in \<open>unfold e, blast+\<close>)
qed

section \<open>Modules come back\<close>

lemma bits_de_matriz_plano: "bits_de_matriz datos = plano 8 datos"
proof -
  have "map (\<lambda>k. drop_bit (7 - k) b AND 1 = 1) [0..<8] = bits_de 8 b" for b :: u8
    by (simp add: bits_de_def and_one_eq bit_iff_odd_drop_bit odd_iff_mod_2_eq_one)
  then show ?thesis by (simp add: bits_de_matriz_def plano_def)
qed

lemma byte_de_bits_de: "byte_de_bits (bits_de 8 b) = b"
proof -
  have bs: "bits_de 8 b = [bit b 7, bit b 6, bit b 5, bit b 4, bit b 3, bit b 2, bit b 1, bit b 0]"
    by (simp add: bits_de_def upt_rec)
  show ?thesis unfolding bs
  proof (rule bit_word_eqI)
    fix n assume "n < LENGTH(8)"
    then have "n = 0 \<or> n = 1 \<or> n = 2 \<or> n = 3 \<or> n = 4 \<or> n = 5 \<or> n = 6 \<or> n = 7" by auto
    then show "bit (byte_de_bits [bit b 7, bit b 6, bit b 5, bit b 4, bit b 3, bit b 2, bit b 1, bit b 0]) n = bit b n"
      by (elim disjE) (simp_all add: byte_de_bits_def bit_or_iff bit_push_bit_iff bit_1_iff)
  qed
qed

lemma chunks_plano: "map byte_de_bits (chunks 8 (plano 8 datos)) = datos"
  by (induction datos) (simp_all add: chunks_append byte_de_bits_de)

lemma celda_cabe:
  assumes "i < mx * my" "mx = w div r" "my = h div r'"
  shows "(i mod mx + 1) * r \<le> w" "(i div mx + 1) * r' \<le> (h :: nat)"
proof -
  have "i mod mx + 1 \<le> mx" using assms(1) by (cases "mx = 0") (simp_all add: Suc_leI)
  then have "(i mod mx + 1) * r \<le> mx * r" by (rule mult_right_mono) simp
  then show "(i mod mx + 1) * r \<le> w" using assms(2) by (simp only: le_trans [OF _ div_times_less_eq_dividend])
  have "i div mx + 1 \<le> my" using assms(1) by (simp add: less_mult_imp_div_less mult.commute Suc_leI)
  then have "(i div mx + 1) * r' \<le> my * r'" by (rule mult_right_mono) simp
  then show "(i div mx + 1) * r' \<le> h" using assms(3) by (simp only: le_trans [OF _ div_times_less_eq_dividend])
qed

lemma posicion_marca:
  "0 < mx \<Longrightarrow> i mod mx = j mod mx \<Longrightarrow> i div mx = j div mx \<Longrightarrow> i = (j :: nat)"
  by (metis div_mult_mod_eq)

lemma fold_marcas:
  "fold (\<lambda>(i, t). poner_cuadrado r (f i t)) ms l = fold (poner_cuadrado r) (map (\<lambda>(i, t). f i t) ms) l"
  by (simp add: fold_map comp_def case_prod_beta')

lemma matriz_lee:
  assumes c: "capacidad_bytes (Matriz lado) w h = Some c" "length datos \<le> c"
    and i: "matriz_imprimir lado datos w h = Some hoja" and l: "copia_legible lado hoja hoja'"
  shows "matriz_leer lado hoja' (length datos) = Some datos"
proof -
  let ?mx = "w div lado" and ?my = "h div lado"
  let ?ms = "map (\<lambda>(i, t). (i mod ?mx, i div ?mx, t)) (enumerate 0 (plano 8 datos))"
  have lado: "0 < lado" using i by (cases lado) (simp_all add: matriz_imprimir_def modulos_def)
  have mx: "\<not> (?mx = 0 \<and> datos \<noteq> [])" using i lado by (auto simp: matriz_imprimir_def modulos_def split: if_splits)
  have hoja: "hoja = fold (poner_cuadrado lado) ?ms (lienzo_nuevo w h)"
    using i lado mx by (simp add: matriz_imprimir_def modulos_def bits_de_matriz_plano fold_marcas split: if_splits)
  have dims: "li_ancho hoja' = w" "li_alto hoja' = h"
    using l marcas_misma [of w h lado ?ms]
    by (simp_all add: copia_legible_def hoja misma_hoja_def nuevo_ok)
  have tam: "8 * length datos \<le> ?mx * ?my" using c lado by (simp add: Matriz_def modulos_def)
  have bit: "mayoria lado hoja' (i mod ?mx) (i div ?mx) = plano 8 datos ! i" if "i < length (plano 8 datos)" for i
  proof (rule marcas_se_leen [OF nuevo_ok(1)])
    have it: "i < ?mx * ?my" using that tam by simp
    then have "0 < ?mx" by (cases "?mx = 0") simp_all
    then have inj: "\<And>j. j mod ?mx = i mod ?mx \<Longrightarrow> j div ?mx = i div ?mx \<Longrightarrow> j = i" by (rule posicion_marca)
    show "(i mod ?mx, i div ?mx, plano 8 datos ! i) \<in> set ?ms"
      using that by (force simp: in_set_enumerate_eq)
    show "\<forall>t'. (i mod ?mx, i div ?mx, t') \<in> set ?ms \<longrightarrow> t' = plano 8 datos ! i"
    proof (intro allI impI)
      fix t' assume "(i mod ?mx, i div ?mx, t') \<in> set ?ms"
      then obtain j where "j mod ?mx = i mod ?mx" "j div ?mx = i div ?mx" "t' = plano 8 datos ! j"
        by (auto simp: in_set_enumerate_eq)
      then show "t' = plano 8 datos ! i" using inj by blast
    qed
    show "(i mod ?mx + 1) * lado \<le> li_ancho (lienzo_nuevo w h)" "(i div ?mx + 1) * lado \<le> li_alto (lienzo_nuevo w h)"
      using celda_cabe [OF it refl refl] by (simp_all only: nuevo_ok)
    show "copia_legible lado (fold (poner_cuadrado lado) ?ms (lienzo_nuevo w h)) hoja'" using l by (simp only: hoja)
  qed
  have "map (\<lambda>i. mayoria lado hoja' (i mod ?mx) (i div ?mx)) [0..<length datos * 8] = plano 8 datos"
    by (rule nth_equalityI) (use bit in \<open>simp_all add: mult.commute\<close>)
  then show ?thesis using lado mx by (auto simp: matriz_leer_def dims modulos_def chunks_plano)
qed

section \<open>Text comes back\<close>

text \<open>Base32: the break and the padding of the reader make no difference to what was written.\<close>

lemma de_cinco_loop_prefix: "\<exists>zs. de_cinco_loop s acc bits out = out @ zs"
proof (induction s acc bits out rule: de_cinco_loop.induct)
  case (2 s simbolos acc bits out)
  then show ?case by (cases "8 \<le> bits + 5") (fastforce simp: Let_def)+
qed simp

lemma de_base32_loop_take:
  "length out < n \<Longrightarrow> de_base32_loop s n acc bits out = take n (de_cinco_loop s acc bits out)"
proof (induction s n acc bits out rule: de_base32_loop.induct)
  case (2 s simbolos n acc bits out)
  let ?acc = "push_bit 5 acc OR ucast (s AND 0x1f) :: u16"
  let ?out = "out @ [ucast (drop_bit (bits + 5 - 8) ?acc AND 0xff)]"
  show ?case
  proof (cases "8 \<le> bits + 5")
    case True
    show ?thesis
    proof (cases "length ?out = n")
      case len: True
      obtain zs where "de_cinco_loop simbolos ?acc (bits + 5 - 8) ?out = ?out @ zs"
        using de_cinco_loop_prefix by blast
      moreover have "n = Suc (length out)" using len by simp
      ultimately show ?thesis using True by (simp add: Let_def)
    next
      case False
      then have "length ?out < n" using "2.prems" by simp
      from "2.IH"(1) [OF refl refl True refl refl False this] show ?thesis using True False by (simp add: Let_def)
    qed
  next
    case False
    from "2.IH"(2) [OF refl refl False "2.prems"] show ?thesis using False by (simp add: Let_def)
  qed
qed simp

lemma plano_prefix:
  fixes us vs :: "'a :: len word list"
  assumes "plano LENGTH('a) us @ r = plano LENGTH('a) vs @ s" "length s < LENGTH('a)"
  shows "take (length us) vs = us"
proof -
  have "LENGTH('a) * length us + length r = LENGTH('a) * length vs + length s"
    using arg_cong [OF assms(1), of length] by simp
  then have "LENGTH('a) * length us < LENGTH('a) * (length vs + 1)" using assms(2) by simp
  then have le: "length us \<le> length vs" by (simp only: mult_less_cancel1) simp
  have "plano LENGTH('a) us @ r = plano LENGTH('a) (take (length us) vs) @ (plano LENGTH('a) (drop (length us) vs) @ s)"
    using assms(1) plano_simps(3) [of "LENGTH('a)" "take (length us) vs" "drop (length us) vs"]
    by (simp only: append_take_drop_id append_assoc)
  moreover have "length (plano LENGTH('a) us) = length (plano LENGTH('a) (take (length us) vs))" using le by simp
  ultimately have "plano LENGTH('a) us = plano LENGTH('a) (take (length us) vs)" by (simp only: append_eq_append_conv simp_thms)
  then show ?thesis using plano_unique [of us "[]" "take (length us) vs" "[]"] by simp
qed

lemma length_a_base32: "8 * length datos \<le> 5 * length (a_base32 datos)" "5 * length (a_base32 datos) < 8 * length datos + 5"
proof -
  obtain pad where "length pad < 5" "plano 5 (a_cinco_bits datos) = plano 8 datos @ pad"
    by (rule a_cinco_bits_plano)
  then have "length (plano 5 (a_base32 datos)) = length (plano 8 datos @ pad)" "length pad < 5"
    by (simp_all only: a_base32_def a_cinco_bits_def)
  then show "8 * length datos \<le> 5 * length (a_base32 datos)" "5 * length (a_base32 datos) < 8 * length datos + 5"
    by simp_all
qed

lemma de_a_base32: "de_base32 (a_base32 datos @ extra) (length datos) = datos"
proof (cases "datos = []")
  case True
  then show ?thesis by (simp add: de_base32_def resize_def)
next
  case False
  let ?s = "a_base32 datos @ extra"
  obtain pad where pad: "plano 5 (a_cinco_bits datos) = plano 8 datos @ pad" by (rule a_cinco_bits_plano)
  obtain resto where "length resto < 8" "plano 5 ?s = plano 8 (de_cinco_bits ?s) @ resto"
    by (rule de_cinco_bits_plano)
  with pad have "take (length datos) (de_cinco_bits ?s) = datos"
    by (intro plano_prefix [of _ "pad @ plano 5 extra" _ resto]) (simp_all add: a_base32_def a_cinco_bits_def)
  then show ?thesis using False de_base32_loop_take [of "[]" "length datos" ?s 0 0]
    by (simp add: de_base32_def de_cinco_bits_def resize_def)
qed

text \<open>The font: no two glyphs have the same dots.\<close>

lemma FUENTE_forma: "length FUENTE = 32" "\<forall>g \<in> set FUENTE. length g = 7"
  by (simp_all add: FUENTE_def)

lemma FUENTE_distinta:
  "distinct (map (map (\<lambda>renglon. map (punto_de_glifo renglon) [0..<5])) FUENTE)"
  by code_simp

lemma puntos_iff:
  "(gx, gy, t) \<in> set (puntos_de_glifo g) \<longleftrightarrow> gx < 5 \<and> gy < length g \<and> t = punto_de_glifo (g ! gy) gx"
  by (auto simp: puntos_de_glifo_def in_set_enumerate_eq ANCHO_GLIFO_def intro!: bexI [of _ "(gy, g ! gy)"])

text \<open>In how many dots two glyphs differ.\<close>

definition entre_glifos :: "u8 list \<Rightarrow> u8 list \<Rightarrow> nat" where
  "entre_glifos g g' = length (filter (\<lambda>(gx, gy, t). punto_de_glifo (g ! gy) gx \<noteq> t) (puntos_de_glifo g'))"

lemma entre_glifos_0:
  assumes "s < 32" "j < 32" "entre_glifos (FUENTE ! s) (FUENTE ! j) = 0"
  shows "s = j"
proof -
  let ?p = "map (\<lambda>renglon. map (punto_de_glifo renglon) [0..<5])"
  have l: "length (FUENTE ! s) = 7" "length (FUENTE ! j) = 7" using assms(1,2) FUENTE_forma by (metis nth_mem)+
  have "punto_de_glifo (FUENTE ! s ! gy) gx = punto_de_glifo (FUENTE ! j ! gy) gx" if "gx < 5" "gy < 7" for gx gy
    using assms(3) that l by (fastforce simp: entre_glifos_def puntos_iff filter_empty_conv)
  then have "?p (FUENTE ! s) = ?p (FUENTE ! j)"
    using l by (intro nth_equalityI) (simp_all add: nth_equalityI)
  then show ?thesis
    using FUENTE_distinta assms(1,2) nth_eq_iff_index_eq [of "map ?p FUENTE" s j] by (simp add: FUENTE_forma)
qed

text \<open>The two nearest letters, D and O: one wrong dot can be as near to one as to the other.\<close>

lemma letras_a_dos_puntos: "entre_glifos (FUENTE ! 14) (FUENTE ! 3) = 2"
  by code_simp

lemma plantilla_cero:
  assumes s: "s < 32" and d: "d (FUENTE ! s) = 0" "\<And>j. j < 32 \<Longrightarrow> d (FUENTE ! j) = 0 \<Longrightarrow> j = s"
  shows "plantilla d = of_nat s"
proof -
  let ?f = "\<lambda>(s, glifo) mejor. if d glifo < snd mejor then (of_nat s :: u8, d glifo) else mejor"
  have pos: "0 < snd m \<Longrightarrow> \<forall>(k, g) \<in> set xs. 0 < d g \<Longrightarrow> 0 < snd (fold ?f xs m)" for xs m
    by (induction xs arbitrary: m) auto
  have fin: "snd m = 0 \<Longrightarrow> fold ?f xs m = m" for xs m
    by (induction xs arbitrary: m) auto
  have e: "enumerate 0 FUENTE = enumerate 0 (take s FUENTE) @ (s, FUENTE ! s) # enumerate (Suc s) (drop (Suc s) FUENTE)"
    using id_take_nth_drop [of s FUENTE] s by (metis FUENTE_forma(1) add_0 enumerate_append_eq enumerate_simps(2)
        length_take min.absorb4)
  have "0 < d g" if "(k, g) \<in> set (enumerate 0 (take s FUENTE))" for k g
    using that d(2) [of k] s by (cases "d g") (auto simp: in_set_enumerate_eq FUENTE_forma)
  then have "\<forall>(k, g) \<in> set (enumerate 0 (take s FUENTE)). 0 < d g" by blast
  then have "0 < snd (fold ?f (enumerate 0 (take s FUENTE)) (0, 2 ^ 64 - 1))" by (intro pos) simp_all
  then have "fold ?f (enumerate 0 FUENTE) (0, 2 ^ 64 - 1) = (of_nat s, 0)"
    unfolding e using d(1) by (simp add: fin)
  then show ?thesis by (simp add: plantilla_def)
qed

text \<open>The marks of a printed text.\<close>

definition marcas_texto :: "nat \<Rightarrow> bytes \<Rightarrow> (nat \<times> nat \<times> bool) list" where
  "marcas_texto cx simbolos =
     concat (map (\<lambda>(i, s). map (\<lambda>(gx, gy, t). (i mod cx * ANCHO_CELDA + gx, i div cx * ALTO_CELDA + gy, t))
         (puntos_de_glifo (FUENTE ! unat s)))
       (enumerate 0 simbolos))"

lemma fold_concat: "fold f (concat xss) l = fold (fold f) xss l"
  by (induction xss arbitrary: l) simp_all

lemma texto_imprimir_marcas:
  "texto_imprimir e datos w h = Some hoja \<Longrightarrow> 0 < e \<and> (w div (6 * e) = 0 \<longrightarrow> datos = []) \<and>
    hoja = fold (poner_cuadrado e) (marcas_texto (w div (6 * e)) (a_base32 datos)) (lienzo_nuevo w h)"
  by (auto simp: texto_imprimir_def celdas_def marcas_texto_def fold_concat fold_map comp_def case_prod_beta'
      Let_def ANCHO_CELDA_def ALTO_CELDA_def ANCHO_GLIFO_def ALTO_GLIFO_def split: if_splits)

lemma marcas_texto_iff:
  assumes "gx < 6" "gy < 8" and simbolos: "\<And>s. s \<in> set simbolos \<Longrightarrow> unat s < 32"
  shows "(a * 6 + gx, b * 8 + gy, t) \<in> set (marcas_texto cx simbolos) \<longleftrightarrow>
    (\<exists>i < length simbolos. a = i mod cx \<and> b = i div cx \<and> (gx, gy, t) \<in> set (puntos_de_glifo (FUENTE ! unat (simbolos ! i))))"
    (is "?l = ?r")
proof
  assume ?l
  then obtain i gx' gy' where i: "i < length simbolos" "a * 6 + gx = i mod cx * 6 + gx'" "b * 8 + gy = i div cx * 8 + gy'"
      and g: "(gx', gy', t) \<in> set (puntos_de_glifo (FUENTE ! unat (simbolos ! i)))"
    by (auto simp: marcas_texto_def in_set_enumerate_eq ANCHO_CELDA_def ALTO_CELDA_def ANCHO_GLIFO_def ALTO_GLIFO_def)
  have "length (FUENTE ! unat (simbolos ! i)) = 7"
    using simbolos [OF nth_mem [OF i(1)]] FUENTE_forma by simp
  then have "gx' < 6" "gy' < 8" using g by (simp_all add: puntos_iff)
  then have "gx = gx' \<and> a = i mod cx" "gy = gy' \<and> b = i div cx"
    using posicion_unica [of gx 6 gx' a "i mod cx"] posicion_unica [of gy 8 gy' b "i div cx"] assms(1,2) i(2,3)
    by simp_all
  then show ?r using i(1) g by blast
next
  assume ?r
  then show ?l
    by (force simp: marcas_texto_def in_set_enumerate_eq ANCHO_CELDA_def ALTO_CELDA_def ANCHO_GLIFO_def ALTO_GLIFO_def)
qed

text \<open>Every dot of every glyph is read off a legible copy, so every symbol is.\<close>

lemma punto_se_lee:
  assumes simbolos: "\<And>s. s \<in> set simbolos \<Longrightarrow> unat s < 32"
    and tam: "length simbolos \<le> w div (6 * e) * (h div (8 * e))"
    and l: "copia_legible e (fold (poner_cuadrado e) (marcas_texto (w div (6 * e)) simbolos) (lienzo_nuevo w h)) hoja'"
    and i: "i < length simbolos" and g: "gx < 5" "gy < 7"
  shows "mayoria e hoja' (i mod (w div (6 * e)) * 6 + gx) (i div (w div (6 * e)) * 8 + gy) =
    punto_de_glifo (FUENTE ! unat (simbolos ! i) ! gy) gx"
proof (rule marcas_se_leen [OF nuevo_ok(1) _ _ _ _ l])
  let ?cx = "w div (6 * e)" and ?ms = "marcas_texto (w div (6 * e)) simbolos"
  have l7: "length (FUENTE ! unat (simbolos ! i)) = 7"
    using simbolos [OF nth_mem [OF i]] FUENTE_forma by simp
  have gg: "gx < 6" "gy < 8" using g by simp_all
  note m = marcas_texto_iff [OF gg simbolos, where cx = ?cx and simbolos = simbolos]
  have it: "i < ?cx * (h div (8 * e))" using i tam by simp
  then have "0 < ?cx" by (cases "?cx = 0") simp_all
  then have inj: "\<And>j. j mod ?cx = i mod ?cx \<Longrightarrow> j div ?cx = i div ?cx \<Longrightarrow> j = i" by (rule posicion_marca)
  show "(i mod ?cx * 6 + gx, i div ?cx * 8 + gy, punto_de_glifo (FUENTE ! unat (simbolos ! i) ! gy) gx) \<in> set ?ms"
    using i g l7 by (subst m) (auto simp: puntos_iff)
  show "\<forall>t'. (i mod ?cx * 6 + gx, i div ?cx * 8 + gy, t') \<in> set ?ms \<longrightarrow>
      t' = punto_de_glifo (FUENTE ! unat (simbolos ! i) ! gy) gx"
  proof (intro allI impI)
    fix t' assume "(i mod ?cx * 6 + gx, i div ?cx * 8 + gy, t') \<in> set ?ms"
    then obtain j where "i mod ?cx = j mod ?cx" "i div ?cx = j div ?cx"
        "(gx, gy, t') \<in> set (puntos_de_glifo (FUENTE ! unat (simbolos ! j)))" by (subst (asm) m) auto
    with inj [of j] show "t' = punto_de_glifo (FUENTE ! unat (simbolos ! i) ! gy) gx" by (simp add: puntos_iff)
  qed
  note cabe = celda_cabe [OF it refl refl]
  have "(i mod ?cx * 6 + gx + 1) * e \<le> (i mod ?cx + 1) * 6 * e"
    using g(1) by (intro mult_right_mono) simp_all
  then show "(i mod ?cx * 6 + gx + 1) * e \<le> li_ancho (lienzo_nuevo w h)"
    using cabe(1) by (simp only: nuevo_ok mult.assoc)
  have "(i div ?cx * 8 + gy + 1) * e \<le> (i div ?cx + 1) * 8 * e"
    using g(2) by (intro mult_right_mono) simp_all
  then show "(i div ?cx * 8 + gy + 1) * e \<le> li_alto (lienzo_nuevo w h)"
    using cabe(2) by (simp only: nuevo_ok mult.assoc)
qed

lemma texto_lee:
  assumes c: "capacidad_bytes (Texto e) w h = Some c" "length datos \<le> c"
    and i: "texto_imprimir e datos w h = Some hoja" and l: "copia_legible e hoja hoja'"
    and cx: "0 < w div (6 * e)"
  shows "texto_leer e hoja' (length datos) = Some datos"
proof -
  let ?cx = "w div (6 * e)" and ?s = "a_base32 datos" and ?K = "length datos * 8 div 5 + 1"
  have e: "0 < e" and hoja: "hoja = fold (poner_cuadrado e) (marcas_texto ?cx ?s) (lienzo_nuevo w h)"
    using texto_imprimir_marcas [OF i] by simp_all
  have dims: "li_ancho hoja' = w" "li_alto hoja' = h"
    using l marcas_misma [of w h e "marcas_texto ?cx ?s"]
    by (simp_all add: copia_legible_def hoja misma_hoja_def nuevo_ok)
  have s32: "\<And>s. s \<in> set ?s \<Longrightarrow> unat s < 32"
    using a_cinco_bits_less by (simp add: a_base32_def a_cinco_bits_def)
  have "c = ?cx * (h div (8 * e)) * 5 div 8"
    using c e by (simp add: Texto_def celdas_def ANCHO_CELDA_def ALTO_CELDA_def ANCHO_GLIFO_def ALTO_GLIFO_def)
  then have "8 * length datos \<le> 5 * (?cx * (h div (8 * e)))" using c(2) by simp
  then have tam: "length ?s \<le> ?cx * (h div (8 * e))" using length_a_base32(2) [of datos] by simp
  have K: "length ?s \<le> ?K" using length_a_base32(2) [of datos] by simp
  have leido: "plantilla (distancia_a e hoja' (i mod ?cx) (i div ?cx)) = ?s ! i" if "i < length ?s" for i
  proof -
    have u: "unat (?s ! i) < 32" using s32 that by simp
    have d: "distancia_a e hoja' (i mod ?cx) (i div ?cx) (FUENTE ! j) = entre_glifos (FUENTE ! unat (?s ! i)) (FUENTE ! j)"
      if "j < 32" for j
      unfolding distancia_a_def entre_glifos_def
    proof (intro arg_cong [where f = length] filter_cong refl, clarify)
      fix gx gy t assume "(gx, gy, t) \<in> set (puntos_de_glifo (FUENTE ! j))"
      then have "gx < 5" "gy < 7" using that FUENTE_forma by (simp_all add: puntos_iff)
      from punto_se_lee [OF s32 tam l [unfolded hoja] \<open>i < length ?s\<close> this]
      show "(mayoria e hoja' (i mod ?cx * ANCHO_CELDA + gx) (i div ?cx * ALTO_CELDA + gy) \<noteq> t) =
          (punto_de_glifo (FUENTE ! unat (?s ! i) ! gy) gx \<noteq> t)"
        by (simp add: ANCHO_CELDA_def ALTO_CELDA_def ANCHO_GLIFO_def ALTO_GLIFO_def)
    qed
    have "entre_glifos g g = 0" for g by (auto simp: entre_glifos_def puntos_iff filter_empty_conv)
    then have "plantilla (distancia_a e hoja' (i mod ?cx) (i div ?cx)) = of_nat (unat (?s ! i))"
      using d entre_glifos_0 u by (intro plantilla_cero) auto
    then show ?thesis by simp
  qed
  have "map (\<lambda>i. plantilla (distancia_a e hoja' (i mod ?cx) (i div ?cx))) [0..<?K] =
      map (\<lambda>i. plantilla (distancia_a e hoja' (i mod ?cx) (i div ?cx))) ([0..<length ?s] @ [length ?s..<?K])"
    using K upt_add_eq_append [OF le0, of "length ?s" "?K - length ?s"] by (simp del: upt_Suc)
  also have "\<dots> = ?s @ map (\<lambda>i. plantilla (distancia_a e hoja' (i mod ?cx) (i div ?cx))) [length ?s..<?K]"
    using leido by (simp only: map_append) (intro arg_cong2 [where f = append] refl nth_equalityI, simp_all)
  finally show ?thesis using e cx
    by (simp add: texto_leer_def celdas_def dims de_a_base32 ANCHO_CELDA_def ALTO_CELDA_def ANCHO_GLIFO_def ALTO_GLIFO_def
        del: upt_Suc)
qed

section \<open>The protected secret\<close>

lemma length_chunks_cong: "length d = length d' \<Longrightarrow> length (chunks k d) = length (chunks k d')"
proof (induction k d arbitrary: d' rule: chunks.induct)
  case (1 k d)
  show ?case
  proof (cases "d = [] \<or> k = 0")
    case True
    then show ?thesis using 1(2) by (auto simp: chunks.simps [of k])
  next
    case False
    then have "d' \<noteq> []" using 1(2) by auto
    then show ?thesis using False "1.IH" [of "drop k d'"] 1(2) by (simp add: chunks_step)
  qed
qed

lemma length_protect_cong:
  assumes R: "rs_ok R" and l: "length d = length d'"
  shows "length (protect R d p) = length (protect R d' p)"
proof -
  let ?p = "unat (clamp p)"
  have p: "2 \<le> ?p" "?p \<le> 128" using clamp_range by auto
  have "length (concat (map (rs_encode R ?p) (chunks (255 - ?p) d))) = length d + ?p * length (chunks (255 - ?p) d)" for d
  proof -
    have "length (rs_encode R ?p x) = length x + ?p" if "x \<in> set (chunks (255 - ?p) d)" for x
    proof -
      have "length x + ?p \<le> 255" using length_in_chunks [OF that] p by linarith
      then show ?thesis using rs_okD(1) [OF R p] by simp
    qed
    then have "length (concat (map (rs_encode R ?p) xs)) = length (concat xs) + ?p * length xs"
      if "set xs \<subseteq> set (chunks (255 - ?p) d)" for xs
      using that by (induction xs) auto
    from this [OF subset_refl] show ?thesis using p by (simp add: concat_chunks)
  qed
  then show ?thesis using length_chunks_cong [OF l] l by (simp add: protect_def Let_def)
qed

lemma buscar_carga_cabe:
  assumes R: "rs_ok R" and "0 < buscar_carga R p c n" "length d = buscar_carga R p c n"
  shows "length (protect R d p) \<le> c"
proof -
  have "0 < buscar_carga R p c n \<Longrightarrow> length (protect R (replicate (buscar_carga R p c n) 0) p) \<le> c"
    by (induction n) (auto simp: not_less)
  then show ?thesis using assms length_protect_cong [OF R, of d "replicate (length d) 0"] by simp
qed

lemma recover_intacto:
  assumes "rs_ok R" "length d < 2 ^ 32"
  shows "recover R (protect R d p) = Some (Some d)"
  by (rule recover_protect [OF assms refl]) (simp_all add: ventanas_def)

section \<open>The contract of a carrier and the measurement\<close>

text \<open>
  What \<^verbatim>\<open>trait Portador\<close> is meant to promise: within its capacity it prints, and it reads the same bytes off
  every copy that is legible at the side of its smallest feature.
\<close>

locale portador_fiel =
  fixes P :: portador and rasgo :: nat
  assumes imprime: "capacidad_bytes P w h = Some c \<Longrightarrow> 0 < c \<Longrightarrow> length datos \<le> c \<Longrightarrow>
      \<exists>hoja. po_imprimir P datos w h = Some hoja \<and> li_ok hoja"
    and lee: "capacidad_bytes P w h = Some c \<Longrightarrow> 0 < c \<Longrightarrow> length datos \<le> c \<Longrightarrow>
      po_imprimir P datos w h = Some hoja \<Longrightarrow> copia_legible rasgo hoja hoja' \<Longrightarrow>
      po_leer P hoja' (length datos) = Some datos"
begin

lemma bucle_sin_fallos:
  assumes R: "rs_ok R" and c: "capacidad_bytes P w h = Some c" "c < 2 ^ 32"
    and cg: "\<And>d. length d = cg \<Longrightarrow> length (protect R d paridad) \<le> c"
    and copia: "\<And>hoja g. li_ok hoja \<Longrightarrow> copia_legible rasgo hoja (fst (aplicar rd copia hoja g))"
  shows "\<exists>g'. medir_loop rd R P w h paridad cg copia n g ex = Some (ex + n, g')"
proof (induction n arbitrary: g ex)
  case (Suc n)
  obtain d g1 where d: "rng_bytes cg g = (d, g1)" by fastforce
  let ?p = "protect R d paridad"
  have l: "length d = cg" using rng_bytes_length [OF d] .
  have p: "length ?p \<le> c" "0 < c" "length d < 2 ^ 32"
    using cg [OF l] length_protect [OF R, of d paridad] c(2) by simp_all
  obtain hoja where hoja: "po_imprimir P ?p w h = Some hoja" "li_ok hoja" using imprime [OF c(1) p(2,1)] by blast
  obtain hoja' g2 where a: "aplicar rd copia hoja g1 = (hoja', g2)" by fastforce
  have "po_leer P hoja' (length ?p) = Some ?p"
    using lee [OF c(1) p(2,1) hoja(1)] copia [OF hoja(2), of g1] a by simp
  moreover have "recover R ?p = Some (Some d)" by (rule recover_intacto [OF R p(3)])
  ultimately show ?case using Suc [of g2 "ex + 1"] d hoja(1) a by simp
qed simp

lemma medir_sin_fallos:
  assumes R: "rs_ok R" and c: "capacidad_bytes P w h = Some c" "c < 2 ^ 32"
    and cg: "0 < buscar_carga R (paridad_de rd pct) c c"
    and copia: "\<And>hoja g. li_ok hoja \<Longrightarrow> copia_legible rasgo hoja (fst (aplicar rd copia hoja g))"
  shows "\<exists>g'. medir rd R P w h pct copia n g =
    Some (\<lparr>co_portador = po_nombre P, carga_util = buscar_carga R (paridad_de rd pct) c c, intentos = n, exitos = n\<rparr>, g')"
  using bucle_sin_fallos [OF R c, of "buscar_carga R (paridad_de rd pct) c c" "paridad_de rd pct" rd copia n g 0]
    buscar_carga_cabe [OF R cg] copia c(1) by (auto simp: medir_def Let_def)

end

text \<open>Both carriers keep it, each at the side of its own smallest feature.\<close>

interpretation matriz: portador_fiel "Matriz lado" lado for lado
proof
  fix w h c datos
  assume c: "capacidad_bytes (Matriz lado) w h = Some c" "0 < c"
  then have lado: "0 < lado" "0 < w div lado"
    by (cases lado; cases "w div lado"; simp add: Matriz_def modulos_def)+
  then show "\<exists>hoja. po_imprimir (Matriz lado) datos w h = Some hoja \<and> li_ok hoja"
    using marcas_misma by (auto simp: Matriz_def matriz_imprimir_def modulos_def fold_marcas misma_hoja_def)
next
  fix w h c datos hoja hoja'
  assume "capacidad_bytes (Matriz lado) w h = Some c" "length datos \<le> c"
    "po_imprimir (Matriz lado) datos w h = Some hoja" "copia_legible lado hoja hoja'"
  then show "po_leer (Matriz lado) hoja' (length datos) = Some datos"
    using matriz_lee [of lado w h c datos hoja hoja'] by (simp add: Matriz_def)
qed

interpretation texto: portador_fiel "Texto escala" escala for escala
proof
  have cx: "0 < escala \<and> 0 < w div (6 * escala)"
    if "capacidad_bytes (Texto escala) w h = Some c" "0 < c" for w h c
    using that by (cases escala; cases "w div (6 * escala)")
      (simp_all add: Texto_def celdas_def ANCHO_CELDA_def ALTO_CELDA_def ANCHO_GLIFO_def ALTO_GLIFO_def)
  fix w h c datos
  assume c: "capacidad_bytes (Texto escala) w h = Some c" "0 < c"
  have "po_imprimir (Texto escala) datos w h =
      Some (fold (poner_cuadrado escala) (marcas_texto (w div (6 * escala)) (a_base32 datos)) (lienzo_nuevo w h))"
    using cx [OF c] by (simp add: Texto_def texto_imprimir_def celdas_def marcas_texto_def fold_concat fold_map comp_def
        case_prod_beta' Let_def ANCHO_CELDA_def ALTO_CELDA_def ANCHO_GLIFO_def ALTO_GLIFO_def)
  then show "\<exists>hoja. po_imprimir (Texto escala) datos w h = Some hoja \<and> li_ok hoja"
    using marcas_misma by (auto simp: misma_hoja_def)
  fix hoja hoja'
  assume "length datos \<le> c" "po_imprimir (Texto escala) datos w h = Some hoja" "copia_legible escala hoja hoja'"
  then show "po_leer (Texto escala) hoja' (length datos) = Some datos"
    using texto_lee [OF c(1), of datos hoja hoja'] cx [OF c] by (simp add: Texto_def)
qed

text \<open>At the same side, more fits in modules than in text.\<close>

lemma matriz_lleva_mas:
  assumes "capacidad_bytes (Texto r) w h = Some t" "capacidad_bytes (Matriz r) w h = Some m"
  shows "t \<le> m"
proof -
  let ?A = "w div r" and ?B = "h div r"
  have a: "w div (6 * r) * 6 \<le> ?A" "h div (8 * r) * 8 \<le> ?B"
    by (simp_all add: mult.commute [of _ r] div_mult2_eq)
  have "w div (6 * r) * (h div (8 * r)) * 5 \<le> (w div (6 * r) * 6) * (h div (8 * r) * 8)" by simp
  also have "\<dots> \<le> ?A * ?B" using a by (rule mult_le_mono)
  finally show ?thesis using assms
    by (auto simp: Texto_def Matriz_def celdas_def modulos_def ANCHO_CELDA_def ALTO_CELDA_def ANCHO_GLIFO_def ALTO_GLIFO_def
        intro!: div_le_mono split: if_splits)
qed

section \<open>Copies\<close>

text \<open>One dot that changes leaves a copy legible, if the squares have more than one dot.\<close>

lemma distinct_cuadrado: "distinct (cuadrado r a b)"
proof -
  have "distinct (concat (map (\<lambda>dy. map (\<lambda>dx. (a * r + dx, b * r + dy)) [0..<r]) ys))" if "distinct ys" for ys
    using that by (induction ys) (auto simp: distinct_map inj_on_def)
  then show ?thesis by (simp add: cuadrado_def)
qed

lemma una_mota_legible:
  assumes "li_ok l" "2 < r * r"
  shows "copia_legible r l (poner x y t l)"
proof -
  have "cambiados r l (poner x y t l) a b \<le> 1" for a b
  proof -
    let ?d = "filter (\<lambda>(x', y'). tinta l x' y' \<noteq> tinta (poner x y t l) x' y') (cuadrado r a b)"
    have "set ?d \<subseteq> {(x, y)}" by (auto simp: tinta_poner [OF assms(1)] split: if_splits)
    then have "card (set ?d) \<le> 1" using card_mono [of "{(x, y)}" "set ?d"] by simp
    then show ?thesis unfolding cambiados_def using distinct_card [OF distinct_filter [OF distinct_cuadrado]] by metis
  qed
  then have "2 * cambiados r l (poner x y t l) a b < r * r" for a b
    using assms(2) by (metis le_less_trans mult_le_mono2 nat_mult_1_right)
  then show ?thesis using poner_misma [OF assms(1), of x y t] by (simp add: copia_legible_def misma_hoja_def)
qed

text \<open>A clean copy is the sheet.\<close>

lemma tinta_fold_poner_f:
  "li_ok l \<Longrightarrow> tinta (fold (\<lambda>(x, y). poner x y (f x y)) ps l) x' y' =
    (if (x', y') \<in> set ps \<and> x' < li_ancho l \<and> y' < li_alto l then f x' y' else tinta l x' y')"
proof (induction ps arbitrary: l)
  case (Cons p ps)
  obtain x y where p: "p = (x, y)" by force
  have m: "misma_hoja l (poner x y (f x y) l)" using poner_misma Cons.prems .
  then show ?case using Cons.IH [of "poner x y (f x y) l"] Cons.prems
    by (auto simp: p misma_hoja_def tinta_poner)
qed simp

lemma copiar_puntos_limpia:
  assumes rd: "f64_ok rd" "rd 1 = 1"
  shows "copiar_puntos rd limpia entrada ps g salida = (fold (\<lambda>(x, y). poner x y (tinta entrada x y)) ps salida, g)"
proof (induction ps arbitrary: salida)
  case (Cons p ps)
  obtain x y where p: "p = (x, y)" by force
  have "vecinos_con_tinta 0 entrada x y = (if tinta entrada x y then 1 else 0)"
    by (simp add: vecinos_con_tinta_def)
  then have "1 / 2 \<le> rd (of_nat (vecinos_con_tinta 0 entrada x y) / rd (1 * 1)) \<longleftrightarrow> tinta entrada x y"
    using rd(2) f64_okD(3) [OF rd(1)] by simp
  then show ?case using Cons by (simp add: p limpia_def Let_def)
qed simp

lemma aplicar_limpia:
  assumes "f64_ok rd" "rd 1 = 1" "0 < r"
  shows "copia_legible r l (fst (aplicar rd limpia l g))"
proof -
  let ?ps = "concat (map (\<lambda>y. map (\<lambda>x. (x, y)) [0..<li_ancho l]) [0..<li_alto l])"
  let ?l' = "fold (\<lambda>(x, y). poner x y (tinta l x y)) ?ps (lienzo_nuevo (li_ancho l) (li_alto l))"
  have e: "fst (aplicar rd limpia l g) = ?l'"
    by (simp add: aplicar_def copiar_puntos_limpia [OF assms(1,2)]) (simp add: limpia_def)
  have "misma_hoja (lienzo_nuevo (li_ancho l) (li_alto l)) ?l'"
    by (rule fold_misma [OF nuevo_ok(1)]) (auto intro: poner_misma)
  moreover have "tinta ?l' x y = tinta l x y" for x y
    by (subst tinta_fold_poner_f [OF nuevo_ok(1)])
      (auto simp: nuevo_ok tinta_def lienzo_nuevo_def image_iff intro!: bexI [of _ y])
  ultimately show ?thesis using assms(3) unfolding e by (simp add: copia_legible_def misma_hoja_def nuevo_ok cambiados_def)
qed

text \<open>So the control of the measurement holds: over a clean copy every attempt recovers the secret.\<close>

lemma control_sin_degradar:
  assumes rd: "f64_ok rd" "rd 1 = 1" and R: "rs_ok R" and P: "P = Matriz r \<or> P = Texto r"
    and c: "capacidad_bytes P w h = Some c" "c < 2 ^ 32" and cg: "0 < buscar_carga R (paridad_de rd pct) c c"
  shows "\<exists>co g'. medir rd R P w h pct limpia n g = Some (co, g') \<and> exitos co = n \<and> intentos co = n \<and>
    \<not> vacia co \<and> (0 < n \<longrightarrow> fiable rd co)"
proof -
  have r: "0 < r" using P c(1) by (cases r) (auto simp: Matriz_def Texto_def modulos_def celdas_def)
  have "\<exists>g'. medir rd R P w h pct limpia n g =
      Some (\<lparr>co_portador = po_nombre P, carga_util = buscar_carga R (paridad_de rd pct) c c, intentos = n, exitos = n\<rparr>, g')"
    using P
  proof
    assume "P = Matriz r"
    then show ?thesis using matriz.medir_sin_fallos [OF R _ c(2) cg] c(1) aplicar_limpia [OF rd r] by blast
  next
    assume "P = Texto r"
    then show ?thesis using texto.medir_sin_fallos [OF R _ c(2) cg] c(1) aplicar_limpia [OF rd r] by blast
  qed
  moreover have "rd (95 / 100) \<le> rd 1" by (rule f64_okD(1) [OF rd(1)]) simp
  ultimately show ?thesis using cg rd(2) by (auto simp: vacia_def fiable_def tasa_def)
qed

text \<open>
  A sheet narrower than one cell has no columns: the measurement divides by zero, where \<open>vacia\<close> is
  meant to report that nothing fitted.
\<close>

lemma medir_sin_columnas:
  assumes "rs_ok R" "w < 6 * e"
  shows "medir rd R (Texto e) w h pct copia (Suc n) g = None"
proof -
  have "w div (6 * e) = 0" using assms(2) by simp
  then have "texto_imprimir e (protect R d p) w h = None" for d p
    using assms protect_ne [OF assms(1)]
    by (simp add: texto_imprimir_def celdas_def ANCHO_CELDA_def ANCHO_GLIFO_def)
  then show ?thesis
    by (auto simp: medir_def Texto_def Let_def split: option.splits prod.splits)
qed

text \<open>
  C37.  Both carriers of \<^verbatim>\<open>lab/papel.rs\<close> survive the same damage: what is printed within the capacity of a
  sheet is read back from every copy in which, of each square the size of the smallest feature, less
  than half of the dots changed, whether the square is a module or a dot of a letter; and at the same
  feature the text never holds more than the modules.
\<close>
theorem carriers_read_legible_copies:
  assumes "P = Matriz r \<or> P = Texto r" and "capacidad_bytes P w h = Some c" "0 < c" "length datos \<le> c"
    and "po_imprimir P datos w h = Some hoja" "copia_legible r hoja hoja'"
  shows "po_leer P hoja' (length datos) = Some datos \<and>
    (\<forall>t m. capacidad_bytes (Texto r) w h = Some t \<longrightarrow> capacidad_bytes (Matriz r) w h = Some m \<longrightarrow> t \<le> m)"
  using assms matriz.lee [of r w h c datos hoja hoja'] texto.lee [of r w h c datos hoja hoja'] matriz_lleva_mas
  by blast

text \<open>A byte in modules of side two, with a dot of the first one lost.\<close>

theorem carriers_read_legible_copies_witness:
  "\<exists>hoja. matriz_imprimir 2 [0xA5] 16 2 = Some hoja \<and> tinta hoja 0 1 \<and>
    matriz_leer 2 (poner 0 1 False hoja) 1 = Some [0xA5]"
proof -
  have c: "capacidad_bytes (Matriz 2) 16 2 = Some 1" by (simp add: Matriz_def modulos_def)
  obtain hoja where hoja: "matriz_imprimir 2 [0xA5] 16 2 = Some hoja" "li_ok hoja"
    using matriz.imprime [OF c, of "[0xA5]"] by (auto simp: Matriz_def)
  have "tinta (the (matriz_imprimir 2 [0xA5] 16 2)) 0 1" by code_simp
  then have "tinta hoja 0 1" using hoja(1) by simp
  moreover have "copia_legible 2 hoja (poner 0 1 False hoja)"
    by (rule una_mota_legible [OF hoja(2)]) simp
  then have "po_leer (Matriz 2) (poner 0 1 False hoja) (length [0xA5 :: u8]) = Some [0xA5]"
    using carriers_read_legible_copies [of "Matriz 2" 2 16 2 1 "[0xA5]" hoja] c hoja(1) by (simp add: Matriz_def)
  ultimately show ?thesis using hoja(1) by (auto simp: Matriz_def)
qed

end
