(* ===== verification/Distinguidor.thy ===== *)
theory Distinguidor
  imports Laboratorio Plans
begin

text \<open>
  The distinguishers of the laboratory, \<^verbatim>\<open>src/src/lab/distinguidor.rs\<close>, and the bench that turns their
  measurements into a verdict, \<^verbatim>\<open>src/src/lab/indistinguibilidad.rs\<close>.  As in Plans an \<^verbatim>\<open>f64\<close> is a rational
  number and \<open>rd\<close> the rounding of an operation; \<^verbatim>\<open>exp\<close> and \<^verbatim>\<open>sqrt\<close> are parameters.  Infinities and
  the two zeros are not in the model.
\<close>

record flotante =
  rd :: "rat \<Rightarrow> f64"
  fexp :: "f64 \<Rightarrow> f64"
  fsqrt :: "f64 \<Rightarrow> f64"

section \<open>Features\<close>

definition RASGOS :: nat where
  "RASGOS = 12"

definition EPOCAS :: nat where
  "EPOCAS = 300"

definition TASA :: f64 where
  "TASA = 1 / 2"

text \<open>\<^verbatim>\<open>.sum::<f64>()\<close>: one after the other, with rounding.\<close>

definition suma_f64 :: "flotante \<Rightarrow> f64 list \<Rightarrow> f64" where
  "suma_f64 fl xs = fold (\<lambda>x acc. rd fl (acc + x)) xs 0"

definition count_ones :: "u8 \<Rightarrow> nat" where
  "count_ones b = length (filter (\<lambda>i. drop_bit i b AND 1 = 1) [0..<8])"

definition rasgos :: "flotante \<Rightarrow> bytes \<Rightarrow> f64 list" where
  "rasgos fl muestra =
     (let n = of_nat (max (length muestra) 1);
          unos = sum_list (map count_ones muestra);
          monobit = rd fl (of_nat unos / rd fl (n * 8));
          por_bit = map (\<lambda>i. rd fl (suma_f64 fl (map (\<lambda>b. of_nat (unat (drop_bit i b AND 1))) muestra) / n)) [0..<8];
          hist = (\<lambda>v. length (filter (\<lambda>b. unat b = v) muestra));
          esperado = rd fl (n / 256);
          chi2 = rd fl (suma_f64 fl (map (\<lambda>v.
                   let d = rd fl (of_nat (hist v) - esperado)
                   in rd fl (rd fl (d * d) / max esperado (rd fl (1 / 10 ^ 9)))) [0..<256]) / 255);
          ventanas = zip muestra (tl muestra);
          repes = rd fl (of_nat (length (filter (\<lambda>(x, y). x = y) ventanas)) / of_nat (max (length muestra) 2 - 1));
          val = (\<lambda>b :: u8. of_nat (unat b));
          media = rd fl (suma_f64 fl (map val muestra) / n);
          num = suma_f64 fl (map (\<lambda>(x, y). rd fl (rd fl (val x - media) * rd fl (val y - media))) ventanas);
          den = suma_f64 fl (map (\<lambda>b. rd fl (rd fl (val b - media) * rd fl (val b - media))) muestra);
          serial = (if 0 < den then rd fl (num / den) else 0)
      in [monobit] @ por_bit @ [chi2, repes, serial])"

section \<open>The verdict of one measurement\<close>

record veredicto =
  acierto :: f64
  evaluadas :: nat
  sigma :: f64

definition sigmas :: "flotante \<Rightarrow> veredicto \<Rightarrow> f64" where
  "sigmas fl v = (if sigma v \<le> 0 then 0 else rd fl (rd fl (acierto v - 1 / 2) / sigma v))"

definition distingue :: "flotante \<Rightarrow> veredicto \<Rightarrow> bool" where
  "distingue fl v \<longleftrightarrow> 3 \<le> sigmas fl v"

definition RONDAS :: nat where
  "RONDAS = 3"

definition RONDAS_PARA_ACUSAR :: nat where
  "RONDAS_PARA_ACUSAR = 2"

record veredicto_repetido =
  peor :: veredicto
  rondas_que_acusan :: nat

definition vr_distingue :: "veredicto_repetido \<Rightarrow> bool" where
  "vr_distingue vr \<longleftrightarrow> RONDAS_PARA_ACUSAR \<le> rondas_que_acusan vr"

text \<open>The experiment is a step over a state of its own (\<^verbatim>\<open>impl FnMut\<close>).\<close>

primrec repetir :: "('s \<Rightarrow> veredicto \<times> 's) \<Rightarrow> nat \<Rightarrow> 's \<Rightarrow> veredicto list \<times> 's" where
  "repetir experimento 0 s = ([], s)"
| "repetir experimento (Suc n) s =
     (case experimento s of (v, s) \<Rightarrow> case repetir experimento n s of (vs, s) \<Rightarrow> (v # vs, s))"

text \<open>A stable sort, the largest \<open>sigmas\<close> first.\<close>

definition medir_repetido :: "flotante \<Rightarrow> ('s \<Rightarrow> veredicto \<times> 's) \<Rightarrow> 's \<Rightarrow> veredicto_repetido \<times> 's" where
  "medir_repetido fl experimento s =
     (case repetir experimento RONDAS s of (veredictos, s) \<Rightarrow>
        let n = length (filter (distingue fl) veredictos);
            veredictos = sort_key (\<lambda>v. - sigmas fl v) veredictos
        in (\<lparr>peor = hd veredictos, rondas_que_acusan = n\<rparr>, s))"

section \<open>The trained adversary\<close>

definition producto :: "flotante \<Rightarrow> f64 list \<Rightarrow> f64 list \<Rightarrow> f64" where
  "producto fl x pesos = suma_f64 fl (map2 (\<lambda>a b. rd fl (a * b)) x pesos)"

definition sigmoide :: "flotante \<Rightarrow> f64 \<Rightarrow> f64" where
  "sigmoide fl z = rd fl (1 / rd fl (1 + fexp fl (- z)))"

text \<open>The mean and the deviation of the training set, one feature after the other.\<close>

definition media_de :: "flotante \<Rightarrow> f64 \<Rightarrow> f64 list list \<Rightarrow> f64 list" where
  "media_de fl tot xs = map (\<lambda>i. suma_f64 fl (map (\<lambda>x. rd fl (x ! i / tot)) xs)) [0..<RASGOS]"

definition desv_de :: "flotante \<Rightarrow> f64 \<Rightarrow> f64 list \<Rightarrow> f64 list list \<Rightarrow> f64 list" where
  "desv_de fl tot media xs =
     map (\<lambda>i. max (fsqrt fl (suma_f64 fl (map (\<lambda>x.
            let d = rd fl (x ! i - media ! i) in rd fl (rd fl (d * d) / tot)) xs)))
          (rd fl (1 / 10 ^ 9))) [0..<RASGOS]"

definition normalizar_rasgos :: "flotante \<Rightarrow> f64 list \<Rightarrow> f64 list \<Rightarrow> f64 list \<Rightarrow> f64 list" where
  "normalizar_rasgos fl media desv x =
     map (\<lambda>i. rd fl (rd fl (x ! i - media ! i) / desv ! i)) [0..<RASGOS]"

text \<open>One pass of gradient descent over both labelled sets.\<close>

definition epoca ::
  "flotante \<Rightarrow> f64 \<Rightarrow> (f64 list \<Rightarrow> f64 list) \<Rightarrow> (f64 list \<times> f64) list \<Rightarrow> f64 list \<times> f64 \<Rightarrow> f64 list \<times> f64" where
  "epoca fl tot norma etiquetados = (\<lambda>(pesos, sesgo).
     let (grad, grad_sesgo) = fold (\<lambda>(x, etiqueta) (grad, grad_sesgo).
           let x = norma x;
               z = rd fl (producto fl x pesos + sesgo);
               err = rd fl (sigmoide fl z - etiqueta)
           in (map2 (\<lambda>g xi. rd fl (g + rd fl (rd fl (err * xi) / tot))) grad x,
               rd fl (grad_sesgo + rd fl (err / tot))))
         etiquetados (replicate RASGOS 0, 0)
     in (map2 (\<lambda>p g. rd fl (p - rd fl (TASA * g))) pesos grad, rd fl (sesgo - rd fl (TASA * grad_sesgo))))"

definition predice :: "flotante \<Rightarrow> (f64 list \<Rightarrow> f64 list) \<Rightarrow> f64 list \<times> f64 \<Rightarrow> f64 list \<Rightarrow> bool" where
  "predice fl norma modelo x \<longleftrightarrow> 0 < rd fl (producto fl (norma x) (fst modelo) + snd modelo)"

text \<open>The end of \<open>entrenar_y_evaluar\<close>: hits on the samples that were held back.\<close>

definition evaluar_modelo :: "flotante \<Rightarrow> (f64 list \<Rightarrow> bool) \<Rightarrow> f64 list list \<Rightarrow> f64 list list \<Rightarrow> veredicto" where
  "evaluar_modelo fl P ev_a ev_b =
     (let aciertos = length (filter P ev_a) + length (filter (\<lambda>x. \<not> P x) ev_b);
          ev = length ev_a + length ev_b
      in \<lparr>acierto = rd fl (of_nat aciertos / of_nat (max ev 1)), evaluadas = ev,
          sigma = (if 0 < ev then fsqrt fl (rd fl ((1 / 4) / of_nat ev)) else 0)\<rparr>)"

definition entrenar_y_evaluar :: "flotante \<Rightarrow> bytes list \<Rightarrow> bytes list \<Rightarrow> veredicto" where
  "entrenar_y_evaluar fl a b =
     (let n = min (length a) (length b)
      in if n < 4 then \<lparr>acierto = 1 / 2, evaluadas = 0, sigma = 0\<rparr>
         else
           let corte = n div 2;
               extraer = (\<lambda>v desde hasta. map (rasgos fl) (slice desde hasta v));
               tr_a = extraer a 0 corte; tr_b = extraer b 0 corte;
               ev_a = extraer a corte n; ev_b = extraer b corte n;
               tot = of_nat (length tr_a + length tr_b);
               media = media_de fl tot (tr_a @ tr_b);
               desv = desv_de fl tot media (tr_a @ tr_b);
               norma = normalizar_rasgos fl media desv;
               etiquetados = map (\<lambda>x. (x, 1)) tr_a @ map (\<lambda>x. (x, 0)) tr_b;
               modelo = (epoca fl tot norma etiquetados ^^ EPOCAS) (replicate RASGOS 0, 0)
           in evaluar_modelo fl (predice fl norma modelo) ev_a ev_b)"

section \<open>Positions\<close>

record sesgo_posicional =
  sp_posicion :: nat
  repeticiones :: nat
  sp_umbral :: nat
  sp_muestras :: nat

definition delata :: "sesgo_posicional \<Rightarrow> bool" where
  "delata s \<longleftrightarrow> 0 < sp_muestras s \<and> sp_umbral s \<le> repeticiones s"

text \<open>The loop over \<open>k\<close>, with what is left of the range.\<close>

primrec umbral_loop :: "flotante \<Rightarrow> f64 \<Rightarrow> f64 \<Rightarrow> nat \<Rightarrow> nat \<Rightarrow> nat \<Rightarrow> f64 \<Rightarrow> f64 \<Rightarrow> nat" where
  "umbral_loop fl lambda rejilla muestras 0 k termino cola = max muestras 3"
| "umbral_loop fl lambda rejilla muestras (Suc m) k termino cola =
     (let cola = rd fl (cola - termino)
      in if rd fl (rejilla * cola) < rd fl (1 / 100) then max k 3
         else umbral_loop fl lambda rejilla muestras m (k + 1)
                (rd fl (termino * rd fl (lambda / of_nat k))) cola)"

definition umbral_posicional :: "flotante \<Rightarrow> nat \<Rightarrow> nat \<Rightarrow> nat" where
  "umbral_posicional fl muestras largo =
     (let lambda = rd fl (of_nat muestras / 256);
          rejilla = rd fl (of_nat largo * 256)
      in umbral_loop fl lambda rejilla muestras muestras 1 (fexp fl (- lambda)) 1)"

definition cuenta_maxima :: "bytes list \<Rightarrow> nat \<Rightarrow> nat" where
  "cuenta_maxima muestras p = Max (set (map (\<lambda>v. length (filter (\<lambda>m. unat (m ! p) = v) muestras)) [0..<256]))"

definition posicion_mas_delatora :: "flotante \<Rightarrow> bytes list \<Rightarrow> sesgo_posicional" where
  "posicion_mas_delatora fl muestras =
     (let largo = (if muestras = [] then 0 else Min (set (map length muestras)));
          n = length muestras
      in if largo = 0 \<or> n = 0
         then \<lparr>sp_posicion = 0, repeticiones = 0, sp_umbral = 2 ^ 64 - 1, sp_muestras = 0\<rparr>
         else
           let umbral = umbral_posicional fl n largo;
               (peor_pos, peor_rep) = fold (\<lambda>p (peor_pos, peor_rep).
                   let rep = cuenta_maxima muestras p
                   in if peor_rep < rep then (p, rep) else (peor_pos, peor_rep)) [0..<largo] (0, 0)
           in \<lparr>sp_posicion = peor_pos, repeticiones = peor_rep, sp_umbral = umbral, sp_muestras = n\<rparr>)"

section \<open>Samples\<close>

primrec muestras_pseudoaleatorias :: "nat \<Rightarrow> nat \<Rightarrow> u64 \<Rightarrow> bytes list \<times> u64" where
  "muestras_pseudoaleatorias 0 largo g = ([], g)"
| "muestras_pseudoaleatorias (Suc n) largo g =
     (case rng_bytes largo g of (m, g) \<Rightarrow>
        case muestras_pseudoaleatorias n largo g of (ms, g) \<Rightarrow> (m # ms, g))"

primrec claro_sembrado :: "nat \<Rightarrow> u64 \<Rightarrow> bytes \<times> u64" where
  "claro_sembrado 0 g = ([], g)"
| "claro_sembrado (Suc n) g =
     (case rng_below 5 g of (x, g) \<Rightarrow>
        case (if x = 0 then (32, g) else case rng_byte g of (b, g) \<Rightarrow> (97 + b mod 26, g)) of (c, g) \<Rightarrow>
          case claro_sembrado n g of (cs, g) \<Rightarrow> (c # cs, g))"

primrec muestras_con_fuga_sembrada :: "nat \<Rightarrow> nat \<Rightarrow> u64 \<Rightarrow> bytes list \<times> u64" where
  "muestras_con_fuga_sembrada 0 largo g = ([], g)"
| "muestras_con_fuga_sembrada (Suc n) largo g =
     (case claro_sembrado largo g of (claro, g) \<Rightarrow>
        case rng_bytes 3 g of (clave, g) \<Rightarrow>
          case muestras_con_fuga_sembrada n largo g of (ms, g) \<Rightarrow>
            (map (\<lambda>(i, c). c XOR clave ! (i mod length clave)) (enumerate 0 claro) # ms, g))"

section \<open>The bench\<close>

datatype senal = Tiempo | Ciphertext | ErrorSenal

datatype resultado = Indistinguible | Fuga | NoConcluyente

record ficha =
  propiedad :: string
  fi_senal :: senal
  estadistico :: string
  fi_sigmas :: f64
  fi_umbral :: f64
  fi_muestras :: nat
  fi_resultado :: resultado

definition fi_distingue :: "ficha \<Rightarrow> bool" where
  "fi_distingue v \<longleftrightarrow> fi_resultado v = Fuga"

definition concluyente :: "ficha \<Rightarrow> bool" where
  "concluyente v \<longleftrightarrow> fi_resultado v \<noteq> NoConcluyente"

definition holgura :: "flotante \<Rightarrow> ficha \<Rightarrow> f64" where
  "holgura fl v = (if fi_umbral v \<le> 0 then 0 else rd fl (fi_sigmas v / fi_umbral v))"

text \<open>\<^verbatim>\<open>timing::DudectReport\<close>: Welch's statistic of two classes of times and the size of the smaller.\<close>

record dudect_report =
  du_name :: string
  du_t :: f64
  du_n :: nat

definition DUDECT_T_THRESHOLD :: f64 where
  "DUDECT_T_THRESHOLD = 10"

definition is_constant_time :: "dudect_report \<Rightarrow> f64 \<Rightarrow> bool" where
  "is_constant_time r threshold \<longleftrightarrow> \<bar>du_t r\<bar> \<le> threshold"

definition desde_dudect :: "dudect_report \<Rightarrow> ficha" where
  "desde_dudect r =
     (let sg = \<bar>du_t r\<bar>;
          res = (if du_n r < 200 then NoConcluyente
                 else if DUDECT_T_THRESHOLD < sg then Fuga else Indistinguible)
      in \<lparr>propiedad = du_name r, fi_senal = Tiempo, estadistico = ''Welch-t (dudect)'', fi_sigmas = sg,
          fi_umbral = DUDECT_T_THRESHOLD, fi_muestras = du_n r, fi_resultado = res\<rparr>)"

definition desde_bytes :: "flotante \<Rightarrow> string \<Rightarrow> senal \<Rightarrow> veredicto_repetido \<Rightarrow> ficha" where
  "desde_bytes fl prop sen vr =
     (let res = (if evaluadas (peor vr) = 0 then NoConcluyente
                 else if vr_distingue vr then Fuga else Indistinguible)
      in \<lparr>propiedad = prop, fi_senal = sen, estadistico = ''regresion logistica (mayoria 2/3)'',
          fi_sigmas = sigmas fl (peor vr), fi_umbral = 3, fi_muestras = evaluadas (peor vr), fi_resultado = res\<rparr>)"

definition hay_fuga :: "ficha list \<Rightarrow> bool" where
  "hay_fuga vs \<longleftrightarrow> list_ex fi_distingue vs"

definition hay_inconcluso :: "ficha list \<Rightarrow> bool" where
  "hay_inconcluso vs \<longleftrightarrow> list_ex (\<lambda>v. \<not> concluyente v) vs"

text \<open>\<^verbatim>\<open>max_by\<close>: the last of the largest.\<close>

definition peor_ficha :: "flotante \<Rightarrow> ficha list \<Rightarrow> ficha option" where
  "peor_ficha fl vs =
     fold (\<lambda>v m. case m of None \<Rightarrow> Some v
             | Some w \<Rightarrow> Some (if holgura fl w \<le> holgura fl v then v else w)) vs None"

definition limpio :: "ficha list \<Rightarrow> bool" where
  "limpio vs \<longleftrightarrow> vs \<noteq> [] \<and> \<not> hay_fuga vs \<and> \<not> hay_inconcluso vs"

text \<open>A probe is a step over a state they share.\<close>

fun evaluar_banco :: "('s \<Rightarrow> ficha \<times> 's) list \<Rightarrow> 's \<Rightarrow> ficha list \<times> 's" where
  "evaluar_banco [] s = ([], s)"
| "evaluar_banco (sonda # sondas) s =
     (case sonda s of (v, s) \<Rightarrow> case evaluar_banco sondas s of (vs, s) \<Rightarrow> (v # vs, s))"

section \<open>What the adversary can and cannot say\<close>

text \<open>
  Against itself: two equal populations are never told apart.  Whatever model the training ends in, it is
  right about one half exactly where it is wrong about the other.
\<close>

lemma evaluar_modelo_iguales:
  assumes "rd fl (1 / 2) = 1 / 2" "0 < length xs"
  shows "acierto (evaluar_modelo fl P xs xs) = 1 / 2"
proof -
  have m: "max (length xs + length xs) 1 = 2 * length xs" using assms(2) by (cases xs) auto
  have "(of_nat (length xs) :: rat) / of_nat (2 * length xs) = 1 / 2" using assms(2) by simp
  then show ?thesis unfolding evaluar_modelo_def Let_def sum_length_filter_compl m
    by (simp only: assms(1) veredicto.simps)
qed

lemma mismas_muestras:
  assumes "rd fl (1 / 2) = 1 / 2"
  shows "acierto (entrenar_y_evaluar fl a a) = 1 / 2"
proof (cases "length a < 4")
  case False
  then have "0 < length (map (rasgos fl) (slice (length a div 2) (length a) a))" by (simp add: slice_def)
  from evaluar_modelo_iguales [OF assms this] show ?thesis
    unfolding entrenar_y_evaluar_def Let_def min.idem if_not_P [OF False] .
qed (simp add: entrenar_y_evaluar_def Let_def)

lemma mismas_muestras_no_distinguen:
  assumes "rd fl (1 / 2) = 1 / 2" "rd fl 0 = 0"
  shows "\<not> distingue fl (entrenar_y_evaluar fl a a)"
  by (simp add: distingue_def sigmas_def mismas_muestras [OF assms(1)] assms(2))

text \<open>A measurement repeated: the worst round is the worst, and one round alone does not accuse.\<close>

lemma length_repetir: "length (fst (repetir ex n s)) = n"
  by (induction n arbitrary: s) (simp_all add: case_prod_beta)

lemma peor_es_peor:
  assumes "repetir ex RONDAS s = (vs, s')" "v \<in> set vs"
  shows "peor (fst (medir_repetido fl ex s)) \<in> set vs"
    and "sigmas fl v \<le> sigmas fl (peor (fst (medir_repetido fl ex s)))"
proof -
  let ?k = "\<lambda>v. - sigmas fl v"
  have "v \<in> set (sort_key ?k vs)" using assms(2) by simp
  then have ne: "sort_key ?k vs \<noteq> []" by (metis empty_iff empty_set)
  then show p: "peor (fst (medir_repetido fl ex s)) \<in> set vs"
    using hd_in_set [OF ne] by (simp add: medir_repetido_def assms(1))
  have "sorted (map ?k (sort_key ?k vs))" by (rule sorted_sort_key)
  moreover obtain w ws where w: "sort_key ?k vs = w # ws" using ne by (cases "sort_key ?k vs") auto
  moreover have "v \<in> set (w # ws)" using assms(2) by (simp add: w [symmetric])
  ultimately have "?k w \<le> ?k v" by auto
  then show "sigmas fl v \<le> sigmas fl (peor (fst (medir_repetido fl ex s)))"
    by (simp add: medir_repetido_def assms(1) w)
qed

lemma una_ronda_no_condena:
  assumes "repetir ex RONDAS s = (vs, s')" "length (filter (distingue fl) vs) \<le> 1"
  shows "\<not> vr_distingue (fst (medir_repetido fl ex s))"
  using assms by (simp add: medir_repetido_def vr_distingue_def RONDAS_PARA_ACUSAR_def)

lemma todas_condenan:
  assumes "repetir ex RONDAS s = (vs, s')" "\<forall>v \<in> set vs. distingue fl v"
  shows "vr_distingue (fst (medir_repetido fl ex s)) \<and> rondas_que_acusan (fst (medir_repetido fl ex s)) = 3"
  using assms length_repetir [of ex RONDAS s]
  by (simp add: medir_repetido_def vr_distingue_def RONDAS_PARA_ACUSAR_def RONDAS_def)

text \<open>The threshold never exceeds what a constant byte reaches.\<close>

lemma umbral_loop_acotado: "m + k = Suc n \<Longrightarrow> umbral_loop fl l re n m k t c \<le> max n 3"
  by (induction m arbitrary: k t c) (auto simp: Let_def)

lemma umbral_posicional_acotado: "3 \<le> umbral_posicional fl n largo \<and> umbral_posicional fl n largo \<le> max n 3"
proof -
  have "3 \<le> umbral_loop fl l re n m k t c" for l re m k t c
    by (induction m arbitrary: k t c) (auto simp: Let_def)
  then show ?thesis using umbral_loop_acotado by (simp add: umbral_posicional_def Let_def)
qed

lemma cuenta_maxima_bounds:
  "cuenta_maxima ms p \<le> length ms"
  "v < 256 \<Longrightarrow> length (filter (\<lambda>m. unat (m ! p) = v) ms) \<le> cuenta_maxima ms p"
  by (auto simp: cuenta_maxima_def intro!: Max_ge simp del: upt_Suc)

lemma fold_mayor:
  "snd (fold (\<lambda>p (pp, pr). let rep = f p in if pr < rep then (p, rep) else (pp, pr)) ps (a, b)) =
    Max (set (b # map f ps))"
proof -
  have "snd (fold (\<lambda>p (pp, pr). let rep = f p in if pr < rep then (p, rep) else (pp, pr)) ps (a, b)) = fold max (map f ps) b"
    by (induction ps arbitrary: a b) (auto simp: Let_def max_def)
  then show ?thesis by (simp only: Max.set_eq_fold)
qed

text \<open>What the search reports of a population that is not empty.\<close>

lemma posicion_mas_delatora_eq:
  assumes "muestras \<noteq> []" "[] \<notin> set muestras"
  defines "largo \<equiv> Min (set (map length muestras))"
  shows "repeticiones (posicion_mas_delatora fl muestras) = Max (set (0 # map (cuenta_maxima muestras) [0..<largo]))"
    "sp_umbral (posicion_mas_delatora fl muestras) = umbral_posicional fl (length muestras) largo"
    "sp_muestras (posicion_mas_delatora fl muestras) = length muestras"
proof -
  have "0 < largo" unfolding largo_def using assms(1,2) by (subst Min_gr_iff) auto
  then have c: "\<not> (largo = 0 \<or> length muestras = 0)" using assms(1) by simp
  obtain pp pr where f: "fold (\<lambda>p (pp, pr). let rep = cuenta_maxima muestras p in if pr < rep then (p, rep) else (pp, pr))
      [0..<largo] (0, 0) = (pp, pr)" by fastforce
  have e: "posicion_mas_delatora fl muestras = \<lparr>sp_posicion = pp, repeticiones = pr,
      sp_umbral = umbral_posicional fl (length muestras) largo, sp_muestras = length muestras\<rparr>"
    using f c unfolding posicion_mas_delatora_def if_not_P [OF assms(1)] largo_def [symmetric] by (simp add: Let_def)
  have "pr = Max (set (0 # map (cuenta_maxima muestras) [0..<largo]))"
    using fold_mayor [of "cuenta_maxima muestras" "[0..<largo]" 0 0] unfolding f by simp
  then show "repeticiones (posicion_mas_delatora fl muestras) = Max (set (0 # map (cuenta_maxima muestras) [0..<largo]))"
    "sp_umbral (posicion_mas_delatora fl muestras) = umbral_posicional fl (length muestras) largo"
    "sp_muestras (posicion_mas_delatora fl muestras) = length muestras"
    unfolding e by simp_all
qed

text \<open>
  The test of positions is complete for the defect it looks for: a byte that has the same value in all
  samples, however few beyond two, is reported, and never without need: with fewer than three samples
  nothing is.
\<close>

lemma posicion_constante_delata:
  assumes n: "3 \<le> length muestras" and c: "\<forall>m \<in> set muestras. p < length m \<and> m ! p = b"
  shows "delata (posicion_mas_delatora fl muestras) \<and> repeticiones (posicion_mas_delatora fl muestras) = length muestras"
proof -
  let ?largo = "Min (set (map length muestras))"
  have ne: "muestras \<noteq> []" "[] \<notin> set muestras" using n c by auto
  have p: "p < ?largo" using ne c by (subst Min_gr_iff) auto
  have "filter (\<lambda>m. unat (m ! p) = unat b) muestras = muestras" using c by (simp add: filter_id_conv)
  then have "length muestras \<le> cuenta_maxima muestras p"
    using cuenta_maxima_bounds(2) [where v = "unat b" and p = p and ms = muestras] unat_u8_lt [of b] by simp
  then have "cuenta_maxima muestras p = length muestras" using cuenta_maxima_bounds(1) [of muestras p] by simp
  then have "Max (set (0 # map (cuenta_maxima muestras) [0..<?largo])) = length muestras"
    using p cuenta_maxima_bounds(1) by (intro Max_eqI) (auto simp: image_iff intro!: bexI [of _ p])
  then have r: "repeticiones (posicion_mas_delatora fl muestras) = length muestras"
    using posicion_mas_delatora_eq(1) [OF ne] by simp
  moreover have "umbral_posicional fl (length muestras) ?largo \<le> length muestras"
    using umbral_posicional_acotado [of fl "length muestras" ?largo] n by simp
  ultimately show ?thesis using n ne(1) by (simp add: delata_def posicion_mas_delatora_eq(2,3) [OF ne])
qed

lemma pocas_no_delatan:
  assumes "length muestras < 3"
  shows "\<not> delata (posicion_mas_delatora fl muestras)"
proof (cases "muestras = [] \<or> [] \<in> set muestras")
  case True
  then have "muestras = [] \<or> Min (set (map length muestras)) = 0"
  proof
    assume "[] \<in> set muestras"
    then have "Min (set (map length muestras)) \<le> 0" by (intro Min_le) force+
    then show ?thesis by (simp only: le_zero_eq simp_thms)
  qed (rule disjI1)
  then show ?thesis by (auto simp: posicion_mas_delatora_def delata_def)
next
  case False
  then have ne: "muestras \<noteq> []" "[] \<notin> set muestras" by auto
  have "repeticiones (posicion_mas_delatora fl muestras) \<le> length muestras"
    unfolding posicion_mas_delatora_eq(1) [OF ne] using cuenta_maxima_bounds(1) by (intro Max.boundedI) auto
  moreover have "3 \<le> sp_umbral (posicion_mas_delatora fl muestras)"
    unfolding posicion_mas_delatora_eq(2) [OF ne] using umbral_posicional_acotado by blast
  ultimately show ?thesis using assms unfolding delata_def by linarith
qed

text \<open>A magic number at the front of three samples.\<close>

lemma posicion_constante_delata_example:
  "delata (posicion_mas_delatora \<lparr>rd = \<lambda>x. x, fexp = \<lambda>x. x, fsqrt = \<lambda>x. x\<rparr> [[81, 1, 2], [81, 7], [81, 3, 9]])"
  using posicion_constante_delata [of "[[81, 1, 2], [81, 7], [81, 3, 9]]" 0 81] by simp

section \<open>When the bench says clean\<close>

lemma limpio_iff: "limpio vs \<longleftrightarrow> vs \<noteq> [] \<and> (\<forall>v \<in> set vs. fi_resultado v = Indistinguible)"
proof -
  have "\<not> fi_distingue v \<and> concluyente v \<longleftrightarrow> fi_resultado v = Indistinguible" for v
    by (cases "fi_resultado v") (simp_all add: fi_distingue_def concluyente_def)
  then show ?thesis by (auto simp: limpio_def hay_fuga_def hay_inconcluso_def list_ex_iff)
qed

text \<open>
  A bench of repeated measurements is clean exactly when every probe looked at something and in none did
  two of three rounds accuse; an empty bench, and one that measured too little, are not.
\<close>

lemma banco_limpio_iff:
  "limpio (map (\<lambda>(p, s, vr). desde_bytes fl p s vr) sondas) \<longleftrightarrow>
    sondas \<noteq> [] \<and> (\<forall>(p, s, vr) \<in> set sondas. evaluadas (peor vr) \<noteq> 0 \<and> rondas_que_acusan vr < 2)"
proof -
  have "fi_resultado (desde_bytes fl p s vr) = Indistinguible \<longleftrightarrow> evaluadas (peor vr) \<noteq> 0 \<and> rondas_que_acusan vr < 2" for p s vr
    by (auto simp: desde_bytes_def vr_distingue_def RONDAS_PARA_ACUSAR_def Let_def)
  then show ?thesis by (auto simp: limpio_iff)
qed

lemma dudect_limpio_iff:
  "limpio (map desde_dudect rs) \<longleftrightarrow> rs \<noteq> [] \<and> (\<forall>r \<in> set rs. 200 \<le> du_n r \<and> is_constant_time r DUDECT_T_THRESHOLD)"
proof -
  have "fi_resultado (desde_dudect r) = Indistinguible \<longleftrightarrow> 200 \<le> du_n r \<and> is_constant_time r DUDECT_T_THRESHOLD" for r
    by (auto simp: desde_dudect_def is_constant_time_def Let_def)
  then show ?thesis by (auto simp: limpio_iff)
qed

text \<open>The worst verdict is one of them, and none has less room.\<close>

lemma peor_ficha_es_peor:
  assumes "vs \<noteq> []"
  shows "\<exists>w. peor_ficha fl vs = Some w \<and> w \<in> set vs \<and> (\<forall>v \<in> set vs. holgura fl v \<le> holgura fl w)"
proof -
  let ?f = "\<lambda>v m. case m of None \<Rightarrow> Some v | Some w \<Rightarrow> Some (if holgura fl w \<le> holgura fl v then v else w)"
  have "\<exists>w. fold ?f xs (Some u) = Some w \<and> w \<in> insert u (set xs) \<and> (\<forall>v \<in> insert u (set xs). holgura fl v \<le> holgura fl w)" for u xs
  proof (induction xs arbitrary: u)
    case (Cons v xs)
    show ?case using Cons [of "if holgura fl u \<le> holgura fl v then v else u"]
      by (auto split: if_splits)
  qed simp
  then show ?thesis using assms by (cases vs) (auto simp: peor_ficha_def)
qed

end
