(* ===== verification/Simbolo.thy ===== *)
theory Simbolo
  imports Papel
begin

text \<open>
  The module \<^verbatim>\<open>qr\<close> of \<^verbatim>\<open>crates/quipu-nucleo/src/papel.rs\<close>: each piece of a package as a QR symbol of its
  own, a square of modules.  The encoder is the crate \<^verbatim>\<open>qrcode\<close>: the record \<open>qrcode\<close>.
\<close>

datatype color = Dark | Light

datatype ec_level = EcL | EcM | EcQ | EcH

record 'q qrcode =
  with_error_correction_level :: "bytes \<Rightarrow> ec_level \<Rightarrow> string + 'q"
  qr_width :: "'q \<Rightarrow> nat"
  to_colors :: "'q \<Rightarrow> color list"

definition NIVEL_POR_DEFECTO :: ec_level where
  "NIVEL_POR_DEFECTO = EcH"

record simbolo =
  lado :: nat
  oscuros :: "bool list"

definition oscuro :: "simbolo \<Rightarrow> nat \<Rightarrow> nat \<Rightarrow> bool" where
  "oscuro s x y \<longleftrightarrow> x < lado s \<and> y < lado s \<and> oscuros s ! (y * lado s + x)"

definition a_texto :: "simbolo \<Rightarrow> bytes" where
  "a_texto s =
     concat (map (\<lambda>y. map (\<lambda>x. if oscuro s x y then 35 else 46) [0..<lado s] @ [10]) [0..<lado s])"

fun simbolos :: "'q qrcode \<Rightarrow> bytes list \<Rightarrow> ec_level \<Rightarrow> papel_error + simbolo list" where
  "simbolos Q [] nivel = Inr []"
| "simbolos Q (t # trozos) nivel =
     (case with_error_correction_level Q t nivel of
        Inl e \<Rightarrow> Inl (SimboloImposible e)
      | Inr code \<Rightarrow>
          let s = \<lparr>lado = qr_width Q code, oscuros = map (\<lambda>c. c = Dark) (to_colors Q code)\<rparr>
          in case simbolos Q trozos nivel of Inl e \<Rightarrow> Inl e | Inr ss \<Rightarrow> Inr (s # ss))"

section \<open>What is printed\<close>

definition simbolo_ok :: "simbolo \<Rightarrow> bool" where
  "simbolo_ok s \<longleftrightarrow> length (oscuros s) = lado s * lado s"

text \<open>
  ISO 18004: a symbol is a square, and a reader (any, \<open>leer\<close>) that is shown its modules gives back what
  was encoded.
\<close>

definition qr_ok :: "'q qrcode \<Rightarrow> (nat \<Rightarrow> (nat \<Rightarrow> nat \<Rightarrow> bool) \<Rightarrow> bytes option) \<Rightarrow> bool" where
  "qr_ok Q leer \<longleftrightarrow>
     (\<forall>t nivel code. with_error_correction_level Q t nivel = Inr code \<longrightarrow>
        length (to_colors Q code) = qr_width Q code * qr_width Q code \<and>
        leer (qr_width Q code) (\<lambda>x y. x < qr_width Q code \<and> y < qr_width Q code \<and>
          to_colors Q code ! (y * qr_width Q code + x) = Dark) = Some t)"

text \<open>A reader that is not ours reads off every symbol the piece it was made of.\<close>

lemma simbolos_se_leen:
  assumes Q: "qr_ok Q leer" and "simbolos Q trozos nivel = Inr ss"
  shows "map (\<lambda>s. leer (lado s) (oscuro s)) ss = map Some trozos \<and> list_all simbolo_ok ss"
  using assms(2)
proof (induction trozos arbitrary: ss)
  case (Cons t trozos)
  obtain code rest where c: "with_error_correction_level Q t nivel = Inr code"
      and r: "simbolos Q trozos nivel = Inr rest"
      and ss: "ss = \<lparr>lado = qr_width Q code, oscuros = map (\<lambda>c. c = Dark) (to_colors Q code)\<rparr> # rest"
    using Cons.prems by (auto simp: Let_def split: sum.splits)
  have l: "length (to_colors Q code) = qr_width Q code * qr_width Q code"
    and t: "leer (qr_width Q code) (\<lambda>x y. x < qr_width Q code \<and> y < qr_width Q code \<and>
      to_colors Q code ! (y * qr_width Q code + x) = Dark) = Some t"
    using Q c unfolding qr_ok_def by blast+
  have "oscuro (hd ss) = (\<lambda>x y. x < qr_width Q code \<and> y < qr_width Q code \<and>
      to_colors Q code ! (y * qr_width Q code + x) = Dark)"
    using posicion_menor [of _ "qr_width Q code" _ "qr_width Q code"]
    by (intro ext) (auto simp: oscuro_def ss l)
  with t have "leer (lado (hd ss)) (oscuro (hd ss)) = Some t" by (simp add: ss)
  with Cons.IH [OF r] show ?case by (simp add: ss simbolo_ok_def l)
qed simp

text \<open>The text of a symbol says all of it.\<close>

lemma concat_igual:
  "(\<And>y. y \<in> set ys \<Longrightarrow> length (f y) = n) \<Longrightarrow> (\<And>y. y \<in> set ys \<Longrightarrow> length (g y) = n) \<Longrightarrow>
    concat (map f ys) = concat (map g ys) \<Longrightarrow> y \<in> set ys \<Longrightarrow> f y = g y"
  by (induction ys) auto

lemma length_a_texto: "length (a_texto s) = (lado s + 1) * lado s"
  by (simp add: a_texto_def length_concat comp_def sum_list_triv mult.commute)

lemma a_texto_inj:
  assumes "simbolo_ok s" "simbolo_ok s'" "a_texto s = a_texto s'"
  shows "s = s'"
proof -
  have "(a + 1) * a < (b + 1) * (b :: nat)" if "a < b" for a b
    using that by (intro mult_strict_mono') simp_all
  then have crece: "a < b \<Longrightarrow> (a + 1) * a \<noteq> (b + 1) * b" for a b :: nat by (blast dest: less_imp_neq)
  have "(lado s + 1) * lado s = (lado s' + 1) * lado s'"
    using arg_cong [OF assms(3), of length] by (simp only: length_a_texto)
  then have n: "lado s' = lado s" using crece [of "lado s" "lado s'"] crece [of "lado s'" "lado s"] by linarith
  let ?f = "\<lambda>s y. map (\<lambda>x. if oscuro s x y then 35 else 46 :: u8) [0..<lado s] @ [10]"
  have c: "concat (map (?f s) [0..<lado s]) = concat (map (?f s') [0..<lado s])"
    using assms(3) by (simp only: a_texto_def n)
  have "oscuro s x y = oscuro s' x y" if "x < lado s" "y < lado s" for x y
  proof -
    have "?f s y = ?f s' y"
      by (rule concat_igual [where n = "lado s + 1", OF _ _ c]) (use that n in simp_all)
    then have "(?f s y) ! x = (?f s' y) ! x" by (rule arg_cong)
    then show ?thesis using that by (simp add: nth_append n split: if_splits)
  qed
  then have *: "oscuros s ! (y * lado s + x) = oscuros s' ! (y * lado s + x)" if "x < lado s" "y < lado s" for x y
    using that by (simp add: oscuro_def n)
  have "oscuros s = oscuros s'"
  proof (rule nth_equalityI)
    fix i assume "i < length (oscuros s)"
    then have i: "i < lado s * lado s" using assms(1) by (simp add: simbolo_ok_def)
    then have "i mod lado s < lado s" "i div lado s < lado s"
      by (cases "lado s = 0"; simp add: less_mult_imp_div_less)+
    from * [OF this] show "oscuros s ! i = oscuros s' ! i" by simp
  qed (use assms(1,2) n in \<open>simp add: simbolo_ok_def\<close>)
  then show ?thesis using n by simp
qed

text \<open>
  From the printer to the data: of a package drawn as symbols, whatever level they were drawn at, any of
  them but the tolerated number, read by any reader in any order, give the data back.
\<close>

lemma impreso_y_leido:
  assumes Q: "qr_ok Q leer" and R: "rs_ok R" and e: "empaquetar R datos cap par = Inr trozos"
    and s: "simbolos Q trozos nivel = Inr ss"
    and len: "length datos < 2 ^ 32" "length (protect R datos par) < 2 ^ 32"
    and js: "distinct js" "set js \<subseteq> {..<length ss}"
    and t: "length ss - length js \<le> simbolos_perdidos_tolerados (length ss) par"
  shows "\<exists>leidos. map (\<lambda>j. leer (lado (ss ! j)) (oscuro (ss ! j))) js = map Some leidos \<and>
    reensamblar R leidos = Some (Inr datos)"
proof (intro exI conjI)
  have m: "map (\<lambda>s. leer (lado s) (oscuro s)) ss = map Some trozos" using simbolos_se_leen [OF Q s] by blast
  then have l: "length ss = length trozos" by (metis length_map)
  have "leer (lado (ss ! j)) (oscuro (ss ! j)) = Some (trozos ! j)" if "j < length ss" for j
    using arg_cong [OF m, of "\<lambda>xs. xs ! j"] that l by simp
  then show "map (\<lambda>j. leer (lado (ss ! j)) (oscuro (ss ! j))) js = map Some (map ((!) trozos) js)"
    using js(2) by auto
  show "reensamblar R (map ((!) trozos) js) = Some (Inr datos)"
    using reensamblar_supervivientes [OF R e len js(1)] js(2) t l by simp
qed

end
