(* ===== verification/Spec2Isabelle.thy ===== *)
theory Spec2Isabelle
  imports Prelude Roundtrip Padme Codec Container Dictionary Kdf Aleatorio Selftest Antihacker
    Api Instances GF256 Interpolation Shamir Stream
    Netlimit Hexutil Keys Plans Store Voprf Http
    Negacion Honey Papel Reed Custodia Cliente Bits Tecleable Firma Firmante Pkcs11 Hibrido Online Oprf Lista Palabras
    Cnsa Cnsakeys Autoprueba Ceremonia Calendario Servidor Laboratorio Ataques Corpus Hackerbot Python
    Fotocopia Distinguidor Simbolo
begin

text \<open>
  A model of \<^bold>\<open>quipu\<close>, a Rust workspace that turns data into encrypted artefacts (text in a codebook,
  binary containers, streams, printed sheets), and of the service that hardens its passphrases.
  Every definition is written after the function of the source it is named after; what each theory
  proves holds of those definitions.

  \<^bold>\<open>The program and how its parts interact.\<close>
  The passphrase mode of \<^verbatim>\<open>src/src/api.rs\<close> first runs the latched self-test (\<^verbatim>\<open>selftest.rs\<close>), pads the data
  (\<^verbatim>\<open>padme-frame\<close>, through \<^verbatim>\<open>prelayers.rs\<close>), draws salt and nonce (\<^verbatim>\<open>aleatorio.rs\<close>), derives a key
  (\<^verbatim>\<open>kdf.rs\<close>), seals (\<^verbatim>\<open>cipher.rs\<close>) with the header as associated data (\<^verbatim>\<open>container.rs\<close>) and writes the
  blob in base \<open>n\<close> (\<^verbatim>\<open>codec.rs\<close>) over the symbols of a codebook (\<^verbatim>\<open>dictionary.rs\<close>).  Around that pipeline
  stand modes that reuse its parts: streams (\<^verbatim>\<open>stream.rs\<close>), the deniable container (\<^verbatim>\<open>negacion.rs\<close>), honey
  encryption (\<^verbatim>\<open>honey.rs\<close>), hybrid signatures and their custodians (\<^verbatim>\<open>pqsign.rs\<close>, \<^verbatim>\<open>firmante/\<close>), hybrid
  encryption to a recipient (\<^verbatim>\<open>pqhybrid.rs\<close>), secret sharing (\<^verbatim>\<open>shamir.rs\<close>), paper (\<^verbatim>\<open>ecc.rs\<close>,
  \<^verbatim>\<open>papel.rs\<close>), and the profile of CNSA 2.0 (\<^verbatim>\<open>crates/quipu-cnsa\<close>).  The online mode replaces the pepper by
  the answer of a verifiable oblivious PRF (\<^verbatim>\<open>crates/quipu-voprf\<close>, \<^verbatim>\<open>oprf_net.rs\<close>); the same function is
  sold as a service with keys, plans and quotas (\<^verbatim>\<open>crates/quipu-oprf-server\<close>), whose seed is kept in shares.

  \<^bold>\<open>Conventions.\<close>
  A machine integer is a word (\<open>u8\<close>, \<open>u16\<close>, \<open>u32\<close>, \<open>u64\<close> of Prelude); a \<^verbatim>\<open>usize\<close> that is a length or an
  index is a natural number, with the limits of 64 bits as guards where the code can reach them.  The
  workspace is built with overflow checks, so an operation that overflows panics.  A \<^verbatim>\<open>Result\<close> is a
  sum (\<open>Inl\<close> the error), an \<^verbatim>\<open>Option\<close> an option, and a panic is \<open>None\<close> of an outer option.  Randomness is
  threaded: a source (\<open>fuente\<close>) is a function of its own state \<open>'r\<close> that may fail.  Clocks, networks,
  devices, readers and databases are arguments: the readings of a clock, a function over the state of
  the other side, a list of what a reader will deliver, tables with the statements that will fail.

  Code of other packages is a parameter: the records \<open>cripto\<close> (NFKC, Argon2id, HKDF, SHA-256,
  XChaCha20-Poly1305), \<open>firma\<close>/\<open>firma_triple\<close> (Ed25519, ML-DSA, SLH-DSA), \<open>kem\<close> (X25519, ML-KEM),
  \<open>ristretto\<close> (the group and its hash), \<open>reed_solomon\<close>, \<open>cnsa\<close> (the primitives of the CNSA profile), \<open>sesion\<close>
  (a PKCS#11 session) and \<open>cryptoki\<close> (how one is opened), \<open>qrcode\<close> (the encoder of symbols), and \<open>flotante\<close>,
  \<open>exp\<close> and \<open>sqrt\<close>: a floating point number is a rational and every operation on it ends in a rounding
  that is a parameter.  What the code relies on is stated in
  \<open>cripto_ok\<close>, \<open>firma_ok\<close>, \<open>slh_ok\<close>, \<open>kem_ok\<close>, \<open>ristretto_ok\<close>, \<open>rs_ok\<close>, \<open>cnsa_ok\<close>, \<open>pkcs11_ok\<close>, \<open>qr_ok\<close>, \<open>f64_ok\<close>,
  \<open>fuente_ok\<close>: lengths, that a reader takes back what the writer wrote, that an AEAD opens exactly what was
  sealed with the same key, nonce and associated data.  None says that something is hard to break:
  where security rests on that, the theorem says what an adversary would have had to produce (a
  forgery of each scheme, a proof of a false statement).  Each family of laws is met by a concrete
  instance (Instances, Firma, Hibrido, Voprf, Reed, Pkcs11, Cnsa) that the witnesses use.

  \<^bold>\<open>Theories, the code they model and what they show.\<close>
  \<^item> \<^bold>\<open>Prelude\<close>, \<^bold>\<open>Roundtrip\<close>: words and bytes, slices and big-endian numbers; the locales \<open>roundtrip\<close> and
    \<open>canonical\<close>, the contract of a writer and its reader, interpreted by Padme, Codec, Dictionary,
    Container, Hexutil, Shamir, Stream and Api on the code's own functions.
  \<^item> \<^bold>\<open>Padme\<close> (\<^verbatim>\<open>padme-frame/src/lib.rs\<close>, \<^verbatim>\<open>prelayers.rs\<close>): the padded length equals the published formula
    in exact arithmetic, overhead bounds, the frame round trips and its reader refuses every other length.
  \<^item> \<^bold>\<open>Codec\<close> (\<^verbatim>\<open>codec.rs\<close>): the block-wise base-\<open>n\<close> conversion equals the one-number reference; the group codec
    keeps damage local.  \<^bold>\<open>Dictionary\<close> (\<^verbatim>\<open>dictionary.rs\<close>, \<^verbatim>\<open>dictionaries.rs\<close>): codebooks are bijections; the
    shipped ones are checked.  \<^bold>\<open>Container\<close> (\<^verbatim>\<open>container.rs\<close>): the parser accepts exactly the serialisations.
  \<^item> \<^bold>\<open>Kdf\<close> (\<^verbatim>\<open>kdf.rs\<close>, \<^verbatim>\<open>cipher.rs\<close>): parameters, their sanity, keys and subkeys; the locale \<open>aead\<close> with
    its interpretation.  \<^bold>\<open>Aleatorio\<close> (\<^verbatim>\<open>aleatorio.rs\<close>): health tests and bounded retries.  \<^bold>\<open>Antihacker\<close>
    (\<^verbatim>\<open>antihacker.rs\<close>): constant-time equality is equality; the nonce guard finds the first repetition.
  \<^item> \<^bold>\<open>Selftest\<close>, \<^bold>\<open>Autoprueba\<close> (\<^verbatim>\<open>selftest.rs\<close>): the latch is decided once; the fourteen checks pass on
    primitives that meet their laws and block the library otherwise.
  \<^item> \<^bold>\<open>Api\<close> (\<^verbatim>\<open>api.rs\<close>, passphrase mode): the pipeline above; its properties are in this theory.
  \<^item> \<^bold>\<open>Stream\<close> (\<^verbatim>\<open>stream.rs\<close>): readers that deliver in any pieces, writers that fail, chunk nonces that bind
    position and end: round trip, and nothing unauthentic is ever written.
  \<^item> \<^bold>\<open>Negacion\<close> (\<^verbatim>\<open>negacion.rs\<close>), \<^bold>\<open>Honey\<close> (\<^verbatim>\<open>honey.rs\<close>): each passphrase opens its own volume, and what does
    not open looks the same; every passphrase gives a plausible secret.
  \<^item> \<^bold>\<open>GF256\<close>, \<^bold>\<open>Interpolation\<close>, \<^bold>\<open>Shamir\<close> (\<^verbatim>\<open>shamir.rs\<close>): the bytes as an instance of \<open>field\<close>, Lagrange
    interpolation over any field, and sharing: enough shares restore; for fewer, the draws that give them
    correspond one to one between any two secrets.
  \<^item> \<^bold>\<open>Papel\<close>, \<^bold>\<open>Reed\<close> (\<^verbatim>\<open>ecc.rs\<close>, \<^verbatim>\<open>papel.rs\<close>): symbols, interleaving, and the promised tolerance; a concrete
    Reed-Solomon code.  \<^bold>\<open>Bits\<close>, \<^bold>\<open>Tecleable\<close>, \<^bold>\<open>Lista\<close>, \<^bold>\<open>Palabras\<close> (modules of \<^verbatim>\<open>papel.rs\<close>): Base32 text to
    type and phrases of the BIP-39 list, with exact readers.  \<^bold>\<open>Simbolo\<close> (the module \<^verbatim>\<open>qr\<close> of \<^verbatim>\<open>papel.rs\<close>):
    a sheet printed in QR symbols, in which any reader that inverts the encoder finds the pieces again.
  \<^item> \<^bold>\<open>Firma\<close> (\<^verbatim>\<open>pqsign.rs\<close>), \<^bold>\<open>Firmante\<close> (\<^verbatim>\<open>firmante/mod.rs\<close>, signed modes of \<^verbatim>\<open>api.rs\<close>), \<^bold>\<open>Pkcs11\<close>
    (\<^verbatim>\<open>firmante/pkcs11.rs\<close>): signatures, custodians (the locale \<open>custodia_de_firma\<close>, interpreted for the key
    in memory and for the device), containers, no downgrade between modes.
  \<^item> \<^bold>\<open>Hibrido\<close> (\<^verbatim>\<open>pqhybrid.rs\<close>, recipient mode of \<^verbatim>\<open>api.rs\<close>): the combiner binds the whole transcript.
  \<^item> \<^bold>\<open>Voprf\<close> (\<^verbatim>\<open>quipu-voprf/src/rfc9497.rs\<close>), \<^bold>\<open>Online\<close>, \<^bold>\<open>Oprf\<close> (\<^verbatim>\<open>api.rs\<close>, \<^verbatim>\<open>oprf_net.rs\<close>, \<^verbatim>\<open>oprf.rs\<close>):
    blinding and proofs, both carriers over a network that may do anything, and the deprecated protocol.
  \<^item> \<^bold>\<open>Netlimit\<close> (\<^verbatim>\<open>netlimit.rs\<close>); \<^bold>\<open>Hexutil\<close>, \<^bold>\<open>Keys\<close>, \<^bold>\<open>Plans\<close>, \<^bold>\<open>Store\<close>, \<^bold>\<open>Http\<close>, \<^bold>\<open>Custodia\<close>, \<^bold>\<open>Ceremonia\<close>,
    \<^bold>\<open>Cliente\<close> (the files of \<^verbatim>\<open>quipu-oprf-server/src\<close> and its tool \<^verbatim>\<open>bin/custodia-seed.rs\<close>): limits and
    quotas as invariants over runs, the tables refine the life of a key, routes are authorised, restored
    seeds are checked, client and server together compute the keyed function.
  \<^item> \<^bold>\<open>Calendario\<close> (the periods of \<^verbatim>\<open>store.rs\<close>): \<^verbatim>\<open>civil_from_days\<close> equals the Gregorian calendar read off
    its leap years, so a billing period is a month.  \<^bold>\<open>Servidor\<close> (\<^verbatim>\<open>main.rs\<close>): the command line, the seed
    from the environment, and keys issued on the command line that the service then accepts.
  \<^item> \<^bold>\<open>Cnsa\<close>, \<^bold>\<open>Cnsakeys\<close> (\<^verbatim>\<open>quipu-cnsa/src\<close>): the other interpretation of \<open>aead\<close>, the reader of the profile
    accepts exactly its writer's blobs, its recipient channel and its signatures.
  \<^item> \<^bold>\<open>Laboratorio\<close> (\<^verbatim>\<open>src/src/lab/engine.rs\<close>): the loop that runs an attack on a generator, which never
    repeats an output within its period; the locale \<open>ataque_inofensivo\<close>: an attack whose step finds nothing
    ends with an empty report.  \<^bold>\<open>Ataques\<close> (\<^verbatim>\<open>lab/leak.rs\<close>, \<^verbatim>\<open>lab/honey_attack.rs\<close>, \<^verbatim>\<open>lab/honey_fuzz.rs\<close>)
    interprets it for the three attacks on the models of the product: lengths tell the bucket and no
    more, no passphrase is told from another.  \<^bold>\<open>Corpus\<close> (\<^verbatim>\<open>lab/corpus.rs\<close>, \<^verbatim>\<open>lab/guard.rs\<close>): what the
    head of the chain of findings commits to, and what it does not.  \<^bold>\<open>Hackerbot\<close>
    (\<^verbatim>\<open>src/src/hackerbot.rs\<close>): which of its attacks can find something.  \<^bold>\<open>Fotocopia\<close> (\<^verbatim>\<open>lab/papel.rs\<close>):
    the sheet, the photocopier and two ways to print bytes, modules and letters; the locale
    \<open>portador_fiel\<close>, the contract of a carrier, interpreted for both: a legible copy is read exactly.
    \<^bold>\<open>Distinguidor\<close> (\<^verbatim>\<open>lab/distinguidor.rs\<close>, \<^verbatim>\<open>lab/indistinguibilidad.rs\<close>, the report of
    \<^verbatim>\<open>lab/timing.rs\<close>): training, verdicts and the bench: samples that are the same are not told apart, a
    constant position is denounced, and when the bench reports that all is clean.
  \<^item> \<^bold>\<open>Python\<close> (\<^verbatim>\<open>src/src/python.rs\<close>, the Python module of \<^verbatim>\<open>quipu-voprf/src/lib.rs\<close>): the same
    operations over keys, shares and states that are bytes, with the exceptions as values; what goes out
    comes back, and what each function does when the machine has no entropy.

  \<^bold>\<open>Bounds and fuel.\<close>
  Recursion is structural or has a measure; no operation runs on fuel (the loops of the laboratory run
  the number of rounds their caller asks for).  The one loop that would not
  end on every argument, \<open>paso_loop\<close> of Codec, is a partial function, and its callers' arguments are proved
  to give a result.  The loops of the source that are bounded by a constant keep it: three draws in \<open>llenar\<close>, 256 counters in the key derivation of
  RFC 9497 (\<open>None\<close> beyond them, as the code's error).  \<open>2 ^ 63\<close> bounds a padded length, \<open>2 ^ 32\<close> a passphrase
  (the limit of Argon2), about 256 GiB a sealed message (the limit of the cipher), beyond which the code
  panics and the model gives \<open>None\<close>.

  \<^bold>\<open>Not modelled.\<close>
  Wiping of the stack, and constant time as such (values are modelled, not traces; \<open>wipe\<close> only as the
  value it leaves); messages of \<^verbatim>\<open>Display\<close> and of the standard error; the scanning of QR
  symbols; the socket and the threads of the server; the registration of the Python modules; crate roots,
  examples and fuzz targets.  Of the laboratory, the measurements of \<^verbatim>\<open>timing.rs\<close> and
  \<^verbatim>\<open>muestras_de_ciphertext\<close>, which read the machine's clock and randomness; \<^verbatim>\<open>guessing.rs\<close>, a cost in years;
  and \<^verbatim>\<open>forge.rs\<close>, \<^verbatim>\<open>forge_triple.rs\<close> and \<^verbatim>\<open>stream_attack.rs\<close>, which try random changes whose failure is
  a fact of the primitives' hardness, which no law here states.
\<close>

section \<open>Concrete artefacts for the witnesses\<close>

text \<open>The options with the parameters one step out of bounds.\<close>

definition demo_options_17 :: options where
  "demo_options_17 = options_default\<lparr>opt_kdf_params := EQUILIBRADO\<lparr>iterations := 17\<rparr>\<rparr>"

lemma default_sane: "is_sane (opt_kdf_params options_default)"
  by (intro canonicos_sane)
    (simp add: options_default_def kdf_params_default_def kdf_es_canonico_def canonicos_def)

lemma insane_17: "\<not> is_sane (opt_kdf_params demo_options_17)"
  by (simp add: demo_options_17_def options_default_def is_sane_def EQUILIBRADO_def MAX_ITERATIONS_def)

lemma demo_secret:
  "length (utf8 (nfkc demo_cripto [97, 98])) + length (opt_pepper options_default) < 2 ^ 32"
  by (simp add: demo_cripto_def utf8_def utf8_char_def options_default_def)

lemma demo_encode:
  assumes "derive_master_key demo_cripto [97, 98] (map of_nat [0..<16]) (opt_pepper opts)
    (opt_kdf_params opts) = Some master"
  shows "\<exists>s. encode demo_informe demo_cripto demo_fuente [1, 2, 3] [97, 98] (projr flagship) opts 0
    = Some (s, 40)"
proof -
  obtain blob where blob: "encode_to_blob demo_cripto demo_fuente [1, 2, 3] [97, 98]
      (fingerprint (sha256 demo_cripto) (projr flagship)) opts 0 = Some (blob, 40)"
    using encode_to_blob_derives [OF demo_cripto_ok _ demo_draws assms, of "[1, 2, 3]"] by fastforce
  obtain s where "representar (projr flagship) blob = Some s"
    using representar_total [OF flagship_wf] by blast
  with blob demo_informe_ok show ?thesis
    by (simp add: encode_def ensure_def try_ensure_def get_or_init_def Let_def)
qed

lemma demo_derives:
  "\<exists>k. derive_master_key demo_cripto [97, 98] (map of_nat [0..<16]) (opt_pepper options_default)
     (opt_kdf_params options_default) = Some k"
  "\<exists>k. derive_master_key demo_cripto [97, 98] (map of_nat [0..<16]) (opt_pepper demo_options_17)
     (opt_kdf_params demo_options_17) = Some k"
  by (simp_all add: derive_master_key_def normalizar_def demo_cripto_def demo_argon2id_def utf8_def
      utf8_char_def options_default_def demo_options_17_def kdf_params_default_def EQUILIBRADO_def
      del: upt_rec_numeral)

section \<open>The passphrase pipeline\<close>

text \<open>
  C1. What \<open>encode\<close> writes, \<open>decode\<close> reads, with the same passphrase, pepper and codebook and whatever the
  randomness drawn, if the KDF parameters of the options are sane: the whole way symbols, codec, container,
  key derivation, AEAD and padding ends in the data that went in.  \<open>encode\<close> does not check them, though
  \<open>decode\<close> does: under parameters that are not sane what it writes is refused with \<open>Decrypt\<close>.
\<close>
theorem pipeline_roundtrip:
  assumes "cripto_ok C" and "fuente_ok fuente" and "dictionary_wf dict" and "length data < 2 ^ 63"
    and "encode informe C fuente data pw dict opts r = Some (symbols, r')"
  shows "decode informe C symbols pw dict (opt_pepper opts) =
    Some (if is_sane (opt_kdf_params opts) then Inr data else Inl Decrypt)"
  by (rule decode_encode [OF assms])

text \<open>
  C2. \<open>encode\<close> always produces an artefact: with a passing self-test, sane parameters, data below
  128 GiB and a source that delivers, no \<^verbatim>\<open>expect\<close> on the way fires.
\<close>
theorem encode_total:
  assumes "cripto_ok C" and "fuente_ok fuente" and "dictionary_wf dict" and "report_ok informe"
    and "is_sane (opt_kdf_params opts)" and "length data < 2 ^ 37"
    and "length (utf8 (nfkc C pw)) + length (opt_pepper opts) < 2 ^ 32"
    and "llenar_expect fuente SALT_LEN r = Some (salt, r1)"
    and "llenar_expect fuente NONCE_LEN r1 = Some (nonce, r2)"
  shows "\<exists>symbols. encode informe C fuente data pw dict opts r = Some (symbols, r2)"
  using assms by (rule encode_returns)

theorem encode_total_witness:
  "\<exists>symbols. encode demo_informe demo_cripto demo_fuente [1, 2, 3] [97, 98] (projr flagship)
     options_default 0 = Some (symbols, 40)"
proof (rule encode_total)
  show "llenar_expect demo_fuente SALT_LEN 0 = Some (map of_nat [0..<16], 16)"
    using demo_llenar [of 16 0] by (simp add: SALT_LEN_def del: upt_rec_numeral)
  show "llenar_expect demo_fuente NONCE_LEN 16 = Some (map of_nat [16..<40], 40)"
    using demo_llenar [of 24 16] by (simp add: NONCE_LEN_def del: upt_rec_numeral)
qed (use demo_secret in \<open>simp_all add: demo_cripto_ok demo_fuente_ok flagship_wf demo_informe_ok
    default_sane\<close>)

theorem pipeline_roundtrip_witness:
  "\<exists>symbols r'. encode demo_informe demo_cripto demo_fuente [1, 2, 3] [97, 98] (projr flagship)
      options_default 0 = Some (symbols, r') \<and>
    decode demo_informe demo_cripto symbols [97, 98] (projr flagship) (opt_pepper options_default)
      = Some (Inr [1, 2, 3])"
proof -
  obtain s where s: "encode demo_informe demo_cripto demo_fuente [1, 2, 3] [97, 98] (projr flagship)
      options_default 0 = Some (s, 40)"
    using demo_encode demo_derives(1) by blast
  from pipeline_roundtrip [OF demo_cripto_ok demo_fuente_ok flagship_wf _ s] s
  show ?thesis by (simp add: default_sane)
qed

text \<open>
  C3. What \<open>decode_from_blob\<close> accepts is authentic: the blob is a container of this version whose
  ciphertext is the encryption, under the key derived from the passphrase, the pepper and the
  header's own salt and parameters, with the whole header as associated data, of a frame of the
  data returned.  In particular the parameters were within bounds and the codebook was the one
  expected.
\<close>
theorem decode_accepts_only_authentic:
  assumes "cripto_ok C" and "decode_from_blob C blob pw fp pepper = Some (Inr data)"
  shows "\<exists>h padded master key ct.
    blob = quipu_serialize h ct \<and> header_ok SALT_LEN NONCE_LEN h \<and>
    hdr_codebook_hash_prefix h = fp \<and> is_sane (header_params h) \<and>
    derive_master_key C pw (hdr_salt h) pepper (header_params h) = Some master \<and>
    derive_subkey C master CIPHER_SUBKEY_INFO = Some key \<and>
    cipher_encrypt C key (hdr_nonce h) padded (header_to_bytes h) = Some ct \<and>
    prelayers_unpad padded = Inr data"
  using decode_from_blob_Inr [OF assms] by metis

theorem decode_accepts_only_authentic_witness:
  "\<exists>blob h ct. decode_from_blob demo_cripto blob [97, 98] (replicate 8 0) [] = Some (Inr [1, 2, 3]) \<and>
    blob = quipu_serialize h ct \<and> header_ok SALT_LEN NONCE_LEN h"
proof -
  obtain blob where blob: "encode_to_blob demo_cripto demo_fuente [1, 2, 3] [97, 98]
      (replicate 8 0) options_default 0 = Some (blob, 40)"
    using encode_to_blob_total [OF demo_cripto_ok demo_fuente_ok _ default_sane demo_secret demo_draws,
      of "[1, 2, 3]"] by fastforce
  have "decode_from_blob demo_cripto blob [97, 98] (replicate 8 0) (opt_pepper options_default)
      = Some (Inr [1, 2, 3])"
    by (rule decode_encode_blob [OF demo_cripto_ok demo_fuente_ok _ _ default_sane blob]) simp_all
  then have dec: "decode_from_blob demo_cripto blob [97, 98] (replicate 8 0) [] = Some (Inr [1, 2, 3])"
    by (simp add: options_default_def)
  from decode_accepts_only_authentic [OF demo_cripto_ok dec] dec show ?thesis by blast
qed

text \<open>
  C4. The refusals that come before the key derivation need no primitive: a header with another
  codebook's fingerprint, or with parameters out of bounds, is refused whatever Argon2id, HKDF or
  the AEAD would do, so a hostile header cannot make the reader spend their cost.
\<close>
theorem decode_refuses_before_deriving:
  assumes "header_ok SALT_LEN NONCE_LEN h"
    and "hdr_codebook_hash_prefix h \<noteq> fp \<or> \<not> is_sane (header_params h)"
  shows "decode_from_blob C (quipu_serialize h ct) pw fp pepper =
    Some (Inl (if hdr_codebook_hash_prefix h \<noteq> fp then CodebookMismatch else Decrypt))"
proof (rule decode_from_blob_rejects_early)
  show "quipu_parse (quipu_serialize h ct) = Inr (h, ct)"
    using container_parse_serialize [OF assms(1)] by (simp add: quipu_parse_def quipu_serialize_def)
qed (rule assms(2))

text \<open>A header that asks for 4 GiB, read with primitives that always fail.\<close>
theorem decode_refuses_before_deriving_witness:
  "decode_from_blob (demo_cripto\<lparr>argon2id := \<lambda>_ _ _ _ _. None\<rparr>)
     (quipu_serialize \<lparr>hdr_version = 1, hdr_flags = 0, hdr_codebook_id = 0,
        hdr_codebook_hash_prefix = replicate 8 1, hdr_salt = replicate 16 2,
        hdr_nonce = replicate 24 3, hdr_kdf_mem_kib = 4194304, hdr_kdf_iterations = 3,
        hdr_kdf_parallelism = 1\<rparr> [9]) [97] (replicate 8 1) [] = Some (Inl Decrypt)"
proof -
  let ?h = "\<lparr>hdr_version = 1, hdr_flags = 0, hdr_codebook_id = 0,
        hdr_codebook_hash_prefix = replicate 8 1, hdr_salt = replicate 16 2,
        hdr_nonce = replicate 24 3, hdr_kdf_mem_kib = 4194304, hdr_kdf_iterations = 3,
        hdr_kdf_parallelism = 1\<rparr>"
  have "header_ok SALT_LEN NONCE_LEN ?h"
    by (simp add: header_ok_def header_wf_def SALT_LEN_def NONCE_LEN_def container_VERSION_def)
  moreover have "\<not> is_sane (header_params ?h)"
    by (simp add: header_params_def is_sane_def MAX_MEM_KIB_def)
  ultimately show ?thesis
    using decode_refuses_before_deriving [of ?h "replicate 8 1" _ "[9]" "[97]" "[]"] by simp
qed

text \<open>
  \<open>encode\<close> does not check its own parameters against the bounds of \<open>decode\<close>: an artefact
  written with parameters that are not sane is refused by \<open>decode\<close> with every passphrase and every
  pepper, the right ones included.
\<close>
lemma encode_with_insane_params_is_lost:
  assumes "cripto_ok C" and "fuente_ok fuente" and "dictionary_wf dict"
    and "\<not> is_sane (opt_kdf_params opts)"
    and "encode informe C fuente data pw dict opts r = Some (symbols, r')"
  shows "decode informe C symbols pw' dict pepper = Some (Inl Decrypt)"
proof -
  obtain blob where "report_ok informe"
      and blob: "encode_to_blob C fuente data pw (fingerprint (sha256 C) dict) opts r = Some (blob, r')"
      and "leer_simbolos dict symbols = Inr blob"
    using encode_Some [OF assms(5,3)] .
  then have "decode informe C symbols pw' dict pepper =
      decode_from_blob C blob pw' (fingerprint (sha256 C) dict) pepper"
    by (intro decode_eq)
  with insane_params_unreadable [OF assms(2) fingerprint_length [OF assms(1)] assms(4) blob]
  show ?thesis by simp
qed

text \<open>One iteration above the limit: written, and lost.\<close>
lemma encode_with_insane_params_is_lost_example:
  "\<exists>symbols. encode demo_informe demo_cripto demo_fuente [1, 2, 3] [97, 98] (projr flagship)
      demo_options_17 0 = Some (symbols, 40) \<and>
    decode demo_informe demo_cripto symbols [97, 98] (projr flagship) [] = Some (Inl Decrypt)"
proof -
  obtain s where s: "encode demo_informe demo_cripto demo_fuente [1, 2, 3] [97, 98] (projr flagship)
      demo_options_17 0 = Some (s, 40)"
    using demo_encode demo_derives(2) by blast
  from encode_with_insane_params_is_lost [OF demo_cripto_ok demo_fuente_ok flagship_wf insane_17 s] s
  show ?thesis by blast
qed

end
